(* ===== verification/RS_Prelude.thy ===== *)
theory RS_Prelude
  imports Main "HOL-Library.Word"
begin

text \<open>
  Shared vocabulary of the development: the machine integers of the C++ code as words,
  the collections of theorems the component theories extend, and the generic lemmas on
  lists, options and words that several components use.
\<close>

unbundle bit_operations_syntax

type_synonym u8 = "8 word"
type_synonym u16 = "16 word"
type_synonym u32 = "32 word"
type_synonym u64 = "64 word"

named_theorems rs_inv_intro \<open>preservation lemmas of component invariants\<close>
named_theorems rs_step_simps \<open>branch equations of component operations\<close>

section \<open>Options as the early returns of the source\<close>

lemma bind_eq_Some_conv':
  "(case x of None \<Rightarrow> None | Some a \<Rightarrow> f a) = Some y \<longleftrightarrow> (\<exists>a. x = Some a \<and> f a = Some y)"
  by (cases x) auto

section \<open>Ranges of updated maps\<close>

lemma ran_split_at:
  assumes "f k = Some t"
  shows "ran f = insert t (ran (f(k := None)))"
proof (intro set_eqI iffI)
  fix x assume "x \<in> ran f"
  then obtain a where a: "f a = Some x" by (auto simp: ran_def)
  show "x \<in> insert t (ran (f(k := None)))"
  proof (cases "a = k")
    case True
    with a assms show ?thesis by simp
  next
    case False
    with a have "(f(k := None)) a = Some x" by simp
    then show ?thesis by (auto intro: ranI)
  qed
next
  fix x assume "x \<in> insert t (ran (f(k := None)))"
  with assms show "x \<in> ran f" by (auto simp: ran_def split: if_splits)
qed

lemma ran_update: "ran (f(k \<mapsto> t)) = insert t (ran (f(k := None)))"
  using ran_split_at [of "f(k \<mapsto> t)" k t] by simp

section \<open>Words\<close>

lemma unat_plus_one_nonzero:
  fixes x :: "'a::len word"
  assumes "x + 1 \<noteq> 0"
  shows "unat (x + 1) = Suc (unat x)"
  using assms unatSuc [of x] by (simp add: add.commute)

lemma unat_minus_one_nonzero:
  fixes x :: "'a::len word"
  assumes "x \<noteq> 0"
  shows "unat (x - 1) = unat x - 1"
  using assms by (simp add: unat_minus_one)

lemma word_less_plus_one:
  fixes x :: "'a::len word"
  assumes "x + 1 \<noteq> 0"
  shows "x < x + 1"
  using unat_plus_one_nonzero [OF assms] by (simp add: word_less_nat_alt)

lemma word_less_plus_one_iff:
  fixes x y :: "'a::len word"
  assumes "x + 1 \<noteq> 0"
  shows "y < x + 1 \<longleftrightarrow> y \<le> x"
  using unat_plus_one_nonzero [OF assms]
  by (auto simp: word_less_nat_alt word_le_nat_alt)

lemma even_unat_iff: "even (unat w) \<longleftrightarrow> even w" for w :: "'a::len word"
proof -
  have "odd (unat w) \<longleftrightarrow> odd w"
    by (simp only: bit_0 [symmetric] bit_unsigned_iff) simp
  then show ?thesis by blast
qed

lemma unat_u32_less: "unat (x :: u32) < 2 ^ 32"
  using unsigned_less [of x] by simp

lemma unat_u64_less: "unat (x :: u64) < 2 ^ 64"
  using unsigned_less [of x] by simp

lemma unat_ucast_u32_u64 [simp]: "unat (ucast x :: u64) = unat x" for x :: u32
proof -
  have "uint (ucast x :: u64) = uint x" by (simp add: uint_up_ucast is_up)
  then show ?thesis by (simp only: unat_eq_nat_uint)
qed

lemma unat_ucast_u64_u32: "unat x < 2 ^ 32 \<Longrightarrow> unat (ucast x :: u32) = unat x" for x :: u64
  by (simp only: unsigned_ucast_eq unsigned_take_bit_eq) (simp add: take_bit_nat_eq_self)

lemma ucast_u32_u64_u32 [simp]: "ucast (ucast x :: u64) = x" for x :: u32
  using unat_ucast_u64_u32 [of "ucast x"] unat_u32_less [of x]
  by (simp only: unat_ucast_u32_u64 word_unat_eq_iff)

lemma unat_neg_u32:
  fixes x :: u32
  assumes "x \<noteq> 0"
  shows "unat (0 - x) = 2 ^ 32 - unat x"
proof -
  have "(unat (0 - x) + unat x) mod 2 ^ 32 = 0"
    using unat_word_ariths(1) [of "0 - x" x] by simp
  then obtain q where q: "unat (0 - x) + unat x = 2 ^ 32 * q" by blast
  have "unat x \<noteq> 0" using assms by (simp add: unat_eq_0)
  with q unat_u32_less [of x] unat_u32_less [of "0 - x"] have "q = 1" by auto
  with q have "unat (0 - x) + unat x = 2 ^ 32" by (simp only: mult_1_right)
  then show ?thesis by linarith
qed

lemma unat_max_u64: "unat (- 1 :: u64) = 2 ^ 64 - 1"
proof -
  have "(- 1 :: u64) = 18446744073709551615" by simp
  then show ?thesis by (simp only: unat_numeral) simp
qed

lemma unat_room_u64: "unat (- 1 - x :: u64) = 2 ^ 64 - 1 - unat x"
  using unat_sub [of x "- 1"] by (simp only: unat_max_u64 word_order.extremum)

lemma bit_mask32 [simp]: "bit (0xffffffff :: u64) n \<longleftrightarrow> n < 32"
proof -
  have "(0xffffffff :: u64) = mask 32" by (simp add: mask_eq_exp_minus_1)
  then show ?thesis by (simp only: bit_mask_iff) auto
qed

lemma bit_mask32_int [simp]: "bit (0xffffffff :: int) n \<longleftrightarrow> n < 32"
proof -
  have "(0xffffffff :: int) = mask 32" by (simp add: mask_eq_exp_minus_1)
  then show ?thesis by (simp only: bit_mask_iff) auto
qed

lemma bit_mask32_nat [simp]: "bit (0xffffffff :: nat) n \<longleftrightarrow> n < 32"
proof -
  have "(0xffffffff :: nat) = mask 32" by (simp add: mask_eq_exp_minus_1)
  then show ?thesis by (simp only: bit_mask_iff) auto
qed

lemma unat_of_nat_u32: "n < 2 ^ 32 \<Longrightarrow> unat (of_nat n :: u32) = n"
  by (simp add: unat_of_nat take_bit_nat_eq_self)

lemma unat_of_nat_u64: "n < 2 ^ 64 \<Longrightarrow> unat (of_nat n :: u64) = n"
  by (simp add: unat_of_nat take_bit_nat_eq_self)

section \<open>Decimal numbers\<close>

text \<open>\<open>std::to_string\<close> of an unsigned number.\<close>

definition digitChar :: "nat \<Rightarrow> char" where
  "digitChar d = char_of (48 + d)"

fun showNat :: "nat \<Rightarrow> string" where
  "showNat n = (if n < 10 then [digitChar n] else showNat (n div 10) @ [digitChar (n mod 10)])"

declare showNat.simps [simp del]

section \<open>Lists updated in place\<close>

lemma filter_update_length:
  assumes "i < length xs"
  shows "length (filter P (xs[i := x])) + (if P (xs ! i) then 1 else 0) =
         length (filter P xs) + (if P x then 1 else 0)"
  using assms
proof (induction xs arbitrary: i)
  case Nil
  then show ?case by simp
next
  case (Cons a xs)
  then show ?case by (cases i) auto
qed

lemma nth_list_update_in: "j < length xs \<Longrightarrow> xs[i := x] ! j = (if i = j then x else xs ! j)"
  by (cases "i = j") auto

lemma sum_list_map_update:
  fixes f :: "'a \<Rightarrow> 'b::ab_group_add"
  assumes "i < length xs"
  shows "sum_list (map f (xs[i := x])) = sum_list (map f xs) - f (xs ! i) + f x"
  using assms
proof (induction xs arbitrary: i)
  case Nil
  then show ?case by simp
next
  case (Cons a xs)
  then show ?case by (cases i) (auto simp: algebra_simps)
qed

lemma map_nth_upt: "map (\<lambda>i. f (xs ! i)) [0..<length xs] = map f xs"
  by (rule nth_equalityI) auto

section \<open>Insertion at the lower bound\<close>

text \<open>
  The code's \<open>std::lower_bound\<close> followed by \<open>insert\<close> on a sorted vector: the element goes
  before the first one that is not smaller.
\<close>

definition lowerBoundInsert :: "'a::linorder \<Rightarrow> 'a list \<Rightarrow> 'a list" where
  "lowerBoundInsert x xs = takeWhile (\<lambda>y. y < x) xs @ x # dropWhile (\<lambda>y. y < x) xs"

lemma set_lowerBoundInsert [simp]: "set (lowerBoundInsert x xs) = insert x (set xs)"
proof -
  have "set (takeWhile (\<lambda>y. y < x) xs) \<union> set (dropWhile (\<lambda>y. y < x) xs) = set xs"
    by (metis set_append takeWhile_dropWhile_id)
  then show ?thesis by (auto simp: lowerBoundInsert_def)
qed

lemma length_lowerBoundInsert [simp]: "length (lowerBoundInsert x xs) = Suc (length xs)"
proof -
  have "length (takeWhile (\<lambda>y. y < x) xs) + length (dropWhile (\<lambda>y. y < x) xs) = length xs"
    by (metis length_append takeWhile_dropWhile_id)
  then show ?thesis by (simp add: lowerBoundInsert_def)
qed

lemma lowerBoundInsert_Cons:
  "lowerBoundInsert x (y # ys) = (if y < x then y # lowerBoundInsert x ys else x # y # ys)"
  by (simp add: lowerBoundInsert_def)

lemma strict_sorted_lowerBoundInsert:
  assumes "sorted_wrt (<) xs" and "x \<notin> set xs"
  shows "sorted_wrt (<) (lowerBoundInsert x xs)"
  using assms
proof (induction xs)
  case Nil
  then show ?case by (simp add: lowerBoundInsert_def)
next
  case (Cons y ys)
  then have "y \<noteq> x" by auto
  with Cons show ?case by (auto simp: lowerBoundInsert_Cons)
qed

end
