(* ===== verification/Stable_Hash.thy ===== *)
theory Stable_Hash
  imports RS_Prelude
begin

text \<open>
  The FNV-1a style hash that the gameplay state, the replay log and the determinism
  digest share (anonymous namespace of \<open>src/game/GameplayPrimitives.cpp\<close> and
  \<open>src/game/GameplayScripting.cpp\<close>). The mutable reference argument of the C++ helpers
  is the first argument and the result here. The lemmas show that one hashing step is a
  bijection of the 64-bit state, so that a difference in a single byte always survives.
\<close>

section \<open>The hash steps\<close>

definition FnvOffset :: u64 where
  "FnvOffset = 1469598103934665603"

definition FnvPrime :: u64 where
  "FnvPrime = 1099511628211"

definition hashByte :: "u64 \<Rightarrow> u8 \<Rightarrow> u64" where
  "hashByte hash value = (hash XOR ucast value) * FnvPrime"

definition u64Bytes :: "u64 \<Rightarrow> u8 list" where
  "u64Bytes value = map (\<lambda>shift. ucast (drop_bit shift value)) [0, 8, 16, 24, 32, 40, 48, 56]"

definition hashU64 :: "u64 \<Rightarrow> u64 \<Rightarrow> u64" where
  "hashU64 hash value = foldl hashByte hash (u64Bytes value)"

definition hashString :: "u64 \<Rightarrow> string \<Rightarrow> u64" where
  "hashString hash value =
     foldl (\<lambda>h c. hashByte h (of_char c)) (hashU64 hash (of_nat (length value))) value"

section \<open>One step is a bijection\<close>

text \<open>The inverse of the prime modulo \<open>2 ^ 64\<close>.\<close>

definition FnvPrimeInverse :: u64 where
  "FnvPrimeInverse = 14886173955864302971"

lemma FnvPrime_inverse: "FnvPrime * FnvPrimeInverse = 1"
  by (simp add: FnvPrime_def FnvPrimeInverse_def)

lemma FnvPrime_cancel: "a * FnvPrime = b * FnvPrime \<longleftrightarrow> a = b"
proof
  assume "a * FnvPrime = b * FnvPrime"
  then have "a * (FnvPrime * FnvPrimeInverse) = b * (FnvPrime * FnvPrimeInverse)"
    by (simp only: mult.assoc [symmetric])
  then show "a = b" by (simp only: FnvPrime_inverse mult.right_neutral)
qed simp

lemma xor_right_cancel: "x XOR z = y XOR z \<longleftrightarrow> x = y" for x y z :: u64
proof
  assume "x XOR z = y XOR z"
  then have "(x XOR z) XOR z = (y XOR z) XOR z" by simp
  then show "x = y" by (simp only: xor.assoc xor_self_eq xor.right_neutral)
qed simp

lemma xor_left_cancel: "z XOR x = z XOR y \<longleftrightarrow> x = y" for x y z :: u64
  using xor_right_cancel [of x z y] by (simp only: xor.commute)

lemma hashByte_inj_hash: "hashByte h b = hashByte h' b \<longleftrightarrow> h = h'"
  by (simp only: hashByte_def FnvPrime_cancel xor_right_cancel)

lemma ucast_u8_inj: "(ucast b :: u64) = ucast b' \<longleftrightarrow> b = b'" for b b' :: u8
proof
  assume "(ucast b :: u64) = ucast b'"
  then have "uint (ucast b :: u64) = uint (ucast b' :: u64)" by simp
  then show "b = b'" by (simp add: uint_up_ucast is_up word_uint_eq_iff)
qed simp

lemma hashByte_inj_byte: "hashByte h b = hashByte h b' \<longleftrightarrow> b = b'"
proof -
  have "hashByte h b = hashByte h b' \<longleftrightarrow> (ucast b :: u64) = ucast b'"
    by (simp only: hashByte_def FnvPrime_cancel xor_left_cancel)
  also have "\<dots> \<longleftrightarrow> b = b'"
    by (simp add: ucast_u8_inj)
  finally show ?thesis .
qed

lemma foldl_hashByte_inj_hash: "foldl hashByte h bs = foldl hashByte h' bs \<longleftrightarrow> h = h'"
  by (induction bs arbitrary: h h') (auto simp: hashByte_inj_hash)

lemma foldl_hashByte_single:
  assumes "b \<noteq> b'"
  shows "foldl hashByte h (pre @ b # post) \<noteq> foldl hashByte h (pre @ b' # post)"
  using assms by (simp add: foldl_hashByte_inj_hash hashByte_inj_byte)

lemma hashU64_inj_hash: "hashU64 h v = hashU64 h' v \<longleftrightarrow> h = h'"
  by (simp add: hashU64_def foldl_hashByte_inj_hash)

lemma hashString_inj_hash: "hashString h s = hashString h' s \<longleftrightarrow> h = h'"
proof -
  have "foldl (\<lambda>h c. hashByte h (of_char c)) a s = foldl hashByte a (map of_char s)" for a
    by (simp add: foldl_map)
  then show ?thesis by (simp add: hashString_def foldl_hashByte_inj_hash hashU64_inj_hash)
qed

end
