(* ===== verification/Handle_Table.thy ===== *)
theory Handle_Table
  imports RS_Prelude
begin

text \<open>
  The contract of a table of generational handles, shared by the entity registry of the
  gameplay core and the native handle registry of the runtime: creation returns a handle
  that was not alive, releasing ends the life of exactly that handle, and the liveness
  test is membership in the abstract set of live handles. The lemmas of the locale lift
  these one-step laws to arbitrary sequences of operations.
\<close>

section \<open>The interface\<close>

datatype ('arg, 'h) table_op = TCreate 'arg | TDestroy 'h

locale handle_table =
  fixes live :: "'s \<Rightarrow> 'h set"
    and create :: "'arg \<Rightarrow> 's \<Rightarrow> 'h option \<times> 's"
    and destroy :: "'h \<Rightarrow> 's \<Rightarrow> bool \<times> 's"
    and is_alive :: "'h \<Rightarrow> 's \<Rightarrow> bool"
    and count :: "'s \<Rightarrow> nat"
    and inv :: "'s \<Rightarrow> bool"
  assumes live_finite: "inv s \<Longrightarrow> finite (live s)"
    and create_inv: "inv s \<Longrightarrow> create a s = (r, s') \<Longrightarrow> inv s'"
    and create_None: "inv s \<Longrightarrow> create a s = (None, s') \<Longrightarrow> live s' = live s"
    and create_Some: "inv s \<Longrightarrow> create a s = (Some h, s') \<Longrightarrow>
           h \<notin> live s \<and> live s' = insert h (live s)"
    and destroy_inv: "inv s \<Longrightarrow> destroy h s = (b, s') \<Longrightarrow> inv s'"
    and destroy_live: "inv s \<Longrightarrow> destroy h s = (b, s') \<Longrightarrow>
           b = (h \<in> live s) \<and> live s' = live s - {h}"
    and is_alive_iff: "inv s \<Longrightarrow> is_alive h s = (h \<in> live s)"
    and count_card: "inv s \<Longrightarrow> count s = card (live s)"
begin

fun step :: "('arg, 'h) table_op \<Rightarrow> 's \<Rightarrow> 's" where
  "step (TCreate a) s = snd (create a s)"
| "step (TDestroy h) s = snd (destroy h s)"

fun run :: "('arg, 'h) table_op list \<Rightarrow> 's \<Rightarrow> 's" where
  "run [] s = s"
| "run (p # ps) s = run ps (step p s)"

text \<open>The handles created and not released again, computed from the operations alone.\<close>

fun spec :: "('arg, 'h) table_op list \<Rightarrow> 's \<Rightarrow> 'h set \<Rightarrow> 'h set" where
  "spec [] s H = H"
| "spec (TCreate a # ps) s H =
     spec ps (snd (create a s)) (case fst (create a s) of None \<Rightarrow> H | Some h \<Rightarrow> insert h H)"
| "spec (TDestroy h # ps) s H = spec ps (snd (destroy h s)) (H - {h})"

lemma step_inv: "inv s \<Longrightarrow> inv (step p s)"
  by (cases p) (metis create_inv destroy_inv prod.collapse step.simps)+

lemma run_inv: "inv s \<Longrightarrow> inv (run ps s)"
  by (induction ps arbitrary: s) (auto intro: step_inv)

lemma live_create:
  assumes "inv s"
  shows "live (snd (create a s)) =
    (case fst (create a s) of None \<Rightarrow> live s | Some h \<Rightarrow> insert h (live s))"
  using create_None [OF assms] create_Some [OF assms]
  by (cases "create a s") (auto split: option.splits)

lemma live_destroy: "inv s \<Longrightarrow> live (snd (destroy h s)) = live s - {h}"
  by (metis destroy_live prod.collapse)

lemma run_live: "inv s \<Longrightarrow> live (run ps s) = spec ps s (live s)"
proof (induction ps arbitrary: s)
  case Nil
  then show ?case by simp
next
  case (Cons p ps)
  then have "live (run ps (step p s)) = spec ps (step p s) (live (step p s))"
    by (simp add: step_inv)
  with Cons.prems show ?case
    by (cases p) (simp_all add: live_create live_destroy)
qed

lemma destroyed_stays_dead_until_created:
  assumes "inv s" and "\<And>qs a rs. ps = qs @ TCreate a # rs \<Longrightarrow>
      fst (create a (run qs (snd (destroy h s)))) \<noteq> Some h"
  shows "\<not> is_alive h (run ps (snd (destroy h s)))"
proof -
  have dead: "h \<notin> live t \<Longrightarrow> inv t \<Longrightarrow>
      (\<And>qs a rs. ps = qs @ TCreate a # rs \<Longrightarrow> fst (create a (run qs t)) \<noteq> Some h) \<Longrightarrow>
      h \<notin> live (run ps t)" for t
  proof (induction ps arbitrary: t)
    case Nil
    then show ?case by simp
  next
    case (Cons p ps)
    have "h \<notin> live (step p t)"
    proof (cases p)
      case (TCreate a)
      with Cons.prems(3) [of "[]" a ps] Cons.prems(1,2) show ?thesis
        by (auto simp: live_create split: option.splits)
    next
      case (TDestroy g)
      with Cons.prems show ?thesis by (auto simp: live_destroy)
    qed
    moreover have "fst (create a (run qs (step p t))) \<noteq> Some h" if "ps = qs @ TCreate a # rs" for qs a rs
      using Cons.prems(3) [of "p # qs" a rs] that by simp
    ultimately show ?case using Cons.IH [of "step p t"] step_inv [OF Cons.prems(2)] by simp
  qed
  have "inv (snd (destroy h s))" using assms(1) by (metis destroy_inv prod.collapse)
  moreover have "h \<notin> live (snd (destroy h s))" using assms(1) by (simp add: live_destroy)
  ultimately show ?thesis using dead assms(2) by (simp add: is_alive_iff run_inv)
qed

lemma count_run: "inv s \<Longrightarrow> count (run ps s) = card (spec ps s (live s))"
  by (simp add: count_card run_inv run_live)

end

section \<open>Generations\<close>

text \<open>The next generation of a slot: the counter skips 0 when it wraps.\<close>

definition genSucc :: "u32 \<Rightarrow> u32" where
  "genSucc g = (if g + 1 = 0 then 1 else g + 1)"

lemma unat_genSucc: "g \<noteq> 0 \<Longrightarrow> unat (genSucc g) = unat g mod (2 ^ 32 - 1) + 1"
proof (cases "g + 1 = 0")
  case True
  then have "g = - 1" by (simp add: eq_neg_iff_add_eq_0)
  then have "g = 0xffffffff" by simp
  then have "unat g = 2 ^ 32 - 1" by (simp only: unat_numeral) simp
  with True show ?thesis by (simp add: genSucc_def)
next
  case False
  then have "unat (g + 1) = Suc (unat g)" by (rule unat_plus_one_nonzero)
  moreover from this have "unat g < 2 ^ 32 - 1" using unat_u32_less [of "g + 1"] by simp
  ultimately show ?thesis using False by (simp add: genSucc_def)
qed

lemma genSucc_nonzero [simp]: "genSucc g \<noteq> 0"
  by (simp add: genSucc_def)

lemma unat_funpow_genSucc:
  assumes "g \<noteq> 0"
  shows "(genSucc ^^ j) g \<noteq> 0 \<and> unat ((genSucc ^^ j) g) = (unat g - 1 + j) mod (2 ^ 32 - 1) + 1"
proof (induction j)
  case 0
  have "unat g \<noteq> 0" using assms by (simp add: unat_eq_0)
  moreover from this have "unat g - 1 < 2 ^ 32 - 1"
    using unat_u32_less [of g] by (intro diff_less_mono) simp_all
  ultimately show ?case using assms by simp
next
  case (Suc j)
  then have "unat (genSucc ((genSucc ^^ j) g)) =
      ((unat g - 1 + j) mod (2 ^ 32 - 1) + 1) mod (2 ^ 32 - 1) + 1"
    by (simp add: unat_genSucc)
  then show ?case by (simp add: mod_Suc_eq)
qed

text \<open>The cycle of generations is full: only after \<open>2 ^ 32 - 1\<close> steps does one come back.\<close>

lemma genSucc_cycle:
  assumes "g \<noteq> 0" and "(genSucc ^^ j) g = g" and "0 < j"
  shows "2 ^ 32 - 1 \<le> j"
proof (rule ccontr)
  assume small: "\<not> 2 ^ 32 - 1 \<le> j"
  let ?m = "2 ^ 32 - 1 :: nat"
  have pos: "unat g \<noteq> 0" using assms(1) by (simp add: unat_eq_0)
  then have eq: "(unat g - 1 + j) mod ?m = unat g - 1"
    using unat_funpow_genSucc [OF assms(1), of j] assms(2) by (metis add_diff_cancel_right')
  have le: "unat g - 1 < ?m" using unat_u32_less [of g] pos by (intro diff_less_mono) simp_all
  show False
  proof (cases "unat g - 1 + j < ?m")
    case True
    with eq assms(3) show False by simp
  next
    case False
    with le small have "(unat g - 1 + j) mod ?m = unat g - 1 + j - ?m"
      by (simp add: mod_if)
    with eq small False assms(3) show False by linarith
  qed
qed

locale generational_table = handle_table live create destroy is_alive count inv
  for live :: "'s \<Rightarrow> 'h set"
    and create :: "'arg \<Rightarrow> 's \<Rightarrow> 'h option \<times> 's"
    and destroy :: "'h \<Rightarrow> 's \<Rightarrow> bool \<times> 's"
    and is_alive :: "'h \<Rightarrow> 's \<Rightarrow> bool"
    and count :: "'s \<Rightarrow> nat"
    and inv :: "'s \<Rightarrow> bool" +
  fixes slot_gen :: "'s \<Rightarrow> nat \<Rightarrow> u32 option"
    and slot_of :: "'h \<Rightarrow> nat"
    and gen_of :: "'h \<Rightarrow> u32"
  assumes create_gen: "inv s \<Longrightarrow> create a s = (r, s') \<Longrightarrow> slot_gen s i = Some g \<Longrightarrow> slot_gen s' i = Some g"
    and destroy_gen: "inv s \<Longrightarrow> destroy h s = (b, s') \<Longrightarrow> slot_gen s i = Some g \<Longrightarrow>
           slot_gen s' i = Some (if b \<and> slot_of h = i then genSucc g else g)"
    and live_gen: "inv s \<Longrightarrow> h \<in> live s \<Longrightarrow> slot_gen s (slot_of h) = Some (gen_of h) \<and> gen_of h \<noteq> 0"
begin

lemma step_gen:
  assumes "inv s" and "slot_gen s i = Some g"
  shows "slot_gen (step p s) i = Some g \<or> slot_gen (step p s) i = Some (genSucc g)"
proof (cases p)
  case (TCreate a)
  with create_gen [OF assms(1) prod.collapse [symmetric] assms(2), of a] show ?thesis by simp
next
  case (TDestroy h)
  with destroy_gen [OF assms(1) prod.collapse [symmetric] assms(2), of h] show ?thesis by auto
qed

lemma run_gen:
  "inv s \<Longrightarrow> slot_gen s i = Some g \<Longrightarrow>
     \<exists>j \<le> length ps. slot_gen (run ps s) i = Some ((genSucc ^^ j) g)"
proof (induction ps arbitrary: s g)
  case Nil
  then show ?case by (intro exI [of _ 0]) simp
next
  case (Cons p ps)
  from step_gen [OF Cons.prems, of p] show ?case
  proof
    assume "slot_gen (step p s) i = Some g"
    from Cons.IH [OF step_inv [OF Cons.prems(1)] this] show ?thesis by (auto intro: le_SucI)
  next
    assume "slot_gen (step p s) i = Some (genSucc g)"
    from Cons.IH [OF step_inv [OF Cons.prems(1)] this]
    obtain j where "j \<le> length ps" "slot_gen (run ps (step p s)) i = Some ((genSucc ^^ j) (genSucc g))"
      by blast
    then show ?thesis by (intro exI [of _ "Suc j"]) (simp add: funpow_swap1)
  qed
qed

text \<open>A released handle stays dead for at least \<open>2 ^ 32 - 2\<close> further operations.\<close>

lemma stale_until_wrap:
  assumes inv: "inv s" and h: "h \<in> live s" and short: "length ps < 2 ^ 32 - 2"
  shows "\<not> is_alive h (run ps (snd (destroy h s)))"
proof
  let ?t = "snd (destroy h s)"
  assume alive: "is_alive h (run ps ?t)"
  have t: "inv ?t" "slot_gen ?t (slot_of h) = Some (genSucc (gen_of h))"
    using inv h live_gen [OF inv h] destroy_inv [OF inv prod.collapse [symmetric]]
      destroy_live [OF inv prod.collapse [symmetric]]
      destroy_gen [OF inv prod.collapse [symmetric], of "slot_of h"] by auto
  obtain j where j: "j \<le> length ps"
      "slot_gen (run ps ?t) (slot_of h) = Some ((genSucc ^^ j) (genSucc (gen_of h)))"
    using run_gen [OF t] by blast
  have "inv (run ps ?t)" using t(1) by (rule run_inv)
  with alive have "slot_gen (run ps ?t) (slot_of h) = Some (gen_of h)"
    using live_gen by (simp add: is_alive_iff)
  with j(2) have "(genSucc ^^ Suc j) (gen_of h) = gen_of h" by (simp add: funpow_swap1)
  with genSucc_cycle [of "gen_of h" "Suc j"] live_gen [OF inv h] have "2 ^ 32 - 1 \<le> Suc j" by simp
  with j(1) short show False by simp
qed

end

end
