(* ===== verification/Snapshotable.thy ===== *)
theory Snapshotable
  imports RS_Prelude
begin

text \<open>
  The snapshot contract of the deterministic gameplay core: a state in the component's
  invariant is recovered from its snapshot, and whatever \<open>restore\<close> accepts satisfies the
  invariant. Rollback and replay rest on it: running the same operations from the restored
  state gives the same states, observations and hashes as the original run.
\<close>

locale snapshotable =
  fixes snapshot :: "'s \<Rightarrow> 'st"
    and restore :: "'st \<Rightarrow> 's option"
    and inv :: "'s \<Rightarrow> bool"
  assumes restore_snapshot: "inv s \<Longrightarrow> restore (snapshot s) = Some s"
    and restore_inv: "restore st = Some s \<Longrightarrow> inv s"
begin

lemma snapshot_inj: "inv s \<Longrightarrow> inv t \<Longrightarrow> snapshot s = snapshot t \<Longrightarrow> s = t"
  by (metis option.inject restore_snapshot)

lemma restore_idem: "restore st = Some s \<Longrightarrow> restore (snapshot s) = Some s"
  by (simp add: restore_inv restore_snapshot)

text \<open>Rollback: the state saved before a run is the state that replaying starts from.\<close>

lemma rollback_replay:
  assumes "inv s"
  shows "map_option (\<lambda>t. fold step es t) (restore (snapshot s)) = Some (fold step es s)"
  using assms by (simp add: restore_snapshot)

lemma fold_inv:
  assumes "\<And>e t. inv t \<Longrightarrow> inv (step e t)" and "inv s"
  shows "inv (fold step es s)"
  using assms(2) by (induction es arbitrary: s) (auto intro: assms(1))

text \<open>A save taken after any number of steps of an invariant-preserving machine restores.\<close>

lemma save_any_time:
  assumes "\<And>e t. inv t \<Longrightarrow> inv (step e t)" and "inv s"
  shows "restore (snapshot (fold step es s)) = Some (fold step es s)"
  by (rule restore_snapshot [OF fold_inv]) (use assms in auto)

end

end
