(* ===== verification/Entity_Registry.thy ===== *)
theory Entity_Registry
  imports Stable_Hash Handle_Table Snapshotable
begin

text \<open>
  \<open>EntityId\<close> and \<open>EntityRegistry\<close> of \<open>include/realscript/game/GameplayPrimitives.h\<close> and
  \<open>src/game/GameplayPrimitives.cpp\<close>: generational entity identifiers, the slot table with
  its sorted free list, snapshot, restore and hash. The invariant \<open>reg_inv\<close> is what the
  operations keep and what \<open>restore\<close> checks; \<open>live_entities\<close> is the abstract state.
\<close>

section \<open>Entity identifiers\<close>

datatype EntityId = EntityId (eIndex: u32) (eGeneration: u32)

definition InvalidIndex :: u32 where
  "InvalidIndex = 0xffffffff"

definition noEntity :: EntityId where
  "noEntity = EntityId InvalidIndex 0"

definition entity_valid :: "EntityId \<Rightarrow> bool" where
  "entity_valid e \<longleftrightarrow> eIndex e \<noteq> InvalidIndex \<and> eGeneration e \<noteq> 0"

definition entity_packed :: "EntityId \<Rightarrow> u64" where
  "entity_packed e = (push_bit 32 (ucast (eGeneration e))) OR ucast (eIndex e)"

definition entity_fromPacked :: "u64 \<Rightarrow> EntityId" where
  "entity_fromPacked v =
     EntityId (ucast (v AND 0xffffffff)) (ucast (drop_bit 32 v))"

lemma drop_bit_u32_u64 [simp]: "ucast (drop_bit 32 (ucast i :: u64)) = (0 :: u32)" for i :: u32
  by (rule bit_word_eqI) (auto simp: bit_simps dest: bit_imp_le_length)

lemma fromPacked_packed [simp]: "entity_fromPacked (entity_packed e) = e"
proof (cases e)
  case (EntityId i g)
  have "ucast ((push_bit 32 (ucast g) OR ucast i :: u64) AND 0xffffffff) = i"
    by (rule bit_word_eqI) (auto simp: bit_simps)
  moreover have "ucast (drop_bit 32 (push_bit 32 (ucast g) OR ucast i :: u64)) = g"
    by (rule bit_word_eqI) (auto simp: bit_simps dest: bit_imp_le_length)
  ultimately show ?thesis
    by (simp add: EntityId entity_fromPacked_def entity_packed_def)
qed

lemma packed_fromPacked [simp]: "entity_packed (entity_fromPacked v) = v"
proof (rule bit_word_eqI)
  fix n assume "n < LENGTH(64)"
  then show "bit (entity_packed (entity_fromPacked v)) n = bit v n"
    by (cases "n < 32") (auto simp: entity_fromPacked_def entity_packed_def bit_simps)
qed

lemma packed_inj: "entity_packed a = entity_packed b \<longleftrightarrow> a = b"
  by (metis fromPacked_packed)

text \<open>The code's \<open>operator<\<close> compares the packed values: a linear order.\<close>

instantiation EntityId :: linorder
begin

definition less_EntityId :: "EntityId \<Rightarrow> EntityId \<Rightarrow> bool" where
  "less_EntityId a b \<longleftrightarrow> entity_packed a < entity_packed b"

definition less_eq_EntityId :: "EntityId \<Rightarrow> EntityId \<Rightarrow> bool" where
  "less_eq_EntityId a b \<longleftrightarrow> entity_packed a \<le> entity_packed b"

instance
  by standard (auto simp: less_EntityId_def less_eq_EntityId_def packed_inj [symmetric])

end

section \<open>The registry\<close>

record SlotState =
  generation :: u32
  alive :: bool

record EntityRegistry =
  slots :: "SlotState list"
  freeIndices :: "u32 list"
  aliveCount :: u64

definition emptyRegistry :: EntityRegistry where
  "emptyRegistry = \<lparr>slots = [], freeIndices = [], aliveCount = 0\<rparr>"

definition nextGeneration :: "u32 \<Rightarrow> u32" where
  "nextGeneration current = (let c = current + 1 in if c = 0 then 1 else c)"

text \<open>\<open>create\<close> returns the invalid identifier when the index space is exhausted.\<close>

definition registry_create :: "EntityRegistry \<Rightarrow> EntityId \<times> EntityRegistry" where
  "registry_create r =
     (case freeIndices r of
        i # rest \<Rightarrow>
          (let s = slots r ! unat i in
             (EntityId i (generation s),
              r\<lparr>slots := (slots r)[unat i := s\<lparr>alive := True\<rparr>],
                freeIndices := rest,
                aliveCount := aliveCount r + 1\<rparr>))
      | [] \<Rightarrow>
          (if unat InvalidIndex \<le> length (slots r) then (noEntity, r)
           else (EntityId (of_nat (length (slots r))) 1,
                 r\<lparr>slots := slots r @ [\<lparr>generation = 1, alive = True\<rparr>],
                   aliveCount := aliveCount r + 1\<rparr>)))"

definition registry_alive :: "EntityId \<Rightarrow> EntityRegistry \<Rightarrow> bool" where
  "registry_alive e r \<longleftrightarrow>
     entity_valid e \<and> unat (eIndex e) < length (slots r) \<and>
     alive (slots r ! unat (eIndex e)) \<and>
     generation (slots r ! unat (eIndex e)) = eGeneration e"

definition registry_destroy :: "EntityId \<Rightarrow> EntityRegistry \<Rightarrow> bool \<times> EntityRegistry" where
  "registry_destroy e r =
     (if \<not> registry_alive e r then (False, r)
      else (let i = unat (eIndex e); s = slots r ! i in
        (True,
         r\<lparr>slots := (slots r)[i := s\<lparr>alive := False, generation := nextGeneration (generation s)\<rparr>],
           freeIndices := lowerBoundInsert (eIndex e) (freeIndices r),
           aliveCount := aliveCount r - 1\<rparr>)))"

definition registry_clear :: "EntityRegistry \<Rightarrow> EntityRegistry" where
  "registry_clear r = r\<lparr>slots := [], freeIndices := [], aliveCount := 0\<rparr>"

text \<open>
  \<open>snapshot\<close> copies the three members, so the \<open>State\<close> structure is the same record.
  \<open>restore\<close> validates a state before it is installed; \<open>None\<close> stands for \<open>false\<close>, and
  the registry is then left as it was.
\<close>

definition registry_snapshot :: "EntityRegistry \<Rightarrow> EntityRegistry" where
  "registry_snapshot r =
     \<lparr>slots = slots r, freeIndices = freeIndices r, aliveCount = aliveCount r\<rparr>"

definition freeFlags :: "EntityRegistry \<Rightarrow> bool list" where
  "freeFlags st = fold (\<lambda>i flags. flags[unat i := True]) (freeIndices st)
     (replicate (length (slots st)) False)"

definition registry_restore :: "EntityRegistry \<Rightarrow> EntityRegistry option" where
  "registry_restore st =
     (if \<not> sorted (freeIndices st) \<or> \<not> distinct_adj (freeIndices st) then None
      else if \<exists>i \<in> set (freeIndices st). length (slots st) \<le> unat i then None
      else if \<exists>k \<in> set [0..<length (slots st)].
                generation (slots st ! k) = 0 \<or> alive (slots st ! k) = freeFlags st ! k then None
      else if of_nat (length (filter alive (slots st))) \<noteq> aliveCount st then None
      else Some \<lparr>slots = slots st, freeIndices = freeIndices st, aliveCount = aliveCount st\<rparr>)"

definition registry_stableHash :: "EntityRegistry \<Rightarrow> u64" where
  "registry_stableHash r =
     (let h0 = hashU64 FnvOffset (of_nat (length (slots r)));
          h1 = foldl (\<lambda>h s. hashByte (hashU64 h (ucast (generation s)))
                               (if alive s then 1 else 0)) h0 (slots r);
          h2 = hashU64 h1 (of_nat (length (freeIndices r)));
          h3 = foldl (\<lambda>h i. hashU64 h (ucast i)) h2 (freeIndices r)
      in hashU64 h3 (aliveCount r))"

section \<open>The invariant\<close>

definition reg_wf :: "EntityRegistry \<Rightarrow> bool" where
  "reg_wf r \<longleftrightarrow>
     sorted_wrt (<) (freeIndices r) \<and>
     (\<forall>i \<in> set (freeIndices r). unat i < length (slots r)) \<and>
     (\<forall>k < length (slots r). generation (slots r ! k) \<noteq> 0 \<and>
        (alive (slots r ! k) \<longleftrightarrow> k \<notin> unat ` set (freeIndices r))) \<and>
     aliveCount r = of_nat (length (filter alive (slots r)))"

definition reg_inv :: "EntityRegistry \<Rightarrow> bool" where
  "reg_inv r \<longleftrightarrow> reg_wf r \<and> length (slots r) \<le> unat InvalidIndex"

definition live_entities :: "EntityRegistry \<Rightarrow> EntityId set" where
  "live_entities r = {e. registry_alive e r}"

lemma unat_InvalidIndex: "unat InvalidIndex = 2 ^ 32 - 1"
  by (simp add: InvalidIndex_def)

lemma nextGeneration_nonzero [simp]: "nextGeneration g \<noteq> 0"
  by (simp add: nextGeneration_def Let_def)

lemma nextGeneration_neq: "nextGeneration g \<noteq> g"
  by (auto simp: nextGeneration_def Let_def)

section \<open>Every operation keeps the invariant\<close>

lemma reg_inv_empty: "reg_inv emptyRegistry"
  by (simp add: reg_inv_def reg_wf_def emptyRegistry_def)

lemma reg_inv_clear: "reg_inv (registry_clear r)"
  by (simp add: reg_inv_def reg_wf_def registry_clear_def)

lemma unat_image_eq: "unat i \<in> unat ` S \<longleftrightarrow> i \<in> S" for i :: u32
  by (auto dest: iffD2 [OF word_unat_eq_iff])

lemma unat_in_image: "k < 2 ^ 32 \<Longrightarrow> k \<in> unat ` S \<longleftrightarrow> of_nat k \<in> S" for S :: "u32 set"
  using unat_image_eq [of "of_nat k" S] by (simp add: unat_of_nat_u32)

lemma reg_inv_create_reuse:
  assumes inv: "reg_inv r" and free: "freeIndices r = i # rest"
  shows "reg_inv (snd (registry_create r))"
proof -
  let ?n = "unat i" and ?s = "slots r"
  from inv free have n: "?n < length ?s" and i_rest: "i \<notin> set rest"
    and dead: "\<not> alive (?s ! ?n)"
    by (auto simp: reg_inv_def reg_wf_def)
  let ?x = "(?s ! ?n)\<lparr>alive := True\<rparr>"
  have cnt: "length (filter alive (?s[?n := ?x])) = Suc (length (filter alive ?s))"
    using filter_update_length [OF n, of alive ?x] dead by simp
  show ?thesis
    using inv free n i_rest cnt
    by (auto simp: reg_inv_def reg_wf_def registry_create_def Let_def nth_list_update
        unat_image_eq)
qed

lemma reg_inv_create_fresh:
  assumes inv: "reg_inv r" and free: "freeIndices r = []"
  shows "reg_inv (snd (registry_create r))"
  using assms by (auto simp: reg_inv_def reg_wf_def registry_create_def Let_def nth_append)

lemma reg_inv_create [rs_inv_intro]: "reg_inv r \<Longrightarrow> reg_inv (snd (registry_create r))"
  by (cases "freeIndices r") (auto intro: reg_inv_create_reuse reg_inv_create_fresh)

lemma registry_alive_not_free:
  assumes "reg_wf r" and "registry_alive e r"
  shows "eIndex e \<notin> set (freeIndices r)"
  using assms by (auto simp: reg_wf_def registry_alive_def)

lemma reg_inv_destroy [rs_inv_intro]:
  assumes inv: "reg_inv r"
  shows "reg_inv (snd (registry_destroy e r))"
proof (cases "registry_alive e r")
  case False
  with inv show ?thesis by (simp add: registry_destroy_def)
next
  case True
  let ?n = "unat (eIndex e)" and ?s = "slots r"
  from True have n: "?n < length ?s" and al: "alive (?s ! ?n)"
    by (auto simp: registry_alive_def)
  have nf: "eIndex e \<notin> set (freeIndices r)"
    using inv True registry_alive_not_free by (auto simp: reg_inv_def)
  let ?x = "(?s ! ?n)\<lparr>alive := False, generation := nextGeneration (generation (?s ! ?n))\<rparr>"
  have cnt: "Suc (length (filter alive (?s[?n := ?x]))) = length (filter alive ?s)"
    using filter_update_length [OF n, of alive ?x] al by simp
  have "aliveCount r - 1 = of_nat (length (filter alive (?s[?n := ?x])))"
    using inv by (simp add: reg_inv_def reg_wf_def cnt [symmetric])
  moreover have "sorted_wrt (<) (lowerBoundInsert (eIndex e) (freeIndices r))"
    using inv nf by (simp add: reg_inv_def reg_wf_def strict_sorted_lowerBoundInsert)
  ultimately show ?thesis
    using inv n True
    by (auto simp: reg_inv_def reg_wf_def registry_destroy_def Let_def nth_list_update)
qed

section \<open>Creation and destruction against the set of live entities\<close>

lemma live_entities_conv:
  assumes "reg_inv r"
  shows "live_entities r =
    (\<lambda>k. EntityId (of_nat k) (generation (slots r ! k))) `
      {k. k < length (slots r) \<and> alive (slots r ! k)}" (is "_ = ?f ` ?K")
proof (intro set_eqI iffI)
  fix e assume "e \<in> live_entities r"
  then have "registry_alive e r" by (simp add: live_entities_def)
  then have "e = ?f (unat (eIndex e))" and "unat (eIndex e) \<in> ?K"
    by (cases e; simp add: registry_alive_def)+
  then show "e \<in> ?f ` ?K" by blast
next
  fix e assume "e \<in> ?f ` ?K"
  then obtain k where k: "k < length (slots r)" "alive (slots r ! k)" and e: "e = ?f k" by auto
  from assms k have "k < 2 ^ 32 - 1" by (simp add: reg_inv_def unat_InvalidIndex)
  then have u: "unat (of_nat k :: u32) = k" by (intro unat_of_nat_u32) simp
  with \<open>k < 2 ^ 32 - 1\<close> have "of_nat k \<noteq> InvalidIndex"
    using unat_InvalidIndex by force
  with assms k u show "e \<in> live_entities r"
    by (simp add: e live_entities_def registry_alive_def entity_valid_def reg_inv_def reg_wf_def)
qed

lemma finite_live_entities: "reg_inv r \<Longrightarrow> finite (live_entities r)"
  by (simp add: live_entities_conv)

lemma card_live_entities:
  assumes "reg_inv r"
  shows "card (live_entities r) = length (filter alive (slots r))"
proof -
  let ?K = "{k. k < length (slots r) \<and> alive (slots r ! k)}"
  have "k < 2 ^ 32" if "k \<in> ?K" for k
    using that assms by (simp add: reg_inv_def unat_InvalidIndex)
  then have "inj_on (\<lambda>k. EntityId (of_nat k) (generation (slots r ! k))) ?K"
    by (intro inj_onI) (metis EntityId.inject unat_of_nat_u32)
  then show ?thesis
    by (simp add: live_entities_conv [OF assms] card_image length_filter_conv_card)
qed

lemma unat_aliveCount:
  assumes "reg_inv r"
  shows "unat (aliveCount r) = card (live_entities r)"
proof -
  have "length (filter alive (slots r)) \<le> length (slots r)" by simp
  also have "\<dots> \<le> 2 ^ 32 - 1" using assms by (simp add: reg_inv_def unat_InvalidIndex)
  finally have "length (filter alive (slots r)) < 2 ^ 64" by simp
  with assms show ?thesis
    by (simp add: card_live_entities reg_inv_def reg_wf_def unat_of_nat_u64)
qed

lemma registry_create_reuse:
  assumes inv: "reg_inv r" and free: "freeIndices r = i # rest"
  shows "fst (registry_create r) = EntityId i (generation (slots r ! unat i))"
    and "entity_valid (fst (registry_create r))"
    and "fst (registry_create r) \<notin> live_entities r"
    and "live_entities (snd (registry_create r)) =
           insert (fst (registry_create r)) (live_entities r)"
proof -
  let ?n = "unat i" and ?e = "EntityId i (generation (slots r ! unat i))"
  from inv free have n: "?n < length (slots r)" and dead: "\<not> alive (slots r ! ?n)"
    and gen: "generation (slots r ! ?n) \<noteq> 0"
    by (auto simp: reg_inv_def reg_wf_def)
  have "?n < unat InvalidIndex" using inv n by (simp add: reg_inv_def)
  then have valid: "entity_valid ?e" using gen by (auto simp: entity_valid_def)
  show fst: "fst (registry_create r) = ?e" using free by (simp add: registry_create_def Let_def)
  with valid show "entity_valid (fst (registry_create r))" by simp
  from fst dead show "fst (registry_create r) \<notin> live_entities r"
    by (simp add: live_entities_def registry_alive_def)
  have "registry_alive e (snd (registry_create r)) \<longleftrightarrow> e = ?e \<or> registry_alive e r" for e
    using free n dead valid
    by (cases e; cases "eIndex e = i")
      (auto simp: registry_create_def registry_alive_def Let_def nth_list_update
        dest: iffD2 [OF word_unat_eq_iff])
  then show "live_entities (snd (registry_create r)) =
      insert (fst (registry_create r)) (live_entities r)"
    by (auto simp: live_entities_def fst)
qed

lemma registry_create_fresh:
  assumes inv: "reg_inv r" and free: "freeIndices r = []"
    and room: "length (slots r) < unat InvalidIndex"
  shows "fst (registry_create r) = EntityId (of_nat (length (slots r))) 1"
    and "entity_valid (fst (registry_create r))"
    and "fst (registry_create r) \<notin> live_entities r"
    and "live_entities (snd (registry_create r)) =
           insert (fst (registry_create r)) (live_entities r)"
proof -
  let ?n = "length (slots r)" and ?e = "EntityId (of_nat (length (slots r))) 1"
  have u: "unat (of_nat ?n :: u32) = ?n"
    using room by (intro unat_of_nat_u32) (simp add: unat_InvalidIndex)
  have "of_nat ?n \<noteq> InvalidIndex" using u room by force
  then have valid: "entity_valid ?e" by (simp add: entity_valid_def)
  show fst: "fst (registry_create r) = ?e"
    using free room by (simp add: registry_create_def)
  with valid show "entity_valid (fst (registry_create r))" by simp
  show "fst (registry_create r) \<notin> live_entities r"
    by (simp add: fst live_entities_def registry_alive_def u)
  have "registry_alive e (snd (registry_create r)) \<longleftrightarrow> e = ?e \<or> registry_alive e r" for e
  proof (cases "unat (eIndex e) = ?n")
    case True
    then have "eIndex e = of_nat ?n" using u by (metis word_unat_eq_iff)
    with True free room valid show ?thesis
      by (cases e) (auto simp: registry_create_def registry_alive_def u)
  next
    case False
    with free room u show ?thesis
      by (cases e) (auto simp: registry_create_def registry_alive_def nth_append)
  qed
  then show "live_entities (snd (registry_create r)) =
      insert (fst (registry_create r)) (live_entities r)"
    by (auto simp: live_entities_def fst)
qed

lemma registry_create_full:
  assumes "freeIndices r = []" and "unat InvalidIndex \<le> length (slots r)"
  shows "registry_create r = (noEntity, r)"
  using assms by (simp add: registry_create_def)

lemma live_entities_destroy:
  assumes inv: "reg_inv r"
  shows "live_entities (snd (registry_destroy e r)) = live_entities r - {e}"
proof (cases "registry_alive e r")
  case False
  then show ?thesis by (simp add: registry_destroy_def live_entities_def)
next
  case True
  have "registry_alive f (snd (registry_destroy e r)) \<longleftrightarrow> f \<noteq> e \<and> registry_alive f r" for f
    using True
    by (cases e; cases f; cases "eIndex f = eIndex e")
      (auto simp: registry_destroy_def registry_alive_def Let_def nth_list_update
        dest: iffD2 [OF word_unat_eq_iff])
  then show ?thesis by (auto simp: live_entities_def)
qed

lemma registry_destroy_result: "fst (registry_destroy e r) \<longleftrightarrow> e \<in> live_entities r"
  by (simp add: registry_destroy_def live_entities_def Let_def)

section \<open>The registry is a handle table\<close>

definition registry_create_opt :: "unit \<Rightarrow> EntityRegistry \<Rightarrow> EntityId option \<times> EntityRegistry" where
  "registry_create_opt u r =
     (let (e, r') = registry_create r in (if entity_valid e then Some e else None, r'))"

lemma noEntity_invalid [simp]: "\<not> entity_valid noEntity"
  by (simp add: noEntity_def entity_valid_def)

lemma registry_create_cases:
  assumes "reg_inv r"
  shows "registry_create r = (noEntity, r) \<or>
    entity_valid (fst (registry_create r)) \<and>
    fst (registry_create r) \<notin> live_entities r \<and>
    live_entities (snd (registry_create r)) = insert (fst (registry_create r)) (live_entities r)"
proof (cases "freeIndices r")
  case Nil
  show ?thesis
  proof (cases "unat InvalidIndex \<le> length (slots r)")
    case True
    with Nil show ?thesis by (simp add: registry_create_full)
  next
    case False
    then show ?thesis
      using registry_create_fresh(2-4) [OF assms Nil] by (simp add: not_le)
  qed
next
  case (Cons i rest)
  then show ?thesis
    using registry_create_reuse(2-4) [OF assms Cons] by simp
qed

interpretation entities: handle_table live_entities registry_create_opt registry_destroy
  registry_alive "\<lambda>r. unat (aliveCount r)" reg_inv
proof (unfold_locales, goal_cases)
  case (1 s)
  then show ?case by (rule finite_live_entities)
next
  case (2 s a r s')
  then show ?case
    using reg_inv_create [of s] by (auto simp: registry_create_opt_def split: prod.splits)
next
  case (3 s a s')
  then show ?case
    using registry_create_cases [of s]
    by (auto simp: registry_create_opt_def split: prod.splits if_splits)
next
  case (4 s a h s')
  then show ?case
    using registry_create_cases [of s]
    by (auto simp: registry_create_opt_def split: prod.splits if_splits)
next
  case (5 s h b s')
  then show ?case using reg_inv_destroy [of s h] by simp
next
  case (6 s h b s')
  then show ?case
    using live_entities_destroy [of s h] registry_destroy_result [of h s] by simp
next
  case (7 s h)
  then show ?case by (simp add: live_entities_def)
next
  case (8 s)
  then show ?case by (rule unat_aliveCount)
qed

section \<open>Snapshot and restore\<close>

lemma sorted_distinct_adj: "sorted xs \<and> distinct_adj xs \<longleftrightarrow> sorted_wrt (<) xs"
  for xs :: "'a::linorder list"
proof (induction xs)
  case Nil
  then show ?case by simp
next
  case (Cons x xs)
  then show ?case by (cases xs) fastforce+
qed

lemma nth_freeFlags:
  assumes "\<forall>i \<in> set (freeIndices st). unat i < length (slots st)" and "k < length (slots st)"
  shows "freeFlags st ! k \<longleftrightarrow> k \<in> unat ` set (freeIndices st)"
proof -
  have "fold (\<lambda>i flags. flags[unat i := True]) is flags ! k \<longleftrightarrow> k \<in> unat ` set is \<or> flags ! k"
    if "k < length flags" for "is" :: "u32 list" and flags
    using that by (induction "is" arbitrary: flags) (auto simp: nth_list_update_in)
  from this [of "replicate (length (slots st)) False" "freeIndices st"] assms(2) show ?thesis
    by (simp add: freeFlags_def)
qed

lemma registry_restore_conv:
  "registry_restore st = (if reg_wf st then Some (registry_snapshot st) else None)"
proof (cases "sorted_wrt (<) (freeIndices st) \<and>
    (\<forall>i \<in> set (freeIndices st). unat i < length (slots st))")
  case False
  then show ?thesis
    by (auto simp: registry_restore_def reg_wf_def not_le sorted_distinct_adj [symmetric])
next
  case True
  then have flags: "\<And>k. k < length (slots st) \<Longrightarrow>
      freeFlags st ! k \<longleftrightarrow> k \<in> unat ` set (freeIndices st)"
    using nth_freeFlags by blast
  from True have "sorted (freeIndices st) \<and> distinct_adj (freeIndices st)"
    by (simp add: sorted_distinct_adj)
  with True show ?thesis
    by (auto simp: registry_restore_def reg_wf_def registry_snapshot_def not_le flags)
qed

lemma registry_snapshot_id [simp]: "registry_snapshot r = r"
  by (simp add: registry_snapshot_def)

interpretation registry_save: snapshotable registry_snapshot registry_restore reg_wf
  by unfold_locales (auto simp: registry_restore_conv split: if_splits)

section \<open>Generations of the entities\<close>

definition entity_slot_gen :: "EntityRegistry \<Rightarrow> nat \<Rightarrow> u32 option" where
  "entity_slot_gen r i = (if i < length (slots r) then Some (generation (slots r ! i)) else None)"

lemma nextGeneration_genSucc: "nextGeneration g = genSucc g"
  by (simp add: nextGeneration_def genSucc_def Let_def)

interpretation entity_gens: generational_table live_entities registry_create_opt registry_destroy
  registry_alive "\<lambda>r. unat (aliveCount r)" reg_inv entity_slot_gen "\<lambda>e. unat (eIndex e)" eGeneration
proof (unfold_locales, goal_cases)
  case (1 s a r s' i g)
  have keep: "entity_slot_gen (snd (registry_create s)) i = Some g"
  proof (cases "freeIndices s")
    case Nil
    with 1(3) show ?thesis
      by (auto simp: registry_create_def Let_def entity_slot_gen_def nth_append split: if_splits)
  next
    case (Cons k rest)
    with 1(3) show ?thesis
      by (cases "unat k = i")
        (auto simp: registry_create_def Let_def entity_slot_gen_def split: if_splits)
  qed
  have "s' = snd (registry_create s)"
    using 1(2) by (auto simp: registry_create_opt_def split: prod.splits)
  with keep show ?case by simp
next
  case (2 s h b s' i g)
  then show ?case
    by (auto simp: registry_destroy_def Let_def entity_slot_gen_def nth_list_update
        nextGeneration_genSucc split: if_splits)
next
  case (3 s h)
  then show ?case
    by (auto simp: live_entities_def registry_alive_def entity_valid_def entity_slot_gen_def)
qed

section \<open>Properties\<close>

fun registry_apply :: "(unit, EntityId) table_op \<Rightarrow> EntityRegistry \<Rightarrow> EntityRegistry" where
  "registry_apply (TCreate u) r = snd (registry_create r)"
| "registry_apply (TDestroy e) r = snd (registry_destroy e r)"

lemma registry_apply_step: "registry_apply p r = entities.step p r"
  by (cases p) (simp_all add: registry_create_opt_def split: prod.split)

lemma fold_registry_apply: "fold registry_apply ops r = entities.run ops r"
  by (induction ops arbitrary: r) (simp_all add: registry_apply_step)

lemma reg_inv_fold: "reg_inv r \<Longrightarrow> reg_inv (fold registry_apply ops r)"
  by (simp add: fold_registry_apply entities.run_inv)

text \<open>
  C29: after any history of creations and destructions, \<open>create\<close> returns an identifier that was
  not alive and makes exactly it alive, or fails and changes nothing; \<open>destroy\<close> succeeds on
  exactly the live identifiers and ends the life of exactly the one it is given.
\<close>

theorem entity_create_destroy_exact:
  assumes "r = fold registry_apply ops emptyRegistry"
  shows "(case registry_create r of (e, r') \<Rightarrow>
      if entity_valid e then \<not> registry_alive e r \<and> (\<forall>x. registry_alive x r' \<longleftrightarrow> x = e \<or> registry_alive x r)
      else r' = r) \<and>
    (\<forall>e. fst (registry_destroy e r) = registry_alive e r \<and>
      (\<forall>x. registry_alive x (snd (registry_destroy e r)) \<longleftrightarrow> x \<noteq> e \<and> registry_alive x r))"
proof
  have inv: "reg_inv r" using reg_inv_fold [OF reg_inv_empty] assms by simp
  show "case registry_create r of (e, r') \<Rightarrow>
      if entity_valid e then \<not> registry_alive e r \<and> (\<forall>x. registry_alive x r' \<longleftrightarrow> x = e \<or> registry_alive x r)
      else r' = r"
    using registry_create_cases [OF inv] by (auto simp: live_entities_def split: prod.split)
  show "\<forall>e. fst (registry_destroy e r) = registry_alive e r \<and>
      (\<forall>x. registry_alive x (snd (registry_destroy e r)) \<longleftrightarrow> x \<noteq> e \<and> registry_alive x r)"
    using entities.live_destroy [OF inv] registry_destroy_result [where r = r]
    by (auto simp: live_entities_def set_eq_iff)
qed

theorem entity_create_destroy_exact_witness:
  "fst (registry_destroy (EntityId 0 1) (snd (registry_create emptyRegistry))) =
   registry_alive (EntityId 0 1) (snd (registry_create emptyRegistry))"
  using entity_create_destroy_exact [of "snd (registry_create emptyRegistry)" "[TCreate ()]"]
  by simp

text \<open>
  A destroyed identifier is not reissued by any continuation of fewer than \<open>2 ^ 32 - 2\<close>
  creations and destructions: generations keep stale identifiers dead until the counter of
  the slot has gone all the way round.
\<close>

theorem stale_entity_stays_dead:
  assumes "r = fold registry_apply ops emptyRegistry" and "registry_alive e r"
    and "length later < 2 ^ 32 - 2"
  shows "\<not> registry_alive e (fold registry_apply later (snd (registry_destroy e r)))"
  unfolding fold_registry_apply
proof (rule entity_gens.stale_until_wrap)
  show "reg_inv r" using reg_inv_fold [OF reg_inv_empty] assms(1) by simp
  show "e \<in> live_entities r" using assms(2) by (simp add: live_entities_def)
qed (rule assms(3))

theorem stale_entity_stays_dead_witness:
  "\<not> registry_alive (EntityId 0 1) (fold registry_apply [TCreate ()]
      (snd (registry_destroy (EntityId 0 1) (snd (registry_create emptyRegistry)))))"
proof (rule stale_entity_stays_dead)
  show "snd (registry_create emptyRegistry) = fold registry_apply [TCreate ()] emptyRegistry" by simp
  show "registry_alive (EntityId 0 1) (snd (registry_create emptyRegistry))"
    by (simp add: registry_create_def emptyRegistry_def registry_alive_def entity_valid_def
        InvalidIndex_def Let_def)
qed simp

end
