(* ===== verification/Binary64.thy ===== *)
theory Binary64
  imports RS_Prelude
begin

text \<open>
  IEEE 754 binary64, the C++ \<open>double\<close> of the gameplay clock and random stream, on its bit
  patterns with rounding to nearest even. The magnitude of a finite double is a natural
  number of units of \<open>2 ^ - 1074\<close>, so sums, products and quotients are exact ratios that
  \<open>bitsOfRatio\<close> rounds once. The lemmas bracket the rounding between any two doubles that
  bracket the exact ratio.
\<close>

type_synonym f64 = u64

section \<open>The bit patterns of doubles\<close>

definition SignBit :: u64 where
  "SignBit = 0x8000000000000000"

definition ExponentMask :: u64 where
  "ExponentMask = 0x7ff0000000000000"

definition f64_abs :: "f64 \<Rightarrow> f64" where
  "f64_abs x = x AND 0x7fffffffffffffff"

definition f64_isnan :: "f64 \<Rightarrow> bool" where
  "f64_isnan x \<longleftrightarrow> ExponentMask < f64_abs x"

definition f64_isfinite :: "f64 \<Rightarrow> bool" where
  "f64_isfinite x \<longleftrightarrow> f64_abs x < ExponentMask"

definition f64_iszero :: "f64 \<Rightarrow> bool" where
  "f64_iszero x \<longleftrightarrow> f64_abs x = 0"

definition canonicalDoubleBits :: "f64 \<Rightarrow> u64" where
  "canonicalDoubleBits value =
     (if f64_iszero value then 0
      else if f64_isnan value then 0x7ff8000000000000
      else value)"

lemma canonicalDoubleBits_idem [simp]:
  "canonicalDoubleBits (canonicalDoubleBits x) = canonicalDoubleBits x"
  by (simp add: canonicalDoubleBits_def f64_iszero_def f64_isnan_def f64_abs_def ExponentMask_def)

text \<open>Two doubles have the same canonical bits when they are the same, both zero, or both NaN.\<close>

lemma canonicalDoubleBits_eq:
  "canonicalDoubleBits x = canonicalDoubleBits y \<longleftrightarrow>
     x = y \<or> f64_iszero x \<and> f64_iszero y \<or> f64_isnan x \<and> f64_isnan y"
proof -
  have z: "f64_iszero 0" "\<not> f64_isnan 0" "f64_isnan 0x7ff8000000000000" "\<not> f64_iszero 0x7ff8000000000000"
    by (simp_all add: f64_iszero_def f64_isnan_def f64_abs_def ExponentMask_def)
  have "\<not> (f64_iszero v \<and> f64_isnan v)" for v
    by (simp add: f64_iszero_def f64_isnan_def)
  with z show ?thesis
    unfolding canonicalDoubleBits_def by (auto split: if_splits)
qed

section \<open>Magnitudes and rounding\<close>

definition infBits :: nat where
  "infBits = 2047 * 2 ^ 52"

definition oneUnits :: nat where
  "oneUnits = 2 ^ 1074"

definition magOfBits :: "nat \<Rightarrow> nat" where
  "magOfBits b =
     (if b < 2 ^ 52 then b else (2 ^ 52 + b mod 2 ^ 52) * 2 ^ (b div 2 ^ 52 - 1))"

fun bitLength :: "nat \<Rightarrow> nat" where
  "bitLength n = (if n = 0 then 0 else Suc (bitLength (n div 2)))"

declare bitLength.simps [simp del]

text \<open>The ratio, divided by \<open>2 ^ s\<close> so that 53 bits are left, rounded half to even.\<close>

definition bitsOfRatio :: "nat \<Rightarrow> nat \<Rightarrow> nat" where
  "bitsOfRatio num den =
     (let s = bitLength (num div den) - 53;
          d = den * 2 ^ s;
          f = num div d;
          rem = num mod d;
          r = (if d < 2 * rem \<or> (2 * rem = d \<and> odd f) then f + 1 else f)
      in min (s * 2 ^ 52 + r) infBits)"

section \<open>Operations\<close>

definition f64_mag :: "f64 \<Rightarrow> nat" where
  "f64_mag x = magOfBits (unat (f64_abs x))"

definition f64_negative :: "f64 \<Rightarrow> bool" where
  "f64_negative x \<longleftrightarrow> bit x 63"

definition f64_make :: "bool \<Rightarrow> nat \<Rightarrow> f64" where
  "f64_make neg b = (if neg then SignBit OR of_nat b else of_nat b)"

definition f64_nan :: f64 where
  "f64_nan = 0x7ff8000000000000"

text \<open>The order of the patterns: sign and magnitude. Comparisons with a NaN are false.\<close>

definition f64_key :: "f64 \<Rightarrow> int" where
  "f64_key x = (if f64_negative x then - int (unat (f64_abs x)) else int (unat (f64_abs x)))"

definition f64_less :: "f64 \<Rightarrow> f64 \<Rightarrow> bool" where
  "f64_less x y \<longleftrightarrow> \<not> f64_isnan x \<and> \<not> f64_isnan y \<and> f64_key x < f64_key y"

definition f64_le :: "f64 \<Rightarrow> f64 \<Rightarrow> bool" where
  "f64_le x y \<longleftrightarrow> \<not> f64_isnan x \<and> \<not> f64_isnan y \<and> f64_key x \<le> f64_key y"

definition f64_signed :: "f64 \<Rightarrow> int" where
  "f64_signed x = (if f64_negative x then - int (f64_mag x) else int (f64_mag x))"

definition f64_neg :: "f64 \<Rightarrow> f64" where
  "f64_neg x = x XOR SignBit"

definition f64_add :: "f64 \<Rightarrow> f64 \<Rightarrow> f64" where
  "f64_add x y =
     (if f64_isnan x \<or> f64_isnan y then f64_nan
      else if \<not> f64_isfinite x then
        (if \<not> f64_isfinite y \<and> f64_negative x \<noteq> f64_negative y then f64_nan else x)
      else if \<not> f64_isfinite y then y
      else (let v = f64_signed x + f64_signed y
            in if v = 0 then f64_make (f64_negative x \<and> f64_negative y) 0
               else f64_make (v < 0) (bitsOfRatio (nat \<bar>v\<bar>) 1)))"

definition f64_sub :: "f64 \<Rightarrow> f64 \<Rightarrow> f64" where
  "f64_sub x y = (if f64_isnan y then f64_nan else f64_add x (f64_neg y))"

definition f64_mul :: "f64 \<Rightarrow> f64 \<Rightarrow> f64" where
  "f64_mul x y =
     (let neg = (f64_negative x \<noteq> f64_negative y)
      in if f64_isnan x \<or> f64_isnan y then f64_nan
         else if \<not> f64_isfinite x \<or> \<not> f64_isfinite y then
           (if f64_iszero x \<or> f64_iszero y then f64_nan else f64_make neg infBits)
         else f64_make neg (bitsOfRatio (f64_mag x * f64_mag y) oneUnits))"

definition f64_div :: "f64 \<Rightarrow> f64 \<Rightarrow> f64" where
  "f64_div x y =
     (let neg = (f64_negative x \<noteq> f64_negative y)
      in if f64_isnan x \<or> f64_isnan y then f64_nan
         else if \<not> f64_isfinite x then
           (if \<not> f64_isfinite y then f64_nan else f64_make neg infBits)
         else if \<not> f64_isfinite y then f64_make neg 0
         else if f64_iszero y then
           (if f64_iszero x then f64_nan else f64_make neg infBits)
         else f64_make neg (bitsOfRatio (f64_mag x * oneUnits) (f64_mag y)))"

text \<open>\<open>std::fmod\<close> is exact: the remainder of the magnitudes with the sign of the dividend.\<close>

definition f64_fmod :: "f64 \<Rightarrow> f64 \<Rightarrow> f64" where
  "f64_fmod x y =
     (if f64_isnan x \<or> f64_isnan y \<or> \<not> f64_isfinite x \<or> f64_iszero y then f64_nan
      else if \<not> f64_isfinite y then x
      else f64_make (f64_negative x) (bitsOfRatio (f64_mag x mod f64_mag y) 1))"

definition f64_of_u64 :: "u64 \<Rightarrow> f64" where
  "f64_of_u64 n = f64_make False (bitsOfRatio (unat n * oneUnits) 1)"

text \<open>
  \<open>static_cast<std::uint64_t>(std::floor(x))\<close>: \<open>None\<close> where the conversion is undefined
  behaviour, that is when the integral part does not fit in 64 bits.
\<close>

definition f64_floor_u64 :: "f64 \<Rightarrow> u64 option" where
  "f64_floor_u64 x =
     (if \<not> f64_isfinite x \<or> (f64_negative x \<and> \<not> f64_iszero x) then None
      else if f64_mag x div oneUnits < 2 ^ 64 then Some (of_nat (f64_mag x div oneUnits))
      else None)"

section \<open>Bit length\<close>

lemma bitLength_0 [simp]: "bitLength 0 = 0"
  by (simp add: bitLength.simps)

lemma bitLength_pos: "0 < n \<Longrightarrow> bitLength n = Suc (bitLength (n div 2))"
  by (simp add: bitLength.simps)

lemma less_bitLength: "n < 2 ^ bitLength n"
proof (induction n rule: bitLength.induct)
  case (1 n)
  show ?case
  proof (cases "n = 0")
    case False
    then have "n div 2 < 2 ^ bitLength (n div 2)" using 1 by simp
    then have "n < 2 * 2 ^ bitLength (n div 2)" by linarith
    with False show ?thesis by (simp add: bitLength_pos)
  qed simp
qed

lemma bitLength_le: "0 < n \<Longrightarrow> 2 ^ (bitLength n - 1) \<le> n"
proof (induction n rule: bitLength.induct)
  case (1 n)
  show ?case
  proof (cases "n div 2 = 0")
    case True
    with 1 show ?thesis by (simp add: bitLength_pos)
  next
    case False
    then have "2 ^ (bitLength (n div 2) - 1) \<le> n div 2" using 1 by auto
    moreover have "bitLength (n div 2) = Suc (bitLength (n div 2) - 1)"
      using False by (simp add: bitLength_pos)
    ultimately have "2 ^ bitLength (n div 2) \<le> 2 * (n div 2)"
      by (metis mult_le_mono2 power_Suc)
    also have "\<dots> \<le> n" by simp
    finally show ?thesis using 1(2) by (simp add: bitLength_pos)
  qed
qed

lemma bitLength_mono_bound: "n < 2 ^ k \<Longrightarrow> bitLength n \<le> k"
proof (rule ccontr)
  assume n: "n < 2 ^ k" and "\<not> bitLength n \<le> k"
  then have "0 < n" and "k \<le> bitLength n - 1" by (auto intro: Nat.gr0I)
  then have "(2::nat) ^ k \<le> 2 ^ (bitLength n - 1)" by (simp add: power_increasing)
  also have "\<dots> \<le> n" by (rule bitLength_le [OF \<open>0 < n\<close>])
  finally show False using n by simp
qed

section \<open>Magnitudes are strictly increasing in the bit pattern\<close>

lemma mag_scaled:
  assumes "r \<le> 2 ^ 53" and "s = 0 \<or> 2 ^ 52 \<le> r"
  shows "magOfBits (s * 2 ^ 52 + r) = r * 2 ^ s"
proof -
  consider "r < 2 ^ 52" | "2 ^ 52 \<le> r" "r < 2 ^ 53" | "r = 2 ^ 53" using assms(1) by linarith
  then show ?thesis
  proof cases
    case 1
    with assms show ?thesis by (simp add: magOfBits_def)
  next
    case 2
    define m where "m = r - 2 ^ 52"
    have m: "r = m + 2 ^ 52" "m < 2 ^ 52" using 2 by (auto simp: m_def)
    have "s * 2 ^ 52 + r = m + (s + 1) * 2 ^ 52" using m by simp
    moreover have "(m + (s + 1) * 2 ^ 52) div 2 ^ 52 = s + 1"
      by (subst div_mult_self1) (use m(2) in simp_all)
    moreover have "(m + (s + 1) * 2 ^ 52) mod 2 ^ 52 = m"
      by (simp only: mod_mult_self1 mod_less [OF m(2)])
    ultimately show ?thesis
      using m(1) by (simp only: magOfBits_def) simp
  next
    case 3
    then have "s * 2 ^ 52 + r = (s + 2) * 2 ^ 52" by simp
    moreover have "((s + 2) * 2 ^ 52) div 2 ^ 52 = s + 2" "((s + 2) * 2 ^ 52) mod 2 ^ 52 = (0::nat)"
      by simp_all
    ultimately show ?thesis
      using 3 by (simp only: magOfBits_def) (simp add: power_add)
  qed
qed

lemma bits_decomp:
  fixes b :: nat
  obtains s r where "b = s * 2 ^ 52 + r" and "r < 2 ^ 53" and "s = 0 \<or> 2 ^ 52 \<le> r"
proof (cases "b < 2 ^ 52")
  case True
  then show thesis using that [of 0 b] by simp
next
  case False
  define s where "s = b div 2 ^ 52 - 1"
  have "0 < b div 2 ^ 52" using False by (simp add: div_greater_zero_iff)
  then have "b = s * 2 ^ 52 + (2 ^ 52 + b mod 2 ^ 52)"
    using div_mult_mod_eq [of b "2 ^ 52"] by (auto simp: s_def diff_mult_distrib)
  moreover have "2 ^ 52 + b mod 2 ^ 52 < 2 ^ 53"
    using mod_less_divisor [of "2 ^ 52" b] by simp
  ultimately show thesis using that by simp
qed

lemma mag_Suc: "magOfBits b < magOfBits (b + 1)"
proof -
  obtain s r where b: "b = s * 2 ^ 52 + r" "r < 2 ^ 53" "s = 0 \<or> 2 ^ 52 \<le> r"
    by (rule bits_decomp)
  have "magOfBits (s * 2 ^ 52 + r) = r * 2 ^ s" by (rule mag_scaled) (use b in auto)
  moreover have "magOfBits (s * 2 ^ 52 + (r + 1)) = (r + 1) * 2 ^ s"
    by (rule mag_scaled) (use b in auto)
  ultimately show ?thesis using b(1) by (simp add: add.assoc)
qed

lemma mag_strict_mono: "a < b \<Longrightarrow> magOfBits a < magOfBits b"
proof (induction b)
  case (Suc b)
  then show ?case
    using mag_Suc [of b] by (cases "a = b") (auto simp: less_Suc_eq intro: less_trans)
qed simp

lemma mag_less_iff: "magOfBits a < magOfBits b \<longleftrightarrow> a < b"
  using mag_strict_mono by (metis less_asym linorder_neqE_nat less_irrefl)

lemma mag_le_iff: "magOfBits a \<le> magOfBits b \<longleftrightarrow> a \<le> b"
  using mag_less_iff [of b a] by (simp add: not_less [symmetric])

lemma mag_0 [simp]: "magOfBits 0 = 0"
  by (simp add: magOfBits_def)

lemma mag_eq_0_iff: "magOfBits b = 0 \<longleftrightarrow> b = 0"
  using mag_less_iff [of 0 b] by auto

section \<open>Rounding is bracketed by the doubles around the ratio\<close>

lemma rounding_parts:
  assumes den: "0 < den"
  obtains s f r where
    "bitsOfRatio num den = min (s * 2 ^ 52 + r) infBits"
    and "f < 2 ^ 53" and "s = 0 \<or> 2 ^ 52 \<le> f"
    and "f * 2 ^ s * den \<le> num" and "num < (f + 1) * 2 ^ s * den"
    and "r = f \<or> r = f + 1 \<and> f * 2 ^ s * den < num"
    and "s = bitLength (num div den) - 53"
    and "2 * (num - f * 2 ^ s * den) < 2 ^ s * den \<Longrightarrow> r = f"
proof -
  define s where "s = bitLength (num div den) - 53"
  define d where "d = den * 2 ^ s"
  define f where "f = num div d"
  define rem where "rem = num mod d"
  define r where "r = (if d < 2 * rem \<or> (2 * rem = d \<and> odd f) then f + 1 else f)"
  have d: "0 < d" using den by (simp add: d_def)
  have q: "f = (num div den) div 2 ^ s" by (simp add: f_def d_def div_mult2_eq)
  have split: "num = f * d + rem" "rem < d" using d by (simp_all add: f_def rem_def)
  have "bitLength (num div den) \<le> 53 + s" by (simp add: s_def)
  then have "(2::nat) ^ bitLength (num div den) \<le> 2 ^ (53 + s)" by (rule power_increasing) simp
  with less_bitLength [of "num div den"] have "num div den < 2 ^ 53 * 2 ^ s"
    by (simp only: power_add)
  then have f53: "f < 2 ^ 53" unfolding q by (simp add: less_mult_imp_div_less)
  have f52: "s = 0 \<or> 2 ^ 52 \<le> f"
  proof (cases "s = 0")
    case False
    then have "0 < num div den" by (auto simp: s_def intro: Nat.gr0I)
    from bitLength_le [OF this] have "2 ^ (bitLength (num div den) - 1) \<le> num div den" .
    moreover have "bitLength (num div den) - 1 = 52 + s" using False by (simp add: s_def)
    ultimately have "2 ^ 52 * 2 ^ s \<le> num div den" by (simp only: power_add)
    then have "2 ^ 52 \<le> f" unfolding q
      by (metis div_le_mono nonzero_mult_div_cancel_right power_not_zero zero_neq_numeral)
    then show ?thesis by simp
  qed simp
  show thesis
  proof (rule that [of s r f])
    show "bitsOfRatio num den = min (s * 2 ^ 52 + r) infBits"
      by (simp add: bitsOfRatio_def s_def d_def f_def rem_def r_def Let_def)
    show "r = f \<or> r = f + 1 \<and> f * 2 ^ s * den < num"
      using split d by (auto simp: r_def d_def mult.commute mult.left_commute)
    show "f * 2 ^ s * den \<le> num" using split by (simp add: d_def ac_simps)
    have "num < (f + 1) * d" using split by simp
    then show "num < (f + 1) * 2 ^ s * den" by (simp only: d_def ac_simps)
    show "r = f" if "2 * (num - f * 2 ^ s * den) < 2 ^ s * den"
    proof -
      have "num - f * 2 ^ s * den = rem" using split by (simp add: d_def ac_simps)
      with that show ?thesis by (auto simp: r_def d_def ac_simps)
    qed
  qed (use f53 f52 in \<open>auto simp: s_def\<close>)
qed

lemma ratio_le:
  assumes den: "0 < den" and le: "num \<le> magOfBits b * den"
  shows "bitsOfRatio num den \<le> b"
proof -
  obtain s f r where R: "bitsOfRatio num den = min (s * 2 ^ 52 + r) infBits"
    "f < 2 ^ 53" "s = 0 \<or> 2 ^ 52 \<le> f" "f * 2 ^ s * den \<le> num"
    "r = f \<or> r = f + 1 \<and> f * 2 ^ s * den < num"
    by (rule rounding_parts [OF den, of num])
  have mag: "magOfBits (s * 2 ^ 52 + f) = f * 2 ^ s" by (rule mag_scaled) (use R in auto)
  have "f * 2 ^ s * den \<le> magOfBits b * den" using R(4) le by (rule le_trans)
  then have low: "s * 2 ^ 52 + f \<le> b"
    using den by (simp add: mag [symmetric] mag_le_iff)
  show ?thesis
  proof (cases "r = f")
    case True
    with low R(1) show ?thesis by simp
  next
    case False
    with R(5) have r: "r = f + 1" "f * 2 ^ s * den < num" by auto
    from this(2) have "f * 2 ^ s * den < magOfBits b * den" using le by (rule less_le_trans)
    then have "s * 2 ^ 52 + f < b" using den by (simp add: mag [symmetric] mag_less_iff)
    with r(1) R(1) show ?thesis by simp
  qed
qed

lemma ratio_ge:
  assumes den: "0 < den" and ge: "magOfBits b * den \<le> num" and "b \<le> infBits"
  shows "b \<le> bitsOfRatio num den"
proof -
  obtain s f r where R: "bitsOfRatio num den = min (s * 2 ^ 52 + r) infBits"
    "f < 2 ^ 53" "s = 0 \<or> 2 ^ 52 \<le> f" "num < (f + 1) * 2 ^ s * den" "r = f \<or> r = f + 1 \<and> f * 2 ^ s * den < num"
    by (rule rounding_parts [OF den, of num])
  have r: "f \<le> r" using R(5) by auto
  have mag: "magOfBits (s * 2 ^ 52 + (f + 1)) = (f + 1) * 2 ^ s" by (rule mag_scaled) (use R in auto)
  have "magOfBits b * den < (f + 1) * 2 ^ s * den" using ge R(4) by (rule le_less_trans)
  then have "b < s * 2 ^ 52 + (f + 1)"
    by (simp only: mult_less_cancel2 mag [symmetric] mag_less_iff)
  with R(1) r assms(3) show ?thesis by simp
qed

lemma ratio_exact:
  assumes "0 < den" and "num = magOfBits b * den" and "b \<le> infBits"
  shows "bitsOfRatio num den = b"
  using ratio_le [of den num b] ratio_ge [of den b num] assms by simp

lemma ratio_inf: "0 < den \<Longrightarrow> bitsOfRatio num den \<le> infBits"
  by (simp add: bitsOfRatio_def Let_def)

text \<open>A number with at most 53 significant bits is a double, as long as it is in range.\<close>

lemma representable:
  assumes "k < 2 ^ 53"
  shows "\<exists>b. magOfBits b = k * 2 ^ t"
  using assms
proof (induction t arbitrary: k)
  case 0
  then show ?case using mag_scaled [of k 0] by auto
next
  case (Suc t)
  show ?case
  proof (cases "k < 2 ^ 52")
    case True
    then have "2 * k < 2 ^ 53" by simp
    from Suc.IH [OF this] show ?thesis by (simp add: mult.assoc mult.left_commute)
  next
    case False
    then have "magOfBits (Suc t * 2 ^ 52 + k) = k * 2 ^ Suc t"
      by (intro mag_scaled) (use Suc.prems in auto)
    then show ?thesis by blast
  qed
qed

section \<open>Patterns of results\<close>

text \<open>\<open>f64_pos\<close>: finite and without sign bit, \<open>+0\<close> included.\<close>

definition f64_pos :: "f64 \<Rightarrow> bool" where
  "f64_pos x \<longleftrightarrow> unat x < infBits"

lemma unat_ExponentMask: "unat ExponentMask = infBits"
  by (simp add: ExponentMask_def infBits_def)

lemma abs_mask: "f64_abs x = take_bit 63 x"
proof -
  have "(0x7fffffffffffffff :: u64) = mask 63" by (simp add: mask_eq_exp_minus_1)
  then show ?thesis by (simp only: f64_abs_def take_bit_eq_mask)
qed

lemma unat_abs: "unat (f64_abs x) = unat x mod 2 ^ 63"
  by (simp only: abs_mask unsigned_take_bit_eq) (simp add: take_bit_eq_mod)

lemma infBits_less: "infBits < 2 ^ 63"
  by (simp add: infBits_def)

lemma sign_bit: "unat x < 2 ^ 63 \<Longrightarrow> \<not> bit x 63" for x :: u64
proof -
  assume "unat x < 2 ^ 63"
  then have "\<not> bit (unat x) 63" by (simp add: bit_iff_odd)
  then show ?thesis by (simp add: bit_unsigned_iff)
qed

lemma make_pos: "b \<le> infBits \<Longrightarrow> unat (f64_make False b) = b"
  using infBits_less by (simp only: f64_make_def if_False) (rule unat_of_nat_u64, simp)

lemma bit_SignBit [simp]: "bit SignBit n \<longleftrightarrow> n = 63"
proof -
  have "bit (2 ^ 63 :: u64) n \<longleftrightarrow> n = 63" by (simp only: bit_exp_iff possible_bit_word) auto
  then show ?thesis by (simp add: SignBit_def)
qed

lemma abs_make: "b \<le> infBits \<Longrightarrow> unat (f64_abs (f64_make neg b)) = b"
proof -
  assume b: "b \<le> infBits"
  have "f64_abs (f64_make neg b) = take_bit 63 (of_nat b)"
    by (rule bit_word_eqI) (auto simp: abs_mask f64_make_def bit_simps)
  also have "unat \<dots> = b mod 2 ^ 63"
    by (simp only: unsigned_take_bit_eq unsigned_of_nat)
      (simp add: take_bit_eq_mod mod_mod_cancel)
  finally show ?thesis using b infBits_less by simp
qed

lemma posD:
  assumes "f64_pos x"
  shows "unat (f64_abs x) = unat x" and "\<not> f64_isnan x" and "f64_isfinite x" and "\<not> f64_negative x"
    and "f64_mag x = magOfBits (unat x)" and "f64_signed x = int (f64_mag x)"
    and "f64_key x = int (unat x)" and "f64_iszero x \<longleftrightarrow> x = 0"
proof -
  have x: "unat x < 2 ^ 63" using assms infBits_less by (simp add: f64_pos_def)
  show abs: "unat (f64_abs x) = unat x" using x by (simp add: unat_abs)
  show neg: "\<not> f64_negative x" using sign_bit [OF x] by (simp add: f64_negative_def)
  show "\<not> f64_isnan x" "f64_isfinite x"
    using assms by (simp_all only: f64_isnan_def f64_isfinite_def word_less_nat_alt abs
        unat_ExponentMask f64_pos_def not_less less_imp_le)
  show "f64_mag x = magOfBits (unat x)" by (simp add: f64_mag_def abs)
  show "f64_signed x = int (f64_mag x)" using neg by (simp add: f64_signed_def)
  show "f64_key x = int (unat x)" using neg by (simp add: f64_key_def abs)
  show "f64_iszero x \<longleftrightarrow> x = 0" by (metis abs f64_iszero_def unat_eq_zero)
qed

lemma pos_make: "b < infBits \<Longrightarrow> f64_pos (f64_make False b)"
  by (simp add: f64_pos_def make_pos)

lemma finite_make: "b \<le> infBits \<Longrightarrow> f64_isfinite (f64_make neg b) \<longleftrightarrow> b < infBits"
  by (simp only: f64_isfinite_def word_less_nat_alt abs_make unat_ExponentMask)

lemma pos_0 [simp]: "f64_pos 0"
  by (simp add: f64_pos_def infBits_def)

lemma pos_conv: "f64_pos x \<longleftrightarrow> f64_isfinite x \<and> \<not> f64_negative x"
proof
  assume "f64_isfinite x \<and> \<not> f64_negative x"
  then have fin: "unat x mod 2 ^ 63 < infBits" and neg: "\<not> bit x 63"
    by (auto simp: f64_isfinite_def word_less_nat_alt unat_abs unat_ExponentMask f64_negative_def)
  have "f64_abs x = x"
  proof (rule bit_word_eqI)
    fix n assume n: "n < LENGTH(64)"
    show "bit (f64_abs x) n \<longleftrightarrow> bit x n"
    proof (cases "n = 63")
      case True
      with neg show ?thesis by (simp only: abs_mask bit_take_bit_iff) simp
    next
      case False
      then have "n < 63" using n by simp
      then show ?thesis by (simp only: abs_mask bit_take_bit_iff) simp
    qed
  qed
  then have "unat x mod 2 ^ 63 = unat x" by (metis unat_abs)
  with fin show "f64_pos x" by (simp add: f64_pos_def)
qed (simp add: posD)

lemma mag_less_mag: "f64_pos x \<Longrightarrow> f64_pos y \<Longrightarrow> f64_less x y \<longleftrightarrow> f64_mag x < f64_mag y"
  by (simp only: f64_less_def posD mag_less_iff of_nat_less_iff not_False_eq_True simp_thms)

lemma less_zero_negative: "f64_isfinite x \<Longrightarrow> f64_less x 0 \<longleftrightarrow> f64_negative x \<and> \<not> f64_iszero x"
proof -
  assume fin: "f64_isfinite x"
  have "f64_less x 0 \<longleftrightarrow> f64_key x < 0"
    using fin posD [OF pos_0] by (auto simp: f64_less_def f64_isfinite_def f64_isnan_def)
  also have "\<dots> \<longleftrightarrow> f64_negative x \<and> 0 < unat (f64_abs x)"
    by (simp only: f64_key_def split: if_split) linarith
  also have "\<dots> \<longleftrightarrow> f64_negative x \<and> \<not> f64_iszero x"
    by (simp only: f64_iszero_def unat_gt_0)
  finally show ?thesis .
qed

section \<open>Nonnegative finite numbers\<close>

text \<open>Finite and not below zero: a pattern without sign bit, or \<open>-0\<close>.\<close>

definition f64_nonneg :: "f64 \<Rightarrow> bool" where
  "f64_nonneg x \<longleftrightarrow> f64_isfinite x \<and> \<not> f64_less x 0"

lemma finite_abs: "f64_isfinite x \<Longrightarrow> unat (f64_abs x) < infBits"
  by (simp only: f64_isfinite_def word_less_nat_alt unat_ExponentMask)

lemma finite_not_nan: "f64_isfinite x \<Longrightarrow> \<not> f64_isnan x"
  by (simp only: f64_isfinite_def f64_isnan_def not_less less_imp_le)

lemma mag_abs: "f64_mag x = magOfBits (unat (f64_abs x))"
  by (simp add: f64_mag_def)

lemma zero_iff_mag: "f64_iszero x \<longleftrightarrow> f64_mag x = 0"
  by (simp only: f64_iszero_def mag_abs mag_eq_0_iff unat_eq_0)

lemma pos_nonneg: "f64_pos x \<Longrightarrow> f64_nonneg x"
  using posD [of x] less_zero_negative [of x] by (simp add: f64_nonneg_def)

lemma nonneg_signed: "f64_nonneg x \<Longrightarrow> f64_signed x = int (f64_mag x)"
  using less_zero_negative [of x] by (auto simp: f64_nonneg_def f64_signed_def zero_iff_mag)

lemma nonneg_key: "f64_nonneg x \<Longrightarrow> f64_key x = int (unat (f64_abs x))"
  using less_zero_negative [of x] by (auto simp: f64_nonneg_def f64_key_def f64_iszero_def)

lemma nonneg_finite: "f64_nonneg x \<Longrightarrow> f64_isfinite x"
  by (simp add: f64_nonneg_def)

lemma nonneg_le_iff:
  assumes "f64_pos d" and "f64_nonneg x"
  shows "f64_le d x \<longleftrightarrow> f64_mag d \<le> f64_mag x"
  using assms posD [OF assms(1)] finite_not_nan [OF nonneg_finite [OF assms(2)]]
  by (simp only: f64_le_def nonneg_key mag_abs mag_le_iff of_nat_le_iff) simp

lemma neg_flips: "f64_abs (f64_neg x) = f64_abs x" "f64_negative (f64_neg x) \<longleftrightarrow> \<not> f64_negative x"
proof -
  show "f64_abs (f64_neg x) = f64_abs x"
    by (rule bit_word_eqI) (auto simp: abs_mask f64_neg_def bit_simps)
  show "f64_negative (f64_neg x) \<longleftrightarrow> \<not> f64_negative x"
    by (simp add: f64_negative_def f64_neg_def bit_simps)
qed

lemma neg_signed: "f64_signed (f64_neg x) = - f64_signed x" "f64_isfinite (f64_neg x) = f64_isfinite x"
  by (simp_all add: f64_signed_def mag_abs neg_flips f64_isfinite_def)

lemma mag_make: "b \<le> infBits \<Longrightarrow> f64_mag (f64_make neg b) = magOfBits b"
  by (simp add: mag_abs abs_make)

text \<open>A sum whose exact value is within the range of a double is finite and within it too.\<close>

lemma add_within:
  assumes "f64_isfinite x" "f64_isfinite y" and b: "b < infBits"
    and le: "\<bar>f64_signed x + f64_signed y\<bar> \<le> int (magOfBits b)"
  shows "f64_isfinite (f64_add x y)" and "f64_mag (f64_add x y) \<le> magOfBits b"
proof -
  let ?v = "f64_signed x + f64_signed y"
  define r where "r = bitsOfRatio (nat \<bar>?v\<bar>) 1"
  have "r \<le> b" unfolding r_def by (rule ratio_le) (use le in auto)
  moreover have "f64_add x y = (if ?v = 0 then f64_make (f64_negative x \<and> f64_negative y) 0
      else f64_make (?v < 0) r)"
    using assms(1,2) finite_not_nan by (simp add: f64_add_def r_def Let_def)
  ultimately show "f64_isfinite (f64_add x y)" "f64_mag (f64_add x y) \<le> magOfBits b"
    using b by (auto simp: finite_make mag_make mag_le_iff infBits_def)
qed

lemma make_negative: "b \<le> infBits \<Longrightarrow> f64_negative (f64_make neg b) \<longleftrightarrow> neg"
proof (cases neg)
  case True
  then show ?thesis by (simp add: f64_negative_def f64_make_def bit_or_iff)
next
  case False
  assume "b \<le> infBits"
  then have "unat (f64_make False b) < 2 ^ 63" using infBits_less by (simp add: make_pos)
  with False sign_bit show ?thesis by (simp add: f64_negative_def)
qed

lemma add_not_below:
  assumes "f64_isfinite x" "f64_isfinite y" and "0 \<le> f64_signed x + f64_signed y"
  shows "0 \<le> f64_signed (f64_add x y)"
proof -
  let ?v = "f64_signed x + f64_signed y"
  define r where "r = bitsOfRatio (nat \<bar>?v\<bar>) 1"
  have r: "r \<le> infBits" unfolding r_def by (rule ratio_inf) simp
  have "f64_add x y = (if ?v = 0 then f64_make (f64_negative x \<and> f64_negative y) 0
      else f64_make False r)"
    using assms finite_not_nan by (simp add: f64_add_def r_def Let_def)
  then show ?thesis
    using r mag_make [of 0] by (simp add: f64_signed_def make_negative)
qed

lemma sub_within:
  assumes "f64_isfinite x" "f64_isfinite y" and "b < infBits"
    and "\<bar>f64_signed x - f64_signed y\<bar> \<le> int (magOfBits b)"
  shows "f64_isfinite (f64_sub x y)" and "f64_mag (f64_sub x y) \<le> magOfBits b"
  using add_within [of x "f64_neg y" b] assms finite_not_nan [OF assms(2)]
  by (simp_all add: f64_sub_def neg_signed)

lemma add_nonneg_eq:
  assumes "f64_nonneg x" "f64_nonneg y" and "0 < f64_mag x + f64_mag y"
  shows "f64_add x y = f64_make False (bitsOfRatio (f64_mag x + f64_mag y) 1)"
proof -
  have "f64_isfinite x" "f64_isfinite y" using assms by (simp_all add: nonneg_finite)
  moreover have "f64_signed x + f64_signed y = int (f64_mag x + f64_mag y)"
    using assms by (simp add: nonneg_signed)
  moreover have "int (f64_mag x + f64_mag y) \<noteq> 0" using assms(3) by linarith
  ultimately show ?thesis
    using finite_not_nan by (simp add: f64_add_def Let_def nat_add_distrib)
qed

lemma add_nonneg:
  assumes "f64_nonneg x" "f64_nonneg y" and "bitsOfRatio (f64_mag x + f64_mag y) 1 < infBits"
  shows "f64_nonneg (f64_add x y)"
proof -
  have fin: "f64_isfinite x" "f64_isfinite y" using assms by (simp_all add: nonneg_finite)
  have "f64_add x y = (if f64_mag x + f64_mag y = 0
      then f64_make (f64_negative x \<and> f64_negative y) 0
      else f64_make False (bitsOfRatio (f64_mag x + f64_mag y) 1))"
    using fin finite_not_nan nonneg_signed assms(1,2)
    by (simp add: f64_add_def Let_def nat_add_distrib)
  moreover have "f64_nonneg (f64_make neg 0)" for neg
    using less_zero_negative [of "f64_make neg 0"] finite_make [of 0 neg] mag_make [of 0 neg]
    by (simp add: f64_nonneg_def zero_iff_mag infBits_def)
  ultimately show ?thesis using assms(3) pos_nonneg [OF pos_make] by simp
qed

lemma pow_bits: "magOfBits ((k + 1) * 2 ^ 52) = 2 ^ (52 + k)"
  using mag_scaled [of "2 ^ 52" k] by (simp add: power_add ac_simps)

text \<open>A total keeps finite however often a number up to \<open>2 ^ 64\<close> is added to it.\<close>

lemma add_small_finite:
  assumes "a \<le> magOfBits (infBits - 1)" and "b \<le> 2 ^ 1138"
  shows "bitsOfRatio (a + b) 1 < infBits"
proof -
  have top: "magOfBits (infBits - 1) = (2 ^ 53 - 1) * 2 ^ 2045"
    using mag_scaled [of "2 ^ 53 - 1" 2045] by (simp add: infBits_def)
  have small: "(2::nat) ^ 1138 < 2 ^ 2044" by (rule power_strict_increasing) simp_all
  obtain s f r where R: "bitsOfRatio (a + b) 1 = min (s * 2 ^ 52 + r) infBits"
    "f < 2 ^ 53" "s = 0 \<or> 2 ^ 52 \<le> f" "f * 2 ^ s * 1 \<le> a + b"
    "r = f \<or> r = f + 1 \<and> f * 2 ^ s * 1 < a + b"
    "s = bitLength ((a + b) div 1) - 53"
    "2 * (a + b - f * 2 ^ s * 1) < 2 ^ s * 1 \<Longrightarrow> r = f"
    by (rule rounding_parts [of 1 "a + b"]) simp_all
  have two: "(2::nat) ^ 2045 = 2 * 2 ^ 2044" by (simp only: power_Suc [symmetric] Suc_numeral) simp
  have split: "(2 ^ 53 - 1) * 2 ^ 2045 + (2::nat) ^ 2045 = 2 ^ 2098"
    by (simp add: algebra_simps power_add [symmetric])
  have "a + b < 2 ^ 2098" using assms top small two split by linarith
  then have "s \<le> 2045" using R(6) bitLength_mono_bound [of "a + b" 2098] by simp
  moreover have "r \<le> f + 1" using R(5) by auto
  moreover have "r < 2 ^ 53" if s: "s = 2045"
  proof (cases "f = 2 ^ 53 - 1")
    case True
    have "a + b \<le> f * 2 ^ s + 2 ^ 1138"
      using assms top unfolding True s by linarith
    then have "a + b - f * 2 ^ s \<le> 2 ^ 1138" by (simp only: le_diff_conv add.commute)
    then have "a + b - f * 2 ^ s < 2 ^ 2044" using small by (rule le_less_trans)
    then have "2 * (a + b - f * 2 ^ s) < 2 * 2 ^ 2044" by (rule mult_strict_left_mono) (rule zero_less_numeral)
    then have "2 * (a + b - f * 2 ^ s * 1) < 2 ^ s * 1"
      by (simp only: s two mult_1_right)
    from R(7) [OF this] R(2) show ?thesis by simp
  next
    case False
    with R(2) \<open>r \<le> f + 1\<close> show ?thesis by linarith
  qed
  ultimately have "s * 2 ^ 52 + r < infBits"
    using R(2) by (cases "s = 2045") (auto simp: infBits_def)
  with R(1) show ?thesis by simp
qed

lemma finite_mag_le: "f64_isfinite x \<Longrightarrow> f64_mag x \<le> magOfBits (infBits - 1)"
  using finite_abs [of x] by (simp add: mag_abs mag_le_iff)

section \<open>Products, quotients and remainders of nonnegative numbers\<close>

lemma oneUnits_pos: "0 < oneUnits"
  by (simp add: oneUnits_def)

lemma mul_pos:
  assumes "f64_pos x" "f64_pos y"
  shows "f64_mul x y = f64_make False (bitsOfRatio (f64_mag x * f64_mag y) oneUnits)"
  using posD [OF assms(1)] posD [OF assms(2)] by (simp add: f64_mul_def)

lemma div_pos:
  assumes "f64_pos x" "f64_pos y" "f64_mag y \<noteq> 0"
  shows "f64_div x y = f64_make False (bitsOfRatio (f64_mag x * oneUnits) (f64_mag y))"
  using posD [OF assms(1)] posD [OF assms(2)] assms(3) by (simp add: f64_div_def zero_iff_mag [of y])

lemma mag_parts:
  obtains s r where "magOfBits b = r * 2 ^ s" and "r < 2 ^ 53" and "s = 0 \<or> 2 ^ 52 \<le> r"
proof -
  obtain s r where b: "b = s * 2 ^ 52 + r" "r < 2 ^ 53" "s = 0 \<or> 2 ^ 52 \<le> r"
    by (rule bits_decomp)
  moreover have "magOfBits b = r * 2 ^ s" unfolding b(1) by (rule mag_scaled) (use b in auto)
  ultimately show thesis using that by blast
qed

lemma mod_representable:
  assumes "magOfBits d \<le> magOfBits a" and "0 < magOfBits d"
  shows "\<exists>b. magOfBits b = magOfBits a mod magOfBits d"
proof -
  obtain sa ra where a: "magOfBits a = ra * 2 ^ sa" "ra < 2 ^ 53" "sa = 0 \<or> 2 ^ 52 \<le> ra"
    by (rule mag_parts)
  obtain sd rd where d: "magOfBits d = rd * 2 ^ sd" "rd < 2 ^ 53" "sd = 0 \<or> 2 ^ 52 \<le> rd"
    by (rule mag_parts)
  have "sd \<le> sa"
  proof (rule ccontr)
    assume "\<not> sd \<le> sa"
    then obtain k where k: "sd = Suc (sa + k)" by (metis less_iff_Suc_add not_le)
    with d(3) have "2 ^ 52 \<le> rd" by simp
    have "(2::nat) ^ 53 * 2 ^ sa = 2 ^ 52 * (2 * 2 ^ sa)" by simp
    also have "\<dots> \<le> rd * 2 ^ sd"
      using \<open>2 ^ 52 \<le> rd\<close> by (intro mult_le_mono) (simp_all add: k power_add)
    also have "\<dots> \<le> ra * 2 ^ sa" using assms(1) a(1) d(1) by simp
    finally show False using a(2) by simp
  qed
  then obtain k where k: "sa = sd + k" using le_Suc_ex by blast
  have "magOfBits a mod magOfBits d = (ra * 2 ^ k * 2 ^ sd) mod (rd * 2 ^ sd)"
    by (simp add: a(1) d(1) k power_add ac_simps)
  also have "\<dots> = ((ra * 2 ^ k) mod rd) * 2 ^ sd" by (rule mult_mod_left [symmetric])
  finally have eq: "magOfBits a mod magOfBits d = ((ra * 2 ^ k) mod rd) * 2 ^ sd" .
  have "(ra * 2 ^ k) mod rd < 2 ^ 53"
    using assms(2) d by (intro less_trans [OF mod_less_divisor]) auto
  from representable [OF this, of sd] show ?thesis by (simp add: eq)
qed

lemma fmod_less:
  assumes d: "f64_pos d" "0 < f64_mag d" and x: "f64_pos x" and le: "f64_mag d \<le> f64_mag x"
  shows "f64_pos (f64_fmod x d)" and "f64_mag (f64_fmod x d) < f64_mag d"
proof -
  note D = posD [OF d(1)] and X = posD [OF x]
  obtain b where b: "magOfBits b = f64_mag x mod f64_mag d"
    using mod_representable [of "unat d" "unat x"] le d(2) D(5) X(5) by auto
  then have "magOfBits b < magOfBits (unat d)" using d(2) D(5) by simp
  then have lt: "b < unat d" by (simp add: mag_less_iff)
  then have b_inf: "b < infBits" using d(1) by (simp add: f64_pos_def)
  have "bitsOfRatio (f64_mag x mod f64_mag d) 1 = b"
    by (rule ratio_exact) (use b b_inf in auto)
  then have "f64_fmod x d = f64_make False b"
    using D X d(2) by (simp add: f64_fmod_def zero_iff_mag [of d])
  then show "f64_pos (f64_fmod x d)" "f64_mag (f64_fmod x d) < f64_mag d"
    using b_inf lt D(5) by (simp_all add: pos_make mag_make mag_less_iff)
qed

section \<open>One and \<open>2 ^ 64\<close>\<close>

definition f64_one :: f64 where
  "f64_one = 0x3ff0000000000000"

text \<open>The patterns of 1 and of \<open>2 ^ 64\<close>.\<close>

definition oneBits :: nat where
  "oneBits = 1023 * 2 ^ 52"

definition bound64 :: nat where
  "bound64 = 1087 * 2 ^ 52"

lemma mag_oneBits: "magOfBits oneBits = oneUnits"
  using pow_bits [of 1022] by (simp add: oneBits_def oneUnits_def)

lemma mag_bound64: "magOfBits bound64 = 2 ^ 64 * oneUnits"
  using pow_bits [of 1086] by (simp add: bound64_def oneUnits_def)

lemma bits_order: "oneBits < infBits" "bound64 < infBits" "0 < oneBits"
  by (simp_all add: oneBits_def bound64_def infBits_def)

lemma f64_one_pos: "f64_pos f64_one" "f64_mag f64_one = oneUnits"
proof -
  have "unat f64_one = oneBits" by (simp add: f64_one_def oneBits_def)
  then show "f64_pos f64_one" by (simp add: f64_pos_def bits_order)
  from posD(5) [OF this] show "f64_mag f64_one = oneUnits"
    by (simp add: \<open>unat f64_one = oneBits\<close> mag_oneBits)
qed

end
