(* ===== verification/Fixed_Tick_Clock.thy ===== *)
theory Fixed_Tick_Clock
  imports Binary64 Stable_Hash Snapshotable
begin

text \<open>
  \<open>FixedTickClock\<close> of \<open>src/game/GameplayPrimitives.cpp\<close>: elapsed seconds are accumulated and
  paid out in whole ticks, at most \<open>maximumSteps\<close> at a time. The lemmas show that whenever
  \<open>accumulate\<close> is defined it leaves a clock that \<open>restore\<close> accepts.
\<close>

section \<open>State and operations\<close>

record FixedTickClock =
  ticksPerSecond :: u32
  clockTick :: u64
  accumulatorSeconds :: f64
  droppedSeconds :: f64

record AdvanceResult =
  arSteps :: u32
  arInterpolationAlpha :: f64
  arDroppedSeconds :: f64

text \<open>The constructor replaces a rate of 0 by 60.\<close>

definition newClock :: "u32 \<Rightarrow> FixedTickClock" where
  "newClock rate =
     \<lparr>ticksPerSecond = (if rate = 0 then 60 else rate), clockTick = 0,
      accumulatorSeconds = 0, droppedSeconds = 0\<rparr>"

definition deltaOf :: "u32 \<Rightarrow> f64" where
  "deltaOf rate = f64_div f64_one (f64_of_u64 (ucast rate))"

definition fixedDeltaSeconds :: "FixedTickClock \<Rightarrow> f64" where
  "fixedDeltaSeconds c = deltaOf (ticksPerSecond c)"

definition interpolationAlpha :: "FixedTickClock \<Rightarrow> f64" where
  "interpolationAlpha c = f64_div (accumulatorSeconds c) (fixedDeltaSeconds c)"

text \<open>
  The tail of \<open>accumulate\<close>: the steps are taken off the accumulator, which is brought back
  into \<open>[0, delta)\<close>.
\<close>

definition settle :: "f64 \<Rightarrow> f64 \<Rightarrow> f64" where
  "settle delta acc =
     (let acc1 = (if f64_less acc 0 then 0 else acc)
      in if f64_le delta acc1 then f64_fmod acc1 delta else acc1)"

text \<open>
  \<open>None\<close> where the conversion of the quotient to 64 bits is undefined behaviour.
\<close>

definition accumulate ::
    "f64 \<Rightarrow> u32 \<Rightarrow> FixedTickClock \<Rightarrow> (AdvanceResult \<times> FixedTickClock) option" where
  "accumulate elapsedSeconds maximumSteps c =
     (if \<not> f64_isfinite elapsedSeconds \<or> f64_le elapsedSeconds 0 \<or> maximumSteps = 0
      then Some (\<lparr>arSteps = 0, arInterpolationAlpha = interpolationAlpha c, arDroppedSeconds = 0\<rparr>, c)
      else
        (let acc0 = f64_add (accumulatorSeconds c) elapsedSeconds;
             delta = fixedDeltaSeconds c
         in case f64_floor_u64 (f64_div acc0 delta) of
              None \<Rightarrow> None
            | Some available \<Rightarrow>
                (let over = ucast maximumSteps < available;
                     dropped = (if over then f64_mul (f64_of_u64 (available - ucast maximumSteps)) delta
                                else 0);
                     droppedTotal = (if over then f64_add (droppedSeconds c) dropped else droppedSeconds c);
                     acc1 = (if over then f64_sub acc0 dropped else acc0);
                     steps = (ucast (if over then ucast maximumSteps else available) :: u32);
                     acc2 = settle delta (f64_sub acc1 (f64_mul (f64_of_u64 (ucast steps)) delta));
                     c' = c\<lparr>accumulatorSeconds := acc2, droppedSeconds := droppedTotal\<rparr>
                 in Some (\<lparr>arSteps = steps, arInterpolationAlpha = interpolationAlpha c',
                           arDroppedSeconds = dropped\<rparr>, c'))))"

definition clock_step :: "FixedTickClock \<Rightarrow> u64 \<times> FixedTickClock" where
  "clock_step c =
     (let c' = (if clockTick c \<noteq> - 1 then c\<lparr>clockTick := clockTick c + 1\<rparr> else c)
      in (clockTick c', c'))"

definition clock_reset :: "u64 \<Rightarrow> FixedTickClock \<Rightarrow> FixedTickClock" where
  "clock_reset tick c = c\<lparr>clockTick := tick, accumulatorSeconds := 0, droppedSeconds := 0\<rparr>"

definition clock_snapshot :: "FixedTickClock \<Rightarrow> FixedTickClock" where
  "clock_snapshot c =
     \<lparr>ticksPerSecond = ticksPerSecond c, clockTick = clockTick c,
      accumulatorSeconds = accumulatorSeconds c, droppedSeconds = droppedSeconds c\<rparr>"

definition clock_restore :: "FixedTickClock \<Rightarrow> FixedTickClock option" where
  "clock_restore st =
     (if ticksPerSecond st = 0 \<or> \<not> f64_isfinite (accumulatorSeconds st) \<or>
         \<not> f64_isfinite (droppedSeconds st) \<or>
         f64_less (accumulatorSeconds st) 0 \<or> f64_less (droppedSeconds st) 0
      then None
      else if f64_le (deltaOf (ticksPerSecond st)) (accumulatorSeconds st) then None
      else Some \<lparr>ticksPerSecond = ticksPerSecond st, clockTick = clockTick st,
                 accumulatorSeconds = accumulatorSeconds st, droppedSeconds = droppedSeconds st\<rparr>)"

definition clock_stableHash :: "FixedTickClock \<Rightarrow> u64" where
  "clock_stableHash c =
     hashU64 (hashU64 (hashU64 (hashU64 FnvOffset (ucast (ticksPerSecond c))) (clockTick c))
       (canonicalDoubleBits (accumulatorSeconds c))) (canonicalDoubleBits (droppedSeconds c))"

section \<open>The invariant is what restore checks\<close>

definition clock_inv :: "FixedTickClock \<Rightarrow> bool" where
  "clock_inv c \<longleftrightarrow>
     ticksPerSecond c \<noteq> 0 \<and>
     f64_isfinite (accumulatorSeconds c) \<and> f64_isfinite (droppedSeconds c) \<and>
     \<not> f64_less (accumulatorSeconds c) 0 \<and> \<not> f64_less (droppedSeconds c) 0 \<and>
     \<not> f64_le (deltaOf (ticksPerSecond c)) (accumulatorSeconds c)"

lemma clock_snapshot_id [simp]: "clock_snapshot c = c"
  by (simp add: clock_snapshot_def)

lemma clock_restore_conv: "clock_restore st = (if clock_inv st then Some st else None)"
  by (simp add: clock_restore_def clock_inv_def)

interpretation clock_save: snapshotable clock_snapshot clock_restore clock_inv
  by unfold_locales (auto simp: clock_restore_conv split: if_splits)

section \<open>The tick length\<close>

lemma of_u64_bounds:
  shows "f64_pos (f64_of_u64 n)" and "f64_mag (f64_of_u64 n) \<le> 2 ^ 64 * oneUnits"
    and "n \<noteq> 0 \<Longrightarrow> oneUnits \<le> f64_mag (f64_of_u64 n)"
proof -
  let ?b = "bitsOfRatio (unat n * oneUnits) 1"
  have "unat n * oneUnits \<le> magOfBits bound64 * 1"
    using unat_u64_less [of n] by (simp only: mag_bound64 mult_1_right) (intro mult_le_mono1, simp)
  then have b: "?b \<le> bound64" by (rule ratio_le [OF zero_less_one])
  then have inf: "?b < infBits" using bits_order(2) by (rule le_less_trans)
  show "f64_pos (f64_of_u64 n)" using inf by (simp add: f64_of_u64_def pos_make)
  have mag: "f64_mag (f64_of_u64 n) = magOfBits ?b" using inf by (simp add: f64_of_u64_def mag_make)
  show "f64_mag (f64_of_u64 n) \<le> 2 ^ 64 * oneUnits"
    using b by (simp only: mag mag_bound64 [symmetric] mag_le_iff)
  show "oneUnits \<le> f64_mag (f64_of_u64 n)" if "n \<noteq> 0"
  proof -
    have "1 \<le> unat n" using that by (simp add: Suc_le_eq unat_gt_0)
    then have "magOfBits oneBits * 1 \<le> unat n * oneUnits" by (simp add: mag_oneBits)
    then have "oneBits \<le> ?b" by (rule ratio_ge [OF zero_less_one]) (use bits_order in simp)
    then show ?thesis by (simp only: mag mag_oneBits [symmetric] mag_le_iff)
  qed
qed

lemma ucast_u32_nonzero: "r \<noteq> 0 \<Longrightarrow> (ucast r :: u64) \<noteq> 0" for r :: u32
proof
  assume "r \<noteq> 0" and "(ucast r :: u64) = 0"
  then have "uint (ucast r :: u64) = 0" by simp
  then have "uint r = 0" by (simp add: uint_up_ucast is_up)
  then have "r = 0" by (simp only: uint_0_iff)
  with \<open>r \<noteq> 0\<close> show False by simp
qed

lemma delta_bounds:
  assumes "rate \<noteq> 0"
  shows "f64_pos (deltaOf rate)" and "0 < f64_mag (deltaOf rate)" and "f64_mag (deltaOf rate) \<le> oneUnits"
proof -
  let ?r = "f64_of_u64 (ucast rate)"
  let ?b = "bitsOfRatio (oneUnits * oneUnits) (f64_mag ?r)"
  note R = of_u64_bounds [of "ucast rate"]
  have low: "oneUnits \<le> f64_mag ?r" using R(3) assms by (simp add: ucast_u32_nonzero)
  then have den: "0 < f64_mag ?r" using oneUnits_pos by (rule less_le_trans [rotated])
  have "oneUnits * oneUnits \<le> magOfBits oneBits * f64_mag ?r"
    using low by (simp only: mag_oneBits mult_le_mono2)
  then have b: "?b \<le> oneBits" by (rule ratio_le [OF den])
  have "f64_mag ?r \<le> oneUnits * oneUnits"
  proof -
    have "(2::nat) ^ 64 \<le> oneUnits" by (simp only: oneUnits_def) (rule power_increasing, simp_all)
    then have "2 ^ 64 * oneUnits \<le> oneUnits * oneUnits" by (rule mult_le_mono1)
    with R(2) show ?thesis by (rule le_trans)
  qed
  then have "magOfBits 1 * f64_mag ?r \<le> oneUnits * oneUnits" by (simp add: magOfBits_def)
  then have pos: "1 \<le> ?b" by (rule ratio_ge [OF den]) (simp add: infBits_def)
  have eq: "deltaOf rate = f64_make False ?b"
    using div_pos [OF f64_one_pos(1) R(1)] den f64_one_pos(2) by (simp add: deltaOf_def)
  have inf: "?b < infBits" using b bits_order(1) by (rule le_less_trans)
  then show "f64_pos (deltaOf rate)" by (simp add: eq pos_make)
  have mag: "f64_mag (deltaOf rate) = magOfBits ?b" using inf by (simp add: eq mag_make)
  show "f64_mag (deltaOf rate) \<le> oneUnits"
    using b by (simp only: mag mag_oneBits [symmetric] mag_le_iff)
  show "0 < f64_mag (deltaOf rate)"
    using pos mag_eq_0_iff [of ?b] by (simp add: mag)
qed

section \<open>Accumulating keeps the clock restorable\<close>

lemma settle_bounds:
  assumes d: "f64_pos d" "0 < f64_mag d" and fin: "f64_isfinite acc"
  shows "f64_nonneg (settle d acc)" and "\<not> f64_le d (settle d acc)"
proof -
  let ?a = "if f64_less acc 0 then 0 else acc"
  have a: "f64_nonneg ?a" using fin pos_nonneg [OF pos_0] by (simp add: f64_nonneg_def)
  have "f64_nonneg (settle d acc) \<and> \<not> f64_le d (settle d acc)"
  proof (cases "f64_le d ?a")
    case True
    then have le: "f64_mag d \<le> f64_mag ?a" by (simp add: nonneg_le_iff [OF d(1) a])
    have "\<not> f64_negative ?a"
      using a le d(2) less_zero_negative [of ?a] by (auto simp: f64_nonneg_def zero_iff_mag)
    then have pos: "f64_pos ?a" using a by (simp add: pos_conv f64_nonneg_def)
    note F = fmod_less [OF d pos le]
    have "settle d acc = f64_fmod ?a d" using True by (simp add: settle_def)
    with F pos_nonneg [OF F(1)] show ?thesis
      by (simp add: nonneg_le_iff [OF d(1)] not_le)
  next
    case False
    then have "settle d acc = ?a" by (simp add: settle_def)
    with a False show ?thesis by simp
  qed
  then show "f64_nonneg (settle d acc)" "\<not> f64_le d (settle d acc)" by blast+
qed

text \<open>
  Taking the dropped time and the paid steps off a finite accumulator: both are at most
  \<open>2 ^ 64\<close> seconds, so the result stays finite even where rounding makes it negative.
\<close>

lemma paid_bounds:
  assumes "rate \<noteq> 0"
  shows "f64_pos (f64_mul (f64_of_u64 n) (deltaOf rate))"
    and "f64_mag (f64_mul (f64_of_u64 n) (deltaOf rate)) \<le> magOfBits bound64"
proof -
  note R = of_u64_bounds [of n] and D = delta_bounds [OF assms]
  let ?b = "bitsOfRatio (f64_mag (f64_of_u64 n) * f64_mag (deltaOf rate)) oneUnits"
  have "f64_mag (f64_of_u64 n) * f64_mag (deltaOf rate) \<le> magOfBits bound64 * oneUnits"
    unfolding mag_bound64 by (rule mult_le_mono [OF R(2) D(3)])
  then have b: "?b \<le> bound64" by (rule ratio_le [OF oneUnits_pos])
  then have inf: "?b < infBits" using bits_order(2) by (rule le_less_trans)
  then show "f64_pos (f64_mul (f64_of_u64 n) (deltaOf rate))"
    by (simp add: mul_pos [OF R(1) D(1)] pos_make)
  show "f64_mag (f64_mul (f64_of_u64 n) (deltaOf rate)) \<le> magOfBits bound64"
    using b inf by (simp add: mul_pos [OF R(1) D(1)] mag_make mag_le_iff)
qed

definition topBits :: nat where
  "topBits = infBits - 1"

lemma bound64_twice: "2 * magOfBits bound64 \<le> magOfBits topBits"
proof -
  have "2 * magOfBits bound64 = magOfBits (1088 * 2 ^ 52)"
    using pow_bits [of 1087] pow_bits [of 1086] by (simp add: bound64_def)
  also have "\<dots> \<le> magOfBits topBits" by (simp add: mag_le_iff topBits_def infBits_def)
  finally show ?thesis .
qed

lemma finite_signed: "f64_isfinite x \<Longrightarrow> \<bar>f64_signed x\<bar> \<le> int (magOfBits topBits)"
  using finite_mag_le [of x] by (simp add: f64_signed_def topBits_def)

lemma sub_paid_finite:
  assumes x: "f64_isfinite x" "- int (magOfBits bound64) \<le> f64_signed x"
    and t: "f64_pos t" "f64_mag t \<le> magOfBits bound64"
  shows "f64_isfinite (f64_sub x t)"
proof (rule sub_within(1))
  show "\<bar>f64_signed x - f64_signed t\<bar> \<le> int (magOfBits topBits)"
    using x(2) t(2) posD(6) [OF t(1)] finite_signed [OF x(1)] bound64_twice by linarith
qed (use x t posD in \<open>auto simp: topBits_def infBits_def\<close>)

lemma sub_pos_low:
  assumes x: "f64_nonneg x" and t: "f64_pos t" "f64_mag t \<le> magOfBits bound64"
  shows "f64_isfinite (f64_sub x t)" and "- int (magOfBits bound64) \<le> f64_signed (f64_sub x t)"
proof -
  have fin: "f64_isfinite x" using x by (rule nonneg_finite)
  show fin': "f64_isfinite (f64_sub x t)"
    by (rule sub_paid_finite [OF fin _ t]) (simp add: nonneg_signed [OF x])
  show "- int (magOfBits bound64) \<le> f64_signed (f64_sub x t)"
  proof (cases "f64_mag x < f64_mag t")
    case True
    have "f64_mag (f64_sub x t) \<le> magOfBits bound64"
      by (rule sub_within(2)) (use True fin t posD x nonneg_signed bits_order in auto)
    then show ?thesis by (simp add: f64_signed_def)
  next
    case False
    then have "0 \<le> f64_signed x + f64_signed (f64_neg t)"
      using posD(5,6) [OF t(1)] by (simp add: neg_signed nonneg_signed [OF x])
    then have "0 \<le> f64_signed (f64_add x (f64_neg t))"
      by (intro add_not_below) (use fin posD [OF t(1)] in \<open>simp_all add: neg_signed\<close>)
    then have "0 \<le> f64_signed (f64_sub x t)"
      using posD(2) [OF t(1)] by (simp add: f64_sub_def)
    then show ?thesis by linarith
  qed
qed

lemma signed_nonneg: "f64_isfinite x \<Longrightarrow> f64_nonneg x \<longleftrightarrow> 0 \<le> f64_signed x"
  using less_zero_negative [of x] by (auto simp: f64_nonneg_def f64_signed_def zero_iff_mag)

lemma add_nonneg_finite:
  assumes "f64_nonneg x" "f64_nonneg y" and "f64_isfinite (f64_add x y)"
  shows "f64_nonneg (f64_add x y)"
proof -
  have "0 \<le> f64_signed (f64_add x y)"
    by (rule add_not_below) (use assms nonneg_finite nonneg_signed in auto)
  then show ?thesis using assms(3) by (simp add: signed_nonneg)
qed

lemma quotient_defined:
  assumes "f64_floor_u64 (f64_div x d) = Some n" and "f64_isfinite d"
  shows "f64_isfinite x"
proof (rule ccontr)
  assume x: "\<not> f64_isfinite x"
  have nan: "\<not> f64_isfinite f64_nan"
    by (simp add: f64_nan_def f64_isfinite_def f64_abs_def ExponentMask_def)
  have "\<not> f64_isfinite (f64_div x d)"
    using x assms(2) finite_not_nan nan finite_make [of infBits] by (auto simp: f64_div_def Let_def)
  with assms(1) show False by (simp add: f64_floor_u64_def)
qed

lemma clock_inv_conv:
  "clock_inv c \<longleftrightarrow> ticksPerSecond c \<noteq> 0 \<and> f64_nonneg (accumulatorSeconds c) \<and>
     f64_nonneg (droppedSeconds c) \<and> \<not> f64_le (deltaOf (ticksPerSecond c)) (accumulatorSeconds c)"
  by (auto simp: clock_inv_def f64_nonneg_def)

lemma elapsed_nonneg: "f64_isfinite e \<Longrightarrow> \<not> f64_le e 0 \<Longrightarrow> f64_nonneg e"
  using finite_not_nan [of e] posD [OF pos_0] by (auto simp: f64_nonneg_def f64_le_def f64_less_def)

lemma dropped_total:
  assumes "f64_nonneg x" and "f64_pos t" "f64_mag t \<le> magOfBits bound64"
  shows "f64_nonneg (f64_add x t)"
proof (rule add_nonneg)
  have "magOfBits bound64 = 2 ^ 1138" using pow_bits [of 1086] by (simp add: bound64_def)
  then show "bitsOfRatio (f64_mag x + f64_mag t) 1 < infBits"
    using assms(3) finite_mag_le [OF nonneg_finite [OF assms(1)]] by (intro add_small_finite) auto
qed (use assms pos_nonneg in auto)

lemma accumulate_keeps:
  assumes inv: "clock_inv c" and run: "accumulate e m c = Some (r, c')"
  shows "clock_inv c' \<and> arSteps r \<le> m \<and> clockTick c' = clockTick c"
proof (cases "\<not> f64_isfinite e \<or> f64_le e 0 \<or> m = 0")
  case True
  with inv run show ?thesis by (auto simp: accumulate_def)
next
  case False
  let ?d = "fixedDeltaSeconds c" and ?acc0 = "f64_add (accumulatorSeconds c) e"
  note I = inv [unfolded clock_inv_conv]
  have d: "?d = deltaOf (ticksPerSecond c)" by (simp add: fixedDeltaSeconds_def)
  note D = delta_bounds [of "ticksPerSecond c", folded d]
    and paid = paid_bounds [of "ticksPerSecond c", folded d]
  obtain av where av: "f64_floor_u64 (f64_div ?acc0 ?d) = Some av"
    using False run by (auto simp: accumulate_def Let_def split: option.splits)
  let ?over = "ucast m < av"
  let ?dropped = "f64_mul (f64_of_u64 (av - ucast m)) ?d"
  let ?acc1 = "if ?over then f64_sub ?acc0 ?dropped else ?acc0"
  let ?steps = "ucast (if ?over then ucast m else av) :: u32"
  let ?paid = "f64_mul (f64_of_u64 (ucast ?steps)) ?d"
  have acc0: "f64_nonneg ?acc0"
    by (rule add_nonneg_finite)
      (use I False elapsed_nonneg quotient_defined [OF av] D posD in auto)
  have acc1: "f64_isfinite ?acc1" "- int (magOfBits bound64) \<le> f64_signed ?acc1"
    using sub_pos_low [OF acc0 paid] acc0 I nonneg_finite nonneg_signed by auto
  have fin: "f64_isfinite (f64_sub ?acc1 ?paid)"
    by (rule sub_paid_finite [OF acc1 paid]) (use I in auto)
  have run': "r = \<lparr>arSteps = ?steps, arInterpolationAlpha = interpolationAlpha c',
                   arDroppedSeconds = (if ?over then ?dropped else 0)\<rparr>"
    and c': "c' = c\<lparr>accumulatorSeconds := settle ?d (f64_sub ?acc1 ?paid),
      droppedSeconds := (if ?over then f64_add (droppedSeconds c) ?dropped else droppedSeconds c)\<rparr>"
    using run False av by (auto simp: accumulate_def Let_def)
  have "f64_nonneg (settle ?d (f64_sub ?acc1 ?paid))" "\<not> f64_le ?d (settle ?d (f64_sub ?acc1 ?paid))"
    using settle_bounds [OF _ _ fin] D I by blast+
  moreover have "f64_nonneg (if ?over then f64_add (droppedSeconds c) ?dropped else droppedSeconds c)"
    using dropped_total I paid by auto
  moreover have "ticksPerSecond c' = ticksPerSecond c" "clockTick c' = clockTick c"
    "accumulatorSeconds c' = settle ?d (f64_sub ?acc1 ?paid)"
    "droppedSeconds c' = (if ?over then f64_add (droppedSeconds c) ?dropped else droppedSeconds c)"
    unfolding c' by simp_all
  moreover have "?steps \<le> m"
  proof (cases ?over)
    case False
    then have "unat av \<le> unat (ucast m :: u64)" by (simp only: word_le_nat_alt [symmetric] not_less)
    then have "unat av \<le> unat m" by (simp only: unat_ucast_u32_u64)
    moreover then have "unat (ucast av :: u32) = unat av"
      using unat_u32_less [of m] by (intro unat_ucast_u64_u32) linarith
    ultimately show ?thesis using False by (simp add: word_le_nat_alt)
  qed simp
  ultimately show ?thesis using I by (simp add: clock_inv_conv d [symmetric] run')
qed

text \<open>\<open>2 ^ 64\<close> seconds, as a double.\<close>

definition hugeSeconds :: f64 where
  "hugeSeconds = 0x43F0000000000000"

lemma hugeSeconds_pos: "f64_pos hugeSeconds" "f64_mag hugeSeconds = 2 ^ 64 * oneUnits"
proof -
  have u: "unat hugeSeconds = bound64" by (simp add: hugeSeconds_def bound64_def)
  then show "f64_pos hugeSeconds" using bits_order by (simp add: f64_pos_def)
  from posD(5) [OF this] u show "f64_mag hugeSeconds = 2 ^ 64 * oneUnits" by (simp add: mag_bound64)
qed

lemma accumulate_huge:
  assumes inv: "clock_inv c" and e: "f64_isfinite e" "f64_le hugeSeconds e" and m: "m \<noteq> 0"
  shows "accumulate e m c = None"
proof (rule ccontr)
  assume "accumulate e m c \<noteq> None"
  let ?d = "fixedDeltaSeconds c" and ?acc0 = "f64_add (accumulatorSeconds c) e"
  note I = inv [unfolded clock_inv_conv]
  have d: "?d = deltaOf (ticksPerSecond c)" by (simp add: fixedDeltaSeconds_def)
  note D = delta_bounds [of "ticksPerSecond c", folded d]
  have pos: "\<not> f64_le e 0"
    using e posD(7) [OF hugeSeconds_pos(1)] posD(7) [OF pos_0]
    by (auto simp: f64_le_def hugeSeconds_def)
  have enn: "f64_nonneg e" using elapsed_nonneg [OF e(1) pos] .
  have big: "2 ^ 64 * oneUnits \<le> f64_mag e"
    using e nonneg_le_iff [OF hugeSeconds_pos(1) enn] hugeSeconds_pos(2) by simp
  obtain av where av: "f64_floor_u64 (f64_div ?acc0 ?d) = Some av"
    using \<open>accumulate e m c \<noteq> None\<close> e pos m by (auto simp: accumulate_def Let_def split: option.splits)
  have fin: "f64_isfinite ?acc0" using quotient_defined [OF av] D I posD by auto
  let ?s = "f64_mag (accumulatorSeconds c) + f64_mag e"
  have nz: "0 < ?s" using big oneUnits_pos by auto
  have acc: "?acc0 = f64_make False (bitsOfRatio ?s 1)"
    by (rule add_nonneg_eq) (use nz I enn in auto)
  have inf: "bitsOfRatio ?s 1 < infBits"
    using fin by (simp add: acc finite_make ratio_inf)
  then have apos: "f64_pos ?acc0" by (simp add: acc pos_make)
  have "bound64 \<le> bitsOfRatio ?s 1"
    by (rule ratio_ge) (use big bits_order in \<open>auto simp: mag_bound64\<close>)
  then have amag: "2 ^ 64 * oneUnits \<le> f64_mag ?acc0"
    using inf by (simp only: acc mag_make less_imp_le mag_bound64 [symmetric] mag_le_iff)
  let ?q = "bitsOfRatio (f64_mag ?acc0 * oneUnits) (f64_mag ?d)"
  have "magOfBits bound64 * f64_mag ?d \<le> f64_mag ?acc0 * oneUnits"
    unfolding mag_bound64 by (rule mult_le_mono [OF amag]) (use D I in auto)
  then have q: "bound64 \<le> ?q" by (rule ratio_ge [rotated]) (use D I bits_order in auto)
  have div: "f64_div ?acc0 ?d = f64_make False ?q" using div_pos [OF apos] D I by auto
  show False
  proof (cases "?q < infBits")
    case True
    then have "2 ^ 64 * oneUnits \<le> f64_mag (f64_div ?acc0 ?d)"
      using q by (simp only: div mag_make less_imp_le mag_bound64 [symmetric] mag_le_iff)
    then have "2 ^ 64 \<le> f64_mag (f64_div ?acc0 ?d) div oneUnits"
      using oneUnits_pos by (simp only: less_eq_div_iff_mult_less_eq)
    with av show False by (auto simp: f64_floor_u64_def split: if_splits)
  next
    case False
    moreover have "?q \<le> infBits" by (rule ratio_inf) (use D I in auto)
    ultimately have "\<not> f64_isfinite (f64_div ?acc0 ?d)" by (simp add: div finite_make)
    with av show False by (simp add: f64_floor_u64_def)
  qed
qed

section \<open>Properties\<close>

lemma newClock_inv: "clock_inv (newClock rate)"
proof -
  have rate: "(if rate = 0 then 60 else rate) \<noteq> 0" by simp
  have "\<not> f64_le (deltaOf (if rate = 0 then 60 else rate)) 0"
    using nonneg_le_iff [OF delta_bounds(1) [OF rate] pos_nonneg [OF pos_0]] delta_bounds(2) [OF rate]
      posD(5) [OF pos_0] by simp
  then show ?thesis using rate pos_nonneg [OF pos_0] by (simp add: clock_inv_conv newClock_def)
qed

lemma clock_inv_step [rs_inv_intro]: "clock_inv c \<Longrightarrow> clock_inv (snd (clock_step c))"
  by (simp add: clock_inv_def clock_step_def Let_def)

lemma clock_inv_reset [rs_inv_intro]:
  assumes "clock_inv c"
  shows "clock_inv (clock_reset t c)"
proof -
  have rate: "ticksPerSecond c \<noteq> 0" using assms by (simp add: clock_inv_def)
  have "\<not> f64_le (deltaOf (ticksPerSecond c)) 0"
    using nonneg_le_iff [OF delta_bounds(1) [OF rate] pos_nonneg [OF pos_0]] delta_bounds(2) [OF rate]
      posD(5) [OF pos_0] by simp
  with rate pos_nonneg [OF pos_0] show ?thesis by (simp add: clock_inv_conv clock_reset_def)
qed



text \<open>
  \<open>accumulate\<close> has no defined result once a finite elapsed time reaches \<open>2 ^ 64\<close> seconds,
  whatever the clock: the guard rejects only values that are not finite, and the number of
  available ticks does not fit in the \<open>uint64_t\<close> it is converted to.
\<close>

theorem accumulate_undefined_when_huge:
  assumes "clock_inv c" and "f64_isfinite elapsed" and "f64_le hugeSeconds elapsed"
    and "maximumSteps \<noteq> 0"
  shows "accumulate elapsed maximumSteps c = None"
  using assms by (rule accumulate_huge)

theorem accumulate_undefined_when_huge_witness:
  "accumulate hugeSeconds 8 (newClock 60) = None"
proof (rule accumulate_undefined_when_huge)
  show "clock_inv (newClock 60)" by (rule newClock_inv)
  show "f64_isfinite hugeSeconds" "f64_le hugeSeconds hugeSeconds"
    using posD [OF hugeSeconds_pos(1)] by (simp_all add: f64_le_def)
  show "(8::u32) \<noteq> 0" by simp
qed

end
