(* ===== verification/Pcg32.thy ===== *)
theory Pcg32
  imports RS_Prelude
begin

text \<open>
  The PCG32 generator that \<open>RandomStream\<close> (\<open>src/game/GameplayPrimitives.cpp\<close>) and
  \<open>DeterministicPRNG\<close> (\<open>include/realscript/runtime/FiberScheduler.h\<close>) share: a 64-bit
  linear congruential step and a permuted 32-bit output. The main lemma is that the step
  with an odd increment runs through all \<open>2 ^ 64\<close> states, so that every output occurs
  from every start: the rejection loops built on the generator end.
\<close>

section \<open>Step and output\<close>

definition pcgMultiplier :: u64 where
  "pcgMultiplier = 6364136223846793005"

definition pcgStep :: "u64 \<Rightarrow> u64 \<Rightarrow> u64" where
  "pcgStep inc s = s * pcgMultiplier + inc"

definition pcgOutput :: "u64 \<Rightarrow> u32" where
  "pcgOutput s =
     (let xorShifted = (ucast (drop_bit 27 ((drop_bit 18 s) XOR s)) :: u32);
          rotation = (ucast (drop_bit 59 s) :: u32)
      in drop_bit (unat rotation) xorShifted OR
         push_bit (unat ((0 - rotation) AND 31)) xorShifted)"

section \<open>The period of the linear congruential step\<close>

definition geom :: "int \<Rightarrow> nat \<Rightarrow> int" where
  "geom a n = (\<Sum>i<n. a ^ i)"

lemma geom_simps: "geom a 0 = 0" "geom a (Suc n) = geom a n + a ^ n"
  by (simp_all add: geom_def)

lemma geom_double: "geom a (2 * n) = geom a n * (1 + a ^ n)"
proof -
  have "geom a (m + n) = geom a m + a ^ m * geom a n" for m n
    by (induction n) (simp_all add: geom_simps algebra_simps power_add)
  from this [of n n] have "geom a (n + n) = geom a n * (1 + a ^ n)" by (simp add: algebra_simps)
  then show ?thesis by (simp only: mult_2)
qed

lemma geom_closed: "(a - 1) * geom a n = a ^ n - 1"
  by (induction n) (simp_all add: geom_simps algebra_simps)

lemma lcg_iterate: "((\<lambda>x. a * x + c) ^^ n) x = a ^ n * x + c * geom a n" for a :: int
proof (induction n)
  case 0
  show ?case by (simp add: geom_simps)
next
  case (Suc n)
  have "a * (c * geom a n) + c = c * ((a - 1) * geom a n + geom a n + 1)"
    by (simp add: algebra_simps)
  also have "\<dots> = c * geom a (Suc n)" by (simp only: geom_closed geom_simps) (simp add: algebra_simps)
  finally show ?case using Suc by (simp add: algebra_simps)
qed

lemma lcg_displacement:
  "((\<lambda>x. a * x + c) ^^ n) x - x = geom a n * ((a - 1) * x + c)" for a :: int
proof -
  have "a ^ n * x + c * geom a n - x = (a ^ n - 1) * x + c * geom a n"
    by (simp add: algebra_simps)
  also have "\<dots> = geom a n * ((a - 1) * x + c)"
    by (simp only: geom_closed [symmetric]) (simp add: algebra_simps)
  finally show ?thesis by (simp add: lcg_iterate)
qed

lemma geom_power_two:
  assumes "a mod 4 = (1 :: int)"
  shows "\<exists>m. odd m \<and> geom a (2 ^ k) = 2 ^ k * m"
proof (induction k)
  case 0
  show ?case by (rule exI [of _ 1]) (simp add: geom_def)
next
  case (Suc k)
  then obtain m where m: "odd m" "geom a (2 ^ k) = 2 ^ k * m" by blast
  have "a ^ n mod 4 = 1" for n
    using assms by (induction n) (simp_all add: mod_mult_eq [symmetric, of a])
  then have "(1 + a ^ (2 ^ k)) mod 4 = 2" by (simp add: mod_add_right_eq [symmetric])
  moreover have "x mod 4 = 2 \<Longrightarrow> \<exists>q. x = 2 * q \<and> odd q" for x :: int by presburger
  ultimately obtain q where "1 + a ^ (2 ^ k) = 2 * q" "odd q" by blast
  with m have "geom a (2 ^ Suc k) = 2 ^ Suc k * (m * q) \<and> odd (m * q)"
    by (simp add: geom_double)
  then show ?case by blast
qed

lemma lcg_reaches_mod:
  fixes a c x y :: int
  assumes a: "a mod 4 = 1" and c: "odd c"
  shows "\<exists>n. 2 ^ k dvd ((\<lambda>x. a * x + c) ^^ n) x - y"
proof (induction k)
  case 0
  show ?case by simp
next
  case (Suc k)
  let ?g = "\<lambda>x. a * x + c"
  from Suc obtain n where n: "2 ^ k dvd (?g ^^ n) x - y" by blast
  then obtain d where d: "(?g ^^ n) x - y = 2 ^ k * d" by blast
  show ?case
  proof (cases "even d")
    case True
    then have "2 ^ Suc k dvd (?g ^^ n) x - y" by (simp add: d)
    then show ?thesis by blast
  next
    case False
    obtain m where m: "odd m" "geom a (2 ^ k) = 2 ^ k * m"
      using geom_power_two [OF a] by blast
    let ?z = "(?g ^^ n) x"
    have "even (a - 1)" using a by presburger
    then have odd: "odd (m * ((a - 1) * ?z + c))" using m c by simp
    have "(?g ^^ (2 ^ k)) ?z - ?z = 2 ^ k * (m * ((a - 1) * ?z + c))"
      by (simp only: lcg_displacement m(2) mult.assoc)
    then have "(?g ^^ (2 ^ k)) ?z - y = 2 ^ k * (m * ((a - 1) * ?z + c) + d)"
      using d by (simp add: algebra_simps)
    moreover have "even (m * ((a - 1) * ?z + c) + d)" using odd False by simp
    ultimately have "2 ^ Suc k dvd (?g ^^ (2 ^ k)) ?z - y" by simp
    then have "2 ^ Suc k dvd (?g ^^ (2 ^ k + n)) x - y" by (simp only: funpow_add o_apply)
    then show ?thesis by blast
  qed
qed

lemma pcgStep_of_int:
  "pcgStep inc (of_int x) = of_int (uint pcgMultiplier * x + uint inc)"
  by (simp add: pcgStep_def mult.commute)

lemma pcgStep_iterate_of_int:
  "((pcgStep inc) ^^ n) (of_int x) =
   of_int (((\<lambda>x. uint pcgMultiplier * x + uint inc) ^^ n) x)"
  by (induction n) (simp_all only: funpow.simps o_apply id_apply pcgStep_of_int)

lemma pcgStep_full_period:
  assumes "odd (unat inc)"
  shows "\<exists>n. ((pcgStep inc) ^^ n) s = t"
proof -
  have m: "uint pcgMultiplier mod 4 = 1" by (simp add: pcgMultiplier_def)
  have c: "odd (uint inc)" using assms by (metis even_of_nat uint_nat)
  obtain n where "2 ^ 64 dvd ((\<lambda>x. uint pcgMultiplier * x + uint inc) ^^ n) (uint s) - uint t"
    using lcg_reaches_mod [OF m c] by blast
  then have "(of_int (((\<lambda>x. uint pcgMultiplier * x + uint inc) ^^ n) (uint s)) :: u64) =
      of_int (uint t)"
    by (simp only: word_of_int_eq_iff take_bit_eq_mod mod_eq_dvd_iff) simp
  then have "((pcgStep inc) ^^ n) s = t"
    using pcgStep_iterate_of_int [where inc = inc and n = n and x = "uint s"] by simp
  then show ?thesis by blast
qed

text \<open>A state whose output is the largest one.\<close>

lemma pcgOutput_max: "pcgOutput (0x3ffff * 2 ^ 41) = 0xffffffff"
  by (simp add: pcgOutput_def)

end
