(* ===== verification/Random_Stream.thy ===== *)
theory Random_Stream
  imports Stable_Hash Pcg32 Binary64 Snapshotable
begin

text \<open>
  \<open>RandomStream\<close> of \<open>src/game/GameplayPrimitives.cpp\<close>: seeding, the 32-bit and 64-bit
  draws, the bounded draw by rejection, snapshot, restore and hash. The lemmas show that
  the rejection loop ends from every restorable state, that the bounded draw stays in its
  range and that it is unbiased.
\<close>

section \<open>State and draws\<close>

record RandomStream =
  rsState :: u64
  rsIncrement :: u64

definition nextUInt :: "RandomStream \<Rightarrow> u32 \<times> RandomStream" where
  "nextUInt r =
     (let oldState = rsState r
      in (pcgOutput oldState, r\<lparr>rsState := pcgStep (rsIncrement r) oldState\<rparr>))"

definition reseed :: "u64 \<Rightarrow> u64 \<Rightarrow> RandomStream" where
  "reseed seed sequence =
     (let r0 = \<lparr>rsState = 0, rsIncrement = push_bit 1 sequence OR 1\<rparr>;
          r1 = snd (nextUInt r0);
          r2 = r1\<lparr>rsState := rsState r1 + seed\<rparr>
      in snd (nextUInt r2))"

text \<open>
  The \<open>do\<close>/\<open>while\<close> loop of \<open>nextInt\<close>: \<open>None\<close> would be a loop that never ends.
\<close>

partial_function (option) drawAbove :: "u32 \<Rightarrow> RandomStream \<Rightarrow> (u32 \<times> RandomStream) option" where
  "drawAbove threshold r =
     (let (value, r') = nextUInt r
      in if value < threshold then drawAbove threshold r' else Some (value, r'))"

definition intRange :: "u32 \<Rightarrow> u32 \<Rightarrow> u32" where
  "intRange minimumInclusive maximumExclusive =
     ucast ((scast maximumExclusive :: u64) - scast minimumInclusive)"

definition nextInt :: "u32 \<Rightarrow> u32 \<Rightarrow> RandomStream \<Rightarrow> (u32 \<times> RandomStream) option" where
  "nextInt minimumInclusive maximumExclusive r =
     (if sint maximumExclusive \<le> sint minimumInclusive then Some (minimumInclusive, r)
      else (let range = intRange minimumInclusive maximumExclusive;
                threshold = (0 - range) mod range
            in map_option
                 (\<lambda>(value, r'). (ucast ((scast minimumInclusive :: u64) + ucast (value mod range)), r'))
                 (drawAbove threshold r)))"

text \<open>
  The two calls in \<open>(nextUInt() << 32) | nextUInt()\<close> are unsequenced operands: a compiler
  may evaluate either first. The argument says which operand is evaluated first.
\<close>

datatype operand_order = LeftFirst | RightFirst

definition nextUInt64 :: "operand_order \<Rightarrow> RandomStream \<Rightarrow> u64 \<times> RandomStream" where
  "nextUInt64 order r =
     (let (a, r1) = nextUInt r; (b, r2) = nextUInt r1
      in case order of
           LeftFirst \<Rightarrow> (push_bit 32 (ucast a) OR ucast b, r2)
         | RightFirst \<Rightarrow> (push_bit 32 (ucast b) OR ucast a, r2))"

definition random_snapshot :: "RandomStream \<Rightarrow> RandomStream" where
  "random_snapshot r = \<lparr>rsState = rsState r, rsIncrement = rsIncrement r\<rparr>"

definition random_restore :: "RandomStream \<Rightarrow> RandomStream option" where
  "random_restore st =
     (if rsIncrement st AND 1 = 0 then None
      else Some \<lparr>rsState = rsState st, rsIncrement = rsIncrement st\<rparr>)"

definition random_stableHash :: "RandomStream \<Rightarrow> u64" where
  "random_stableHash r = hashU64 (hashU64 FnvOffset (rsState r)) (rsIncrement r)"

section \<open>The invariant: an odd increment\<close>

definition random_inv :: "RandomStream \<Rightarrow> bool" where
  "random_inv r \<longleftrightarrow> odd (unat (rsIncrement r))"

lemma and_one_odd: "x AND 1 \<noteq> 0 \<longleftrightarrow> odd (unat x)" for x :: u64
  by (simp add: and_one_eq even_unat_iff mod2_eq_if)

lemma random_inv_nextUInt [rs_inv_intro]: "random_inv (snd (nextUInt r)) = random_inv r"
  by (simp add: random_inv_def nextUInt_def Let_def)

lemma random_inv_reseed [rs_inv_intro]: "random_inv (reseed seed sequence)"
proof -
  have "odd (push_bit 1 sequence OR 1)"
    by (simp add: even_or_iff)
  then show ?thesis
    by (simp add: random_inv_def reseed_def nextUInt_def Let_def even_unat_iff)
qed

interpretation random_save: snapshotable random_snapshot random_restore random_inv
  by unfold_locales
    (auto simp: random_snapshot_def random_restore_def random_inv_def and_one_odd [symmetric]
      split: if_splits)

section \<open>The rejection loop ends\<close>

definition advance :: "RandomStream \<Rightarrow> RandomStream" where
  "advance r = r\<lparr>rsState := pcgStep (rsIncrement r) (rsState r)\<rparr>"

lemma nextUInt_eq: "nextUInt r = (pcgOutput (rsState r), advance r)"
  by (simp add: nextUInt_def advance_def Let_def)

lemma nextUInt_iterate:
  "(advance ^^ n) r = r\<lparr>rsState := ((pcgStep (rsIncrement r)) ^^ n) (rsState r)\<rparr>"
  by (induction n) (simp_all add: advance_def)

lemma drawAbove_step:
  "drawAbove t r = (if pcgOutput (rsState r) < t then drawAbove t (advance r)
                    else Some (pcgOutput (rsState r), advance r))"
  by (subst drawAbove.simps) (simp add: nextUInt_eq)

lemma drawAbove_ends_after:
  assumes "\<not> pcgOutput (rsState ((advance ^^ n) r)) < t"
  shows "\<exists>v r'. drawAbove t r = Some (v, r')"
  using assms
proof (induction n arbitrary: r)
  case 0
  then show ?case by (subst drawAbove_step) simp
next
  case (Suc n)
  then have "\<not> pcgOutput (rsState ((advance ^^ n) (advance r))) < t"
    by (simp only: funpow_Suc_right o_apply) simp
  from Suc.IH [OF this] show ?case by (subst drawAbove_step) simp
qed

lemma drawAbove_ends:
  assumes "random_inv r"
  shows "\<exists>v r'. drawAbove t r = Some (v, r')"
proof -
  obtain n where "((pcgStep (rsIncrement r)) ^^ n) (rsState r) = 0x3ffff * 2 ^ 41"
    using pcgStep_full_period assms by (metis random_inv_def)
  then have "pcgOutput (rsState ((advance ^^ n) r)) = 0xffffffff"
    using pcgOutput_max by (simp add: nextUInt_iterate)
  moreover have "\<not> 0xffffffff < (t :: u32)"
  proof -
    have "(0xffffffff :: u32) = - 1" by simp
    then show ?thesis by (simp only: not_less word_order.extremum)
  qed
  ultimately show ?thesis using drawAbove_ends_after [of n r t] by simp
qed

lemma drawAbove_result:
  assumes "drawAbove t r = Some (v, r')"
  shows "t \<le> v \<and> rsIncrement r' = rsIncrement r"
proof -
  have "t \<le> fst p \<and> rsIncrement (snd p) = rsIncrement r" if "drawAbove t r = Some p" for p
    using that
  proof (rule drawAbove.raw_induct
      [where P = "\<lambda>t r p. t \<le> fst p \<and> rsIncrement (snd p) = rsIncrement r", rotated])
    fix f t r p
    assume IH: "\<And>t r p. f t r = Some p \<Longrightarrow> t \<le> fst p \<and> rsIncrement (snd p) = rsIncrement r"
      and eq: "(let (value, r') = nextUInt r in if value < t then f t r' else Some (value, r')) = Some p"
    have inc: "rsIncrement (advance r) = rsIncrement r" by (simp add: advance_def)
    show "t \<le> fst p \<and> rsIncrement (snd p) = rsIncrement r"
      using eq inc by (auto simp: nextUInt_eq split: if_splits dest: IH)
  qed
  from this [of "(v, r')"] assms show ?thesis by simp
qed

section \<open>The bounded draw\<close>

lemma intRange_uint:
  assumes "sint a < sint b"
  shows "uint (intRange a b) = sint b - sint a"
proof -
  have bounds: "- (2 ^ 31) \<le> sint a" "sint b < 2 ^ 31"
    using sint_ge [of a] sint_lt [of b] by simp_all
  have "(scast b :: u64) - scast a = of_int (sint b - sint a)" by simp
  then have "intRange a b = of_int (take_bit 64 (sint b - sint a))"
    by (simp only: intRange_def unsigned_of_int) simp
  then have "uint (intRange a b) = take_bit 32 (take_bit 64 (sint b - sint a))"
    by (simp only: uint_word_of_int_eq) simp
  also have "\<dots> = sint b - sint a"
    using assms bounds by (simp add: take_bit_int_eq_self)
  finally show ?thesis .
qed

lemma offset_sint:
  fixes a :: u32
  assumes "sint a + int k < 2 ^ 31"
  shows "sint (ucast ((scast a :: u64) + of_nat k) :: u32) = sint a + int k"
proof -
  have lo: "- (2 ^ 31) \<le> sint a" using sint_ge [of a] by simp
  have "(scast a :: u64) + of_nat k = of_int (sint a + int k)" by simp
  then have "(ucast ((scast a :: u64) + of_nat k) :: u32) = of_int (take_bit 64 (sint a + int k))"
    by (simp only: unsigned_of_int) simp
  also have "\<dots> = of_int (sint a + int k)"
    by (simp only: word_of_int_eq_iff) simp
  finally have "sint (ucast ((scast a :: u64) + of_nat k) :: u32) = signed_take_bit 31 (sint a + int k)"
    by (simp only: sint_sbintrunc') simp
  also have "\<dots> = sint a + int k"
    using lo assms by (simp add: signed_take_bit_int_eq_self)
  finally show ?thesis .
qed

lemma unat_mod_word: "unat (v mod w) = unat v mod unat w"
  by (simp add: unat_mod_distrib)

lemma nextInt_bounded:
  assumes inv: "random_inv r" and lt: "sint lo < sint hi"
  shows "\<exists>v r'. nextInt lo hi r = Some (v, r') \<and> sint lo \<le> sint v \<and> sint v < sint hi \<and> random_inv r'"
proof -
  let ?range = "intRange lo hi" and ?t = "(0 - intRange lo hi) mod intRange lo hi"
  obtain w r' where d: "drawAbove ?t r = Some (w, r')" using drawAbove_ends [OF inv] by blast
  then have inv': "random_inv r'" using drawAbove_result inv by (auto simp: random_inv_def)
  have range: "int (unat ?range) = sint hi - sint lo" using intRange_uint [OF lt] by simp
  then have "0 < unat ?range" using lt by linarith
  then have "unat (w mod ?range) < unat ?range"
    by (simp only: unat_mod_word mod_less_divisor)
  then have off: "int (unat (w mod ?range)) < sint hi - sint lo" using range by linarith
  moreover have "sint hi < 2 ^ 31" using sint_lt [of hi] by simp
  ultimately have "sint (ucast ((scast lo :: u64) + of_nat (unat (w mod ?range))) :: u32) =
      sint lo + int (unat (w mod ?range))" by (intro offset_sint) linarith
  moreover have "nextInt lo hi r = Some (ucast ((scast lo :: u64) + of_nat (unat (w mod ?range))), r')"
    using lt d by (simp add: nextInt_def Let_def not_le)
  ultimately show ?thesis using off inv' by auto
qed

section \<open>The rejection makes the draw unbiased\<close>

lemma same_residue_same_block:
  fixes v w :: nat
  assumes "v mod r = w mod r" and "v \<in> {a..<a + r}" and "w \<in> {a..<a + r}"
  shows "v = w"
proof -
  have "v = w" if "v mod r = w mod r" "w \<le> v" "v < w + r" for v w :: nat
  proof -
    have "r dvd v - w" using that by (simp add: mod_eq_dvd_iff_nat)
    moreover have "v - w < r" using that by linarith
    ultimately show ?thesis using that by (metis diff_is_0_eq dvd_imp_le le_antisym not_le zero_less_diff)
  qed
  from this [of v w] this [of w v] assms show ?thesis by (cases "w \<le> v") auto
qed

lemma residue_in_block:
  fixes a k r :: nat
  assumes "k < r"
  shows "card {v \<in> {a..<a + r}. v mod r = k} = 1"
proof -
  let ?v = "a + (k + r - a mod r) mod r"
  have r: "a mod r < r" using assms by simp
  have "a mod r + (k + r - a mod r) = k + r" using r by simp
  then have "(a mod r + (k + r - a mod r)) mod r = k" using assms by simp
  then have v: "?v mod r = k" by (simp add: mod_simps)
  have "?v \<in> {a..<a + r}" using assms by simp
  have "{w \<in> {a..<a + r}. w mod r = k} = {?v}"
  proof (intro equalityI subsetI)
    fix w assume "w \<in> {w \<in> {a..<a + r}. w mod r = k}"
    then have "w \<in> {a..<a + r}" and "w mod r = ?v mod r" by (simp_all only: mem_Collect_eq v)
    then show "w \<in> {?v}" using same_residue_same_block [OF _ _ \<open>?v \<in> {a..<a + r}\<close>] by blast
  next
    fix w assume "w \<in> {?v}"
    then have "w = ?v" by simp
    then show "w \<in> {w \<in> {a..<a + r}. w mod r = k}"
      using v \<open>?v \<in> {a..<a + r}\<close> by (simp only: mem_Collect_eq)
  qed
  then show ?thesis by (simp only: card.insert_remove) simp
qed

lemma residue_count:
  fixes a k r q :: nat
  assumes "k < r"
  shows "card {v \<in> {a..<a + q * r}. v mod r = k} = q"
proof (induction q)
  case 0
  show ?case by simp
next
  case (Suc q)
  let ?b = "a + q * r"
  have "{v \<in> {a..<a + Suc q * r}. v mod r = k} =
      {v \<in> {a..<?b}. v mod r = k} \<union> {v \<in> {?b..<?b + r}. v mod r = k}" by auto
  moreover have "card ({v \<in> {a..<?b}. v mod r = k} \<union> {v \<in> {?b..<?b + r}. v mod r = k}) =
      card {v \<in> {a..<?b}. v mod r = k} + card {v \<in> {?b..<?b + r}. v mod r = k}"
    by (rule card_Un_disjoint) auto
  ultimately show ?case using Suc residue_in_block [OF assms, of ?b] by simp
qed

lemma card_u32: "card {v :: u32. P (unat v)} = card {n. n < 2 ^ 32 \<and> P n}"
proof -
  have "{n. n < 2 ^ 32 \<and> P n} = unat ` {v :: u32. P (unat v)}"
  proof (intro equalityI subsetI)
    fix n assume "n \<in> {n. n < 2 ^ 32 \<and> P n}"
    then have "n = unat (of_nat n :: u32)" "P (unat (of_nat n :: u32))"
      by (simp_all add: unat_of_nat_u32)
    then show "n \<in> unat ` {v :: u32. P (unat v)}" by blast
  next
    fix n assume "n \<in> unat ` {v :: u32. P (unat v)}"
    then show "n \<in> {n. n < 2 ^ 32 \<and> P n}" using unat_u32_less by auto
  qed
  moreover have "inj_on unat {v :: u32. P (unat v)}"
    by (auto intro: inj_onI dest: iffD2 [OF word_unat_eq_iff])
  ultimately show ?thesis by (simp add: card_image)
qed

lemma threshold_unat:
  fixes range :: u32
  assumes "range \<noteq> 0"
  shows "unat ((0 - range) mod range) = 2 ^ 32 mod unat range"
proof -
  have u: "unat (0 - range) = 2 ^ 32 - unat range"
    using assms by (rule unat_neg_u32)
  have "unat range \<le> 2 ^ 32" using unat_u32_less [of range] by simp
  then have "(2 ^ 32 - unat range) mod unat range = 2 ^ 32 mod unat range"
    by (simp add: le_mod_geq)
  then show ?thesis by (simp only: unat_mod_word u)
qed

lemma accepted_per_residue:
  fixes range k :: u32
  assumes "k < range"
  shows "card {v :: u32. (0 - range) mod range \<le> v \<and> v mod range = k} = 2 ^ 32 div unat range"
proof -
  let ?r = "unat range" and ?t = "2 ^ 32 mod unat range"
  have k: "unat k < ?r" and r0: "range \<noteq> 0" using assms by (auto simp: word_less_nat_alt)
  have "{v :: u32. (0 - range) mod range \<le> v \<and> v mod range = k} =
      {v. ?t \<le> unat v \<and> unat v mod ?r = unat k}"
    by (simp only: word_le_nat_alt word_unat_eq_iff [of _ k] threshold_unat [OF r0, unfolded unat_mod_word]
        unat_mod_word)
  then have "card {v :: u32. (0 - range) mod range \<le> v \<and> v mod range = k} =
      card {n. n < 2 ^ 32 \<and> ?t \<le> n \<and> n mod ?r = unat k}"
    using card_u32 [of "\<lambda>n. ?t \<le> n \<and> n mod ?r = unat k"] by (simp only:)
  also have "{n. n < 2 ^ 32 \<and> ?t \<le> n \<and> n mod ?r = unat k} =
      {n \<in> {?t..<?t + 2 ^ 32 div ?r * ?r}. n mod ?r = unat k}"
    by (auto simp: mod_div_mult_eq)
  also have "card \<dots> = 2 ^ 32 div ?r" by (rule residue_count [OF k])
  finally show ?thesis .
qed

section \<open>The unit interval\<close>

text \<open>\<open>9007199254740992.0\<close> is \<open>2 ^ 53\<close>; its reciprocal is a constant of the code.\<close>

definition twoTo53 :: f64 where
  "twoTo53 = 0x4340000000000000"

definition nextUnitDouble :: "operand_order \<Rightarrow> RandomStream \<Rightarrow> f64 \<times> RandomStream" where
  "nextUnitDouble order r =
     (let (n, r') = nextUInt64 order r; value = drop_bit 11 n
      in (f64_mul (f64_of_u64 value) (f64_div f64_one twoTo53), r'))"

lemma oneUnits_split: "oneUnits = 2 ^ 53 * 2 ^ 1021"
  by (simp only: oneUnits_def power_add [symmetric]) simp

lemma reciprocal: "f64_pos (f64_div f64_one twoTo53)" "f64_mag (f64_div f64_one twoTo53) = 2 ^ 1021"
proof -
  have u: "unat twoTo53 = 1076 * 2 ^ 52" by (simp add: twoTo53_def)
  have pos: "f64_pos twoTo53" by (simp add: f64_pos_def u infBits_def)
  have mag: "f64_mag twoTo53 = 2 ^ 53 * oneUnits"
    using pow_bits [of 1075] posD(5) [OF pos] by (simp only: u) (simp add: oneUnits_def)
  have r: "magOfBits (970 * 2 ^ 52) = 2 ^ 1021" using pow_bits [of 969] by simp
  have "bitsOfRatio (oneUnits * oneUnits) (2 ^ 53 * oneUnits) = 970 * 2 ^ 52"
  proof (rule ratio_exact)
    show "oneUnits * oneUnits = magOfBits (970 * 2 ^ 52) * (2 ^ 53 * oneUnits)"
      by (simp only: r oneUnits_split) (simp only: ac_simps)
  qed (use oneUnits_pos in \<open>auto simp: infBits_def\<close>)
  moreover have "2 ^ 53 * oneUnits \<noteq> 0" using oneUnits_pos by simp
  ultimately have d: "f64_div f64_one twoTo53 = f64_make False (970 * 2 ^ 52)"
    using div_pos [OF f64_one_pos(1) pos] by (simp only: mag f64_one_pos simp_thms)
  show "f64_pos (f64_div f64_one twoTo53)" by (simp only: d) (rule pos_make, simp add: infBits_def)
  show "f64_mag (f64_div f64_one twoTo53) = 2 ^ 1021"
    by (simp only: d r [symmetric]) (rule mag_make, simp add: infBits_def)
qed

text \<open>Both the conversion and the product are exact.\<close>

lemma unit_double_exact:
  assumes v: "unat v < 2 ^ 53"
  shows "f64_pos (f64_mul (f64_of_u64 v) (f64_div f64_one twoTo53))"
    and "f64_mag (f64_mul (f64_of_u64 v) (f64_div f64_one twoTo53)) = unat v * 2 ^ 1021"
proof -
  obtain b where b: "magOfBits b = unat v * 2 ^ 1074" using representable [OF v] by blast
  obtain b' where b': "magOfBits b' = unat v * 2 ^ 1021" using representable [OF v] by blast
  have small: "unat v * 2 ^ 1021 < oneUnits"
    using v by (simp only: oneUnits_split) (simp add: mult_strict_right_mono)
  then have "b' < oneBits" by (simp only: b' [symmetric] mag_oneBits [symmetric] mag_less_iff)
  then have b'_inf: "b' < infBits" using bits_order by simp
  have "unat v * 2 ^ 1074 \<le> magOfBits bound64"
    using unat_u64_less [of v] by (simp only: mag_bound64 oneUnits_def) (intro mult_le_mono1, simp)
  then have "b \<le> bound64" by (simp only: b [symmetric] mag_le_iff)
  then have b_inf: "b < infBits" using bits_order by simp
  have "bitsOfRatio (unat v * oneUnits) 1 = b"
    by (rule ratio_exact) (use b b_inf in \<open>auto simp: oneUnits_def\<close>)
  then have conv: "f64_of_u64 v = f64_make False b" by (simp add: f64_of_u64_def)
  then have pos: "f64_pos (f64_of_u64 v)" and mag: "f64_mag (f64_of_u64 v) = unat v * 2 ^ 1074"
    using b b_inf by (simp_all add: pos_make mag_make)
  have "bitsOfRatio (unat v * 2 ^ 1074 * 2 ^ 1021) oneUnits = b'"
    by (rule ratio_exact) (use b' b'_inf in \<open>auto simp: oneUnits_def\<close>)
  then have m: "f64_mul (f64_of_u64 v) (f64_div f64_one twoTo53) = f64_make False b'"
    by (simp only: mul_pos [OF pos reciprocal(1)] mag reciprocal(2))
  show "f64_pos (f64_mul (f64_of_u64 v) (f64_div f64_one twoTo53))"
    using b'_inf by (simp add: m pos_make)
  show "f64_mag (f64_mul (f64_of_u64 v) (f64_div f64_one twoTo53)) = unat v * 2 ^ 1021"
    using b'_inf by (simp only: m mag_make less_imp_le b')
qed

section \<open>Properties\<close>

text \<open>
  C26: the bounded draw returns, for every restorable state and every nonempty range: the
  rejection loop ends because the generator's period is full, and the result lies in
  \<open>[minimumInclusive, maximumExclusive)\<close>.
\<close>

theorem nextInt_returns_in_range:
  assumes "random_inv r" and "sint lo < sint hi"
  shows "\<exists>v r'. nextInt lo hi r = Some (v, r') \<and> sint lo \<le> sint v \<and> sint v < sint hi \<and> random_inv r'"
  by (rule nextInt_bounded [OF assms])

theorem nextInt_returns_in_range_witness:
  "\<exists>v r'. nextInt (- 5) 7 (reseed 1 2) = Some (v, r') \<and> - 5 \<le> sint v \<and> sint v < 7 \<and> random_inv r'"
  using nextInt_returns_in_range [of "reseed 1 2" "- 5" 7] random_inv_reseed by simp

text \<open>
  The bounded draw is unbiased: of the \<open>2 ^ 32\<close> raw values, the rejection test lets
  through equally many for each offset of the range.
\<close>

theorem nextInt_unbiased:
  assumes "sint lo < sint hi" and "k < intRange lo hi" and "k' < intRange lo hi"
  shows "card {v. (0 - intRange lo hi) mod intRange lo hi \<le> v \<and> v mod intRange lo hi = k} =
    card {v. (0 - intRange lo hi) mod intRange lo hi \<le> v \<and> v mod intRange lo hi = k'}"
  using accepted_per_residue [OF assms(2)] accepted_per_residue [OF assms(3)] by simp

theorem nextInt_unbiased_witness:
  "card {v. (0 - intRange 1 7) mod intRange 1 7 \<le> v \<and> v mod intRange 1 7 = 0} =
   card {v. (0 - intRange 1 7) mod intRange 1 7 \<le> v \<and> v mod intRange 1 7 = 5}"
  by (rule nextInt_unbiased) (simp_all add: intRange_def)

text \<open>
  \<open>nextUnitDouble\<close> is exact and lies in \<open>[0, 1)\<close>: it is the drawn 53-bit number divided
  by \<open>2 ^ 53\<close>, with no rounding in the conversion or in the product.
\<close>

theorem nextUnitDouble_in_unit_interval:
  "f64_pos (fst (nextUnitDouble order r)) \<and> f64_less (fst (nextUnitDouble order r)) f64_one \<and>
   f64_mag (fst (nextUnitDouble order r)) * 2 ^ 53 =
     unat (drop_bit 11 (fst (nextUInt64 order r))) * oneUnits"
proof -
  let ?v = "drop_bit 11 (fst (nextUInt64 order r))"
  have v: "unat ?v < 2 ^ 53"
    using unat_u64_less [of "fst (nextUInt64 order r)"]
    by (simp only: unat_drop_bit_eq drop_bit_eq_div [where ?'a = nat]) (simp add: less_mult_imp_div_less)
  have eq: "fst (nextUnitDouble order r) = f64_mul (f64_of_u64 ?v) (f64_div f64_one twoTo53)"
    by (simp add: nextUnitDouble_def split_beta)
  note E = unit_double_exact [OF v]
  have "f64_mag (fst (nextUnitDouble order r)) < oneUnits"
    unfolding eq E(2) oneUnits_split using v by (rule mult_strict_right_mono) simp
  then show ?thesis
    using E mag_less_mag [OF E(1) f64_one_pos(1)]
    by (simp only: eq f64_one_pos(2) oneUnits_split) (simp only: ac_simps simp_thms)
qed

text \<open>
  The two draws in \<open>nextUInt64\<close> are unsequenced operands of \<open>|\<close>; the 64-bit value
  depends on which the compiler evaluates first, although the stream advances equally.
\<close>

theorem nextUInt64_depends_on_evaluation_order:
  "fst (nextUInt64 LeftFirst (reseed 1 2)) \<noteq> fst (nextUInt64 RightFirst (reseed 1 2)) \<and>
   snd (nextUInt64 LeftFirst (reseed 1 2)) = snd (nextUInt64 RightFirst (reseed 1 2))"
proof
  show "fst (nextUInt64 LeftFirst (reseed 1 2)) \<noteq> fst (nextUInt64 RightFirst (reseed 1 2))"
    by code_simp
  show "snd (nextUInt64 LeftFirst (reseed 1 2)) = snd (nextUInt64 RightFirst (reseed 1 2))"
    by (simp add: nextUInt64_def split_beta)
qed

end
