(* ===== verification/Ordered_Map.thy ===== *)
theory Ordered_Map
  imports RS_Prelude
begin

text \<open>
  \<open>std::map\<close> and \<open>std::set\<close> as the code uses them: key-ordered containers whose iteration
  order is observable (snapshots and hashes walk them). A map is an association list in
  strictly increasing key order, a set a strictly increasing list. The locale
  \<open>ordered_map\<close> states the laws the clients use, and the interpretation proves them for
  the list model.
\<close>

section \<open>The interface\<close>

locale ordered_map =
  fixes lookup :: "'m \<Rightarrow> 'k::linorder \<Rightarrow> 'v option"
    and put :: "'k \<Rightarrow> 'v \<Rightarrow> 'm \<Rightarrow> 'm"
    and erase :: "'k \<Rightarrow> 'm \<Rightarrow> 'm"
    and entries :: "'m \<Rightarrow> ('k \<times> 'v) list"
    and inv :: "'m \<Rightarrow> bool"
  assumes entries_sorted: "inv m \<Longrightarrow> sorted_wrt (<) (map fst (entries m))"
    and entries_lookup: "inv m \<Longrightarrow> (k, v) \<in> set (entries m) \<longleftrightarrow> lookup m k = Some v"
    and put_inv: "inv m \<Longrightarrow> inv (put k v m)"
    and put_lookup: "inv m \<Longrightarrow> lookup (put k v m) = (lookup m)(k \<mapsto> v)"
    and erase_inv: "inv m \<Longrightarrow> inv (erase k m)"
    and erase_lookup: "inv m \<Longrightarrow> lookup (erase k m) = (lookup m)(k := None)"
begin

lemma keys_distinct: "inv m \<Longrightarrow> distinct (map fst (entries m))"
  using entries_sorted strict_sorted_iff by blast

lemma dom_lookup: "inv m \<Longrightarrow> dom (lookup m) = fst ` set (entries m)"
  by (force simp: entries_lookup [symmetric])

lemma entries_put:
  "inv m \<Longrightarrow> set (entries (put k v m)) = insert (k, v) {e \<in> set (entries m). fst e \<noteq> k}"
  by (auto simp: entries_lookup put_inv put_lookup split: if_splits)

lemma entries_erase:
  "inv m \<Longrightarrow> set (entries (erase k m)) = {e \<in> set (entries m). fst e \<noteq> k}"
  by (auto simp: entries_lookup erase_inv erase_lookup split: if_splits)

lemma size_put_new:
  assumes "inv m" and "lookup m k = None"
  shows "length (entries (put k v m)) = Suc (length (entries m))"
proof -
  have card: "inv n \<Longrightarrow> card (set (entries n)) = length (entries n)" for n
    using keys_distinct [of n] by (simp add: distinct_card distinct_map)
  have "{e \<in> set (entries m). fst e \<noteq> k} = set (entries m)"
    using assms by (auto simp: entries_lookup)
  moreover have "(k, v) \<notin> set (entries m)" using assms by (simp add: entries_lookup)
  ultimately have "card (set (entries (put k v m))) = Suc (card (set (entries m)))"
    using assms(1) by (simp add: entries_put)
  then show ?thesis using assms(1) by (simp add: card put_inv)
qed

text \<open>The iteration order is determined by the contents.\<close>

lemma entries_from_keys:
  assumes "inv m"
  shows "entries m = map (\<lambda>k. (k, the (lookup m k))) (map fst (entries m))"
proof -
  have "\<forall>e \<in> set (entries m). (fst e, the (lookup m (fst e))) = e"
    using assms entries_lookup by (metis option.sel prod.collapse)
  then show ?thesis by (simp add: map_idI)
qed

lemma entries_unique:
  assumes "inv m" and "inv n" and "lookup m = lookup n"
  shows "entries m = entries n"
proof -
  have "set (map fst (entries m)) = set (map fst (entries n))"
    using assms by (simp add: dom_lookup [symmetric])
  then have "map fst (entries m) = map fst (entries n)"
    using assms strict_sorted_equal entries_sorted by metis
  then show ?thesis
    using entries_from_keys [OF assms(1)] entries_from_keys [OF assms(2)] assms(3) by simp
qed

end

section \<open>The list model\<close>

type_synonym ('k, 'v) omap = "('k \<times> 'v) list"

definition om_inv :: "('k::linorder, 'v) omap \<Rightarrow> bool" where
  "om_inv m \<longleftrightarrow> sorted_wrt (<) (map fst m)"

abbreviation om_find :: "('k, 'v) omap \<Rightarrow> 'k \<Rightarrow> 'v option" where
  "om_find \<equiv> map_of"

fun om_put :: "'k::linorder \<Rightarrow> 'v \<Rightarrow> ('k, 'v) omap \<Rightarrow> ('k, 'v) omap" where
  "om_put k v [] = [(k, v)]"
| "om_put k v ((k', v') # m) =
     (if k < k' then (k, v) # (k', v') # m
      else if k = k' then (k, v) # m
      else (k', v') # om_put k v m)"

text \<open>\<open>emplace\<close> does not overwrite; the flag says whether it inserted.\<close>

definition om_emplace :: "'k::linorder \<Rightarrow> 'v \<Rightarrow> ('k, 'v) omap \<Rightarrow> ('k, 'v) omap \<times> bool" where
  "om_emplace k v m = (case om_find m k of Some _ \<Rightarrow> (m, False) | None \<Rightarrow> (om_put k v m, True))"

definition om_erase :: "'k::linorder \<Rightarrow> ('k, 'v) omap \<Rightarrow> ('k, 'v) omap" where
  "om_erase k m = filter (\<lambda>e. fst e \<noteq> k) m"

lemma om_inv_Nil [simp]: "om_inv []"
  by (simp add: om_inv_def)

lemma om_inv_Cons: "om_inv ((k, v) # m) \<longleftrightarrow> (\<forall>e \<in> set m. k < fst e) \<and> om_inv m"
  by (auto simp: om_inv_def)

lemma keys_om_put: "fst ` set (om_put k v m) = insert k (fst ` set m)"
  by (induction k v m rule: om_put.induct) auto

lemma om_inv_put [simp, intro]: "om_inv m \<Longrightarrow> om_inv (om_put k v m)"
proof (induction k v m rule: om_put.induct)
  case (1 k v)
  then show ?case by (simp add: om_inv_Cons)
next
  case (2 k v k' v' m)
  have "\<forall>e \<in> set (om_put k v m). k' < fst e" if "k' < k"
    using 2(2) that keys_om_put [of k v m] by (force simp: om_inv_Cons)
  with 2 show ?case by (force simp: om_inv_Cons)
qed

lemma om_find_notin: "om_find m k = None \<longleftrightarrow> k \<notin> fst ` set m"
  by (induction m) auto

lemma om_find_put [simp]: "om_inv m \<Longrightarrow> om_find (om_put k v m) = (om_find m)(k \<mapsto> v)"
proof (induction k v m rule: om_put.induct)
  case (1 k v)
  then show ?case by simp
next
  case (2 k v k' v' m)
  then show ?case by (auto simp: om_inv_Cons fun_eq_iff)
qed

lemma om_inv_erase [simp, intro]: "om_inv m \<Longrightarrow> om_inv (om_erase k m)"
  by (induction m) (auto simp: om_erase_def om_inv_Cons)

lemma om_find_erase [simp]: "om_find (om_erase k m) = (om_find m)(k := None)"
  by (induction m) (auto simp: om_erase_def fun_eq_iff)

lemma om_find_iff: "om_inv m \<Longrightarrow> (k, v) \<in> set m \<longleftrightarrow> om_find m k = Some v"
  by (simp add: om_inv_def strict_sorted_iff)

interpretation omap: ordered_map "map_of" om_put om_erase "\<lambda>m. m" om_inv
  by unfold_locales (auto simp: om_find_iff, simp_all add: om_inv_def)

lemma om_emplace_new: "om_find m k = None \<Longrightarrow> om_emplace k v m = (om_put k v m, True)"
  by (simp add: om_emplace_def)

lemma om_emplace_old: "om_find m k = Some w \<Longrightarrow> om_emplace k v m = (m, False)"
  by (simp add: om_emplace_def)

lemma om_emplace_inserted:
  "om_emplace k v m = (m', True) \<longleftrightarrow> om_find m k = None \<and> m' = om_put k v m"
  by (auto simp: om_emplace_def split: option.splits)

lemma om_inv_emplace: "om_inv m \<Longrightarrow> om_inv (fst (om_emplace k v m))"
  by (auto simp: om_emplace_def split: option.split)

text \<open>Filling an empty map from the entries of a map, in order, gives that map back.\<close>

lemma om_put_append_last:
  assumes "\<forall>e \<in> set m. fst e < k"
  shows "om_put k v m = m @ [(k, v)]"
  using assms
proof (induction m)
  case Nil
  then show ?case by simp
next
  case (Cons e m)
  then show ?case by (cases e) auto
qed

section \<open>Sets\<close>

definition os_insert :: "'a::linorder \<Rightarrow> 'a list \<Rightarrow> 'a list" where
  "os_insert x s = (if x \<in> set s then s else lowerBoundInsert x s)"

definition os_erase :: "'a \<Rightarrow> 'a list \<Rightarrow> 'a list" where
  "os_erase x s = filter (\<lambda>y. y \<noteq> x) s"

lemma set_os_insert [simp]: "set (os_insert x s) = insert x (set s)"
  by (auto simp: os_insert_def)

lemma set_os_erase [simp]: "set (os_erase x s) = set s - {x}"
  by (auto simp: os_erase_def)

lemma sorted_os_insert [simp, intro]:
  "sorted_wrt (<) s \<Longrightarrow> sorted_wrt (<) (os_insert x s)"
  by (simp add: os_insert_def strict_sorted_lowerBoundInsert)

lemma sorted_os_erase [simp, intro]:
  "sorted_wrt (<) s \<Longrightarrow> sorted_wrt (<) (os_erase x s)"
  by (simp add: os_erase_def sorted_wrt_filter)

end
