(* ===== verification/Due_Key.thy ===== *)
theory Due_Key
  imports Ordered_Map
begin

text \<open>
  The key that orders timers and events: due tick first, then identifier. The code declares
  the same structure twice, as \<open>TickScheduler::QueueKey\<close> and as
  \<open>DeterministicEventQueue::EventKey\<close> (\<open>include/realscript/game/GameplayPrimitives.h\<close>);
  the development has it once.
\<close>

datatype QueueKey = QueueKey (keyDue: u64) (keyId: u64)

text \<open>The code's \<open>operator<\<close> on queue keys: by due tick, then by identifier.\<close>

instantiation QueueKey :: linorder
begin

definition less_QueueKey :: "QueueKey \<Rightarrow> QueueKey \<Rightarrow> bool" where
  "less_QueueKey a b \<longleftrightarrow> keyDue a < keyDue b \<or> (keyDue a = keyDue b \<and> keyId a < keyId b)"

definition less_eq_QueueKey :: "QueueKey \<Rightarrow> QueueKey \<Rightarrow> bool" where
  "less_eq_QueueKey a b \<longleftrightarrow> a = b \<or> a < b"

instance
  by standard (auto simp: less_QueueKey_def less_eq_QueueKey_def intro: QueueKey.expand)

end

lemma QueueKey_less_eq: "QueueKey a b \<le> QueueKey c d \<longleftrightarrow> a < c \<or> (a = c \<and> b \<le> d)"
  by (auto simp: less_QueueKey_def less_eq_QueueKey_def)

lemma QueueKey_less_due: "k < k' \<Longrightarrow> keyDue k \<le> keyDue k'"
  by (auto simp: less_QueueKey_def)

end
