(* ===== verification/Tick_Scheduler.thy ===== *)
theory Tick_Scheduler
  imports Stable_Hash Due_Key Snapshotable
begin

text \<open>
  \<open>TickScheduler\<close> of \<open>src/game/GameplayPrimitives.cpp\<close>: one-shot and repeating timers kept
  in a map by identifier and in a queue ordered by due tick and identifier. The lemmas give
  the invariant that ties map and queue together, and show that \<open>runDue\<close> fires exactly the
  occurrences that are due, in order, and resumes where a budget stopped it.
\<close>

section \<open>State\<close>

record TaskState =
  taskId :: u64
  dueTick :: u64
  intervalTicks :: u64
  remainingFires :: u32
  payload :: u64

record FiredTask =
  firedId :: u64
  scheduledTick :: u64
  firedPayload :: u64
  repeats :: bool

record TickScheduler =
  nextId :: u64
  tasks :: "(u64, TaskState) omap"
  queue :: "QueueKey list"

record SchedulerState =
  stNextId :: u64
  stTasks :: "TaskState list"

definition emptyScheduler :: TickScheduler where
  "emptyScheduler = \<lparr>nextId = 1, tasks = [], queue = []\<rparr>"

definition RepeatForever :: u32 where
  "RepeatForever = 0"

definition repeating :: "u32 \<Rightarrow> bool" where
  "repeating n \<longleftrightarrow> n = RepeatForever \<or> 1 < n"

section \<open>Operations\<close>

text \<open>The result 0 is the failure value of the code; the state is then unchanged.\<close>

definition scheduleAt ::
    "u64 \<Rightarrow> u64 \<Rightarrow> u64 \<Rightarrow> u32 \<Rightarrow> TickScheduler \<Rightarrow> u64 \<times> TickScheduler" where
  "scheduleAt due pl interval repeatCount s =
     (if repeating repeatCount \<and> interval = 0 then (0, s)
      else if nextId s = 0 then (0, s)
      else (let ident = nextId s;
                task = \<lparr>taskId = ident, dueTick = due, intervalTicks = interval,
                        remainingFires = repeatCount, payload = pl\<rparr>
            in (ident, s\<lparr>nextId := nextId s + 1,
                         tasks := fst (om_emplace ident task (tasks s)),
                         queue := os_insert (QueueKey due ident) (queue s)\<rparr>)))"

definition saturatedDue :: "u64 \<Rightarrow> u64 \<Rightarrow> u64" where
  "saturatedDue currentTick delayTicks =
     (if (- 1) - currentTick < delayTicks then - 1 else currentTick + delayTicks)"

definition scheduleAfter ::
    "u64 \<Rightarrow> u64 \<Rightarrow> u64 \<Rightarrow> u64 \<Rightarrow> u32 \<Rightarrow> TickScheduler \<Rightarrow> u64 \<times> TickScheduler" where
  "scheduleAfter currentTick delayTicks pl interval repeatCount s =
     scheduleAt (saturatedDue currentTick delayTicks) pl interval repeatCount s"

definition scheduler_cancel :: "u64 \<Rightarrow> TickScheduler \<Rightarrow> bool \<times> TickScheduler" where
  "scheduler_cancel ident s =
     (case om_find (tasks s) ident of
        None \<Rightarrow> (False, s)
      | Some task \<Rightarrow>
          (True, s\<lparr>queue := os_erase (QueueKey (dueTick task) ident) (queue s),
                   tasks := om_erase ident (tasks s)\<rparr>))"

definition scheduler_contains :: "u64 \<Rightarrow> TickScheduler \<Rightarrow> bool" where
  "scheduler_contains ident s \<longleftrightarrow> om_find (tasks s) ident \<noteq> None"

definition scheduler_clear :: "TickScheduler \<Rightarrow> TickScheduler" where
  "scheduler_clear s = s\<lparr>tasks := [], queue := [], nextId := 1\<rparr>"

text \<open>
  One turn of the loop of \<open>runDue\<close> on a popped key: \<open>None\<close> when the identifier is not in
  the map, otherwise the record of the firing; the task is erased after its last firing or
  when its next due tick would not fit, and is queued again otherwise.
\<close>

definition fireKey :: "QueueKey \<Rightarrow> TickScheduler \<Rightarrow> FiredTask option \<times> TickScheduler" where
  "fireKey key s =
     (case om_find (tasks s) (keyId key) of
        None \<Rightarrow> (None, s)
      | Some task \<Rightarrow>
          (let again = (remainingFires task = RepeatForever \<or> 1 < remainingFires task);
               fired = \<lparr>firedId = taskId task, scheduledTick = dueTick task,
                        firedPayload = payload task, repeats = again\<rparr>;
               left = (if remainingFires task \<noteq> RepeatForever then remainingFires task - 1
                       else remainingFires task);
               due = dueTick task + intervalTicks task
           in if \<not> again then (Some fired, s\<lparr>tasks := om_erase (keyId key) (tasks s)\<rparr>)
              else if (- 1) - dueTick task < intervalTicks task
              then (Some fired, s\<lparr>tasks := om_erase (keyId key) (tasks s)\<rparr>)
              else (Some fired,
                    s\<lparr>tasks := om_put (keyId key)
                                 (task\<lparr>remainingFires := left, dueTick := due\<rparr>) (tasks s),
                      queue := os_insert (QueueKey due (taskId task)) (queue s)\<rparr>)))"

text \<open>
  The loop ends: a turn either fires a task, and the budget bounds those, or shortens the
  queue.
\<close>

function runDueLoop ::
    "u64 \<Rightarrow> nat \<Rightarrow> TickScheduler \<Rightarrow> FiredTask list \<Rightarrow> FiredTask list \<times> TickScheduler" where
  "runDueLoop currentTick budget s fired =
     (case queue s of
        [] \<Rightarrow> (fired, s)
      | key # rest \<Rightarrow>
          (if \<not> length fired < budget then (fired, s)
           else if currentTick < keyDue key then (fired, s)
           else (case fireKey key (s\<lparr>queue := rest\<rparr>) of
                   (None, s') \<Rightarrow> runDueLoop currentTick budget s' fired
                 | (Some f, s') \<Rightarrow> runDueLoop currentTick budget s' (fired @ [f]))))"
  by pat_completeness auto
termination
  by (relation "measures [\<lambda>(t, b, s, fired). b - length fired, \<lambda>(t, b, s, fired). length (queue s)]")
    (auto simp: fireKey_def Let_def split: option.splits if_splits)

declare runDueLoop.simps [simp del]

definition runDue :: "u64 \<Rightarrow> nat \<Rightarrow> TickScheduler \<Rightarrow> FiredTask list \<times> TickScheduler" where
  "runDue currentTick budget s = runDueLoop currentTick budget s []"

section \<open>Snapshot, restore, hash\<close>

definition scheduler_snapshot :: "TickScheduler \<Rightarrow> SchedulerState" where
  "scheduler_snapshot s = \<lparr>stNextId = nextId s, stTasks = map snd (tasks s)\<rparr>"

text \<open>The loop of \<open>restore\<close> over the saved tasks, with its three early returns.\<close>

fun restoreTasks ::
    "TaskState list \<Rightarrow> (u64, TaskState) omap \<Rightarrow> QueueKey list \<Rightarrow> u64 \<Rightarrow>
     ((u64, TaskState) omap \<times> QueueKey list \<times> u64) option" where
  "restoreTasks [] m q maximumId = Some (m, q, maximumId)"
| "restoreTasks (t # ts) m q maximumId =
     (if taskId t = 0 then None
      else if repeating (remainingFires t) \<and> intervalTicks t = 0 then None
      else (case om_emplace (taskId t) t m of
              (_, False) \<Rightarrow> None
            | (m', True) \<Rightarrow> restoreTasks ts m' (os_insert (QueueKey (dueTick t) (taskId t)) q)
                             (max maximumId (taskId t))))"

definition scheduler_restore :: "SchedulerState \<Rightarrow> TickScheduler option" where
  "scheduler_restore st =
     (if stNextId st = 0 then None
      else (case restoreTasks (stTasks st) [] [] 0 of
              None \<Rightarrow> None
            | Some (m, q, maximumId) \<Rightarrow>
                (if stNextId st \<le> maximumId then None
                 else Some \<lparr>nextId = stNextId st, tasks = m, queue = q\<rparr>)))"

definition hashTask :: "u64 \<Rightarrow> TaskState \<Rightarrow> u64" where
  "hashTask h t =
     hashU64 (hashU64 (hashU64 (hashU64 (hashU64 h (taskId t)) (dueTick t)) (intervalTicks t))
       (ucast (remainingFires t))) (payload t)"

definition scheduler_stableHash :: "TickScheduler \<Rightarrow> u64" where
  "scheduler_stableHash s =
     foldl hashTask (hashU64 (hashU64 FnvOffset (nextId s)) (of_nat (length (tasks s))))
       (map snd (tasks s))"

section \<open>The invariant\<close>

definition task_ok :: "u64 \<Rightarrow> u64 \<Rightarrow> TaskState \<Rightarrow> bool" where
  "task_ok next k t \<longleftrightarrow>
     taskId t = k \<and> k \<noteq> 0 \<and> (next = 0 \<or> k < next) \<and>
     (repeating (remainingFires t) \<longrightarrow> intervalTicks t \<noteq> 0)"

definition sched_inv :: "TickScheduler \<Rightarrow> bool" where
  "sched_inv s \<longleftrightarrow>
     om_inv (tasks s) \<and> sorted_wrt (<) (queue s) \<and>
     (\<forall>k t. om_find (tasks s) k = Some t \<longrightarrow> task_ok (nextId s) k t) \<and>
     (\<forall>key. key \<in> set (queue s) \<longleftrightarrow>
        (\<exists>t. om_find (tasks s) (keyId key) = Some t \<and> keyDue key = dueTick t))"

lemma sched_invD:
  assumes "sched_inv s"
  shows "om_inv (tasks s)" and "sorted_wrt (<) (queue s)"
    and "om_find (tasks s) k = Some t \<Longrightarrow> task_ok (nextId s) k t"
    and "key \<in> set (queue s) \<longleftrightarrow>
           (\<exists>t. om_find (tasks s) (keyId key) = Some t \<and> keyDue key = dueTick t)"
  using assms by (auto simp: sched_inv_def)

lemma sched_inv_empty: "sched_inv emptyScheduler"
  by (simp add: sched_inv_def emptyScheduler_def)

lemma sched_inv_clear: "sched_inv (scheduler_clear s)"
  by (simp add: sched_inv_def scheduler_clear_def)

lemma task_ok_next: "task_ok n k t \<Longrightarrow> n \<noteq> 0 \<Longrightarrow> task_ok (n + 1) k t"
  by (cases "n + 1 = 0") (auto simp: task_ok_def word_less_plus_one_iff intro: less_imp_le)

lemma sched_inv_fresh_id:
  assumes "sched_inv s" and "nextId s \<noteq> 0"
  shows "om_find (tasks s) (nextId s) = None"
proof (cases "om_find (tasks s) (nextId s)")
  case (Some t)
  with assms have "task_ok (nextId s) (nextId s) t" by (simp add: sched_invD)
  with assms show ?thesis by (simp add: task_ok_def)
qed

lemma sched_inv_scheduleAt [rs_inv_intro]:
  assumes inv: "sched_inv s"
  shows "sched_inv (snd (scheduleAt due pl interval n s))"
proof (cases "(repeating n \<and> interval = 0) \<or> nextId s = 0")
  case True
  with inv show ?thesis by (auto simp: scheduleAt_def)
next
  case False
  let ?t = "\<lparr>taskId = nextId s, dueTick = due, intervalTicks = interval,
             remainingFires = n, payload = pl\<rparr>"
  note I = sched_invD [OF inv]
  from inv False have new: "om_find (tasks s) (nextId s) = None" by (simp add: sched_inv_fresh_id)
  have ok: "task_ok (nextId s + 1) (nextId s) ?t"
    using False word_less_plus_one [of "nextId s"] by (auto simp: task_ok_def)
  have "snd (scheduleAt due pl interval n s) =
      s\<lparr>nextId := nextId s + 1, tasks := om_put (nextId s) ?t (tasks s),
        queue := os_insert (QueueKey due (nextId s)) (queue s)\<rparr>"
    using False new by (auto simp: scheduleAt_def om_emplace_new Let_def)
  then show ?thesis
    unfolding sched_inv_def
    using I False new ok by (auto intro: task_ok_next QueueKey.expand)
qed

lemma sched_inv_cancel [rs_inv_intro]:
  assumes inv: "sched_inv s"
  shows "sched_inv (snd (scheduler_cancel k s))"
proof (cases "om_find (tasks s) k")
  case None
  with inv show ?thesis by (simp add: scheduler_cancel_def)
next
  case (Some t)
  note I = sched_invD [OF inv]
  from Some have "snd (scheduler_cancel k s) =
      s\<lparr>queue := os_erase (QueueKey (dueTick t) k) (queue s), tasks := om_erase k (tasks s)\<rparr>"
    by (simp add: scheduler_cancel_def)
  then show ?thesis
    unfolding sched_inv_def using I Some by (auto intro: QueueKey.expand)
qed

text \<open>The three branches of a turn, with the record of the firing and the next state named.\<close>

definition firing :: "TaskState \<Rightarrow> FiredTask" where
  "firing t = \<lparr>firedId = taskId t, scheduledTick = dueTick t, firedPayload = payload t,
               repeats = repeating (remainingFires t)\<rparr>"

definition advanceTask :: "TaskState \<Rightarrow> TaskState" where
  "advanceTask t = t\<lparr>remainingFires := (if remainingFires t \<noteq> RepeatForever then remainingFires t - 1
                                        else remainingFires t),
                     dueTick := dueTick t + intervalTicks t\<rparr>"

definition requeues :: "TaskState \<Rightarrow> bool" where
  "requeues t \<longleftrightarrow> repeating (remainingFires t) \<and> \<not> (- 1) - dueTick t < intervalTicks t"

lemma fireKey_last:
  assumes "om_find (tasks s) (keyId key) = Some t" and "\<not> requeues t"
  shows "fireKey key s = (Some (firing t), s\<lparr>tasks := om_erase (keyId key) (tasks s)\<rparr>)"
  using assms by (auto simp: fireKey_def firing_def requeues_def repeating_def Let_def)

lemma fireKey_again:
  assumes "om_find (tasks s) (keyId key) = Some t" and "requeues t"
  shows "fireKey key s =
    (Some (firing t),
     s\<lparr>tasks := om_put (keyId key) (advanceTask t) (tasks s),
       queue := os_insert (QueueKey (dueTick t + intervalTicks t) (taskId t)) (queue s)\<rparr>)"
  using assms
  by (auto simp: fireKey_def firing_def requeues_def repeating_def advanceTask_def Let_def)

lemma advanceTask_simps [simp]:
  "taskId (advanceTask t) = taskId t"
  "dueTick (advanceTask t) = dueTick t + intervalTicks t"
  "intervalTicks (advanceTask t) = intervalTicks t"
  "payload (advanceTask t) = payload t"
  by (simp_all add: advanceTask_def)

lemma task_ok_advance:
  assumes "task_ok n k t" and "requeues t"
  shows "task_ok n k (advanceTask t)"
  using assms by (simp add: task_ok_def requeues_def)

lemma queue_head:
  assumes inv: "sched_inv s" and q: "queue s = key # rest"
  obtains t where "om_find (tasks s) (keyId key) = Some t" and "keyDue key = dueTick t"
    and "task_ok (nextId s) (keyId key) t" and "taskId t = keyId key"
proof -
  from sched_invD(4) [OF inv, of key] q
  obtain t where t: "om_find (tasks s) (keyId key) = Some t" "keyDue key = dueTick t" by auto
  moreover from sched_invD(3) [OF inv t(1)] have "task_ok (nextId s) (keyId key) t" .
  ultimately show thesis using that by (simp add: task_ok_def)
qed

lemma queue_rest:
  assumes inv: "sched_inv s" and q: "queue s = key # rest"
  shows "sorted_wrt (<) rest" and "key \<notin> set rest"
    and "k \<in> set rest \<longleftrightarrow> k \<noteq> key \<and>
           (\<exists>t. om_find (tasks s) (keyId k) = Some t \<and> keyDue k = dueTick t)"
  using sched_invD(2,4) [OF inv] q by auto

lemma sched_inv_fireKey:
  assumes inv: "sched_inv s" and q: "queue s = key # rest"
  shows "sched_inv (snd (fireKey key (s\<lparr>queue := rest\<rparr>)))"
proof -
  note I = sched_invD [OF inv] and R = queue_rest [OF inv q]
  obtain t where t: "om_find (tasks s) (keyId key) = Some t" "keyDue key = dueTick t"
    and ok: "task_ok (nextId s) (keyId key) t" and tid: "taskId t = keyId key"
    using queue_head [OF inv q] by blast
  show ?thesis
  proof (cases "requeues t")
    case False
    then have eq: "snd (fireKey key (s\<lparr>queue := rest\<rparr>)) =
        s\<lparr>queue := rest, tasks := om_erase (keyId key) (tasks s)\<rparr>"
      using t by (simp add: fireKey_last)
    show ?thesis
      unfolding eq sched_inv_def using I(1,3) R t by (auto intro: QueueKey.expand)
  next
    case True
    let ?key' = "QueueKey (dueTick t + intervalTicks t) (keyId key)"
    have eq: "snd (fireKey key (s\<lparr>queue := rest\<rparr>)) =
        s\<lparr>queue := os_insert ?key' rest, tasks := om_put (keyId key) (advanceTask t) (tasks s)\<rparr>"
      using t True tid by (simp add: fireKey_again)
    have keys: "k \<in> set (os_insert ?key' rest) \<longleftrightarrow>
        (\<exists>u. om_find (om_put (keyId key) (advanceTask t) (tasks s)) (keyId k) = Some u \<and>
             keyDue k = dueTick u)" for k
      using I(1) R(3) t by (cases k; cases key) auto
    show ?thesis
      unfolding eq sched_inv_def
      using I(1,3) R(1) t ok task_ok_advance [OF ok True] keys by auto
  qed
qed

lemma sched_inv_runDueLoop:
  "sched_inv s \<Longrightarrow> sched_inv (snd (runDueLoop t b s fired))"
proof (induction t b s fired rule: runDueLoop.induct)
  case (1 t b s fired)
  show ?case
  proof (cases "queue s")
    case Nil
    with 1 show ?thesis by (simp add: runDueLoop.simps)
  next
    case (Cons key rest)
    have inv: "sched_inv (snd (fireKey key (s\<lparr>queue := rest\<rparr>)))"
      using sched_inv_fireKey [OF 1(3) Cons] .
    show ?thesis
      using 1 Cons inv by (subst runDueLoop.simps) (auto split: prod.splits option.splits)
  qed
qed

lemma sched_inv_runDue [rs_inv_intro]: "sched_inv s \<Longrightarrow> sched_inv (snd (runDue t b s))"
  by (simp add: runDue_def sched_inv_runDueLoop)

section \<open>What is due\<close>

text \<open>
  The occurrences of a task that are due at a tick: the due tick plus multiples of the
  interval, as many as the remaining count allows, none of them beyond the last tick.
\<close>

definition due_at :: "TaskState \<Rightarrow> nat \<Rightarrow> nat" where
  "due_at t k = unat (dueTick t) + k * unat (intervalTicks t)"

definition occurs :: "u64 \<Rightarrow> TaskState \<Rightarrow> (u64 \<times> u64) set" where
  "occurs now t = {(of_nat (due_at t k), taskId t) |k.
     (remainingFires t = RepeatForever \<or> k < unat (remainingFires t)) \<and> due_at t k \<le> unat now}"

definition pending :: "u64 \<Rightarrow> TickScheduler \<Rightarrow> (u64 \<times> u64) set" where
  "pending now s = (\<Union>t \<in> ran (om_find (tasks s)). occurs now t)"

definition firedKey :: "FiredTask \<Rightarrow> u64 \<times> u64" where
  "firedKey f = (scheduledTick f, firedId f)"

lemma firedKey_firing [simp]: "firedKey (firing t) = (dueTick t, taskId t)"
  by (simp add: firedKey_def firing_def)

lemma occurs_not_due: "now < dueTick t \<Longrightarrow> occurs now t = {}"
  by (auto simp: occurs_def due_at_def word_less_nat_alt)

lemma occurs_I:
  "remainingFires t = RepeatForever \<or> k < unat (remainingFires t) \<Longrightarrow> due_at t k \<le> unat now \<Longrightarrow>
   (of_nat (due_at t k), taskId t) \<in> occurs now t"
  by (auto simp: occurs_def)

lemma requeues_sum:
  assumes "requeues t"
  shows "unat (dueTick t + intervalTicks t) = unat (dueTick t) + unat (intervalTicks t)"
proof -
  have "unat (intervalTicks t) \<le> 2 ^ 64 - 1 - unat (dueTick t)"
    using assms by (simp add: requeues_def not_less word_le_nat_alt unat_room_u64)
  then have "unat (dueTick t) + unat (intervalTicks t) < 2 ^ 64"
    using unat_u64_less [of "dueTick t"] by linarith
  then show ?thesis by (simp add: unat_word_ariths)
qed

lemma due_at_advance: "requeues t \<Longrightarrow> due_at (advanceTask t) k = due_at t (Suc k)"
  by (simp add: due_at_def requeues_sum)

lemma remaining_advance:
  assumes "repeating (remainingFires t)"
  shows "(remainingFires (advanceTask t) = RepeatForever \<or> k < unat (remainingFires (advanceTask t)))
     \<longleftrightarrow> (remainingFires t = RepeatForever \<or> Suc k < unat (remainingFires t))"
proof (cases "remainingFires t = RepeatForever")
  case True
  then show ?thesis by (simp add: advanceTask_def)
next
  case False
  then have "1 < remainingFires t" using assms by (simp add: repeating_def)
  then have "1 < unat (remainingFires t)" by (simp add: word_less_nat_alt)
  then have u: "unat (remainingFires t - 1) = unat (remainingFires t) - 1"
    using False unat_minus_one_nonzero [of "remainingFires t"] by (simp add: RepeatForever_def)
  with \<open>1 < unat (remainingFires t)\<close> have "remainingFires t - 1 \<noteq> 0" by force
  with False u show ?thesis by (auto simp: advanceTask_def RepeatForever_def)
qed

lemma overflow_after_now:
  fixes now :: u64
  assumes "\<not> requeues t" and "repeating (remainingFires t)"
  shows "unat now < due_at t (Suc k)"
proof -
  have "2 ^ 64 - 1 - unat (dueTick t) < unat (intervalTicks t)"
    using assms by (simp add: requeues_def word_less_nat_alt unat_room_u64)
  moreover have "unat (intervalTicks t) \<le> Suc k * unat (intervalTicks t)" by simp
  ultimately show ?thesis using unat_u64_less [of now] unfolding due_at_def by linarith
qed

lemma occurs_unfold:
  assumes due: "\<not> now < dueTick t"
    and ok: "remainingFires t = RepeatForever \<or> 0 < remainingFires t"
  shows "occurs now t = insert (dueTick t, taskId t)
           (if requeues t then occurs now (advanceTask t) else {})"
proof -
  have split: "occurs now t = insert (dueTick t, taskId t)
      {(of_nat (due_at t (Suc k)), taskId t) |k.
        (remainingFires t = RepeatForever \<or> Suc k < unat (remainingFires t)) \<and>
        due_at t (Suc k) \<le> unat now}" (is "_ = insert _ ?later")
  proof (intro set_eqI iffI)
    fix p assume "p \<in> occurs now t"
    then obtain k where "p = (of_nat (due_at t k), taskId t)"
      "remainingFires t = RepeatForever \<or> k < unat (remainingFires t)" "due_at t k \<le> unat now"
      by (auto simp: occurs_def)
    then show "p \<in> insert (dueTick t, taskId t) ?later"
      by (cases k) (auto simp: due_at_def)
  next
    fix p assume "p \<in> insert (dueTick t, taskId t) ?later"
    moreover have "(dueTick t, taskId t) \<in> occurs now t"
      using occurs_I [of t 0 now] due ok
      by (auto simp: due_at_def word_le_nat_alt word_less_nat_alt not_less)
    ultimately show "p \<in> occurs now t" by (auto intro: occurs_I)
  qed
  show ?thesis
  proof (cases "requeues t")
    case True
    then have "repeating (remainingFires t)" by (simp add: requeues_def)
    then have "?later = occurs now (advanceTask t)"
      using True by (simp only: occurs_def due_at_advance remaining_advance advanceTask_simps)
    with split True show ?thesis by simp
  next
    case False
    have "?later = {}"
    proof (cases "repeating (remainingFires t)")
      case True
      then show ?thesis using overflow_after_now [OF False] by (auto simp: not_le)
    next
      case False
      then have "\<not> 1 < unat (remainingFires t)" "remainingFires t \<noteq> RepeatForever"
        by (auto simp: repeating_def word_less_nat_alt)
      then show ?thesis by auto
    qed
    with split False show ?thesis by simp
  qed
qed

section \<open>The loop fires exactly what is due, in order\<close>

lemma pending_Nil:
  assumes "sched_inv s" and "\<forall>key \<in> set (queue s). now < keyDue key"
  shows "pending now s = {}"
proof -
  have "now < dueTick t" if "om_find (tasks s) k = Some t" for k t
    using sched_invD(4) [OF assms(1), of "QueueKey (dueTick t) k"] that assms(2) by force
  then show ?thesis by (auto simp: pending_def ran_def occurs_not_due)
qed

lemma pending_fireKey:
  assumes inv: "sched_inv s" and q: "queue s = key # rest" and due: "\<not> now < keyDue key"
  obtains t s' where "fireKey key (s\<lparr>queue := rest\<rparr>) = (Some (firing t), s')"
    and "QueueKey (dueTick t) (taskId t) = key"
    and "pending now s = insert (dueTick t, taskId t) (pending now s')"
    and "sched_inv s'"
    and "\<forall>k \<in> set (queue s'). key < k"
proof -
  obtain t where t: "om_find (tasks s) (keyId key) = Some t" "keyDue key = dueTick t"
    and ok: "task_ok (nextId s) (keyId key) t" and tid: "taskId t = keyId key"
    using queue_head [OF inv q] by blast
  let ?s0 = "s\<lparr>queue := rest\<rparr>"
  let ?s' = "snd (fireKey key ?s0)"
  note I = sched_invD [OF inv] and R = queue_rest [OF inv q]
  have rest: "\<forall>k \<in> set rest. key < k" using I(2) q by simp
  have others: "pending now s = occurs now t \<union> (\<Union>u \<in> ran ((om_find (tasks s))(keyId key := None)). occurs now u)"
  proof -
    have "ran (om_find (tasks s)) = insert t (ran ((om_find (tasks s))(keyId key := None)))"
      using t(1) by (rule ran_split_at)
    then show ?thesis by (simp add: pending_def)
  qed
  have pos: "remainingFires t = RepeatForever \<or> 0 < remainingFires t"
    using word_coorder.not_eq_extremum [of "remainingFires t"] by (auto simp: RepeatForever_def)
  have fire: "fst (fireKey key ?s0) = Some (firing t) \<and>
      pending now s = insert (dueTick t, taskId t) (pending now ?s') \<and>
      (\<forall>k \<in> set (queue ?s'). key < k)"
  proof (cases "requeues t")
    case False
    then have "fireKey key ?s0 =
        (Some (firing t), ?s0\<lparr>tasks := om_erase (keyId key) (tasks s)\<rparr>)"
      using t by (simp add: fireKey_last)
    moreover from this have "om_find (tasks ?s') = (om_find (tasks s))(keyId key := None)" by simp
    then have "pending now ?s' =
        (\<Union>u \<in> ran ((om_find (tasks s))(keyId key := None)). occurs now u)"
      by (simp only: pending_def)
    ultimately show ?thesis
      using False others occurs_unfold [OF _ pos, of now] due t(2) rest by simp
  next
    case True
    have new: "QueueKey (dueTick t + intervalTicks t) (taskId t) > key"
      using True ok t tid requeues_sum [OF True]
      by (cases key) (auto simp: less_QueueKey_def word_less_nat_alt task_ok_def requeues_def unat_gt_0)
    from True have eq: "fireKey key ?s0 = (Some (firing t),
        ?s0\<lparr>tasks := om_put (keyId key) (advanceTask t) (tasks s),
            queue := os_insert (QueueKey (dueTick t + intervalTicks t) (taskId t)) rest\<rparr>)"
      using t by (simp add: fireKey_again)
    have "ran ((om_find (tasks s))(keyId key \<mapsto> advanceTask t)) =
        insert (advanceTask t) (ran ((om_find (tasks s))(keyId key := None)))"
      by (rule ran_update)
    with eq True others occurs_unfold [OF _ pos, of now] due t(2) rest new I(1) show ?thesis
      by (auto simp: pending_def)
  qed
  moreover have "QueueKey (dueTick t) (taskId t) = key" using t tid by (cases key) simp
  moreover have "sched_inv ?s'" by (rule sched_inv_fireKey [OF inv q])
  ultimately show thesis using that [of t ?s'] by (cases "fireKey key ?s0") auto
qed

lemma runDueLoop_stops:
  assumes "queue s = [] \<or> \<not> length fired < b \<or> now < keyDue (hd (queue s))"
  shows "runDueLoop now b s fired = (fired, s)"
  using assms by (subst runDueLoop.simps) (auto split: list.splits)

lemma runDueLoop_fires:
  assumes "queue s = key # rest" and "length fired < b" and "\<not> now < keyDue key"
    and "fireKey key (s\<lparr>queue := rest\<rparr>) = (Some f, s')"
  shows "runDueLoop now b s fired = runDueLoop now b s' (fired @ [f])"
  using assms by (subst runDueLoop.simps) simp

lemma head_not_due:
  assumes "sched_inv s" and "queue s = [] \<or> now < keyDue (hd (queue s))"
  shows "\<forall>key \<in> set (queue s). now < keyDue key"
proof (cases "queue s")
  case Nil
  then show ?thesis by simp
next
  case (Cons key rest)
  with assms sched_invD(2) [OF assms(1)] show ?thesis
    by (force simp: less_QueueKey_def)
qed

text \<open>
  One induction for the loop, with the facts every property needs: the cases of stopping and
  of firing the head of the queue.
\<close>

lemma runDueLoop_rule:
  assumes inv: "sched_inv s"
    and stop: "\<And>s fired. sched_inv s \<Longrightarrow>
      queue s = [] \<or> \<not> length fired < b \<or> now < keyDue (hd (queue s)) \<Longrightarrow> P s fired (fired, s)"
    and fire: "\<And>s fired key t s' r. sched_inv s \<Longrightarrow> length fired < b \<Longrightarrow> \<not> now < dueTick t \<Longrightarrow>
      hd (queue s) = key \<Longrightarrow> queue s \<noteq> [] \<Longrightarrow>
      QueueKey (dueTick t) (taskId t) = key \<Longrightarrow>
      pending now s = insert (dueTick t, taskId t) (pending now s') \<Longrightarrow> sched_inv s' \<Longrightarrow>
      (\<forall>k \<in> set (queue s'). key < k) \<Longrightarrow> P s' (fired @ [firing t]) r \<Longrightarrow> P s fired r"
  shows "P s fired (runDueLoop now b s fired)"
  using inv
proof (induction "b - length fired" arbitrary: s fired rule: less_induct)
  case less
  show ?case
  proof (cases "queue s = [] \<or> \<not> length fired < b \<or> now < keyDue (hd (queue s))")
    case True
    then show ?thesis using stop [OF less.prems True] by (simp add: runDueLoop_stops)
  next
    case False
    then obtain key rest where q: "queue s = key # rest" by (cases "queue s") auto
    from False q have due: "\<not> now < keyDue key" and b: "length fired < b" by auto
    obtain t s' where f: "fireKey key (s\<lparr>queue := rest\<rparr>) = (Some (firing t), s')"
      "QueueKey (dueTick t) (taskId t) = key"
      "pending now s = insert (dueTick t, taskId t) (pending now s')"
      "sched_inv s'" "\<forall>k \<in> set (queue s'). key < k"
      by (rule pending_fireKey [OF less.prems q due])
    have "P s' (fired @ [firing t]) (runDueLoop now b s' (fired @ [firing t]))"
      using b f(4) by (intro less.hyps) auto
    moreover have "\<not> now < dueTick t" using due f(2) by auto
    ultimately have "P s fired (runDueLoop now b s' (fired @ [firing t]))"
      using fire [OF less.prems b] q f by simp
    then show ?thesis by (simp add: runDueLoop_fires [OF q b due f(1)])
  qed
qed

definition firedQueueKey :: "FiredTask \<Rightarrow> QueueKey" where
  "firedQueueKey f = QueueKey (scheduledTick f) (firedId f)"

lemma firedQueueKey_firing [simp]:
  "firedQueueKey (firing t) = QueueKey (dueTick t) (taskId t)"
  by (simp add: firedQueueKey_def firing_def)

lemma runDueLoop_complete:
  assumes "sched_inv s"
  shows "length (fst (runDueLoop now b s fired)) < b \<longrightarrow>
      firedKey ` set (fst (runDueLoop now b s fired)) = firedKey ` set fired \<union> pending now s \<and>
      (\<forall>key \<in> set (queue (snd (runDueLoop now b s fired))). now < keyDue key)"
proof (rule runDueLoop_rule [OF assms, where P = "\<lambda>s fired r. length (fst r) < b \<longrightarrow>
      firedKey ` set (fst r) = firedKey ` set fired \<union> pending now s \<and>
      (\<forall>key \<in> set (queue (snd r)). now < keyDue key)"], goal_cases)
  case (1 s fired)
  then show ?case using head_not_due [of s now] pending_Nil [of s now] by auto
next
  case (2 s fired key t s' r)
  then show ?case by simp
qed

lemma runDueLoop_sorted:
  assumes "sched_inv s" and "sorted_wrt (\<lambda>f g. firedQueueKey f < firedQueueKey g) fired"
    and "\<forall>f \<in> set fired. \<forall>key \<in> set (queue s). firedQueueKey f < key"
  shows "sorted_wrt (\<lambda>f g. firedQueueKey f < firedQueueKey g) (fst (runDueLoop now b s fired))"
proof -
  let ?lt = "\<lambda>f g. firedQueueKey f < firedQueueKey g"
  have "sorted_wrt ?lt fired \<and> (\<forall>f \<in> set fired. \<forall>key \<in> set (queue s). firedQueueKey f < key) \<longrightarrow>
      sorted_wrt ?lt (fst (runDueLoop now b s fired))"
  proof (rule runDueLoop_rule [OF assms(1), where P = "\<lambda>s fired r. sorted_wrt ?lt fired \<and>
      (\<forall>f \<in> set fired. \<forall>key \<in> set (queue s). firedQueueKey f < key) \<longrightarrow> sorted_wrt ?lt (fst r)"])
    fix s :: TickScheduler and fired :: "FiredTask list" and key t s'
      and r :: "FiredTask list \<times> TickScheduler"
    assume head: "hd (queue s) = key" "queue s \<noteq> []"
      and key: "QueueKey (dueTick t) (taskId t) = key" and later: "\<forall>k \<in> set (queue s'). key < k"
      and IH: "sorted_wrt ?lt (fired @ [firing t]) \<and>
        (\<forall>f \<in> set (fired @ [firing t]). \<forall>key \<in> set (queue s'). firedQueueKey f < key) \<longrightarrow>
        sorted_wrt ?lt (fst r)"
    show "sorted_wrt ?lt fired \<and> (\<forall>f \<in> set fired. \<forall>key \<in> set (queue s). firedQueueKey f < key) \<longrightarrow>
        sorted_wrt ?lt (fst r)"
    proof (intro impI; elim conjE)
      assume so: "sorted_wrt ?lt fired"
        and before: "\<forall>f \<in> set fired. \<forall>key \<in> set (queue s). firedQueueKey f < key"
      have "key \<in> set (queue s)" using head by (cases "queue s") auto
      with before have "\<forall>f \<in> set fired. firedQueueKey f < key" by blast
      with so key later show "sorted_wrt ?lt (fst r)"
        using IH by (force simp: sorted_wrt_append)
    qed
  qed simp
  with assms show ?thesis by blast
qed

lemma runDueLoop_not_early:
  assumes "sched_inv s" and "\<forall>f \<in> set fired. scheduledTick f \<le> now"
  shows "\<forall>f \<in> set (fst (runDueLoop now b s fired)). scheduledTick f \<le> now"
proof -
  have "(\<forall>f \<in> set fired. scheduledTick f \<le> now) \<longrightarrow>
      (\<forall>f \<in> set (fst (runDueLoop now b s fired)). scheduledTick f \<le> now)"
    by (rule runDueLoop_rule [OF assms(1), where P = "\<lambda>s fired r.
        (\<forall>f \<in> set fired. scheduledTick f \<le> now) \<longrightarrow> (\<forall>f \<in> set (fst r). scheduledTick f \<le> now)"])
      (auto simp: firing_def not_less)
  with assms(2) show ?thesis by blast
qed

lemma runDueLoop_budget:
  assumes "sched_inv s" and "length fired \<le> b"
  shows "length (fst (runDueLoop now b s fired)) \<le> b"
proof -
  have "length fired \<le> b \<longrightarrow> length (fst (runDueLoop now b s fired)) \<le> b"
    by (rule runDueLoop_rule [OF assms(1), where P = "\<lambda>s fired r.
        length fired \<le> b \<longrightarrow> length (fst r) \<le> b"]) auto
  with assms(2) show ?thesis by blast
qed

lemma runDueLoop_only_pending:
  assumes "sched_inv s"
  shows "firedKey ` set (fst (runDueLoop now b s fired)) \<subseteq> firedKey ` set fired \<union> pending now s"
  by (rule runDueLoop_rule [OF assms, where P = "\<lambda>s fired r.
      firedKey ` set (fst r) \<subseteq> firedKey ` set fired \<union> pending now s"]) auto

section \<open>A budget only interrupts\<close>

lemma runDueLoop_prefix:
  "runDueLoop now (length pre + b) s (pre @ fired) =
   map_prod (\<lambda>x. pre @ x) (\<lambda>x. x) (runDueLoop now b s fired)"
proof (induction now b s fired rule: runDueLoop.induct)
  case (1 now b s fired)
  show ?case
  proof (cases "queue s = [] \<or> \<not> length fired < b \<or> now < keyDue (hd (queue s))")
    case True
    then show ?thesis by (simp add: runDueLoop_stops)
  next
    case False
    then obtain key rest where q: "queue s = key # rest" by (cases "queue s") auto
    obtain r s' where f: "fireKey key (s\<lparr>queue := rest\<rparr>) = (r, s')" by fastforce
    show ?thesis
      using 1 False q f
      by (subst (1 2) runDueLoop.simps) (auto split: option.splits)
  qed
qed

lemma runDueLoop_more_budget:
  assumes "sched_inv s"
  shows "runDueLoop now (a + b) s fired =
    runDueLoop now (a + b) (snd (runDueLoop now a s fired)) (fst (runDueLoop now a s fired)) \<and>
    (length (fst (runDueLoop now a s fired)) < a \<longrightarrow>
     queue (snd (runDueLoop now a s fired)) = [] \<or>
     now < keyDue (hd (queue (snd (runDueLoop now a s fired)))))"
  using assms
proof (induction "a - length fired" arbitrary: s fired rule: less_induct)
  case less
  show ?case
  proof (cases "queue s = [] \<or> \<not> length fired < a \<or> now < keyDue (hd (queue s))")
    case True
    then show ?thesis by (auto simp: runDueLoop_stops)
  next
    case False
    then obtain key rest where q: "queue s = key # rest" by (cases "queue s") auto
    from False q have due: "\<not> now < keyDue key" and a: "length fired < a" by auto
    obtain t s' where f: "fireKey key (s\<lparr>queue := rest\<rparr>) = (Some (firing t), s')" "sched_inv s'"
      by (rule pending_fireKey [OF less.prems q due]) blast
    have "length fired < a + b" using a by simp
    from less.hyps [of "fired @ [firing t]" s'] a f(2)
      runDueLoop_fires [OF q a due f(1)] runDueLoop_fires [OF q this due f(1)]
    show ?thesis by simp
  qed
qed

lemma runDue_split:
  assumes inv: "sched_inv s" and one: "runDue now a s = (f1, s1)"
  shows "runDue now (a + b) s = map_prod (\<lambda>x. f1 @ x) (\<lambda>x. x) (runDue now b s1)"
proof -
  from one have l1: "runDueLoop now a s [] = (f1, s1)" by (simp add: runDue_def)
  note more = runDueLoop_more_budget [OF inv, of now a b "[]", unfolded l1, simplified]
  have len: "length f1 \<le> a" using runDueLoop_budget [OF inv, of "[]" a now] l1 by simp
  show ?thesis
  proof (cases "length f1 < a")
    case True
    with more have "queue s1 = [] \<or> now < keyDue (hd (queue s1))" by simp
    then have "runDueLoop now (a + b) s1 f1 = (f1, s1)" "runDueLoop now b s1 [] = ([], s1)"
      by (auto intro: runDueLoop_stops)
    with more show ?thesis by (simp add: runDue_def)
  next
    case False
    with len have "a = length f1" by simp
    with more runDueLoop_prefix [of now f1 b s1 "[]"] show ?thesis by (simp add: runDue_def)
  qed
qed

section \<open>Snapshot and restore\<close>

text \<open>
  A scheduler that can still hand out an identifier; only these restore, since a saved
  \<open>nextId\<close> of 0 is rejected.
\<close>

definition sched_ok :: "TickScheduler \<Rightarrow> bool" where
  "sched_ok s \<longleftrightarrow> sched_inv s \<and> nextId s \<noteq> 0"

definition restoring :: "(u64, TaskState) omap \<Rightarrow> QueueKey list \<Rightarrow> u64 \<Rightarrow> bool" where
  "restoring m q mx \<longleftrightarrow>
     om_inv m \<and> sorted_wrt (<) q \<and>
     (\<forall>k t. om_find m k = Some t \<longrightarrow> taskId t = k \<and> k \<noteq> 0 \<and> k \<le> mx \<and>
        (repeating (remainingFires t) \<longrightarrow> intervalTicks t \<noteq> 0)) \<and>
     (\<forall>key. key \<in> set q \<longleftrightarrow> (\<exists>t. om_find m (keyId key) = Some t \<and> keyDue key = dueTick t))"

lemma restoring_step:
  assumes "restoring m q mx" and "om_find m (taskId t) = None" and "taskId t \<noteq> 0"
    and "repeating (remainingFires t) \<longrightarrow> intervalTicks t \<noteq> 0"
  shows "restoring (om_put (taskId t) t m) (os_insert (QueueKey (dueTick t) (taskId t)) q)
           (max mx (taskId t))"
  using assms unfolding restoring_def
  by (auto simp: le_max_iff_disj intro: QueueKey.expand)

lemma restoreTasks_sound:
  assumes "restoreTasks ts m q mx = Some (m', q', mx')" and "restoring m q mx"
  shows "restoring m' q' mx'"
  using assms
proof (induction ts arbitrary: m q mx)
  case Nil
  then show ?case by simp
next
  case (Cons t ts)
  from Cons.prems(1) have new: "om_find m (taskId t) = None" and t: "taskId t \<noteq> 0"
      "repeating (remainingFires t) \<longrightarrow> intervalTicks t \<noteq> 0"
    and rest: "restoreTasks ts (om_put (taskId t) t m)
      (os_insert (QueueKey (dueTick t) (taskId t)) q) (max mx (taskId t)) = Some (m', q', mx')"
    by (auto simp: om_emplace_def split: if_splits option.splits)
  show ?case by (rule Cons.IH [OF rest restoring_step [OF Cons.prems(2) new t]])
qed

lemma restoreTasks_complete:
  assumes "om_inv (pre @ post)" and "\<forall>(k, t) \<in> set post. task_ok next k t" and "next \<noteq> 0"
    and "mx < next"
  shows "\<exists>q' mx'. restoreTasks (map snd post) pre q mx = Some (pre @ post, q', mx') \<and> mx' < next"
  using assms
proof (induction post arbitrary: pre q mx)
  case Nil
  then show ?case by simp
next
  case (Cons e post)
  obtain k t where e: "e = (k, t)" by fastforce
  have ok: "task_ok next k t" using Cons.prems e by simp
  then have t: "taskId t = k" "k \<noteq> 0" "k < next" "repeating (remainingFires t) \<longrightarrow> intervalTicks t \<noteq> 0"
    using Cons.prems(3) by (auto simp: task_ok_def)
  have pre: "\<forall>e \<in> set pre. fst e < k" using Cons.prems(1) e by (auto simp: om_inv_def sorted_wrt_append)
  then have new: "om_find pre k = None" by (auto simp: om_find_notin)
  have put: "om_put k t pre = pre @ [(k, t)]" by (rule om_put_append_last [OF pre])
  have "\<exists>q' mx'. restoreTasks (map snd post) (pre @ [(k, t)]) (os_insert (QueueKey (dueTick t) k) q)
      (max mx k) = Some ((pre @ [(k, t)]) @ post, q', mx') \<and> mx' < next"
    by (rule Cons.IH) (use Cons.prems e t in auto)
  then show ?case using t new put e by (simp add: om_emplace_new)
qed

lemma restoring_sched_inv:
  assumes "restoring m q mx" and "mx < next"
  shows "sched_ok \<lparr>nextId = next, tasks = m, queue = q\<rparr>"
proof -
  have "next \<noteq> 0" using assms(2) by auto
  moreover have "k \<le> mx \<Longrightarrow> k < next" for k using assms(2) by simp
  ultimately show ?thesis
    using assms(1) by (auto simp: sched_ok_def sched_inv_def restoring_def task_ok_def)
qed

lemma scheduler_restore_ok:
  assumes "scheduler_restore st = Some s"
  shows "sched_ok s"
proof -
  obtain m q mx where r: "restoreTasks (stTasks st) [] [] 0 = Some (m, q, mx)"
    and s: "s = \<lparr>nextId = stNextId st, tasks = m, queue = q\<rparr>" and lt: "mx < stNextId st"
    using assms by (auto simp: scheduler_restore_def not_le split: if_splits option.splits)
  have "restoring [] [] 0" by (simp add: restoring_def)
  with r have "restoring m q mx" by (rule restoreTasks_sound)
  then show ?thesis unfolding s by (rule restoring_sched_inv [OF _ lt])
qed

lemma scheduler_restore_snapshot:
  assumes "sched_ok s"
  shows "scheduler_restore (scheduler_snapshot s) = Some s"
proof -
  note I = sched_invD [OF assms [unfolded sched_ok_def, THEN conjunct1]]
  have n: "nextId s \<noteq> 0" using assms by (simp add: sched_ok_def)
  have ok: "\<forall>(k, t) \<in> set (tasks s). task_ok (nextId s) k t"
    using I(1,3) by (auto simp: om_find_iff)
  obtain q mx where r: "restoreTasks (map snd (tasks s)) [] [] 0 = Some (tasks s, q, mx)"
    and lt: "mx < nextId s"
    using restoreTasks_complete [of "[]" "tasks s" "nextId s" 0 "[]"] I(1) ok n
    by (auto simp: word_coorder.not_eq_extremum)
  have "restoring [] [] 0" by (simp add: restoring_def)
  with r have "restoring (tasks s) q mx" by (rule restoreTasks_sound)
  then have "q = queue s"
    using I(2,4) by (intro strict_sorted_equal) (auto simp: restoring_def)
  with r lt n show ?thesis by (simp add: scheduler_restore_def scheduler_snapshot_def not_le)
qed

interpretation scheduler_save: snapshotable scheduler_snapshot scheduler_restore sched_ok
  by unfold_locales (auto intro: scheduler_restore_snapshot scheduler_restore_ok)

section \<open>Reachable schedulers\<close>

inductive sched_step :: "TickScheduler \<Rightarrow> TickScheduler \<Rightarrow> bool" where
  step_schedule: "sched_step s (snd (scheduleAt due pl interval n s))"
| step_after: "sched_step s (snd (scheduleAfter now delay pl interval n s))"
| step_cancel: "sched_step s (snd (scheduler_cancel k s))"
| step_run: "sched_step s (snd (runDue now budget s))"
| step_clear: "sched_step s (scheduler_clear s)"
| step_restore: "scheduler_restore st = Some s' \<Longrightarrow> sched_step s s'"

inductive sched_reachable :: "TickScheduler \<Rightarrow> bool" where
  reach_empty: "sched_reachable emptyScheduler"
| reach_step: "sched_reachable s \<Longrightarrow> sched_step s s' \<Longrightarrow> sched_reachable s'"

lemma sched_step_inv: "sched_step s s' \<Longrightarrow> sched_inv s \<Longrightarrow> sched_inv s'"
  by (induction rule: sched_step.induct)
    (auto intro: sched_inv_scheduleAt sched_inv_cancel sched_inv_runDue sched_inv_clear
      dest: scheduler_restore_ok simp: scheduleAfter_def sched_ok_def)

lemma sched_reachable_inv: "sched_reachable s \<Longrightarrow> sched_inv s"
  by (induction rule: sched_reachable.induct) (auto intro: sched_inv_empty sched_step_inv)

section \<open>Properties\<close>

text \<open>Two timers, one repeating every 3 ticks from tick 2, one at tick 5.\<close>

definition exampleScheduler :: TickScheduler where
  "exampleScheduler = snd (scheduleAt 5 70 0 1 (snd (scheduleAt 2 60 3 0 emptyScheduler)))"

lemma exampleScheduler_inv: "sched_inv exampleScheduler"
  by (simp add: exampleScheduler_def sched_inv_scheduleAt sched_inv_empty)

lemma exampleScheduler_run: "length (fst (runDue 6 100 exampleScheduler)) = 3"
  by code_simp



text \<open>
  C22: a budget only interrupts \<open>runDue\<close>: running with budget \<open>a\<close> and then again with
  budget \<open>b\<close> at the same tick fires the same tasks in the same order, and leaves the same
  scheduler, as one run with budget \<open>a + b\<close>.
\<close>

theorem runDue_budget_only_interrupts:
  assumes "sched_inv s" and "runDue now a s = (f1, s1)" and "runDue now b s1 = (f2, s2)"
  shows "runDue now (a + b) s = (f1 @ f2, s2)"
  using runDue_split [OF assms(1,2), of b] assms(3) by simp

theorem runDue_budget_only_interrupts_witness:
  "runDue 6 (1 + 2) exampleScheduler =
     (fst (runDue 6 1 exampleScheduler) @ fst (runDue 6 2 (snd (runDue 6 1 exampleScheduler))),
      snd (runDue 6 2 (snd (runDue 6 1 exampleScheduler))))"
  by (rule runDue_budget_only_interrupts [OF exampleScheduler_inv prod.collapse [symmetric]
        prod.collapse [symmetric]])

text \<open>
  A timer that was cancelled does not fire in any later \<open>runDue\<close>, whatever the tick and
  the budget.
\<close>

theorem cancelled_timer_never_fires:
  assumes "sched_inv s" and "scheduler_cancel k s = (True, s')"
    and "runDue now budget s' = (fired, s'')"
  shows "k \<notin> firedId ` set fired"
proof
  assume "k \<in> firedId ` set fired"
  then obtain tick where "(tick, k) \<in> firedKey ` set fired" by (auto simp: firedKey_def image_iff)
  moreover have inv: "sched_inv s'" using sched_inv_cancel [OF assms(1), of k] assms(2) by simp
  ultimately have "(tick, k) \<in> pending now s'"
    using runDueLoop_only_pending [OF inv, of now budget "[]"] assms(3) by (auto simp: runDue_def)
  then obtain j t where t: "om_find (tasks s') j = Some t" "taskId t = k"
    by (auto simp: pending_def ran_def occurs_def)
  with sched_invD(3) [OF inv] have "om_find (tasks s') k = Some t" by (auto simp: task_ok_def)
  moreover have "om_find (tasks s') k = None"
    using assms(2) by (auto simp: scheduler_cancel_def split: option.splits)
  ultimately show False by simp
qed

theorem cancelled_timer_never_fires_witness:
  "1 \<notin> firedId ` set (fst (runDue 6 100 (snd (scheduler_cancel 1 exampleScheduler))))"
proof -
  have "fst (scheduler_cancel 1 exampleScheduler)" by code_simp
  then have "scheduler_cancel 1 exampleScheduler = (True, snd (scheduler_cancel 1 exampleScheduler))"
    by (simp add: prod_eq_iff)
  from cancelled_timer_never_fires [OF exampleScheduler_inv this prod.collapse [symmetric]]
  show ?thesis .
qed

text \<open>
  C23: every scheduler reachable from the empty one by scheduling, cancelling, running,
  clearing and restoring is recovered exactly from its snapshot, as long as the identifier
  space is not exhausted.
\<close>

theorem reachable_scheduler_restores:
  assumes "sched_reachable s" and "nextId s \<noteq> 0"
  shows "scheduler_restore (scheduler_snapshot s) = Some s"
  by (rule scheduler_save.restore_snapshot)
    (use assms sched_reachable_inv in \<open>simp add: sched_ok_def\<close>)

theorem reachable_scheduler_restores_witness:
  "scheduler_restore (scheduler_snapshot exampleScheduler) = Some exampleScheduler"
proof (rule reachable_scheduler_restores)
  show "sched_reachable exampleScheduler"
    unfolding exampleScheduler_def
    by (rule reach_step [OF reach_step [OF reach_empty step_schedule] step_schedule])
  show "nextId exampleScheduler \<noteq> 0" by code_simp
qed

end
