(* ===== verification/Gameplay_Value.thy ===== *)
theory Gameplay_Value
  imports Entity_Registry Binary64
begin

text \<open>
  \<open>GameplayValue\<close> and its hash (\<open>include/realscript/game/GameplayPrimitives.h\<close>,
  \<open>src/game/GameplayPrimitives.cpp\<close>). A \<open>double\<close> is its 64-bit pattern; the hash sees
  only \<open>canonicalDoubleBits\<close> of it.
\<close>

section \<open>Values\<close>

datatype GameplayValue =
    GvNone
  | GvBool bool
  | GvInt u32
  | GvLong u64
  | GvDouble f64
  | GvString string
  | GvEntity EntityId

fun gv_index :: "GameplayValue \<Rightarrow> u64" where
  "gv_index GvNone = 0"
| "gv_index (GvBool _) = 1"
| "gv_index (GvInt _) = 2"
| "gv_index (GvLong _) = 3"
| "gv_index (GvDouble _) = 4"
| "gv_index (GvString _) = 5"
| "gv_index (GvEntity _) = 6"

definition stableGameplayValueHash :: "GameplayValue \<Rightarrow> u64" where
  "stableGameplayValueHash value =
     (let hash = hashU64 FnvOffset (gv_index value)
      in case value of
           GvNone \<Rightarrow> hash
         | GvBool b \<Rightarrow> hashByte hash (if b then 1 else 0)
         | GvInt n \<Rightarrow> hashU64 hash (ucast n)
         | GvLong n \<Rightarrow> hashU64 hash n
         | GvDouble x \<Rightarrow> hashU64 hash (canonicalDoubleBits x)
         | GvString s \<Rightarrow> hashString hash s
         | GvEntity e \<Rightarrow> hashU64 hash (entity_packed e))"

end
