(* ===== verification/Event_Queue.thy ===== *)
theory Event_Queue
  imports Gameplay_Value Due_Key "HOL-Library.Multiset"
begin

text \<open>
  \<open>DeterministicEventQueue\<close> of \<open>src/game/GameplayPrimitives.cpp\<close>: events ordered by due tick
  and sequence number, each sequence number used once. The lemmas give the invariant every
  operation keeps, the exact result of \<open>popDue\<close>, and that a queue always restores.
\<close>

section \<open>State and operations\<close>

record GameplayEvent =
  evDueTick :: u64
  evSequence :: u64
  evTarget :: u64
  evTopic :: string
  evArguments :: "GameplayValue list"

record EventQueue =
  eqNextSequence :: u64
  eqEvents :: "(QueueKey, GameplayEvent) omap"

record EventQueueState =
  eqsNextSequence :: u64
  eqsEvents :: "GameplayEvent list"

definition emptyEventQueue :: EventQueue where
  "emptyEventQueue = \<lparr>eqNextSequence = 1, eqEvents = []\<rparr>"

definition eventKey :: "GameplayEvent \<Rightarrow> QueueKey" where
  "eventKey e = QueueKey (evDueTick e) (evSequence e)"

definition hasSequence :: "u64 \<Rightarrow> EventQueue \<Rightarrow> bool" where
  "hasSequence n q \<longleftrightarrow> (\<exists>e \<in> set (eqEvents q). evSequence (snd e) = n)"

text \<open>
  The last part of \<open>enqueue\<close>, shared by both cases of the sequence number; the counter has
  been updated by then, also when \<open>emplace\<close> finds the key taken.
\<close>

definition enqueueKey :: "GameplayEvent \<Rightarrow> EventQueue \<Rightarrow> u64 \<times> EventQueue" where
  "enqueueKey e q =
     (case om_emplace (eventKey e) e (eqEvents q) of
        (_, False) \<Rightarrow> (0, q)
      | (m, True) \<Rightarrow> (evSequence e, q\<lparr>eqEvents := m\<rparr>))"

definition enqueue :: "GameplayEvent \<Rightarrow> EventQueue \<Rightarrow> u64 \<times> EventQueue" where
  "enqueue e q =
     (if evTopic e = '''' \<or> eqNextSequence q = 0 then (0, q)
      else if evSequence e = 0 then
        (if eqNextSequence q = - 1 then (0, q)
         else enqueueKey (e\<lparr>evSequence := eqNextSequence q\<rparr>)
                (q\<lparr>eqNextSequence := eqNextSequence q + 1\<rparr>))
      else if hasSequence (evSequence e) q then (0, q)
      else if eqNextSequence q \<le> evSequence e then
        (if evSequence e = - 1 then (0, q)
         else enqueueKey e (q\<lparr>eqNextSequence := evSequence e + 1\<rparr>))
      else enqueueKey e q)"

text \<open>\<open>std::find_if\<close> and \<open>erase\<close>: the first event with the sequence number goes.\<close>

fun eraseFirst :: "('a \<Rightarrow> bool) \<Rightarrow> 'a list \<Rightarrow> 'a list" where
  "eraseFirst P [] = []"
| "eraseFirst P (x # xs) = (if P x then xs else x # eraseFirst P xs)"

definition eventqueue_cancel :: "u64 \<Rightarrow> EventQueue \<Rightarrow> bool \<times> EventQueue" where
  "eventqueue_cancel n q =
     (if hasSequence n q
      then (True, q\<lparr>eqEvents := eraseFirst (\<lambda>e. evSequence (snd e) = n) (eqEvents q)\<rparr>)
      else (False, q))"

fun popDueLoop ::
    "u64 \<Rightarrow> nat \<Rightarrow> (QueueKey, GameplayEvent) omap \<Rightarrow> GameplayEvent list \<Rightarrow>
     GameplayEvent list \<times> (QueueKey, GameplayEvent) omap" where
  "popDueLoop currentTick budget [] result = (result, [])"
| "popDueLoop currentTick budget ((key, e) # events) result =
     (if \<not> length result < budget then (result, (key, e) # events)
      else if currentTick < keyDue key then (result, (key, e) # events)
      else popDueLoop currentTick budget events (result @ [e]))"

definition popDue :: "u64 \<Rightarrow> nat \<Rightarrow> EventQueue \<Rightarrow> GameplayEvent list \<times> EventQueue" where
  "popDue currentTick budget q =
     (let (result, events) = popDueLoop currentTick budget (eqEvents q) []
      in (result, q\<lparr>eqEvents := events\<rparr>))"

definition eventqueue_clear :: "EventQueue \<Rightarrow> EventQueue" where
  "eventqueue_clear q = q\<lparr>eqEvents := [], eqNextSequence := 1\<rparr>"

definition eventqueue_snapshot :: "EventQueue \<Rightarrow> EventQueueState" where
  "eventqueue_snapshot q = \<lparr>eqsNextSequence = eqNextSequence q, eqsEvents = map snd (eqEvents q)\<rparr>"

fun restoreEvents ::
    "GameplayEvent list \<Rightarrow> (QueueKey, GameplayEvent) omap \<Rightarrow> u64 set \<Rightarrow> u64 \<Rightarrow>
     ((QueueKey, GameplayEvent) omap \<times> u64) option" where
  "restoreEvents [] m sequences maximumSequence = Some (m, maximumSequence)"
| "restoreEvents (e # es) m sequences maximumSequence =
     (if evSequence e = 0 \<or> evTopic e = '''' \<or> evSequence e \<in> sequences then None
      else (case om_emplace (eventKey e) e m of
              (_, False) \<Rightarrow> None
            | (m', True) \<Rightarrow> restoreEvents es m' (insert (evSequence e) sequences)
                             (max maximumSequence (evSequence e))))"

definition eventqueue_restore :: "EventQueueState \<Rightarrow> EventQueue option" where
  "eventqueue_restore st =
     (if eqsNextSequence st = 0 then None
      else (case restoreEvents (eqsEvents st) [] {} 0 of
              None \<Rightarrow> None
            | Some (m, maximumSequence) \<Rightarrow>
                (if eqsNextSequence st \<le> maximumSequence then None
                 else Some \<lparr>eqNextSequence = eqsNextSequence st, eqEvents = m\<rparr>)))"

definition hashEvent :: "u64 \<Rightarrow> GameplayEvent \<Rightarrow> u64" where
  "hashEvent h e =
     foldl (\<lambda>h a. hashU64 h (stableGameplayValueHash a))
       (hashU64 (hashString (hashU64 (hashU64 (hashU64 h (evDueTick e)) (evSequence e)) (evTarget e))
          (evTopic e)) (of_nat (length (evArguments e))))
       (evArguments e)"

definition eventqueue_stableHash :: "EventQueue \<Rightarrow> u64" where
  "eventqueue_stableHash q =
     foldl hashEvent
       (hashU64 (hashU64 FnvOffset (eqNextSequence q)) (of_nat (length (eqEvents q))))
       (map snd (eqEvents q))"

section \<open>The invariant\<close>

definition event_ok :: "u64 \<Rightarrow> QueueKey \<times> GameplayEvent \<Rightarrow> bool" where
  "event_ok next ke \<longleftrightarrow>
     fst ke = eventKey (snd ke) \<and> evTopic (snd ke) \<noteq> '''' \<and>
     evSequence (snd ke) \<noteq> 0 \<and> evSequence (snd ke) < next"

abbreviation sequences_of :: "(QueueKey, GameplayEvent) omap \<Rightarrow> u64 list" where
  "sequences_of m \<equiv> map (\<lambda>ke. evSequence (snd ke)) m"

definition evq_inv :: "EventQueue \<Rightarrow> bool" where
  "evq_inv q \<longleftrightarrow>
     om_inv (eqEvents q) \<and> eqNextSequence q \<noteq> 0 \<and>
     (\<forall>ke \<in> set (eqEvents q). event_ok (eqNextSequence q) ke) \<and>
     distinct (sequences_of (eqEvents q))"

lemma evq_inv_empty: "evq_inv emptyEventQueue"
  by (simp add: evq_inv_def emptyEventQueue_def)

lemma evq_inv_clear [rs_inv_intro]: "evq_inv (eventqueue_clear q)"
  by (simp add: evq_inv_def eventqueue_clear_def)

lemma event_ok_mono: "event_ok n ke \<Longrightarrow> n \<le> n' \<Longrightarrow> event_ok n' ke"
  by (auto simp: event_ok_def)

lemma set_om_put: "om_inv m \<Longrightarrow> set (om_put k v m) = insert (k, v) {e \<in> set m. fst e \<noteq> k}"
  by (rule omap.entries_put)

lemma om_put_new_mset: "om_find m k = None \<Longrightarrow> mset (om_put k v m) = add_mset (k, v) (mset m)"
  by (induction k v m rule: om_put.induct) (auto split: if_splits)

text \<open>An event whose sequence number is not in the queue gets in.\<close>

lemma new_sequence_new_key:
  assumes "\<forall>ke \<in> set m. event_ok n ke" and "evSequence e \<notin> set (sequences_of m)"
  shows "om_find m (eventKey e) = None"
  using assms by (auto simp: om_find_notin event_ok_def eventKey_def)

lemma evq_put:
  assumes inv: "om_inv m" "\<forall>ke \<in> set m. event_ok n ke" "distinct (sequences_of m)"
    and e: "event_ok n (eventKey e, e)" "evSequence e \<notin> set (sequences_of m)"
  shows "om_inv (om_put (eventKey e) e m)"
    and "\<forall>ke \<in> set (om_put (eventKey e) e m). event_ok n ke"
    and "distinct (sequences_of (om_put (eventKey e) e m))"
proof -
  have new: "om_find m (eventKey e) = None" using new_sequence_new_key inv(2) e(2) by blast
  have "mset (sequences_of (om_put (eventKey e) e m)) = add_mset (evSequence e) (mset (sequences_of m))"
    by (simp only: mset_map om_put_new_mset [OF new] image_mset_add_mset snd_conv)
  then have "mset (sequences_of (om_put (eventKey e) e m)) = mset (evSequence e # sequences_of m)"
    by simp
  then show "distinct (sequences_of (om_put (eventKey e) e m))"
    using inv(3) e(2) mset_eq_imp_distinct_iff [of "sequences_of (om_put (eventKey e) e m)"
      "evSequence e # sequences_of m"] by simp
  show "om_inv (om_put (eventKey e) e m)" using inv(1) by simp
  show "\<forall>ke \<in> set (om_put (eventKey e) e m). event_ok n ke"
    using inv(2) e(1) by (auto simp: set_om_put [OF inv(1)])
qed

lemma enqueueKey_new:
  assumes "\<forall>ke \<in> set (eqEvents q). event_ok n ke" and "evSequence e \<notin> set (sequences_of (eqEvents q))"
  shows "enqueueKey e q =
    (evSequence e, q\<lparr>eqEvents := om_put (eventKey e) e (eqEvents q)\<rparr>)"
  using new_sequence_new_key [OF assms] by (simp add: enqueueKey_def om_emplace_new)

lemma hasSequence_conv: "hasSequence n q \<longleftrightarrow> n \<in> set (sequences_of (eqEvents q))"
  by (auto simp: hasSequence_def)

text \<open>
  What \<open>enqueue\<close> does, on every branch: either it refuses and changes nothing, or it stores
  the event under the sequence number it returns, which no event in the queue had.
\<close>

definition assigned :: "GameplayEvent \<Rightarrow> EventQueue \<Rightarrow> GameplayEvent" where
  "assigned e q = (if evSequence e = 0 then e\<lparr>evSequence := eqNextSequence q\<rparr> else e)"

definition refuses :: "GameplayEvent \<Rightarrow> EventQueue \<Rightarrow> bool" where
  "refuses e q \<longleftrightarrow>
     evTopic e = '''' \<or> evSequence (assigned e q) = - 1 \<or>
     evSequence (assigned e q) \<in> set (sequences_of (eqEvents q))"

lemma unused_sequence:
  assumes "\<forall>ke \<in> set (eqEvents q). event_ok n ke" and "n \<le> k"
  shows "k \<notin> set (sequences_of (eqEvents q))"
  using assms by (auto simp: event_ok_def)

lemma enqueue_refused:
  assumes inv: "evq_inv q" and "refuses e q"
  shows "enqueue e q = (0, q)"
proof -
  note I = inv [unfolded evq_inv_def]
  have fresh: "eqNextSequence q \<notin> set (sequences_of (eqEvents q))"
    using unused_sequence [of q "eqNextSequence q"] I by blast
  have "- 1 \<notin> set (sequences_of (eqEvents q))"
    using unused_sequence [of q "eqNextSequence q" "- 1"] I by simp
  then show ?thesis
    using assms(2) I fresh
    by (auto simp: refuses_def assigned_def enqueue_def hasSequence_conv split: if_splits)
qed

lemma enqueue_accepted:
  assumes inv: "evq_inv q" and acc: "\<not> refuses e q"
  shows "enqueue e q =
    (evSequence (assigned e q),
     \<lparr>eqNextSequence = max (eqNextSequence q) (evSequence (assigned e q) + 1),
      eqEvents = om_put (eventKey (assigned e q)) (assigned e q) (eqEvents q)\<rparr>)"
proof -
  note I = inv [unfolded evq_inv_def]
  have ok: "\<forall>ke \<in> set (eqEvents q). event_ok (eqNextSequence q) ke" using I by blast
  have top: "evSequence (assigned e q) \<noteq> - 1" "evTopic e \<noteq> ''''"
    and new: "evSequence (assigned e q) \<notin> set (sequences_of (eqEvents q))"
    using acc by (auto simp: refuses_def)
  then have plus: "evSequence (assigned e q) + 1 \<noteq> 0"
    by (metis add.inverse_inverse eq_neg_iff_add_eq_0)
  show ?thesis
  proof (cases "evSequence e = 0")
    case True
    have "eqNextSequence q < eqNextSequence q + 1"
      using plus True by (intro word_less_plus_one) (simp add: assigned_def)
    with True top new I ok show ?thesis
      by (subst enqueue_def, subst enqueueKey_new) (auto simp: assigned_def max_def)
  next
    case False
    have "eqNextSequence q \<le> evSequence e \<longleftrightarrow> eqNextSequence q < evSequence e + 1"
      using plus False by (simp add: word_less_plus_one_iff assigned_def)
    with False top new I ok show ?thesis
      by (subst enqueue_def, subst (1 2) enqueueKey_new)
        (auto simp: assigned_def max_def hasSequence_conv not_less intro: event_ok_mono)
  qed
qed

lemma evq_inv_enqueue [rs_inv_intro]:
  assumes inv: "evq_inv q"
  shows "evq_inv (snd (enqueue e q))"
proof (cases "refuses e q")
  case True
  with inv show ?thesis by (simp add: enqueue_refused)
next
  case False
  let ?e = "assigned e q"
  let ?n = "max (eqNextSequence q) (evSequence ?e + 1)"
  note I = inv [unfolded evq_inv_def]
  have plus: "evSequence ?e + 1 \<noteq> 0"
    using False by (metis add.inverse_inverse eq_neg_iff_add_eq_0 refuses_def)
  have "evSequence ?e < ?n" using word_less_plus_one [OF plus] by (simp add: less_max_iff_disj)
  moreover have "evSequence ?e \<noteq> 0" "evTopic ?e \<noteq> ''''"
    using False I by (auto simp: assigned_def refuses_def)
  ultimately have e: "event_ok ?n (eventKey ?e, ?e)" by (simp add: event_ok_def)
  have old: "\<forall>ke \<in> set (eqEvents q). event_ok ?n ke"
    using I by (auto intro: event_ok_mono)
  have "evSequence ?e \<notin> set (sequences_of (eqEvents q))" using False by (simp add: refuses_def)
  from evq_put [OF _ old _ e this] I plus show ?thesis
    by (simp add: enqueue_accepted [OF inv False] evq_inv_def max_def)
qed

lemma eraseFirst_distinct:
  "distinct (map f xs) \<Longrightarrow> eraseFirst (\<lambda>x. f x = a) xs = filter (\<lambda>x. f x \<noteq> a) xs"
proof (induction xs)
  case Nil
  then show ?case by simp
next
  case (Cons x xs)
  have "filter (\<lambda>x. f x \<noteq> a) xs = xs" if "f x = a"
    using Cons.prems that by (intro filter_True ballI) (metis distinct.simps(2) image_eqI list.simps(9) set_map)
  with Cons show ?case by simp
qed

lemma cancel_conv:
  assumes "evq_inv q"
  shows "snd (eventqueue_cancel n q) =
    q\<lparr>eqEvents := filter (\<lambda>ke. evSequence (snd ke) \<noteq> n) (eqEvents q)\<rparr>"
proof (cases "hasSequence n q")
  case True
  with assms show ?thesis by (simp add: eventqueue_cancel_def evq_inv_def eraseFirst_distinct)
next
  case False
  then have "filter (\<lambda>ke. evSequence (snd ke) \<noteq> n) (eqEvents q) = eqEvents q"
    by (auto simp: hasSequence_def filter_id_conv)
  with False show ?thesis by (simp add: eventqueue_cancel_def)
qed

lemma om_inv_filter: "om_inv m \<Longrightarrow> om_inv (filter P m)"
  by (induction m) (auto simp: om_inv_Cons)

lemma evq_inv_cancel [rs_inv_intro]: "evq_inv q \<Longrightarrow> evq_inv (snd (eventqueue_cancel n q))"
  by (subst cancel_conv) (auto simp: evq_inv_def om_inv_filter distinct_map_filter)

section \<open>What popDue delivers\<close>

lemma popDueLoop_conv:
  assumes "om_inv m"
  shows "popDueLoop now b m result =
    (let due = takeWhile (\<lambda>ke. keyDue (fst ke) \<le> now) m; k = b - length result
     in (result @ map snd (take k due), drop (min k (length due)) m))"
  using assms
proof (induction now b m result rule: popDueLoop.induct)
  case (1 now b result)
  then show ?case by simp
next
  case (2 now b key e m result)
  show ?case
  proof (cases "length result < b \<and> \<not> now < keyDue key")
    case True
    then obtain k where k: "b - length result = Suc k" by (metis Suc_diff_Suc)
    moreover from k have "b - length (result @ [e]) = k" by simp
    ultimately show ?thesis using True 2 by (simp add: Let_def om_inv_Cons not_less)
  next
    case False
    then show ?thesis by (auto simp: Let_def)
  qed
qed

lemma due_prefix:
  assumes "om_inv m"
  shows "takeWhile (\<lambda>ke. keyDue (fst ke) \<le> now) m = filter (\<lambda>ke. keyDue (fst ke) \<le> now) m"
  using assms
proof (induction m)
  case Nil
  then show ?case by simp
next
  case (Cons ke m)
  obtain k e where ke: "ke = (k, e)" by fastforce
  show ?case
  proof (cases "keyDue k \<le> now")
    case True
    with Cons ke show ?thesis by (simp add: om_inv_Cons)
  next
    case False
    have "\<not> keyDue (fst x) \<le> now" if "x \<in> set m" for x
    proof -
      have "k < fst x" using Cons.prems ke that by (simp add: om_inv_Cons)
      then have "keyDue k \<le> keyDue (fst x)" by (rule QueueKey_less_due)
      with False show ?thesis by simp
    qed
    with False ke show ?thesis by (simp add: filter_empty_conv)
  qed
qed

definition dueEvents :: "u64 \<Rightarrow> EventQueue \<Rightarrow> GameplayEvent list" where
  "dueEvents now q = filter (\<lambda>e. evDueTick e \<le> now) (map snd (eqEvents q))"

lemma dueEvents_conv:
  assumes "evq_inv q"
  shows "dueEvents now q = map snd (filter (\<lambda>ke. keyDue (fst ke) \<le> now) (eqEvents q))"
  using assms
  by (auto simp: dueEvents_def filter_map o_def evq_inv_def event_ok_def eventKey_def
      intro!: arg_cong [where f = "map snd"] filter_cong)

lemma popDue_fst:
  assumes "evq_inv q"
  shows "fst (popDue now b q) = take b (dueEvents now q)"
  using assms popDueLoop_conv [of "eqEvents q" now b "[]"]
  by (simp add: popDue_def dueEvents_conv Let_def due_prefix evq_inv_def take_map split_beta)

lemma popDue_split:
  assumes "evq_inv q"
  shows "map snd (eqEvents q) = fst (popDue now b q) @ map snd (eqEvents (snd (popDue now b q)))"
proof -
  let ?due = "takeWhile (\<lambda>ke. keyDue (fst ke) \<le> now) (eqEvents q)"
  have "take (min b (length ?due)) (eqEvents q) = take b ?due"
    by (subst (2) takeWhile_eq_take) (simp only: take_take)
  then have "eqEvents q = take b ?due @ drop (min b (length ?due)) (eqEvents q)"
    using append_take_drop_id [of "min b (length ?due)" "eqEvents q"] by simp
  then have "map snd (eqEvents q) = map snd (take b ?due) @ map snd (drop (min b (length ?due)) (eqEvents q))"
    by (metis map_append)
  then show ?thesis
    using assms popDueLoop_conv [of "eqEvents q" now b "[]"]
    by (simp add: popDue_def Let_def evq_inv_def split_beta)
qed

lemma evq_inv_drop: "evq_inv q \<Longrightarrow> evq_inv (q\<lparr>eqEvents := drop k (eqEvents q)\<rparr>)"
  by (auto simp: evq_inv_def om_inv_def sorted_wrt_drop drop_map [symmetric] dest: in_set_dropD)

lemma evq_inv_popDue [rs_inv_intro]:
  assumes "evq_inv q"
  shows "evq_inv (snd (popDue now b q))"
proof -
  have "snd (popDue now b q) = q\<lparr>eqEvents := drop (min b (length
      (takeWhile (\<lambda>ke. keyDue (fst ke) \<le> now) (eqEvents q)))) (eqEvents q)\<rparr>"
    using assms popDueLoop_conv [of "eqEvents q" now b "[]"]
    by (simp add: popDue_def Let_def evq_inv_def split_beta)
  with assms evq_inv_drop show ?thesis by simp
qed

section \<open>Snapshot and restore\<close>

text \<open>What the loop of \<open>restore\<close> keeps of the three accumulators.\<close>

definition rebuilding :: "(QueueKey, GameplayEvent) omap \<Rightarrow> u64 set \<Rightarrow> u64 \<Rightarrow> bool" where
  "rebuilding m sequences mx \<longleftrightarrow>
     om_inv m \<and> distinct (sequences_of m) \<and> sequences = set (sequences_of m) \<and>
     (\<forall>ke \<in> set m. fst ke = eventKey (snd ke) \<and> evTopic (snd ke) \<noteq> '''' \<and>
        evSequence (snd ke) \<noteq> 0 \<and> evSequence (snd ke) \<le> mx)"

lemma rebuilding_event_ok:
  "rebuilding m S mx \<Longrightarrow> mx < n \<Longrightarrow> \<forall>ke \<in> set m. event_ok n ke"
  by (auto simp: rebuilding_def event_ok_def)

lemma rebuilding_put:
  assumes reb: "rebuilding m S mx" and new: "om_find m (eventKey e) = None"
    and e: "evSequence e \<notin> S" "evSequence e \<noteq> 0" "evTopic e \<noteq> ''''"
  shows "rebuilding (om_put (eventKey e) e m) (insert (evSequence e) S) (max mx (evSequence e))"
proof -
  have "mset (sequences_of (om_put (eventKey e) e m)) = mset (evSequence e # sequences_of m)"
    by (simp only: mset_map om_put_new_mset [OF new] image_mset_add_mset snd_conv mset.simps list.map)
  then have "distinct (sequences_of (om_put (eventKey e) e m)) = distinct (evSequence e # sequences_of m)"
    by (rule mset_eq_imp_distinct_iff)
  moreover have "{ke \<in> set m. fst ke \<noteq> eventKey e} = set m"
    using new by (force simp: om_find_notin image_iff)
  ultimately show ?thesis
    using reb e by (auto simp: rebuilding_def set_om_put le_max_iff_disj)
qed

lemma restoreEvents_sound:
  assumes "restoreEvents es m S mx = Some (m', mx')" and "rebuilding m S mx"
  shows "\<exists>S'. rebuilding m' S' mx'"
  using assms
proof (induction es arbitrary: m S mx)
  case Nil
  then show ?case by auto
next
  case (Cons e es)
  from Cons.prems(1) have new: "om_find m (eventKey e) = None"
    and e: "evSequence e \<notin> S" "evSequence e \<noteq> 0" "evTopic e \<noteq> ''''"
    and rest: "restoreEvents es (om_put (eventKey e) e m) (insert (evSequence e) S)
      (max mx (evSequence e)) = Some (m', mx')"
    by (auto simp: om_emplace_def split: if_splits option.splits)
  show ?case by (rule Cons.IH [OF rest rebuilding_put [OF Cons.prems(2) new e]])
qed

lemma restoreEvents_complete:
  assumes "om_inv (pre @ post)" and "\<forall>ke \<in> set post. event_ok next ke"
    and "distinct (sequences_of (pre @ post))" and "S = set (sequences_of pre)" and "mx < next"
  shows "\<exists>mx'. restoreEvents (map snd post) pre S mx = Some (pre @ post, mx') \<and> mx' < next"
  using assms
proof (induction post arbitrary: pre S mx)
  case Nil
  then show ?case by simp
next
  case (Cons ke post)
  obtain k e where ke: "ke = (k, e)" by fastforce
  have ok: "k = eventKey e" "evTopic e \<noteq> ''''" "evSequence e \<noteq> 0" "evSequence e < next"
    using Cons.prems(2) ke by (auto simp: event_ok_def)
  have less: "\<forall>x \<in> set pre. fst x < eventKey e"
    using Cons.prems(1) ke ok by (auto simp: om_inv_def sorted_wrt_append)
  then have new: "om_find pre (eventKey e) = None" by (auto simp: om_find_notin)
  have "evSequence e \<notin> S" using Cons.prems(3,4) ke by auto
  moreover have "\<exists>mx'. restoreEvents (map snd post) (pre @ [ke]) (insert (evSequence e) S)
      (max mx (evSequence e)) = Some ((pre @ [ke]) @ post, mx') \<and> mx' < next"
    by (rule Cons.IH) (use Cons.prems ke ok in auto)
  ultimately show ?case
    using ke ok new by (simp add: om_emplace_new om_put_append_last [OF less])
qed

lemma eventqueue_restore_inv:
  assumes "eventqueue_restore st = Some q"
  shows "evq_inv q"
proof -
  obtain m mx where r: "restoreEvents (eqsEvents st) [] {} 0 = Some (m, mx)"
    and q: "q = \<lparr>eqNextSequence = eqsNextSequence st, eqEvents = m\<rparr>" and lt: "mx < eqsNextSequence st"
    using assms by (auto simp: eventqueue_restore_def not_le split: if_splits option.splits)
  have "rebuilding [] {} 0" by (simp add: rebuilding_def)
  with r obtain S where S: "rebuilding m S mx" using restoreEvents_sound by blast
  have "eqsNextSequence st \<noteq> 0" using lt by auto
  with S rebuilding_event_ok [OF S lt] show ?thesis
    by (simp add: q evq_inv_def rebuilding_def)
qed

lemma eventqueue_restore_snapshot:
  assumes "evq_inv q"
  shows "eventqueue_restore (eventqueue_snapshot q) = Some q"
proof -
  have "0 < eqNextSequence q" using assms by (simp add: evq_inv_def word_greater_zero_iff)
  then obtain mx where "restoreEvents (map snd (eqEvents q)) [] {} 0 = Some (eqEvents q, mx)"
    "mx < eqNextSequence q"
    using restoreEvents_complete [of "[]" "eqEvents q" "eqNextSequence q" "{}" 0] assms
    by (auto simp: evq_inv_def)
  with assms show ?thesis
    by (simp add: eventqueue_restore_def eventqueue_snapshot_def evq_inv_def not_le)
qed

interpretation event_save: snapshotable eventqueue_snapshot eventqueue_restore evq_inv
  by unfold_locales (auto intro: eventqueue_restore_snapshot eventqueue_restore_inv)

section \<open>Reachable queues\<close>

inductive evq_step :: "EventQueue \<Rightarrow> EventQueue \<Rightarrow> bool" where
  evq_enqueue: "evq_step q (snd (enqueue e q))"
| evq_cancel: "evq_step q (snd (eventqueue_cancel n q))"
| evq_pop: "evq_step q (snd (popDue now budget q))"
| evq_clear: "evq_step q (eventqueue_clear q)"
| evq_restore: "eventqueue_restore st = Some q' \<Longrightarrow> evq_step q q'"

inductive evq_reachable :: "EventQueue \<Rightarrow> bool" where
  evq_reach_empty: "evq_reachable emptyEventQueue"
| evq_reach_step: "evq_reachable q \<Longrightarrow> evq_step q q' \<Longrightarrow> evq_reachable q'"

lemma evq_step_inv: "evq_step q q' \<Longrightarrow> evq_inv q \<Longrightarrow> evq_inv q'"
  by (induction rule: evq_step.induct)
    (auto intro: evq_inv_enqueue evq_inv_cancel evq_inv_popDue evq_inv_clear eventqueue_restore_inv)

lemma evq_reachable_inv: "evq_reachable q \<Longrightarrow> evq_inv q"
  by (induction rule: evq_reachable.induct) (auto intro: evq_inv_empty evq_step_inv)

section \<open>Properties\<close>

definition exampleEvent :: "u64 \<Rightarrow> u64 \<Rightarrow> GameplayEvent" where
  "exampleEvent due n =
     \<lparr>evDueTick = due, evSequence = n, evTarget = 7, evTopic = ''hit'', evArguments = [GvInt 3]\<rparr>"

definition exampleEvents :: EventQueue where
  "exampleEvents = snd (enqueue (exampleEvent 4 0) (snd (enqueue (exampleEvent 9 0)
     (snd (enqueue (exampleEvent 4 10) emptyEventQueue)))))"

lemma exampleEvents_reachable: "evq_reachable exampleEvents"
  unfolding exampleEvents_def
  by (rule evq_reach_step [OF evq_reach_step [OF evq_reach_step [OF evq_reach_empty evq_enqueue]
        evq_enqueue] evq_enqueue])

text \<open>
  C24: in every reachable queue, \<open>popDue\<close> delivers the events that are due, in the queue's
  order of due tick and sequence number and cut at the budget, and removes exactly those.
\<close>

theorem popDue_delivers_due_prefix:
  assumes "evq_reachable q" and "popDue now budget q = (delivered, q')"
  shows "delivered = take budget (dueEvents now q) \<and>
    map snd (eqEvents q) = delivered @ map snd (eqEvents q') \<and>
    sorted_wrt (\<lambda>a b. eventKey a < eventKey b) delivered"
proof -
  note inv = evq_reachable_inv [OF assms(1)]
  have "map eventKey (map snd (eqEvents q)) = map fst (eqEvents q)"
    using inv by (auto simp: evq_inv_def event_ok_def)
  then have "sorted_wrt (\<lambda>a b. eventKey a < eventKey b) (map snd (eqEvents q))"
    using inv by (metis evq_inv_def om_inv_def sorted_wrt_map)
  then show ?thesis
    using popDue_fst [OF inv, of now budget] popDue_split [OF inv, of now budget] assms(2)
    by (simp add: sorted_wrt_append)
qed

theorem popDue_delivers_due_prefix_witness:
  "map evSequence (fst (popDue 5 2 exampleEvents)) = [10, 12] \<and>
   fst (popDue 5 2 exampleEvents) = take 2 (dueEvents 5 exampleEvents)"
proof
  show "map evSequence (fst (popDue 5 2 exampleEvents)) = [10, 12]" by code_simp
  show "fst (popDue 5 2 exampleEvents) = take 2 (dueEvents 5 exampleEvents)"
    using popDue_delivers_due_prefix [OF exampleEvents_reachable prod.collapse [symmetric]] by blast
qed

text \<open>
  Sequence numbers in a reachable queue are never shared: \<open>enqueue\<close> either returns 0
  and leaves the queue as it was, or returns a nonzero sequence number that no queued event
  had, and then exactly that event has been added.
\<close>

theorem enqueue_all_or_nothing:
  assumes "evq_reachable q" and "enqueue e q = (n, q')"
  shows "distinct (sequences_of (eqEvents q')) \<and>
    (if n = 0 then q' = q
     else n \<notin> set (sequences_of (eqEvents q)) \<and>
          set (map snd (eqEvents q')) = insert (e\<lparr>evSequence := n\<rparr>) (set (map snd (eqEvents q))))"
proof -
  note inv = evq_reachable_inv [OF assms(1)]
  have inv': "evq_inv q'" using evq_inv_enqueue [OF inv, of e] assms(2) by simp
  show ?thesis
  proof (cases "refuses e q")
    case True
    with assms inv inv' show ?thesis by (simp add: enqueue_refused evq_inv_def)
  next
    case False
    have e: "assigned e q = e\<lparr>evSequence := n\<rparr>" "evSequence (assigned e q) = n"
      using enqueue_accepted [OF inv False] assms(2) by (auto simp: assigned_def split: if_splits)
    have new: "n \<notin> set (sequences_of (eqEvents q))" using False e by (simp add: refuses_def)
    have nz: "n \<noteq> 0" using e(2) inv by (auto simp: assigned_def evq_inv_def split: if_splits)
    have "om_find (eqEvents q) (eventKey (assigned e q)) = None"
      by (rule new_sequence_new_key) (use inv new e in \<open>auto simp: evq_inv_def\<close>)
    then have "{x \<in> set (eqEvents q). fst x \<noteq> eventKey (assigned e q)} = set (eqEvents q)"
      by (force simp: om_find_notin image_iff)
    then have "set (eqEvents q') =
        insert (eventKey (assigned e q), assigned e q) (set (eqEvents q))"
      using enqueue_accepted [OF inv False] assms(2) inv
      by (auto simp: set_om_put evq_inv_def)
    then have "set (map snd (eqEvents q')) = insert (e\<lparr>evSequence := n\<rparr>) (set (map snd (eqEvents q)))"
      by (simp add: e(1) [symmetric])
    with inv' new nz show ?thesis by (simp add: evq_inv_def)
  qed
qed

theorem enqueue_all_or_nothing_witness:
  "fst (enqueue (exampleEvent 4 10) exampleEvents) = 0 \<and>
   snd (enqueue (exampleEvent 4 10) exampleEvents) = exampleEvents"
proof -
  have zero: "fst (enqueue (exampleEvent 4 10) exampleEvents) = 0" by code_simp
  with enqueue_all_or_nothing [OF exampleEvents_reachable prod.collapse [symmetric],
    of "exampleEvent 4 10"] show ?thesis by simp
qed

end
