(* ===== verification/Gameplay_Runtime.thy ===== *)
theory Gameplay_Runtime
  imports Entity_Registry Fixed_Tick_Clock Random_Stream Tick_Scheduler Event_Queue
begin

text \<open>
  \<open>DeterministicGameplayRuntime\<close> of \<open>src/game/GameplayPrimitives.cpp\<close>: the entity registry,
  the clock, the random stream, the timers and the events as one state with one snapshot,
  one restore and one hash.
\<close>

record GameplayRuntime =
  rtEntities :: EntityRegistry
  rtClock :: FixedTickClock
  rtRandom :: RandomStream
  rtScheduler :: TickScheduler
  rtEvents :: EventQueue

record RuntimeState =
  rsEntities :: EntityRegistry
  rsClock :: FixedTickClock
  rsRandom :: RandomStream
  rsScheduler :: SchedulerState
  rsEvents :: EventQueueState

definition newRuntime :: "u32 \<Rightarrow> u64 \<Rightarrow> u64 \<Rightarrow> GameplayRuntime" where
  "newRuntime rate randomSeed randomSequence =
     \<lparr>rtEntities = emptyRegistry, rtClock = newClock rate,
      rtRandom = reseed randomSeed randomSequence, rtScheduler = emptyScheduler,
      rtEvents = emptyEventQueue\<rparr>"

definition runtime_snapshot :: "GameplayRuntime \<Rightarrow> RuntimeState" where
  "runtime_snapshot r =
     \<lparr>rsEntities = registry_snapshot (rtEntities r), rsClock = clock_snapshot (rtClock r),
      rsRandom = random_snapshot (rtRandom r), rsScheduler = scheduler_snapshot (rtScheduler r),
      rsEvents = eventqueue_snapshot (rtEvents r)\<rparr>"

definition runtime_restore :: "RuntimeState \<Rightarrow> GameplayRuntime option" where
  "runtime_restore st =
     (case registry_restore (rsEntities st) of None \<Rightarrow> None | Some entities \<Rightarrow>
      (case clock_restore (rsClock st) of None \<Rightarrow> None | Some clock \<Rightarrow>
       (case random_restore (rsRandom st) of None \<Rightarrow> None | Some random \<Rightarrow>
        (case scheduler_restore (rsScheduler st) of None \<Rightarrow> None | Some scheduler \<Rightarrow>
         (case eventqueue_restore (rsEvents st) of None \<Rightarrow> None | Some events \<Rightarrow>
           Some \<lparr>rtEntities = entities, rtClock = clock, rtRandom = random,
                 rtScheduler = scheduler, rtEvents = events\<rparr>)))))"

definition runtime_stableHash :: "GameplayRuntime \<Rightarrow> u64" where
  "runtime_stableHash r =
     hashU64 (hashU64 (hashU64 (hashU64 (hashU64 FnvOffset (registry_stableHash (rtEntities r)))
       (clock_stableHash (rtClock r))) (random_stableHash (rtRandom r)))
       (scheduler_stableHash (rtScheduler r))) (eventqueue_stableHash (rtEvents r))"

definition runtime_ok :: "GameplayRuntime \<Rightarrow> bool" where
  "runtime_ok r \<longleftrightarrow>
     reg_wf (rtEntities r) \<and> clock_inv (rtClock r) \<and> random_inv (rtRandom r) \<and>
     sched_ok (rtScheduler r) \<and> evq_inv (rtEvents r)"

lemma runtime_restore_snapshot: "runtime_ok r \<Longrightarrow> runtime_restore (runtime_snapshot r) = Some r"
  by (simp add: runtime_ok_def runtime_restore_def runtime_snapshot_def
      registry_save.restore_snapshot clock_save.restore_snapshot random_save.restore_snapshot
      scheduler_save.restore_snapshot event_save.restore_snapshot
      del: registry_snapshot_id clock_snapshot_id)

lemma runtime_restore_ok: "runtime_restore st = Some r \<Longrightarrow> runtime_ok r"
  by (auto simp: runtime_ok_def runtime_restore_def split: option.splits
      dest: registry_save.restore_inv clock_save.restore_inv random_save.restore_inv
        scheduler_save.restore_inv event_save.restore_inv)

interpretation runtime_save: snapshotable runtime_snapshot runtime_restore runtime_ok
  by unfold_locales (auto intro: runtime_restore_snapshot runtime_restore_ok)

section \<open>Steps of the runtime\<close>

text \<open>The operations the rest of the program performs on the five parts.\<close>

datatype runtime_op =
    CreateEntity
  | DestroyEntity EntityId
  | ClockStep
  | Accumulate f64 u32
  | DrawUInt
  | DrawInt u32 u32
  | ScheduleAt u64 u64 u64 u32
  | CancelTimer u64
  | RunDue u64 nat
  | Enqueue GameplayEvent
  | CancelEvent u64
  | PopDue u64 nat

text \<open>
  An operation without a defined result leaves \<open>None\<close>: \<open>accumulate\<close> where its conversion is
  undefined.
\<close>

definition runtime_step :: "runtime_op \<Rightarrow> GameplayRuntime \<Rightarrow> GameplayRuntime option" where
  "runtime_step op r =
     (case op of
        CreateEntity \<Rightarrow> Some (r\<lparr>rtEntities := snd (registry_create (rtEntities r))\<rparr>)
      | DestroyEntity e \<Rightarrow> Some (r\<lparr>rtEntities := snd (registry_destroy e (rtEntities r))\<rparr>)
      | ClockStep \<Rightarrow> Some (r\<lparr>rtClock := snd (clock_step (rtClock r))\<rparr>)
      | Accumulate e m \<Rightarrow> map_option (\<lambda>(a, c). r\<lparr>rtClock := c\<rparr>) (accumulate e m (rtClock r))
      | DrawUInt \<Rightarrow> Some (r\<lparr>rtRandom := snd (nextUInt (rtRandom r))\<rparr>)
      | DrawInt lo hi \<Rightarrow> map_option (\<lambda>(v, s). r\<lparr>rtRandom := s\<rparr>) (nextInt lo hi (rtRandom r))
      | ScheduleAt due pl interval n \<Rightarrow>
          Some (r\<lparr>rtScheduler := snd (scheduleAt due pl interval n (rtScheduler r))\<rparr>)
      | CancelTimer k \<Rightarrow> Some (r\<lparr>rtScheduler := snd (scheduler_cancel k (rtScheduler r))\<rparr>)
      | RunDue now b \<Rightarrow> Some (r\<lparr>rtScheduler := snd (runDue now b (rtScheduler r))\<rparr>)
      | Enqueue e \<Rightarrow> Some (r\<lparr>rtEvents := snd (enqueue e (rtEvents r))\<rparr>)
      | CancelEvent n \<Rightarrow> Some (r\<lparr>rtEvents := snd (eventqueue_cancel n (rtEvents r))\<rparr>)
      | PopDue now b \<Rightarrow> Some (r\<lparr>rtEvents := snd (popDue now b (rtEvents r))\<rparr>))"

fun runtime_run :: "runtime_op list \<Rightarrow> GameplayRuntime \<Rightarrow> GameplayRuntime option" where
  "runtime_run [] r = Some r"
| "runtime_run (op # ops) r =
     (case runtime_step op r of None \<Rightarrow> None | Some r' \<Rightarrow> runtime_run ops r')"

section \<open>The invariant and rollback\<close>

definition runtime_inv :: "GameplayRuntime \<Rightarrow> bool" where
  "runtime_inv r \<longleftrightarrow>
     reg_inv (rtEntities r) \<and> clock_inv (rtClock r) \<and> random_inv (rtRandom r) \<and>
     sched_inv (rtScheduler r) \<and> evq_inv (rtEvents r)"

lemma runtime_inv_new: "runtime_inv (newRuntime rate seed sequence)"
  by (simp add: runtime_inv_def newRuntime_def reg_inv_empty newClock_inv random_inv_reseed
      sched_inv_empty evq_inv_empty)

lemma runtime_inv_ok: "runtime_inv r \<Longrightarrow> nextId (rtScheduler r) \<noteq> 0 \<Longrightarrow> runtime_ok r"
  by (simp add: runtime_inv_def runtime_ok_def reg_inv_def sched_ok_def)

lemma random_inv_nextInt:
  assumes "random_inv r" and "nextInt lo hi r = Some (v, r')"
  shows "random_inv r'"
proof (cases "sint hi \<le> sint lo")
  case True
  with assms show ?thesis by (simp add: nextInt_def)
next
  case False
  then have "sint lo < sint hi" by simp
  from nextInt_bounded [OF assms(1) this] assms(2) show ?thesis by auto
qed

lemma runtime_inv_step:
  assumes inv: "runtime_inv r" and step: "runtime_step op r = Some r'"
  shows "runtime_inv r'"
proof (cases op)
  case (Accumulate e m)
  with step obtain a c where "accumulate e m (rtClock r) = Some (a, c)" "r' = r\<lparr>rtClock := c\<rparr>"
    by (auto simp: runtime_step_def)
  with inv accumulate_keeps [of "rtClock r" e m a c] show ?thesis by (simp add: runtime_inv_def)
next
  case (DrawInt lo hi)
  with step obtain v s where "nextInt lo hi (rtRandom r) = Some (v, s)" "r' = r\<lparr>rtRandom := s\<rparr>"
    by (auto simp: runtime_step_def)
  with inv random_inv_nextInt show ?thesis by (auto simp: runtime_inv_def)
qed (use inv step in \<open>auto simp: runtime_step_def runtime_inv_def intro: rs_inv_intro
      simp: random_inv_nextUInt\<close>)

lemma runtime_inv_run: "runtime_inv r \<Longrightarrow> runtime_run ops r = Some r' \<Longrightarrow> runtime_inv r'"
  by (induction ops arbitrary: r) (auto split: option.splits dest: runtime_inv_step)

section \<open>Properties\<close>

text \<open>
  C19: rollback: a snapshot taken after any run of operations from a new runtime restores to
  exactly the state it was taken from, so replaying further operations gives the same
  result and the same hash as the original run; the one condition is that the timer
  identifiers are not exhausted.
\<close>

theorem runtime_rollback_replays:
  assumes "runtime_run ops (newRuntime rate seed sequence) = Some r"
    and "nextId (rtScheduler r) \<noteq> 0"
  shows "\<exists>q. runtime_restore (runtime_snapshot r) = Some q \<and>
    runtime_run later q = runtime_run later r \<and> runtime_stableHash q = runtime_stableHash r"
  using runtime_save.restore_snapshot [OF runtime_inv_ok [OF runtime_inv_run [OF runtime_inv_new assms(1)]
      assms(2)]] by blast

definition exampleRuntime :: GameplayRuntime where
  "exampleRuntime = the (runtime_run [CreateEntity, ScheduleAt 5 9 0 1, DrawUInt] (newRuntime 60 1 2))"

theorem runtime_rollback_replays_witness:
  "\<exists>q. runtime_restore (runtime_snapshot exampleRuntime) = Some q \<and>
    runtime_run [RunDue 6 4] q = runtime_run [RunDue 6 4] exampleRuntime \<and>
    runtime_stableHash q = runtime_stableHash exampleRuntime"
proof (rule runtime_rollback_replays)
  show "runtime_run [CreateEntity, ScheduleAt 5 9 0 1, DrawUInt] (newRuntime 60 1 2) =
      Some exampleRuntime"
    by (simp add: exampleRuntime_def runtime_step_def)
  show "nextId (rtScheduler exampleRuntime) \<noteq> 0"
    by (simp add: exampleRuntime_def runtime_step_def newRuntime_def emptyScheduler_def
        scheduleAt_def repeating_def RepeatForever_def Let_def)
qed

text \<open>
  C20: \<open>restore\<close> validates before it installs: whatever state it accepts satisfies the
  invariants of all five parts and is saved and restored unchanged from then on.
\<close>

theorem runtime_restore_validates:
  assumes "runtime_restore st = Some r"
  shows "runtime_ok r \<and> runtime_restore (runtime_snapshot r) = Some r"
  using runtime_save.restore_inv [OF assms] runtime_save.restore_idem [OF assms] by blast

theorem runtime_restore_validates_witness: "runtime_ok (newRuntime 60 1 2)"
proof -
  have "nextId (rtScheduler (newRuntime 60 1 2)) \<noteq> 0"
    by (simp add: newRuntime_def emptyScheduler_def)
  from runtime_restore_snapshot [OF runtime_inv_ok [OF runtime_inv_new this]]
  show ?thesis by (rule runtime_restore_validates [THEN conjunct1])
qed

end
