(* ===== verification/Runtime_Value.thy ===== *)
theory Runtime_Value
  imports RS_Prelude
begin

text \<open>
  The values of the virtual machine and their static types: \<open>Value\<close>, \<open>ObjectRef\<close>,
  \<open>NativeHandle\<close> and \<open>StructStorage\<close> of \<open>include/realscript/runtime/Runtime.h\<close>,
  \<open>PrimitiveType\<close> of \<open>include/realscript/semantic/Semantic.h\<close> and \<open>valueType\<close> of
  \<open>src/runtime/Interpreter.cpp\<close>. A shared pointer to a constant \<open>StructStorage\<close> is the
  pair of its address and its contents, so pointer equality is equality of the pair.
\<close>

section \<open>Static types\<close>

datatype PrimitiveType =
    PtError | PtVoid | PtBool | PtByte | PtSByte | PtShort | PtUShort | PtInt | PtUInt
  | PtLong | PtULong | PtFloat | PtDouble | PtChar | PtString | PtObject | PtStruct | PtEnum
  | PtArray | PtHandle | PtNull

definition isIntegralType :: "PrimitiveType \<Rightarrow> bool" where
  "isIntegralType t \<longleftrightarrow>
     t = PtByte \<or> t = PtSByte \<or> t = PtShort \<or> t = PtUShort \<or> t = PtInt \<or> t = PtUInt \<or>
     t = PtLong \<or> t = PtULong \<or> t = PtChar"

definition isUnsignedIntegralType :: "PrimitiveType \<Rightarrow> bool" where
  "isUnsignedIntegralType t \<longleftrightarrow>
     t = PtByte \<or> t = PtUShort \<or> t = PtUInt \<or> t = PtULong \<or> t = PtChar"

definition isFloatingPointType :: "PrimitiveType \<Rightarrow> bool" where
  "isFloatingPointType t \<longleftrightarrow> t = PtFloat \<or> t = PtDouble"

definition isNumericType :: "PrimitiveType \<Rightarrow> bool" where
  "isNumericType t \<longleftrightarrow> isIntegralType t \<or> isFloatingPointType t"

definition isReferenceType :: "PrimitiveType \<Rightarrow> bool" where
  "isReferenceType t \<longleftrightarrow> t = PtString \<or> t = PtObject \<or> t = PtArray"

definition isExactType :: "PrimitiveType \<Rightarrow> bool" where
  "isExactType t \<longleftrightarrow> t = PtObject \<or> t = PtStruct \<or> t = PtEnum \<or> t = PtArray"

definition primitiveTypeName :: "PrimitiveType \<Rightarrow> string" where
  "primitiveTypeName t =
     (case t of
        PtError \<Rightarrow> ''<error>'' | PtVoid \<Rightarrow> ''void'' | PtBool \<Rightarrow> ''bool'' | PtByte \<Rightarrow> ''byte''
      | PtSByte \<Rightarrow> ''sbyte'' | PtShort \<Rightarrow> ''short'' | PtUShort \<Rightarrow> ''ushort'' | PtInt \<Rightarrow> ''int''
      | PtUInt \<Rightarrow> ''uint'' | PtLong \<Rightarrow> ''long'' | PtULong \<Rightarrow> ''ulong'' | PtFloat \<Rightarrow> ''float''
      | PtDouble \<Rightarrow> ''double'' | PtChar \<Rightarrow> ''char'' | PtString \<Rightarrow> ''string'' | PtObject \<Rightarrow> ''object''
      | PtStruct \<Rightarrow> ''struct'' | PtEnum \<Rightarrow> ''enum'' | PtArray \<Rightarrow> ''array'' | PtHandle \<Rightarrow> ''handle''
      | PtNull \<Rightarrow> ''null'')"

definition resolvePrimitiveType :: "string \<Rightarrow> PrimitiveType" where
  "resolvePrimitiveType name =
     (if name = ''void'' then PtVoid else if name = ''bool'' then PtBool
      else if name = ''byte'' then PtByte else if name = ''sbyte'' then PtSByte
      else if name = ''short'' then PtShort else if name = ''ushort'' then PtUShort
      else if name = ''int'' then PtInt else if name = ''uint'' then PtUInt
      else if name = ''long'' then PtLong else if name = ''ulong'' then PtULong
      else if name = ''float'' then PtFloat else if name = ''double'' then PtDouble
      else if name = ''char'' then PtChar else if name = ''string'' then PtString
      else if name = ''handle'' then PtHandle else PtError)"

text \<open>The names that resolve are those of the types that are written as one keyword.\<close>

lemma resolve_name:
  "resolvePrimitiveType (primitiveTypeName t) =
     (if t \<in> {PtObject, PtStruct, PtEnum, PtArray, PtNull} then PtError else t)"
  by (cases t) (simp_all add: resolvePrimitiveType_def primitiveTypeName_def)

section \<open>References, handles and values\<close>

type_synonym SymbolId = u64

definition InvalidSlot :: u32 where
  "InvalidSlot = 0xffffffff"

lemma unat_InvalidSlot: "unat InvalidSlot = 2 ^ 32 - 1"
  by (simp add: InvalidSlot_def)

datatype ObjectKind = KString | KArray | KRecord

datatype ObjectRef =
  ObjectRef (refSlot: u32) (refGeneration: u32) (refKind: ObjectKind) (refHeapId: u64)

definition ref_valid :: "ObjectRef \<Rightarrow> bool" where
  "ref_valid r \<longleftrightarrow> refSlot r \<noteq> InvalidSlot \<and> refGeneration r \<noteq> 0 \<and> refHeapId r \<noteq> 0"

definition noRef :: ObjectRef where
  "noRef = ObjectRef InvalidSlot 0 KRecord 0"

datatype NativeHandle =
  NativeHandle (nhSlot: u32) (nhGeneration: u32) (nhTypeId: SymbolId) (nhRegistryId: u64)

definition handle_valid :: "NativeHandle \<Rightarrow> bool" where
  "handle_valid h \<longleftrightarrow>
     nhSlot h \<noteq> InvalidSlot \<and> nhGeneration h \<noteq> 0 \<and> nhTypeId h \<noteq> 0 \<and> nhRegistryId h \<noteq> 0"

definition noHandle :: NativeHandle where
  "noHandle = NativeHandle InvalidSlot 0 0 0"

datatype Value =
    VNone | VNullString | VNullObject | VNullArray
  | VBool bool
  | VByte u8 | VSByte u8 | VShort u16 | VUShort u16
  | VInt u64
  | VUInt u32 | VLong u64 | VULong u64
  | VFloat u32 | VDouble u64
  | VChar u16
  | VEnum SymbolId u64
  | VStruct SymbolId "StructStorage option"
  | VString string
  | VRef ObjectRef
  | VHandle NativeHandle
and StructStorage = StructStorage (ssAddress: nat) (ssFields: "Value list")

definition valueType :: "Value \<Rightarrow> PrimitiveType" where
  "valueType value =
     (case value of
        VNone \<Rightarrow> PtNull | VNullString \<Rightarrow> PtString | VNullObject \<Rightarrow> PtObject
      | VNullArray \<Rightarrow> PtArray | VBool _ \<Rightarrow> PtBool | VByte _ \<Rightarrow> PtByte | VSByte _ \<Rightarrow> PtSByte
      | VShort _ \<Rightarrow> PtShort | VUShort _ \<Rightarrow> PtUShort | VInt _ \<Rightarrow> PtInt | VUInt _ \<Rightarrow> PtUInt
      | VLong _ \<Rightarrow> PtLong | VULong _ \<Rightarrow> PtULong | VFloat _ \<Rightarrow> PtFloat | VDouble _ \<Rightarrow> PtDouble
      | VChar _ \<Rightarrow> PtChar | VEnum _ _ \<Rightarrow> PtEnum | VStruct _ _ \<Rightarrow> PtStruct | VString _ \<Rightarrow> PtString
      | VHandle _ \<Rightarrow> PtHandle
      | VRef r \<Rightarrow> (case refKind r of KString \<Rightarrow> PtString | KArray \<Rightarrow> PtArray | KRecord \<Rightarrow> PtObject))"

section \<open>The references inside a value\<close>

text \<open>All references of a value, those in nested structs included, in field order.\<close>

fun value_refs :: "Value \<Rightarrow> ObjectRef list" and values_refs :: "Value list \<Rightarrow> ObjectRef list" where
  "value_refs (VRef r) = [r]"
| "value_refs (VStruct t (Some (StructStorage a fs))) = values_refs fs"
| "value_refs _ = []"
| "values_refs [] = []"
| "values_refs (v # vs) = value_refs v @ values_refs vs"

lemma values_refs_conv: "values_refs vs = concat (map value_refs vs)"
  by (induction vs) auto

lemma set_values_refs: "set (values_refs vs) = (\<Union>v \<in> set vs. set (value_refs v))"
  by (simp add: values_refs_conv)

text \<open>A slot's next generation; 0 is skipped when the counter wraps.\<close>

definition bumpGeneration :: "u32 \<Rightarrow> u32" where
  "bumpGeneration g = (if g + 1 = 0 then 1 else g + 1)"

lemma bumpGeneration_nonzero [simp]: "bumpGeneration g \<noteq> 0"
  by (simp add: bumpGeneration_def)

lemma bumpGeneration_neq [simp]: "bumpGeneration g \<noteq> g"
  by (auto simp: bumpGeneration_def)

section \<open>Errors\<close>

datatype ErrorCode =
    EcNone | EcFunctionNotFound | EcInvalidArguments | EcTypeMismatch | EcDivisionByZero
  | EcIntegerOverflow | EcInstructionBudgetExceeded | EcRecursionLimitExceeded
  | EcExternalFunctionUnresolved | EcDuplicateSymbol | EcInvalidObjectReference
  | EcInvalidNativeHandle | EcNullReference | EcIndexOutOfRange | EcOutOfMemory
  | EcInvalidProgram | EcExecutionTerminated | EcDeterminismViolation | EcReplayMismatch
  | EcScriptException

datatype RuntimeError = RuntimeError (errCode: ErrorCode) (errMessage: string)

end
