(* ===== verification/Managed_Heap.thy ===== *)
theory Managed_Heap
  imports Runtime_Value Ordered_Map
begin

text \<open>
  \<open>ManagedHeap\<close> of \<open>src/runtime/ManagedHeap.cpp\<close>: generational object references, allocation
  against a byte limit, typed array and record accesses with the write barrier, persistent
  roots, and the incremental mark-sweep collector with its work budget. The stacks of the
  code (\<open>freeSlots\<close>, \<open>markStack\<close>) are lists whose head is the back of the vector;
  \<open>size_t\<close> counters are 64-bit words; the two \<open>sizeof\<close> constants of the compiler are part
  of the configuration.
\<close>

section \<open>State\<close>

datatype Payload = PString string | PValues "Value list"

record HeapObject =
  hoKind :: ObjectKind
  hoTypeId :: SymbolId
  hoElementType :: PrimitiveType
  hoElementTypeId :: SymbolId
  hoMarked :: bool
  hoSizeBytes :: u64
  hoPayload :: Payload
  hoReferenceFields :: "nat list"

record HeapSlot =
  slotObject :: "HeapObject option"
  slotGeneration :: u32

datatype GcPhase = GcIdle | GcMark | GcSweep

record GcStatistics =
  objectsAllocated :: u64
  bytesAllocated :: u64
  collectionsStarted :: u64
  collectionsCompleted :: u64
  objectsReclaimed :: u64
  bytesReclaimed :: u64
  markWork :: u64
  sweepWork :: u64
  liveObjects :: u64
  liveBytes :: u64
  peakLiveBytes :: u64

record HeapConfig =
  initialCollectionThresholdBytes :: u64
  maximumHeapBytes :: u64
  sizeofHeapObject :: u64
  sizeofValue :: u64

record ManagedHeap =
  hConfig :: HeapConfig
  hHeapId :: u64
  hSlots :: "HeapSlot list"
  hFreeSlots :: "u32 list"
  hMarkStack :: "ObjectRef list"
  hRoots :: "(u64, Value) omap"
  hNextRootToken :: u64
  hPhase :: GcPhase
  hRequested :: bool
  hResumeSweep :: bool
  hSweepIndex :: nat
  hSweepLimit :: nat
  hThreshold :: u64
  hStats :: GcStatistics

definition zeroStatistics :: GcStatistics where
  "zeroStatistics =
     \<lparr>objectsAllocated = 0, bytesAllocated = 0, collectionsStarted = 0, collectionsCompleted = 0,
      objectsReclaimed = 0, bytesReclaimed = 0, markWork = 0, sweepWork = 0, liveObjects = 0,
      liveBytes = 0, peakLiveBytes = 0\<rparr>"

definition newHeap :: "HeapConfig \<Rightarrow> u64 \<Rightarrow> ManagedHeap" where
  "newHeap config heapId =
     (let initial = (if initialCollectionThresholdBytes config = 0 then 1
                     else initialCollectionThresholdBytes config);
          c1 = config\<lparr>initialCollectionThresholdBytes := initial\<rparr>;
          c2 = (if maximumHeapBytes c1 < initial then c1\<lparr>maximumHeapBytes := initial\<rparr> else c1)
      in \<lparr>hConfig = c2, hHeapId = heapId, hSlots = [], hFreeSlots = [], hMarkStack = [], hRoots = [],
          hNextRootToken = 1, hPhase = GcIdle, hRequested = False, hResumeSweep = False,
          hSweepIndex = 0, hSweepLimit = 0, hThreshold = initial, hStats = zeroStatistics\<rparr>)"

section \<open>The shadow stack\<close>

record FrameRoots =
  frArguments :: "Value list option"
  frLocals :: "Value list option"
  frRegisters :: "Value list option"

type_synonym ShadowStack = "FrameRoots list"

definition pushFrame ::
    "Value list option \<Rightarrow> Value list option \<Rightarrow> Value list option \<Rightarrow> ShadowStack \<Rightarrow> ShadowStack" where
  "pushFrame arguments locals registers st =
     st @ [\<lparr>frArguments = arguments, frLocals = locals, frRegisters = registers\<rparr>]"

definition popFrame :: "ShadowStack \<Rightarrow> ShadowStack" where
  "popFrame st = (if st \<noteq> [] then butlast st else st)"

definition optionValues :: "Value list option \<Rightarrow> Value list" where
  "optionValues values = (case values of None \<Rightarrow> [] | Some vs \<Rightarrow> vs)"

definition visitRoots :: "ShadowStack \<Rightarrow> Value list" where
  "visitRoots st = concat (map (\<lambda>f. optionValues (frArguments f) @ optionValues (frLocals f) @
     optionValues (frRegisters f)) st)"

section \<open>Lookup and allocation\<close>

definition heap_get :: "ObjectRef \<Rightarrow> ManagedHeap \<Rightarrow> HeapObject option" where
  "heap_get r h =
     (if \<not> ref_valid r \<or> refHeapId r \<noteq> hHeapId h \<or> length (hSlots h) \<le> unat (refSlot r) then None
      else (let s = hSlots h ! unat (refSlot r)
            in case slotObject s of
                 None \<Rightarrow> None
               | Some obj \<Rightarrow>
                   (if slotGeneration s \<noteq> refGeneration r \<or> hoKind obj \<noteq> refKind r then None
                    else Some obj)))"

definition isAlive :: "ObjectRef \<Rightarrow> ManagedHeap \<Rightarrow> bool" where
  "isAlive r h \<longleftrightarrow> heap_get r h \<noteq> None"

type_synonym 'a outcome = "RuntimeError + 'a"

definition estimateValueStorage :: "nat \<Rightarrow> ManagedHeap \<Rightarrow> u64" where
  "estimateValueStorage count h =
     (if unat (- 1 :: u64) div unat (sizeofValue (hConfig h)) < count then - 1
      else of_nat count * sizeofValue (hConfig h))"

text \<open>The bookkeeping after an object has been put into its slot.\<close>

definition recordAllocation :: "ObjectRef \<Rightarrow> u64 \<Rightarrow> ManagedHeap \<Rightarrow> ManagedHeap" where
  "recordAllocation r sizeBytes h =
     (let st = hStats h;
          live = liveBytes st + sizeBytes;
          st' = st\<lparr>objectsAllocated := objectsAllocated st + 1,
                   bytesAllocated := bytesAllocated st + sizeBytes,
                   liveObjects := liveObjects st + 1,
                   liveBytes := live,
                   peakLiveBytes := max (peakLiveBytes st) live\<rparr>;
          h1 = h\<lparr>hStats := st', hRequested := (hRequested h \<or> hThreshold h \<le> live)\<rparr>
      in if hPhase h \<noteq> GcIdle then
           (let h2 = h1\<lparr>hMarkStack := r # hMarkStack h1\<rparr>
            in if hPhase h = GcSweep then h2\<lparr>hPhase := GcMark, hResumeSweep := True\<rparr> else h2)
         else h1)"

definition allocate ::
    "ObjectKind \<Rightarrow> SymbolId \<Rightarrow> PrimitiveType \<Rightarrow> SymbolId \<Rightarrow> Payload \<Rightarrow> nat list \<Rightarrow> u64 \<Rightarrow>
     ManagedHeap \<Rightarrow> ObjectRef outcome \<times> ManagedHeap" where
  "allocate kind typeId elementType elementTypeId pl refFields sizeBytes h =
     (let limit = maximumHeapBytes (hConfig h);
          obj = \<lparr>hoKind = kind, hoTypeId = typeId, hoElementType = elementType,
                 hoElementTypeId = elementTypeId, hoMarked = (hPhase h \<noteq> GcIdle),
                 hoSizeBytes = sizeBytes, hoPayload = pl, hoReferenceFields = refFields\<rparr>
      in if sizeBytes = - 1 \<or> limit < sizeBytes \<or> limit - sizeBytes < liveBytes (hStats h)
         then (Inl (RuntimeError EcOutOfMemory
                 ''managed heap allocation exceeds the configured heap limit''),
               h\<lparr>hRequested := True\<rparr>)
         else
           (case hFreeSlots h of
              i # rest \<Rightarrow>
                (let s = hSlots h ! unat i; r = ObjectRef i (slotGeneration s) kind (hHeapId h)
                 in (Inr r, recordAllocation r sizeBytes
                       (h\<lparr>hFreeSlots := rest,
                          hSlots := (hSlots h)[unat i := s\<lparr>slotObject := Some obj\<rparr>]\<rparr>)))
            | [] \<Rightarrow>
                (if unat InvalidSlot \<le> length (hSlots h)
                 then (Inl (RuntimeError EcOutOfMemory
                         ''managed heap exhausted the object handle space''), h)
                 else
                   (let r = ObjectRef (of_nat (length (hSlots h))) 1 kind (hHeapId h)
                    in (Inr r, recordAllocation r sizeBytes
                          (h\<lparr>hSlots := hSlots h @ [\<lparr>slotObject = Some obj, slotGeneration = 1\<rparr>]\<rparr>))))))"

definition allocateString :: "string \<Rightarrow> ManagedHeap \<Rightarrow> ObjectRef outcome \<times> ManagedHeap" where
  "allocateString value h =
     allocate KString 0 PtError 0 (PString value) []
       (sizeofHeapObject (hConfig h) + of_nat (length value)) h"

definition validElement :: "PrimitiveType \<Rightarrow> bool" where
  "validElement t \<longleftrightarrow>
     t = PtError \<or> t = PtBool \<or> isNumericType t \<or> t = PtString \<or> t = PtObject \<or> t = PtStruct \<or>
     t = PtEnum \<or> t = PtArray \<or> t = PtHandle"

definition allocateTypedArray ::
    "SymbolId \<Rightarrow> PrimitiveType \<Rightarrow> SymbolId \<Rightarrow> nat \<Rightarrow> Value \<Rightarrow> ManagedHeap \<Rightarrow>
     ObjectRef outcome \<times> ManagedHeap" where
  "allocateTypedArray arrayTypeId elementType elementTypeId len initialValue h =
     (if \<not> validElement elementType \<or>
         (if isExactType elementType then elementTypeId = 0 else elementTypeId \<noteq> 0)
      then (Inl (RuntimeError EcInvalidArguments ''managed array element type metadata is invalid''), h)
      else if elementType \<noteq> PtError \<and> valueType initialValue \<noteq> elementType
      then (Inl (RuntimeError EcTypeMismatch
              ''managed array initial value does not match its element type''), h)
      else (let storage = estimateValueStorage len h
            in if storage = - 1
               then (Inl (RuntimeError EcOutOfMemory ''managed array is too large''), h)
               else allocate KArray arrayTypeId elementType elementTypeId
                      (PValues (replicate len initialValue)) []
                      (sizeofHeapObject (hConfig h) + storage) h))"

definition allocateArray :: "nat \<Rightarrow> Value \<Rightarrow> ManagedHeap \<Rightarrow> ObjectRef outcome \<times> ManagedHeap" where
  "allocateArray len initialValue h =
     (let t = valueType initialValue
      in allocateTypedArray 0 (if t = PtNull then PtError else t) 0 len initialValue h)"

definition allocateRecord :: "nat \<Rightarrow> ManagedHeap \<Rightarrow> ObjectRef outcome \<times> ManagedHeap" where
  "allocateRecord fieldCount h =
     (let storage = estimateValueStorage fieldCount h
      in if storage = - 1
         then (Inl (RuntimeError EcOutOfMemory ''managed record is too large''), h)
         else allocate KRecord 0 PtError 0 (PValues (replicate fieldCount VNone))
                [0..<fieldCount] (sizeofHeapObject (hConfig h) + storage) h)"

definition allocateObject ::
    "SymbolId \<Rightarrow> Value list \<Rightarrow> nat list \<Rightarrow> ManagedHeap \<Rightarrow> ObjectRef outcome \<times> ManagedHeap" where
  "allocateObject typeId vals refFields h =
     (let storage = estimateValueStorage (length vals) h
      in if typeId = 0
         then (Inl (RuntimeError EcInvalidArguments ''managed object type ID must be non-zero''), h)
         else if storage = - 1
         then (Inl (RuntimeError EcOutOfMemory ''managed object is too large''), h)
         else if \<exists>i \<in> set refFields. length vals \<le> i
         then (Inl (RuntimeError EcInvalidArguments
                 ''managed object reference field is out of range''), h)
         else allocate KRecord typeId PtError 0 (PValues vals) (remdups_adj (sort refFields))
                (sizeofHeapObject (hConfig h) + storage) h)"

section \<open>Marking\<close>

definition setObject :: "nat \<Rightarrow> HeapObject option \<Rightarrow> ManagedHeap \<Rightarrow> ManagedHeap" where
  "setObject i obj h = h\<lparr>hSlots := (hSlots h)[i := (hSlots h ! i)\<lparr>slotObject := obj\<rparr>]\<rparr>"

definition mark :: "ObjectRef \<Rightarrow> ManagedHeap \<Rightarrow> ManagedHeap" where
  "mark r h =
     (case heap_get r h of
        None \<Rightarrow> h
      | Some obj \<Rightarrow>
          (if hoMarked obj then h
           else (setObject (unat (refSlot r)) (Some (obj\<lparr>hoMarked := True\<rparr>)) h)
                  \<lparr>hMarkStack := r # hMarkStack h\<rparr>))"

text \<open>\<open>markValue\<close> with its set of visited struct storages, which the recursion threads.\<close>

fun markValueIn ::
    "Value \<Rightarrow> StructStorage list \<times> ManagedHeap \<Rightarrow> StructStorage list \<times> ManagedHeap"
and markFieldsIn ::
    "Value list \<Rightarrow> StructStorage list \<times> ManagedHeap \<Rightarrow> StructStorage list \<times> ManagedHeap" where
  "markValueIn (VRef r) vh = (fst vh, mark r (snd vh))"
| "markValueIn (VStruct t (Some (StructStorage a fs))) vh =
     (if StructStorage a fs \<in> set (fst vh) then vh
      else markFieldsIn fs (StructStorage a fs # fst vh, snd vh))"
| "markValueIn _ vh = vh"
| "markFieldsIn [] vh = vh"
| "markFieldsIn (v # vs) vh = markFieldsIn vs (markValueIn v vh)"

definition markValue :: "Value \<Rightarrow> ManagedHeap \<Rightarrow> ManagedHeap" where
  "markValue v h = snd (markValueIn v ([], h))"

fun validRootIn ::
    "ManagedHeap \<Rightarrow> Value \<Rightarrow> StructStorage list \<Rightarrow> bool \<times> StructStorage list"
and validFieldsIn ::
    "ManagedHeap \<Rightarrow> Value list \<Rightarrow> StructStorage list \<Rightarrow> bool \<times> StructStorage list" where
  "validRootIn h (VRef r) seen = (heap_get r h \<noteq> None, seen)"
| "validRootIn h (VStruct t None) seen = (False, seen)"
| "validRootIn h (VStruct t (Some (StructStorage a fs))) seen =
     (if t = 0 then (False, seen)
      else if StructStorage a fs \<in> set seen then (True, seen)
      else validFieldsIn h fs (StructStorage a fs # seen))"
| "validRootIn h _ seen = (True, seen)"
| "validFieldsIn h [] seen = (True, seen)"
| "validFieldsIn h (v # vs) seen =
     (case validRootIn h v seen of
        (False, seen') \<Rightarrow> (False, seen')
      | (True, seen') \<Rightarrow> validFieldsIn h vs seen')"

definition validRootValue :: "ManagedHeap \<Rightarrow> Value \<Rightarrow> bool" where
  "validRootValue h v \<longleftrightarrow> fst (validRootIn h v [])"

text \<open>
  The persistent roots of the code are in a hash map, whose iteration order is unspecified;
  here they are visited in token order. The order only permutes the mark stack.
\<close>

definition markRoots :: "ShadowStack \<Rightarrow> ManagedHeap \<Rightarrow> ManagedHeap" where
  "markRoots shadow h = fold markValue (visitRoots shadow @ map snd (hRoots h)) h"

definition unmarkSlot :: "HeapSlot \<Rightarrow> HeapSlot" where
  "unmarkSlot s = s\<lparr>slotObject := map_option (\<lambda>obj. obj\<lparr>hoMarked := False\<rparr>) (slotObject s)\<rparr>"

definition startCollection :: "ShadowStack \<Rightarrow> ManagedHeap \<Rightarrow> ManagedHeap" where
  "startCollection shadow h =
     markRoots shadow
       (h\<lparr>hSlots := map unmarkSlot (hSlots h), hMarkStack := [], hSweepIndex := 0,
          hSweepLimit := length (hSlots h), hResumeSweep := False, hPhase := GcMark,
          hStats := (hStats h)\<lparr>collectionsStarted := collectionsStarted (hStats h) + 1\<rparr>\<rparr>)"

text \<open>The values an object keeps alive: all elements, or the fields of the reference map.\<close>

definition traced :: "HeapObject \<Rightarrow> Value list" where
  "traced obj =
     (case hoPayload obj of
        PString _ \<Rightarrow> []
      | PValues vs \<Rightarrow>
          (case hoKind obj of
             KString \<Rightarrow> []
           | KArray \<Rightarrow> vs
           | KRecord \<Rightarrow> map (\<lambda>i. vs ! i) (filter (\<lambda>i. i < length vs) (hoReferenceFields obj))))"

definition scan :: "ObjectRef \<Rightarrow> ManagedHeap \<Rightarrow> ManagedHeap" where
  "scan r h = (case heap_get r h of None \<Rightarrow> h | Some obj \<Rightarrow> fold markValue (traced obj) h)"

definition writeBarrier :: "ObjectRef \<Rightarrow> Value \<Rightarrow> ManagedHeap \<Rightarrow> ManagedHeap" where
  "writeBarrier owner value h =
     (if hPhase h = GcIdle then h
      else (case heap_get owner h of
              None \<Rightarrow> h
            | Some obj \<Rightarrow>
                (if \<not> hoMarked obj then h
                 else (let h' = markValue value h
                       in if hPhase h' = GcSweep \<and> hMarkStack h' \<noteq> []
                          then h'\<lparr>hPhase := GcMark, hResumeSweep := True\<rparr> else h'))))"

section \<open>Reading and writing objects\<close>

definition payloadValues :: "HeapObject \<Rightarrow> Value list" where
  "payloadValues obj = (case hoPayload obj of PString _ \<Rightarrow> [] | PValues vs \<Rightarrow> vs)"

definition getKind :: "ObjectKind \<Rightarrow> ObjectRef \<Rightarrow> ManagedHeap \<Rightarrow> HeapObject option" where
  "getKind k r h =
     (case heap_get r h of None \<Rightarrow> None | Some obj \<Rightarrow> if hoKind obj \<noteq> k then None else Some obj)"

definition stringView :: "ObjectRef \<Rightarrow> ManagedHeap \<Rightarrow> string option" where
  "stringView r h =
     map_option (\<lambda>obj. case hoPayload obj of PString s \<Rightarrow> s | PValues _ \<Rightarrow> '''') (getKind KString r h)"

definition arrayLength :: "ObjectRef \<Rightarrow> ManagedHeap \<Rightarrow> nat option" where
  "arrayLength r h = map_option (\<lambda>obj. length (payloadValues obj)) (getKind KArray r h)"

definition arrayTypeId :: "ObjectRef \<Rightarrow> ManagedHeap \<Rightarrow> SymbolId option" where
  "arrayTypeId r h = map_option hoTypeId (getKind KArray r h)"

definition arrayElementType :: "ObjectRef \<Rightarrow> ManagedHeap \<Rightarrow> PrimitiveType option" where
  "arrayElementType r h = map_option hoElementType (getKind KArray r h)"

definition arrayElementTypeId :: "ObjectRef \<Rightarrow> ManagedHeap \<Rightarrow> SymbolId option" where
  "arrayElementTypeId r h = map_option hoElementTypeId (getKind KArray r h)"

definition arrayGet :: "ObjectRef \<Rightarrow> nat \<Rightarrow> ManagedHeap \<Rightarrow> Value option" where
  "arrayGet r i h =
     (case getKind KArray r h of
        None \<Rightarrow> None
      | Some obj \<Rightarrow> if length (payloadValues obj) \<le> i then None else Some (payloadValues obj ! i))"

definition objectTypeId :: "ObjectRef \<Rightarrow> ManagedHeap \<Rightarrow> SymbolId option" where
  "objectTypeId r h =
     (case getKind KRecord r h of
        None \<Rightarrow> None | Some obj \<Rightarrow> if hoTypeId obj = 0 then None else Some (hoTypeId obj))"

definition fieldCount :: "ObjectRef \<Rightarrow> ManagedHeap \<Rightarrow> nat option" where
  "fieldCount r h = map_option (\<lambda>obj. length (payloadValues obj)) (getKind KRecord r h)"

definition fieldGet :: "ObjectRef \<Rightarrow> nat \<Rightarrow> ManagedHeap \<Rightarrow> Value option" where
  "fieldGet r i h =
     (case getKind KRecord r h of
        None \<Rightarrow> None
      | Some obj \<Rightarrow> if length (payloadValues obj) \<le> i then None else Some (payloadValues obj ! i))"

datatype ArrayStoreTypePolicy = StoreExact | StorePrevalidated

text \<open>The type checks of \<open>arraySet\<close>; \<open>None\<close> is success, \<open>Some\<close> the message of the mismatch.\<close>

definition arrayStoreError ::
    "HeapObject \<Rightarrow> Value \<Rightarrow> ArrayStoreTypePolicy \<Rightarrow> ManagedHeap \<Rightarrow> string option" where
  "arrayStoreError obj value policy h =
     (let expected = hoElementType obj
      in if expected \<noteq> PtError \<and> valueType value \<noteq> expected
         then Some ''managed array element type mismatch''
         else if expected = PtObject \<and> value \<noteq> VNullObject then
           (case (case value of VRef child \<Rightarrow> objectTypeId child h | _ \<Rightarrow> None) of
              None \<Rightarrow> Some ''managed array object element type mismatch''
            | Some actual \<Rightarrow>
                (if policy = StoreExact \<and> actual \<noteq> hoElementTypeId obj
                 then Some ''managed array object element type mismatch'' else None))
         else if expected = PtArray \<and> value \<noteq> VNullArray then
           (case (case value of VRef child \<Rightarrow> arrayTypeId child h | _ \<Rightarrow> None) of
              None \<Rightarrow> Some ''managed array nested array type mismatch''
            | Some actual \<Rightarrow>
                (if actual \<noteq> hoElementTypeId obj
                 then Some ''managed array nested array type mismatch'' else None))
         else if expected = PtStruct then
           (case value of
              VStruct t (Some _) \<Rightarrow>
                (if t \<noteq> hoElementTypeId obj
                 then Some ''managed array struct element type mismatch'' else None)
            | _ \<Rightarrow> Some ''managed array struct element type mismatch'')
         else if expected = PtEnum then
           (case value of
              VEnum t _ \<Rightarrow>
                (if t \<noteq> hoElementTypeId obj
                 then Some ''managed array enum element type mismatch'' else None)
            | _ \<Rightarrow> Some ''managed array enum element type mismatch'')
         else if expected = PtHandle then
           (case value of
              VHandle nh \<Rightarrow>
                (if hoElementTypeId obj \<noteq> 0 \<and> nhTypeId nh \<noteq> hoElementTypeId obj
                 then Some ''managed array native handle type mismatch'' else None)
            | _ \<Rightarrow> Some ''managed array native handle type mismatch'')
         else None)"

text \<open>
  \<open>values[index] = value\<close> on the object after the barrier, which may have changed its mark bit.
\<close>

definition storeValue :: "ObjectRef \<Rightarrow> nat \<Rightarrow> Value \<Rightarrow> ManagedHeap \<Rightarrow> ManagedHeap" where
  "storeValue r i value h =
     (case heap_get r h of
        None \<Rightarrow> h
      | Some obj \<Rightarrow> setObject (unat (refSlot r))
          (Some (obj\<lparr>hoPayload := PValues ((payloadValues obj)[i := value])\<rparr>)) h)"

definition arraySet ::
    "ObjectRef \<Rightarrow> nat \<Rightarrow> Value \<Rightarrow> ArrayStoreTypePolicy \<Rightarrow> ManagedHeap \<Rightarrow>
     unit outcome \<times> ManagedHeap" where
  "arraySet r i value policy h =
     (case getKind KArray r h of
        None \<Rightarrow> (Inl (RuntimeError EcInvalidObjectReference ''managed array reference is invalid''), h)
      | Some obj \<Rightarrow>
          (if length (payloadValues obj) \<le> i
           then (Inl (RuntimeError EcIndexOutOfRange ''managed array index is out of range''), h)
           else (case arrayStoreError obj value policy h of
                   Some m \<Rightarrow> (Inl (RuntimeError EcTypeMismatch m), h)
                 | None \<Rightarrow> (Inr (), storeValue r i value (writeBarrier r value h)))))"

text \<open>
  \<open>std::binary_search\<close> on the reference fields, with the halving of \<open>std::lower_bound\<close>; it
  answers membership on a sorted vector, which \<open>allocateObject\<close> establishes.
\<close>

function lowerBound :: "nat list \<Rightarrow> nat \<Rightarrow> nat \<Rightarrow> nat \<Rightarrow> nat" where
  "lowerBound xs x first len =
     (if len = 0 then first
      else (let half = len div 2; middle = first + half
            in if xs ! middle < x then lowerBound xs x (middle + 1) (len - half - 1)
               else lowerBound xs x first half))"
  by pat_completeness auto
termination by (relation "measure (\<lambda>(xs, x, first, len). len)") auto

declare lowerBound.simps [simp del]

definition binarySearch :: "nat list \<Rightarrow> nat \<Rightarrow> bool" where
  "binarySearch xs x =
     (let i = lowerBound xs x 0 (length xs) in i < length xs \<and> \<not> x < xs ! i)"

definition fieldSet ::
    "ObjectRef \<Rightarrow> nat \<Rightarrow> Value \<Rightarrow> ManagedHeap \<Rightarrow> unit outcome \<times> ManagedHeap" where
  "fieldSet r i value h =
     (case getKind KRecord r h of
        None \<Rightarrow> (Inl (RuntimeError EcInvalidObjectReference ''managed record reference is invalid''), h)
      | Some obj \<Rightarrow>
          (if length (payloadValues obj) \<le> i
           then (Inl (RuntimeError EcInvalidArguments ''managed field index is out of range''), h)
           else (let h' = (if binarySearch (hoReferenceFields obj) i then writeBarrier r value h else h)
                 in (Inr (), storeValue r i value h'))))"

section \<open>Persistent roots\<close>

definition addPersistentRoot :: "Value \<Rightarrow> ManagedHeap \<Rightarrow> u64 \<times> ManagedHeap" where
  "addPersistentRoot value h =
     (if \<not> validRootValue h value then (0, h)
      else (let token = (if hNextRootToken h = 0 then 1 else hNextRootToken h)
            in (token, h\<lparr>hNextRootToken := token + 1,
                         hRoots := fst (om_emplace token value (hRoots h))\<rparr>)))"

definition updatePersistentRoot :: "u64 \<Rightarrow> Value \<Rightarrow> ManagedHeap \<Rightarrow> bool \<times> ManagedHeap" where
  "updatePersistentRoot token value h =
     (if token = 0 \<or> \<not> validRootValue h value then (False, h)
      else (case om_find (hRoots h) token of
              None \<Rightarrow> (False, h)
            | Some _ \<Rightarrow> (True, h\<lparr>hRoots := om_put token value (hRoots h)\<rparr>)))"

definition removePersistentRoot :: "u64 \<Rightarrow> ManagedHeap \<Rightarrow> bool \<times> ManagedHeap" where
  "removePersistentRoot token h =
     (om_find (hRoots h) token \<noteq> None, h\<lparr>hRoots := om_erase token (hRoots h)\<rparr>)"

text \<open>The \<open>PersistentRoot\<close> guard object: the token it owns, 0 when it owns none, and the value.\<close>

record PersistentRoot =
  prToken :: u64
  prValue :: Value

definition retain :: "Value \<Rightarrow> ManagedHeap \<Rightarrow> PersistentRoot \<times> ManagedHeap" where
  "retain value h =
     (let (token, h') = addPersistentRoot value h in (\<lparr>prToken = token, prValue = value\<rparr>, h'))"

definition root_update :: "PersistentRoot \<Rightarrow> Value \<Rightarrow> ManagedHeap \<Rightarrow> bool \<times> PersistentRoot \<times> ManagedHeap" where
  "root_update p value h =
     (if prToken p = 0 then (False, p, h)
      else (case updatePersistentRoot (prToken p) value h of
              (False, h') \<Rightarrow> (False, p, h')
            | (True, h') \<Rightarrow> (True, p\<lparr>prValue := value\<rparr>, h')))"

definition root_reset :: "PersistentRoot \<Rightarrow> ManagedHeap \<Rightarrow> PersistentRoot \<times> ManagedHeap" where
  "root_reset p h =
     (\<lparr>prToken = 0, prValue = VNone\<rparr>,
      if prToken p \<noteq> 0 then snd (removePersistentRoot (prToken p) h) else h)"

section \<open>The collector\<close>

definition requestCollection :: "ManagedHeap \<Rightarrow> ManagedHeap" where
  "requestCollection h = h\<lparr>hRequested := True\<rparr>"

definition finishCollection :: "ManagedHeap \<Rightarrow> ManagedHeap" where
  "finishCollection h =
     (let live = liveBytes (hStats h);
          doubled = (if (- 1) div 2 < live then maximumHeapBytes (hConfig h) else live * 2)
      in h\<lparr>hPhase := GcIdle, hRequested := False, hResumeSweep := False, hSweepIndex := 0,
           hSweepLimit := 0,
           hStats := (hStats h)\<lparr>collectionsCompleted := collectionsCompleted (hStats h) + 1\<rparr>,
           hThreshold := max (initialCollectionThresholdBytes (hConfig h))
                           (min (maximumHeapBytes (hConfig h)) doubled)\<rparr>)"

definition reclaimSlot :: "nat \<Rightarrow> HeapObject \<Rightarrow> ManagedHeap \<Rightarrow> ManagedHeap" where
  "reclaimSlot i obj h =
     (let s = hSlots h ! i; st = hStats h
      in h\<lparr>hSlots := (hSlots h)[i := \<lparr>slotObject = None,
                                       slotGeneration = bumpGeneration (slotGeneration s)\<rparr>],
           hFreeSlots := of_nat i # hFreeSlots h,
           hStats := st\<lparr>liveObjects := liveObjects st - 1,
                        liveBytes := liveBytes st - hoSizeBytes obj,
                        objectsReclaimed := objectsReclaimed st + 1,
                        bytesReclaimed := bytesReclaimed st + hoSizeBytes obj\<rparr>\<rparr>)"

text \<open>One unit of mark work, on a nonempty mark stack.\<close>

definition markStep :: "ManagedHeap \<Rightarrow> ManagedHeap" where
  "markStep h =
     (let h' = scan (hd (hMarkStack h)) (h\<lparr>hMarkStack := tl (hMarkStack h)\<rparr>)
      in h'\<lparr>hStats := (hStats h')\<lparr>markWork := markWork (hStats h') + 1\<rparr>\<rparr>)"

text \<open>One unit of sweep work, on a sweep index below the limit.\<close>

definition sweepStep :: "ManagedHeap \<Rightarrow> ManagedHeap" where
  "sweepStep h =
     (let i = hSweepIndex h;
          h1 = h\<lparr>hSweepIndex := i + 1\<rparr>;
          h2 = (case slotObject (hSlots h1 ! i) of
                  None \<Rightarrow> h1
                | Some obj \<Rightarrow> if hoMarked obj then h1 else reclaimSlot i obj h1)
      in h2\<lparr>hStats := (hStats h2)\<lparr>sweepWork := sweepWork (hStats h2) + 1\<rparr>\<rparr>)"

definition beginSweep :: "ManagedHeap \<Rightarrow> ManagedHeap" where
  "beginSweep h =
     h\<lparr>hPhase := GcSweep, hSweepIndex := (if hResumeSweep h then hSweepIndex h else 0),
       hResumeSweep := False\<rparr>"

definition resumeMark :: "ManagedHeap \<Rightarrow> ManagedHeap" where
  "resumeMark h =
     (if hPhase h = GcSweep \<and> hMarkStack h \<noteq> [] then h\<lparr>hPhase := GcMark, hResumeSweep := True\<rparr>
      else h)"

text \<open>The work loop of \<open>step\<close>; the counter is the work that is left of the budget.\<close>

function workLoop :: "nat \<Rightarrow> ManagedHeap \<Rightarrow> nat \<times> ManagedHeap" where
  "workLoop left h =
     (if left = 0 then (0, h)
      else (let h1 = resumeMark h
            in case hPhase h1 of
                 GcMark \<Rightarrow>
                   (if hMarkStack h1 = [] then workLoop left (beginSweep h1)
                    else workLoop (left - 1) (markStep h1))
               | GcSweep \<Rightarrow>
                   (if hSweepLimit h1 \<le> hSweepIndex h1 then (left, finishCollection h1)
                    else workLoop (left - 1) (sweepStep h1))
               | GcIdle \<Rightarrow> (left, h1)))"
  by pat_completeness auto
termination
  by (relation "measures [\<lambda>(left, h). left, \<lambda>(left, h). if hPhase h = GcMark then 1 else 0]")
    (auto simp: resumeMark_def beginSweep_def split: if_splits)

declare workLoop.simps [simp del]

definition step :: "ShadowStack \<Rightarrow> nat \<Rightarrow> ManagedHeap \<Rightarrow> nat \<times> ManagedHeap" where
  "step shadow workBudget h =
     (if workBudget = 0 then (0, h)
      else if hPhase h = GcIdle \<and> \<not> hRequested h then (0, h)
      else (let h1 = (if hPhase h = GcIdle then startCollection shadow h else h);
                (left, h2) = workLoop workBudget (markRoots shadow h1)
            in (workBudget - left, h2)))"

text \<open>
  The two loops of \<open>collectFull\<close>. \<open>drainCollection\<close> runs \<open>step\<close> until no collection is in
  progress or requested; its termination is a theorem about the collector, proved by
  counting unmarked objects, the mark stack and the slots still to sweep.
\<close>

definition unmarkedSlot :: "HeapSlot \<Rightarrow> bool" where
  "unmarkedSlot s = (case slotObject s of None \<Rightarrow> False | Some obj \<Rightarrow> \<not> hoMarked obj)"

definition potential :: "ManagedHeap \<Rightarrow> nat" where
  "potential h = 2 * length (filter unmarkedSlot (hSlots h)) + length (hMarkStack h)"

definition remaining :: "ManagedHeap \<Rightarrow> nat" where
  "remaining h =
     potential h + (hSweepLimit h - (if hPhase h = GcMark \<and> \<not> hResumeSweep h then 0 else hSweepIndex h))"

definition drainRank :: "ManagedHeap \<Rightarrow> nat" where
  "drainRank h = (if hPhase h \<noteq> GcIdle then 1 else if hRequested h then 2 else 0)"

lemma filter_unmarked_set:
  assumes "i < length xs"
  shows "length (filter P (xs[i := x])) + (if P (xs ! i) then 1 else 0) =
         length (filter P xs) + (if P x then 1 else 0)"
  using assms by (rule filter_update_length)

lemma mark_potential: "potential (mark r h) \<le> potential h"
proof (cases "heap_get r h")
  case None
  then show ?thesis by (simp add: mark_def)
next
  case (Some obj)
  then have i: "unat (refSlot r) < length (hSlots h)"
    and obj: "slotObject (hSlots h ! unat (refSlot r)) = Some obj"
    by (auto simp: heap_get_def Let_def not_le split: option.splits if_splits)
  show ?thesis
  proof (cases "hoMarked obj")
    case True
    with Some show ?thesis by (simp add: mark_def)
  next
    case False
    let ?s = "(hSlots h ! unat (refSlot r))\<lparr>slotObject := Some (obj\<lparr>hoMarked := True\<rparr>)\<rparr>"
    have "unmarkedSlot (hSlots h ! unat (refSlot r))" "\<not> unmarkedSlot ?s"
      using obj False by (simp_all add: unmarkedSlot_def)
    with filter_update_length [OF i, of unmarkedSlot ?s] Some False show ?thesis
      by (simp add: mark_def potential_def setObject_def)
  qed
qed

lemma mark_fields [simp]:
  "hPhase (mark r h) = hPhase h" "hRequested (mark r h) = hRequested h"
  "hSweepIndex (mark r h) = hSweepIndex h" "hSweepLimit (mark r h) = hSweepLimit h"
  "hResumeSweep (mark r h) = hResumeSweep h" "length (hSlots (mark r h)) = length (hSlots h)"
  by (simp_all add: mark_def setObject_def split: option.split)

definition same_progress :: "ManagedHeap \<Rightarrow> ManagedHeap \<Rightarrow> bool" where
  "same_progress h h' \<longleftrightarrow>
     hPhase h' = hPhase h \<and> hRequested h' = hRequested h \<and> hSweepIndex h' = hSweepIndex h \<and>
     hSweepLimit h' = hSweepLimit h \<and> hResumeSweep h' = hResumeSweep h \<and>
     length (hSlots h') = length (hSlots h) \<and> potential h' \<le> potential h"

lemma same_progress_refl: "same_progress h h"
  by (simp add: same_progress_def)

lemma same_progress_trans: "same_progress h1 h2 \<Longrightarrow> same_progress h2 h3 \<Longrightarrow> same_progress h1 h3"
  by (auto simp: same_progress_def)

lemma markValueIn_progress:
  "same_progress (snd vh) (snd (markValueIn v vh))"
  "same_progress (snd vh) (snd (markFieldsIn vs vh))"
proof (induction v vh and vs vh rule: markValueIn_markFieldsIn.induct)
  case (1 r vh)
  show ?case by (simp add: same_progress_def mark_potential)
next
  case (5 v vs vh)
  then show ?case by (auto intro: same_progress_trans)
qed (auto intro: same_progress_refl)

lemma markValue_progress: "same_progress h (markValue v h)"
  using markValueIn_progress(1) [of "([], h)" v] by (simp add: markValue_def)

lemma fold_progress: "(\<And>x h. same_progress h (f x h)) \<Longrightarrow> same_progress h (fold f xs h)"
  by (induction xs arbitrary: h) (auto intro: same_progress_refl same_progress_trans)

lemma scan_progress: "same_progress h (scan r h)"
  by (cases "heap_get r h") (simp_all add: scan_def same_progress_refl fold_progress markValue_progress)

lemma markRoots_progress: "same_progress h (markRoots shadow h)"
  unfolding markRoots_def by (rule fold_progress) (rule markValue_progress)

lemma progress_remaining: "same_progress h h' \<Longrightarrow> remaining h' \<le> remaining h"
  by (auto simp: same_progress_def remaining_def)

lemma markStep_remaining:
  assumes "hPhase h = GcMark" and "hMarkStack h \<noteq> []"
  shows "hPhase (markStep h) = GcMark \<and> remaining (markStep h) < remaining h"
proof -
  let ?h0 = "h\<lparr>hMarkStack := tl (hMarkStack h)\<rparr>"
  have P: "same_progress ?h0 (scan (hd (hMarkStack h)) ?h0)" by (rule scan_progress)
  have "potential ?h0 < potential h"
    using assms(2) by (cases "hMarkStack h") (simp_all add: potential_def)
  moreover have "potential (markStep h) = potential (scan (hd (hMarkStack h)) ?h0)"
    by (simp add: markStep_def potential_def Let_def)
  ultimately show ?thesis
    using P assms(1) by (simp add: remaining_def same_progress_def markStep_def Let_def)
qed

lemma sweepStep_remaining:
  assumes "hPhase h = GcSweep" and "hSweepIndex h < hSweepLimit h"
  shows "hPhase (sweepStep h) = GcSweep \<and> remaining (sweepStep h) < remaining h"
proof -
  have "potential (reclaimSlot i obj h) \<le> potential h" for i obj h
  proof (cases "i < length (hSlots h)")
    case True
    from filter_update_length [OF this, of unmarkedSlot "\<lparr>slotObject = None,
        slotGeneration = bumpGeneration (slotGeneration (hSlots h ! i))\<rparr>"]
    show ?thesis
      by (simp add: reclaimSlot_def potential_def unmarkedSlot_def Let_def split: if_splits)
  next
    case False
    then show ?thesis by (simp add: reclaimSlot_def potential_def Let_def list_update_beyond)
  qed
  from this [of "hSweepIndex h" _ "h\<lparr>hSweepIndex := hSweepIndex h + 1\<rparr>"]
  have "potential (sweepStep h) \<le> potential h"
    by (auto simp: sweepStep_def Let_def potential_def split: option.split)
  moreover have "hSweepIndex (sweepStep h) = hSweepIndex h + 1" "hSweepLimit (sweepStep h) = hSweepLimit h"
    "hPhase (sweepStep h) = hPhase h"
    by (simp_all add: sweepStep_def Let_def reclaimSlot_def split: option.split)
  ultimately show ?thesis using assms by (simp add: remaining_def)
qed

lemma resumeMark_remaining: "remaining (resumeMark h) = remaining h"
  by (simp add: remaining_def resumeMark_def potential_def)

lemma resumeMark_phase: "hPhase h \<noteq> GcIdle \<Longrightarrow> hPhase (resumeMark h) \<noteq> GcIdle"
  by (simp add: resumeMark_def)

lemma beginSweep_remaining: "hPhase h = GcMark \<Longrightarrow> remaining (beginSweep h) = remaining h"
  by (simp add: remaining_def beginSweep_def potential_def)

text \<open>The five ways a turn of the loop goes.\<close>

lemma workLoop_stop: "workLoop 0 h = (0, h)"
  by (simp add: workLoop.simps)

lemma workLoop_begin:
  "left \<noteq> 0 \<Longrightarrow> hPhase (resumeMark h) = GcMark \<Longrightarrow> hMarkStack (resumeMark h) = [] \<Longrightarrow>
   workLoop left h = workLoop left (beginSweep (resumeMark h))"
  by (subst workLoop.simps) (simp add: Let_def)

lemma workLoop_mark:
  "left \<noteq> 0 \<Longrightarrow> hPhase (resumeMark h) = GcMark \<Longrightarrow> hMarkStack (resumeMark h) \<noteq> [] \<Longrightarrow>
   workLoop left h = workLoop (left - 1) (markStep (resumeMark h))"
  by (subst workLoop.simps) (simp add: Let_def)

lemma workLoop_finish:
  "left \<noteq> 0 \<Longrightarrow> hPhase (resumeMark h) = GcSweep \<Longrightarrow>
   hSweepLimit (resumeMark h) \<le> hSweepIndex (resumeMark h) \<Longrightarrow>
   workLoop left h = (left, finishCollection (resumeMark h))"
  by (subst workLoop.simps) (simp add: Let_def)

lemma workLoop_sweep:
  "left \<noteq> 0 \<Longrightarrow> hPhase (resumeMark h) = GcSweep \<Longrightarrow>
   \<not> hSweepLimit (resumeMark h) \<le> hSweepIndex (resumeMark h) \<Longrightarrow>
   workLoop left h = workLoop (left - 1) (sweepStep (resumeMark h))"
  by (subst workLoop.simps) (simp add: Let_def)

lemma workLoop_progress:
  assumes "hPhase h \<noteq> GcIdle"
  shows "hPhase (snd (workLoop left h)) = GcIdle \<and> \<not> hRequested (snd (workLoop left h)) \<or>
    hPhase (snd (workLoop left h)) \<noteq> GcIdle \<and> remaining (snd (workLoop left h)) + left \<le> remaining h"
  using assms
proof (induction left h rule: workLoop.induct)
  case (1 left h)
  let ?h1 = "resumeMark h"
  show ?case
  proof (cases "left = 0")
    case True
    with 1 show ?thesis by (simp add: workLoop.simps)
  next
    case False
    have h1: "hPhase ?h1 \<noteq> GcIdle" "remaining ?h1 = remaining h"
      using 1(4) resumeMark_phase resumeMark_remaining by auto
    show ?thesis
    proof (cases "hPhase ?h1")
      case GcIdle
      with h1 show ?thesis by simp
    next
      case GcMark
      show ?thesis
      proof (cases "hMarkStack ?h1 = []")
        case True
        have "hPhase (beginSweep ?h1) \<noteq> GcIdle" by (simp add: beginSweep_def)
        with 1(1) [OF False refl GcMark True] beginSweep_remaining [OF GcMark] h1
        show ?thesis by (simp only: workLoop_begin [OF False GcMark True]) simp
      next
        case stack: False
        note M = markStep_remaining [OF GcMark stack]
        from 1(2) [OF False refl GcMark stack] M False h1
        show ?thesis by (simp only: workLoop_mark [OF False GcMark stack]) auto
      qed
    next
      case GcSweep
      show ?thesis
      proof (cases "hSweepLimit ?h1 \<le> hSweepIndex ?h1")
        case True
        show ?thesis
          by (simp only: workLoop_finish [OF False GcSweep True]) (simp add: finishCollection_def Let_def)
      next
        case sweep: False
        then have "hSweepIndex ?h1 < hSweepLimit ?h1" by simp
        note S = sweepStep_remaining [OF GcSweep this]
        from 1(3) [OF False refl GcSweep sweep] S False h1
        show ?thesis by (simp only: workLoop_sweep [OF False GcSweep sweep]) auto
      qed
    qed
  qed
qed

lemma startCollection_phase: "hPhase (startCollection shadow h) = GcMark"
proof -
  let ?h0 = "h\<lparr>hSlots := map unmarkSlot (hSlots h), hMarkStack := [], hSweepIndex := 0,
      hSweepLimit := length (hSlots h), hResumeSweep := False, hPhase := GcMark,
      hStats := (hStats h)\<lparr>collectionsStarted := collectionsStarted (hStats h) + 1\<rparr>\<rparr>"
  have "same_progress ?h0 (startCollection shadow h)"
    unfolding startCollection_def by (rule markRoots_progress)
  then show ?thesis by (simp add: same_progress_def)
qed

lemma step_progress:
  assumes "hPhase h \<noteq> GcIdle \<or> hRequested h" and "0 < budget"
  shows "drainRank (snd (step shadow budget h)) < drainRank h \<or>
    drainRank (snd (step shadow budget h)) = drainRank h \<and>
    remaining (snd (step shadow budget h)) < remaining h"
proof -
  let ?h1 = "if hPhase h = GcIdle then startCollection shadow h else h"
  let ?h2 = "markRoots shadow ?h1"
  have P: "same_progress ?h1 ?h2" by (rule markRoots_progress)
  have ph: "hPhase ?h2 \<noteq> GcIdle" using P startCollection_phase by (simp add: same_progress_def)
  have st: "snd (step shadow budget h) = snd (workLoop budget ?h2)"
    using assms by (auto simp: step_def split_beta Let_def)
  note W = workLoop_progress [OF ph, of budget]
  show ?thesis
  proof (cases "hPhase h = GcIdle")
    case True
    with assms(1) W show ?thesis by (auto simp: st drainRank_def)
  next
    case False
    with W progress_remaining [OF P] assms(2) show ?thesis by (auto simp: st drainRank_def)
  qed
qed

function drainCollection :: "ShadowStack \<Rightarrow> ManagedHeap \<Rightarrow> ManagedHeap" where
  "drainCollection shadow h =
     (if hPhase h \<noteq> GcIdle \<or> hRequested h
      then drainCollection shadow (snd (step shadow (max 64 (length (hSlots h) + 1)) h))
      else h)"
  by pat_completeness auto
termination
proof (relation "measures [\<lambda>(shadow, h). drainRank h, \<lambda>(shadow, h). remaining h]", goal_cases)
  case 1
  show ?case by simp
next
  case (2 shadow h)
  have "0 < max 64 (length (hSlots h) + 1)" by (simp only: less_max_iff_disj) simp
  from step_progress [OF 2 this, of shadow] show ?case
    by (simp only: in_measures prod.case simp_thms)
qed

declare drainCollection.simps [simp del]

definition collectFull :: "ShadowStack \<Rightarrow> ManagedHeap \<Rightarrow> ManagedHeap" where
  "collectFull shadow h =
     drainCollection shadow
       (requestCollection (if hPhase h \<noteq> GcIdle then drainCollection shadow h else h))"

end
