(* ===== verification/Heap_Marking.thy ===== *)
theory Heap_Marking
  imports Managed_Heap
begin

text \<open>
  What marking does to a heap. \<open>erase\<close> forgets the mark bits and the mark stack;
  \<open>marking h R h'\<close> says that \<open>h'\<close> is \<open>h\<close> with exactly the live references of \<open>R\<close> marked in
  addition and pushed on the stack. Every marking function of the collector is shown to be
  such a step, the visited set of struct storages included.
\<close>

section \<open>Lookup\<close>

definition unmarkObject :: "HeapObject \<Rightarrow> HeapObject" where
  "unmarkObject obj = obj\<lparr>hoMarked := False\<rparr>"

definition erase :: "ManagedHeap \<Rightarrow> ManagedHeap" where
  "erase h = h\<lparr>hSlots := map unmarkSlot (hSlots h), hMarkStack := []\<rparr>"

definition contents :: "ManagedHeap \<Rightarrow> ObjectRef \<Rightarrow> HeapObject option" where
  "contents h r = map_option unmarkObject (heap_get r h)"

definition alive_refs :: "ManagedHeap \<Rightarrow> ObjectRef set" where
  "alive_refs h = {r. heap_get r h \<noteq> None}"

definition marks :: "ManagedHeap \<Rightarrow> ObjectRef set" where
  "marks h = {r. \<exists>obj. heap_get r h = Some obj \<and> hoMarked obj}"

definition children :: "HeapObject \<Rightarrow> ObjectRef set" where
  "children obj = set (values_refs (traced obj))"

lemma heap_get_iff:
  "heap_get r h = Some obj \<longleftrightarrow>
     ref_valid r \<and> refHeapId r = hHeapId h \<and> unat (refSlot r) < length (hSlots h) \<and>
     slotObject (hSlots h ! unat (refSlot r)) = Some obj \<and>
     slotGeneration (hSlots h ! unat (refSlot r)) = refGeneration r \<and> hoKind obj = refKind r"
  by (auto simp: heap_get_def Let_def not_le split: option.splits if_splits)

lemma heap_get_same_slot:
  assumes "heap_get r h = Some obj" and "heap_get r' h = Some obj'" and "refSlot r = refSlot r'"
  shows "r = r'"
  using assms by (auto simp: heap_get_iff intro: ObjectRef.expand)

lemma heap_get_erase: "heap_get r (erase h) = map_option unmarkObject (heap_get r h)"
proof (cases "unat (refSlot r) < length (hSlots h)")
  case True
  then show ?thesis
    by (simp add: heap_get_def erase_def unmarkSlot_def unmarkObject_def Let_def split: option.split)
next
  case False
  then show ?thesis by (simp add: heap_get_def erase_def)
qed

lemma contents_erase: "contents h r = heap_get r (erase h)"
  by (simp add: contents_def heap_get_erase)

lemma alive_contents: "r \<in> alive_refs h \<longleftrightarrow> contents h r \<noteq> None"
  by (simp add: alive_refs_def contents_def)

lemma erase_alive: "erase h' = erase h \<Longrightarrow> alive_refs h' = alive_refs h"
  by (auto simp: alive_contents contents_erase)

lemma erase_contents: "erase h' = erase h \<Longrightarrow> contents h' = contents h"
  by (simp add: fun_eq_iff contents_erase)

lemma marks_alive: "marks h \<subseteq> alive_refs h"
  by (auto simp: marks_def alive_refs_def)

lemma traced_unmark [simp]: "traced (unmarkObject obj) = traced obj"
  by (cases "hoPayload obj"; cases "hoKind obj") (simp_all add: traced_def unmarkObject_def)

lemma children_unmark [simp]: "children (unmarkObject obj) = children obj"
  by (simp add: children_def)

lemma erase_fields:
  assumes "erase h' = erase h"
  shows "hPhase h' = hPhase h" and "hHeapId h' = hHeapId h" and "hConfig h' = hConfig h"
    and "hFreeSlots h' = hFreeSlots h" and "hRoots h' = hRoots h" and "hRequested h' = hRequested h"
    and "hResumeSweep h' = hResumeSweep h" and "hSweepIndex h' = hSweepIndex h"
    and "hSweepLimit h' = hSweepLimit h" and "hStats h' = hStats h"
    and "length (hSlots h') = length (hSlots h)"
    and "hNextRootToken h' = hNextRootToken h" and "hThreshold h' = hThreshold h"
proof -
  show "hPhase h' = hPhase h" using arg_cong [OF assms, of hPhase] by (simp add: erase_def)
  show "hHeapId h' = hHeapId h" using arg_cong [OF assms, of hHeapId] by (simp add: erase_def)
  show "hConfig h' = hConfig h" using arg_cong [OF assms, of hConfig] by (simp add: erase_def)
  show "hFreeSlots h' = hFreeSlots h" using arg_cong [OF assms, of hFreeSlots] by (simp add: erase_def)
  show "hRoots h' = hRoots h" using arg_cong [OF assms, of hRoots] by (simp add: erase_def)
  show "hRequested h' = hRequested h" using arg_cong [OF assms, of hRequested] by (simp add: erase_def)
  show "hResumeSweep h' = hResumeSweep h" using arg_cong [OF assms, of hResumeSweep] by (simp add: erase_def)
  show "hSweepIndex h' = hSweepIndex h" using arg_cong [OF assms, of hSweepIndex] by (simp add: erase_def)
  show "hSweepLimit h' = hSweepLimit h" using arg_cong [OF assms, of hSweepLimit] by (simp add: erase_def)
  show "hStats h' = hStats h" using arg_cong [OF assms, of hStats] by (simp add: erase_def)
  show "hNextRootToken h' = hNextRootToken h" using arg_cong [OF assms, of hNextRootToken] by (simp add: erase_def)
  show "hThreshold h' = hThreshold h" using arg_cong [OF assms, of hThreshold] by (simp add: erase_def)
  have "map unmarkSlot (hSlots h') = map unmarkSlot (hSlots h)"
    using arg_cong [OF assms, of hSlots] by (simp add: erase_def)
  then show "length (hSlots h') = length (hSlots h)" by (rule map_eq_imp_length_eq)
qed

section \<open>Marking steps\<close>

definition marking :: "ManagedHeap \<Rightarrow> ObjectRef set \<Rightarrow> ManagedHeap \<Rightarrow> bool" where
  "marking h R h' \<longleftrightarrow>
     erase h' = erase h \<and> marks h' = marks h \<union> (R \<inter> alive_refs h) \<and>
     (\<exists>new. hMarkStack h' = new @ hMarkStack h \<and> distinct new \<and> set new = marks h' - marks h)"

lemma markingD:
  assumes "marking h R h'"
  shows "erase h' = erase h" and "marks h' = marks h \<union> (R \<inter> alive_refs h)"
    and "set (hMarkStack h') = set (hMarkStack h) \<union> (marks h' - marks h)"
proof -
  from assms show "erase h' = erase h" and "marks h' = marks h \<union> (R \<inter> alive_refs h)"
    by (simp_all only: marking_def)
  from assms obtain new where "hMarkStack h' = new @ hMarkStack h" "set new = marks h' - marks h"
    by (auto simp only: marking_def)
  then show "set (hMarkStack h') = set (hMarkStack h) \<union> (marks h' - marks h)" by auto
qed

lemma marking_refl:
  assumes "R \<inter> alive_refs h \<subseteq> marks h"
  shows "marking h R h"
  using assms by (auto simp: marking_def)

lemma marking_trans:
  assumes "marking h R h1" and "marking h1 S h2"
  shows "marking h (R \<union> S) h2"
proof -
  obtain n1 where n1: "hMarkStack h1 = n1 @ hMarkStack h" "distinct n1" "set n1 = marks h1 - marks h"
    using assms(1) by (auto simp: marking_def)
  obtain n2 where n2: "hMarkStack h2 = n2 @ hMarkStack h1" "distinct n2" "set n2 = marks h2 - marks h1"
    using assms(2) by (auto simp: marking_def)
  note D1 = markingD [OF assms(1)] and D2 = markingD [OF assms(2)]
  have alive: "alive_refs h1 = alive_refs h" using D1(1) by (rule erase_alive)
  have m: "marks h2 = marks h \<union> ((R \<union> S) \<inter> alive_refs h)" using D1(2) D2(2) alive by auto
  moreover have "hMarkStack h2 = (n2 @ n1) @ hMarkStack h" using n1 n2 by simp
  moreover have "distinct (n2 @ n1)" "set (n2 @ n1) = marks h2 - marks h"
    using n1 n2 D1(2) D2(2) by auto
  ultimately show ?thesis using D1(1) D2(1) by (simp only: marking_def) blast
qed

lemma marking_fold:
  assumes "\<And>x h. marking h (R x) (f x h)"
  shows "marking h (\<Union>x \<in> set xs. R x) (fold f xs h)"
proof (induction xs arbitrary: h)
  case Nil
  show ?case by (simp add: marking_refl)
next
  case (Cons x xs)
  from marking_trans [OF assms Cons.IH] show ?case by simp
qed

text \<open>Replacing the object of a slot by one that differs in its mark bit only.\<close>

lemma unmarkSlot_set:
  assumes "slotObject s = Some obj"
  shows "unmarkSlot (s\<lparr>slotObject := Some (obj\<lparr>hoMarked := b\<rparr>)\<rparr>) = unmarkSlot s"
  using assms by (simp add: unmarkSlot_def)

lemma marking_mark: "marking h {r} (mark r h)"
proof (cases "heap_get r h")
  case None
  then show ?thesis by (simp add: mark_def alive_refs_def marking_refl)
next
  case (Some obj)
  show ?thesis
  proof (cases "hoMarked obj")
    case True
    with Some have "r \<in> marks h" by (simp add: marks_def)
    then have "marking h {r} h" by (intro marking_refl) blast
    with Some True show ?thesis by (simp add: mark_def)
  next
    case False
    note G = Some [unfolded heap_get_iff]
    let ?i = "unat (refSlot r)"
    let ?o = "obj\<lparr>hoMarked := True\<rparr>"
    have eq: "mark r h = h\<lparr>hSlots := (hSlots h)[?i := (hSlots h ! ?i)\<lparr>slotObject := Some ?o\<rparr>],
        hMarkStack := r # hMarkStack h\<rparr>"
      using Some False by (simp add: mark_def setObject_def)
    have "map unmarkSlot ((hSlots h)[?i := (hSlots h ! ?i)\<lparr>slotObject := Some ?o\<rparr>]) =
        map unmarkSlot (hSlots h)"
    proof -
      have "unmarkSlot ((hSlots h ! ?i)\<lparr>slotObject := Some ?o\<rparr>) = map unmarkSlot (hSlots h) ! ?i"
        using G unmarkSlot_set [of "hSlots h ! ?i" obj True] by simp
      then show ?thesis by (simp only: map_update list_update_id)
    qed
    then have er: "erase (mark r h) = erase h" by (simp add: eq erase_def)
    have get: "heap_get q (mark r h) = (if q = r then Some ?o else heap_get q h)" for q
    proof (cases "refSlot q = refSlot r")
      case True
      show ?thesis
      proof (cases "q = r")
        case True
        with G show ?thesis by (simp add: heap_get_iff eq)
      next
        case False
        then have "heap_get q h = None" using heap_get_same_slot [OF Some _ True [symmetric]]
          by (cases "heap_get q h") auto
        moreover have "heap_get q (mark r h) = None"
        proof (rule ccontr)
          assume "heap_get q (mark r h) \<noteq> None"
          then obtain o' where "heap_get q (mark r h) = Some o'" by blast
          then have "heap_get q h = Some obj" using True G by (auto simp: heap_get_iff eq)
          with \<open>heap_get q h = None\<close> show False by simp
        qed
        ultimately show ?thesis using False by simp
      qed
    next
      case False
      then have "unat (refSlot q) \<noteq> ?i" by (simp add: word_unat_eq_iff)
      then have "heap_get q (mark r h) = heap_get q h"
        by (simp add: heap_get_def eq nth_list_update_neq)
      with False show ?thesis by auto
    qed
    have m: "marks (mark r h) = insert r (marks h)"
      by (auto simp: marks_def get)
    have "r \<in> alive_refs h" "r \<notin> marks h" using Some False by (simp_all add: alive_refs_def marks_def)
    with er m show ?thesis
      by (auto simp: marking_def eq intro!: exI [of _ "[r]"])
  qed
qed

section \<open>The visited set of struct storages\<close>

definition storage_refs :: "StructStorage \<Rightarrow> ObjectRef set" where
  "storage_refs s = set (values_refs (ssFields s))"

text \<open>Every visited storage is still being walked, or all its live references are marked.\<close>

definition settled :: "StructStorage set \<Rightarrow> StructStorage list \<Rightarrow> ManagedHeap \<Rightarrow> bool" where
  "settled path seen h \<longleftrightarrow>
     (\<forall>s \<in> set seen. s \<in> path \<or> storage_refs s \<inter> alive_refs h \<subseteq> marks h)"

lemma settled_mono:
  assumes "settled path seen h" and "marking h R h'"
  shows "settled path seen h'"
  using assms markingD(2) [OF assms(2)] erase_alive [OF markingD(1) [OF assms(2)]]
  unfolding settled_def by blast

lemma markValueIn_marking:
  "settled path (fst vh) (snd vh) \<Longrightarrow> \<forall>s \<in> path. size v < size s \<Longrightarrow>
     marking (snd vh) (set (value_refs v)) (snd (markValueIn v vh)) \<and>
     settled path (fst (markValueIn v vh)) (snd (markValueIn v vh))"
  "settled path (fst vh) (snd vh) \<Longrightarrow> \<forall>s \<in> path. size_list size vs < size s \<Longrightarrow>
     marking (snd vh) (set (values_refs vs)) (snd (markFieldsIn vs vh)) \<and>
     settled path (fst (markFieldsIn vs vh)) (snd (markFieldsIn vs vh))"
proof (induction v vh and vs vh arbitrary: path and path rule: markValueIn_markFieldsIn.induct)
  case (1 r vh)
  have "marking (snd vh) {r} (mark r (snd vh))" by (rule marking_mark)
  with 1(1) show ?case by (auto intro: settled_mono)
next
  case (2 t a fs vh)
  let ?s = "StructStorage a fs"
  show ?case
  proof (cases "?s \<in> set (fst vh)")
    case True
    have "?s \<notin> path" using 2(3) by force
    with True 2(2) have "set (values_refs fs) \<inter> alive_refs (snd vh) \<subseteq> marks (snd vh)"
      by (force simp: settled_def storage_refs_def)
    with True 2(2) show ?thesis by (simp add: marking_refl)
  next
    case False
    have set1: "settled (insert ?s path) (?s # fst vh) (snd vh)"
      using 2(2) by (auto simp: settled_def)
    moreover have "\<forall>s \<in> insert ?s path. size_list size fs < size s"
      using 2(3) by auto
    ultimately have M: "marking (snd vh) (set (values_refs fs)) (snd (markFieldsIn fs (?s # fst vh, snd vh)))"
      and S: "settled (insert ?s path) (fst (markFieldsIn fs (?s # fst vh, snd vh)))
        (snd (markFieldsIn fs (?s # fst vh, snd vh)))"
      using 2(1) [OF False, of "insert ?s path"] by simp_all
    have "storage_refs ?s \<inter> alive_refs (snd (markFieldsIn fs (?s # fst vh, snd vh)))
        \<subseteq> marks (snd (markFieldsIn fs (?s # fst vh, snd vh)))"
      using markingD(2) [OF M] erase_alive [OF markingD(1) [OF M]] by (auto simp: storage_refs_def)
    with S have "settled path (fst (markFieldsIn fs (?s # fst vh, snd vh)))
        (snd (markFieldsIn fs (?s # fst vh, snd vh)))"
      by (auto simp: settled_def)
    with M False show ?thesis by simp
  qed
next
  case (5 v vs vh)
  have "\<forall>s \<in> path. size v < size s" "\<forall>s \<in> path. size_list size vs < size s"
    using 5(4) by auto
  with 5 show ?case by (auto intro: marking_trans)
qed (auto intro: marking_refl)

lemma marking_markValue: "marking h (set (value_refs v)) (markValue v h)"
  using markValueIn_marking(1) [of "{}" "([], h)" v] by (simp add: markValue_def settled_def)

lemma marking_values: "marking h (set (values_refs vs)) (fold markValue vs h)"
  using marking_fold [of "\<lambda>v. set (value_refs v)" markValue, OF marking_markValue]
  by (simp add: set_values_refs)

text \<open>The references the collector starts from.\<close>

definition root_refs :: "ShadowStack \<Rightarrow> ManagedHeap \<Rightarrow> ObjectRef set" where
  "root_refs shadow h = set (values_refs (visitRoots shadow @ map snd (hRoots h)))"

lemma marking_roots: "marking h (root_refs shadow h) (markRoots shadow h)"
  unfolding root_refs_def markRoots_def by (rule marking_values)

lemma marking_scan:
  "heap_get r h = Some obj \<Longrightarrow> marking h (children obj) (scan r h)"
  by (simp add: scan_def children_def marking_values)

end
