(* ===== verification/Heap_Safety.thy ===== *)
theory Heap_Safety
  imports Heap_Marking
begin

text \<open>
  Correctness of the incremental collector. \<open>tri\<close> is the tri-colour invariant: a marked
  object that is not on the mark stack has only marked live children. It is kept by every
  operation of the mutator, the write barrier of \<open>arraySet\<close> and \<open>fieldSet\<close> included, and it
  implies that a sweep frees no object that the current roots reach. A full collection
  leaves exactly the reachable objects.
\<close>

section \<open>Reachability and the tri-colour invariant\<close>

inductive_set reach :: "ManagedHeap \<Rightarrow> ObjectRef set \<Rightarrow> ObjectRef set" for h R where
  reach_root: "r \<in> R \<Longrightarrow> r \<in> alive_refs h \<Longrightarrow> r \<in> reach h R"
| reach_child: "r \<in> reach h R \<Longrightarrow> heap_get r h = Some obj \<Longrightarrow> c \<in> children obj \<Longrightarrow>
    c \<in> alive_refs h \<Longrightarrow> c \<in> reach h R"

definition tri :: "ManagedHeap \<Rightarrow> bool" where
  "tri h \<longleftrightarrow>
     set (hMarkStack h) \<subseteq> marks h \<and>
     (\<forall>r obj. heap_get r h = Some obj \<longrightarrow> r \<in> marks h \<longrightarrow> r \<notin> set (hMarkStack h) \<longrightarrow>
        children obj \<inter> alive_refs h \<subseteq> marks h)"

lemma triD:
  "tri h \<Longrightarrow> heap_get r h = Some obj \<Longrightarrow> r \<in> marks h \<Longrightarrow> r \<notin> set (hMarkStack h) \<Longrightarrow>
   children obj \<inter> alive_refs h \<subseteq> marks h"
  by (simp add: tri_def)

definition gc_ok :: "ManagedHeap \<Rightarrow> bool" where
  "gc_ok h \<longleftrightarrow> (hPhase h \<noteq> GcIdle \<longrightarrow> tri h)"

lemma reach_alive: "reach h R \<subseteq> alive_refs h"
proof
  fix r assume "r \<in> reach h R"
  then show "r \<in> alive_refs h" by induction auto
qed

lemma children_contents:
  "heap_get r h = Some obj \<Longrightarrow> contents h' r = contents h r \<Longrightarrow>
   \<exists>obj'. heap_get r h' = Some obj' \<and> children obj' = children obj"
  by (cases "heap_get r h'") (auto simp: contents_def children_def dest: arg_cong [of _ _ traced])

text \<open>\<open>h'\<close> keeps what \<open>R\<close> reaches and adds nothing.\<close>

definition survives :: "ObjectRef set \<Rightarrow> ManagedHeap \<Rightarrow> ManagedHeap \<Rightarrow> bool" where
  "survives R h h' \<longleftrightarrow>
     (\<forall>r \<in> reach h R. contents h' r = contents h r) \<and>
     (\<forall>r \<in> alive_refs h'. contents h' r = contents h r)"

lemma survives_reach:
  assumes "survives R h h'"
  shows "reach h' R = reach h R"
proof (intro equalityI subsetI)
  fix r assume "r \<in> reach h R"
  then show "r \<in> reach h' R"
  proof induction
    case (reach_root r)
    then have "contents h' r = contents h r"
      using assms reach.reach_root by (auto simp: survives_def)
    with reach_root show ?case by (auto simp: alive_contents intro: reach.reach_root)
  next
    case (reach_child r obj c)
    then have c: "c \<in> reach h R" by (auto intro: reach.reach_child)
    have "contents h' r = contents h r" "contents h' c = contents h c"
      using assms reach_child.hyps(1) c by (auto simp: survives_def)
    with children_contents [OF reach_child.hyps(2)] reach_child show ?case
      by (metis alive_contents reach.reach_child)
  qed
next
  fix r assume "r \<in> reach h' R"
  then show "r \<in> reach h R"
  proof induction
    case (reach_root r)
    then have "contents h' r = contents h r" using assms by (auto simp: survives_def)
    with reach_root show ?case by (auto simp: alive_contents intro: reach.reach_root)
  next
    case (reach_child r obj c)
    have "r \<in> alive_refs h'" using reach_child.hyps(2) by (simp add: alive_refs_def)
    then have "contents h r = contents h' r" "contents h c = contents h' c"
      using assms reach_child.hyps(4) by (auto simp: survives_def)
    with children_contents [OF reach_child.hyps(2)] reach_child show ?case
      by (metis alive_contents reach.reach_child)
  qed
qed

lemma survives_refl: "survives R h h"
  by (simp add: survives_def)

lemma survives_trans:
  assumes "survives R h1 h2" and "survives R h2 h3"
  shows "survives R h1 h3"
  using assms survives_reach [OF assms(1)]
  unfolding survives_def by (metis alive_contents)

lemma survives_same: "contents h' = contents h \<Longrightarrow> survives R h h'"
  by (simp add: survives_def)

lemma survives_erase: "erase h' = erase h \<Longrightarrow> survives R h h'"
  by (rule survives_same) (rule erase_contents)

text \<open>With an empty stack, whatever marked roots reach is marked.\<close>

lemma tri_reach:
  assumes "tri h" and "hMarkStack h = []" and "R \<inter> alive_refs h \<subseteq> marks h"
  shows "reach h R \<subseteq> marks h"
proof
  fix r assume "r \<in> reach h R"
  then show "r \<in> marks h"
  proof induction
    case (reach_root r)
    with assms(3) show ?case by blast
  next
    case (reach_child r obj c)
    with assms(1,2) show ?case by (auto simp: tri_def)
  qed
qed

lemma tri_marking:
  assumes m: "marking h R h'" and t: "tri h"
  shows "tri h'"
proof -
  note D = markingD [OF m]
  have alive: "alive_refs h' = alive_refs h" using D(1) by (rule erase_alive)
  have "children obj \<inter> alive_refs h' \<subseteq> marks h'"
    if "heap_get r h' = Some obj" "r \<in> marks h'" "r \<notin> set (hMarkStack h')" for r obj
  proof -
    have r: "r \<in> marks h" "r \<notin> set (hMarkStack h)" using that D(3) by auto
    then obtain obj' where obj': "heap_get r h = Some obj'" by (auto simp: marks_def)
    have "contents h' r = contents h r" using erase_contents [OF D(1)] by simp
    from children_contents [OF obj' this] that(1) have "children obj = children obj'" by auto
    with triD [OF t obj' r] D(2) alive show ?thesis by auto
  qed
  moreover have "set (hMarkStack h') \<subseteq> marks h'" using D t by (auto simp: tri_def)
  ultimately show ?thesis by (simp only: tri_def) blast
qed

section \<open>The steps of the collector\<close>

lemma heap_get_cong:
  "hSlots h' = hSlots h \<Longrightarrow> hHeapId h' = hHeapId h \<Longrightarrow> heap_get r h' = heap_get r h"
  by (simp add: heap_get_def)

lemma get_views:
  assumes "hSlots h' = hSlots h" and "hHeapId h' = hHeapId h"
  shows "contents h' = contents h" and "alive_refs h' = alive_refs h" and "marks h' = marks h"
  using heap_get_cong [OF assms] by (simp_all add: contents_def alive_refs_def marks_def fun_eq_iff)

lemma tri_cong:
  assumes "hSlots h' = hSlots h" "hHeapId h' = hHeapId h" "hMarkStack h' = hMarkStack h"
  shows "tri h' = tri h"
  using heap_get_cong [OF assms(1,2)] get_views [OF assms(1,2)] assms(3) by (simp add: tri_def)

lemma markStep_ok:
  assumes t: "tri h" and stack: "hMarkStack h \<noteq> []"
  shows "tri (markStep h)" and "contents (markStep h) = contents h" and "marks h \<subseteq> marks (markStep h)"
    and "marks (markStep h) \<subseteq> marks h \<union> (\<Union>r \<in> marks h. \<Union>obj \<in> {obj. heap_get r h = Some obj}. children obj \<inter> alive_refs h)"
proof -
  obtain r rest where s: "hMarkStack h = r # rest" using stack by (cases "hMarkStack h") auto
  then have r: "r \<in> marks h" using t by (auto simp: tri_def)
  then obtain obj where obj: "heap_get r h = Some obj" by (auto simp: marks_def)
  let ?h0 = "h\<lparr>hMarkStack := rest\<rparr>"
  note V0 = get_views [of ?h0 h, simplified]
  have g0: "heap_get q ?h0 = heap_get q h" for q by (rule heap_get_cong) simp_all
  have M: "marking ?h0 (children obj) (scan r ?h0)" using marking_scan [of r ?h0] obj g0 by simp
  note D = markingD [OF M]
  let ?h1 = "scan r ?h0"
  have step: "markStep h = ?h1\<lparr>hStats := (hStats ?h1)\<lparr>markWork := markWork (hStats ?h1) + 1\<rparr>\<rparr>"
    by (simp add: markStep_def s Let_def)
  have V: "contents (markStep h) = contents ?h1" "marks (markStep h) = marks ?h1"
    "tri (markStep h) = tri ?h1"
    unfolding step by (rule get_views tri_cong; simp)+
  have C: "contents ?h1 = contents h" using erase_contents [OF D(1)] V0(1) by simp
  have A: "alive_refs ?h1 = alive_refs h" using erase_alive [OF D(1)] V0(2) by simp
  have Mk: "marks ?h1 = marks h \<union> (children obj \<inter> alive_refs h)" using D(2) V0 by simp
  show "contents (markStep h) = contents h" using V(1) C by simp
  show "marks h \<subseteq> marks (markStep h)" using V(2) Mk by auto
  show "marks (markStep h) \<subseteq> marks h \<union> (\<Union>r \<in> marks h. \<Union>obj \<in> {obj. heap_get r h = Some obj}. children obj \<inter> alive_refs h)"
    using V(2) Mk r obj by auto
  have kids: "children o' \<inter> alive_refs ?h1 \<subseteq> marks ?h1"
    if q: "heap_get q ?h1 = Some o'" "q \<in> marks ?h1" "q \<notin> set (hMarkStack ?h1)" for q o'
  proof (cases "q = r")
    case True
    have "contents ?h1 r = contents h r" using C by simp
    from children_contents [OF obj this] q(1) True have "children o' = children obj" by auto
    with Mk A show ?thesis by auto
  next
    case False
    have "set (hMarkStack ?h1) = set rest \<union> (marks ?h1 - marks h)" using D(3) V0(3) by simp
    with q False s have "q \<in> marks h" "q \<notin> set (hMarkStack h)" by auto
    moreover then obtain o0 where o0: "heap_get q h = Some o0" by (auto simp: marks_def)
    ultimately have "children o0 \<inter> alive_refs h \<subseteq> marks h" using triD [OF t o0] by simp
    moreover have "children o' = children o0"
      using children_contents [OF o0, of ?h1] q(1) C by simp
    ultimately show ?thesis using Mk A by auto
  qed
  have "set (hMarkStack ?h1) \<subseteq> marks ?h1"
    using D(3) V0(3) Mk t s by (auto simp: tri_def)
  with kids show "tri (markStep h)" using V(3) by (simp only: tri_def) blast
qed

text \<open>Reclaiming the unmarked object of a slot.\<close>

lemma heap_get_reclaim:
  assumes i: "i < length (hSlots h)"
  shows "heap_get r (reclaimSlot i obj h) = (if unat (refSlot r) = i then None else heap_get r h)"
  using i by (auto simp: heap_get_def reclaimSlot_def Let_def)

lemma sweepStep_get:
  assumes i: "hSweepIndex h < length (hSlots h)"
  shows "heap_get r (sweepStep h) =
    (if unat (refSlot r) = hSweepIndex h \<and> r \<notin> marks h then None else heap_get r h)"
proof -
  let ?h1 = "h\<lparr>hSweepIndex := hSweepIndex h + 1\<rparr>"
  have g1: "heap_get r ?h1 = heap_get r h" by (rule heap_get_cong) simp_all
  show ?thesis
  proof (cases "slotObject (hSlots h ! hSweepIndex h)")
    case None
    have "heap_get r (sweepStep h) = heap_get r h"
      by (rule heap_get_cong) (simp_all add: sweepStep_def Let_def None)
    moreover have "heap_get r h = None" if "unat (refSlot r) = hSweepIndex h"
      using None that by (simp add: heap_get_def Let_def)
    ultimately show ?thesis by simp
  next
    case (Some obj)
    show ?thesis
    proof (cases "hoMarked obj")
      case True
      have "heap_get r (sweepStep h) = heap_get r h"
        by (rule heap_get_cong) (simp_all add: sweepStep_def Let_def Some True)
      moreover have "heap_get r h = None \<or> r \<in> marks h" if "unat (refSlot r) = hSweepIndex h"
        using Some True that by (auto simp: marks_def heap_get_iff)
      ultimately show ?thesis by auto
    next
      case False
      have "heap_get r (sweepStep h) = heap_get r (reclaimSlot (hSweepIndex h) obj ?h1)"
        by (rule heap_get_cong) (simp_all add: sweepStep_def Let_def Some False)
      also have "\<dots> = (if unat (refSlot r) = hSweepIndex h then None else heap_get r h)"
        using heap_get_reclaim [of "hSweepIndex h" ?h1 r obj] i g1 by simp
      finally show ?thesis using Some False by (auto simp: marks_def heap_get_iff)
    qed
  qed
qed

lemma sweepStep_stack: "hMarkStack (sweepStep h) = hMarkStack h"
  by (simp add: sweepStep_def reclaimSlot_def Let_def split: option.split)

lemma sweepStep_ok:
  assumes t: "tri h" and stack: "hMarkStack h = []" and i: "hSweepIndex h < length (hSlots h)"
    and R: "R \<inter> alive_refs h \<subseteq> marks h"
  shows "tri (sweepStep h)" and "survives R h (sweepStep h)" and "marks (sweepStep h) = marks h"
    and "alive_refs (sweepStep h) \<subseteq> alive_refs h"
proof -
  note G = sweepStep_get [OF i]
  show m: "marks (sweepStep h) = marks h" by (auto simp: marks_def G split: if_splits)
  show a: "alive_refs (sweepStep h) \<subseteq> alive_refs h" by (auto simp: alive_refs_def G)
  show "tri (sweepStep h)"
    using t stack m a by (fastforce simp: tri_def sweepStep_stack G split: if_splits)
  have "contents (sweepStep h) r = contents h r" if "r \<in> reach h R" for r
    using tri_reach [OF t stack R] that by (auto simp: contents_def G)
  moreover have "contents (sweepStep h) r = contents h r" if "r \<in> alive_refs (sweepStep h)" for r
    using that by (auto simp: contents_def alive_refs_def G)
  ultimately show "survives R h (sweepStep h)" by (simp add: survives_def)
qed

lemma resumeMark_views:
  "hSlots (resumeMark h) = hSlots h" "hHeapId (resumeMark h) = hHeapId h"
  "hMarkStack (resumeMark h) = hMarkStack h" "hSweepIndex (resumeMark h) = hSweepIndex h"
  "hSweepLimit (resumeMark h) = hSweepLimit h"
  by (simp_all add: resumeMark_def)

lemma beginSweep_views:
  "hSlots (beginSweep h) = hSlots h" "hHeapId (beginSweep h) = hHeapId h"
  "hMarkStack (beginSweep h) = hMarkStack h" "hSweepLimit (beginSweep h) = hSweepLimit h"
  "hPhase (beginSweep h) = GcSweep"
  by (simp_all add: beginSweep_def)

lemma finishCollection_views:
  "hSlots (finishCollection h) = hSlots h" "hHeapId (finishCollection h) = hHeapId h"
  "hPhase (finishCollection h) = GcIdle" "hRequested (finishCollection h) = False"
  by (simp_all add: finishCollection_def Let_def)

section \<open>The work loop frees nothing that is reachable\<close>

lemma tri_views:
  assumes "hSlots h' = hSlots h" "hHeapId h' = hHeapId h" "hMarkStack h' = hMarkStack h"
    and "R \<inter> alive_refs h \<subseteq> marks h" and "tri h"
  shows "tri h'" and "R \<inter> alive_refs h' \<subseteq> marks h'" and "survives R h h'"
proof -
  note V = get_views [OF assms(1,2)]
  show "tri h'" using tri_cong [OF assms(1-3)] assms(5) by simp
  show "R \<inter> alive_refs h' \<subseteq> marks h'" using assms(4) V by simp
  show "survives R h h'" using V(1) by (rule survives_same)
qed

text \<open>The sweep index stays inside the slots.\<close>

definition sweep_ok :: "ManagedHeap \<Rightarrow> bool" where
  "sweep_ok h \<longleftrightarrow> hSweepLimit h \<le> length (hSlots h)"

lemma markStep_sizes:
  "hSweepLimit (markStep h) = hSweepLimit h" "length (hSlots (markStep h)) = length (hSlots h)"
  "hPhase (markStep h) = hPhase h" "hResumeSweep (markStep h) = hResumeSweep h"
  "hSweepIndex (markStep h) = hSweepIndex h"
  using scan_progress [of "h\<lparr>hMarkStack := tl (hMarkStack h)\<rparr>" "hd (hMarkStack h)"]
  by (simp_all add: markStep_def Let_def same_progress_def)

lemma sweepStep_sizes:
  "hSweepLimit (sweepStep h) = hSweepLimit h" "length (hSlots (sweepStep h)) = length (hSlots h)"
  "hPhase (sweepStep h) = hPhase h" "hResumeSweep (sweepStep h) = hResumeSweep h"
  "hSweepIndex (sweepStep h) = hSweepIndex h + 1"
  by (simp_all add: sweepStep_def reclaimSlot_def Let_def split: option.split)

lemma gc_ok_idle: "hPhase h = GcIdle \<Longrightarrow> gc_ok h"
  by (simp add: gc_ok_def)

lemma workLoop_safe:
  assumes "hPhase h \<noteq> GcIdle" and "tri h" and "R \<inter> alive_refs h \<subseteq> marks h" and "sweep_ok h"
  shows "survives R h (snd (workLoop left h)) \<and> gc_ok (snd (workLoop left h)) \<and>
    sweep_ok (snd (workLoop left h))"
  using assms
proof (induction left h rule: workLoop.induct)
  case (1 left h)
  let ?h1 = "resumeMark h"
  note V1 = tri_views [OF resumeMark_views(1-3) 1(6,5)]
  have ok1: "sweep_ok ?h1" using 1(7) by (simp add: sweep_ok_def resumeMark_views)
  show ?case
  proof (cases "left = 0")
    case True
    with 1 show ?thesis by (simp add: workLoop_stop survives_refl gc_ok_def)
  next
    case False
    show ?thesis
    proof (cases "hPhase ?h1")
      case GcIdle
      with 1(4) resumeMark_phase show ?thesis by blast
    next
      case GcMark
      show ?thesis
      proof (cases "hMarkStack ?h1 = []")
        case True
        note V2 = tri_views [OF beginSweep_views(1-3) V1(2,1)]
        have "survives R (beginSweep ?h1) (snd (workLoop left (beginSweep ?h1))) \<and>
            gc_ok (snd (workLoop left (beginSweep ?h1))) \<and> sweep_ok (snd (workLoop left (beginSweep ?h1)))"
          by (rule 1(1) [OF False refl GcMark True])
            (use V2 ok1 in \<open>auto simp: beginSweep_views sweep_ok_def\<close>)
        with survives_trans [OF survives_trans [OF V1(3) V2(3)]] show ?thesis
          unfolding workLoop_begin [OF False GcMark True] by blast
      next
        case stack: False
        note M = markStep_ok [OF V1(1) stack]
        have "alive_refs (markStep ?h1) = alive_refs ?h1"
          using M(2) by (auto simp: alive_contents)
        then have R': "R \<inter> alive_refs (markStep ?h1) \<subseteq> marks (markStep ?h1)"
          using V1(2) M(3) by blast
        have "survives R (markStep ?h1) (snd (workLoop (left - 1) (markStep ?h1))) \<and>
            gc_ok (snd (workLoop (left - 1) (markStep ?h1))) \<and>
            sweep_ok (snd (workLoop (left - 1) (markStep ?h1)))"
          by (rule 1(2) [OF False refl GcMark stack])
            (use M R' ok1 GcMark in \<open>auto simp: markStep_sizes sweep_ok_def\<close>)
        with survives_trans [OF survives_trans [OF V1(3) survives_same [OF M(2)]]] show ?thesis
          unfolding workLoop_mark [OF False GcMark stack] by blast
      qed
    next
      case GcSweep
      have stack: "hMarkStack ?h1 = []"
        using GcSweep by (auto simp: resumeMark_def split: if_splits)
      show ?thesis
      proof (cases "hSweepLimit ?h1 \<le> hSweepIndex ?h1")
        case True
        have "survives R ?h1 (finishCollection ?h1)"
          by (rule survives_same) (rule get_views(1) [OF finishCollection_views(1,2)])
        moreover have "sweep_ok (finishCollection ?h1)" by (simp add: sweep_ok_def finishCollection_def Let_def)
        ultimately show ?thesis
          using survives_trans [OF V1(3)] gc_ok_idle [OF finishCollection_views(3)]
          unfolding workLoop_finish [OF False GcSweep True] snd_conv by blast
      next
        case sweep: False
        then have i: "hSweepIndex ?h1 < length (hSlots ?h1)" using ok1 by (simp add: sweep_ok_def)
        note S = sweepStep_ok [OF V1(1) stack i V1(2)]
        have R': "R \<inter> alive_refs (sweepStep ?h1) \<subseteq> marks (sweepStep ?h1)"
          using V1(2) S(3,4) by blast
        have "survives R (sweepStep ?h1) (snd (workLoop (left - 1) (sweepStep ?h1))) \<and>
            gc_ok (snd (workLoop (left - 1) (sweepStep ?h1))) \<and>
            sweep_ok (snd (workLoop (left - 1) (sweepStep ?h1)))"
          by (rule 1(3) [OF False refl GcSweep sweep])
            (use S R' ok1 GcSweep in \<open>auto simp: sweepStep_sizes sweep_ok_def\<close>)
        with survives_trans [OF survives_trans [OF V1(3) S(2)]] show ?thesis
          unfolding workLoop_sweep [OF False GcSweep sweep] by blast
      qed
    qed
  qed
qed

section \<open>A collector step is safe\<close>

lemma contents_unmark: "contents (h\<lparr>hSlots := map unmarkSlot (hSlots h)\<rparr>) = contents h"
proof
  fix r
  have "heap_get r (h\<lparr>hSlots := map unmarkSlot (hSlots h)\<rparr>) = map_option unmarkObject (heap_get r h)"
    using heap_get_cong [of "h\<lparr>hSlots := map unmarkSlot (hSlots h)\<rparr>" "erase h" r] heap_get_erase [of r h]
    by (simp add: erase_def)
  then show "contents (h\<lparr>hSlots := map unmarkSlot (hSlots h)\<rparr>) r = contents h r"
    by (cases "heap_get r h") (simp_all add: contents_def unmarkObject_def)
qed

definition cleared :: "ManagedHeap \<Rightarrow> ManagedHeap" where
  "cleared h = h\<lparr>hSlots := map unmarkSlot (hSlots h), hMarkStack := [], hSweepIndex := 0,
     hSweepLimit := length (hSlots h), hResumeSweep := False, hPhase := GcMark,
     hStats := (hStats h)\<lparr>collectionsStarted := collectionsStarted (hStats h) + 1\<rparr>\<rparr>"

lemma startCollection_cleared: "startCollection shadow h = markRoots shadow (cleared h)"
  by (simp add: startCollection_def cleared_def)

lemma cleared_views: "contents (cleared h) = contents h" "marks (cleared h) = {}" "tri (cleared h)"
proof -
  have "contents (cleared h) = contents (h\<lparr>hSlots := map unmarkSlot (hSlots h)\<rparr>)"
    by (rule get_views(1)) (simp_all add: cleared_def)
  then show "contents (cleared h) = contents h" by (simp only: contents_unmark)
  show m: "marks (cleared h) = {}"
    by (auto simp: marks_def heap_get_iff cleared_def unmarkSlot_def)
  show "tri (cleared h)" unfolding tri_def m by (simp add: cleared_def)
qed

lemma root_refs_cleared: "root_refs shadow (cleared h) = root_refs shadow h"
  by (simp add: root_refs_def cleared_def)

lemma root_refs_erase: "erase h' = erase h \<Longrightarrow> root_refs shadow h' = root_refs shadow h"
  using erase_fields(5) [of h' h] by (simp add: root_refs_def)

text \<open>The heap on which the loop of a step starts: the roots are marked.\<close>

definition stepStart :: "ShadowStack \<Rightarrow> ManagedHeap \<Rightarrow> ManagedHeap" where
  "stepStart shadow h =
     markRoots shadow (if hPhase h = GcIdle then startCollection shadow h else h)"

lemma step_workLoop:
  "workBudget \<noteq> 0 \<Longrightarrow> hPhase h \<noteq> GcIdle \<or> hRequested h \<Longrightarrow>
   snd (step shadow workBudget h) = snd (workLoop workBudget (stepStart shadow h))"
  by (auto simp: step_def stepStart_def split_beta Let_def)

lemma stepStart_ok:
  fixes shadow :: ShadowStack
  assumes ok: "gc_ok h" and sw: "sweep_ok h"
  defines "s \<equiv> stepStart shadow h"
  shows "tri s" and "root_refs shadow h \<inter> alive_refs s \<subseteq> marks s" and "contents s = contents h"
    and "hPhase s \<noteq> GcIdle" and "sweep_ok s"
    and "hPhase h = GcIdle \<Longrightarrow> marks s \<subseteq> root_refs shadow h"
    and "marks s \<subseteq> (if hPhase h = GcIdle then {} else marks h) \<union> (root_refs shadow h \<inter> alive_refs h)"
    and "hPhase h = GcIdle \<Longrightarrow> hPhase s = GcMark \<and> \<not> hResumeSweep s \<and> hSweepLimit s = length (hSlots s)"
proof -
  let ?R = "root_refs shadow h"
  let ?g = "if hPhase h = GcIdle then cleared h else h"
  have tg: "tri ?g" using ok cleared_views(3) by (simp add: gc_ok_def)
  have rg: "root_refs shadow ?g = ?R" by (simp add: root_refs_cleared)
  have cg: "contents ?g = contents h" by (simp add: cleared_views)
  have M: "marking ?g ?R s"
  proof (cases "hPhase h = GcIdle")
    case True
    have 1: "marking (cleared h) ?R (startCollection shadow h)"
      using marking_roots [of "cleared h" shadow] by (simp add: startCollection_cleared root_refs_cleared)
    have 2: "marking (startCollection shadow h) ?R (markRoots shadow (startCollection shadow h))"
      using marking_roots [of "startCollection shadow h" shadow]
      by (simp add: root_refs_erase [OF markingD(1) [OF 1]] root_refs_cleared)
    from marking_trans [OF 1 2] show ?thesis using True by (simp add: s_def stepStart_def)
  next
    case False
    with marking_roots [of h shadow] show ?thesis by (simp add: s_def stepStart_def)
  qed
  note D = markingD [OF M] and F = erase_fields [OF markingD(1) [OF M]]
  show "tri s" by (rule tri_marking [OF M tg])
  show "?R \<inter> alive_refs s \<subseteq> marks s" using D erase_alive [OF D(1)] by auto
  show "contents s = contents h" using erase_contents [OF D(1)] cg by simp
  show "hPhase s \<noteq> GcIdle" using F(1) by (simp add: cleared_def)
  show "sweep_ok s" using F(9,11) sw by (simp add: sweep_ok_def cleared_def)
  have al: "alive_refs ?g = alive_refs h" using cg by (auto simp: alive_contents)
  show "hPhase h = GcIdle \<Longrightarrow> marks s \<subseteq> ?R" using D(2) cleared_views(2) by auto
  show "marks s \<subseteq> (if hPhase h = GcIdle then {} else marks h) \<union> (?R \<inter> alive_refs h)"
    using D(2) cleared_views(2) al by auto
  show "hPhase h = GcIdle \<Longrightarrow> hPhase s = GcMark \<and> \<not> hResumeSweep s \<and> hSweepLimit s = length (hSlots s)"
    using F(1,7,9,11) by (simp add: cleared_def)
qed

lemma step_safe:
  assumes ok: "gc_ok h" "sweep_ok h"
  shows "survives (root_refs shadow h) h (snd (step shadow budget h)) \<and>
    gc_ok (snd (step shadow budget h)) \<and> sweep_ok (snd (step shadow budget h))"
proof (cases "budget = 0 \<or> (hPhase h = GcIdle \<and> \<not> hRequested h)")
  case True
  then have "snd (step shadow budget h) = h" by (auto simp: step_def)
  with ok show ?thesis by (simp add: survives_refl)
next
  case False
  note S = stepStart_ok [OF ok, of shadow]
  from False have eq: "snd (step shadow budget h) = snd (workLoop budget (stepStart shadow h))"
    by (intro step_workLoop) auto
  from workLoop_safe [OF S(4,1,2,5), of budget] survives_trans [OF survives_same [OF S(3)]]
  show ?thesis unfolding eq by blast
qed

end
