(* ===== verification/Heap_Invariant.thy ===== *)
theory Heap_Invariant
  imports Heap_Safety
begin

text \<open>
  The invariant of a managed heap and its preservation by every operation: the free list
  names exactly the empty slots, the statistics count the live objects and their bytes, the
  reference maps are sorted, and the tri-colour invariant holds whenever a collection is in
  progress. On it rest the properties of allocation (a new reference was never alive, other
  objects are untouched) and of the write barrier.
\<close>

section \<open>The invariant\<close>

definition obj_ok :: "HeapObject \<Rightarrow> bool" where
  "obj_ok obj \<longleftrightarrow>
     sorted (hoReferenceFields obj) \<and>
     (case hoPayload obj of PString _ \<Rightarrow> hoKind obj = KString | PValues _ \<Rightarrow> hoKind obj \<noteq> KString)"

definition slotCount :: "HeapSlot \<Rightarrow> u64" where
  "slotCount s = (if slotObject s = None then 0 else 1)"

definition slotBytes :: "HeapSlot \<Rightarrow> u64" where
  "slotBytes s = (case slotObject s of None \<Rightarrow> 0 | Some obj \<Rightarrow> hoSizeBytes obj)"

definition slot_ok :: "HeapSlot \<Rightarrow> bool" where
  "slot_ok s \<longleftrightarrow> slotGeneration s \<noteq> 0 \<and> (\<forall>obj. slotObject s = Some obj \<longrightarrow> obj_ok obj)"

definition heap_wf :: "ManagedHeap \<Rightarrow> bool" where
  "heap_wf h \<longleftrightarrow>
     hHeapId h \<noteq> 0 \<and> length (hSlots h) \<le> unat InvalidSlot \<and>
     (\<forall>s \<in> set (hSlots h). slot_ok s) \<and>
     distinct (hFreeSlots h) \<and>
     (\<forall>i \<in> set (hFreeSlots h). unat i < length (hSlots h)) \<and>
     (\<forall>i < length (hSlots h). slotObject (hSlots h ! i) = None \<longleftrightarrow> i \<in> unat ` set (hFreeSlots h)) \<and>
     liveObjects (hStats h) = sum_list (map slotCount (hSlots h)) \<and>
     liveBytes (hStats h) = sum_list (map slotBytes (hSlots h))"

definition heap_inv :: "ManagedHeap \<Rightarrow> bool" where
  "heap_inv h \<longleftrightarrow> heap_wf h \<and> gc_ok h \<and> sweep_ok h"

lemma heap_wfD:
  assumes "heap_wf h"
  shows "hHeapId h \<noteq> 0" and "length (hSlots h) \<le> unat InvalidSlot"
    and "i < length (hSlots h) \<Longrightarrow> slot_ok (hSlots h ! i)"
    and "distinct (hFreeSlots h)" and "k \<in> set (hFreeSlots h) \<Longrightarrow> unat k < length (hSlots h)"
    and "i < length (hSlots h) \<Longrightarrow>
      slotObject (hSlots h ! i) = None \<longleftrightarrow> i \<in> unat ` set (hFreeSlots h)"
    and "liveObjects (hStats h) = sum_list (map slotCount (hSlots h))"
    and "liveBytes (hStats h) = sum_list (map slotBytes (hSlots h))"
  using assms by (simp_all add: heap_wf_def)

lemma unmarkSlot_views [simp]:
  "slotObject (unmarkSlot s) = map_option unmarkObject (slotObject s)"
  "slotGeneration (unmarkSlot s) = slotGeneration s"
  "slotCount (unmarkSlot s) = slotCount s" "slotBytes (unmarkSlot s) = slotBytes s"
proof -
  show "slotObject (unmarkSlot s) = map_option unmarkObject (slotObject s)"
    by (simp add: unmarkSlot_def unmarkObject_def [abs_def])
  then show "slotCount (unmarkSlot s) = slotCount s" "slotBytes (unmarkSlot s) = slotBytes s"
    by (auto simp: slotCount_def slotBytes_def unmarkObject_def split: option.split)
  show "slotGeneration (unmarkSlot s) = slotGeneration s" by (simp add: unmarkSlot_def)
qed

lemma obj_ok_unmark [simp]: "obj_ok (unmarkObject obj) = obj_ok obj"
  by (cases "hoPayload obj") (simp_all add: obj_ok_def unmarkObject_def)

lemma slot_ok_unmark [simp]: "slot_ok (unmarkSlot s) = slot_ok s"
  by (cases "slotObject s") (simp_all add: slot_ok_def)

text \<open>The structural part does not see mark bits and the mark stack.\<close>

lemma heap_wf_map_unmark:
  assumes "map unmarkSlot (hSlots h') = map unmarkSlot (hSlots h)"
    and "hHeapId h' = hHeapId h" "hFreeSlots h' = hFreeSlots h"
    and "liveObjects (hStats h') = liveObjects (hStats h)" "liveBytes (hStats h') = liveBytes (hStats h)"
  shows "heap_wf h' = heap_wf h"
proof -
  have "heap_wf h \<longleftrightarrow>
     hHeapId h \<noteq> 0 \<and> length (map unmarkSlot (hSlots h)) \<le> unat InvalidSlot \<and>
     (\<forall>s \<in> set (map unmarkSlot (hSlots h)). slot_ok s) \<and>
     distinct (hFreeSlots h) \<and>
     (\<forall>i \<in> set (hFreeSlots h). unat i < length (map unmarkSlot (hSlots h))) \<and>
     (\<forall>i < length (map unmarkSlot (hSlots h)).
        slotObject (map unmarkSlot (hSlots h) ! i) = None \<longleftrightarrow> i \<in> unat ` set (hFreeSlots h)) \<and>
     liveObjects (hStats h) = sum_list (map slotCount (map unmarkSlot (hSlots h))) \<and>
     liveBytes (hStats h) = sum_list (map slotBytes (map unmarkSlot (hSlots h)))" for h
    by (simp add: heap_wf_def o_def)
  from this [of h] this [of h'] assms show ?thesis by simp
qed

lemma heap_wf_erase:
  assumes "erase h' = erase h"
  shows "heap_wf h' = heap_wf h"
  by (rule heap_wf_map_unmark)
    (use arg_cong [OF assms, of hSlots] erase_fields [OF assms] in \<open>simp_all add: erase_def\<close>)

lemma heap_wf_cong:
  assumes "hSlots h' = hSlots h" "hHeapId h' = hHeapId h" "hFreeSlots h' = hFreeSlots h"
    and "liveObjects (hStats h') = liveObjects (hStats h)" "liveBytes (hStats h') = liveBytes (hStats h)"
  shows "heap_wf h' = heap_wf h"
  by (rule heap_wf_map_unmark) (use assms in simp_all)

lemma newHeap_inv: "heapId \<noteq> 0 \<Longrightarrow> heap_inv (newHeap config heapId)"
  by (simp add: heap_inv_def heap_wf_def newHeap_def zeroStatistics_def gc_ok_def sweep_ok_def Let_def)

section \<open>The collector keeps the structure\<close>

lemma scan_erase: "erase (scan r h) = erase h"
proof (cases "heap_get r h")
  case None
  then show ?thesis by (simp add: scan_def)
next
  case (Some obj)
  from markingD(1) [OF marking_scan [OF this]] show ?thesis .
qed

lemma markStep_wf: "heap_wf (markStep h) = heap_wf h"
proof -
  let ?h0 = "h\<lparr>hMarkStack := tl (hMarkStack h)\<rparr>"
  let ?h1 = "scan (hd (hMarkStack h)) ?h0"
  have "heap_wf (markStep h) = heap_wf ?h1"
    by (rule heap_wf_cong) (simp_all add: markStep_def Let_def)
  also have "\<dots> = heap_wf ?h0" by (rule heap_wf_erase) (rule scan_erase)
  also have "\<dots> = heap_wf h" by (rule heap_wf_cong) simp_all
  finally show ?thesis .
qed

lemma reclaim_wf:
  assumes wf: "heap_wf h" and i: "i < length (hSlots h)" and obj: "slotObject (hSlots h ! i) = Some obj"
  shows "heap_wf (reclaimSlot i obj h)"
proof -
  note W = heap_wfD [OF wf]
  let ?s = "\<lparr>slotObject = None, slotGeneration = bumpGeneration (slotGeneration (hSlots h ! i))\<rparr>"
  let ?h' = "reclaimSlot i obj h"
  have slots: "hSlots ?h' = (hSlots h)[i := ?s]" and free: "hFreeSlots ?h' = of_nat i # hFreeSlots h"
    and stats: "liveObjects (hStats ?h') = liveObjects (hStats h) - 1"
      "liveBytes (hStats ?h') = liveBytes (hStats h) - hoSizeBytes obj" and ident: "hHeapId ?h' = hHeapId h"
    by (simp_all add: reclaimSlot_def Let_def)
  have u: "unat (of_nat i :: u32) = i"
    using i W(2) unat_InvalidSlot by (intro unat_of_nat_u32) linarith
  have notin: "i \<notin> unat ` set (hFreeSlots h)" using W(6) [OF i] obj by simp
  then have new: "of_nat i \<notin> set (hFreeSlots h)" using u by (metis imageI)
  have c: "slotCount (hSlots h ! i) = 1" "slotBytes (hSlots h ! i) = hoSizeBytes obj"
    "slotCount ?s = 0" "slotBytes ?s = 0"
    by (simp_all add: slotCount_def slotBytes_def obj)
  have "slotObject ((hSlots h)[i := ?s] ! j) = None \<longleftrightarrow> j \<in> unat ` set (of_nat i # hFreeSlots h)"
    if "j < length (hSlots h)" for j
    using W(6) [OF that] that u by (auto simp: nth_list_update_in)
  moreover have "\<forall>s \<in> set ((hSlots h)[i := ?s]). slot_ok s"
    using wf by (auto simp: heap_wf_def slot_ok_def dest!: subsetD [OF set_update_subset_insert])
  ultimately show ?thesis
    unfolding heap_wf_def slots free stats ident
    using W(1,2,4,5,7,8) new u c i
    by (auto simp: sum_list_map_update)
qed

lemma sweepStep_wf:
  assumes wf: "heap_wf h" and i: "hSweepIndex h < length (hSlots h)"
  shows "heap_wf (sweepStep h)"
proof -
  let ?h1 = "h\<lparr>hSweepIndex := hSweepIndex h + 1\<rparr>"
  have wf1: "heap_wf ?h1" using wf by (simp add: heap_wf_def)
  let ?h2 = "case slotObject (hSlots ?h1 ! hSweepIndex h) of
      None \<Rightarrow> ?h1 | Some obj \<Rightarrow> if hoMarked obj then ?h1 else reclaimSlot (hSweepIndex h) obj ?h1"
  have wf2: "heap_wf ?h2"
    using wf1 reclaim_wf [OF wf1] i by (auto split: option.split)
  have "heap_wf (sweepStep h) = heap_wf ?h2"
    by (rule heap_wf_cong) (simp_all add: sweepStep_def Let_def split: option.split)
  with wf2 show ?thesis by blast
qed

lemma workLoop_wf: "heap_wf h \<Longrightarrow> sweep_ok h \<Longrightarrow> heap_wf (snd (workLoop left h))"
proof (induction left h rule: workLoop.induct)
  case (1 left h)
  let ?h1 = "resumeMark h"
  have wf1: "heap_wf ?h1" using 1(4) by (simp add: resumeMark_def heap_wf_def)
  have sw1: "sweep_ok ?h1" using 1(5) by (simp add: sweep_ok_def resumeMark_views)
  show ?case
  proof (cases "left = 0")
    case True
    with 1 show ?thesis by (simp add: workLoop_stop)
  next
    case False
    show ?thesis
    proof (cases "hPhase ?h1")
      case GcIdle
      with False wf1 show ?thesis by (subst workLoop.simps) (simp add: Let_def)
    next
      case GcMark
      show ?thesis
      proof (cases "hMarkStack ?h1 = []")
        case True
        have "heap_wf (beginSweep ?h1)" using wf1 by (simp add: beginSweep_def heap_wf_def)
        moreover have "sweep_ok (beginSweep ?h1)" using sw1 by (simp add: beginSweep_def sweep_ok_def)
        ultimately have "heap_wf (snd (workLoop left (beginSweep ?h1)))"
          by (rule 1(1) [OF False refl GcMark True])
        then show ?thesis by (simp only: workLoop_begin [OF False GcMark True])
      next
        case stack: False
        have "heap_wf (markStep ?h1)" "sweep_ok (markStep ?h1)"
          using wf1 sw1 by (simp_all add: markStep_wf sweep_ok_def markStep_sizes)
        then have "heap_wf (snd (workLoop (left - 1) (markStep ?h1)))"
          by (rule 1(2) [OF False refl GcMark stack])
        then show ?thesis by (simp only: workLoop_mark [OF False GcMark stack])
      qed
    next
      case GcSweep
      show ?thesis
      proof (cases "hSweepLimit ?h1 \<le> hSweepIndex ?h1")
        case True
        have "heap_wf (finishCollection ?h1) = heap_wf ?h1"
          by (rule heap_wf_cong) (simp_all add: finishCollection_def Let_def)
        with wf1 show ?thesis by (simp only: workLoop_finish [OF False GcSweep True] snd_conv)
      next
        case sweep: False
        then have i: "hSweepIndex ?h1 < length (hSlots ?h1)" using sw1 by (simp add: sweep_ok_def)
        have "heap_wf (sweepStep ?h1)" using sweepStep_wf [OF wf1 i] .
        moreover have "sweep_ok (sweepStep ?h1)" using sw1 by (simp add: sweep_ok_def sweepStep_sizes)
        ultimately have "heap_wf (snd (workLoop (left - 1) (sweepStep ?h1)))"
          by (rule 1(3) [OF False refl GcSweep sweep])
        then show ?thesis by (simp only: workLoop_sweep [OF False GcSweep sweep])
      qed
    qed
  qed
qed

lemma markRoots_erase: "erase (markRoots shadow h) = erase h"
  by (rule markingD(1) [OF marking_roots])

lemma startCollection_wf: "heap_wf (startCollection shadow h) = heap_wf h"
proof -
  have "heap_wf (startCollection shadow h) = heap_wf (cleared h)"
    by (simp only: startCollection_cleared heap_wf_erase [OF markRoots_erase])
  also have "\<dots> = heap_wf h"
    by (rule heap_wf_map_unmark) (simp_all add: cleared_def unmarkSlot_def option.map_comp o_def)
  finally show ?thesis .
qed

lemma stepStart_wf: "heap_wf (stepStart shadow h) = heap_wf h"
  by (simp add: stepStart_def heap_wf_erase [OF markRoots_erase] startCollection_wf)

lemma heap_inv_step [rs_inv_intro]:
  assumes inv: "heap_inv h"
  shows "heap_inv (snd (step shadow budget h))"
proof (cases "budget = 0 \<or> (hPhase h = GcIdle \<and> \<not> hRequested h)")
  case True
  then have "snd (step shadow budget h) = h" by (auto simp: step_def)
  with inv show ?thesis by simp
next
  case False
  have ok: "gc_ok h" "sweep_ok h" "heap_wf h" using inv by (auto simp: heap_inv_def)
  from False have eq: "snd (step shadow budget h) = snd (workLoop budget (stepStart shadow h))"
    by (intro step_workLoop) auto
  have "heap_wf (snd (workLoop budget (stepStart shadow h)))"
    by (rule workLoop_wf) (use ok stepStart_wf stepStart_ok(5) [OF ok(1,2)] in auto)
  with step_safe [OF ok(1,2), of shadow budget] eq show ?thesis by (simp add: heap_inv_def)
qed

section \<open>Allocation\<close>

text \<open>The slot an allocation uses, and the heap just before the bookkeeping.\<close>

definition placed :: "ObjectRef \<Rightarrow> HeapObject \<Rightarrow> ManagedHeap \<Rightarrow> ManagedHeap" where
  "placed r obj h =
     (case hFreeSlots h of
        i # rest \<Rightarrow> h\<lparr>hFreeSlots := rest,
                        hSlots := (hSlots h)[unat i := (hSlots h ! unat i)\<lparr>slotObject := Some obj\<rparr>]\<rparr>
      | [] \<Rightarrow> h\<lparr>hSlots := hSlots h @ [\<lparr>slotObject = Some obj, slotGeneration = 1\<rparr>]\<rparr>)"

definition new_ref :: "ObjectKind \<Rightarrow> ManagedHeap \<Rightarrow> ObjectRef" where
  "new_ref kind h =
     (case hFreeSlots h of
        i # rest \<Rightarrow> ObjectRef i (slotGeneration (hSlots h ! unat i)) kind (hHeapId h)
      | [] \<Rightarrow> ObjectRef (of_nat (length (hSlots h))) 1 kind (hHeapId h))"

definition new_object ::
    "ObjectKind \<Rightarrow> SymbolId \<Rightarrow> PrimitiveType \<Rightarrow> SymbolId \<Rightarrow> Payload \<Rightarrow> nat list \<Rightarrow> u64 \<Rightarrow>
     ManagedHeap \<Rightarrow> HeapObject" where
  "new_object kind typeId elementType elementTypeId pl refFields sizeBytes h =
     \<lparr>hoKind = kind, hoTypeId = typeId, hoElementType = elementType, hoElementTypeId = elementTypeId,
      hoMarked = (hPhase h \<noteq> GcIdle), hoSizeBytes = sizeBytes, hoPayload = pl,
      hoReferenceFields = refFields\<rparr>"

lemma allocate_result:
  assumes "allocate kind tid et etid pl rf bytes h = (Inr r, h')"
  shows "r = new_ref kind h" and
    "h' = recordAllocation r bytes (placed r (new_object kind tid et etid pl rf bytes h) h)"
    and "hFreeSlots h = [] \<Longrightarrow> length (hSlots h) < unat InvalidSlot"
  using assms
  by (auto simp: allocate_def placed_def new_ref_def new_object_def Let_def not_le
      split: if_splits list.splits)

lemma allocate_error:
  assumes "allocate kind tid et etid pl rf bytes h = (Inl e, h')"
  shows "h' = h \<or> h' = h\<lparr>hRequested := True\<rparr>"
  using assms by (auto simp: allocate_def Let_def split: if_splits list.splits)

lemma recordAllocation_views:
  "hSlots (recordAllocation r n h) = hSlots h" "hHeapId (recordAllocation r n h) = hHeapId h"
  "hFreeSlots (recordAllocation r n h) = hFreeSlots h"
  "hMarkStack (recordAllocation r n h) = (if hPhase h \<noteq> GcIdle then r # hMarkStack h else hMarkStack h)"
  "hPhase (recordAllocation r n h) = GcIdle \<longleftrightarrow> hPhase h = GcIdle"
  "liveObjects (hStats (recordAllocation r n h)) = liveObjects (hStats h) + 1"
  "liveBytes (hStats (recordAllocation r n h)) = liveBytes (hStats h) + n"
  "hSweepLimit (recordAllocation r n h) = hSweepLimit h" "hRoots (recordAllocation r n h) = hRoots h"
  by (auto simp: recordAllocation_def Let_def)

lemma placed_views:
  "hHeapId (placed r obj h) = hHeapId h" "hPhase (placed r obj h) = hPhase h"
  "hMarkStack (placed r obj h) = hMarkStack h" "hStats (placed r obj h) = hStats h"
  "hSweepLimit (placed r obj h) = hSweepLimit h" "hRoots (placed r obj h) = hRoots h"
  "length (hSlots h) \<le> length (hSlots (placed r obj h))"
  by (auto simp: placed_def split: list.split)

lemma placed_get:
  assumes wf: "heap_wf h" and kind: "hoKind obj = kind"
    and room: "hFreeSlots h = [] \<Longrightarrow> length (hSlots h) < unat InvalidSlot"
  shows "heap_get q (placed (new_ref kind h) obj h) =
           (if q = new_ref kind h then Some obj else heap_get q h)"
    and "heap_get (new_ref kind h) h = None"
    and "ref_valid (new_ref kind h)"
proof -
  note W = heap_wfD [OF wf]
  have all: "heap_get q (placed (new_ref kind h) obj h) =
           (if q = new_ref kind h then Some obj else heap_get q h) \<and>
    heap_get (new_ref kind h) h = None \<and> ref_valid (new_ref kind h)" for q
  proof (cases "hFreeSlots h")
    case Nil
    let ?n = "of_nat (length (hSlots h)) :: u32"
    have n: "unat ?n = length (hSlots h)" "?n \<noteq> InvalidSlot"
      using room [OF Nil] unat_InvalidSlot unat_of_nat_u32 [of "length (hSlots h)"] by auto
    have r: "new_ref kind h = ObjectRef ?n 1 kind (hHeapId h)" using Nil by (simp add: new_ref_def)
    have "heap_get q (placed (new_ref kind h) obj h) =
        (if q = ObjectRef ?n 1 kind (hHeapId h) then Some obj else heap_get q h)"
    proof (cases "unat (refSlot q) = length (hSlots h)")
      case True
      then have slot: "refSlot q = ?n" using n(1) by (simp add: word_unat_eq_iff)
      show ?thesis
        using Nil slot n W(1) kind
        by (cases q) (auto simp: heap_get_def placed_def ref_valid_def nth_append)
    next
      case False
      then have "q \<noteq> ObjectRef ?n 1 kind (hHeapId h)" using n(1) by auto
      moreover have "heap_get q (placed (new_ref kind h) obj h) = heap_get q h"
        using Nil False by (auto simp: heap_get_def placed_def nth_append Let_def)
      ultimately show ?thesis by simp
    qed
    then show ?thesis using n W(1) by (simp add: r heap_get_def ref_valid_def)
  next
    case (Cons i rest)
    have i: "unat i < length (hSlots h)" using W(5) Cons by simp
    have empty: "slotObject (hSlots h ! unat i) = None" using W(6) [OF i] Cons by simp
    have gen: "slotGeneration (hSlots h ! unat i) \<noteq> 0" using W(3) [OF i] by (simp add: slot_ok_def)
    have "i \<noteq> InvalidSlot" using i W(2) by auto
    have r: "new_ref kind h = ObjectRef i (slotGeneration (hSlots h ! unat i)) kind (hHeapId h)"
      using Cons by (simp add: new_ref_def)
    have "heap_get q (placed (new_ref kind h) obj h) =
        (if q = new_ref kind h then Some obj else heap_get q h)"
    proof (cases "refSlot q = i")
      case True
      then show ?thesis
        using Cons i empty gen \<open>i \<noteq> InvalidSlot\<close> W(1) kind unfolding r
        by (cases q) (auto simp: heap_get_def placed_def ref_valid_def)
    next
      case False
      then have "unat (refSlot q) \<noteq> unat i" by (simp add: word_unat_eq_iff)
      moreover have "q \<noteq> new_ref kind h" using False r by auto
      ultimately show ?thesis using Cons by (simp add: heap_get_def placed_def)
    qed
    then show ?thesis
      using empty i gen \<open>i \<noteq> InvalidSlot\<close> W(1) by (simp add: r heap_get_def ref_valid_def)
  qed
  show "heap_get q (placed (new_ref kind h) obj h) =
           (if q = new_ref kind h then Some obj else heap_get q h)"
    and "heap_get (new_ref kind h) h = None" and "ref_valid (new_ref kind h)"
    using all by blast+
qed

lemma placed_wf:
  assumes wf: "heap_wf h" and room: "hFreeSlots h = [] \<Longrightarrow> length (hSlots h) < unat InvalidSlot"
    and obj: "obj_ok obj"
  shows "heap_wf (recordAllocation r (hoSizeBytes obj) (placed q obj h))"
proof (cases "hFreeSlots h")
  case Nil
  note W = heap_wfD [OF wf]
  have "hSlots (placed q obj h) = hSlots h @ [\<lparr>slotObject = Some obj, slotGeneration = 1\<rparr>]"
    "hFreeSlots (placed q obj h) = []"
    using Nil by (simp_all add: placed_def)
  then show ?thesis
    unfolding heap_wf_def recordAllocation_views placed_views
    using W(1,3,6,7,8) room [OF Nil] obj Nil
    by (auto simp: slot_ok_def nth_append less_Suc_eq slotCount_def slotBytes_def in_set_conv_nth)
next
  case (Cons i rest)
  note W = heap_wfD [OF wf]
  let ?s = "(hSlots h ! unat i)\<lparr>slotObject := Some obj\<rparr>"
  have i: "unat i < length (hSlots h)" using W(5) Cons by simp
  have empty: "slotObject (hSlots h ! unat i) = None" using W(6) [OF i] Cons by simp
  have s: "hSlots (placed q obj h) = (hSlots h)[unat i := ?s]" "hFreeSlots (placed q obj h) = rest"
    using Cons by (simp_all add: placed_def)
  have c: "slotCount (hSlots h ! unat i) = 0" "slotBytes (hSlots h ! unat i) = 0"
    "slotCount ?s = 1" "slotBytes ?s = hoSizeBytes obj"
    using empty by (simp_all add: slotCount_def slotBytes_def)
  have "slot_ok ?s" using W(3) [OF i] obj by (simp add: slot_ok_def)
  then have "\<forall>s \<in> set ((hSlots h)[unat i := ?s]). slot_ok s"
    using wf by (auto simp: heap_wf_def dest!: subsetD [OF set_update_subset_insert])
  moreover have "slotObject ((hSlots h)[unat i := ?s] ! j) = None \<longleftrightarrow> j \<in> unat ` set rest"
    if j: "j < length (hSlots h)" for j
  proof (cases "j = unat i")
    case True
    have "i \<notin> set rest" using W(4) Cons by simp
    then have "unat i \<notin> unat ` set rest" by (auto dest: iffD2 [OF word_unat_eq_iff])
    with True i show ?thesis by simp
  next
    case False
    with W(6) [OF j] Cons show ?thesis by simp
  qed
  ultimately show ?thesis
    unfolding heap_wf_def recordAllocation_views placed_views s
    using W(1,2,4,5,7,8) Cons c i by (auto simp: sum_list_map_update)
qed

lemma allocate_effect:
  assumes inv: "heap_inv h" and run: "allocate kind tid et etid pl rf bytes h = (Inr r, h')"
    and ok: "obj_ok (new_object kind tid et etid pl rf bytes h)"
  shows "heap_inv h'" and "heap_get r h = None"
    and "heap_get q h' = (if q = r then Some (new_object kind tid et etid pl rf bytes h) else heap_get q h)"
    and "hRoots h' = hRoots h"
proof -
  let ?o = "new_object kind tid et etid pl rf bytes h"
  note A = allocate_result [OF run]
  have wf: "heap_wf h" and gc: "gc_ok h" and sw: "sweep_ok h" using inv by (auto simp: heap_inv_def)
  have kind: "hoKind ?o = kind" by (simp add: new_object_def)
  note P = placed_get [OF wf kind A(3)]
  show "heap_get r h = None" using P(2) A(1) by simp
  have get: "heap_get q h' = (if q = r then Some ?o else heap_get q h)" for q
  proof -
    have "heap_get q h' = heap_get q (placed r ?o h)"
      by (rule heap_get_cong) (simp_all add: A(2) recordAllocation_views)
    then show ?thesis using P(1) A(1) by simp
  qed
  then show "heap_get q h' = (if q = r then Some ?o else heap_get q h)" .
  show "hRoots h' = hRoots h" by (simp add: A(2) recordAllocation_views placed_views)
  have "hoSizeBytes ?o = bytes" by (simp add: new_object_def)
  then have wf': "heap_wf h'" using placed_wf [OF wf A(3) ok, of r r] A(2) by simp
  have sw': "sweep_ok h'"
    using sw le_trans [OF _ placed_views(7) [of h r ?o]]
    by (simp add: sweep_ok_def A(2) recordAllocation_views placed_views(5))
  have "tri h'" if "hPhase h' \<noteq> GcIdle"
  proof -
    have ph: "hPhase h \<noteq> GcIdle" using that by (simp add: A(2) recordAllocation_views placed_views)
    then have t: "tri h" using gc by (simp add: gc_ok_def)
    have m: "marks h' = insert r (marks h)"
      using ph by (auto simp: marks_def get new_object_def)
    have al: "alive_refs h' = insert r (alive_refs h)" by (auto simp: alive_refs_def get)
    have st: "hMarkStack h' = r # hMarkStack h"
      using ph by (simp add: A(2) recordAllocation_views placed_views)
    have "children obj \<inter> alive_refs h' \<subseteq> marks h'"
      if "heap_get q h' = Some obj" "q \<in> marks h'" "q \<notin> set (hMarkStack h')" for q obj
    proof -
      have "q \<noteq> r" "q \<in> marks h" "q \<notin> set (hMarkStack h)" "heap_get q h = Some obj"
        using that m st get by (auto split: if_splits)
      with triD [OF t] m al show ?thesis by blast
    qed
    moreover have "set (hMarkStack h') \<subseteq> marks h'" using st m t by (auto simp: tri_def)
    ultimately show ?thesis by (simp only: tri_def) blast
  qed
  with wf' sw' show "heap_inv h'" by (simp add: heap_inv_def gc_ok_def)
qed

lemma heap_inv_requested [simp]: "heap_inv (h\<lparr>hRequested := b\<rparr>) = heap_inv h"
proof -
  let ?h = "h\<lparr>hRequested := b\<rparr>"
  have "heap_wf ?h = heap_wf h" by (rule heap_wf_cong) simp_all
  moreover have "tri ?h = tri h" by (rule tri_cong) simp_all
  ultimately show ?thesis by (simp add: heap_inv_def gc_ok_def sweep_ok_def)
qed

lemma heap_inv_allocate:
  assumes inv: "heap_inv h" and ok: "obj_ok (new_object kind tid et etid pl rf bytes h)"
  shows "heap_inv (snd (allocate kind tid et etid pl rf bytes h))"
proof (cases "allocate kind tid et etid pl rf bytes h")
  case (Pair res h')
  show ?thesis
  proof (cases res)
    case (Inl e)
    with Pair have "allocate kind tid et etid pl rf bytes h = (Inl e, h')" by simp
    from allocate_error [OF this] inv Pair show ?thesis by auto
  next
    case (Inr r)
    with Pair have "allocate kind tid et etid pl rf bytes h = (Inr r, h')" by simp
    from allocate_effect(1) [OF inv this ok] Pair show ?thesis by simp
  qed
qed

lemma heap_inv_allocations [rs_inv_intro]:
  assumes "heap_inv h"
  shows "heap_inv (snd (allocateString s h))"
    and "heap_inv (snd (allocateTypedArray a e t n v h))"
    and "heap_inv (snd (allocateArray n v h))"
    and "heap_inv (snd (allocateRecord n h))"
    and "heap_inv (snd (allocateObject t vs rf h))"
  using assms
  by (auto simp: allocateString_def allocateTypedArray_def allocateArray_def allocateRecord_def
      allocateObject_def Let_def obj_ok_def new_object_def sorted_remdups_adj
      intro!: heap_inv_allocate)

end
