(* ===== verification/Heap_Mutator.thy ===== *)
theory Heap_Mutator
  imports Heap_Invariant
begin

text \<open>
  Stores into objects and changes of the persistent roots: the write barrier keeps the
  tri-colour invariant, because a marked owner has every stored reference marked before the
  store; the binary search that decides whether a record field needs the barrier answers
  membership in the sorted reference map.
\<close>

section \<open>The binary search\<close>

lemma lowerBound_turns:
  "lowerBound xs x first 0 = first"
  "len \<noteq> 0 \<Longrightarrow> xs ! (first + len div 2) < x \<Longrightarrow>
     lowerBound xs x first len = lowerBound xs x (first + len div 2 + 1) (len - len div 2 - 1)"
  "len \<noteq> 0 \<Longrightarrow> \<not> xs ! (first + len div 2) < x \<Longrightarrow>
     lowerBound xs x first len = lowerBound xs x first (len div 2)"
  by (subst lowerBound.simps, simp add: Let_def)+

lemma lowerBound_spec:
  assumes "sorted xs" and "first + len \<le> length xs"
    and "\<forall>k < first. xs ! k < x" and "\<forall>k. first + len \<le> k \<longrightarrow> k < length xs \<longrightarrow> x \<le> xs ! k"
  shows "lowerBound xs x first len \<le> length xs \<and>
    (\<forall>k < lowerBound xs x first len. xs ! k < x) \<and>
    (\<forall>k. lowerBound xs x first len \<le> k \<longrightarrow> k < length xs \<longrightarrow> x \<le> xs ! k)"
  using assms
proof (induction xs x first len rule: lowerBound.induct)
  case (1 xs x first len)
  show ?case
  proof (cases "len = 0")
    case True
    with 1(3-6) show ?thesis by (simp add: lowerBound_turns(1))
  next
    case False
    let ?half = "len div 2"
    let ?m = "first + ?half"
    have m: "?m < length xs" using False 1(4) by linarith
    show ?thesis
    proof (cases "xs ! ?m < x")
      case True
      have "\<forall>k < ?m + 1. xs ! k < x"
      proof (intro allI impI)
        fix k assume "k < ?m + 1"
        then have "xs ! k \<le> xs ! ?m" using 1(3) m by (simp add: sorted_nth_mono)
        with True show "xs ! k < x" by simp
      qed
      moreover have "?m + 1 + (len - ?half - 1) = first + len" using False by simp
      ultimately show ?thesis
        unfolding lowerBound_turns(2) [OF False True]
        by (intro 1(1) [OF False refl refl True]) (use 1(3,4,6) in \<open>simp_all only: simp_thms\<close>)
    next
      case ge: False
      have "\<forall>k. first + ?half \<le> k \<longrightarrow> k < length xs \<longrightarrow> x \<le> xs ! k"
      proof (intro allI impI)
        fix k assume "?m \<le> k" "k < length xs"
        then have "xs ! ?m \<le> xs ! k" using 1(3) by (simp add: sorted_nth_mono)
        with ge show "x \<le> xs ! k" by simp
      qed
      then show ?thesis
        unfolding lowerBound_turns(3) [OF False ge]
        by (intro 1(2) [OF False refl refl ge]) (use 1(3,5) m in simp_all)
    qed
  qed
qed

lemma binarySearch_iff:
  assumes "sorted xs"
  shows "binarySearch xs x \<longleftrightarrow> x \<in> set xs"
proof -
  note S = lowerBound_spec [OF assms, of 0 "length xs" x, simplified]
  let ?i = "lowerBound xs x 0 (length xs)"
  show ?thesis
  proof
    assume "binarySearch xs x"
    then have "?i < length xs" "xs ! ?i \<le> x" by (auto simp: binarySearch_def Let_def)
    with S have "xs ! ?i = x" by (metis le_refl order_antisym)
    with \<open>?i < length xs\<close> show "x \<in> set xs" by (metis nth_mem)
  next
    assume "x \<in> set xs"
    then obtain k where k: "k < length xs" "xs ! k = x" by (auto simp: in_set_conv_nth)
    with S have "?i \<le> k" by (metis less_irrefl not_le)
    then have "xs ! ?i \<le> x" "?i < length xs" using k assms sorted_nth_mono by fastforce+
    then show "binarySearch xs x" by (simp add: binarySearch_def Let_def)
  qed
qed

section \<open>The write barrier\<close>

lemma writeBarrier_cases:
  obtains (idle) "hPhase h = GcIdle" "writeBarrier r v h = h"
  | (white) "hPhase h \<noteq> GcIdle" "r \<notin> marks h" "writeBarrier r v h = h"
  | (grey) "hPhase h \<noteq> GcIdle" "r \<in> marks h"
      "writeBarrier r v h = markValue v h \<or>
       writeBarrier r v h = (markValue v h)\<lparr>hPhase := GcMark, hResumeSweep := True\<rparr>"
proof (cases "hPhase h = GcIdle \<or> r \<notin> marks h")
  case True
  then have eq: "writeBarrier r v h = h"
    by (auto simp: writeBarrier_def marks_def split: option.split)
  show thesis
  proof (cases "hPhase h = GcIdle")
    case True
    then show thesis using idle eq by simp
  next
    case False
    with \<open>hPhase h = GcIdle \<or> r \<notin> marks h\<close> show thesis using white eq by simp
  qed
next
  case False
  then obtain obj where "heap_get r h = Some obj" "hoMarked obj" by (auto simp: marks_def)
  with False have "writeBarrier r v h =
      (if hPhase (markValue v h) = GcSweep \<and> hMarkStack (markValue v h) \<noteq> []
       then (markValue v h)\<lparr>hPhase := GcMark, hResumeSweep := True\<rparr> else markValue v h)"
    by (simp add: writeBarrier_def Let_def)
  then have "writeBarrier r v h = markValue v h \<or>
       writeBarrier r v h = (markValue v h)\<lparr>hPhase := GcMark, hResumeSweep := True\<rparr>"
    by (simp only: if_split) blast
  with False show thesis using grey by blast
qed

text \<open>
  After the barrier the heap has the same objects; if a collection is running and the owner
  is marked, the references of the value are marked.
\<close>

lemma writeBarrier_ok:
  assumes inv: "heap_inv h"
  shows "heap_inv (writeBarrier r v h)" and "contents (writeBarrier r v h) = contents h"
    and "hPhase (writeBarrier r v h) \<noteq> GcIdle \<Longrightarrow> r \<in> marks (writeBarrier r v h) \<Longrightarrow>
      set (value_refs v) \<inter> alive_refs h \<subseteq> marks (writeBarrier r v h)"
    and "hRoots (writeBarrier r v h) = hRoots h"
proof -
  let ?b = "writeBarrier r v h"
  have all: "heap_inv ?b \<and> contents ?b = contents h \<and> hRoots ?b = hRoots h \<and>
    (hPhase ?b \<noteq> GcIdle \<longrightarrow> r \<in> marks ?b \<longrightarrow> set (value_refs v) \<inter> alive_refs h \<subseteq> marks ?b)"
  proof (rule writeBarrier_cases [of h r v])
    assume "hPhase h = GcIdle" "?b = h"
    with inv show ?thesis by simp
  next
    assume "hPhase h \<noteq> GcIdle" "r \<notin> marks h" "?b = h"
    with inv show ?thesis by simp
  next
    assume ph: "hPhase h \<noteq> GcIdle" and r: "r \<in> marks h"
      and b: "?b = markValue v h \<or> ?b = (markValue v h)\<lparr>hPhase := GcMark, hResumeSweep := True\<rparr>"
    let ?m = "markValue v h"
    have views: "hSlots ?b = hSlots ?m" "hHeapId ?b = hHeapId ?m" "hMarkStack ?b = hMarkStack ?m"
      "hFreeSlots ?b = hFreeSlots ?m" "hStats ?b = hStats ?m" "hSweepLimit ?b = hSweepLimit ?m"
      "hRoots ?b = hRoots ?m"
      using b by auto
    note M = marking_markValue [of h v] and V = get_views [OF views(1,2)]
    note D = markingD [OF M] and F = erase_fields [OF markingD(1) [OF M]]
    have t: "tri ?m" using tri_marking [OF M] inv ph by (simp add: heap_inv_def gc_ok_def)
    have "heap_wf ?b = heap_wf ?m" by (rule heap_wf_cong) (simp_all add: views)
    moreover have "heap_wf ?m" using heap_wf_erase [OF D(1)] inv by (simp add: heap_inv_def)
    moreover have "tri ?b" using tri_cong [OF views(1-3)] t by simp
    moreover have "sweep_ok ?b" using inv views F by (simp add: heap_inv_def sweep_ok_def)
    moreover have "contents ?b = contents h" using V(1) erase_contents [OF D(1)] by simp
    moreover have "set (value_refs v) \<inter> alive_refs h \<subseteq> marks ?b" using V(3) D(2) by auto
    ultimately show ?thesis using views(7) F(5) by (simp add: heap_inv_def gc_ok_def)
  qed
  then show "heap_inv ?b" "contents ?b = contents h" "hRoots ?b = hRoots h"
    and "hPhase ?b \<noteq> GcIdle \<Longrightarrow> r \<in> marks ?b \<Longrightarrow> set (value_refs v) \<inter> alive_refs h \<subseteq> marks ?b"
    by blast+
qed

section \<open>The store\<close>

definition stored :: "nat \<Rightarrow> Value \<Rightarrow> HeapObject \<Rightarrow> HeapObject" where
  "stored i v obj = obj\<lparr>hoPayload := PValues ((payloadValues obj)[i := v])\<rparr>"

lemma storeValue_get:
  assumes "heap_get r h = Some obj"
  shows "heap_get q (storeValue r i v h) = (if q = r then Some (stored i v obj) else heap_get q h)"
proof -
  note G = assms [unfolded heap_get_iff]
  let ?k = "unat (refSlot r)"
  have eq: "storeValue r i v h =
      h\<lparr>hSlots := (hSlots h)[?k := (hSlots h ! ?k)\<lparr>slotObject := Some (stored i v obj)\<rparr>]\<rparr>"
    using assms by (simp add: storeValue_def setObject_def stored_def)
  show ?thesis
  proof (cases "refSlot q = refSlot r")
    case True
    show ?thesis
    proof (cases "q = r")
      case True
      with G show ?thesis by (simp add: heap_get_iff eq stored_def)
    next
      case False
      have "heap_get q h = None"
        using heap_get_same_slot [OF assms _ True [symmetric]] False by (cases "heap_get q h") auto
      moreover have "heap_get q (storeValue r i v h) = None"
      proof (rule ccontr)
        assume "heap_get q (storeValue r i v h) \<noteq> None"
        then obtain o' where "heap_get q (storeValue r i v h) = Some o'" by blast
        then have "heap_get q h = Some obj" using True G by (auto simp: heap_get_iff eq stored_def)
        with \<open>heap_get q h = None\<close> show False by simp
      qed
      ultimately show ?thesis using False by simp
    qed
  next
    case False
    then have "unat (refSlot q) \<noteq> ?k" by (simp add: word_unat_eq_iff)
    then have "heap_get q (storeValue r i v h) = heap_get q h"
      by (simp add: heap_get_def eq nth_list_update_neq)
    with False show ?thesis by auto
  qed
qed

lemma storeValue_views:
  "hPhase (storeValue r i v h) = hPhase h" "hMarkStack (storeValue r i v h) = hMarkStack h"
  "hSweepLimit (storeValue r i v h) = hSweepLimit h" "hRoots (storeValue r i v h) = hRoots h"
  "length (hSlots (storeValue r i v h)) = length (hSlots h)"
  by (simp_all add: storeValue_def setObject_def split: option.split)

lemma storeValue_wf:
  assumes wf: "heap_wf h" and r: "heap_get r h = Some obj" and k: "hoKind obj \<noteq> KString"
  shows "heap_wf (storeValue r i v h)"
proof -
  note G = r [unfolded heap_get_iff] and W = heap_wfD [OF wf]
  let ?k = "unat (refSlot r)"
  let ?s = "(hSlots h ! ?k)\<lparr>slotObject := Some (stored i v obj)\<rparr>"
  have eq: "storeValue r i v h = h\<lparr>hSlots := (hSlots h)[?k := ?s]\<rparr>"
    using r by (simp add: storeValue_def setObject_def stored_def)
  have "slot_ok (hSlots h ! ?k)" using W(3) G by simp
  then have "slot_ok ?s" using G k by (simp add: slot_ok_def obj_ok_def stored_def)
  then have ok: "\<forall>s \<in> set ((hSlots h)[?k := ?s]). slot_ok s"
    using wf by (auto simp: heap_wf_def dest!: subsetD [OF set_update_subset_insert])
  have c: "slotCount ?s = slotCount (hSlots h ! ?k)" "slotBytes ?s = slotBytes (hSlots h ! ?k)"
    using G by (simp_all add: slotCount_def slotBytes_def stored_def)
  have "slotObject ((hSlots h)[?k := ?s] ! j) = None \<longleftrightarrow> j \<in> unat ` set (hFreeSlots h)"
    if j: "j < length (hSlots h)" for j
    using W(6) [OF j] G j by (auto simp: nth_list_update_in)
  then show ?thesis
    unfolding eq heap_wf_def using ok W(1,2,4,5,7,8) c G by (simp add: sum_list_map_update)
qed

text \<open>
  A store keeps the invariant when the references it can add to the traced ones of a marked
  owner are marked.
\<close>

lemma storeValue_inv:
  assumes inv: "heap_inv h" and r: "heap_get r h = Some obj" and k: "hoKind obj \<noteq> KString"
    and kids: "children (stored i v obj) \<subseteq> children obj \<union> new"
    and new: "hPhase h \<noteq> GcIdle \<Longrightarrow> r \<in> marks h \<Longrightarrow> new \<inter> alive_refs h \<subseteq> marks h"
  shows "heap_inv (storeValue r i v h)"
proof -
  let ?h = "storeValue r i v h"
  note get = storeValue_get [OF r]
  have m: "marks ?h = marks h" using r by (auto simp: marks_def get stored_def)
  have al: "alive_refs ?h = alive_refs h" using r by (auto simp: alive_refs_def get)
  have "tri ?h" if "hPhase ?h \<noteq> GcIdle"
  proof -
    have ph: "hPhase h \<noteq> GcIdle" using that by (simp add: storeValue_views)
    then have t: "tri h" using inv by (simp add: heap_inv_def gc_ok_def)
    have "children o' \<inter> alive_refs ?h \<subseteq> marks ?h"
      if q: "heap_get q ?h = Some o'" "q \<in> marks ?h" "q \<notin> set (hMarkStack ?h)" for q o'
    proof (cases "q = r")
      case True
      have "children obj \<inter> alive_refs h \<subseteq> marks h"
        using triD [OF t r] q(2,3) True m by (simp add: storeValue_views)
      moreover have "new \<inter> alive_refs h \<subseteq> marks h" using new ph q(2) True m by simp
      moreover have "o' = stored i v obj" using q(1) True get by simp
      ultimately show ?thesis using kids m al by blast
    next
      case False
      with q get have "heap_get q h = Some o'" by simp
      from triD [OF t this] q(2,3) m al show ?thesis by (simp add: storeValue_views)
    qed
    moreover have "set (hMarkStack ?h) \<subseteq> marks ?h"
      using t m by (simp add: tri_def storeValue_views)
    ultimately show ?thesis by (simp only: tri_def) blast
  qed
  then show ?thesis
    using inv storeValue_wf [OF _ r k] by (simp add: heap_inv_def gc_ok_def sweep_ok_def storeValue_views)
qed

lemma set_update_values: "set (values_refs (vs[i := v])) \<subseteq> set (values_refs vs) \<union> set (value_refs v)"
  using set_update_subset_insert [of vs i v] by (fastforce simp: set_values_refs)

lemma stored_array_children:
  assumes "hoKind obj = KArray" and "hoPayload obj = PValues vs"
  shows "children (stored i v obj) \<subseteq> children obj \<union> set (value_refs v)"
  using assms set_update_values [of vs i v]
  by (simp add: children_def traced_def stored_def payloadValues_def)

lemma stored_record_children:
  assumes k: "hoKind obj = KRecord" and pl: "hoPayload obj = PValues vs"
  shows "children (stored i v obj) \<subseteq> children obj \<union> set (value_refs v)"
    and "i \<notin> set (hoReferenceFields obj) \<Longrightarrow> children (stored i v obj) = children obj"
proof -
  let ?js = "filter (\<lambda>j. j < length vs) (hoReferenceFields obj)"
  have c: "children obj = (\<Union>j \<in> set ?js. set (value_refs (vs ! j)))"
    "children (stored i v obj) = (\<Union>j \<in> set ?js. set (value_refs (vs[i := v] ! j)))"
    using k pl by (simp_all add: children_def traced_def stored_def payloadValues_def set_values_refs)
  have upd: "vs[i := v] ! j = (if i = j then v else vs ! j)" if "j \<in> set ?js" for j
    using that by (auto simp: nth_list_update_in)
  show "children (stored i v obj) \<subseteq> children obj \<union> set (value_refs v)"
    unfolding c using upd by (fastforce split: if_splits)
  show "i \<notin> set (hoReferenceFields obj) \<Longrightarrow> children (stored i v obj) = children obj"
    unfolding c using upd by (intro SUP_cong) auto
qed

lemma getKind_iff: "getKind k r h = Some obj \<longleftrightarrow> heap_get r h = Some obj \<and> hoKind obj = k"
  by (auto simp: getKind_def split: option.splits if_splits)

lemma object_of_contents:
  assumes "contents h' = contents h" and "heap_get r h = Some obj"
  obtains obj' where "heap_get r h' = Some obj'" and "unmarkObject obj' = unmarkObject obj"
  using fun_cong [OF assms(1), of r] assms(2) by (cases "heap_get r h'") (auto simp: contents_def)

lemma unmark_same:
  assumes "unmarkObject a = unmarkObject b"
  shows "hoKind a = hoKind b" "hoPayload a = hoPayload b" "hoReferenceFields a = hoReferenceFields b"
    "children a = children b"
  using arg_cong [OF assms, of hoKind] arg_cong [OF assms, of hoPayload]
    arg_cong [OF assms, of hoReferenceFields] arg_cong [OF assms, of children]
  by (simp_all add: unmarkObject_def [abs_def] del: children_unmark) (metis assms children_unmark)

lemma heap_obj_ok:
  assumes "heap_wf h" and "heap_get r h = Some obj"
  shows "obj_ok obj"
  using heap_wfD(3) [OF assms(1)] assms(2) by (auto simp: heap_get_iff slot_ok_def)

lemma heap_inv_arraySet [rs_inv_intro]:
  assumes inv: "heap_inv h"
  shows "heap_inv (snd (arraySet r i v policy h))"
proof (cases "fst (arraySet r i v policy h) = Inr ()")
  case False
  then have "snd (arraySet r i v policy h) = h" by (auto simp: arraySet_def split: option.splits if_splits)
  with inv show ?thesis by simp
next
  case True
  then obtain obj where obj: "heap_get r h = Some obj" "hoKind obj = KArray"
    and eq: "snd (arraySet r i v policy h) = storeValue r i v (writeBarrier r v h)"
    by (auto simp: arraySet_def getKind_iff split: option.splits if_splits)
  note B = writeBarrier_ok [OF inv, of r v]
  obtain obj' where o': "heap_get r (writeBarrier r v h) = Some obj'" "unmarkObject obj' = unmarkObject obj"
    using object_of_contents [OF B(2) obj(1)] .
  note U = unmark_same [OF o'(2)]
  have "obj_ok obj'" using heap_obj_ok [OF _ o'(1)] B(1) by (simp add: heap_inv_def)
  then obtain vs where vs: "hoPayload obj' = PValues vs"
    using U obj(2) by (auto simp: obj_ok_def split: Payload.splits)
  have al: "alive_refs (writeBarrier r v h) = alive_refs h" using B(2) by (auto simp: alive_contents)
  have k: "hoKind obj' = KArray" using U(1) obj(2) by simp
  show ?thesis
    unfolding eq
    by (rule storeValue_inv [OF B(1) o'(1) _ stored_array_children [OF k vs]])
      (use B(3) al k in auto)
qed

lemma heap_inv_fieldSet [rs_inv_intro]:
  assumes inv: "heap_inv h"
  shows "heap_inv (snd (fieldSet r i v h))"
proof (cases "fst (fieldSet r i v h) = Inr ()")
  case False
  then have "snd (fieldSet r i v h) = h"
    by (auto simp: fieldSet_def Let_def split: option.splits if_splits)
  with inv show ?thesis by simp
next
  case True
  then obtain obj where obj: "heap_get r h = Some obj" "hoKind obj = KRecord"
    and eq: "snd (fieldSet r i v h) = storeValue r i v
        (if binarySearch (hoReferenceFields obj) i then writeBarrier r v h else h)"
    by (auto simp: fieldSet_def getKind_iff Let_def split: option.splits if_splits)
  have ok: "obj_ok obj" using heap_obj_ok [OF _ obj(1)] inv by (simp add: heap_inv_def)
  then obtain vs where vs: "hoPayload obj = PValues vs"
    using obj(2) by (auto simp: obj_ok_def split: Payload.splits)
  have srt: "sorted (hoReferenceFields obj)" using ok by (simp add: obj_ok_def)
  show ?thesis
  proof (cases "i \<in> set (hoReferenceFields obj)")
    case True
    note B = writeBarrier_ok [OF inv, of r v]
    obtain obj' where o': "heap_get r (writeBarrier r v h) = Some obj'"
      "unmarkObject obj' = unmarkObject obj"
      using object_of_contents [OF B(2) obj(1)] .
    note U = unmark_same [OF o'(2)]
    have al: "alive_refs (writeBarrier r v h) = alive_refs h" using B(2) by (auto simp: alive_contents)
    have k: "hoKind obj' = KRecord" and vs': "hoPayload obj' = PValues vs" using U(1,2) obj(2) vs by simp_all
    have eq': "snd (fieldSet r i v h) = storeValue r i v (writeBarrier r v h)"
      using eq True binarySearch_iff [OF srt] by simp
    show ?thesis
      unfolding eq'
      by (rule storeValue_inv [OF B(1) o'(1) _ stored_record_children(1) [OF k vs']])
        (use B(3) al k in auto)
  next
    case False
    have "children (stored i v obj) \<subseteq> children obj \<union> {}"
      using stored_record_children(2) [OF obj(2) vs False] by simp
    from storeValue_inv [OF inv obj(1) _ this] obj(2) False binarySearch_iff [OF srt] eq
    show ?thesis by simp
  qed
qed

section \<open>Roots and requests\<close>

lemma heap_inv_roots [simp]:
  "heap_inv (h\<lparr>hRoots := m\<rparr>) = heap_inv h" "heap_inv (h\<lparr>hNextRootToken := n\<rparr>) = heap_inv h"
proof -
  have E: "heap_inv h' = heap_inv h"
    if "hSlots h' = hSlots h" "hHeapId h' = hHeapId h" "hFreeSlots h' = hFreeSlots h"
      "hMarkStack h' = hMarkStack h" "hStats h' = hStats h" "hPhase h' = hPhase h"
      "hSweepLimit h' = hSweepLimit h" for h' h
    using heap_wf_cong [OF that(1-3)] tri_cong [OF that(1,2,4)] that(1,5,6,7)
    by (simp add: heap_inv_def gc_ok_def sweep_ok_def)
  show "heap_inv (h\<lparr>hRoots := m\<rparr>) = heap_inv h" by (rule E) simp_all
  show "heap_inv (h\<lparr>hNextRootToken := n\<rparr>) = heap_inv h" by (rule E) simp_all
qed

lemma heap_inv_root [rs_inv_intro]:
  assumes "heap_inv h"
  shows "heap_inv (snd (addPersistentRoot v h))" and "heap_inv (snd (updatePersistentRoot t v h))"
    and "heap_inv (snd (removePersistentRoot t h))" and "heap_inv (requestCollection h)"
  using assms
  by (simp_all add: addPersistentRoot_def updatePersistentRoot_def removePersistentRoot_def
      requestCollection_def Let_def split: option.split)

lemma heap_inv_drain: "heap_inv h \<Longrightarrow> heap_inv (drainCollection shadow h)"
proof (induction shadow h rule: drainCollection.induct)
  case (1 shadow h)
  then show ?case by (subst drainCollection.simps) (auto intro: heap_inv_step)
qed

lemma heap_inv_collectFull [rs_inv_intro]: "heap_inv h \<Longrightarrow> heap_inv (collectFull shadow h)"
  by (simp add: collectFull_def heap_inv_drain heap_inv_root(4))

end
