(* ===== verification/Heap_Collection.thy ===== *)
theory Heap_Collection
  imports Heap_Mutator
begin

text \<open>
  A full collection leaves exactly the reachable objects. A collection that starts from an
  idle heap and runs without the mutator marks only reachable objects, sweeps every slot
  once and never goes back to marking; \<open>exact\<close> is that invariant. The last section states
  the properties of the heap over all states its operations can reach.
\<close>

section \<open>A collection without interference\<close>

definition swept :: "ManagedHeap \<Rightarrow> nat \<Rightarrow> bool" where
  "swept h i \<longleftrightarrow> (\<forall>obj. slotObject (hSlots h ! i) = Some obj \<longrightarrow> hoMarked obj)"

definition exact :: "ObjectRef set \<Rightarrow> ManagedHeap \<Rightarrow> bool" where
  "exact R h \<longleftrightarrow>
     hPhase h \<noteq> GcIdle \<and> tri h \<and> R \<inter> alive_refs h \<subseteq> marks h \<and> marks h \<subseteq> reach h R \<and>
     \<not> hResumeSweep h \<and> hSweepLimit h = length (hSlots h) \<and>
     (hPhase h = GcSweep \<longrightarrow> hMarkStack h = [] \<and>
        (\<forall>i < hSweepIndex h. i < length (hSlots h) \<longrightarrow> swept h i))"

lemma exactD:
  assumes "exact R h"
  shows "hPhase h \<noteq> GcIdle" "tri h" "R \<inter> alive_refs h \<subseteq> marks h" "marks h \<subseteq> reach h R"
    "\<not> hResumeSweep h" "hSweepLimit h = length (hSlots h)"
    "hPhase h = GcSweep \<Longrightarrow> hMarkStack h = []"
    "hPhase h = GcSweep \<Longrightarrow> i < hSweepIndex h \<Longrightarrow> i < length (hSlots h) \<Longrightarrow> swept h i"
  using assms by (auto simp: exact_def)

lemma exact_resumeMark: "exact R h \<Longrightarrow> resumeMark h = h"
  by (simp add: resumeMark_def exact_def)

lemma reach_contents: "contents h' = contents h \<Longrightarrow> reach h' R = reach h R"
  by (rule survives_reach [OF survives_same])

lemma exact_beginSweep:
  assumes ex: "exact R h" and stack: "hMarkStack h = []"
  shows "exact R (beginSweep h)" and "contents (beginSweep h) = contents h"
proof -
  note V = get_views [OF beginSweep_views(1,2)] and E = exactD [OF ex]
  show "contents (beginSweep h) = contents h" by (rule V(1))
  then have "reach (beginSweep h) R = reach h R" by (rule reach_contents)
  moreover have "tri (beginSweep h)" using tri_cong [OF beginSweep_views(1-3)] E(2) by simp
  ultimately show "exact R (beginSweep h)"
    using E V stack by (simp add: exact_def beginSweep_views) (simp add: beginSweep_def)
qed

lemma exact_markStep:
  assumes ex: "exact R h" and ph: "hPhase h = GcMark" and stack: "hMarkStack h \<noteq> []"
  shows "exact R (markStep h)" and "contents (markStep h) = contents h"
proof -
  note E = exactD [OF ex] and M = markStep_ok [OF exactD(2) [OF ex] stack]
  show "contents (markStep h) = contents h" by (rule M(2))
  then have r: "reach (markStep h) R = reach h R" by (rule reach_contents)
  have al: "alive_refs (markStep h) = alive_refs h" using M(2) by (auto simp: alive_contents)
  have "c \<in> reach h R" if "q \<in> marks h" "heap_get q h = Some obj" "c \<in> children obj" "c \<in> alive_refs h"
    for q obj c
    using that E(4) by (auto intro: reach.reach_child)
  then have "marks (markStep h) \<subseteq> reach h R" using M(4) E(4) by blast
  then show "exact R (markStep h)"
    using E M r al ph by (auto simp: exact_def markStep_sizes)
qed

lemma sweepStep_slots:
  "j \<noteq> hSweepIndex h \<Longrightarrow> hSlots (sweepStep h) ! j = hSlots h ! j"
  by (simp add: sweepStep_def reclaimSlot_def Let_def split: option.split)

lemma sweepStep_swept:
  assumes "hSweepIndex h < length (hSlots h)"
  shows "swept (sweepStep h) (hSweepIndex h)"
  using assms
  by (auto simp: swept_def sweepStep_def reclaimSlot_def Let_def split: option.splits)

lemma exact_sweepStep:
  assumes ex: "exact R h" and ph: "hPhase h = GcSweep" and i: "hSweepIndex h < hSweepLimit h"
  shows "exact R (sweepStep h)" and "survives R h (sweepStep h)"
proof -
  note E = exactD [OF ex]
  have i': "hSweepIndex h < length (hSlots h)" using i E(6) by simp
  note S = sweepStep_ok [OF E(2) E(7) [OF ph] i' E(3)]
  show "survives R h (sweepStep h)" by (rule S(2))
  then have r: "reach (sweepStep h) R = reach h R" by (rule survives_reach)
  have "swept (sweepStep h) j" if "j < Suc (hSweepIndex h)" "j < length (hSlots h)" for j
  proof (cases "j = hSweepIndex h")
    case True
    with sweepStep_swept [OF i'] show ?thesis by simp
  next
    case False
    with that have "j < hSweepIndex h" by simp
    from E(8) [OF ph this that(2)] False show ?thesis by (simp add: swept_def sweepStep_slots)
  qed
  then show "exact R (sweepStep h)"
    using E S r ph E(7) [OF ph] by (auto simp: exact_def sweepStep_sizes sweepStep_stack)
qed

lemma exact_finish:
  assumes ex: "exact R h" and ph: "hPhase h = GcSweep" and i: "hSweepLimit h \<le> hSweepIndex h"
  shows "alive_refs h = reach h R"
proof -
  note E = exactD [OF ex]
  have "alive_refs h \<subseteq> marks h"
  proof
    fix r assume "r \<in> alive_refs h"
    then obtain obj where obj: "heap_get r h = Some obj" by (auto simp: alive_refs_def)
    then have k: "unat (refSlot r) < length (hSlots h)"
      "slotObject (hSlots h ! unat (refSlot r)) = Some obj" by (auto simp: heap_get_iff)
    then have "swept h (unat (refSlot r))" using E(6,8) ph i by simp
    with k obj show "r \<in> marks h" by (auto simp: swept_def marks_def)
  qed
  with E(4) reach_alive show ?thesis by blast
qed

lemma workLoop_exact:
  assumes "exact R h"
  shows "survives R h (snd (workLoop left h)) \<and>
    (if hPhase (snd (workLoop left h)) = GcIdle
     then \<not> hRequested (snd (workLoop left h)) \<and> alive_refs (snd (workLoop left h)) = reach h R
     else exact R (snd (workLoop left h)))"
  using assms
proof (induction left h rule: workLoop.induct)
  case (1 left h)
  note rm = exact_resumeMark [OF 1(4)] and E = exactD [OF 1(4)]
  show ?case
  proof (cases "left = 0")
    case True
    with 1(4) E(1) show ?thesis by (simp add: workLoop_stop survives_refl)
  next
    case False
    have next_turn: ?thesis
      if s: "survives R h h1" and w: "workLoop left h = workLoop left' h1"
        and IH: "survives R h1 (snd (workLoop left' h1)) \<and>
          (if hPhase (snd (workLoop left' h1)) = GcIdle
           then \<not> hRequested (snd (workLoop left' h1)) \<and> alive_refs (snd (workLoop left' h1)) = reach h1 R
           else exact R (snd (workLoop left' h1)))" for left' h1
      using survives_trans [OF s] IH survives_reach [OF s] unfolding w by simp
    show ?thesis
    proof (cases "hPhase h")
      case GcIdle
      with E(1) show ?thesis by simp
    next
      case GcMark
      show ?thesis
      proof (cases "hMarkStack h = []")
        case True
        note B = exact_beginSweep [OF 1(4) True]
        have w: "workLoop left h = workLoop left (beginSweep h)"
          using workLoop_begin [of left h] False GcMark True by (simp add: rm)
        show ?thesis
          by (rule next_turn [OF survives_same [OF B(2)] w])
            (use 1(1) [OF False refl] GcMark True rm B(1) in auto)
      next
        case stack: False
        note M = exact_markStep [OF 1(4) GcMark stack]
        have w: "workLoop left h = workLoop (left - 1) (markStep h)"
          using workLoop_mark [of left h] False GcMark stack by (simp add: rm)
        show ?thesis
          by (rule next_turn [OF survives_same [OF M(2)] w])
            (use 1(2) [OF False refl] GcMark stack rm M(1) in auto)
      qed
    next
      case GcSweep
      show ?thesis
      proof (cases "hSweepLimit h \<le> hSweepIndex h")
        case True
        have w: "workLoop left h = (left, finishCollection h)"
          using workLoop_finish [of left h] False GcSweep True by (simp add: rm)
        note V = get_views [OF finishCollection_views(1,2), of h]
        show ?thesis
          using exact_finish [OF 1(4) GcSweep True] V survives_same [OF V(1)]
          by (simp add: w finishCollection_views)
      next
        case sweep: False
        then have i: "hSweepIndex h < hSweepLimit h" by simp
        note S = exact_sweepStep [OF 1(4) GcSweep i]
        have w: "workLoop left h = workLoop (left - 1) (sweepStep h)"
          using workLoop_sweep [of left h] False GcSweep sweep by (simp add: rm)
        show ?thesis
          by (rule next_turn [OF S(2) w])
            (use 1(3) [OF False refl] GcSweep sweep rm S(1) in auto)
      qed
    qed
  qed
qed

section \<open>The persistent roots do not move\<close>

lemma markStep_roots: "hRoots (markStep h) = hRoots h"
  using erase_fields(5) [OF scan_erase [of "hd (hMarkStack h)" "h\<lparr>hMarkStack := tl (hMarkStack h)\<rparr>"]]
  by (simp add: markStep_def Let_def)

lemma sweepStep_roots: "hRoots (sweepStep h) = hRoots h"
  by (simp add: sweepStep_def reclaimSlot_def Let_def split: option.split)

lemma workLoop_roots: "hRoots (snd (workLoop left h)) = hRoots h"
proof (induction left h rule: workLoop.induct)
  case (1 left h)
  have rm: "hRoots (resumeMark h) = hRoots h" by (simp add: resumeMark_def)
  show ?case
  proof (cases "left = 0")
    case True
    then show ?thesis by (simp add: workLoop_stop)
  next
    case False
    show ?thesis
      using 1 [OF False refl] rm False
      by (subst workLoop.simps)
        (simp add: Let_def beginSweep_def finishCollection_def markStep_roots sweepStep_roots
          split: GcPhase.split)
  qed
qed

lemma step_roots: "hRoots (snd (step shadow budget h)) = hRoots h"
proof (cases "budget = 0 \<or> (hPhase h = GcIdle \<and> \<not> hRequested h)")
  case True
  then have "snd (step shadow budget h) = h" by (auto simp: step_def)
  then show ?thesis by simp
next
  case False
  from False have "snd (step shadow budget h) = snd (workLoop budget (stepStart shadow h))"
    by (intro step_workLoop) auto
  moreover have "hRoots (stepStart shadow h) = hRoots h"
    by (simp add: stepStart_def startCollection_cleared erase_fields(5) [OF markRoots_erase] cleared_def)
  ultimately show ?thesis by (simp add: workLoop_roots)
qed

lemma step_root_refs: "root_refs shadow (snd (step s budget h)) = root_refs shadow h"
  by (simp add: root_refs_def step_roots)

section \<open>Full collection\<close>

text \<open>Marking again what is marked changes nothing.\<close>

lemma mark_same: "{r} \<inter> alive_refs h \<subseteq> marks h \<Longrightarrow> mark r h = h"
  by (auto simp: mark_def alive_refs_def marks_def split: option.split)

lemma markValueIn_same:
  "set (value_refs v) \<inter> alive_refs (snd vh) \<subseteq> marks (snd vh) \<Longrightarrow> snd (markValueIn v vh) = snd vh"
  "set (values_refs vs) \<inter> alive_refs (snd vh) \<subseteq> marks (snd vh) \<Longrightarrow> snd (markFieldsIn vs vh) = snd vh"
proof (induction v vh and vs vh rule: markValueIn_markFieldsIn.induct)
  case (1 r vh)
  then show ?case by (simp add: mark_same)
next
  case (5 v vs vh)
  then have "snd (markValueIn v vh) = snd vh" by auto
  with 5 show ?case by auto
qed auto

lemma markValues_same:
  "set (values_refs vs) \<inter> alive_refs h \<subseteq> marks h \<Longrightarrow> fold markValue vs h = h"
proof (induction vs)
  case Nil
  then show ?case by simp
next
  case (Cons v vs)
  then have "markValue v h = h"
    using markValueIn_same(1) [of v "([], h)"] by (auto simp: markValue_def)
  with Cons show ?case by auto
qed

lemma stepStart_exact:
  assumes inv: "heap_inv h" and c: "hPhase h = GcIdle \<or> exact (root_refs shadow h) h"
  shows "exact (root_refs shadow h) (stepStart shadow h)"
proof -
  let ?R = "root_refs shadow h" and ?s = "stepStart shadow h"
  have ok: "gc_ok h" "sweep_ok h" using inv by (auto simp: heap_inv_def)
  note S = stepStart_ok [OF ok, of shadow]
  show "exact ?R ?s"
  proof (cases "hPhase h = GcIdle")
    case True
    have "?R \<inter> alive_refs h \<subseteq> reach h ?R" by (auto intro: reach.reach_root)
    then have "marks ?s \<subseteq> reach ?s ?R" using S(7) True reach_contents [OF S(3)] by auto
    moreover have "hPhase ?s = GcMark \<and> \<not> hResumeSweep ?s \<and> hSweepLimit ?s = length (hSlots ?s)"
      using S(8) True by blast
    ultimately show ?thesis using S(1,2,4) by (simp add: exact_def)
  next
    case False
    with c have ex: "exact ?R h" by blast
    have "markRoots shadow h = h"
      using exactD(3) [OF ex] unfolding markRoots_def root_refs_def by (rule markValues_same)
    with False ex show ?thesis by (simp add: stepStart_def)
  qed
qed

lemma step_exact:
  assumes inv: "heap_inv h" and budget: "budget \<noteq> 0"
    and c: "hPhase h = GcIdle \<and> hRequested h \<or> exact (root_refs shadow h) h"
  defines "h' \<equiv> snd (step shadow budget h)"
  shows "if hPhase h' = GcIdle
    then \<not> hRequested h' \<and> alive_refs h' = reach h (root_refs shadow h)
    else exact (root_refs shadow h) h'"
proof -
  let ?R = "root_refs shadow h"
  have ok: "gc_ok h" "sweep_ok h" using inv by (auto simp: heap_inv_def)
  have eq: "h' = snd (workLoop budget (stepStart shadow h))"
    unfolding h'_def by (rule step_workLoop) (use budget c exactD(1) in auto)
  have "exact ?R (stepStart shadow h)" by (rule stepStart_exact) (use inv c in auto)
  from workLoop_exact [OF this, of budget] show ?thesis
    unfolding eq reach_contents [OF stepStart_ok(3) [OF ok]] by blast
qed

lemma drain_exact:
  assumes "heap_inv h" and "hPhase h = GcIdle \<and> hRequested h \<or> exact (root_refs shadow h) h"
  shows "alive_refs (drainCollection shadow h) = reach h (root_refs shadow h)"
  using assms
proof (induction shadow h rule: drainCollection.induct)
  case (1 shadow h)
  let ?b = "max 64 (length (hSlots h) + 1)"
  let ?h' = "snd (step shadow ?b h)"
  have go: "hPhase h \<noteq> GcIdle \<or> hRequested h" using 1(3) exactD(1) by blast
  have ok: "gc_ok h" "sweep_ok h" using 1(2) by (auto simp: heap_inv_def)
  have inv': "heap_inv ?h'" by (rule heap_inv_step [OF 1(2)])
  have sv: "survives (root_refs shadow h) h ?h'" using step_safe [OF ok] by blast
  have b: "?b \<noteq> 0" by (simp only: max_def) simp
  note X = step_exact [OF 1(2) b 1(3)]
  have eq: "drainCollection shadow h = drainCollection shadow ?h'"
    using go by (subst drainCollection.simps) simp
  show ?case
  proof (cases "hPhase ?h' = GcIdle")
    case True
    with X have "\<not> hRequested ?h'" "alive_refs ?h' = reach h (root_refs shadow h)" by auto
    with True show ?thesis unfolding eq by (subst drainCollection.simps) simp
  next
    case False
    with X have "exact (root_refs shadow ?h') ?h'" by (simp add: step_root_refs)
    with 1(1) [OF go inv'] survives_reach [OF sv] show ?thesis
      unfolding eq by (simp add: step_root_refs)
  qed
qed

lemma drain_survives:
  assumes "heap_inv h"
  shows "survives (root_refs shadow h) h (drainCollection shadow h) \<and>
    hRoots (drainCollection shadow h) = hRoots h \<and> hPhase (drainCollection shadow h) = GcIdle \<and>
    \<not> hRequested (drainCollection shadow h)"
  using assms
proof (induction shadow h rule: drainCollection.induct)
  case (1 shadow h)
  show ?case
  proof (cases "hPhase h \<noteq> GcIdle \<or> hRequested h")
    case True
    let ?h' = "snd (step shadow (max 64 (length (hSlots h) + 1)) h)"
    have ok: "gc_ok h" "sweep_ok h" using 1(2) by (auto simp: heap_inv_def)
    have "survives (root_refs shadow h) h ?h'" using step_safe [OF ok] by blast
    moreover have "drainCollection shadow h = drainCollection shadow ?h'"
      using True by (subst drainCollection.simps) simp
    ultimately show ?thesis
      using 1(1) [OF True heap_inv_step [OF 1(2)]] survives_trans [of "root_refs shadow h" h ?h']
      by (simp add: step_root_refs step_roots)
  next
    case False
    then have "drainCollection shadow h = h" by (subst drainCollection.simps) simp
    with False show ?thesis by (simp add: survives_refl)
  qed
qed

lemma collectFull_exact:
  assumes inv: "heap_inv h"
  shows "alive_refs (collectFull shadow h) = reach h (root_refs shadow h) \<and>
    survives (root_refs shadow h) h (collectFull shadow h) \<and>
    hPhase (collectFull shadow h) = GcIdle \<and> \<not> hRequested (collectFull shadow h)"
proof -
  let ?R = "root_refs shadow h"
  let ?h0 = "if hPhase h \<noteq> GcIdle then drainCollection shadow h else h"
  let ?h1 = "requestCollection ?h0"
  have h0: "survives ?R h ?h0" "hRoots ?h0 = hRoots h" "hPhase ?h0 = GcIdle" "heap_inv ?h0"
    using drain_survives [OF inv, of shadow] heap_inv_drain [OF inv, of shadow] inv
    by (auto simp: survives_refl)
  have v: "contents ?h1 = contents ?h0"
    by (rule get_views(1)) (simp_all add: requestCollection_def)
  have R1: "root_refs shadow ?h1 = ?R" using h0(2) by (simp add: root_refs_def requestCollection_def)
  have inv1: "heap_inv ?h1" using h0(4) by (rule heap_inv_root(4))
  have idle: "hPhase ?h1 = GcIdle \<and> hRequested ?h1" using h0(3) by (simp add: requestCollection_def)
  have s1: "survives ?R h ?h1" by (rule survives_trans [OF h0(1) survives_same [OF v]])
  have "alive_refs (drainCollection shadow ?h1) = reach ?h1 ?R"
    using drain_exact [OF inv1, of shadow] idle by (simp add: R1)
  moreover have "reach ?h1 ?R = reach h ?R" by (rule survives_reach [OF s1])
  moreover have "survives ?R ?h1 (drainCollection shadow ?h1)" "hPhase (drainCollection shadow ?h1) = GcIdle"
    "\<not> hRequested (drainCollection shadow ?h1)"
    using drain_survives [OF inv1, of shadow] by (simp_all add: R1)
  ultimately show ?thesis
    using survives_trans [OF s1] by (simp add: collectFull_def)
qed

section \<open>The operations of a heap and its reachable states\<close>

datatype heap_op =
    OpAllocString string
  | OpAllocTypedArray SymbolId PrimitiveType SymbolId nat Value
  | OpAllocArray nat Value
  | OpAllocRecord nat
  | OpAllocObject SymbolId "Value list" "nat list"
  | OpArraySet ObjectRef nat Value ArrayStoreTypePolicy
  | OpFieldSet ObjectRef nat Value
  | OpAddRoot Value
  | OpUpdateRoot u64 Value
  | OpRemoveRoot u64
  | OpRequest
  | OpStep ShadowStack nat
  | OpCollectFull ShadowStack

fun heap_apply :: "heap_op \<Rightarrow> ManagedHeap \<Rightarrow> ManagedHeap" where
  "heap_apply (OpAllocString s) h = snd (allocateString s h)"
| "heap_apply (OpAllocTypedArray a e t n v) h = snd (allocateTypedArray a e t n v h)"
| "heap_apply (OpAllocArray n v) h = snd (allocateArray n v h)"
| "heap_apply (OpAllocRecord n) h = snd (allocateRecord n h)"
| "heap_apply (OpAllocObject t vs rf) h = snd (allocateObject t vs rf h)"
| "heap_apply (OpArraySet r i v p) h = snd (arraySet r i v p h)"
| "heap_apply (OpFieldSet r i v) h = snd (fieldSet r i v h)"
| "heap_apply (OpAddRoot v) h = snd (addPersistentRoot v h)"
| "heap_apply (OpUpdateRoot t v) h = snd (updatePersistentRoot t v h)"
| "heap_apply (OpRemoveRoot t) h = snd (removePersistentRoot t h)"
| "heap_apply OpRequest h = requestCollection h"
| "heap_apply (OpStep shadow budget) h = snd (step shadow budget h)"
| "heap_apply (OpCollectFull shadow) h = collectFull shadow h"

definition heap_run :: "heap_op list \<Rightarrow> ManagedHeap \<Rightarrow> ManagedHeap" where
  "heap_run ops h = fold heap_apply ops h"

lemma heap_inv_apply: "heap_inv h \<Longrightarrow> heap_inv (heap_apply op h)"
  by (cases op) (simp_all add: rs_inv_intro)

lemma heap_inv_run: "heap_inv h \<Longrightarrow> heap_inv (heap_run ops h)"
  unfolding heap_run_def by (induction ops arbitrary: h) (simp_all add: heap_inv_apply)

lemma heap_inv_reachable: "heapId \<noteq> 0 \<Longrightarrow> heap_inv (heap_run ops (newHeap config heapId))"
  by (rule heap_inv_run) (rule newHeap_inv)

end
