(* ===== verification/Heap_Properties.thy ===== *)
theory Heap_Properties
  imports Heap_Collection "HOL-Library.Code_Target_Nat"
begin

text \<open>
  The properties of the managed heap, over all states that the operations of
  \<open>Heap_Collection\<close> reach from a new heap.
\<close>

definition exampleConfig :: HeapConfig where
  "exampleConfig = \<lparr>initialCollectionThresholdBytes = 64, maximumHeapBytes = 4096,
     sizeofHeapObject = 96, sizeofValue = 48\<rparr>"

definition exampleShadow :: ShadowStack where
  "exampleShadow = [\<lparr>frArguments = None, frLocals = Some [VRef (ObjectRef 1 1 KArray 7)],
     frRegisters = None\<rparr>]"

text \<open>
  A string that only an array element holds, while a collection that was started before the
  store is in progress.
\<close>

definition exampleOps :: "heap_op list" where
  "exampleOps =
     [OpAllocString ''kept'', OpAllocArray 1 VNone, OpRequest, OpStep exampleShadow 1,
      OpArraySet (ObjectRef 1 1 KArray 7) 0 (VRef (ObjectRef 0 1 KString 7)) StoreExact]"

definition exampleHeap :: ManagedHeap where
  "exampleHeap = heap_run exampleOps (newHeap exampleConfig 7)"

text \<open>
  C2: no step of the incremental collector frees or changes an object that the roots reach,
  for any history of allocations, stores, root changes and collector steps, any shadow stack
  and any work budget.
\<close>

theorem step_keeps_reachable:
  assumes "heapId \<noteq> 0" and "h = heap_run ops (newHeap config heapId)"
    and "r \<in> reach h (root_refs shadow h)"
  shows "isAlive r (snd (step shadow budget h)) \<and> contents (snd (step shadow budget h)) r = contents h r"
proof -
  have "heap_inv h" using heap_inv_reachable assms by blast
  then have "survives (root_refs shadow h) h (snd (step shadow budget h))"
    using step_safe by (auto simp: heap_inv_def)
  then have "contents (snd (step shadow budget h)) r = contents h r"
    using assms(3) by (simp add: survives_def)
  moreover have "contents h r \<noteq> None" using subsetD [OF reach_alive assms(3)] by (simp add: alive_contents)
  ultimately show ?thesis by (auto simp: isAlive_def contents_def)
qed

lemma exampleHeap_eq:
  "exampleHeap =
     \<lparr>hConfig = exampleConfig, hHeapId = 7,
      hSlots =
        [\<lparr>slotObject =
            Some \<lparr>hoKind = KString, hoTypeId = 0, hoElementType = PtError, hoElementTypeId = 0,
              hoMarked = True, hoSizeBytes = 100, hoPayload = PString ''kept'',
              hoReferenceFields = []\<rparr>,
          slotGeneration = 1\<rparr>,
         \<lparr>slotObject =
            Some \<lparr>hoKind = KArray, hoTypeId = 0, hoElementType = PtError, hoElementTypeId = 0,
              hoMarked = True, hoSizeBytes = 144,
              hoPayload = PValues [VRef (ObjectRef 0 1 KString 7)], hoReferenceFields = []\<rparr>,
          slotGeneration = 1\<rparr>],
      hFreeSlots = [], hMarkStack = [ObjectRef 0 1 KString 7], hRoots = [], hNextRootToken = 1,
      hPhase = GcMark, hRequested = True, hResumeSweep = False, hSweepIndex = 0,
      hSweepLimit = 2, hThreshold = 64,
      hStats = \<lparr>objectsAllocated = 2, bytesAllocated = 244, collectionsStarted = 1,
        collectionsCompleted = 0, objectsReclaimed = 0, bytesReclaimed = 0, markWork = 1,
        sweepWork = 0, liveObjects = 2, liveBytes = 244, peakLiveBytes = 244\<rparr>\<rparr>"
  by code_simp

lemma exampleShadow_visit: "visitRoots exampleShadow = [VRef (ObjectRef 1 1 KArray 7)]"
  by code_simp

lemma exampleHeap_reach:
  "ObjectRef 0 1 KString 7 \<in> reach exampleHeap (root_refs exampleShadow exampleHeap)"
proof (rule reach_child)
  show "ObjectRef 1 1 KArray 7 \<in> reach exampleHeap (root_refs exampleShadow exampleHeap)"
  proof (rule reach_root)
    show "ObjectRef 1 1 KArray 7 \<in> root_refs exampleShadow exampleHeap"
      unfolding root_refs_def exampleShadow_visit by simp
    have "isAlive (ObjectRef 1 1 KArray 7) exampleHeap" unfolding exampleHeap_eq by code_simp
    then show "ObjectRef 1 1 KArray 7 \<in> alive_refs exampleHeap"
      by (simp add: isAlive_def alive_refs_def)
  qed
  show "heap_get (ObjectRef 1 1 KArray 7) exampleHeap =
      Some (the (heap_get (ObjectRef 1 1 KArray 7) exampleHeap))" unfolding exampleHeap_eq by code_simp
  have "value_refs (hd (traced (the (heap_get (ObjectRef 1 1 KArray 7) exampleHeap)))) =
      [ObjectRef 0 1 KString 7]" unfolding exampleHeap_eq by code_simp
  moreover have "traced (the (heap_get (ObjectRef 1 1 KArray 7) exampleHeap)) =
      [hd (traced (the (heap_get (ObjectRef 1 1 KArray 7) exampleHeap)))]" unfolding exampleHeap_eq by code_simp
  ultimately show "ObjectRef 0 1 KString 7 \<in>
      children (the (heap_get (ObjectRef 1 1 KArray 7) exampleHeap))"
    unfolding children_def by (metis append_Nil2 list.set_intros(1) values_refs.simps)
  have "isAlive (ObjectRef 0 1 KString 7) exampleHeap" unfolding exampleHeap_eq by code_simp
  then show "ObjectRef 0 1 KString 7 \<in> alive_refs exampleHeap"
    by (simp add: isAlive_def alive_refs_def)
qed

theorem step_keeps_reachable_witness:
  "isAlive (ObjectRef 0 1 KString 7) (snd (step exampleShadow 100 exampleHeap)) \<and>
   contents (snd (step exampleShadow 100 exampleHeap)) (ObjectRef 0 1 KString 7) =
   contents exampleHeap (ObjectRef 0 1 KString 7)"
  using step_keeps_reachable [OF _ exampleHeap_def exampleHeap_reach] by simp

text \<open>
  C1: \<open>collectFull\<close> returns, whatever phase it finds the collector in, and leaves exactly the
  objects that the roots reach: no reachable object is freed or changed and no unreachable
  one survives.
\<close>

theorem collectFull_leaves_exactly_reachable:
  assumes "heapId \<noteq> 0" and "h = heap_run ops (newHeap config heapId)"
  shows "alive_refs (collectFull shadow h) = reach h (root_refs shadow h) \<and>
    (\<forall>r. r \<in> reach h (root_refs shadow h) \<longrightarrow> contents (collectFull shadow h) r = contents h r) \<and>
    hPhase (collectFull shadow h) = GcIdle"
proof -
  have "heap_inv h" using heap_inv_reachable assms by blast
  from collectFull_exact [OF this, of shadow] show ?thesis by (simp add: survives_def)
qed

theorem collectFull_leaves_exactly_reachable_witness:
  "ObjectRef 0 1 KString 7 \<in> alive_refs (collectFull exampleShadow exampleHeap) \<and>
   alive_refs (collectFull [] exampleHeap) = {}"
proof
  have seven: "(7 :: u64) \<noteq> 0" by simp
  note C = collectFull_leaves_exactly_reachable [OF seven exampleHeap_def]
  show "ObjectRef 0 1 KString 7 \<in> alive_refs (collectFull exampleShadow exampleHeap)"
    using C [of exampleShadow] exampleHeap_reach by blast
  have "hRoots exampleHeap = []" unfolding exampleHeap_eq by code_simp
  then have "root_refs [] exampleHeap = {}" unfolding root_refs_def visitRoots_def by simp
  moreover have "reach exampleHeap {} = {}"
  proof -
    have "r \<in> reach exampleHeap {} \<Longrightarrow> False" for r by (induction rule: reach.induct) auto
    then show ?thesis by blast
  qed
  ultimately show "alive_refs (collectFull [] exampleHeap) = {}" using C [of "[]"] by simp
qed

text \<open>
  C9: an allocation that succeeds returns a reference that was not alive, gives it exactly
  the new object, and changes the meaning of no other reference: live objects are untouched
  and every stale reference stays dead.
\<close>

theorem allocateObject_fresh:
  assumes "heapId \<noteq> 0" and "h = heap_run ops (newHeap config heapId)"
    and "allocateObject typeId vals refFields h = (Inr r, h')"
  shows "\<not> isAlive r h \<and> (\<forall>i. fieldGet r i h' = (if i < length vals then Some (vals ! i) else None)) \<and>
    (\<forall>q. q \<noteq> r \<longrightarrow> heap_get q h' = heap_get q h)"
proof -
  have inv: "heap_inv h" using heap_inv_reachable assms by blast
  let ?bytes = "sizeofHeapObject (hConfig h) + estimateValueStorage (length vals) h"
  let ?rf = "remdups_adj (sort refFields)"
  have run: "allocate KRecord typeId PtError 0 (PValues vals) ?rf ?bytes h = (Inr r, h')"
    using assms(3) by (auto simp: allocateObject_def Let_def split: if_splits)
  have ok: "obj_ok (new_object KRecord typeId PtError 0 (PValues vals) ?rf ?bytes h)"
    by (simp add: obj_ok_def new_object_def sorted_remdups_adj)
  note E = allocate_effect [OF inv run ok]
  have "fieldGet r i h' = (if i < length vals then Some (vals ! i) else None)" for i
    by (simp add: fieldGet_def getKind_def E(3) new_object_def payloadValues_def)
  with E show ?thesis by (auto simp: isAlive_def)
qed

theorem allocateObject_fresh_witness:
  "\<not> isAlive (ObjectRef 2 1 KRecord 7) exampleHeap \<and>
   isAlive (ObjectRef 0 1 KString 7) (snd (allocateObject 5 [VInt 1] [] exampleHeap))"
proof
  have seven: "(7 :: u64) \<noteq> 0" by simp
  have "fst (allocateObject 5 [VInt 1] [] exampleHeap) = Inr (ObjectRef 2 1 KRecord 7)"
    unfolding exampleHeap_eq by code_simp
  then have run: "allocateObject 5 [VInt 1] [] exampleHeap =
      (Inr (ObjectRef 2 1 KRecord 7), snd (allocateObject 5 [VInt 1] [] exampleHeap))"
    by (metis prod.collapse)
  note F = allocateObject_fresh [OF seven exampleHeap_def run]
  show "\<not> isAlive (ObjectRef 2 1 KRecord 7) exampleHeap" using F by blast
  have "isAlive (ObjectRef 0 1 KString 7) exampleHeap" unfolding exampleHeap_eq by code_simp
  with F show "isAlive (ObjectRef 0 1 KString 7) (snd (allocateObject 5 [VInt 1] [] exampleHeap))"
    by (simp add: isAlive_def)
qed

end
