(* ===== verification/Heap_Snapshot.thy ===== *)
theory Heap_Snapshot
  imports Heap_Properties "HOL-Library.List_Lexorder" "HOL-Library.Char_ord" "HOL-Library.Product_Lexorder"
begin

text \<open>
  \<open>snapshot\<close> and \<open>restore\<close> of the managed heap (\<open>src/runtime/ManagedHeap.cpp\<close>): the image of the
  live objects with their labelled edges and of the roots, and its validated installation into
  an idle heap, with the text forms of the image. The search for retaining paths is in
  \<open>Heap_Retaining\<close>.
\<close>

section \<open>The image\<close>

record HeapEdge =
  edTarget :: ObjectRef
  edLabel :: string

record HeapObjectInfo =
  hiReference :: ObjectRef
  hiKind :: ObjectKind
  hiTypeId :: SymbolId
  hiElementType :: PrimitiveType
  hiElementTypeId :: SymbolId
  hiSizeBytes :: u64
  hiValueCount :: nat
  hiStringValue :: string
  hiValues :: "Value list"
  hiReferenceFields :: "nat list"
  hiEdges :: "HeapEdge list"

record HeapRootInfo =
  hrToken :: u64
  hrReference :: ObjectRef
  hrKind :: string

record HeapSnapshot =
  hsHeapId :: u64
  hsStatistics :: GcStatistics
  hsObjects :: "HeapObjectInfo list"
  hsRoots :: "HeapRootInfo list"

text \<open>
  The edges of one value, those inside structs included; the state holds the structs visited so
  far and the edges in order.
\<close>

fun addValueEdges ::
    "ManagedHeap \<Rightarrow> Value \<Rightarrow> string \<Rightarrow> StructStorage list \<times> HeapEdge list \<Rightarrow>
     StructStorage list \<times> HeapEdge list"
and addFieldEdges ::
    "ManagedHeap \<Rightarrow> Value list \<Rightarrow> nat \<Rightarrow> string \<Rightarrow> StructStorage list \<times> HeapEdge list \<Rightarrow>
     StructStorage list \<times> HeapEdge list" where
  "addValueEdges h (VRef r) label st =
     (if heap_get r h \<noteq> None then (fst st, snd st @ [\<lparr>edTarget = r, edLabel = label\<rparr>]) else st)"
| "addValueEdges h (VStruct t (Some (StructStorage a fs))) label st =
     (if StructStorage a fs \<in> set (fst st) then st
      else addFieldEdges h fs 0 label (StructStorage a fs # fst st, snd st))"
| "addValueEdges h v label st = st"
| "addFieldEdges h [] field label st = st"
| "addFieldEdges h (v # vs) field label st =
     addFieldEdges h vs (field + 1) label
       (addValueEdges h v (label @ ''.struct['' @ showNat field @ '']'') st)"

definition addEdge :: "ManagedHeap \<Rightarrow> HeapObject \<Rightarrow> nat \<Rightarrow> HeapEdge list" where
  "addEdge h obj index =
     (if length (payloadValues obj) \<le> index then []
      else snd (addValueEdges h (payloadValues obj ! index)
        ((if hoKind obj = KArray then ''element['' else ''field['') @ showNat index @ '']'') ([], [])))"

definition objectEdges :: "ManagedHeap \<Rightarrow> HeapObject \<Rightarrow> HeapEdge list" where
  "objectEdges h obj =
     concat (map (addEdge h obj)
       (if hoKind obj = KArray then [0..<length (payloadValues obj)] else hoReferenceFields obj))"

definition objectInfo :: "ManagedHeap \<Rightarrow> nat \<Rightarrow> HeapSlot \<Rightarrow> HeapObject \<Rightarrow> HeapObjectInfo" where
  "objectInfo h i s obj =
     (let info = \<lparr>hiReference = ObjectRef (of_nat i) (slotGeneration s) (hoKind obj) (hHeapId h),
                  hiKind = hoKind obj, hiTypeId = hoTypeId obj, hiElementType = hoElementType obj,
                  hiElementTypeId = hoElementTypeId obj, hiSizeBytes = hoSizeBytes obj,
                  hiValueCount = 0, hiStringValue = '''', hiValues = [], hiReferenceFields = [],
                  hiEdges = []\<rparr>
      in if hoKind obj = KString
         then info\<lparr>hiStringValue := (case hoPayload obj of PString s \<Rightarrow> s | PValues _ \<Rightarrow> '''')\<rparr>
         else info\<lparr>hiValueCount := length (payloadValues obj), hiValues := payloadValues obj,
                   hiReferenceFields := hoReferenceFields obj, hiEdges := objectEdges h obj\<rparr>)"

text \<open>The references of a root value that are alive.\<close>

fun addRoots ::
    "ManagedHeap \<Rightarrow> Value \<Rightarrow> StructStorage list \<times> ObjectRef list \<Rightarrow> StructStorage list \<times> ObjectRef list"
and addRootFields ::
    "ManagedHeap \<Rightarrow> Value list \<Rightarrow> StructStorage list \<times> ObjectRef list \<Rightarrow>
     StructStorage list \<times> ObjectRef list" where
  "addRoots h (VRef r) st = (if heap_get r h \<noteq> None then (fst st, snd st @ [r]) else st)"
| "addRoots h (VStruct t (Some (StructStorage a fs))) st =
     (if StructStorage a fs \<in> set (fst st) then st
      else addRootFields h fs (StructStorage a fs # fst st, snd st))"
| "addRoots h v st = st"
| "addRootFields h [] st = st"
| "addRootFields h (v # vs) st = addRootFields h vs (addRoots h v st)"

definition appendRoots :: "ManagedHeap \<Rightarrow> string \<Rightarrow> u64 \<times> Value \<Rightarrow> HeapRootInfo list" where
  "appendRoots h kind tv =
     map (\<lambda>r. \<lparr>hrToken = fst tv, hrReference = r, hrKind = kind\<rparr>) (snd (addRoots h (snd tv) ([], [])))"

text \<open>
  The persistent roots are visited in token order; the code's hash map has no order, but the
  final sort by kind and token makes the result the same wherever tokens differ. Roots of one
  token, those of a struct, may come in any order there.
\<close>

definition heap_snapshot :: "ShadowStack option \<Rightarrow> ManagedHeap \<Rightarrow> HeapSnapshot" where
  "heap_snapshot shadow h =
     (let infos = concat (map (\<lambda>i. case slotObject (hSlots h ! i) of
                     None \<Rightarrow> [] | Some obj \<Rightarrow> [objectInfo h i (hSlots h ! i) obj]) [0..<length (hSlots h)]);
          persistent = concat (map (appendRoots h ''persistent'') (hRoots h));
          vs = (case shadow of None \<Rightarrow> [] | Some st \<Rightarrow> visitRoots st);
          shadowRoots = concat (map (appendRoots h ''shadow'') (zip (map of_nat [0..<length vs]) vs))
      in \<lparr>hsHeapId = hHeapId h, hsStatistics = hStats h,
          hsObjects = sort_key (\<lambda>i. refSlot (hiReference i)) infos,
          hsRoots = sort_key (\<lambda>r. (hrKind r, hrToken r)) (persistent @ shadowRoots)\<rparr>)"

section \<open>Its text\<close>

definition objectKindName :: "ObjectKind \<Rightarrow> string" where
  "objectKindName k = (case k of KString \<Rightarrow> ''string'' | KArray \<Rightarrow> ''array'' | KRecord \<Rightarrow> ''record'')"

text \<open>An unsigned number written to a stream in base 16.\<close>

definition hexDigit :: "nat \<Rightarrow> char" where
  "hexDigit d = char_of (if d < 10 then 48 + d else 87 + d)"

fun showHex :: "nat \<Rightarrow> string" where
  "showHex n = (if n < 16 then [hexDigit n] else showHex (n div 16) @ [hexDigit (n mod 16)])"

declare showHex.simps [simp del]

definition slotText :: "ObjectRef \<Rightarrow> string" where
  "slotText r = showNat (unat (refSlot r)) @ '':'' @ showNat (unat (refGeneration r))"

definition rootLine :: "HeapRootInfo \<Rightarrow> string" where
  "rootLine root =
     ''root '' @ hrKind root @ ''#'' @ showNat (unat (hrToken root)) @ '' -> o'' @
     slotText (hrReference root) @ [CHR 0x0A]"

definition edgeLine :: "HeapEdge \<Rightarrow> string" where
  "edgeLine edge = ''  '' @ edLabel edge @ '' -> o'' @ slotText (edTarget edge) @ [CHR 0x0A]"

definition objectText :: "HeapObjectInfo \<Rightarrow> string" where
  "objectText info =
     ''o'' @ slotText (hiReference info) @ '' '' @ objectKindName (hiKind info) @ '' bytes='' @
     showNat (unat (hiSizeBytes info)) @
     (if hiTypeId info \<noteq> 0 then '' type=0x'' @ showHex (unat (hiTypeId info)) else '''') @
     (if hiKind info = KArray
      then '' element='' @ primitiveTypeName (hiElementType info) @ '' count='' @
           showNat (hiValueCount info) @
           (if hiElementTypeId info \<noteq> 0
            then '' elementType=0x'' @ showHex (unat (hiElementTypeId info)) else '''')
      else '''') @
     [CHR 0x0A] @ concat (map edgeLine (hiEdges info))"

definition toText :: "HeapSnapshot \<Rightarrow> string" where
  "toText img =
     ''heap '' @ showNat (unat (hsHeapId img)) @ '' objects='' @ showNat (length (hsObjects img)) @
     '' bytes='' @ showNat (unat (liveBytes (hsStatistics img))) @ '' roots='' @
     showNat (length (hsRoots img)) @ [CHR 0x0A] @
     concat (map rootLine (hsRoots img)) @ concat (map objectText (hsObjects img))"

definition leakSummary :: "ManagedHeap \<Rightarrow> string" where
  "leakSummary h =
     (let img = heap_snapshot None h;
          count = (\<lambda>k. showNat (length (filter (\<lambda>info. hiKind info = k) (hsObjects img))))
      in ''heap '' @ showNat (unat (hsHeapId img)) @ '': '' @ showNat (length (hsObjects img)) @
         '' live objects, '' @ showNat (unat (liveBytes (hsStatistics img))) @ '' bytes, '' @
         showNat (length (hsRoots img)) @ '' persistent roots [string='' @ count KString @
         '', array='' @ count KArray @ '', record='' @ count KRecord @ '']'' @
         (if hsRoots img = [] then ''''
          else [CHR 0x0A] @ ''roots:'' @
            concat (map (\<lambda>root. [CHR 0x0A] @ ''  #'' @ showNat (unat (hrToken root)) @ '' -> '' @
              slotText (hrReference root)) (hsRoots img))))"

section \<open>Restore\<close>

text \<open>The first loop: the metadata of each object, the slot count and the total size.\<close>

fun restoreMetadata :: "ManagedHeap \<Rightarrow> HeapObjectInfo list \<Rightarrow> nat \<Rightarrow> u64 \<Rightarrow> (nat \<times> u64) option" where
  "restoreMetadata h [] count live = Some (count, live)"
| "restoreMetadata h (info # infos) count live =
     (if \<not> ref_valid (hiReference info) \<or> refHeapId (hiReference info) \<noteq> hHeapId h \<or>
         refKind (hiReference info) \<noteq> hiKind info \<or> refSlot (hiReference info) = InvalidSlot \<or>
         maximumHeapBytes (hConfig h) < hiSizeBytes info \<or>
         maximumHeapBytes (hConfig h) - hiSizeBytes info < live
      then None
      else restoreMetadata h infos (max count (unat (refSlot (hiReference info)) + 1))
             (live + hiSizeBytes info))"

definition restoredObject :: "HeapObjectInfo \<Rightarrow> HeapObject" where
  "restoredObject info =
     \<lparr>hoKind = hiKind info, hoTypeId = hiTypeId info, hoElementType = hiElementType info,
      hoElementTypeId = hiElementTypeId info, hoMarked = False, hoSizeBytes = hiSizeBytes info,
      hoPayload = (if hiKind info = KString then PString (hiStringValue info) else PValues (hiValues info)),
      hoReferenceFields = (if hiKind info = KString then [] else hiReferenceFields info)\<rparr>"

text \<open>The payload checks of the second loop; \<open>None\<close> when they pass.\<close>

definition payloadError :: "HeapObjectInfo \<Rightarrow> string option" where
  "payloadError info =
     (if hiKind info = KString then
        (if hiValues info \<noteq> [] \<or> hiValueCount info \<noteq> 0
         then Some ''heap snapshot string payload is invalid'' else None)
      else if length (hiValues info) \<noteq> hiValueCount info
      then Some ''heap snapshot value count is invalid''
      else if \<exists>field \<in> set (hiReferenceFields info). length (hiValues info) \<le> field
      then Some ''heap snapshot reference-field map is invalid''
      else None)"

text \<open>The second loop fills the slots and the index from slot numbers to object descriptions.\<close>

fun restoreObjects ::
    "HeapObjectInfo list \<Rightarrow> HeapSlot list \<Rightarrow> (u32, HeapObjectInfo) omap \<Rightarrow>
     (HeapSlot list \<times> (u32, HeapObjectInfo) omap) outcome" where
  "restoreObjects [] slots infos = Inr (slots, infos)"
| "restoreObjects (info # rest) slots infos =
     (case om_emplace (refSlot (hiReference info)) info infos of
        (_, False) \<Rightarrow> Inl (RuntimeError EcInvalidProgram ''heap snapshot contains duplicate object slots'')
      | (infos', True) \<Rightarrow>
          (case payloadError info of
             Some message \<Rightarrow> Inl (RuntimeError EcInvalidProgram message)
           | None \<Rightarrow>
               restoreObjects rest
                 (slots[unat (refSlot (hiReference info)) :=
                    \<lparr>slotObject = Some (restoredObject info),
                     slotGeneration = refGeneration (hiReference info)\<rparr>]) infos'))"

fun validSnapshotValue ::
    "u64 \<Rightarrow> (u32, HeapObjectInfo) omap \<Rightarrow> Value \<Rightarrow> StructStorage list \<Rightarrow> bool \<times> StructStorage list"
and validSnapshotFields ::
    "u64 \<Rightarrow> (u32, HeapObjectInfo) omap \<Rightarrow> Value list \<Rightarrow> StructStorage list \<Rightarrow> bool \<times> StructStorage list" where
  "validSnapshotValue ident infos (VRef r) seen =
     (refHeapId r = ident \<and> (case om_find infos (refSlot r) of
        None \<Rightarrow> False | Some info \<Rightarrow> hiReference info = r), seen)"
| "validSnapshotValue ident infos (VStruct t (Some (StructStorage a fs))) seen =
     (if StructStorage a fs \<in> set seen then (True, seen)
      else validSnapshotFields ident infos fs (StructStorage a fs # seen))"
| "validSnapshotValue ident infos v seen = (True, seen)"
| "validSnapshotFields ident infos [] seen = (True, seen)"
| "validSnapshotFields ident infos (v # vs) seen =
     (case validSnapshotValue ident infos v seen of
        (False, seen') \<Rightarrow> (False, seen')
      | (True, seen') \<Rightarrow> validSnapshotFields ident infos vs seen')"

text \<open>The loop over the roots; roots of the shadow stack are skipped.\<close>

fun restoreRoots ::
    "(u32, HeapObjectInfo) omap \<Rightarrow> HeapRootInfo list \<Rightarrow> (u64, Value) omap \<Rightarrow> u64 \<Rightarrow>
     ((u64, Value) omap \<times> u64) option" where
  "restoreRoots infos [] roots next = Some (roots, next)"
| "restoreRoots infos (root # rest) roots next =
     (if hrKind root \<noteq> ''persistent'' then restoreRoots infos rest roots next
      else if hrToken root = 0 \<or> (case om_find infos (refSlot (hrReference root)) of
                None \<Rightarrow> True | Some info \<Rightarrow> hiReference info \<noteq> hrReference root) then None
      else (case om_emplace (hrToken root) (VRef (hrReference root)) roots of
              (_, False) \<Rightarrow> None
            | (roots', True) \<Rightarrow> restoreRoots infos rest roots' (max next (hrToken root + 1))))"

text \<open>
  What \<open>restore\<close> installs once everything has been checked; the head of \<open>hFreeSlots\<close> is the back
  of the code's vector.
\<close>

definition installed ::
    "ManagedHeap \<Rightarrow> HeapSnapshot \<Rightarrow> HeapSlot list \<Rightarrow> (u64, Value) omap \<Rightarrow> u64 \<Rightarrow> u64 \<Rightarrow> ManagedHeap" where
  "installed h snap slots roots next live =
     h\<lparr>hSlots := slots,
       hFreeSlots := rev (map of_nat (filter (\<lambda>i. slotObject (slots ! i) = None) [0..<length slots])),
       hRoots := roots, hNextRootToken := next, hMarkStack := [], hRequested := False,
       hSweepIndex := 0, hResumeSweep := False, hSweepLimit := 0,
       hStats := (hsStatistics snap)\<lparr>liveObjects := of_nat (length (hsObjects snap)), liveBytes := live,
         peakLiveBytes := max (peakLiveBytes (hsStatistics snap)) live\<rparr>,
       hThreshold := max (initialCollectionThresholdBytes (hConfig h))
         (min (maximumHeapBytes (hConfig h))
           (if maximumHeapBytes (hConfig h) div 2 < live then maximumHeapBytes (hConfig h)
            else max 1 (live * 2)))\<rparr>"

definition heap_restore :: "HeapSnapshot \<Rightarrow> ManagedHeap \<Rightarrow> unit outcome \<times> ManagedHeap" where
  "heap_restore snap h =
     (if hsHeapId snap \<noteq> hHeapId h
      then (Inl (RuntimeError EcInvalidObjectReference
              ''heap snapshot belongs to a different managed heap''), h)
      else if hPhase h \<noteq> GcIdle
      then (Inl (RuntimeError EcInvalidProgram
              ''heap snapshot cannot be restored during collection''), h)
      else
        (case restoreMetadata h (hsObjects snap) 0 0 of
           None \<Rightarrow> (Inl (RuntimeError EcInvalidProgram
                      ''heap snapshot contains invalid object metadata''), h)
         | Some (count, live) \<Rightarrow>
             (case restoreObjects (hsObjects snap)
                     (replicate count \<lparr>slotObject = None, slotGeneration = 1\<rparr>) [] of
                Inl e \<Rightarrow> (Inl e, h)
              | Inr (slots, infos) \<Rightarrow>
                  (if \<exists>info \<in> set (hsObjects snap). \<exists>v \<in> set (hiValues info).
                        \<not> fst (validSnapshotValue (hHeapId h) infos v [])
                   then (Inl (RuntimeError EcInvalidProgram
                           ''heap snapshot contains a dangling object reference''), h)
                   else
                     (case restoreRoots infos (hsRoots snap) [] 1 of
                        None \<Rightarrow> (Inl (RuntimeError EcInvalidProgram
                                   ''heap snapshot contains invalid persistent roots''), h)
                      | Some (roots, next) \<Rightarrow> (Inr (), installed h snap slots roots next live))))))"

end
