(* ===== verification/Heap_Restore.thy ===== *)
theory Heap_Restore
  imports Heap_Snapshot
begin

text \<open>
  What \<open>restore\<close> of the managed heap guarantees for an arbitrary image: the checks are shown to
  imply that the installed heap holds exactly the described objects, closed under the references
  inside their values, and that it satisfies the invariant of the collector. \<open>filled\<close> relates the
  slots built so far, the index of the descriptions and the counters.
\<close>

section \<open>The checks\<close>

lemma restoreMetadata_Some:
  assumes "restoreMetadata h infos count live = Some (n, bytes)"
  shows "count \<le> n \<and> n \<le> max count (unat InvalidSlot) \<and> bytes = live + sum_list (map hiSizeBytes infos) \<and>
    (\<forall>info \<in> set infos. ref_valid (hiReference info) \<and> refHeapId (hiReference info) = hHeapId h \<and>
       refKind (hiReference info) = hiKind info \<and> unat (refSlot (hiReference info)) < n)"
  using assms
proof (induction infos arbitrary: count live)
  case Nil
  then show ?case by simp
next
  case (Cons info infos)
  let ?s = "refSlot (hiReference info)"
  from Cons.prems have ok: "ref_valid (hiReference info)" "refHeapId (hiReference info) = hHeapId h"
      "refKind (hiReference info) = hiKind info" "?s \<noteq> InvalidSlot"
    and rest: "restoreMetadata h infos (max count (unat ?s + 1)) (live + hiSizeBytes info) = Some (n, bytes)"
    by (simp_all split: if_splits)
  have "unat ?s < unat InvalidSlot"
  proof -
    have "unat ?s \<noteq> unat InvalidSlot" using ok(4) by (simp add: word_unat_eq_iff)
    moreover have "unat ?s \<le> unat InvalidSlot"
      using unat_u32_less [of ?s] by (simp add: unat_InvalidSlot)
    ultimately show ?thesis by simp
  qed
  with Cons.IH [OF rest] ok show ?case by (auto simp: add.assoc)
qed

definition infoSlot :: "HeapObjectInfo \<Rightarrow> u32" where
  "infoSlot info = refSlot (hiReference info)"

definition filledSlot :: "HeapObjectInfo \<Rightarrow> HeapSlot" where
  "filledSlot info =
     \<lparr>slotObject = Some (restoredObject info), slotGeneration = refGeneration (hiReference info)\<rparr>"

text \<open>The slots filled so far are those of the index, and the counters of both agree.\<close>

definition filled ::
    "HeapObjectInfo list \<Rightarrow> HeapSlot list \<Rightarrow> (u32, HeapObjectInfo) omap \<Rightarrow> bool" where
  "filled infos slots index \<longleftrightarrow>
     om_inv index \<and> distinct (map infoSlot infos) \<and>
     (\<forall>k info. om_find index k = Some info \<longleftrightarrow> info \<in> set infos \<and> k = infoSlot info) \<and>
     (\<forall>info \<in> set infos. payloadError info = None) \<and>
     (\<forall>i < length slots. slots ! i =
        (case om_find index (of_nat i) of
           None \<Rightarrow> \<lparr>slotObject = None, slotGeneration = 1\<rparr> | Some info \<Rightarrow> filledSlot info)) \<and>
     sum_list (map slotCount slots) = of_nat (length infos) \<and>
     sum_list (map slotBytes slots) = sum_list (map hiSizeBytes infos)"

lemma filled_start: "filled [] (replicate n \<lparr>slotObject = None, slotGeneration = 1\<rparr>) []"
proof -
  have "sum_list (map f (replicate n s)) = 0" if "f s = 0" for f :: "HeapSlot \<Rightarrow> u64" and s
    using that by (induction n) simp_all
  then show ?thesis by (simp add: filled_def slotCount_def slotBytes_def)
qed

lemma filled_step:
  assumes "filled infos slots index" and "length slots \<le> unat InvalidSlot"
    and "om_find index (infoSlot info) = None" and "payloadError info = None"
    and "unat (infoSlot info) < length slots"
  shows "filled (infos @ [info]) (slots[unat (infoSlot info) := filledSlot info])
    (om_put (infoSlot info) info index)"
proof -
  let ?i = "unat (infoSlot info)"
  note F = assms(1) [unfolded filled_def]
  have new: "infoSlot info \<notin> infoSlot ` set infos" using F assms(3) by force
  have old: "slots ! ?i = \<lparr>slotObject = None, slotGeneration = 1\<rparr>"
    using F assms(3,5) by simp
  have u: "unat (of_nat i :: u32) = i" if "i < length slots" for i
    using that assms(2) unat_InvalidSlot by (intro unat_of_nat_u32) linarith
  have nth: "\<forall>i < length slots. slots[?i := filledSlot info] ! i =
        (case om_find (om_put (infoSlot info) info index) (of_nat i) of
           None \<Rightarrow> \<lparr>slotObject = None, slotGeneration = 1\<rparr> | Some info \<Rightarrow> filledSlot info)"
  proof (intro allI impI)
    fix i assume i: "i < length slots"
    show "slots[?i := filledSlot info] ! i =
        (case om_find (om_put (infoSlot info) info index) (of_nat i) of
           None \<Rightarrow> \<lparr>slotObject = None, slotGeneration = 1\<rparr> | Some info \<Rightarrow> filledSlot info)"
    proof (cases "i = ?i")
      case True
      with i F show ?thesis by simp
    next
      case False
      then have "(of_nat i :: u32) \<noteq> infoSlot info" using u [OF i] by auto
      with i F False show ?thesis by (simp add: nth_list_update_neq)
    qed
  qed
  have sums: "sum_list (map f (slots[?i := filledSlot info])) = sum_list (map f slots) + f (filledSlot info)"
    if "f (slots ! ?i) = 0" for f :: "HeapSlot \<Rightarrow> u64"
    using that assms(5) by (simp add: sum_list_map_update)
  have c: "slotCount (slots ! ?i) = 0" "slotBytes (slots ! ?i) = 0"
      "slotCount (filledSlot info) = 1" "slotBytes (filledSlot info) = hiSizeBytes info"
    by (simp_all add: old slotCount_def slotBytes_def filledSlot_def restoredObject_def)
  show ?thesis
    unfolding filled_def
  proof (intro conjI)
    show "om_inv (om_put (infoSlot info) info index)" using F by simp
    show "distinct (map infoSlot (infos @ [info]))" using F new by simp
    show "\<forall>k inf. om_find (om_put (infoSlot info) info index) k = Some inf \<longleftrightarrow>
        inf \<in> set (infos @ [info]) \<and> k = infoSlot inf"
      using F new by auto
    show "\<forall>info \<in> set (infos @ [info]). payloadError info = None" using F assms(4) by simp
    show "\<forall>i < length (slots[?i := filledSlot info]). slots[?i := filledSlot info] ! i =
        (case om_find (om_put (infoSlot info) info index) (of_nat i) of
           None \<Rightarrow> \<lparr>slotObject = None, slotGeneration = 1\<rparr> | Some info \<Rightarrow> filledSlot info)"
      using nth by simp
    show "sum_list (map slotCount (slots[?i := filledSlot info])) = of_nat (length (infos @ [info]))"
      using F by (simp add: sums [of slotCount, OF c(1)] c)
    show "sum_list (map slotBytes (slots[?i := filledSlot info])) = sum_list (map hiSizeBytes (infos @ [info]))"
      using F by (simp add: sums [of slotBytes, OF c(2)] c)
  qed
qed

lemma restoreObjects_filled:
  assumes "filled done slots index" and "length slots \<le> unat InvalidSlot"
    and "\<forall>info \<in> set infos. unat (infoSlot info) < length slots"
    and "restoreObjects infos slots index = Inr (slots', index')"
  shows "filled (done @ infos) slots' index' \<and> length slots' = length slots"
  using assms
proof (induction infos arbitrary: "done" slots index)
  case Nil
  then show ?case by simp
next
  case (Cons info infos)
  from Cons.prems(4) have new: "om_find index (infoSlot info) = None" and pe: "payloadError info = None"
    and rest: "restoreObjects infos (slots[unat (infoSlot info) := filledSlot info])
      (om_put (infoSlot info) info index) = Inr (slots', index')"
    by (auto simp: om_emplace_def infoSlot_def filledSlot_def split: option.splits)
  have "filled (done @ [info]) (slots[unat (infoSlot info) := filledSlot info])
      (om_put (infoSlot info) info index)"
    by (rule filled_step) (use Cons.prems new pe in auto)
  from Cons.IH [OF this _ _ rest] Cons.prems(2,3) show ?case by simp
qed


text \<open>The objects that the image describes, and the references inside it that are sound.\<close>

definition described :: "HeapObjectInfo list \<Rightarrow> ObjectRef set" where
  "described infos = hiReference ` set infos"

definition soundStorages :: "StructStorage set \<Rightarrow> StructStorage list \<Rightarrow> ObjectRef set \<Rightarrow> bool" where
  "soundStorages path seen R \<longleftrightarrow> (\<forall>s \<in> set seen. s \<in> path \<or> storage_refs s \<subseteq> R)"

lemma validSnapshotValue_refs:
  "validSnapshotValue ident index v seen = (True, seen') \<Longrightarrow>
     (\<forall>k info. om_find index k = Some info \<longrightarrow> hiReference info \<in> R) \<Longrightarrow>
     soundStorages path seen R \<Longrightarrow> \<forall>s \<in> path. size v < size s \<Longrightarrow>
     set (value_refs v) \<subseteq> R \<and> soundStorages path seen' R"
  "validSnapshotFields ident index vs seen = (True, seen') \<Longrightarrow>
     (\<forall>k info. om_find index k = Some info \<longrightarrow> hiReference info \<in> R) \<Longrightarrow>
     soundStorages path seen R \<Longrightarrow> \<forall>s \<in> path. size_list size vs < size s \<Longrightarrow>
     set (values_refs vs) \<subseteq> R \<and> soundStorages path seen' R"
proof (induction ident index v seen and ident index vs seen arbitrary: path seen' and path seen'
    rule: validSnapshotValue_validSnapshotFields.induct)
  case (1 ident index r seen)
  then show ?case by (auto split: option.splits)
next
  case (2 ident index t a fs seen)
  let ?s = "StructStorage a fs"
  show ?case
  proof (cases "?s \<in> set seen")
    case True
    have "?s \<notin> path" using 2(5) by force
    with True 2(4) have "set (values_refs fs) \<subseteq> R"
      by (force simp: soundStorages_def storage_refs_def)
    with True 2(2,4) show ?thesis by simp
  next
    case False
    have "soundStorages (insert ?s path) (?s # seen) R" using 2(4) by (auto simp: soundStorages_def)
    moreover have "\<forall>s \<in> insert ?s path. size_list size fs < size s" using 2(5) by auto
    moreover have "validSnapshotFields ident index fs (?s # seen) = (True, seen')" using 2(2) False by simp
    ultimately have I: "set (values_refs fs) \<subseteq> R" "soundStorages (insert ?s path) seen' R"
      using 2(1) [OF False _ 2(3), of seen' "insert ?s path"] by simp_all
    from I(1) have "storage_refs ?s \<subseteq> R" by (simp add: storage_refs_def)
    with I(2) have "soundStorages path seen' R" by (auto simp: soundStorages_def)
    with I(1) show ?thesis by simp
  qed
next
  case (5 ident index v vs seen)
  obtain b seen1 where v: "validSnapshotValue ident index v seen = (b, seen1)" by (rule prod.exhaust)
  with 5(3) have b: "b = True" and vs: "validSnapshotFields ident index vs seen1 = (True, seen')"
    by (simp_all split: bool.splits)
  have sz: "\<forall>s \<in> path. size v < size s" "\<forall>s \<in> path. size_list size vs < size s" using 5(6) by auto
  have "set (value_refs v) \<subseteq> R \<and> soundStorages path seen1 R"
    by (rule 5(1) [OF _ 5(4,5) sz(1)]) (simp add: v b)
  moreover have "set (values_refs vs) \<subseteq> R \<and> soundStorages path seen' R"
    by (rule 5(2) [OF _ _ vs 5(4) _ sz(2)]) (use v b calculation in simp_all)
  ultimately show ?case by simp
qed simp_all


lemma validSnapshotValue_sound:
  assumes "fst (validSnapshotValue ident index v [])"
    and "\<forall>k info. om_find index k = Some info \<longrightarrow> hiReference info \<in> R"
  shows "set (value_refs v) \<subseteq> R"
  using validSnapshotValue_refs(1) [of ident index v "[]" "snd (validSnapshotValue ident index v [])" R "{}"]
    assms by (simp add: soundStorages_def prod_eq_iff)

text \<open>The roots that are installed are those of the image, each a bare reference.\<close>

lemma restoreRoots_Some:
  assumes "restoreRoots index list roots next = Some (roots', next')" and "om_inv roots"
    and "\<forall>k info. om_find index k = Some info \<longrightarrow> hiReference info \<in> R"
  shows "om_inv roots' \<and>
    (\<forall>t v. om_find roots' t = Some v \<longleftrightarrow> om_find roots t = Some v \<or>
       (\<exists>root \<in> set list. hrKind root = ''persistent'' \<and> hrToken root = t \<and> v = VRef (hrReference root))) \<and>
    (\<forall>root \<in> set list. hrKind root = ''persistent'' \<longrightarrow> hrReference root \<in> R)"
  using assms
proof (induction list arbitrary: roots "next")
  case Nil
  then show ?case by simp
next
  case (Cons root list)
  show ?case
  proof (cases "hrKind root = ''persistent''")
    case False
    with Cons.prems Cons.IH [of roots "next"] show ?thesis by auto
  next
    case True
    let ?roots = "om_put (hrToken root) (VRef (hrReference root)) roots"
    from Cons.prems(1) True obtain info where info: "om_find index (refSlot (hrReference root)) = Some info"
        "hiReference info = hrReference root" and new: "om_find roots (hrToken root) = None"
      and rest: "restoreRoots index list ?roots (max next (hrToken root + 1)) = Some (roots', next')"
      by (auto simp: om_emplace_def split: if_splits option.splits)
    have "hrReference root \<in> R" using Cons.prems(3) info by metis
    moreover note Cons.IH [OF rest _ Cons.prems(3)]
    ultimately show ?thesis using True Cons.prems(2) new by (auto split: if_splits)
  qed
qed

section \<open>The restored heap\<close>

text \<open>What a successful restore has checked, and what it installs.\<close>

lemma heap_restore_cases:
  assumes "heap_restore snap h = (Inr (), h')"
  obtains n bytes slots index roots "next" where
    "hPhase h = GcIdle" "restoreMetadata h (hsObjects snap) 0 0 = Some (n, bytes)"
    "length slots = n" "n \<le> unat InvalidSlot" "filled (hsObjects snap) slots index"
    "\<forall>info \<in> set (hsObjects snap). \<forall>v \<in> set (hiValues info).
        fst (validSnapshotValue (hHeapId h) index v [])"
    "restoreRoots index (hsRoots snap) [] 1 = Some (roots, next)"
    "h' = installed h snap slots roots next bytes"
proof -
  from assms obtain n bytes slots index roots "next" where
    H: "hPhase h = GcIdle" "restoreMetadata h (hsObjects snap) 0 0 = Some (n, bytes)"
      "restoreObjects (hsObjects snap) (replicate n \<lparr>slotObject = None, slotGeneration = 1\<rparr>) [] =
         Inr (slots, index)"
      "\<not> (\<exists>info \<in> set (hsObjects snap). \<exists>v \<in> set (hiValues info).
          \<not> fst (validSnapshotValue (hHeapId h) index v []))"
      "restoreRoots index (hsRoots snap) [] 1 = Some (roots, next)"
      "h' = installed h snap slots roots next bytes"
    unfolding heap_restore_def
    by (auto split: if_splits option.splits sum.splits prod.splits)
  have M: "n \<le> unat InvalidSlot" "\<forall>info \<in> set (hsObjects snap). unat (infoSlot info) < n"
    using restoreMetadata_Some [OF H(2)] by (auto simp: infoSlot_def)
  have "filled ([] @ hsObjects snap) slots index \<and>
      length slots = length (replicate n \<lparr>slotObject = None, slotGeneration = 1\<rparr>)"
    by (rule restoreObjects_filled [OF filled_start _ _ H(3)]) (use M in auto)
  then have F: "length slots = n" "filled (hsObjects snap) slots index" by simp_all
  show ?thesis by (rule that [OF H(1,2) F(1) M(1) F(2) _ H(5,6)]) (use H(4) in blast)
qed

lemma filled_find: "filled infos slots index \<Longrightarrow> info \<in> set infos \<Longrightarrow> om_find index (infoSlot info) = Some info"
  by (simp add: filled_def)

lemma filled_nth:
  assumes "filled infos slots index" and "unat k < length slots"
  shows "slots ! unat k = (case om_find index k of
      None \<Rightarrow> \<lparr>slotObject = None, slotGeneration = 1\<rparr> | Some info \<Rightarrow> filledSlot info)"
  using assms by (simp add: filled_def)

lemma filled_get:
  assumes F: "filled infos (hSlots h) index" and n: "length (hSlots h) \<le> unat InvalidSlot"
    and M: "\<forall>info \<in> set infos. ref_valid (hiReference info) \<and> refHeapId (hiReference info) = hHeapId h \<and>
       refKind (hiReference info) = hiKind info \<and> unat (refSlot (hiReference info)) < length (hSlots h)"
  shows "heap_get r h = Some obj \<longleftrightarrow> (\<exists>info \<in> set infos. hiReference info = r \<and> obj = restoredObject info)"
proof
  assume "heap_get r h = Some obj"
  then have G: "unat (refSlot r) < length (hSlots h)" "slotObject (hSlots h ! unat (refSlot r)) = Some obj"
    "slotGeneration (hSlots h ! unat (refSlot r)) = refGeneration r" "hoKind obj = refKind r"
    "refHeapId r = hHeapId h"
    by (simp_all add: heap_get_iff)
  have nth: "hSlots h ! unat (refSlot r) = (case om_find index (refSlot r) of
      None \<Rightarrow> \<lparr>slotObject = None, slotGeneration = 1\<rparr> | Some info \<Rightarrow> filledSlot info)"
    by (rule filled_nth [OF F G(1)])
  with G(2) obtain info where i: "om_find index (refSlot r) = Some info"
      "hSlots h ! unat (refSlot r) = filledSlot info"
    by (cases "om_find index (refSlot r)") simp_all
  from i(1) have "info \<in> set infos" "refSlot r = infoSlot info" using F by (simp_all add: filled_def)
  moreover from this have "hiReference info = r"
    using G i(2) M by (intro ObjectRef.expand) (auto simp: filledSlot_def infoSlot_def restoredObject_def)
  ultimately show "\<exists>info \<in> set infos. hiReference info = r \<and> obj = restoredObject info"
    using G i(2) by (auto simp: filledSlot_def)
next
  assume "\<exists>info \<in> set infos. hiReference info = r \<and> obj = restoredObject info"
  then obtain info where i: "info \<in> set infos" "hiReference info = r" "obj = restoredObject info" by blast
  have "om_find index (refSlot r) = Some info" using filled_find [OF F i(1)] i(2) by (simp add: infoSlot_def)
  moreover have "unat (refSlot r) < length (hSlots h)" using M i by blast
  ultimately have "hSlots h ! unat (refSlot r) = filledSlot info" using filled_nth [OF F] by simp
  with M i show "heap_get r h = Some obj"
    by (auto simp: heap_get_iff filledSlot_def restoredObject_def)
qed


lemma installed_views [simp]:
  "hSlots (installed h snap slots roots next bytes) = slots"
  "hRoots (installed h snap slots roots next bytes) = roots"
  "hHeapId (installed h snap slots roots next bytes) = hHeapId h"
  "hPhase (installed h snap slots roots next bytes) = hPhase h"
  "hSweepLimit (installed h snap slots roots next bytes) = 0"
  "hFreeSlots (installed h snap slots roots next bytes) =
     rev (map of_nat (filter (\<lambda>i. slotObject (slots ! i) = None) [0..<length slots]))"
  "liveObjects (hStats (installed h snap slots roots next bytes)) = of_nat (length (hsObjects snap))"
  "liveBytes (hStats (installed h snap slots roots next bytes)) = bytes"
  by (simp_all add: installed_def)

lemma unmark_restored [simp]: "unmarkObject (restoredObject info) = restoredObject info"
  by (simp add: unmarkObject_def restoredObject_def)

lemma restored_contents:
  assumes "heap_restore snap h = (Inr (), h')"
  shows "contents h' r = Some obj \<longleftrightarrow>
    (\<exists>info \<in> set (hsObjects snap). hiReference info = r \<and> obj = restoredObject info)"
  using assms
proof (rule heap_restore_cases)
  fix n bytes slots index roots "next"
  assume H: "restoreMetadata h (hsObjects snap) 0 0 = Some (n, bytes)" "length slots = n"
      "n \<le> unat InvalidSlot" "filled (hsObjects snap) slots index"
      "h' = installed h snap slots roots next bytes"
  have "heap_get r h' = Some obj \<longleftrightarrow>
      (\<exists>info \<in> set (hsObjects snap). hiReference info = r \<and> obj = restoredObject info)" for r obj
    by (rule filled_get [where index = index]) (use H restoreMetadata_Some [OF H(1)] in simp_all)
  then show ?thesis by (auto simp: contents_def)
qed

lemma restored_alive:
  assumes "heap_restore snap h = (Inr (), h')"
  shows "alive_refs h' = described (hsObjects snap)"
  unfolding set_eq_iff alive_contents described_def image_iff
  using restored_contents [OF assms] by (auto simp del: not_None_eq simp: not_None_eq [symmetric] ex_simps)

lemma values_restored: "payloadError info = None \<Longrightarrow> payloadValues (restoredObject info) = hiValues info"
  by (auto simp: payloadError_def payloadValues_def restoredObject_def split: if_splits)

lemma restored_refs:
  assumes "heap_restore snap h = (Inr (), h')" and "info \<in> set (hsObjects snap)"
  shows "set (values_refs (hiValues info)) \<subseteq> alive_refs h'"
  using assms(1)
proof (rule heap_restore_cases)
  fix n bytes slots index roots "next"
  assume F: "filled (hsObjects snap) slots index"
    and V: "\<forall>info \<in> set (hsObjects snap). \<forall>v \<in> set (hiValues info).
        fst (validSnapshotValue (hHeapId h) index v [])"
  have "\<forall>k i. om_find index k = Some i \<longrightarrow> hiReference i \<in> alive_refs h'"
    using F by (simp add: restored_alive [OF assms(1)] filled_def described_def)
  with V assms(2) show ?thesis by (auto simp: set_values_refs dest: validSnapshotValue_sound)
qed

lemma restored_roots:
  assumes "heap_restore snap h = (Inr (), h')"
  shows "om_find (hRoots h') t = Some v \<longleftrightarrow>
      (\<exists>root \<in> set (hsRoots snap). hrKind root = ''persistent'' \<and> hrToken root = t \<and> v = VRef (hrReference root))"
    and "root \<in> set (hsRoots snap) \<Longrightarrow> hrKind root = ''persistent'' \<Longrightarrow> hrReference root \<in> alive_refs h'"
proof -
  have "(om_find (hRoots h') t = Some v \<longleftrightarrow>
      (\<exists>root \<in> set (hsRoots snap). hrKind root = ''persistent'' \<and> hrToken root = t \<and> v = VRef (hrReference root)))
    \<and> (root \<in> set (hsRoots snap) \<longrightarrow> hrKind root = ''persistent'' \<longrightarrow> hrReference root \<in> alive_refs h')"
    using assms
  proof (rule heap_restore_cases)
    fix n bytes slots index roots "next"
    assume F: "filled (hsObjects snap) slots index"
      and R: "restoreRoots index (hsRoots snap) [] 1 = Some (roots, next)"
      and eq: "h' = installed h snap slots roots next bytes"
    have "\<forall>k i. om_find index k = Some i \<longrightarrow> hiReference i \<in> alive_refs h'"
      using F by (simp add: restored_alive [OF assms(1)] filled_def described_def)
    from restoreRoots_Some [OF R om_inv_Nil this] eq show ?thesis by simp
  qed
  then show "om_find (hRoots h') t = Some v \<longleftrightarrow>
      (\<exists>root \<in> set (hsRoots snap). hrKind root = ''persistent'' \<and> hrToken root = t \<and> v = VRef (hrReference root))"
    and "root \<in> set (hsRoots snap) \<Longrightarrow> hrKind root = ''persistent'' \<Longrightarrow> hrReference root \<in> alive_refs h'"
    by simp_all
qed

lemma heap_restore_error: "heap_restore snap h = (Inl e, h') \<Longrightarrow> h' = h"
  unfolding heap_restore_def by (auto split: if_splits option.splits sum.splits prod.splits)

lemma restored_inv:
  assumes R: "heap_restore snap h = (Inr (), h')" and "hHeapId h \<noteq> 0"
    and S: "\<forall>info \<in> set (hsObjects snap). sorted (hiReferenceFields info)"
  shows "heap_inv h'"
  using R
proof (rule heap_restore_cases)
  fix n bytes slots index roots "next"
  assume H: "hPhase h = GcIdle" "restoreMetadata h (hsObjects snap) 0 0 = Some (n, bytes)" "length slots = n"
      "n \<le> unat InvalidSlot" "filled (hsObjects snap) slots index"
    and eq: "h' = installed h snap slots roots next bytes"
  note M = restoreMetadata_Some [OF H(2)]
  have u: "unat (of_nat i :: u32) = i" if "i < length slots" for i
    using that H(3,4) unat_InvalidSlot by (intro unat_of_nat_u32) linarith
  have ok: "slot_ok (slots ! i)" if "i < length slots" for i
  proof (cases "om_find index (of_nat i)")
    case None
    then show ?thesis using filled_nth [OF H(5), of "of_nat i"] u that by (simp add: slot_ok_def)
  next
    case (Some info)
    then have i: "info \<in> set (hsObjects snap)" using H(5) by (simp add: filled_def)
    have "slots ! i = filledSlot info" using Some filled_nth [OF H(5), of "of_nat i"] u that by simp
    moreover have "refGeneration (hiReference info) \<noteq> 0" using i M by (simp add: ref_valid_def)
    ultimately show ?thesis using i S by (simp add: slot_ok_def filledSlot_def obj_ok_def restoredObject_def)
  qed
  let ?free = "filter (\<lambda>i. slotObject (slots ! i) = None) [0..<length slots]"
  have inj: "inj_on (of_nat :: nat \<Rightarrow> u32) (set ?free)"
    using u by (intro inj_on_inverseI [of _ unat]) simp
  have img: "unat ` set (map (of_nat :: nat \<Rightarrow> u32) ?free) = set ?free"
    using u by (force simp: image_image)
  have "heap_wf h'"
    unfolding heap_wf_def eq installed_views
  proof (intro conjI)
    show "\<forall>s \<in> set slots. slot_ok s" using ok by (auto simp: in_set_conv_nth)
    show "distinct (rev (map (of_nat :: nat \<Rightarrow> u32) ?free))" using inj by (simp add: distinct_map)
    show "\<forall>i \<in> set (rev (map (of_nat :: nat \<Rightarrow> u32) ?free)). unat i < length slots" using u by auto
    show "\<forall>i < length slots. slotObject (slots ! i) = None \<longleftrightarrow>
        i \<in> unat ` set (rev (map (of_nat :: nat \<Rightarrow> u32) ?free))"
      by (simp only: set_rev img) simp
    show "of_nat (length (hsObjects snap)) = sum_list (map slotCount slots)"
      using H(5) by (simp add: filled_def)
    show "bytes = sum_list (map slotBytes slots)" using H(5) M by (simp add: filled_def)
  qed (use assms(2) H(3,4) in simp_all)
  then show ?thesis using H(1) by (simp add: heap_inv_def gc_ok_def sweep_ok_def eq)
qed

section \<open>Properties\<close>

text \<open>
  C10: whatever image it is given, a restore that succeeds installs exactly the objects the image
  describes, none of them with a reference (inside structs included) to anything else, and
  exactly its persistent roots, all of them alive; a restore that fails leaves the heap as it was.
\<close>

theorem heap_restore_exact:
  assumes "heap_restore snap h = (result, h')"
  shows "case result of Inl _ \<Rightarrow> h' = h | Inr _ \<Rightarrow>
    (\<forall>r obj. contents h' r = Some obj \<longleftrightarrow>
       (\<exists>info \<in> set (hsObjects snap). hiReference info = r \<and> obj = restoredObject info)) \<and>
    (\<forall>info \<in> set (hsObjects snap). \<forall>r \<in> set (values_refs (hiValues info)). isAlive r h') \<and>
    (\<forall>t v. om_find (hRoots h') t = Some v \<longleftrightarrow>
       (\<exists>root \<in> set (hsRoots snap). hrKind root = ''persistent'' \<and> hrToken root = t \<and>
          v = VRef (hrReference root) \<and> isAlive (hrReference root) h'))"
proof (cases result)
  case (Inl e)
  with assms show ?thesis by (simp add: heap_restore_error)
next
  case (Inr x)
  with assms have R: "heap_restore snap h = (Inr (), h')" by simp
  have alive: "isAlive r h' \<longleftrightarrow> r \<in> alive_refs h'" for r by (simp add: isAlive_def alive_refs_def)
  have "om_find (hRoots h') t = Some v \<longleftrightarrow>
       (\<exists>root \<in> set (hsRoots snap). hrKind root = ''persistent'' \<and> hrToken root = t \<and>
          v = VRef (hrReference root) \<and> isAlive (hrReference root) h')" for t v
    unfolding restored_roots(1) [OF R] alive using restored_roots(2) [OF R] by blast
  moreover have "\<forall>info \<in> set (hsObjects snap). \<forall>r \<in> set (values_refs (hiValues info)). isAlive r h'"
    unfolding alive using restored_refs [OF R] by blast
  ultimately show ?thesis
    unfolding Inr sum.case using restored_contents [OF R] by simp
qed

definition restoredExample :: HeapSnapshot where
  "restoredExample =
     \<lparr>hsHeapId = 7, hsStatistics = zeroStatistics,
      hsObjects =
        [\<lparr>hiReference = ObjectRef 2 1 KArray 7, hiKind = KArray, hiTypeId = 0, hiElementType = PtError,
          hiElementTypeId = 0, hiSizeBytes = 144, hiValueCount = 1, hiStringValue = '''',
          hiValues = [VStruct 5 (Some (StructStorage 1 [VRef (ObjectRef 0 3 KString 7)]))],
          hiReferenceFields = [], hiEdges = []\<rparr>,
         \<lparr>hiReference = ObjectRef 0 3 KString 7, hiKind = KString, hiTypeId = 0, hiElementType = PtError,
          hiElementTypeId = 0, hiSizeBytes = 100, hiValueCount = 0, hiStringValue = ''kept'',
          hiValues = [], hiReferenceFields = [], hiEdges = []\<rparr>],
      hsRoots = [\<lparr>hrToken = 4, hrReference = ObjectRef 2 1 KArray 7, hrKind = ''persistent''\<rparr>]\<rparr>"

lemma restoredExample_ok: "fst (heap_restore restoredExample (newHeap exampleConfig 7)) = Inr ()"
  by code_simp

lemma restoredExample_Inr:
  "heap_restore restoredExample (newHeap exampleConfig 7) =
     (Inr (), snd (heap_restore restoredExample (newHeap exampleConfig 7)))"
  using restoredExample_ok by (simp add: prod_eq_iff)

theorem heap_restore_exact_witness:
  "contents (snd (heap_restore restoredExample (newHeap exampleConfig 7))) (ObjectRef 0 3 KString 7) =
     Some (restoredObject (hsObjects restoredExample ! 1))"
  using heap_restore_exact [OF restoredExample_Inr] by (simp add: restoredExample_def)



section \<open>What an image does not carry\<close>

text \<open>
  The image names live objects only, so the generations of the empty slots are lost: a reference
  that was dead before the restore is alive again after it once its slot is reused.
\<close>

definition staleRef :: ObjectRef where
  "staleRef = ObjectRef 0 1 KString 7"

definition sweptHeap :: ManagedHeap where
  "sweptHeap = heap_run [OpAllocString ''a'', OpAllocString ''b'', OpRequest,
     OpStep [\<lparr>frArguments = None, frLocals = Some [VRef (ObjectRef 1 1 KString 7)], frRegisters = None\<rparr>] 100]
     (newHeap exampleConfig 7)"

lemma sweptHeap_eq:
  "sweptHeap =
     \<lparr>hConfig = exampleConfig, hHeapId = 7,
      hSlots =
        [\<lparr>slotObject = None, slotGeneration = 2\<rparr>,
         \<lparr>slotObject =
            Some \<lparr>hoKind = KString, hoTypeId = 0, hoElementType = PtError, hoElementTypeId = 0,
              hoMarked = True, hoSizeBytes = 97, hoPayload = PString ''b'', hoReferenceFields = []\<rparr>,
          slotGeneration = 1\<rparr>],
      hFreeSlots = [0], hMarkStack = [], hRoots = [], hNextRootToken = 1, hPhase = GcIdle,
      hRequested = False, hResumeSweep = False, hSweepIndex = 0, hSweepLimit = 0, hThreshold = 194,
      hStats =
        \<lparr>objectsAllocated = 2, bytesAllocated = 194, collectionsStarted = 1, collectionsCompleted = 1,
         objectsReclaimed = 1, bytesReclaimed = 97, markWork = 1, sweepWork = 2, liveObjects = 1,
         liveBytes = 97, peakLiveBytes = 194\<rparr>\<rparr>"
  by code_simp

theorem stale_reference_revived:
  "\<not> isAlive staleRef sweptHeap \<and>
   (let (result, h) = heap_restore (heap_snapshot None sweptHeap) sweptHeap
    in result = Inr () \<and> isAlive staleRef (snd (allocateString ''c'' h)))"
  unfolding sweptHeap_eq by code_simp

text \<open>
  The image of a struct root lists one entry per reference inside it, all with the token of the
  root, and \<open>restore\<close> refuses a token that comes twice: the heap cannot be restored from its own image.
\<close>

definition structRootHeap :: ManagedHeap where
  "structRootHeap = snd (addPersistentRoot
     (VStruct 5 (Some (StructStorage 1 [VRef (ObjectRef 0 1 KString 7), VRef (ObjectRef 1 1 KString 7)])))
     (heap_run [OpAllocString ''a'', OpAllocString ''b''] (newHeap exampleConfig 7)))"

theorem struct_root_not_restorable:
  "length (hRoots structRootHeap) = 1 \<and>
   fst (heap_restore (heap_snapshot None structRootHeap) structRootHeap) =
     Inl (RuntimeError EcInvalidProgram ''heap snapshot contains invalid persistent roots'')"
  by code_simp

end
