(* ===== verification/Heap_Retaining.thy ===== *)
theory Heap_Retaining
  imports Heap_Restore
begin

text \<open>
  \<open>retainingPath\<close> of the managed heap: a breadth-first search over the image of the heap, from its
  roots along the edges of its objects, and the walk back along the parents. It is proved to
  answer exactly when the collector would keep the object. The measure of the search is the
  length of the queue plus the number of slots not found yet.
\<close>

section \<open>Breadth-first search from the roots\<close>

text \<open>
  The queue, the parent of each slot found so far and the slots found so far. The containers are
  hash maps and a hash set in the code, of which only lookups are observed.
\<close>

type_synonym search = "ObjectRef list \<times> (u32, ObjectRef) omap \<times> u32 list"

definition discover :: "ObjectRef \<Rightarrow> ObjectRef \<Rightarrow> search \<Rightarrow> search" where
  "discover source r st =
     (case st of (queue, parent, visited) \<Rightarrow>
        if refSlot r \<in> set visited then st
        else (queue @ [r], fst (om_emplace (refSlot r) source parent), refSlot r # visited))"

text \<open>The walk from a found object to its root; the fuel is the number of parents known.\<close>

fun climb :: "nat \<Rightarrow> (u32, ObjectRef) omap \<Rightarrow> ObjectRef \<Rightarrow> ObjectRef list" where
  "climb 0 parent cursor = []"
| "climb (Suc fuel) parent cursor =
     (if \<not> ref_valid cursor then []
      else cursor # (case om_find parent (refSlot cursor) of
                       None \<Rightarrow> [] | Some p \<Rightarrow> climb fuel parent p))"

lemma visited_discover: "set (snd (snd (discover source r st))) = insert (refSlot r) (set (snd (snd st)))"
  by (auto simp: discover_def split: prod.split)

lemma discover_room:
  "length (fst (discover source r st)) + card (- set (snd (snd (discover source r st)))) =
   length (fst st) + card (- set (snd (snd st)))"
proof -
  obtain queue parent visited where st: "st = (queue, parent, visited)" by (cases st)
  show ?thesis
  proof (cases "refSlot r \<in> set visited")
    case True
    with st show ?thesis by (simp add: discover_def)
  next
    case False
    have "- set (refSlot r # visited) = - set visited - {refSlot r}" by auto
    moreover have "refSlot r \<in> - set visited" "finite (- set visited)" using False by simp_all
    ultimately have "Suc (card (- set (refSlot r # visited))) = card (- set visited)"
      using card.remove [of "- set visited" "refSlot r"] by simp
    with False st show ?thesis by (simp add: discover_def)
  qed
qed

lemma discover_fold_room:
  "length (fst (fold (\<lambda>e. discover source (edTarget e)) es st)) +
     card (- set (snd (snd (fold (\<lambda>e. discover source (edTarget e)) es st)))) =
   length (fst st) + card (- set (snd (snd st)))"
  by (induction es arbitrary: st) (simp_all add: discover_room)

function search_path :: "ObjectRef \<Rightarrow> (u32, HeapObjectInfo) omap \<Rightarrow> search \<Rightarrow> ObjectRef list" where
  "search_path target objects (queue, parent, visited) =
     (case queue of
        [] \<Rightarrow> []
      | current # rest \<Rightarrow>
          if current = target then rev (climb (length parent) parent current)
          else
            (case om_find objects (refSlot current) of
               None \<Rightarrow> search_path target objects (rest, parent, visited)
             | Some info \<Rightarrow>
                 search_path target objects
                   (fold (\<lambda>e. discover current (edTarget e)) (hiEdges info) (rest, parent, visited))))"
  by pat_completeness auto

termination
proof (relation "measure (\<lambda>(target, objects, st). length (fst st) + card (- set (snd (snd st))))")
  show "wf (measure (\<lambda>(target, objects, st). length (fst st) + card (- set (snd (snd st)))))" by simp
qed (simp_all add: discover_fold_room)

declare search_path.simps [simp del]

definition imageIndex :: "HeapObjectInfo list \<Rightarrow> (u32, HeapObjectInfo) omap" where
  "imageIndex infos = fold (\<lambda>info m. fst (om_emplace (refSlot (hiReference info)) info m)) infos []"

definition retainingPath :: "ObjectRef \<Rightarrow> ShadowStack option \<Rightarrow> ManagedHeap \<Rightarrow> ObjectRef list" where
  "retainingPath target shadow h =
     (if \<not> isAlive target h then []
      else
        (let image = heap_snapshot shadow h in
         search_path target (imageIndex (hsObjects image))
           (fold (\<lambda>root. discover noRef (hrReference root)) (hsRoots image) ([], [], []))))"

section \<open>The search finds exactly what the roots reach\<close>

text \<open>The objects \<open>A\<close> with the edges \<open>E\<close> are those that the index describes.\<close>

definition indexes ::
    "ObjectRef set \<Rightarrow> (ObjectRef \<times> ObjectRef) set \<Rightarrow> (u32, HeapObjectInfo) omap \<Rightarrow> bool" where
  "indexes A E objects \<longleftrightarrow>
     inj_on refSlot A \<and> (\<forall>r \<in> A. ref_valid r) \<and> E \<subseteq> A \<times> A \<and>
     (\<forall>p \<in> A. \<exists>info. om_find objects (refSlot p) = Some info \<and> edTarget ` set (hiEdges info) = E `` {p})"

fun ancestry ::
    "(ObjectRef \<times> ObjectRef) set \<Rightarrow> ObjectRef set \<Rightarrow> (u32, ObjectRef) omap \<Rightarrow> ObjectRef list \<Rightarrow> bool" where
  "ancestry E R parent [] = False"
| "ancestry E R parent [r] = (om_find parent (refSlot r) = Some noRef \<and> r \<in> R)"
| "ancestry E R parent (r # p # rs) =
     (om_find parent (refSlot r) = Some p \<and> (p, r) \<in> E \<and> ancestry E R parent (p # rs))"

definition route :: "(ObjectRef \<times> ObjectRef) set \<Rightarrow> ObjectRef set \<Rightarrow> ObjectRef list \<Rightarrow> bool" where
  "route E R path \<longleftrightarrow> path \<noteq> [] \<and> hd path \<in> R \<and> successively (\<lambda>a b. (a, b) \<in> E) path"

lemma ancestry_put:
  assumes "ancestry E R parent rs" and "om_inv parent" and "om_find parent k = None"
  shows "ancestry E R (om_put k v parent) rs"
  using assms by (induction E R parent rs rule: ancestry.induct) auto

lemma ancestry_route: "ancestry E R parent rs \<Longrightarrow> route E R (rev rs)"
proof (induction E R parent rs rule: ancestry.induct)
  case (3 E R parent r p rs)
  then have "route E R (rev rs @ [p])" "(p, r) \<in> E" by simp_all
  then show ?case by (auto simp: route_def successively_append_iff hd_append split: if_splits)
qed (simp_all add: route_def)

lemma climb_ancestry:
  assumes "ancestry E R parent (r # rs)" and "length (r # rs) \<le> fuel"
    and "\<forall>r \<in> A. ref_valid r" and "E \<subseteq> A \<times> A" and "R \<subseteq> A"
  shows "climb fuel parent r = r # rs"
  using assms
proof (induction rs arbitrary: r fuel)
  case Nil
  then obtain n where "fuel = Suc n" by (cases fuel) auto
  moreover have "climb n parent noRef = []" by (cases n) (simp_all add: noRef_def ref_valid_def)
  ultimately show ?case using Nil by auto
next
  case (Cons p rs)
  then obtain n where "fuel = Suc n" by (cases fuel) auto
  with Cons show ?case by auto
qed

lemma route_reach:
  assumes "route E R path"
  shows "last path \<in> E\<^sup>* `` R"
proof -
  have "(hd path, last path) \<in> E\<^sup>*" using assms
  proof (induction path rule: rev_induct)
    case Nil
    then show ?case by (simp add: route_def)
  next
    case (snoc x path)
    show ?case
    proof (cases path rule: rev_cases)
      case Nil
      then show ?thesis by simp
    next
      case (snoc ys y)
      with \<open>route E R (path @ [x])\<close> have "route E R path" "(y, x) \<in> E"
        by (auto simp: route_def successively_append_iff hd_append split: if_splits)
      moreover from this snoc.IH snoc have "(hd path, y) \<in> E\<^sup>*" by simp
      ultimately have "(hd path, x) \<in> E\<^sup>*" by (blast intro: rtrancl.rtrancl_into_rtrancl)
      then show ?thesis using snoc by (cases ys) simp_all
    qed
  qed
  then show ?thesis using assms by (auto simp: route_def)
qed

definition search_ok ::
    "ObjectRef set \<Rightarrow> (ObjectRef \<times> ObjectRef) set \<Rightarrow> ObjectRef set \<Rightarrow> search \<Rightarrow> bool" where
  "search_ok A E R st \<longleftrightarrow>
     (case st of (queue, parent, visited) \<Rightarrow>
        om_inv parent \<and> fst ` set parent = set visited \<and>
        set queue \<subseteq> A \<and> refSlot ` set queue \<subseteq> set visited \<and>
        (\<forall>r \<in> A. refSlot r \<in> set visited \<longrightarrow>
           (\<exists>rs. ancestry E R parent (r # rs) \<and> length (r # rs) \<le> length parent)))"

lemma search_ok_start: "search_ok A E R ([], [], [])"
  by (simp add: search_ok_def)

lemma search_ok_discover:
  assumes ok: "search_ok A E R st" and "inj_on refSlot A" and "r \<in> A"
    and source: "source = noRef \<and> r \<in> R \<or> (source, r) \<in> E \<and> source \<in> A \<and> refSlot source \<in> set (snd (snd st))"
  shows "search_ok A E R (discover source r st)"
proof -
  obtain queue parent visited where st: "st = (queue, parent, visited)" by (cases st)
  show ?thesis
  proof (cases "refSlot r \<in> set visited")
    case True
    with ok st show ?thesis by (simp add: discover_def)
  next
    case False
    let ?parent = "om_put (refSlot r) source parent"
    have O: "om_inv parent" "fst ` set parent = set visited"
      and anc: "\<And>q. q \<in> A \<Longrightarrow> refSlot q \<in> set visited \<Longrightarrow>
          \<exists>rs. ancestry E R parent (q # rs) \<and> length (q # rs) \<le> length parent"
      using ok st by (auto simp: search_ok_def)
    have new: "om_find parent (refSlot r) = None" using O(2) False by (simp add: om_find_notin)
    have len: "length ?parent = Suc (length parent)" using omap.size_put_new [OF O(1) new] by simp
    have old: "\<exists>rs. ancestry E R ?parent (q # rs) \<and> length (q # rs) \<le> length parent"
      if "q \<in> A" "refSlot q \<in> set visited" for q
      using anc [OF that] ancestry_put [OF _ O(1) new] by blast
    have this_one: "\<exists>rs. ancestry E R ?parent (r # rs) \<and> length (r # rs) \<le> length ?parent"
    proof (cases "source = noRef \<and> r \<in> R")
      case True
      then have "ancestry E R ?parent [r]" using O(1) by simp
      then show ?thesis using len by fastforce
    next
      case False
      then have s: "(source, r) \<in> E" "source \<in> A" "refSlot source \<in> set visited" using source st by auto
      from old [OF s(2,3)] obtain rs where "ancestry E R ?parent (source # rs)"
        "length (source # rs) \<le> length parent" by blast
      then have "ancestry E R ?parent (r # source # rs) \<and> length (r # source # rs) \<le> length ?parent"
        using s(1) O(1) len by simp
      then show ?thesis by blast
    qed
    have "discover source r st = (queue @ [r], ?parent, refSlot r # visited)"
      using False new st by (simp add: discover_def om_emplace_new)
    moreover have "\<exists>rs. ancestry E R ?parent (q # rs) \<and> length (q # rs) \<le> length ?parent"
      if q: "q \<in> A" "refSlot q \<in> insert (refSlot r) (set visited)" for q
    proof (cases "refSlot q \<in> set visited")
      case True
      from old [OF q(1) this] len show ?thesis by (metis le_Suc_eq)
    next
      case False
      then have "q = r" using q assms(2,3) by (auto dest: inj_onD)
      with this_one show ?thesis by simp
    qed
    ultimately show ?thesis
      using ok st assms(3) O by (auto simp: search_ok_def keys_om_put)
  qed
qed

definition foundRefs :: "ObjectRef set \<Rightarrow> search \<Rightarrow> ObjectRef set" where
  "foundRefs A st = {r \<in> A. refSlot r \<in> set (snd (snd st))}"

lemma found_discover:
  "inj_on refSlot A \<Longrightarrow> r \<in> A \<Longrightarrow> foundRefs A (discover source r st) = insert r (foundRefs A st)"
  by (auto simp: foundRefs_def visited_discover dest: inj_onD)

lemma queue_discover:
  "inj_on refSlot A \<Longrightarrow> r \<in> A \<Longrightarrow>
   set (fst (discover source r st)) = set (fst st) \<union> ({r} - foundRefs A st)"
  by (auto simp: discover_def foundRefs_def split: prod.split)

text \<open>Discovering a list of references adds exactly the new ones to the queue.\<close>

lemma discover_list:
  assumes "search_ok A E R st" and "inj_on refSlot A" and "set rs \<subseteq> A"
    and "source = noRef \<and> set rs \<subseteq> R \<or>
         {source} \<times> set rs \<subseteq> E \<and> source \<in> A \<and> refSlot source \<in> set (snd (snd st))"
  shows "search_ok A E R (fold (discover source) rs st) \<and>
    foundRefs A (fold (discover source) rs st) = foundRefs A st \<union> set rs \<and>
    set (fst (fold (discover source) rs st)) = set (fst st) \<union> (set rs - foundRefs A st)"
  using assms
proof (induction rs arbitrary: st)
  case Nil
  then show ?case by simp
next
  case (Cons r rs)
  have "search_ok A E R (discover source r st)"
    by (rule search_ok_discover) (use Cons.prems in auto)
  moreover have "refSlot source \<in> set (snd (snd st)) \<longrightarrow>
      refSlot source \<in> set (snd (snd (discover source r st)))"
    by (simp add: visited_discover)
  ultimately show ?case
    using Cons.IH [of "discover source r st"] Cons.prems found_discover [OF Cons.prems(2), of r source st]
      queue_discover [OF Cons.prems(2), of r source st]
    by auto
qed

lemma discover_images:
  assumes "search_ok A E R st" and "inj_on refSlot A" and "f ` set es \<subseteq> A"
    and "source = noRef \<and> f ` set es \<subseteq> R \<or>
         {source} \<times> f ` set es \<subseteq> E \<and> source \<in> A \<and> refSlot source \<in> set (snd (snd st))"
  shows "search_ok A E R (fold (\<lambda>e. discover source (f e)) es st) \<and>
    foundRefs A (fold (\<lambda>e. discover source (f e)) es st) = foundRefs A st \<union> f ` set es \<and>
    set (fst (fold (\<lambda>e. discover source (f e)) es st)) = set (fst st) \<union> (f ` set es - foundRefs A st)"
  using discover_list [OF assms(1,2), of "map f es" source] assms(3,4)
  by (simp add: fold_map o_def)

definition pending ::
    "ObjectRef set \<Rightarrow> (ObjectRef \<times> ObjectRef) set \<Rightarrow> ObjectRef \<Rightarrow> search \<Rightarrow> bool" where
  "pending A E target st \<longleftrightarrow>
     (\<forall>r \<in> foundRefs A st. r \<in> set (fst st) \<or> E `` {r} \<subseteq> foundRefs A st \<and> r \<noteq> target)"

lemma closed_reach:
  assumes "R \<subseteq> D" and "\<And>r. r \<in> D \<Longrightarrow> E `` {r} \<subseteq> D"
  shows "E\<^sup>* `` R \<subseteq> D"
proof
  fix x assume "x \<in> E\<^sup>* `` R"
  then obtain r where "r \<in> R" "(r, x) \<in> E\<^sup>*" by blast
  from this(2,1) show "x \<in> D"
    by (induction rule: rtrancl_induct) (use assms in auto)
qed

lemma search_path_correct:
  assumes "indexes A E objects" and "R \<subseteq> A" and "search_ok A E R st"
    and "pending A E target st" and "R \<subseteq> foundRefs A st" and "target \<in> A"
  shows "if target \<in> E\<^sup>* `` R
    then route E R (search_path target objects st) \<and> last (search_path target objects st) = target
    else search_path target objects st = []"
  using assms
proof (induction target objects st rule: search_path.induct)
  case (1 target objects queue parent visited)
  let ?st = "(queue, parent, visited)"
  have A: "inj_on refSlot A" "\<forall>r \<in> A. ref_valid r" "E \<subseteq> A \<times> A"
    using 1(3) by (simp_all add: indexes_def)
  show ?case
  proof (cases queue)
    case Nil
    have "E\<^sup>* `` R \<subseteq> foundRefs A ?st"
      by (rule closed_reach) (use 1(6,7) Nil in \<open>auto simp: pending_def\<close>)
    moreover have "target \<notin> foundRefs A ?st" using 1(6) Nil by (auto simp: pending_def)
    ultimately have "target \<notin> E\<^sup>* `` R" by blast
    then show ?thesis using Nil by (simp add: search_path.simps)
  next
    case (Cons current rest)
    have cur: "current \<in> A" "refSlot current \<in> set visited" using 1(5) Cons by (auto simp: search_ok_def)
    show ?thesis
    proof (cases "current = target")
      case True
      obtain rs where rs: "ancestry E R parent (current # rs)" "length (current # rs) \<le> length parent"
        using 1(5) cur by (auto simp: search_ok_def)
      have eq: "search_path target objects ?st = rev (current # rs)"
        using climb_ancestry [OF rs A(2,3) 1(4)] Cons True by (simp add: search_path.simps)
      have "route E R (rev (current # rs))" by (rule ancestry_route) (rule rs(1))
      moreover from route_reach [OF this] have "target \<in> E\<^sup>* `` R" using True by simp
      ultimately show ?thesis unfolding eq using True by simp
    next
      case False
      from 1(3) cur obtain info where info: "om_find objects (refSlot current) = Some info"
        "edTarget ` set (hiEdges info) = E `` {current}" by (auto simp: indexes_def)
      let ?tail = "(rest, parent, visited)"
      let ?st' = "fold (\<lambda>e. discover current (edTarget e)) (hiEdges info) ?tail"
      have ok0: "search_ok A E R ?tail" using 1(5) Cons by (simp add: search_ok_def)
      have F: "foundRefs A ?tail = foundRefs A ?st" by (simp add: foundRefs_def)
      have D: "search_ok A E R ?st' \<and> foundRefs A ?st' = foundRefs A ?tail \<union> edTarget ` set (hiEdges info) \<and>
          set (fst ?st') = set (fst ?tail) \<union> (edTarget ` set (hiEdges info) - foundRefs A ?tail)"
        by (rule discover_images [OF ok0 A(1)]) (use info A(3) cur in auto)
      have st'1: "search_ok A E R ?st'" by (rule conjunct1 [OF D])
      have st'2: "foundRefs A ?st' = foundRefs A ?st \<union> E `` {current}"
        by (rule trans [OF conjunct1 [OF conjunct2 [OF D]]]) (rule arg_cong2 [OF F info(2)])
      have st'3: "set (fst ?st') = set rest \<union> (E `` {current} - foundRefs A ?st)"
        using conjunct2 [OF conjunct2 [OF D]] F info(2) by (simp only: fst_conv)
      have eq: "search_path target objects ?st = search_path target objects ?st'"
        by (subst search_path.simps) (simp add: Cons False info(1))
      have "pending A E target ?st'"
        using 1(6) Cons False unfolding pending_def st'2 st'3 by auto
      moreover have "R \<subseteq> foundRefs A ?st'" using 1(7) st'2 by blast
      ultimately show ?thesis
        unfolding eq by (rule 1(2) [OF Cons False info(1) 1(3,4) st'1 _ _ 1(8)])
    qed
  qed
qed

section \<open>The image describes the graph of the collector\<close>

text \<open>The references that the walk over one value adds, with the visited set of structs.\<close>

definition walked :: "StructStorage set \<Rightarrow> StructStorage list \<Rightarrow> ObjectRef set \<Rightarrow> ManagedHeap \<Rightarrow> bool" where
  "walked path seen R h \<longleftrightarrow> (\<forall>s \<in> set seen. s \<in> path \<or> storage_refs s \<inter> alive_refs h \<subseteq> R)"

lemma walked_step:
  assumes "walked (insert s path) seen (R \<union> (storage_refs s \<inter> alive_refs h)) h"
  shows "walked path seen (R \<union> (storage_refs s \<inter> alive_refs h)) h"
  using assms by (auto simp: walked_def)

lemma walked_mono: "walked path seen R h \<Longrightarrow> R \<subseteq> R' \<Longrightarrow> walked path seen R' h"
  by (fastforce simp: walked_def)

lemma addValueEdges_targets:
  "walked path (fst st) (edTarget ` set (snd st)) h \<Longrightarrow> \<forall>s \<in> path. size v < size s \<Longrightarrow>
     edTarget ` set (snd (addValueEdges h v label st)) =
       edTarget ` set (snd st) \<union> (set (value_refs v) \<inter> alive_refs h) \<and>
     walked path (fst (addValueEdges h v label st)) (edTarget ` set (snd (addValueEdges h v label st))) h"
  "walked path (fst st) (edTarget ` set (snd st)) h \<Longrightarrow> \<forall>s \<in> path. size_list size vs < size s \<Longrightarrow>
     edTarget ` set (snd (addFieldEdges h vs field label st)) =
       edTarget ` set (snd st) \<union> (set (values_refs vs) \<inter> alive_refs h) \<and>
     walked path (fst (addFieldEdges h vs field label st)) (edTarget ` set (snd (addFieldEdges h vs field label st))) h"
proof (induction h v label st and h vs field label st arbitrary: path and path
    rule: addValueEdges_addFieldEdges.induct)
  case (1 h r label st)
  then show ?case by (auto simp: alive_refs_def intro: walked_mono)
next
  case (2 h t a fs label st)
  let ?s = "StructStorage a fs"
  show ?case
  proof (cases "?s \<in> set (fst st)")
    case True
    have "?s \<notin> path" using 2(3) by force
    with True 2(2) have "storage_refs ?s \<inter> alive_refs h \<subseteq> edTarget ` set (snd st)"
      by (auto simp: walked_def)
    then have "set (values_refs fs) \<inter> alive_refs h \<subseteq> edTarget ` set (snd st)"
      by (simp add: storage_refs_def)
    with True 2(2) show ?thesis by auto
  next
    case False
    have "walked (insert ?s path) (?s # fst st) (edTarget ` set (snd st)) h"
      using 2(2) by (auto simp: walked_def)
    moreover have "\<forall>s \<in> insert ?s path. size_list size fs < size s" using 2(3) by auto
    ultimately have I: "edTarget ` set (snd (addFieldEdges h fs 0 label (?s # fst st, snd st))) =
        edTarget ` set (snd st) \<union> (storage_refs ?s \<inter> alive_refs h)"
      "walked (insert ?s path) (fst (addFieldEdges h fs 0 label (?s # fst st, snd st)))
        (edTarget ` set (snd st) \<union> (storage_refs ?s \<inter> alive_refs h)) h"
      using 2(1) [OF False, of "insert ?s path"] by (auto simp: storage_refs_def)
    from walked_step [OF I(2)] False I(1) show ?thesis by (simp add: storage_refs_def)
  qed
next
  case (5 h v vs field label st)
  have sz: "\<forall>s \<in> path. size v < size s" "\<forall>s \<in> path. size_list size vs < size s" using 5(4) by auto
  note A = 5(1) [OF 5(3) sz(1)]
  from 5(2) [OF conjunct2 [OF A] sz(2)] A show ?case
    by (elim conjE) (simp add: Int_Un_distrib2 Un_assoc)
qed auto

lemma addRoots_refs:
  "walked path (fst st) (set (snd st)) h \<Longrightarrow> \<forall>s \<in> path. size v < size s \<Longrightarrow>
     set (snd (addRoots h v st)) = set (snd st) \<union> (set (value_refs v) \<inter> alive_refs h) \<and>
     walked path (fst (addRoots h v st)) (set (snd (addRoots h v st))) h"
  "walked path (fst st) (set (snd st)) h \<Longrightarrow> \<forall>s \<in> path. size_list size vs < size s \<Longrightarrow>
     set (snd (addRootFields h vs st)) = set (snd st) \<union> (set (values_refs vs) \<inter> alive_refs h) \<and>
     walked path (fst (addRootFields h vs st)) (set (snd (addRootFields h vs st))) h"
proof (induction h v st and h vs st arbitrary: path and path rule: addRoots_addRootFields.induct)
  case (1 h r st)
  then show ?case by (auto simp: alive_refs_def intro: walked_mono)
next
  case (2 h t a fs st)
  let ?s = "StructStorage a fs"
  show ?case
  proof (cases "?s \<in> set (fst st)")
    case True
    have "?s \<notin> path" using 2(3) by force
    with True 2(2) have "storage_refs ?s \<inter> alive_refs h \<subseteq> set (snd st)" by (auto simp: walked_def)
    then have "set (values_refs fs) \<inter> alive_refs h \<subseteq> set (snd st)" by (simp add: storage_refs_def)
    with True 2(2) show ?thesis by auto
  next
    case False
    have "walked (insert ?s path) (?s # fst st) (set (snd st)) h"
      using 2(2) by (auto simp: walked_def)
    moreover have "\<forall>s \<in> insert ?s path. size_list size fs < size s" using 2(3) by auto
    ultimately have I: "set (snd (addRootFields h fs (?s # fst st, snd st))) =
        set (snd st) \<union> (storage_refs ?s \<inter> alive_refs h)"
      "walked (insert ?s path) (fst (addRootFields h fs (?s # fst st, snd st)))
        (set (snd st) \<union> (storage_refs ?s \<inter> alive_refs h)) h"
      using 2(1) [OF False, of "insert ?s path"] by (auto simp: storage_refs_def)
    from walked_step [OF I(2)] False I(1) show ?thesis by (simp add: storage_refs_def)
  qed
next
  case (5 h v vs st)
  have sz: "\<forall>s \<in> path. size v < size s" "\<forall>s \<in> path. size_list size vs < size s" using 5(4) by auto
  note A = 5(1) [OF 5(3) sz(1)]
  from 5(2) [OF conjunct2 [OF A] sz(2)] A show ?case
    by (elim conjE) (simp add: Int_Un_distrib2 Un_assoc)
qed auto

lemma addEdge_targets:
  "edTarget ` set (addEdge h obj i) =
     (if i < length (payloadValues obj) then set (value_refs (payloadValues obj ! i)) \<inter> alive_refs h else {})"
  using addValueEdges_targets(1) [of "{}" "([], [])" h] by (simp add: addEdge_def walked_def)

lemma objectEdges_targets:
  assumes "hoKind obj \<noteq> KString"
  shows "edTarget ` set (objectEdges h obj) = children obj \<inter> alive_refs h"
proof (cases "hoPayload obj")
  case (PString s)
  then show ?thesis
    by (auto simp: objectEdges_def addEdge_def children_def traced_def payloadValues_def split: if_splits)
next
  case (PValues vs)
  let ?is = "if hoKind obj = KArray then [0..<length vs] else hoReferenceFields obj"
  have "edTarget ` set (objectEdges h obj) = (\<Union>i \<in> set ?is. edTarget ` set (addEdge h obj i))"
    by (auto simp: objectEdges_def payloadValues_def PValues image_UN)
  also have "\<dots> = (\<Union>i \<in> {i \<in> set ?is. i < length vs}. set (value_refs (vs ! i))) \<inter> alive_refs h"
    unfolding addEdge_targets by (auto simp: payloadValues_def PValues split: if_splits)
  also have "(\<Union>i \<in> {i \<in> set ?is. i < length vs}. set (value_refs (vs ! i))) = children obj"
  proof (cases "hoKind obj")
    case KArray
    have "(\<Union>i \<in> {i. i < length vs}. set (value_refs (vs ! i))) = (\<Union>v \<in> set vs. set (value_refs v))"
    proof -
      have eq: "set vs = (\<lambda>i. vs ! i) ` {i. i < length vs}" by (auto simp: set_conv_nth)
      show ?thesis unfolding eq by blast
    qed
    with KArray show ?thesis by (simp add: children_def traced_def PValues set_values_refs)
  qed (use assms in \<open>auto simp: children_def traced_def PValues set_values_refs\<close>)
  finally show ?thesis .
qed

definition heapEdges :: "ManagedHeap \<Rightarrow> (ObjectRef \<times> ObjectRef) set" where
  "heapEdges h = {(p, c). \<exists>obj. heap_get p h = Some obj \<and> c \<in> children obj \<inter> alive_refs h}"

lemma info_edges: "edTarget ` set (hiEdges (objectInfo h i s obj)) = children obj \<inter> alive_refs h"
proof (cases "hoKind obj = KString")
  case True
  then show ?thesis by (cases "hoPayload obj") (simp_all add: objectInfo_def children_def traced_def Let_def)
next
  case False
  then show ?thesis using objectEdges_targets by (simp add: objectInfo_def Let_def)
qed

lemma info_slot [simp]: "refSlot (hiReference (objectInfo h i s obj)) = of_nat i"
  by (simp add: objectInfo_def Let_def)

lemma imageIndex_find:
  assumes "\<exists>info \<in> set infos. refSlot (hiReference info) = k"
  shows "\<exists>info \<in> set infos. refSlot (hiReference info) = k \<and> om_find (imageIndex infos) k = Some info"
proof -
  let ?f = "\<lambda>info m. fst (om_emplace (refSlot (hiReference info)) info m)"
  have "om_inv m \<Longrightarrow> om_inv (fold ?f is m) \<and>
      (case om_find m k of
         Some info \<Rightarrow> om_find (fold ?f is m) k = Some info
       | None \<Rightarrow> (\<exists>info \<in> set is. refSlot (hiReference info) = k) \<longrightarrow>
           (\<exists>info \<in> set is. refSlot (hiReference info) = k \<and> om_find (fold ?f is m) k = Some info))" for "is" m
  proof (induction "is" arbitrary: m)
    case Nil
    then show ?case by (simp split: option.split)
  next
    case (Cons i "is")
    have "om_inv (?f i m)" using Cons.prems by (rule om_inv_emplace)
    from Cons.IH [OF this] show ?case
      using Cons.prems by (cases "om_find m (refSlot (hiReference i))")
        (auto simp: om_emplace_new om_emplace_old split: option.splits if_splits)
  qed
  from this [OF om_inv_Nil, of infos] assms show ?thesis by (simp add: imageIndex_def)
qed

lemma image_objects:
  "info \<in> set (hsObjects (heap_snapshot shadow h)) \<longleftrightarrow>
     (\<exists>i < length (hSlots h). \<exists>obj. slotObject (hSlots h ! i) = Some obj \<and>
        info = objectInfo h i (hSlots h ! i) obj)"
  by (auto simp: heap_snapshot_def Let_def split: option.splits intro!: bexI) (metis option.inject)

lemma image_roots:
  "hrReference ` set (hsRoots (heap_snapshot shadow h)) =
     root_refs (case shadow of None \<Rightarrow> [] | Some st \<Rightarrow> st) h \<inter> alive_refs h"
proof -
  have one: "hrReference ` set (appendRoots h kind tv) = set (value_refs (snd tv)) \<inter> alive_refs h" for kind tv
    using addRoots_refs(1) [of "{}" "([], [])" h "snd tv"]
    by (simp add: appendRoots_def walked_def image_image)
  have many: "hrReference ` set (concat (map (appendRoots h kind) tvs)) =
      set (values_refs (map snd tvs)) \<inter> alive_refs h" for kind tvs
  proof -
    have "hrReference ` set (concat (map (appendRoots h kind) tvs)) =
        (\<Union>tv \<in> set tvs. hrReference ` set (appendRoots h kind tv))" by (auto simp: image_UN)
    also have "\<dots> = (\<Union>tv \<in> set tvs. set (value_refs (snd tv))) \<inter> alive_refs h" unfolding one by blast
    finally show ?thesis by (simp add: set_values_refs)
  qed
  have "visitRoots [] = []" by (simp add: visitRoots_def)
  then have vs: "(case shadow of None \<Rightarrow> [] | Some st \<Rightarrow> visitRoots st) =
      visitRoots (case shadow of None \<Rightarrow> [] | Some st \<Rightarrow> st)" by (simp split: option.split)
  show ?thesis
    unfolding heap_snapshot_def Let_def HeapSnapshot.select_convs set_sort set_append image_Un many vs
    by (auto simp: root_refs_def set_values_refs)
qed

text \<open>The index of the image describes the objects that are alive and the edges among them.\<close>

lemma image_indexes:
  assumes "heap_inv h"
  shows "indexes (alive_refs h) (heapEdges h) (imageIndex (hsObjects (heap_snapshot shadow h)))"
  unfolding indexes_def
proof (intro conjI ballI)
  note W = heap_wfD [OF conjunct1 [OF assms [unfolded heap_inv_def]]]
  show "inj_on refSlot (alive_refs h)"
    using heap_get_same_slot by (auto simp: inj_on_def alive_refs_def)
  show "heapEdges h \<subseteq> alive_refs h \<times> alive_refs h" by (auto simp: heapEdges_def alive_refs_def)
  fix p assume "p \<in> alive_refs h"
  then obtain obj where get: "heap_get p h = Some obj" by (auto simp: alive_refs_def)
  then have G: "ref_valid p" "unat (refSlot p) < length (hSlots h)"
    "slotObject (hSlots h ! unat (refSlot p)) = Some obj" by (simp_all add: heap_get_iff)
  then show "ref_valid p" by simp
  let ?infos = "hsObjects (heap_snapshot shadow h)"
  have "objectInfo h (unat (refSlot p)) (hSlots h ! unat (refSlot p)) obj \<in> set ?infos"
    unfolding image_objects using G by blast
  moreover have "refSlot (hiReference (objectInfo h (unat (refSlot p)) (hSlots h ! unat (refSlot p)) obj)) = refSlot p"
    by simp
  ultimately obtain info where i: "info \<in> set ?infos" "refSlot (hiReference info) = refSlot p"
      "om_find (imageIndex ?infos) (refSlot p) = Some info"
    using imageIndex_find by blast
  from i(1) obtain j obj' where j: "j < length (hSlots h)" "slotObject (hSlots h ! j) = Some obj'"
      "info = objectInfo h j (hSlots h ! j) obj'"
    unfolding image_objects by blast
  have "unat (of_nat j :: u32) = j"
    using j(1) W(2) unat_InvalidSlot by (intro unat_of_nat_u32) linarith
  then have "j = unat (refSlot p)" using i(2) j(3) by auto
  then have "obj' = obj" using j(2) G(3) by simp
  then have "edTarget ` set (hiEdges info) = heapEdges h `` {p}"
    using get unfolding j(3) info_edges by (auto simp: heapEdges_def)
  with i(3) show "\<exists>info. om_find (imageIndex ?infos) (refSlot p) = Some info \<and>
      edTarget ` set (hiEdges info) = heapEdges h `` {p}" by blast
qed

lemma reach_edges: "reach h R = (heapEdges h)\<^sup>* `` (R \<inter> alive_refs h)"
proof
  show "reach h R \<subseteq> (heapEdges h)\<^sup>* `` (R \<inter> alive_refs h)"
  proof
    fix r assume "r \<in> reach h R"
    then show "r \<in> (heapEdges h)\<^sup>* `` (R \<inter> alive_refs h)"
    proof induction
      case (reach_root r)
      then show ?case by blast
    next
      case (reach_child r obj c)
      then have "(r, c) \<in> heapEdges h" by (auto simp: heapEdges_def)
      with reach_child.IH show ?case by (blast intro: rtrancl.rtrancl_into_rtrancl)
    qed
  qed
  show "(heapEdges h)\<^sup>* `` (R \<inter> alive_refs h) \<subseteq> reach h R"
    by (rule closed_reach) (auto simp: heapEdges_def intro: reach_root reach_child)
qed

lemma retainingPath_route:
  fixes shadow :: "ShadowStack option"
  assumes inv: "heap_inv h"
  defines "R \<equiv> root_refs (case shadow of None \<Rightarrow> [] | Some st \<Rightarrow> st) h \<inter> alive_refs h"
  shows "if target \<in> (heapEdges h)\<^sup>* `` R
    then route (heapEdges h) R (retainingPath target shadow h) \<and> last (retainingPath target shadow h) = target
    else retainingPath target shadow h = []"
proof (cases "target \<in> alive_refs h")
  case False
  have "(heapEdges h)\<^sup>* `` R \<subseteq> alive_refs h"
    by (rule closed_reach) (auto simp: R_def heapEdges_def)
  with False show ?thesis by (auto simp: retainingPath_def isAlive_def alive_refs_def)
next
  case True
  let ?image = "heap_snapshot shadow h"
  let ?start = "([], [], []) :: search"
  let ?roots = "fold (\<lambda>root. discover noRef (hrReference root)) (hsRoots ?image) ?start"
  have roots: "hrReference ` set (hsRoots ?image) = R" unfolding image_roots R_def ..
  note I = image_indexes [OF inv, of shadow]
  then have inj: "inj_on refSlot (alive_refs h)" by (simp add: indexes_def)
  have "search_ok (alive_refs h) (heapEdges h) R ?roots \<and>
      foundRefs (alive_refs h) ?roots = foundRefs (alive_refs h) ?start \<union> hrReference ` set (hsRoots ?image) \<and>
      set (fst ?roots) = set (fst ?start) \<union>
        (hrReference ` set (hsRoots ?image) - foundRefs (alive_refs h) ?start)"
    by (rule discover_images [OF search_ok_start inj]) (simp_all add: roots, simp add: R_def)
  then have D: "search_ok (alive_refs h) (heapEdges h) R ?roots"
    "foundRefs (alive_refs h) ?roots = R" "set (fst ?roots) = R"
    by (simp_all add: roots foundRefs_def)
  have "retainingPath target shadow h = search_path target (imageIndex (hsObjects ?image)) ?roots"
    using True by (simp add: retainingPath_def Let_def isAlive_def alive_refs_def)
  moreover have "pending (alive_refs h) (heapEdges h) target ?roots" using D by (simp add: pending_def)
  moreover have "R \<subseteq> alive_refs h" by (simp add: R_def)
  ultimately show ?thesis
    using search_path_correct [OF I _ D(1) _ _ True] D(2) by simp
qed

section \<open>Properties\<close>

text \<open>
  C12: \<open>retainingPath\<close> answers with a path exactly when the collector would keep the object, for
  every reachable state of the heap: the path is empty if and only if the roots do not reach the
  target, and otherwise leads from a root to the target along references that the collector
  follows. The search and the walk back along the parents always end.
\<close>

theorem retainingPath_exact:
  assumes "heapId \<noteq> 0" and "h = heap_run ops (newHeap config heapId)"
    and "roots = root_refs (case shadow of None \<Rightarrow> [] | Some st \<Rightarrow> st) h"
    and "path = retainingPath target shadow h"
  shows "if target \<in> reach h roots
    then path \<noteq> [] \<and> hd path \<in> roots \<and> last path = target \<and>
      successively (\<lambda>p c. \<exists>obj. heap_get p h = Some obj \<and> c \<in> children obj \<and> isAlive c h) path
    else path = []"
proof -
  have "heap_inv h" using heap_inv_reachable assms(1,2) by blast
  then have "if target \<in> reach h roots
      then route (heapEdges h) (roots \<inter> alive_refs h) path \<and> last path = target else path = []"
    using retainingPath_route [of h target shadow] unfolding assms(3,4) reach_edges by blast
  then show ?thesis
    by (auto simp: route_def heapEdges_def alive_refs_def isAlive_def split: if_splits elim!: successively_mono)
qed

theorem retainingPath_exact_witness:
  "retainingPath (ObjectRef 0 1 KString 7) (Some exampleShadow) exampleHeap \<noteq> []"
  using retainingPath_exact [OF _ exampleHeap_def refl refl, of "ObjectRef 0 1 KString 7" "Some exampleShadow"]
    exampleHeap_reach
  by simp

end
