(* ===== verification/Heap_Store.thy ===== *)
theory Heap_Store
  imports Heap_Retaining
begin

text \<open>
  The abstract specification of the managed heap: a store of objects under references and of
  roots under tokens, without slots, generations, mark bits, mark stack or free list. Allocation
  adds a fresh object or fails, a store changes one element when its declarative condition
  holds, and the collector is any process that drops unreachable objects. \<open>store_of\<close> abstracts a
  heap, and every operation is shown to be a step of the specification; the typing of arrays is
  then proved on the abstract store.
\<close>

section \<open>The abstract store\<close>

record GcStore =
  gsObjects :: "ObjectRef \<Rightarrow> HeapObject option"
  gsRoots :: "u64 \<Rightarrow> Value option"

definition newStore :: GcStore where
  "newStore = \<lparr>gsObjects = Map.empty, gsRoots = Map.empty\<rparr>"

definition store_of :: "ManagedHeap \<Rightarrow> GcStore" where
  "store_of h = \<lparr>gsObjects = contents h, gsRoots = om_find (hRoots h)\<rparr>"

inductive_set store_reach :: "(ObjectRef \<Rightarrow> HeapObject option) \<Rightarrow> ObjectRef set \<Rightarrow> ObjectRef set" for objs R where
  store_root: "r \<in> R \<Longrightarrow> objs r \<noteq> None \<Longrightarrow> r \<in> store_reach objs R"
| store_child: "r \<in> store_reach objs R \<Longrightarrow> objs r = Some obj \<Longrightarrow> c \<in> children obj \<Longrightarrow>
    objs c \<noteq> None \<Longrightarrow> c \<in> store_reach objs R"

definition store_roots :: "ShadowStack \<Rightarrow> GcStore \<Rightarrow> ObjectRef set" where
  "store_roots shadow s =
     set (values_refs (visitRoots shadow)) \<union> (\<Union>v \<in> ran (gsRoots s). set (value_refs v))"

text \<open>What a collector may do: drop objects, none of them reachable.\<close>

definition collected :: "ShadowStack \<Rightarrow> GcStore \<Rightarrow> GcStore \<Rightarrow> bool" where
  "collected shadow s s' \<longleftrightarrow>
     gsRoots s' = gsRoots s \<and> gsObjects s' \<subseteq>\<^sub>m gsObjects s \<and>
     (\<forall>r \<in> store_reach (gsObjects s) (store_roots shadow s). gsObjects s' r = gsObjects s r)"

text \<open>What an allocation may add.\<close>

fun fresh_object :: "heap_op \<Rightarrow> HeapObject \<Rightarrow> bool" where
  "fresh_object (OpAllocString text) obj \<longleftrightarrow> hoKind obj = KString \<and> hoPayload obj = PString text"
| "fresh_object (OpAllocTypedArray a e t n v) obj \<longleftrightarrow>
     hoKind obj = KArray \<and> hoTypeId obj = a \<and> hoElementType obj = e \<and> hoElementTypeId obj = t \<and>
     hoPayload obj = PValues (replicate n v) \<and> (e \<noteq> PtError \<longrightarrow> valueType v = e)"
| "fresh_object (OpAllocArray n v) obj \<longleftrightarrow>
     hoKind obj = KArray \<and> hoElementType obj = (if v = VNone then PtError else valueType v) \<and>
     hoPayload obj = PValues (replicate n v)"
| "fresh_object (OpAllocRecord n) obj \<longleftrightarrow>
     hoKind obj = KRecord \<and> hoTypeId obj = 0 \<and> hoPayload obj = PValues (replicate n VNone)"
| "fresh_object (OpAllocObject t vs rf) obj \<longleftrightarrow>
     hoKind obj = KRecord \<and> hoTypeId obj = t \<and> t \<noteq> 0 \<and> hoPayload obj = PValues vs \<and>
     hoReferenceFields obj = remdups_adj (sort rf) \<and> (\<forall>i \<in> set rf. i < length vs)"
| "fresh_object _ obj \<longleftrightarrow> False"

definition allocated :: "heap_op \<Rightarrow> GcStore \<Rightarrow> GcStore \<Rightarrow> bool" where
  "allocated op s s' \<longleftrightarrow>
     s' = s \<or> (\<exists>r obj. gsObjects s r = None \<and> fresh_object op obj \<and> refKind r = hoKind obj \<and>
       s' = s\<lparr>gsObjects := (gsObjects s)(r \<mapsto> obj)\<rparr>)"

text \<open>The declarative form of the checks of \<open>arraySet\<close>.\<close>

definition accepts ::
    "(ObjectRef \<Rightarrow> HeapObject option) \<Rightarrow> HeapObject \<Rightarrow> Value \<Rightarrow> ArrayStoreTypePolicy \<Rightarrow> bool" where
  "accepts objs obj v policy \<longleftrightarrow>
     (case hoElementType obj of
        PtError \<Rightarrow> True
      | PtObject \<Rightarrow> v = VNullObject \<or>
          (\<exists>c child. v = VRef c \<and> objs c = Some child \<and> hoKind child = KRecord \<and> hoTypeId child \<noteq> 0 \<and>
             (policy = StoreExact \<longrightarrow> hoTypeId child = hoElementTypeId obj))
      | PtArray \<Rightarrow> v = VNullArray \<or>
          (\<exists>c child. v = VRef c \<and> objs c = Some child \<and> hoKind child = KArray \<and>
             hoTypeId child = hoElementTypeId obj)
      | PtStruct \<Rightarrow> (\<exists>fs. v = VStruct (hoElementTypeId obj) (Some fs))
      | PtEnum \<Rightarrow> (\<exists>n. v = VEnum (hoElementTypeId obj) n)
      | PtHandle \<Rightarrow> (\<exists>nh. v = VHandle nh \<and> hoElementTypeId obj \<in> {0, nhTypeId nh})
      | e \<Rightarrow> valueType v = e)"

definition array_stored :: "ObjectRef \<Rightarrow> nat \<Rightarrow> Value \<Rightarrow> ArrayStoreTypePolicy \<Rightarrow> GcStore \<Rightarrow> GcStore" where
  "array_stored r i v policy s =
     (case gsObjects s r of
        None \<Rightarrow> s
      | Some obj \<Rightarrow>
          if hoKind obj = KArray \<and> i < length (payloadValues obj) \<and> accepts (gsObjects s) obj v policy
          then s\<lparr>gsObjects := (gsObjects s)(r \<mapsto> stored i v obj)\<rparr> else s)"

definition field_stored :: "ObjectRef \<Rightarrow> nat \<Rightarrow> Value \<Rightarrow> GcStore \<Rightarrow> GcStore" where
  "field_stored r i v s =
     (case gsObjects s r of
        None \<Rightarrow> s
      | Some obj \<Rightarrow>
          if hoKind obj = KRecord \<and> i < length (payloadValues obj)
          then s\<lparr>gsObjects := (gsObjects s)(r \<mapsto> stored i v obj)\<rparr> else s)"

text \<open>Roots may be refused; those that are taken refer to live objects only.\<close>

definition rooted :: "Value \<Rightarrow> GcStore \<Rightarrow> GcStore \<Rightarrow> bool" where
  "rooted v s s' \<longleftrightarrow>
     s' = s \<or> (set (value_refs v) \<subseteq> dom (gsObjects s) \<and>
       (\<exists>token. token \<noteq> 0 \<and> s' = s\<lparr>gsRoots := (gsRoots s)(token \<mapsto> v)\<rparr>))"

fun store_step :: "heap_op \<Rightarrow> GcStore \<Rightarrow> GcStore \<Rightarrow> bool" where
  "store_step (OpArraySet r i v policy) s s' \<longleftrightarrow> s' = array_stored r i v policy s"
| "store_step (OpFieldSet r i v) s s' \<longleftrightarrow> s' = field_stored r i v s"
| "store_step (OpAddRoot v) s s' \<longleftrightarrow> rooted v s s'"
| "store_step (OpUpdateRoot token v) s s' \<longleftrightarrow> rooted v s s'"
| "store_step (OpRemoveRoot token) s s' \<longleftrightarrow> s' = s\<lparr>gsRoots := (gsRoots s)(token := None)\<rparr>"
| "store_step OpRequest s s' \<longleftrightarrow> s' = s"
| "store_step (OpStep shadow budget) s s' \<longleftrightarrow> collected shadow s s'"
| "store_step (OpCollectFull shadow) s s' \<longleftrightarrow> collected shadow s s' \<and>
     dom (gsObjects s') = store_reach (gsObjects s) (store_roots shadow s)"
| "store_step op s s' \<longleftrightarrow> allocated op s s'"

fun store_run :: "heap_op list \<Rightarrow> GcStore \<Rightarrow> GcStore \<Rightarrow> bool" where
  "store_run [] s s' \<longleftrightarrow> s' = s"
| "store_run (op # ops) s s' \<longleftrightarrow> (\<exists>t. store_step op s t \<and> store_run ops t s')"

section \<open>The heap implements the store\<close>

lemma store_reach_eq: "store_reach (contents h) R = reach h R"
proof
  have get: "contents h r = Some obj \<Longrightarrow> \<exists>o'. heap_get r h = Some o' \<and> children o' = children obj" for r obj
    by (auto simp: contents_def)
  show "store_reach (contents h) R \<subseteq> reach h R"
  proof
    fix r assume "r \<in> store_reach (contents h) R"
    then show "r \<in> reach h R"
    proof induction
      case (store_root r)
      then show ?case by (simp add: reach_root alive_contents)
    next
      case (store_child r obj c)
      then show ?case using get by (metis alive_contents reach_child)
    qed
  qed
  show "reach h R \<subseteq> store_reach (contents h) R"
  proof
    fix r assume "r \<in> reach h R"
    then show "r \<in> store_reach (contents h) R"
    proof induction
      case (reach_root r)
      then show ?case by (simp add: store_root alive_contents)
    next
      case (reach_child r obj c)
      have "contents h r = Some (unmarkObject obj)" using reach_child.hyps by (simp add: contents_def)
      with reach_child show ?case by (auto simp: alive_contents intro: store_child)
    qed
  qed
qed

lemma store_roots_eq:
  assumes "om_inv (hRoots h)"
  shows "store_roots shadow (store_of h) = root_refs shadow h"
proof -
  have "ran (om_find (hRoots h)) = snd ` set (hRoots h)"
    using om_find_iff [OF assms] by (force simp: ran_def)
  then show ?thesis by (auto simp: store_roots_def store_of_def root_refs_def set_values_refs)
qed

lemma collected_survives:
  assumes "survives (root_refs shadow h) h h'" and "hRoots h' = hRoots h" and "om_inv (hRoots h)"
  shows "collected shadow (store_of h) (store_of h')"
proof -
  have "contents h' \<subseteq>\<^sub>m contents h"
    using assms(1) by (auto simp: survives_def map_le_def alive_contents)
  with assms show ?thesis
    by (simp add: collected_def store_roots_eq [OF assms(3)])
      (simp add: store_of_def store_reach_eq survives_def)
qed

lemma fresh_unmark: "fresh_object op (unmarkObject obj) = fresh_object op obj"
  by (cases op) (simp_all add: unmarkObject_def)

lemma store_of_requested [simp]: "store_of (h\<lparr>hRequested := b\<rparr>) = store_of h"
  using get_views(1) [of "h\<lparr>hRequested := b\<rparr>" h] by (simp add: store_of_def)

lemma allocate_store:
  assumes inv: "heap_inv h" and ok: "obj_ok (new_object kind tid et etid pl rf bytes h)"
    and fresh: "fresh_object op (new_object kind tid et etid pl rf bytes h)"
  shows "allocated op (store_of h) (store_of (snd (allocate kind tid et etid pl rf bytes h)))"
proof (cases "allocate kind tid et etid pl rf bytes h")
  case (Pair res h')
  show ?thesis
  proof (cases res)
    case (Inl e)
    with Pair have "h' = h \<or> h' = h\<lparr>hRequested := True\<rparr>" using allocate_error by simp
    then have "store_of h' = store_of h" by auto
    with Pair show ?thesis by (simp add: allocated_def)
  next
    case (Inr r)
    with Pair have run: "allocate kind tid et etid pl rf bytes h = (Inr r, h')" by simp
    let ?o = "new_object kind tid et etid pl rf bytes h"
    note E = allocate_effect [OF inv run ok] and R = allocate_result(1) [OF run]
    have "contents h' = (contents h)(r \<mapsto> unmarkObject ?o)"
      by (simp add: fun_eq_iff contents_def E(3))
    moreover have "contents h r = None" using E(2) by (simp add: contents_def)
    moreover have "refKind r = hoKind (unmarkObject ?o)"
      by (simp add: R new_ref_def unmarkObject_def new_object_def split: list.split)
    ultimately have "\<exists>r obj. gsObjects (store_of h) r = None \<and> fresh_object op obj \<and> refKind r = hoKind obj \<and>
        store_of h' = (store_of h)\<lparr>gsObjects := (gsObjects (store_of h))(r \<mapsto> obj)\<rparr>"
      using fresh E(4) fresh_unmark by (intro exI [of _ r] exI [of _ "unmarkObject ?o"]) (simp add: store_of_def)
    then show ?thesis unfolding Pair snd_conv allocated_def by blast
  qed
qed

lemma allocations_store:
  assumes inv: "heap_inv h"
  shows "allocated (OpAllocString s) (store_of h) (store_of (snd (allocateString s h)))"
    and "allocated (OpAllocTypedArray a e t n v) (store_of h) (store_of (snd (allocateTypedArray a e t n v h)))"
    and "allocated (OpAllocArray n v) (store_of h) (store_of (snd (allocateArray n v h)))"
    and "allocated (OpAllocRecord n) (store_of h) (store_of (snd (allocateRecord n h)))"
    and "allocated (OpAllocObject tid vs rf) (store_of h) (store_of (snd (allocateObject tid vs rf h)))"
proof -
  have same: "allocated op s s" for op s by (simp add: allocated_def)
  have null: "valueType v = PtNull \<longleftrightarrow> v = VNone"
    by (cases v) (auto simp: valueType_def split: ObjectKind.splits)
  have none: "valueType VNone = PtNull" by (simp add: valueType_def)
  note A = allocate_store [OF inv] and O = new_object_def obj_ok_def
  show "allocated (OpAllocString s) (store_of h) (store_of (snd (allocateString s h)))"
    unfolding allocateString_def by (rule A) (simp_all add: O)
  show "allocated (OpAllocTypedArray a e t n v) (store_of h) (store_of (snd (allocateTypedArray a e t n v h)))"
    unfolding allocateTypedArray_def Let_def by (auto simp: same intro!: A simp: O)
  show "allocated (OpAllocArray n v) (store_of h) (store_of (snd (allocateArray n v h)))"
    unfolding allocateArray_def allocateTypedArray_def Let_def by (auto simp: same null none intro!: A simp: O)
  show "allocated (OpAllocRecord n) (store_of h) (store_of (snd (allocateRecord n h)))"
    unfolding allocateRecord_def Let_def by (auto simp: same intro!: A simp: O)
  show "allocated (OpAllocObject tid vs rf) (store_of h) (store_of (snd (allocateObject tid vs rf h)))"
    unfolding allocateObject_def Let_def
    by (auto simp: same not_le sorted_remdups_adj intro!: A simp: O)
qed

lemma objectTypeId_contents:
  "objectTypeId c h = (case contents h c of
     None \<Rightarrow> None
   | Some child \<Rightarrow> if hoKind child = KRecord \<and> hoTypeId child \<noteq> 0 then Some (hoTypeId child) else None)"
  by (simp add: objectTypeId_def getKind_def contents_def unmarkObject_def split: option.split)

lemma arrayTypeId_contents:
  "arrayTypeId c h = (case contents h c of
     None \<Rightarrow> None | Some child \<Rightarrow> if hoKind child = KArray then Some (hoTypeId child) else None)"
  by (simp add: arrayTypeId_def getKind_def contents_def unmarkObject_def split: option.split)

lemma kind_contents: "contents h c = Some child \<Longrightarrow> hoKind child = refKind c"
  by (auto simp: contents_def heap_get_iff unmarkObject_def)

lemma arrayStoreError_accepts:
  "arrayStoreError obj v policy h = None \<longleftrightarrow> accepts (contents h) (unmarkObject obj) v policy"
proof -
  have e: "hoElementType (unmarkObject obj) = hoElementType obj"
    "hoElementTypeId (unmarkObject obj) = hoElementTypeId obj" by (simp_all add: unmarkObject_def)
  show ?thesis
  proof (cases "hoElementType obj")
    case PtObject
    then show ?thesis
      unfolding accepts_def arrayStoreError_def Let_def e
      by (cases v) (auto simp: valueType_def objectTypeId_contents dest: kind_contents
          split: option.splits if_splits ObjectKind.splits)
  next
    case PtArray
    then show ?thesis
      unfolding accepts_def arrayStoreError_def Let_def e
      by (cases v) (auto simp: valueType_def arrayTypeId_contents dest: kind_contents
          split: option.splits if_splits ObjectKind.splits)
  qed (unfold accepts_def arrayStoreError_def Let_def e,
      (cases v; auto simp: valueType_def split: option.splits ObjectKind.splits)+)
qed

lemma unmark_stored: "unmarkObject (stored i v obj) = stored i v (unmarkObject obj)"
  by (simp add: unmarkObject_def stored_def payloadValues_def)

lemma storeValue_contents:
  assumes "contents h r = Some obj"
  shows "contents (storeValue r i v h) = (contents h)(r \<mapsto> stored i v obj)"
proof -
  from assms obtain o' where o': "heap_get r h = Some o'" "obj = unmarkObject o'" by (auto simp: contents_def)
  show ?thesis
    unfolding fun_eq_iff contents_def storeValue_get [OF o'(1)] by (simp add: o'(2) unmark_stored)
qed

lemma arraySet_store:
  assumes "heap_inv h"
  shows "store_of (snd (arraySet r i v policy h)) = array_stored r i v policy (store_of h)"
proof (cases "heap_get r h")
  case None
  then show ?thesis by (simp add: arraySet_def getKind_def array_stored_def store_of_def contents_def)
next
  case (Some obj)
  have c: "contents h r = Some (unmarkObject obj)" using Some by (simp add: contents_def)
  have u: "hoKind (unmarkObject obj) = hoKind obj" "payloadValues (unmarkObject obj) = payloadValues obj"
    by (simp_all add: unmarkObject_def payloadValues_def)
  note B = writeBarrier_ok [OF assms, of r v]
  have S: "store_of (storeValue r i v (writeBarrier r v h)) =
      (store_of h)\<lparr>gsObjects := (contents h)(r \<mapsto> stored i v (unmarkObject obj))\<rparr>"
    using storeValue_contents [of "writeBarrier r v h" r "unmarkObject obj" i v] B(2,4) c
    by (simp add: store_of_def storeValue_views)
  have g: "gsObjects (store_of h) = contents h" by (simp add: store_of_def)
  show ?thesis
  proof (cases "arrayStoreError obj v policy h")
    case None
    then have "accepts (contents h) (unmarkObject obj) v policy" using arrayStoreError_accepts by blast
    with None Some S c g show ?thesis by (simp add: arraySet_def getKind_def array_stored_def u not_le)
  next
    case (Some m)
    then have "\<not> accepts (contents h) (unmarkObject obj) v policy"
      using arrayStoreError_accepts [of obj v policy h] by simp
    with Some \<open>heap_get r h = Some obj\<close> c g show ?thesis
      by (simp add: arraySet_def getKind_def array_stored_def u not_le)
  qed
qed

lemma fieldSet_store:
  assumes "heap_inv h"
  shows "store_of (snd (fieldSet r i v h)) = field_stored r i v (store_of h)"
proof (cases "heap_get r h")
  case None
  then show ?thesis by (simp add: fieldSet_def getKind_def field_stored_def store_of_def contents_def)
next
  case (Some obj)
  have c: "contents h r = Some (unmarkObject obj)" using Some by (simp add: contents_def)
  have u: "hoKind (unmarkObject obj) = hoKind obj" "payloadValues (unmarkObject obj) = payloadValues obj"
    by (simp_all add: unmarkObject_def payloadValues_def)
  note B = writeBarrier_ok [OF assms, of r v]
  have S: "store_of (storeValue r i v h') =
      (store_of h)\<lparr>gsObjects := (contents h)(r \<mapsto> stored i v (unmarkObject obj))\<rparr>"
    if "h' = writeBarrier r v h \<or> h' = h" for h'
    using that storeValue_contents [of h' r "unmarkObject obj" i v] B(2,4) c
    by (auto simp: store_of_def storeValue_views)
  have "gsObjects (store_of h) = contents h" by (simp add: store_of_def)
  then show ?thesis
    using Some S c by (simp add: fieldSet_def getKind_def field_stored_def u not_le Let_def)
qed

text \<open>A root that is taken refers to live objects only.\<close>

lemma validRootIn_refs:
  "validRootIn h v seen = (True, seen') \<Longrightarrow> soundStorages path seen (alive_refs h) \<Longrightarrow>
     \<forall>s \<in> path. size v < size s \<Longrightarrow>
     set (value_refs v) \<subseteq> alive_refs h \<and> soundStorages path seen' (alive_refs h)"
  "validFieldsIn h vs seen = (True, seen') \<Longrightarrow> soundStorages path seen (alive_refs h) \<Longrightarrow>
     \<forall>s \<in> path. size_list size vs < size s \<Longrightarrow>
     set (values_refs vs) \<subseteq> alive_refs h \<and> soundStorages path seen' (alive_refs h)"
proof (induction h v seen and h vs seen arbitrary: path seen' and path seen'
    rule: validRootIn_validFieldsIn.induct)
  case (1 h r seen)
  then show ?case by (auto simp: alive_refs_def)
next
  case (3 h t a fs seen)
  let ?s = "StructStorage a fs"
  have t: "t \<noteq> 0" using 3(2) by (auto split: if_splits)
  show ?case
  proof (cases "?s \<in> set seen")
    case True
    have "?s \<notin> path" using 3(4) by force
    with True 3(3) have "set (values_refs fs) \<subseteq> alive_refs h"
      by (force simp: soundStorages_def storage_refs_def)
    with True t 3(2,3) show ?thesis by simp
  next
    case False
    have "soundStorages (insert ?s path) (?s # seen) (alive_refs h)" using 3(3) by (auto simp: soundStorages_def)
    moreover have "\<forall>s \<in> insert ?s path. size_list size fs < size s" using 3(4) by auto
    moreover have "validFieldsIn h fs (?s # seen) = (True, seen')" using 3(2) t False by simp
    ultimately have I: "set (values_refs fs) \<subseteq> alive_refs h"
      "soundStorages (insert ?s path) seen' (alive_refs h)"
      using 3(1) [OF t False, of seen' "insert ?s path"] by simp_all
    from I(1) have "storage_refs ?s \<subseteq> alive_refs h" by (simp add: storage_refs_def)
    with I(2) have "soundStorages path seen' (alive_refs h)" by (auto simp: soundStorages_def)
    with I(1) show ?thesis by simp
  qed
next
  case (6 h v vs seen)
  obtain b seen1 where v: "validRootIn h v seen = (b, seen1)" by (rule prod.exhaust)
  with 6(3) have b: "b = True" and vs: "validFieldsIn h vs seen1 = (True, seen')"
    by (simp_all split: bool.splits)
  have sz: "\<forall>s \<in> path. size v < size s" "\<forall>s \<in> path. size_list size vs < size s" using 6(5) by auto
  have "set (value_refs v) \<subseteq> alive_refs h \<and> soundStorages path seen1 (alive_refs h)"
    by (rule 6(1) [OF _ 6(4) sz(1)]) (simp add: v b)
  moreover have "set (values_refs vs) \<subseteq> alive_refs h \<and> soundStorages path seen' (alive_refs h)"
    by (rule 6(2) [OF _ _ vs _ sz(2)]) (use v b calculation in simp_all)
  ultimately show ?case by simp
qed simp_all

lemma validRoot_alive:
  assumes "validRootValue h v"
  shows "set (value_refs v) \<subseteq> alive_refs h"
proof -
  have "validRootIn h v [] = (True, snd (validRootIn h v []))"
    using assms by (simp add: validRootValue_def prod_eq_iff)
  moreover have "soundStorages {} [] (alive_refs h)" by (simp add: soundStorages_def)
  ultimately show ?thesis using validRootIn_refs(1) by blast
qed

lemma alive_dom: "alive_refs h = dom (gsObjects (store_of h))"
  by (auto simp: store_of_def alive_contents)

lemma roots_contents:
  "contents (h\<lparr>hRoots := m\<rparr>) = contents h" "contents (h\<lparr>hNextRootToken := n\<rparr>) = contents h"
  by (rule get_views(1); simp)+

lemma addRoot_store:
  assumes "om_inv (hRoots h)"
  shows "rooted v (store_of h) (store_of (snd (addPersistentRoot v h)))"
proof (cases "validRootValue h v")
  case False
  then show ?thesis by (simp add: addPersistentRoot_def rooted_def)
next
  case True
  let ?token = "if hNextRootToken h = 0 then 1 else hNextRootToken h"
  have r: "set (value_refs v) \<subseteq> dom (gsObjects (store_of h))"
    using validRoot_alive [OF True] by (simp add: alive_dom)
  show ?thesis
  proof (cases "om_find (hRoots h) ?token")
    case None
    then have "store_of (snd (addPersistentRoot v h)) =
        (store_of h)\<lparr>gsRoots := (gsRoots (store_of h))(?token \<mapsto> v)\<rparr>"
      using True assms by (simp add: addPersistentRoot_def Let_def om_emplace_new store_of_def roots_contents)
    moreover have "?token \<noteq> 0" by simp
    ultimately show ?thesis using r unfolding rooted_def by blast
  next
    case (Some w)
    then have "store_of (snd (addPersistentRoot v h)) = store_of h"
      using True by (simp add: addPersistentRoot_def Let_def om_emplace_old store_of_def roots_contents)
    then show ?thesis by (simp add: rooted_def)
  qed
qed

lemma updateRoot_store:
  assumes "om_inv (hRoots h)"
  shows "rooted v (store_of h) (store_of (snd (updatePersistentRoot token v h)))"
proof (cases "token = 0 \<or> \<not> validRootValue h v \<or> om_find (hRoots h) token = None")
  case True
  then have "snd (updatePersistentRoot token v h) = h"
    by (auto simp: updatePersistentRoot_def)
  then show ?thesis by (simp add: rooted_def)
next
  case False
  then have "store_of (snd (updatePersistentRoot token v h)) =
      (store_of h)\<lparr>gsRoots := (gsRoots (store_of h))(token \<mapsto> v)\<rparr>"
    using assms by (auto simp: updatePersistentRoot_def store_of_def roots_contents)
  moreover have "set (value_refs v) \<subseteq> dom (gsObjects (store_of h))"
    using validRoot_alive False by (simp add: alive_dom)
  ultimately show ?thesis using False unfolding rooted_def by blast
qed

section \<open>The simulation\<close>

lemma collectFull_roots:
  assumes "heap_inv h"
  shows "hRoots (collectFull shadow h) = hRoots h"
proof -
  let ?h0 = "if hPhase h \<noteq> GcIdle then drainCollection shadow h else h"
  have "hRoots ?h0 = hRoots h" using drain_survives [OF assms] by simp
  moreover have "heap_inv (requestCollection ?h0)"
    using assms heap_inv_drain by (auto intro: heap_inv_root(4))
  then have "hRoots (collectFull shadow h) = hRoots (requestCollection ?h0)"
    unfolding collectFull_def using drain_survives by blast
  moreover have "hRoots (requestCollection ?h0) = hRoots ?h0" by (simp add: requestCollection_def)
  ultimately show ?thesis by simp
qed

lemma roots_inv_apply: "om_inv (hRoots h) \<Longrightarrow> heap_inv h \<Longrightarrow> om_inv (hRoots (heap_apply op h))"
proof -
  assume inv: "om_inv (hRoots h)" "heap_inv h"
  have alloc: "hRoots (snd (allocate kind tid et etid pl rf bytes h)) = hRoots h" for kind tid et etid pl rf bytes
    by (simp add: allocate_def Let_def recordAllocation_views split: list.split)
  have barrier: "hRoots (writeBarrier r v h) = hRoots h" for r v by (rule writeBarrier_ok(4) [OF inv(2)])
  have emplace: "om_inv (fst (om_emplace k w (hRoots h)))" for k w using inv(1) by (rule om_inv_emplace)
  show ?thesis
    using inv
    by (cases op)
      (auto simp: alloc barrier collectFull_roots emplace step_roots allocateString_def allocateTypedArray_def
        allocateArray_def allocateRecord_def allocateObject_def Let_def arraySet_def fieldSet_def
        storeValue_views addPersistentRoot_def updatePersistentRoot_def removePersistentRoot_def
        requestCollection_def split: option.split)
qed

lemma store_step_apply:
  assumes inv: "heap_inv h" and roots: "om_inv (hRoots h)"
  shows "store_step op (store_of h) (store_of (heap_apply op h))"
proof (cases op)
  case (OpRemoveRoot token)
  then show ?thesis
    by (simp add: store_of_def removePersistentRoot_def roots_contents)
next
  case OpRequest
  then show ?thesis by (simp add: requestCollection_def)
next
  case (OpStep shadow budget)
  have "survives (root_refs shadow h) h (snd (step shadow budget h))"
    using step_safe inv by (auto simp: heap_inv_def)
  with OpStep show ?thesis using collected_survives [OF _ step_roots roots] by simp
next
  case (OpCollectFull shadow)
  note C = collectFull_exact [OF inv, of shadow]
  have "collected shadow (store_of h) (store_of (collectFull shadow h))"
    using C by (intro collected_survives [OF _ collectFull_roots [OF inv] roots]) blast
  moreover have "dom (gsObjects (store_of (collectFull shadow h))) =
      store_reach (gsObjects (store_of h)) (store_roots shadow (store_of h))"
    unfolding alive_dom [symmetric] store_roots_eq [OF roots]
    using C by (simp add: store_of_def store_reach_eq)
  ultimately show ?thesis using OpCollectFull by simp
qed (simp_all add: allocations_store [OF inv] arraySet_store [OF inv] fieldSet_store [OF inv]
      addRoot_store [OF roots] updateRoot_store [OF roots])

lemma store_run_heap:
  assumes "heap_inv h" and "om_inv (hRoots h)"
  shows "store_run ops (store_of h) (store_of (heap_run ops h))"
  using assms
proof (induction ops arbitrary: h)
  case Nil
  then show ?case by (simp add: heap_run_def)
next
  case (Cons op ops)
  have "store_run ops (store_of (heap_apply op h)) (store_of (heap_run ops (heap_apply op h)))"
    by (rule Cons.IH [OF heap_inv_apply [OF Cons.prems(1)] roots_inv_apply [OF Cons.prems(2,1)]])
  moreover have "heap_run (op # ops) h = heap_run ops (heap_apply op h)" by (simp add: heap_run_def)
  ultimately show ?case using store_step_apply [OF Cons.prems] by auto
qed

lemma store_of_new: "store_of (newHeap config heapId) = newStore"
  by (simp add: store_of_def newStore_def newHeap_def contents_def heap_get_def Let_def fun_eq_iff)

lemma store_run_reachable:
  assumes "heapId \<noteq> 0"
  shows "store_run ops newStore (store_of (heap_run ops (newHeap config heapId)))"
proof -
  have "om_inv (hRoots (newHeap config heapId))" by (simp add: newHeap_def Let_def)
  from store_run_heap [OF newHeap_inv [OF assms] this] show ?thesis by (simp only: store_of_new)
qed

text \<open>
  C7: the heap refines a garbage-collected store: every history of allocations, stores, root
  changes and collector steps on the heap is one of the abstract store, in which an allocation
  adds a fresh object or fails without effect, a store changes exactly one element of one object
  when its declarative precondition holds, roots refer to live objects, and the collector may
  drop unreachable objects at any step and drops all of them in a full collection.
\<close>

theorem heap_refines_store:
  assumes "heapId \<noteq> 0"
  shows "store_run ops newStore (store_of (heap_run ops (newHeap config heapId)))"
  by (rule store_run_reachable [OF assms])

theorem heap_refines_store_witness:
  "store_run exampleOps newStore (store_of exampleHeap)"
  unfolding exampleHeap_def by (rule heap_refines_store) simp

section \<open>Types\<close>

text \<open>Every element of a typed array has the array's element type.\<close>

definition object_typed :: "ObjectRef \<Rightarrow> HeapObject \<Rightarrow> bool" where
  "object_typed r obj \<longleftrightarrow>
     hoKind obj = refKind r \<and>
     (hoKind obj = KArray \<longrightarrow> hoElementType obj \<noteq> PtError \<longrightarrow>
        (\<forall>v \<in> set (payloadValues obj). valueType v = hoElementType obj))"

definition well_typed :: "GcStore \<Rightarrow> bool" where
  "well_typed s \<longleftrightarrow> (\<forall>r obj. gsObjects s r = Some obj \<longrightarrow> object_typed r obj)"

lemma well_typed_upd:
  "well_typed s \<Longrightarrow> object_typed r obj \<Longrightarrow> well_typed (s\<lparr>gsObjects := (gsObjects s)(r \<mapsto> obj)\<rparr>)"
  by (simp add: well_typed_def)

lemma well_typed_drop: "well_typed s \<Longrightarrow> gsObjects s' \<subseteq>\<^sub>m gsObjects s \<Longrightarrow> well_typed s'"
  unfolding well_typed_def map_le_def by (metis domI)

lemma fresh_typed: "fresh_object op obj \<Longrightarrow> refKind r = hoKind obj \<Longrightarrow> object_typed r obj"
  by (cases op) (auto simp: object_typed_def payloadValues_def split: if_splits)

lemma accepts_type:
  assumes "accepts objs obj v policy" and "hoElementType obj \<noteq> PtError"
    and "\<forall>c child. objs c = Some child \<longrightarrow> hoKind child = refKind c"
  shows "valueType v = hoElementType obj"
  using assms by (auto simp: accepts_def valueType_def split: PrimitiveType.splits)

lemma values_stored: "payloadValues (stored i v obj) = (payloadValues obj)[i := v]"
  by (simp add: stored_def payloadValues_def)

lemma stored_typed:
  assumes "well_typed s" and "gsObjects s r = Some obj"
    and "hoKind obj = KArray \<longrightarrow> accepts (gsObjects s) obj v policy"
  shows "object_typed r (stored i v obj)"
proof -
  have t: "object_typed r obj" using assms by (simp add: well_typed_def)
  have "valueType v = hoElementType obj" if "hoKind obj = KArray" "hoElementType obj \<noteq> PtError"
    by (rule accepts_type) (use assms that in \<open>auto simp: well_typed_def object_typed_def\<close>)
  moreover have "set (payloadValues (stored i v obj)) \<subseteq> insert v (set (payloadValues obj))"
    using set_update_subset_insert [of "payloadValues obj" i v] by (simp add: values_stored)
  moreover have "hoKind (stored i v obj) = hoKind obj" "hoElementType (stored i v obj) = hoElementType obj"
    by (simp_all add: stored_def)
  ultimately show ?thesis using t unfolding object_typed_def by auto
qed

lemma well_typed_step:
  assumes "well_typed s" and "store_step op s s'"
  shows "well_typed s'"
proof -
  have fresh: "well_typed s'" if "allocated op s s'"
    using that assms(1) fresh_typed by (auto simp: allocated_def intro: well_typed_upd)
  have roots: "well_typed s'" if "rooted v s s'" for v
    using that assms(1) by (auto simp: rooted_def well_typed_def)
  have collect: "well_typed s'" if "collected shadow s s'" for shadow
    using that assms(1) by (auto simp: collected_def intro: well_typed_drop)
  have array: "well_typed (array_stored r i v policy s)" for r i v policy
    using assms(1) stored_typed [OF assms(1)]
    by (auto simp: array_stored_def split: option.split intro!: well_typed_upd)
  have field: "well_typed (field_stored r i v s)" for r i v
    using assms(1) stored_typed [OF assms(1)]
    by (auto simp: field_stored_def split: option.split intro!: well_typed_upd)
  show ?thesis
    using assms(2) fresh roots collect array field assms(1)
    by (cases op) (auto simp: well_typed_def)
qed

lemma well_typed_run: "well_typed s \<Longrightarrow> store_run ops s s' \<Longrightarrow> well_typed s'"
  by (induction ops arbitrary: s) (auto dest: well_typed_step)

text \<open>
  C8: in every reachable state of the heap, whatever \<open>arrayGet\<close> returns for an array that was
  allocated with an element type has that type: neither allocation nor a store with either type
  policy nor the collector breaks the typing.
\<close>

theorem arrayGet_typed:
  assumes "heapId \<noteq> 0" and "h = heap_run ops (newHeap config heapId)"
    and "arrayElementType r h = Some e" and "e \<noteq> PtError" and "arrayGet r i h = Some v"
  shows "valueType v = e"
proof -
  have "well_typed newStore" by (simp add: well_typed_def newStore_def)
  moreover have "store_run ops newStore (store_of h)"
    unfolding assms(2) by (rule store_run_reachable [OF assms(1)])
  ultimately have T: "well_typed (store_of h)" by (rule well_typed_run)
  from assms(3) obtain obj where obj: "heap_get r h = Some obj" "hoKind obj = KArray" "hoElementType obj = e"
    by (auto simp: arrayElementType_def getKind_iff)
  have "gsObjects (store_of h) r = Some (unmarkObject obj)" using obj(1) by (simp add: store_of_def contents_def)
  with T have "object_typed r (unmarkObject obj)" by (simp add: well_typed_def)
  moreover have "v \<in> set (payloadValues obj)"
    using assms(5) obj(1,2) by (auto simp: arrayGet_def getKind_def split: if_splits)
  ultimately show ?thesis
    using obj(2,3) assms(4) by (simp add: object_typed_def unmarkObject_def payloadValues_def)
qed

theorem arrayGet_typed_witness:
  "valueType (VRef (ObjectRef 0 1 KString 7)) = PtString"
proof -
  let ?ops = "[OpAllocString ''a'', OpAllocTypedArray 5 PtString 0 1 (VRef (ObjectRef 0 1 KString 7))]"
  have "arrayElementType (ObjectRef 1 1 KArray 7) (heap_run ?ops (newHeap exampleConfig 7)) = Some PtString"
    "arrayGet (ObjectRef 1 1 KArray 7) 0 (heap_run ?ops (newHeap exampleConfig 7)) =
       Some (VRef (ObjectRef 0 1 KString 7))"
    by code_simp+
  from arrayGet_typed [OF _ refl this(1) _ this(2)] show ?thesis by simp
qed

end
