(* ===== verification/Native_Handles.thy ===== *)
theory Native_Handles
  imports Handle_Table Runtime_Value
begin

text \<open>
  The registry of native handles (class \<open>NativeHandleRegistry\<close> of
  \<open>src/runtime/ManagedHeap.cpp\<close>): host resources behind typed, generational handles. A
  resource, a \<open>std::shared_ptr<void>\<close> in the code, is the address it points to and \<open>None\<close> when
  it is empty. The vector of free slots is used at its back, which is the head of the list.
\<close>

section \<open>State and operations\<close>

record NativeSlot =
  nsResource :: "nat option"
  nsTypeId :: SymbolId
  nsGeneration :: u32
  nsDebugName :: string

record NativeRegistry =
  nrRegistryId :: u64
  nrSlots :: "NativeSlot list"
  nrFreeSlots :: "u32 list"

definition newNativeRegistry :: "u64 \<Rightarrow> NativeRegistry" where
  "newNativeRegistry registryId = \<lparr>nrRegistryId = registryId, nrSlots = [], nrFreeSlots = []\<rparr>"

definition nh_fill ::
    "SymbolId \<Rightarrow> nat option \<Rightarrow> string \<Rightarrow> u32 \<Rightarrow> NativeRegistry \<Rightarrow> NativeHandle \<times> NativeRegistry" where
  "nh_fill typeId resource name i r =
     (let s = nrSlots r ! unat i
      in (NativeHandle i (nsGeneration s) typeId (nrRegistryId r),
          r\<lparr>nrSlots := (nrSlots r)[unat i := s\<lparr>nsResource := resource, nsTypeId := typeId,
                                              nsDebugName := name\<rparr>]\<rparr>))"

definition nh_create ::
    "SymbolId \<Rightarrow> nat option \<Rightarrow> string \<Rightarrow> NativeRegistry \<Rightarrow> NativeHandle \<times> NativeRegistry" where
  "nh_create typeId resource name r =
     (if typeId = 0 \<or> resource = None then (noHandle, r)
      else (case nrFreeSlots r of
              i # rest \<Rightarrow> nh_fill typeId resource name i (r\<lparr>nrFreeSlots := rest\<rparr>)
            | [] \<Rightarrow>
                (if unat InvalidSlot \<le> length (nrSlots r) then (noHandle, r)
                 else nh_fill typeId resource name (of_nat (length (nrSlots r)))
                        (r\<lparr>nrSlots := nrSlots r @ [\<lparr>nsResource = None, nsTypeId = 0,
                                                    nsGeneration = 1, nsDebugName = ''''\<rparr>]\<rparr>))))"

definition nh_resolve ::
    "NativeHandle \<Rightarrow> SymbolId \<Rightarrow> NativeRegistry \<Rightarrow> RuntimeError + nat" where
  "nh_resolve h expectedTypeId r =
     (if \<not> handle_valid h \<or> nhRegistryId h \<noteq> nrRegistryId r \<or> length (nrSlots r) \<le> unat (nhSlot h)
      then Inl (RuntimeError EcInvalidNativeHandle ''native handle is invalid'')
      else (let s = nrSlots r ! unat (nhSlot h)
            in case nsResource s of
                 None \<Rightarrow> Inl (RuntimeError EcInvalidNativeHandle ''native handle is stale'')
               | Some resource \<Rightarrow>
                   (if nsGeneration s \<noteq> nhGeneration h \<or> nsTypeId s \<noteq> nhTypeId h
                    then Inl (RuntimeError EcInvalidNativeHandle ''native handle is stale'')
                    else if expectedTypeId \<noteq> 0 \<and> nsTypeId s \<noteq> expectedTypeId
                    then Inl (RuntimeError EcTypeMismatch
                           ''native handle type does not match the expected host type'')
                    else Inr resource)))"

definition nh_isAlive :: "NativeHandle \<Rightarrow> NativeRegistry \<Rightarrow> bool" where
  "nh_isAlive h r \<longleftrightarrow>
     handle_valid h \<and> nhRegistryId h = nrRegistryId r \<and> unat (nhSlot h) < length (nrSlots r) \<and>
     nsResource (nrSlots r ! unat (nhSlot h)) \<noteq> None \<and>
     nsGeneration (nrSlots r ! unat (nhSlot h)) = nhGeneration h \<and>
     nsTypeId (nrSlots r ! unat (nhSlot h)) = nhTypeId h"

definition vacate :: "NativeSlot \<Rightarrow> NativeSlot" where
  "vacate s = s\<lparr>nsResource := None, nsTypeId := 0, nsDebugName := '''',
                nsGeneration := bumpGeneration (nsGeneration s)\<rparr>"

definition nh_release :: "NativeHandle \<Rightarrow> NativeRegistry \<Rightarrow> bool \<times> NativeRegistry" where
  "nh_release h r =
     (if \<not> nh_isAlive h r then (False, r)
      else (True, r\<lparr>nrSlots := (nrSlots r)[unat (nhSlot h) := vacate (nrSlots r ! unat (nhSlot h))],
                    nrFreeSlots := nhSlot h # nrFreeSlots r\<rparr>))"

definition nh_clear :: "NativeRegistry \<Rightarrow> NativeRegistry" where
  "nh_clear r =
     r\<lparr>nrSlots := map (\<lambda>s. if nsResource s \<noteq> None then vacate s else s) (nrSlots r),
       nrFreeSlots := rev (map of_nat [0..<length (nrSlots r)])\<rparr>"

definition nh_liveCount :: "NativeRegistry \<Rightarrow> nat" where
  "nh_liveCount r = length (filter (\<lambda>s. nsResource s \<noteq> None) (nrSlots r))"

definition nh_debugName :: "NativeHandle \<Rightarrow> NativeRegistry \<Rightarrow> string" where
  "nh_debugName h r = (if nh_isAlive h r then nsDebugName (nrSlots r ! unat (nhSlot h)) else '''')"

section \<open>The invariant\<close>

definition nslot_ok :: "NativeSlot \<Rightarrow> bool" where
  "nslot_ok s \<longleftrightarrow> nsGeneration s \<noteq> 0 \<and> (nsResource s \<noteq> None \<longrightarrow> nsTypeId s \<noteq> 0)"

definition nreg_inv :: "NativeRegistry \<Rightarrow> bool" where
  "nreg_inv r \<longleftrightarrow>
     nrRegistryId r \<noteq> 0 \<and> length (nrSlots r) \<le> unat InvalidSlot \<and>
     (\<forall>s \<in> set (nrSlots r). nslot_ok s) \<and> distinct (nrFreeSlots r) \<and>
     unat ` set (nrFreeSlots r) =
       {k. k < length (nrSlots r) \<and> nsResource (nrSlots r ! k) = None}"

definition live_handles :: "NativeRegistry \<Rightarrow> NativeHandle set" where
  "live_handles r = {h. nh_isAlive h r}"

text \<open>The handle that a full slot stands for.\<close>

definition slot_handle :: "NativeRegistry \<Rightarrow> nat \<Rightarrow> NativeHandle" where
  "slot_handle r k = NativeHandle (of_nat k) (nsGeneration (nrSlots r ! k)) (nsTypeId (nrSlots r ! k))
     (nrRegistryId r)"

lemma unat_slot [simp]: "k < unat InvalidSlot \<Longrightarrow> unat (of_nat k :: u32) = k"
  by (rule unat_of_nat_u32) (simp add: unat_InvalidSlot)

lemma slot_not_invalid: "k < unat InvalidSlot \<Longrightarrow> of_nat k \<noteq> InvalidSlot"
  using unat_slot by (metis less_irrefl)

lemma live_handles_conv:
  assumes "nreg_inv r"
  shows "live_handles r = slot_handle r ` {k. k < length (nrSlots r) \<and> nsResource (nrSlots r ! k) \<noteq> None}"
    (is "_ = slot_handle r ` ?K")
proof
  show "live_handles r \<subseteq> slot_handle r ` ?K"
  proof
    fix h assume "h \<in> live_handles r"
    then show "h \<in> slot_handle r ` ?K"
      by (intro image_eqI [of _ _ "unat (nhSlot h)"])
        (cases h; auto simp: live_handles_def nh_isAlive_def slot_handle_def)+
  qed
  show "slot_handle r ` ?K \<subseteq> live_handles r"
    using assms
    by (force simp: live_handles_def nh_isAlive_def slot_handle_def handle_valid_def nreg_inv_def
        nslot_ok_def slot_not_invalid)
qed

lemma inj_slot_handle: "length (nrSlots r) \<le> unat InvalidSlot \<Longrightarrow> inj_on (slot_handle r) {k. k < length (nrSlots r) \<and> P k}"
  by (rule inj_onI) (metis (no_types, lifting) NativeHandle.inject less_le_trans mem_Collect_eq
      slot_handle_def unat_slot)

lemma nh_liveCount_card:
  assumes "nreg_inv r"
  shows "finite (live_handles r)" and "nh_liveCount r = card (live_handles r)"
proof -
  let ?K = "{k. k < length (nrSlots r) \<and> nsResource (nrSlots r ! k) \<noteq> None}"
  show "finite (live_handles r)" by (simp add: live_handles_conv [OF assms])
  have "card (live_handles r) = card ?K"
    unfolding live_handles_conv [OF assms]
    by (rule card_image) (rule inj_slot_handle, use assms in \<open>simp add: nreg_inv_def\<close>)
  then show "nh_liveCount r = card (live_handles r)"
    by (simp add: nh_liveCount_def length_filter_conv_card)
qed

section \<open>Every operation keeps the invariant\<close>

lemma newNativeRegistry_inv: "registryId \<noteq> 0 \<Longrightarrow> nreg_inv (newNativeRegistry registryId)"
  by (simp add: nreg_inv_def newNativeRegistry_def)

lemma nslot_ok_vacate [simp]: "nslot_ok (vacate s)"
  by (simp add: nslot_ok_def vacate_def)

lemma nslots_update:
  "\<forall>s \<in> set ss. nslot_ok s \<Longrightarrow> nslot_ok s' \<Longrightarrow> \<forall>s \<in> set (ss[k := s']). nslot_ok s"
  using set_update_subset_insert [of ss k s'] by blast

text \<open>Slot \<open>i\<close> is filled: by the handle \<open>h\<close>, in a registry where it was empty.\<close>

lemma nh_fill_effect:
  assumes ok: "nrRegistryId r \<noteq> 0" "length (nrSlots r) \<le> unat InvalidSlot"
      "\<forall>s \<in> set (nrSlots r). nslot_ok s" "distinct (nrFreeSlots r)"
    and free: "unat ` set (nrFreeSlots r) =
       {k. k < length (nrSlots r) \<and> k \<noteq> unat i \<and> nsResource (nrSlots r ! k) = None}"
    and i: "unat i < length (nrSlots r)" "nsResource (nrSlots r ! unat i) = None"
    and new: "typeId \<noteq> 0" "resource \<noteq> None"
    and eq: "nh_fill typeId resource name i r = (h, r')"
  shows "nreg_inv r'" and "nh_isAlive h r'" and "\<not> nh_isAlive h r"
    and "g \<noteq> h \<Longrightarrow> nh_isAlive g r' \<longleftrightarrow> nh_isAlive g r"
    and "nh_resolve h typeId r' = Inr (the resource)" and "nhTypeId h = typeId"
proof -
  let ?s = "nrSlots r ! unat i"
  have sok: "nslot_ok ?s" using ok(3) i(1) by simp
  have iv: "i \<noteq> InvalidSlot" using i(1) ok(2) by auto
  have hq: "h = NativeHandle i (nsGeneration ?s) typeId (nrRegistryId r)"
    and rq: "r' = r\<lparr>nrSlots := (nrSlots r)[unat i := ?s\<lparr>nsResource := resource, nsTypeId := typeId,
                                              nsDebugName := name\<rparr>]\<rparr>"
    using eq by (simp_all add: nh_fill_def Let_def)
  have valid: "handle_valid h" using sok iv ok(1) new by (simp add: hq handle_valid_def nslot_ok_def)
  let ?s' = "?s\<lparr>nsResource := resource, nsTypeId := typeId, nsDebugName := name\<rparr>"
  have "nslot_ok ?s'" using sok new by (simp add: nslot_ok_def)
  note slots = nslots_update [OF ok(3) this, of "unat i"]
  have "unat ` set (nrFreeSlots r) = {k. k < length (nrSlots r) \<and>
      nsResource ((nrSlots r)[unat i := ?s'] ! k) = None}"
    unfolding free using i new by (auto simp: nth_list_update split: if_splits)
  then show "nreg_inv r'" using ok slots by (simp add: rq nreg_inv_def)
  show "nh_isAlive h r'" using valid i new by (simp add: nh_isAlive_def hq rq)
  show "\<not> nh_isAlive h r" using i by (simp add: nh_isAlive_def hq)
  show "nh_isAlive g r' \<longleftrightarrow> nh_isAlive g r" if "g \<noteq> h"
    using that i by (cases g) (auto simp: nh_isAlive_def hq rq nth_list_update
        dest: iffD2 [OF word_unat_eq_iff])
  show "nh_resolve h typeId r' = Inr (the resource)"
    using valid i new by (auto simp: nh_resolve_def hq rq)
  show "nhTypeId h = typeId" by (simp add: hq)
qed

lemma nh_create_effect:
  assumes inv: "nreg_inv r" and eq: "nh_create typeId resource name r = (h, r')"
    and h: "h \<noteq> noHandle"
  shows "nreg_inv r'" and "nh_isAlive h r'" and "\<not> nh_isAlive h r"
    and "g \<noteq> h \<Longrightarrow> nh_isAlive g r' \<longleftrightarrow> nh_isAlive g r"
    and "nh_resolve h typeId r' = Inr (the resource)" and "nhTypeId h = typeId"
    and "typeId \<noteq> 0 \<and> resource \<noteq> None"
proof -
  from eq h show new: "typeId \<noteq> 0 \<and> resource \<noteq> None" by (auto simp: nh_create_def split: if_splits)
  let ?fresh = "\<lparr>nsResource = None, nsTypeId = 0, nsGeneration = 1, nsDebugName = ''''\<rparr>"
  define i q where "i = (case nrFreeSlots r of i # rest \<Rightarrow> i | [] \<Rightarrow> of_nat (length (nrSlots r)))"
    and "q = (case nrFreeSlots r of i # rest \<Rightarrow> r\<lparr>nrFreeSlots := rest\<rparr>
                | [] \<Rightarrow> r\<lparr>nrSlots := nrSlots r @ [?fresh]\<rparr>)"
  have room: "nrFreeSlots r = [] \<Longrightarrow> length (nrSlots r) < unat InvalidSlot"
    using eq h new by (auto simp: nh_create_def not_le split: if_splits)
  have run: "nh_fill typeId resource name i q = (h, r')"
    using eq new room by (auto simp: nh_create_def i_def q_def not_le split: list.splits)
  have Q: "nrRegistryId q \<noteq> 0" "length (nrSlots q) \<le> unat InvalidSlot"
      "\<forall>s \<in> set (nrSlots q). nslot_ok s" "distinct (nrFreeSlots q)"
      "unat i < length (nrSlots q)" "nsResource (nrSlots q ! unat i) = None"
    using inv room
    by (auto simp: nreg_inv_def i_def q_def nslot_ok_def Suc_le_eq nth_append split: list.splits)
  have F: "unat ` set (nrFreeSlots q) =
      {k. k < length (nrSlots q) \<and> k \<noteq> unat i \<and> nsResource (nrSlots q ! k) = None}"
  proof (cases "nrFreeSlots r")
    case Nil
    with inv room show ?thesis by (auto simp: nreg_inv_def q_def i_def nth_append less_Suc_eq)
  next
    case (Cons j rest)
    have "inj (unat :: u32 \<Rightarrow> nat)" by (simp add: inj_def word_unat_eq_iff)
    then have "unat ` (set (nrFreeSlots r) - {j}) = unat ` set (nrFreeSlots r) - {unat j}"
      by (simp add: image_set_diff)
    moreover have "set (nrFreeSlots r) - {j} = set rest" using inv by (auto simp: nreg_inv_def Cons)
    ultimately have "unat ` set rest = unat ` set (nrFreeSlots r) - {unat j}" by simp
    moreover have all: "unat ` set (nrFreeSlots r) =
        {k. k < length (nrSlots r) \<and> nsResource (nrSlots r ! k) = None}"
      using inv by (simp add: nreg_inv_def)
    moreover have "nrFreeSlots q = rest" "nrSlots q = nrSlots r" "i = j"
      by (simp_all add: q_def i_def Cons)
    ultimately show ?thesis unfolding all by auto
  qed
  note E = nh_fill_effect [OF Q(1-4) F Q(5,6) _ _ run]
  have same: "nh_isAlive g q \<longleftrightarrow> nh_isAlive g r" for g
    using inv by (auto simp: q_def nh_isAlive_def nth_append less_Suc_eq split: list.splits)
  show "nreg_inv r'" "nh_isAlive h r'" "\<not> nh_isAlive h r" "nh_resolve h typeId r' = Inr (the resource)"
    "nhTypeId h = typeId"
    using E new same by blast+
  show "g \<noteq> h \<Longrightarrow> nh_isAlive g r' \<longleftrightarrow> nh_isAlive g r" using E(4) new same by blast
qed

lemma nh_release_effect:
  assumes inv: "nreg_inv r" and eq: "nh_release h r = (b, r')"
  shows "nreg_inv r'" and "b \<longleftrightarrow> nh_isAlive h r" and "nh_isAlive g r' \<longleftrightarrow> nh_isAlive g r \<and> g \<noteq> h"
proof -
  show "b \<longleftrightarrow> nh_isAlive h r" using eq by (auto simp: nh_release_def split: if_splits)
  have "nreg_inv r' \<and> (nh_isAlive g r' \<longleftrightarrow> nh_isAlive g r \<and> g \<noteq> h)"
  proof (cases "nh_isAlive h r")
    case False
    with eq inv show ?thesis by (auto simp: nh_release_def)
  next
    case True
    have rq: "r' = r\<lparr>nrSlots := (nrSlots r)[unat (nhSlot h) := vacate (nrSlots r ! unat (nhSlot h))],
                     nrFreeSlots := nhSlot h # nrFreeSlots r\<rparr>"
      using True eq by (simp add: nh_release_def)
    have full: "unat (nhSlot h) < length (nrSlots r)" "nsResource (nrSlots r ! unat (nhSlot h)) \<noteq> None"
      using True by (simp_all add: nh_isAlive_def)
    then have "unat (nhSlot h) \<notin> unat ` set (nrFreeSlots r)" using inv by (auto simp: nreg_inv_def)
    then have "nhSlot h \<notin> set (nrFreeSlots r)" by blast
    moreover have "\<forall>s \<in> set (nrSlots r'). nslot_ok s"
      using inv nslots_update [of "nrSlots r", OF _ nslot_ok_vacate] by (simp add: rq nreg_inv_def)
    moreover have "unat ` set (nrFreeSlots r') =
        {k. k < length (nrSlots r') \<and> nsResource (nrSlots r' ! k) = None}"
      using inv full by (auto simp: rq nreg_inv_def nth_list_update vacate_def)
    ultimately have "nreg_inv r'" using inv by (simp add: rq nreg_inv_def)
    moreover have "nh_isAlive g r' \<longleftrightarrow> nh_isAlive g r \<and> g \<noteq> h"
      using True by (cases g; cases h) (auto simp: rq nh_isAlive_def nth_list_update vacate_def
          dest: iffD2 [OF word_unat_eq_iff])
    ultimately show ?thesis by blast
  qed
  then show "nreg_inv r'" and "nh_isAlive g r' \<longleftrightarrow> nh_isAlive g r \<and> g \<noteq> h" by blast+
qed

text \<open>\<open>clear\<close> releases every handle, and every slot is free afterwards.\<close>

lemma nh_clear_effect:
  assumes inv: "nreg_inv r"
  shows "nreg_inv (nh_clear r)" and "\<not> nh_isAlive h (nh_clear r)"
proof -
  have small: "k < length (nrSlots r) \<Longrightarrow> unat (of_nat k :: u32) = k" for k
    using inv by (simp add: nreg_inv_def)
  have "distinct (map of_nat [0..<length (nrSlots r)] :: u32 list)"
    unfolding distinct_map by (simp, rule inj_on_inverseI [of _ unat]) (simp add: small)
  moreover have "unat ` set (map of_nat [0..<length (nrSlots r)] :: u32 list) =
      {0..<length (nrSlots r)}"
    by (simp add: image_image small)
  moreover have "\<forall>s \<in> set (nrSlots (nh_clear r)). nslot_ok s"
    using inv by (auto simp: nh_clear_def nreg_inv_def)
  ultimately show "nreg_inv (nh_clear r)"
    using inv by (auto simp: nh_clear_def nreg_inv_def vacate_def)
  show "\<not> nh_isAlive h (nh_clear r)" by (auto simp: nh_clear_def nh_isAlive_def vacate_def)
qed

section \<open>The registry is a handle table\<close>

type_synonym create_args = "SymbolId \<times> nat option \<times> string"

definition nh_create_opt :: "create_args \<Rightarrow> NativeRegistry \<Rightarrow> NativeHandle option \<times> NativeRegistry" where
  "nh_create_opt a r =
     (let (h, r') = nh_create (fst a) (fst (snd a)) (snd (snd a)) r
      in (if h = noHandle then None else Some h, r'))"

lemma nh_fill_handle: "fst (nh_fill typeId resource name i r) = NativeHandle i (nsGeneration (nrSlots r ! unat i)) typeId (nrRegistryId r)"
  by (simp add: nh_fill_def Let_def)

lemma nh_create_none:
  assumes "nh_create typeId resource name r = (noHandle, r')"
  shows "r' = r"
proof (rule ccontr)
  assume ne: "r' \<noteq> r"
  then have "typeId \<noteq> 0" using assms by (auto simp: nh_create_def split: if_splits)
  moreover have "nhTypeId noHandle = typeId"
    using assms ne nh_fill_handle [of typeId resource name]
    by (auto simp: nh_create_def split: if_splits list.splits) (metis NativeHandle.sel(3) fst_conv)+
  ultimately show False by (simp add: noHandle_def)
qed

interpretation native_handles: handle_table live_handles nh_create_opt nh_release nh_isAlive
  nh_liveCount nreg_inv
proof (unfold_locales, goal_cases)
  case (1 s)
  then show ?case by (rule nh_liveCount_card)
next
  case (2 s a r s')
  then show ?case
    using nh_create_effect(1) [of s] nh_create_none
    by (auto simp: nh_create_opt_def split: prod.splits if_splits) (metis prod.collapse)+
next
  case (3 s a s')
  then show ?case
    using nh_create_none [of "fst a" "fst (snd a)" "snd (snd a)" s]
    by (auto simp: nh_create_opt_def split: prod.splits if_splits)
next
  case (4 s a h s')
  then obtain eq: "nh_create (fst a) (fst (snd a)) (snd (snd a)) s = (h, s')" and "h \<noteq> noHandle"
    by (auto simp: nh_create_opt_def split: prod.splits if_splits)
  note E = nh_create_effect [OF 4(1) this]
  have "g \<in> live_handles s' \<longleftrightarrow> g \<in> insert h (live_handles s)" for g
    using E(2) E(4) [of g] by (cases "g = h") (simp_all add: live_handles_def)
  with E(3) show ?case by (auto simp: live_handles_def)
next
  case (5 s h b s')
  then show ?case by (rule nh_release_effect)
next
  case (6 s h b s')
  then show ?case
    using nh_release_effect(2,3) [OF 6] by (auto simp: live_handles_def)
next
  case (7 s h)
  then show ?case by (simp add: live_handles_def)
next
  case (8 s)
  then show ?case by (rule nh_liveCount_card)
qed

section \<open>Generations of the handles\<close>

definition native_slot_gen :: "NativeRegistry \<Rightarrow> nat \<Rightarrow> u32 option" where
  "native_slot_gen r i = (if i < length (nrSlots r) then Some (nsGeneration (nrSlots r ! i)) else None)"

lemma bumpGeneration_genSucc: "bumpGeneration g = genSucc g"
  by (simp add: bumpGeneration_def genSucc_def)

lemma native_slot_gen_fill:
  "native_slot_gen (snd (nh_fill typeId resource name k r)) i = native_slot_gen r i"
  by (cases "unat k = i") (simp_all add: nh_fill_def Let_def native_slot_gen_def)

lemma native_slot_gen_create:
  "native_slot_gen r i = Some g \<Longrightarrow> native_slot_gen (snd (nh_create typeId resource name r)) i = Some g"
  unfolding nh_create_def
  by (auto simp: native_slot_gen_fill split: list.split)
    (auto simp: native_slot_gen_def nth_append split: if_splits)

interpretation native_gens: generational_table live_handles nh_create_opt nh_release nh_isAlive
  nh_liveCount nreg_inv native_slot_gen "\<lambda>h. unat (nhSlot h)" nhGeneration
proof (unfold_locales, goal_cases)
  case (1 s a r s' i g)
  then have "s' = snd (nh_create (fst a) (fst (snd a)) (snd (snd a)) s)"
    by (auto simp: nh_create_opt_def split: prod.splits)
  with native_slot_gen_create 1(3) show ?case by simp
next
  case (2 s h b s' i g)
  then show ?case
    by (auto simp: nh_release_def native_slot_gen_def vacate_def bumpGeneration_genSucc split: if_splits)
next
  case (3 s h)
  then show ?case
    by (auto simp: live_handles_def nh_isAlive_def handle_valid_def native_slot_gen_def)
qed

section \<open>Properties\<close>

fun native_apply :: "(create_args, NativeHandle) table_op \<Rightarrow> NativeRegistry \<Rightarrow> NativeRegistry" where
  "native_apply (TCreate (typeId, resource, name)) r = snd (nh_create typeId resource name r)"
| "native_apply (TDestroy h) r = snd (nh_release h r)"

lemma native_apply_step: "native_apply p r = native_handles.step p r"
  by (cases "(p, r)" rule: native_apply.cases) (simp_all add: nh_create_opt_def split: prod.split)

lemma fold_native_apply: "fold native_apply ops r = native_handles.run ops r"
  by (induction ops arbitrary: r) (simp_all add: native_apply_step)

lemma nreg_inv_fold: "registryId \<noteq> 0 \<Longrightarrow> nreg_inv (fold native_apply ops (newNativeRegistry registryId))"
  by (simp add: fold_native_apply native_handles.run_inv newNativeRegistry_inv)

text \<open>
  C30: a native handle that is handed out was not alive before, resolves to exactly the
  resource it was created for under its own type, disturbs no other handle, and is not
  reissued after its release by any continuation of fewer than \<open>2 ^ 32 - 2\<close> operations.
\<close>

theorem native_handle_lifecycle:
  assumes "registryId \<noteq> 0" and "r = fold native_apply ops (newNativeRegistry registryId)"
    and "nh_create typeId resource name r = (h, r')" and "h \<noteq> noHandle"
    and "length later < 2 ^ 32 - 2"
  shows "\<not> nh_isAlive h r \<and> nh_resolve h typeId r' = Inr (the resource) \<and>
    (\<forall>g. g \<noteq> h \<longrightarrow> nh_isAlive g r' = nh_isAlive g r) \<and>
    \<not> nh_isAlive h (fold native_apply later (snd (nh_release h r')))"
proof -
  have inv: "nreg_inv r" using nreg_inv_fold assms(1,2) by blast
  note E = nh_create_effect [OF inv assms(3,4)]
  have "h \<in> live_handles r'" using E(2) by (simp add: live_handles_def)
  from native_gens.stale_until_wrap [OF E(1) this assms(5)] E show ?thesis
    by (simp add: fold_native_apply)
qed

theorem native_handle_lifecycle_witness:
  "nh_resolve (NativeHandle 0 1 5 9) 5 (snd (nh_create 5 (Some 77) ''tex'' (newNativeRegistry 9))) = Inr 77 \<and>
   \<not> nh_isAlive (NativeHandle 0 1 5 9) (fold native_apply [TCreate (5, Some 78, ''other'')]
      (snd (nh_release (NativeHandle 0 1 5 9)
        (snd (nh_create 5 (Some 77) ''tex'' (newNativeRegistry 9))))))"
proof -
  have eq: "nh_create 5 (Some 77) ''tex'' (newNativeRegistry 9) =
      (NativeHandle 0 1 5 9, snd (nh_create 5 (Some 77) ''tex'' (newNativeRegistry 9)))"
    by (simp add: nh_create_def newNativeRegistry_def nh_fill_def InvalidSlot_def)
  have ne: "NativeHandle 0 1 5 9 \<noteq> noHandle" by (simp add: noHandle_def)
  from native_handle_lifecycle [where ops = "[]" and later = "[TCreate (5, Some 78, ''other'')]",
      OF _ _ eq ne, of 9] show ?thesis by simp
qed

end
