(* ===== verification/Gameplay_Host.thy ===== *)
theory Gameplay_Host
  imports Gameplay_Runtime Runtime_Value "HOL-Library.Product_Lexorder"
begin

text \<open>
  \<open>GameplayHost\<close> of \<open>src/game/GameplayScripting.cpp\<close>: script callbacks on timers, sequences of
  timed callbacks, topic subscriptions and queued events on top of the deterministic core.
  The five \<open>std::map\<close> members are ordered maps; \<open>timerToPayload\<close> and \<open>timerToSequence\<close> are
  indexes that every operation has to keep consistent with the calls and sequences.
  \<open>Host_Properties\<close> holds the invariant and the properties.
\<close>

section \<open>State\<close>

record ScheduledScriptCall =
  callPayload :: u64
  callTimer :: u64
  callTarget :: u64
  callCallback :: string
  callArguments :: "GameplayValue list"

record ScriptEventSubscription =
  subId :: u64
  subTopic :: string
  subTarget :: u64
  subCallback :: string
  subPriority :: u32

record ScriptSequenceStep =
  stepDelay :: u64
  stepCallback :: string
  stepArguments :: "GameplayValue list"

record ScriptSequenceState =
  seqId :: u64
  seqTimers :: "u64 list"

record ScriptDispatchCall =
  dcTarget :: u64
  dcCallback :: string
  dcArguments :: "GameplayValue list"
  dcSourceTimer :: u64
  dcSourceEvent :: u64

record ScriptDispatchBatch =
  batchCalls :: "ScriptDispatchCall list"
  batchTimers :: nat
  batchEvents :: nat

record GameplayHost =
  hostCore :: GameplayRuntime
  hostNextPayload :: u64
  hostNextSubscription :: u64
  hostNextSequence :: u64
  hostCalls :: "(u64, ScheduledScriptCall) omap"
  hostTimerPayload :: "(u64, u64) omap"
  hostSubscriptions :: "(u64, ScriptEventSubscription) omap"
  hostSequences :: "(u64, ScriptSequenceState) omap"
  hostTimerSequence :: "(u64, u64) omap"

record HostState =
  hsCore :: RuntimeState
  hsNextPayload :: u64
  hsNextSubscription :: u64
  hsNextSequence :: u64
  hsCalls :: "ScheduledScriptCall list"
  hsSubscriptions :: "ScriptEventSubscription list"
  hsSequences :: "ScriptSequenceState list"

definition newHost :: "u32 \<Rightarrow> u64 \<Rightarrow> u64 \<Rightarrow> GameplayHost" where
  "newHost rate seed sequence =
     \<lparr>hostCore = newRuntime rate seed sequence, hostNextPayload = 1, hostNextSubscription = 1,
      hostNextSequence = 1, hostCalls = [], hostTimerPayload = [], hostSubscriptions = [],
      hostSequences = [], hostTimerSequence = []\<rparr>"

definition normalizedDelay :: "u64 \<Rightarrow> u64" where
  "normalizedDelay delayTicks = (if delayTicks = 0 then 1 else delayTicks)"

definition saturatedAdd :: "u64 \<Rightarrow> u64 \<Rightarrow> u64" where
  "saturatedAdd left right = (if (- 1) - left < right then - 1 else left + right)"

definition validCall :: "ScheduledScriptCall \<Rightarrow> bool" where
  "validCall call \<longleftrightarrow>
     callPayload call \<noteq> 0 \<and> callTimer call \<noteq> 0 \<and> callTarget call \<noteq> 0 \<and> callCallback call \<noteq> ''''"

abbreviation host_tick :: "GameplayHost \<Rightarrow> u64" where
  "host_tick h \<equiv> clockTick (rtClock (hostCore h))"

abbreviation host_tasks :: "GameplayHost \<Rightarrow> (u64, TaskState) omap" where
  "host_tasks h \<equiv> tasks (rtScheduler (hostCore h))"

definition with_scheduler :: "TickScheduler \<Rightarrow> GameplayHost \<Rightarrow> GameplayHost" where
  "with_scheduler s h = h\<lparr>hostCore := (hostCore h)\<lparr>rtScheduler := s\<rparr>\<rparr>"

definition with_events :: "EventQueue \<Rightarrow> GameplayHost \<Rightarrow> GameplayHost" where
  "with_events q h = h\<lparr>hostCore := (hostCore h)\<lparr>rtEvents := q\<rparr>\<rparr>"

section \<open>Scheduled calls\<close>

definition scheduleCall ::
    "u64 \<Rightarrow> string \<Rightarrow> u64 \<Rightarrow> GameplayValue list \<Rightarrow> u64 \<Rightarrow> u32 \<Rightarrow> GameplayHost \<Rightarrow> u64 \<times> GameplayHost" where
  "scheduleCall target callback delayTicks arguments interval repeatCount h =
     (if target = 0 \<or> callback = '''' \<or> hostNextPayload h = 0 then (0, h)
      else if repeating repeatCount \<and> interval = 0 then (0, h)
      else
        (let payloadId = hostNextPayload h;
             (timerId, s) = scheduleAfter (host_tick h) (normalizedDelay delayTicks) payloadId
                              interval repeatCount (rtScheduler (hostCore h));
             h1 = with_scheduler s (h\<lparr>hostNextPayload := payloadId + 1\<rparr>)
         in if timerId = 0 then (0, h1)
            else (timerId,
                  h1\<lparr>hostCalls := fst (om_emplace payloadId
                        \<lparr>callPayload = payloadId, callTimer = timerId, callTarget = target,
                         callCallback = callback, callArguments = arguments\<rparr> (hostCalls h1)),
                     hostTimerPayload := fst (om_emplace timerId payloadId (hostTimerPayload h1))\<rparr>)))"

definition detachTimerFromSequences :: "u64 \<Rightarrow> GameplayHost \<Rightarrow> GameplayHost" where
  "detachTimerFromSequences timerId h =
     (case om_find (hostTimerSequence h) timerId of
        None \<Rightarrow> h
      | Some sequenceId \<Rightarrow>
          (let h1 = h\<lparr>hostTimerSequence := om_erase timerId (hostTimerSequence h)\<rparr>
           in case om_find (hostSequences h1) sequenceId of
                None \<Rightarrow> h1
              | Some s \<Rightarrow>
                  (let timers = filter (\<lambda>t. t \<noteq> timerId) (seqTimers s)
                   in if timers = [] then h1\<lparr>hostSequences := om_erase sequenceId (hostSequences h1)\<rparr>
                      else h1\<lparr>hostSequences :=
                               om_put sequenceId (s\<lparr>seqTimers := timers\<rparr>) (hostSequences h1)\<rparr>)))"

definition eraseCall :: "u64 \<Rightarrow> bool \<Rightarrow> GameplayHost \<Rightarrow> bool \<times> GameplayHost" where
  "eraseCall timerId cancelScheduler h =
     (case om_find (hostTimerPayload h) timerId of
        None \<Rightarrow> (False, h)
      | Some payloadId \<Rightarrow>
          (let h1 = (if cancelScheduler
                     then with_scheduler (snd (scheduler_cancel timerId (rtScheduler (hostCore h)))) h
                     else h)
           in (True, detachTimerFromSequences timerId
                       (h1\<lparr>hostTimerPayload := om_erase timerId (hostTimerPayload h1),
                           hostCalls := om_erase payloadId (hostCalls h1)\<rparr>))))"

definition cancelCall :: "u64 \<Rightarrow> GameplayHost \<Rightarrow> bool \<times> GameplayHost" where
  "cancelCall timerId h = eraseCall timerId True h"

section \<open>Sequences\<close>

text \<open>The length of one cycle, \<open>None\<close> where the first loop of \<open>startSequence\<close> gives up.\<close>

fun cycleLength :: "ScriptSequenceStep list \<Rightarrow> u64 \<Rightarrow> u64 option" where
  "cycleLength [] cycle = (if cycle = - 1 then None else Some cycle)"
| "cycleLength (st # steps) cycle =
     (if stepCallback st = '''' \<or> cycle = - 1 then None
      else cycleLength steps (saturatedAdd cycle (normalizedDelay (stepDelay st))))"

text \<open>
  The second loop: one call per step, and all calls made so far cancelled when one fails.
  \<open>created\<close> are the timers of the sequence so far.
\<close>

fun scheduleSteps ::
    "u64 \<Rightarrow> u64 \<Rightarrow> u32 \<Rightarrow> u64 \<Rightarrow> ScriptSequenceStep list \<Rightarrow> u64 \<Rightarrow> u64 list \<Rightarrow> GameplayHost \<Rightarrow>
     u64 list option \<times> GameplayHost" where
  "scheduleSteps target sequenceId repeatCount cycle [] dueOffset created h = (Some created, h)"
| "scheduleSteps target sequenceId repeatCount cycle (st # steps) dueOffset created h =
     (let due = saturatedAdd dueOffset (normalizedDelay (stepDelay st));
          (timerId, h1) = scheduleCall target (stepCallback st) due (stepArguments st)
                            (if repeatCount = 1 then 0 else cycle) repeatCount h
      in if timerId = 0 then (None, fold (\<lambda>t g. snd (cancelCall t g)) created h1)
         else scheduleSteps target sequenceId repeatCount cycle steps due (created @ [timerId])
                (h1\<lparr>hostTimerSequence :=
                      fst (om_emplace timerId sequenceId (hostTimerSequence h1))\<rparr>))"

definition startSequence ::
    "u64 \<Rightarrow> ScriptSequenceStep list \<Rightarrow> u32 \<Rightarrow> GameplayHost \<Rightarrow> u64 \<times> GameplayHost" where
  "startSequence target steps repeatCount h =
     (if target = 0 \<or> steps = [] \<or> hostNextSequence h = 0 then (0, h)
      else
        (case cycleLength steps 0 of
           None \<Rightarrow> (0, h)
         | Some cycle \<Rightarrow>
             (let sequenceId = hostNextSequence h
              in case scheduleSteps target sequenceId repeatCount cycle steps 0 []
                        (h\<lparr>hostNextSequence := sequenceId + 1\<rparr>) of
                   (None, h1) \<Rightarrow> (0, h1)
                 | (Some timers, h1) \<Rightarrow>
                     (sequenceId,
                      h1\<lparr>hostSequences := fst (om_emplace sequenceId
                            \<lparr>seqId = sequenceId, seqTimers = timers\<rparr> (hostSequences h1))\<rparr>))))"

definition cancelSequence :: "u64 \<Rightarrow> GameplayHost \<Rightarrow> bool \<times> GameplayHost" where
  "cancelSequence sequenceId h =
     (case om_find (hostSequences h) sequenceId of
        None \<Rightarrow> (False, h)
      | Some s \<Rightarrow>
          (let h1 = fold (\<lambda>t g. snd (eraseCall t True g)) (seqTimers s) h
           in (True, h1\<lparr>hostSequences := om_erase sequenceId (hostSequences h1)\<rparr>)))"

section \<open>Subscriptions and events\<close>

definition subscribe ::
    "string \<Rightarrow> u64 \<Rightarrow> string \<Rightarrow> u32 \<Rightarrow> GameplayHost \<Rightarrow> u64 \<times> GameplayHost" where
  "subscribe topic target callback priority h =
     (if topic = '''' \<or> target = 0 \<or> callback = '''' \<or> hostNextSubscription h = 0 then (0, h)
      else (let ident = hostNextSubscription h
            in (ident,
                h\<lparr>hostNextSubscription := ident + 1,
                  hostSubscriptions := fst (om_emplace ident
                    \<lparr>subId = ident, subTopic = topic, subTarget = target, subCallback = callback,
                     subPriority = priority\<rparr> (hostSubscriptions h))\<rparr>)))"

definition unsubscribe :: "u64 \<Rightarrow> GameplayHost \<Rightarrow> bool \<times> GameplayHost" where
  "unsubscribe subscriptionId h =
     (om_find (hostSubscriptions h) subscriptionId \<noteq> None,
      h\<lparr>hostSubscriptions := om_erase subscriptionId (hostSubscriptions h)\<rparr>)"

definition host_enqueue :: "u64 \<Rightarrow> string \<Rightarrow> GameplayValue list \<Rightarrow> u64 \<Rightarrow> GameplayHost \<Rightarrow> u64 \<times> GameplayHost" where
  "host_enqueue target topic arguments delayTicks h =
     (let (n, q) = enqueue \<lparr>evDueTick = saturatedAdd (host_tick h) (normalizedDelay delayTicks),
                            evSequence = 0, evTarget = target, evTopic = topic,
                            evArguments = arguments\<rparr> (rtEvents (hostCore h))
      in (n, with_events q h))"

definition publish :: "string \<Rightarrow> GameplayValue list \<Rightarrow> u64 \<Rightarrow> GameplayHost \<Rightarrow> u64 \<times> GameplayHost" where
  "publish topic arguments delayTicks h = host_enqueue 0 topic arguments delayTicks h"

definition enqueueDirect ::
    "u64 \<Rightarrow> string \<Rightarrow> GameplayValue list \<Rightarrow> u64 \<Rightarrow> GameplayHost \<Rightarrow> u64 \<times> GameplayHost" where
  "enqueueDirect target callback arguments delayTicks h =
     (if target = 0 then (0, h) else host_enqueue target callback arguments delayTicks h)"

definition cancelEvent :: "u64 \<Rightarrow> GameplayHost \<Rightarrow> bool \<times> GameplayHost" where
  "cancelEvent n h =
     (let (b, q) = eventqueue_cancel n (rtEvents (hostCore h)) in (b, with_events q h))"

section \<open>Dispatch\<close>

definition timerDispatch :: "ScheduledScriptCall \<Rightarrow> FiredTask \<Rightarrow> ScriptDispatchCall" where
  "timerDispatch call task =
     \<lparr>dcTarget = callTarget call, dcCallback = callCallback call, dcArguments = callArguments call,
      dcSourceTimer = firedId task, dcSourceEvent = 0\<rparr>"

text \<open>
  The loop over the fired tasks. A call that does not repeat is moved out of the map and
  then erased; the entry is gone afterwards, so the moved-from state is not observable.
\<close>

fun dispatchTimers ::
    "FiredTask list \<Rightarrow> GameplayHost \<Rightarrow> ScriptDispatchCall list \<times> GameplayHost" where
  "dispatchTimers [] h = ([], h)"
| "dispatchTimers (task # fired) h =
     (case om_find (hostCalls h) (firedPayload task) of
        None \<Rightarrow> dispatchTimers fired h
      | Some call \<Rightarrow>
          (let h1 = (if \<not> repeats task then snd (eraseCall (firedId task) False h) else h);
               (calls, h2) = dispatchTimers fired h1
           in (timerDispatch call task # calls, h2)))"

text \<open>The subscribers of a topic, by signed priority and then by identifier.\<close>

definition subscribersOf :: "string \<Rightarrow> GameplayHost \<Rightarrow> ScriptEventSubscription list" where
  "subscribersOf topic h =
     sort_key (\<lambda>s. (sint (subPriority s), subId s))
       (filter (\<lambda>s. subTopic s = topic) (map snd (hostSubscriptions h)))"

definition dispatchEvent :: "GameplayHost \<Rightarrow> GameplayEvent \<Rightarrow> ScriptDispatchCall list" where
  "dispatchEvent h e =
     (if evTarget e \<noteq> 0
      then [\<lparr>dcTarget = evTarget e, dcCallback = evTopic e, dcArguments = evArguments e,
             dcSourceTimer = 0, dcSourceEvent = evSequence e\<rparr>]
      else map (\<lambda>s. \<lparr>dcTarget = subTarget s, dcCallback = subCallback s,
                     dcArguments = evArguments e, dcSourceTimer = 0,
                     dcSourceEvent = evSequence e\<rparr>) (subscribersOf (evTopic e) h))"

definition drainDue ::
    "u64 \<Rightarrow> nat \<Rightarrow> nat \<Rightarrow> GameplayHost \<Rightarrow> ScriptDispatchBatch \<times> GameplayHost" where
  "drainDue currentTick timerBudget eventBudget h =
     (let (fired, s) = runDue currentTick timerBudget (rtScheduler (hostCore h));
          (timerCalls, h1) = dispatchTimers fired (with_scheduler s h);
          (events, q) = popDue currentTick eventBudget (rtEvents (hostCore h1));
          h2 = with_events q h1
      in (\<lparr>batchCalls = timerCalls @ concat (map (dispatchEvent h2) events),
           batchTimers = length fired, batchEvents = length events\<rparr>, h2))"

section \<open>Snapshot, restore, hash\<close>

definition host_snapshot :: "GameplayHost \<Rightarrow> HostState" where
  "host_snapshot h =
     \<lparr>hsCore = runtime_snapshot (hostCore h), hsNextPayload = hostNextPayload h,
      hsNextSubscription = hostNextSubscription h, hsNextSequence = hostNextSequence h,
      hsCalls = map snd (hostCalls h), hsSubscriptions = map snd (hostSubscriptions h),
      hsSequences = map snd (hostSequences h)\<rparr>"

text \<open>\<open>schedulerPayloads\<close> keeps the first payload of an identifier, as \<open>emplace\<close> does.\<close>

definition schedulerPayloads :: "TaskState list \<Rightarrow> u64 \<Rightarrow> u64 option" where
  "schedulerPayloads ts = map_of (map (\<lambda>t. (taskId t, payload t)) ts)"

text \<open>
  The three loops of \<open>restore\<close>. Each carries the maps built so far and the largest
  identifier; \<open>None\<close> is an early \<open>return false\<close>.
\<close>

fun restoreCalls ::
    "(u64 \<Rightarrow> u64 option) \<Rightarrow> ScheduledScriptCall list \<Rightarrow> (u64, ScheduledScriptCall) omap \<Rightarrow>
     (u64, u64) omap \<Rightarrow> u64 \<Rightarrow>
     ((u64, ScheduledScriptCall) omap \<times> (u64, u64) omap \<times> u64) option" where
  "restoreCalls payloads [] calls timers maximum = Some (calls, timers, maximum)"
| "restoreCalls payloads (c # cs) calls timers maximum =
     (if \<not> validCall c \<or> payloads (callTimer c) \<noteq> Some (callPayload c) then None
      else (case om_emplace (callPayload c) c calls of
              (_, False) \<Rightarrow> None
            | (calls', True) \<Rightarrow>
                (case om_emplace (callTimer c) (callPayload c) timers of
                   (_, False) \<Rightarrow> None
                 | (timers', True) \<Rightarrow>
                     restoreCalls payloads cs calls' timers' (max maximum (callPayload c)))))"

fun restoreSubscriptions ::
    "ScriptEventSubscription list \<Rightarrow> (u64, ScriptEventSubscription) omap \<Rightarrow> u64 \<Rightarrow>
     ((u64, ScriptEventSubscription) omap \<times> u64) option" where
  "restoreSubscriptions [] subs maximum = Some (subs, maximum)"
| "restoreSubscriptions (s # ss) subs maximum =
     (if subId s = 0 \<or> subTopic s = '''' \<or> subTarget s = 0 \<or> subCallback s = '''' then None
      else (case om_emplace (subId s) s subs of
              (_, False) \<Rightarrow> None
            | (subs', True) \<Rightarrow> restoreSubscriptions ss subs' (max maximum (subId s))))"

fun restoreSequenceTimers ::
    "u64 \<Rightarrow> (u64, u64) omap \<Rightarrow> u64 list \<Rightarrow> u64 set \<Rightarrow> (u64, u64) omap \<Rightarrow> (u64, u64) omap option" where
  "restoreSequenceTimers ident timerToPayload [] unique m = Some m"
| "restoreSequenceTimers ident timerToPayload (t # ts) unique m =
     (if om_find timerToPayload t = None \<or> t \<in> unique then None
      else (case om_emplace t ident m of
              (_, False) \<Rightarrow> None
            | (m', True) \<Rightarrow> restoreSequenceTimers ident timerToPayload ts (insert t unique) m'))"

fun restoreSequences ::
    "(u64, u64) omap \<Rightarrow> ScriptSequenceState list \<Rightarrow> (u64, ScriptSequenceState) omap \<Rightarrow>
     (u64, u64) omap \<Rightarrow> u64 \<Rightarrow>
     ((u64, ScriptSequenceState) omap \<times> (u64, u64) omap \<times> u64) option" where
  "restoreSequences timerToPayload [] seqs m maximum = Some (seqs, m, maximum)"
| "restoreSequences timerToPayload (s # ss) seqs m maximum =
     (if seqId s = 0 \<or> seqTimers s = [] then None
      else (case om_emplace (seqId s) s seqs of
              (_, False) \<Rightarrow> None
            | (seqs', True) \<Rightarrow>
                (case restoreSequenceTimers (seqId s) timerToPayload (seqTimers s) {} m of
                   None \<Rightarrow> None
                 | Some m' \<Rightarrow> restoreSequences timerToPayload ss seqs' m' (max maximum (seqId s)))))"

definition host_restore :: "HostState \<Rightarrow> GameplayHost option" where
  "host_restore st =
     (if hsNextPayload st = 0 \<or> hsNextSubscription st = 0 \<or> hsNextSequence st = 0 then None
      else
        (case runtime_restore (hsCore st) of
           None \<Rightarrow> None
         | Some core \<Rightarrow>
           (case restoreCalls (schedulerPayloads (stTasks (rsScheduler (hsCore st)))) (hsCalls st) [] [] 0 of
              None \<Rightarrow> None
            | Some (calls, timerToPayload, maximumPayload) \<Rightarrow>
              (if hsNextPayload st \<le> maximumPayload then None
               else
                 (case restoreSubscriptions (hsSubscriptions st) [] 0 of
                    None \<Rightarrow> None
                  | Some (subscriptions, maximumSubscription) \<Rightarrow>
                    (if hsNextSubscription st \<le> maximumSubscription then None
                     else
                       (case restoreSequences timerToPayload (hsSequences st) [] [] 0 of
                          None \<Rightarrow> None
                        | Some (sequences, timerToSequence, maximumSequence) \<Rightarrow>
                          (if hsNextSequence st \<le> maximumSequence then None
                           else Some
                             \<lparr>hostCore = core, hostNextPayload = hsNextPayload st,
                              hostNextSubscription = hsNextSubscription st,
                              hostNextSequence = hsNextSequence st, hostCalls = calls,
                              hostTimerPayload = timerToPayload, hostSubscriptions = subscriptions,
                              hostSequences = sequences, hostTimerSequence = timerToSequence\<rparr>))))))))"

definition hashCall :: "u64 \<Rightarrow> ScheduledScriptCall \<Rightarrow> u64" where
  "hashCall h c =
     foldl (\<lambda>h a. hashU64 h (stableGameplayValueHash a))
       (hashU64 (hashString (hashU64 (hashU64 (hashU64 h (callPayload c)) (callTimer c)) (callTarget c))
          (callCallback c)) (of_nat (length (callArguments c))))
       (callArguments c)"

definition hashSubscription :: "u64 \<Rightarrow> ScriptEventSubscription \<Rightarrow> u64" where
  "hashSubscription h s =
     hashU64 (hashString (hashU64 (hashString (hashU64 h (subId s)) (subTopic s)) (subTarget s))
       (subCallback s)) (ucast (subPriority s))"

definition hashSequence :: "u64 \<Rightarrow> ScriptSequenceState \<Rightarrow> u64" where
  "hashSequence h s =
     foldl hashU64 (hashU64 (hashU64 h (seqId s)) (of_nat (length (seqTimers s)))) (seqTimers s)"

definition host_stableHash :: "GameplayHost \<Rightarrow> u64" where
  "host_stableHash h =
     (let h0 = hashU64 (hashU64 (hashU64 (hashU64 FnvOffset (runtime_stableHash (hostCore h)))
                 (hostNextPayload h)) (hostNextSubscription h)) (hostNextSequence h);
          h1 = foldl hashCall (hashU64 h0 (of_nat (length (hostCalls h)))) (map snd (hostCalls h));
          h2 = foldl hashSubscription (hashU64 h1 (of_nat (length (hostSubscriptions h))))
                 (map snd (hostSubscriptions h))
      in foldl hashSequence (hashU64 h2 (of_nat (length (hostSequences h)))) (map snd (hostSequences h)))"

end
