(* ===== verification/Timer_Firing.thy ===== *)
theory Timer_Firing
  imports Tick_Scheduler
begin

text \<open>
  What a run of due timers does to the map of tasks, for the clients that keep data under a
  timer's payload: which tasks the firings come from, when a task is gone afterwards, and
  that only a final firing removes one as long as no repeating task overflows the tick.
\<close>

section \<open>What \<open>runDue\<close> does to the map of tasks\<close>

lemma runDueLoop_task_rule:
  assumes inv: "sched_inv s"
    and stop: "\<And>s fired. sched_inv s \<Longrightarrow> P s fired (fired, s)"
    and fire: "\<And>s fired t s' r. sched_inv s \<Longrightarrow> sched_inv s' \<Longrightarrow> \<not> now < dueTick t \<Longrightarrow>
      om_find (tasks s) (taskId t) = Some t \<Longrightarrow> nextId s' = nextId s \<Longrightarrow>
      om_find (tasks s') = (om_find (tasks s))(taskId t := (if requeues t then Some (advanceTask t) else None)) \<Longrightarrow>
      P s' (fired @ [firing t]) r \<Longrightarrow> P s fired r"
  shows "P s fired (runDueLoop now b s fired)"
  using inv
proof (induction "b - length fired" arbitrary: s fired rule: less_induct)
  case less
  show ?case
  proof (cases "queue s = [] \<or> \<not> length fired < b \<or> now < keyDue (hd (queue s))")
    case True
    then show ?thesis using stop [OF less.prems] by (simp add: runDueLoop_stops)
  next
    case False
    then obtain key rest where q: "queue s = key # rest" by (cases "queue s") auto
    from False q have due: "\<not> now < keyDue key" and b: "length fired < b" by auto
    obtain t where t: "om_find (tasks s) (keyId key) = Some t" "keyDue key = dueTick t"
      and tid: "taskId t = keyId key"
      using queue_head [OF less.prems q] by blast
    define s' where "s' = snd (fireKey key (s\<lparr>queue := rest\<rparr>))"
    have inv': "sched_inv s'" unfolding s'_def by (rule sched_inv_fireKey [OF less.prems q])
    have eq: "fireKey key (s\<lparr>queue := rest\<rparr>) = (Some (firing t), s')" "nextId s' = nextId s"
      "om_find (tasks s') = (om_find (tasks s))(taskId t := (if requeues t then Some (advanceTask t) else None))"
      using t tid sched_invD(1) [OF less.prems] unfolding s'_def
      by (cases "requeues t"; simp add: fireKey_last fireKey_again)+
    have "P s' (fired @ [firing t]) (runDueLoop now b s' (fired @ [firing t]))"
      using b inv' by (intro less.hyps) auto
    then have "P s fired (runDueLoop now b s' (fired @ [firing t]))"
      using fire [OF less.prems inv' _ _ eq(2,3)] due t tid by simp
    then show ?thesis by (simp add: runDueLoop_fires [OF q b due eq(1)])
  qed
qed

text \<open>No repeating task runs over the last tick while the ticks up to \<open>now\<close> are drained.\<close>

definition no_overflow :: "u64 \<Rightarrow> TickScheduler \<Rightarrow> bool" where
  "no_overflow now s \<longleftrightarrow>
     (\<forall>k t. om_find (tasks s) k = Some t \<longrightarrow> repeating (remainingFires t) \<longrightarrow>
        unat now + unat (intervalTicks t) < 2 ^ 64)"

definition fired_from :: "TickScheduler \<Rightarrow> FiredTask list \<Rightarrow> TickScheduler \<Rightarrow> bool" where
  "fired_from s new s' \<longleftrightarrow>
     (\<forall>f \<in> set new. \<exists>t. om_find (tasks s) (firedId f) = Some t \<and> payload t = firedPayload f) \<and>
     sorted_wrt (\<lambda>f g. repeats f \<or> firedId f \<noteq> firedId g) new \<and>
     (\<forall>k t'. om_find (tasks s') k = Some t' \<longrightarrow>
        (\<exists>t. om_find (tasks s) k = Some t \<and> payload t' = payload t)) \<and>
     (\<forall>f \<in> set new. \<not> repeats f \<longrightarrow> om_find (tasks s') (firedId f) = None)"

definition lost_only_final :: "TickScheduler \<Rightarrow> FiredTask list \<Rightarrow> TickScheduler \<Rightarrow> bool" where
  "lost_only_final s new s' \<longleftrightarrow>
     (\<forall>k t. om_find (tasks s) k = Some t \<longrightarrow> om_find (tasks s') k = None \<longrightarrow>
        (\<exists>f \<in> set new. firedId f = k \<and> \<not> repeats f))"

lemma fired_from_refl: "fired_from s [] s"
  by (simp add: fired_from_def)

lemma firing_simps [simp]:
  "firedId (firing t) = taskId t" "firedPayload (firing t) = payload t"
  "repeats (firing t) = repeating (remainingFires t)"
  by (simp_all add: firing_def)

lemma fired_from_step:
  assumes t: "om_find (tasks s) (taskId t) = Some t"
    and s': "om_find (tasks s') = (om_find (tasks s))(taskId t := (if requeues t then Some (advanceTask t) else None))"
    and rest: "fired_from s' new s2"
  shows "fired_from s (firing t # new) s2"
proof -
  have keep: "\<exists>u. om_find (tasks s) k = Some u \<and> payload u' = payload u"
    if "om_find (tasks s') k = Some u'" for k u'
    using that t by (auto simp: s' split: if_splits)
  have last: "om_find (tasks s') (taskId t) = None" if "\<not> repeating (remainingFires t)"
    using that by (simp add: s' requeues_def)
  show ?thesis unfolding fired_from_def
  proof (intro conjI)
    show "\<forall>f \<in> set (firing t # new). \<exists>u. om_find (tasks s) (firedId f) = Some u \<and> payload u = firedPayload f"
      using rest keep t unfolding fired_from_def by fastforce
    show "sorted_wrt (\<lambda>f g. repeats f \<or> firedId f \<noteq> firedId g) (firing t # new)"
      using rest last unfolding fired_from_def by fastforce
    show "\<forall>k t'. om_find (tasks s2) k = Some t' \<longrightarrow>
        (\<exists>t. om_find (tasks s) k = Some t \<and> payload t' = payload t)"
      using rest keep unfolding fired_from_def by metis
    show "\<forall>f \<in> set (firing t # new). \<not> repeats f \<longrightarrow> om_find (tasks s2) (firedId f) = None"
      using rest last unfolding fired_from_def by (metis firing_simps(1,3) not_Some_eq set_ConsD)
  qed
qed

lemma runDueLoop_fired_from:
  assumes "sched_inv s"
  shows "\<exists>new. fst (runDueLoop now b s fired) = fired @ new \<and>
    fired_from s new (snd (runDueLoop now b s fired)) \<and>
    nextId (snd (runDueLoop now b s fired)) = nextId s"
proof (rule runDueLoop_task_rule [OF assms, where P = "\<lambda>s fired r.
    \<exists>new. fst r = fired @ new \<and> fired_from s new (snd r) \<and> nextId (snd r) = nextId s"])
  fix s fired
  show "\<exists>new. fst (fired, s) = fired @ new \<and> fired_from s new (snd (fired, s)) \<and> nextId (snd (fired, s)) = nextId s"
    by (simp add: fired_from_refl)
next
  fix s s' :: TickScheduler and fired t r
  assume t: "om_find (tasks s) (taskId t) = Some t" and n: "nextId s' = nextId s"
    and s': "om_find (tasks s') = (om_find (tasks s))(taskId t := (if requeues t then Some (advanceTask t) else None))"
    and "\<exists>new. fst r = (fired @ [firing t]) @ new \<and> fired_from s' new (snd r) \<and> nextId (snd r) = nextId s'"
  then obtain new where "fst r = fired @ firing t # new" "fired_from s' new (snd r)" "nextId (snd r) = nextId s'"
    by auto
  with fired_from_step [OF t s'] n
  show "\<exists>new. fst r = fired @ new \<and> fired_from s new (snd r) \<and> nextId (snd r) = nextId s" by auto
qed

lemma no_overflow_requeues:
  assumes "no_overflow now s" and "om_find (tasks s) k = Some t" and "\<not> now < dueTick t"
    and "repeating (remainingFires t)"
  shows "requeues t"
proof -
  have "unat now + unat (intervalTicks t) < 2 ^ 64" using assms unfolding no_overflow_def by blast
  moreover have "unat (dueTick t) \<le> unat now" using assms(3) by (simp add: word_less_nat_alt)
  ultimately show ?thesis
    using assms(4) by (simp add: requeues_def word_less_nat_alt unat_room_u64)
qed

lemma runDueLoop_lost_only_final:
  assumes "sched_inv s" and "no_overflow now s"
  shows "lost_only_final s (fst (runDueLoop now b s [])) (snd (runDueLoop now b s []))"
proof -
  have "no_overflow now s \<longrightarrow> (\<forall>k t. om_find (tasks s) k = Some t \<longrightarrow>
      om_find (tasks (snd (runDueLoop now b s []))) k = None \<longrightarrow>
      (\<exists>f \<in> set (fst (runDueLoop now b s [])). firedId f = k \<and> \<not> repeats f)) \<and>
      set [] \<subseteq> set (fst (runDueLoop now b s []))"
  proof (rule runDueLoop_task_rule [OF assms(1), where P = "\<lambda>s fired r. no_overflow now s \<longrightarrow>
      (\<forall>k t. om_find (tasks s) k = Some t \<longrightarrow> om_find (tasks (snd r)) k = None \<longrightarrow>
      (\<exists>f \<in> set (fst r). firedId f = k \<and> \<not> repeats f)) \<and> set fired \<subseteq> set (fst r)"], goal_cases)
    case (1 s fired)
    then show ?case by simp
  next
    case (2 s fired t s' r)
    show ?case
    proof
      assume no: "no_overflow now s"
      have req: "requeues t \<longleftrightarrow> repeating (remainingFires t)"
        using no_overflow_requeues [OF no 2(4,3)] by (auto simp: requeues_def)
      have "no_overflow now s'"
        using no 2(4) unfolding no_overflow_def 2(6) by (auto simp: req)
      with 2(7) have IH: "\<And>k u. om_find (tasks s') k = Some u \<Longrightarrow> om_find (tasks (snd r)) k = None \<Longrightarrow>
          \<exists>f \<in> set (fst r). firedId f = k \<and> \<not> repeats f" "set (fired @ [firing t]) \<subseteq> set (fst r)"
        by blast+
      have "\<exists>f \<in> set (fst r). firedId f = k \<and> \<not> repeats f"
        if u: "om_find (tasks s) k = Some u" "om_find (tasks (snd r)) k = None" for k u
      proof (cases "om_find (tasks s') k")
        case None
        with u 2(6) req have "k = taskId t" "\<not> repeating (remainingFires t)" by (auto split: if_splits)
        with IH(2) show ?thesis by (intro bexI [of _ "firing t"]) auto
      qed (use IH(1) u(2) in blast)
      with IH(2) show "(\<forall>k t. om_find (tasks s) k = Some t \<longrightarrow> om_find (tasks (snd r)) k = None \<longrightarrow>
          (\<exists>f \<in> set (fst r). firedId f = k \<and> \<not> repeats f)) \<and> set fired \<subseteq> set (fst r)" by auto
    qed
  qed
  with assms(2) show ?thesis unfolding lost_only_final_def by blast
qed

end
