(* ===== verification/Host_Invariant.thy ===== *)
theory Host_Invariant
  imports Gameplay_Host Timer_Firing
begin

text \<open>
  The invariant of \<open>GameplayHost\<close> (\<open>src/game/GameplayScripting.cpp\<close>): its five maps and the
  scheduler agree on the calls, timers and sequences. Scheduling a call keeps it, and erasing a
  call removes exactly the timer's entries everywhere.
\<close>

section \<open>The invariant\<close>

text \<open>The timer index lists exactly the calls, each under its own timer.\<close>

definition calls_ok :: "GameplayHost \<Rightarrow> bool" where
  "calls_ok h \<longleftrightarrow>
     om_inv (hostCalls h) \<and> om_inv (hostTimerPayload h) \<and>
     (\<forall>p c. om_find (hostCalls h) p = Some c \<longrightarrow>
        callPayload c = p \<and> validCall c \<and> (hostNextPayload h = 0 \<or> p < hostNextPayload h)) \<and>
     (\<forall>t p. om_find (hostTimerPayload h) t = Some p \<longleftrightarrow>
        (\<exists>c. om_find (hostCalls h) p = Some c \<and> callTimer c = t))"

definition subs_ok :: "GameplayHost \<Rightarrow> bool" where
  "subs_ok h \<longleftrightarrow>
     om_inv (hostSubscriptions h) \<and>
     (\<forall>i s. om_find (hostSubscriptions h) i = Some s \<longrightarrow>
        subId s = i \<and> i \<noteq> 0 \<and> subTopic s \<noteq> '''' \<and> subTarget s \<noteq> 0 \<and> subCallback s \<noteq> '''' \<and>
        (hostNextSubscription h = 0 \<or> i < hostNextSubscription h))"

text \<open>
  \<open>S\<close> gives the timers of each sequence: of those in the map, and, while \<open>startSequence\<close> is at
  work, of the sequence under construction.
\<close>

definition seq_index :: "(u64 \<Rightarrow> u64 set) \<Rightarrow> GameplayHost \<Rightarrow> bool" where
  "seq_index S h \<longleftrightarrow>
     om_inv (hostTimerSequence h) \<and>
     (\<forall>t i. om_find (hostTimerSequence h) t = Some i \<longleftrightarrow> t \<in> S i) \<and>
     (\<forall>t i. t \<in> S i \<longrightarrow> om_find (hostTimerPayload h) t \<noteq> None)"

definition seqs_ok :: "GameplayHost \<Rightarrow> bool" where
  "seqs_ok h \<longleftrightarrow>
     om_inv (hostSequences h) \<and>
     (\<forall>i s. om_find (hostSequences h) i = Some s \<longrightarrow>
        seqId s = i \<and> i \<noteq> 0 \<and> seqTimers s \<noteq> [] \<and> distinct (seqTimers s) \<and>
        (hostNextSequence h = 0 \<or> i < hostNextSequence h))"

definition sequence_timers :: "GameplayHost \<Rightarrow> u64 \<Rightarrow> u64 set" where
  "sequence_timers h i =
     (case om_find (hostSequences h) i of None \<Rightarrow> {} | Some s \<Rightarrow> set (seqTimers s))"

text \<open>Every task of the scheduler carries the payload of a call that waits for it.\<close>

definition tasks_linked :: "GameplayHost \<Rightarrow> bool" where
  "tasks_linked h \<longleftrightarrow>
     (\<forall>k t. om_find (host_tasks h) k = Some t \<longrightarrow> om_find (hostTimerPayload h) k = Some (payload t))"

text \<open>Every call still has its timer.\<close>

definition armed :: "GameplayHost \<Rightarrow> bool" where
  "armed h \<longleftrightarrow>
     (\<forall>k p. om_find (hostTimerPayload h) k = Some p \<longrightarrow>
        (\<exists>t. om_find (host_tasks h) k = Some t \<and> payload t = p))"

text \<open>Timer identifiers in use are below the scheduler's counter.\<close>

definition timers_below :: "GameplayHost \<Rightarrow> bool" where
  "timers_below h \<longleftrightarrow>
     (\<forall>k p. om_find (hostTimerPayload h) k = Some p \<longrightarrow>
        nextId (rtScheduler (hostCore h)) = 0 \<or> k < nextId (rtScheduler (hostCore h)))"

definition host_base :: "GameplayHost \<Rightarrow> bool" where
  "host_base h \<longleftrightarrow>
     runtime_inv (hostCore h) \<and> calls_ok h \<and> subs_ok h \<and> seqs_ok h \<and> tasks_linked h \<and> timers_below h"

definition host_inv :: "GameplayHost \<Rightarrow> bool" where
  "host_inv h \<longleftrightarrow> host_base h \<and> seq_index (sequence_timers h) h"

lemma timer_payload_find:
  assumes "calls_ok h"
  shows "om_find (hostTimerPayload h) t = Some p \<longleftrightarrow>
    (\<exists>c. om_find (hostCalls h) p = Some c \<and> callTimer c = t)"
  using assms unfolding calls_ok_def by blast

lemma host_inv_new: "host_inv (newHost rate seed sequence)"
  using runtime_inv_new [of rate seed "sequence"]
  by (simp add: host_inv_def host_base_def calls_ok_def subs_ok_def seqs_ok_def tasks_linked_def
      seq_index_def sequence_timers_def timers_below_def newHost_def newRuntime_def emptyScheduler_def)

lemma armed_new: "armed (newHost rate seed sequence)"
  by (simp add: armed_def newHost_def)

section \<open>Scheduling\<close>

text \<open>
  The new call of \<open>scheduleCall\<close>, when it returns a timer: everything else is unchanged, and
  neither the timer nor the payload was in use.
\<close>

lemma scheduleAt_task:
  assumes inv: "sched_inv s" and eq: "scheduleAt due pl interval n s = (k, s')" and k: "k \<noteq> 0"
  shows "om_find (tasks s) k = None" and "k = nextId s" and "nextId s' = nextId s + 1"
    and "om_find (tasks s') = (om_find (tasks s))(k \<mapsto>
      \<lparr>taskId = k, dueTick = due, intervalTicks = interval, remainingFires = n, payload = pl\<rparr>)"
proof -
  have c: "\<not> (repeating n \<and> interval = 0)" "nextId s \<noteq> 0"
    using eq k by (auto simp: scheduleAt_def split: if_splits)
  note fresh = sched_inv_fresh_id [OF inv c(2)]
  show "om_find (tasks s) k = None" "k = nextId s" "nextId s' = nextId s + 1"
    "om_find (tasks s') = (om_find (tasks s))(k \<mapsto>
      \<lparr>taskId = k, dueTick = due, intervalTicks = interval, remainingFires = n, payload = pl\<rparr>)"
    using eq c fresh sched_invD(1) [OF inv]
    by (auto simp: scheduleAt_def Let_def om_emplace_new)
qed

lemma scheduleAt_refused: "scheduleAt due pl interval n s = (0, s') \<Longrightarrow> s' = s"
  by (auto simp: scheduleAt_def Let_def split: if_splits)

text \<open>The host with one more call in it.\<close>

definition add_call :: "TickScheduler \<Rightarrow> ScheduledScriptCall \<Rightarrow> GameplayHost \<Rightarrow> GameplayHost" where
  "add_call s c h =
     (with_scheduler s (h\<lparr>hostNextPayload := callPayload c + 1\<rparr>))
       \<lparr>hostCalls := om_put (callPayload c) c (hostCalls h),
        hostTimerPayload := om_put (callTimer c) (callPayload c) (hostTimerPayload h)\<rparr>"

lemma fresh_payload: "calls_ok h \<Longrightarrow> hostNextPayload h \<noteq> 0 \<Longrightarrow> om_find (hostCalls h) (hostNextPayload h) = None"
  unfolding calls_ok_def by (metis less_irrefl not_Some_eq)

lemma fresh_timer:
  assumes "host_base h" and "k = nextId (rtScheduler (hostCore h))" and "k \<noteq> 0"
  shows "om_find (hostTimerPayload h) k = None"
  using assms unfolding host_base_def timers_below_def by (metis less_irrefl not_Some_eq)

lemma with_scheduler_simps [simp]:
  "hostCore (with_scheduler s h) = (hostCore h)\<lparr>rtScheduler := s\<rparr>"
  "hostNextPayload (with_scheduler s h) = hostNextPayload h"
  "hostNextSubscription (with_scheduler s h) = hostNextSubscription h"
  "hostNextSequence (with_scheduler s h) = hostNextSequence h"
  "hostCalls (with_scheduler s h) = hostCalls h"
  "hostTimerPayload (with_scheduler s h) = hostTimerPayload h"
  "hostSubscriptions (with_scheduler s h) = hostSubscriptions h"
  "hostSequences (with_scheduler s h) = hostSequences h"
  "hostTimerSequence (with_scheduler s h) = hostTimerSequence h"
  by (simp_all add: with_scheduler_def)

lemma with_scheduler_same [simp]: "with_scheduler (rtScheduler (hostCore h)) h = h"
  by (simp add: with_scheduler_def)

text \<open>The two outcomes of \<open>scheduleCall\<close>.\<close>

lemma scheduleCall_cases:
  assumes base: "host_base h" and eq: "scheduleCall target callback delay arguments interval n h = (k, h')"
  obtains (refused) "k = 0" "h' = h \<or> h' = h\<lparr>hostNextPayload := hostNextPayload h + 1\<rparr> \<and> hostNextPayload h \<noteq> 0"
  | (made) s c where "k \<noteq> 0" "h' = add_call s c h"
      "c = \<lparr>callPayload = hostNextPayload h, callTimer = k, callTarget = target,
            callCallback = callback, callArguments = arguments\<rparr>"
      "target \<noteq> 0" "callback \<noteq> ''''" "hostNextPayload h \<noteq> 0"
      "scheduleAfter (host_tick h) (normalizedDelay delay) (hostNextPayload h) interval n
         (rtScheduler (hostCore h)) = (k, s)"
proof -
  obtain k1 s where s: "scheduleAfter (host_tick h) (normalizedDelay delay) (hostNextPayload h) interval n
      (rtScheduler (hostCore h)) = (k1, s)" by fastforce
  let ?c = "\<lparr>callPayload = hostNextPayload h, callTimer = k, callTarget = target,
      callCallback = callback, callArguments = arguments\<rparr>"
  let ?h1 = "with_scheduler s (h\<lparr>hostNextPayload := hostNextPayload h + 1\<rparr>)"
  let ?bad = "target = 0 \<or> callback = '''' \<or> hostNextPayload h = 0"
  have inv: "sched_inv (rtScheduler (hostCore h))" "calls_ok h"
    using base by (simp_all add: host_base_def runtime_inv_def)
  show thesis
  proof (cases "?bad \<or> repeating n \<and> interval = 0")
    case True
    then have "(k, h') = (0, h)" unfolding eq [symmetric] by (cases ?bad) (simp_all only: scheduleCall_def if_True if_False simp_thms)
    then show thesis by (intro refused) auto
  next
    case False
    then have eq': "(k, h') = (if k1 = 0 then (0, ?h1) else
        (k1, ?h1\<lparr>hostCalls := fst (om_emplace (hostNextPayload h) (?c\<lparr>callTimer := k1\<rparr>) (hostCalls ?h1)),
             hostTimerPayload := fst (om_emplace k1 (hostNextPayload h) (hostTimerPayload ?h1))\<rparr>))"
      unfolding eq [symmetric] by (simp only: scheduleCall_def s Let_def prod.case if_False
          de_Morgan_disj not_False_eq_True simp_thms) simp
    show thesis
    proof (cases "k1 = 0")
      case True
      have "s = rtScheduler (hostCore h)"
        using s True scheduleAt_refused by (simp add: scheduleAfter_def)
      then have "h' = h\<lparr>hostNextPayload := hostNextPayload h + 1\<rparr>" and "k = 0"
        using eq' True by (simp_all add: with_scheduler_def)
      with False show thesis by (intro refused) auto
    next
      case nz: False
      then have k: "k = k1"
        and h': "h' = ?h1\<lparr>hostCalls := fst (om_emplace (hostNextPayload h) ?c (hostCalls h)),
             hostTimerPayload := fst (om_emplace k (hostNextPayload h) (hostTimerPayload h))\<rparr>"
        using eq' by simp_all
      have "k = nextId (rtScheduler (hostCore h))"
        using scheduleAt_task(2) [OF inv(1) s [unfolded scheduleAfter_def] nz] k by simp
      then have "om_find (hostTimerPayload h) k = None" using fresh_timer [OF base] nz k by simp
      moreover have "om_find (hostCalls h) (hostNextPayload h) = None"
        using inv(2) False by (intro fresh_payload) auto
      ultimately have "h' = add_call s ?c h"
        using h' by (simp add: add_call_def om_emplace_new)
      then show thesis using False nz k s by (intro made [of s ?c]) simp_all
    qed
  qed
qed

lemma below_next:
  fixes p n :: u64
  shows "n = 0 \<or> p < n \<Longrightarrow> n \<noteq> 0 \<Longrightarrow> n + 1 = 0 \<or> p < n + 1"
  by (metis word_less_plus_one_iff less_imp_le)

lemma host_baseD:
  assumes "host_base h"
  shows "runtime_inv (hostCore h)" "sched_inv (rtScheduler (hostCore h))" "evq_inv (rtEvents (hostCore h))"
    "calls_ok h" "subs_ok h" "seqs_ok h" "tasks_linked h" "timers_below h"
    "om_inv (hostCalls h)" "om_inv (hostTimerPayload h)" "om_inv (hostSubscriptions h)" "om_inv (hostSequences h)"
  using assms by (simp_all add: host_base_def runtime_inv_def calls_ok_def subs_ok_def seqs_ok_def)

lemma calls_okD:
  assumes "calls_ok h" and "om_find (hostCalls h) p = Some c"
  shows "callPayload c = p" "validCall c" "hostNextPayload h = 0 \<or> p < hostNextPayload h"
    "om_find (hostTimerPayload h) (callTimer c) = Some p"
  using assms unfolding calls_ok_def by blast+

lemma add_call_finds:
  assumes "host_base h"
  shows "om_find (hostCalls (add_call s c h)) = (om_find (hostCalls h))(callPayload c \<mapsto> c)"
    "om_find (hostTimerPayload (add_call s c h)) = (om_find (hostTimerPayload h))(callTimer c \<mapsto> callPayload c)"
    "hostCore (add_call s c h) = (hostCore h)\<lparr>rtScheduler := s\<rparr>"
    "hostSubscriptions (add_call s c h) = hostSubscriptions h"
    "hostSequences (add_call s c h) = hostSequences h"
    "hostTimerSequence (add_call s c h) = hostTimerSequence h"
    "hostNextPayload (add_call s c h) = callPayload c + 1"
    "hostNextSubscription (add_call s c h) = hostNextSubscription h"
    "hostNextSequence (add_call s c h) = hostNextSequence h"
  using host_baseD(9,10) [OF assms] by (simp_all add: add_call_def)

lemma add_call_inv:
  assumes base: "host_base h" and k: "k \<noteq> 0"
    and c: "c = \<lparr>callPayload = hostNextPayload h, callTimer = k, callTarget = target,
            callCallback = callback, callArguments = arguments\<rparr>"
    and ok: "target \<noteq> 0" "callback \<noteq> ''''" "hostNextPayload h \<noteq> 0"
    and s: "scheduleAfter (host_tick h) delay (hostNextPayload h) interval n (rtScheduler (hostCore h)) = (k, s)"
  shows "host_base (add_call s c h)" and "armed h \<Longrightarrow> armed (add_call s c h)"
    and "seq_index S h \<Longrightarrow> seq_index S (add_call s c h)"
    and "om_find (hostTimerPayload h) k = None"
proof -
  note D = host_baseD [OF base] and F = add_call_finds [OF base, of s c]
  have cf: "callPayload c = hostNextPayload h" "callTimer c = k" "callTarget c = target"
      "callCallback c = callback" by (simp_all add: c)
  note T = scheduleAt_task [OF D(2) s [unfolded scheduleAfter_def] k]
  show fresh: "om_find (hostTimerPayload h) k = None" using fresh_timer [OF base T(2) k] .
  have unused: "om_find (hostCalls h) (hostNextPayload h) = None" using fresh_payload [OF D(4) ok(3)] .
  have "runtime_inv (hostCore (add_call s c h))"
    using D(1) sched_inv_scheduleAt [OF D(2), of _ _ interval n] s
    by (metis (no_types, lifting) F(3) GameplayRuntime.select_convs GameplayRuntime.surjective
        GameplayRuntime.update_convs(4) runtime_inv_def scheduleAfter_def snd_conv)
  moreover have "calls_ok (add_call s c h)"
    unfolding calls_ok_def
  proof (intro conjI allI impI)
    show "om_inv (hostCalls (add_call s c h))" "om_inv (hostTimerPayload (add_call s c h))"
      using D(9,10) by (simp_all add: add_call_def)
    fix p d assume "om_find (hostCalls (add_call s c h)) p = Some d"
    then have e: "((om_find (hostCalls h))(hostNextPayload h \<mapsto> c)) p = Some d" by (simp only: F(1) cf(1))
    have "p = hostNextPayload h \<and> d = c \<or> om_find (hostCalls h) p = Some d"
      using e by (cases "p = hostNextPayload h") simp_all
    then consider "p = hostNextPayload h" "d = c" | "om_find (hostCalls h) p = Some d" by blast
    then have "callPayload d = p \<and> validCall d \<and>
        (hostNextPayload h + 1 = 0 \<or> p < hostNextPayload h + 1)"
    proof cases
      case 1
      then show ?thesis
        using ok k cf word_less_plus_one [of "hostNextPayload h"] by (auto simp: validCall_def)
    next
      case 2
      then show ?thesis using calls_okD [OF D(4) 2] below_next [OF _ ok(3)] by blast
    qed
    then show "callPayload d = p" "validCall d"
      "hostNextPayload (add_call s c h) = 0 \<or> p < hostNextPayload (add_call s c h)"
      by (simp_all add: F cf)
  next
    fix t p
    show "om_find (hostTimerPayload (add_call s c h)) t = Some p \<longleftrightarrow>
        (\<exists>d. om_find (hostCalls (add_call s c h)) p = Some d \<and> callTimer d = t)"
      using timer_payload_find [OF D(4), of t p] timer_payload_find [OF D(4), of k p] fresh unused
      by (auto simp: F cf)
  qed
  moreover have "subs_ok (add_call s c h)" using D(5) by (simp add: subs_ok_def F)
  moreover have "seqs_ok (add_call s c h)" using D(6) by (simp add: seqs_ok_def F)
  moreover have "tasks_linked (add_call s c h)"
    using D(7) by (auto simp: tasks_linked_def F T(4) cf)
  moreover have "timers_below (add_call s c h)"
    using D(8) k T(2) below_next [of "nextId (rtScheduler (hostCore h))"]
      word_less_plus_one [of "nextId (rtScheduler (hostCore h))"]
    by (auto simp: timers_below_def F T(3) cf)
  ultimately show "host_base (add_call s c h)" by (simp add: host_base_def)
  show "armed h \<Longrightarrow> armed (add_call s c h)"
    by (auto simp: armed_def F T(4) cf)
  show "seq_index S h \<Longrightarrow> seq_index S (add_call s c h)"
    by (auto simp: seq_index_def F)
qed

text \<open>Only the payload counter moves.\<close>

lemma skip_payload_inv:
  assumes "host_base h" and "hostNextPayload h \<noteq> 0"
  shows "host_base (h\<lparr>hostNextPayload := hostNextPayload h + 1\<rparr>)"
  using assms below_next [of "hostNextPayload h"]
  by (auto simp: host_base_def calls_ok_def subs_ok_def seqs_ok_def tasks_linked_def timers_below_def)

lemma skip_payload_same:
  "armed (h\<lparr>hostNextPayload := n\<rparr>) = armed h" "seq_index S (h\<lparr>hostNextPayload := n\<rparr>) = seq_index S h"
  "sequence_timers (h\<lparr>hostNextPayload := n\<rparr>) = sequence_timers h"
  by (simp_all add: armed_def seq_index_def sequence_timers_def fun_eq_iff)

lemma scheduleCall_inv:
  assumes base: "host_base h" and eq: "scheduleCall target callback delay arguments interval n h = (k, h')"
  shows "host_base h'" and "armed h \<Longrightarrow> armed h'" and "seq_index S h \<Longrightarrow> seq_index S h'"
    and "sequence_timers h' = sequence_timers h"
    and "hostNextSequence h' = hostNextSequence h" and "hostSequences h' = hostSequences h"
proof -
  have "host_base h' \<and> (armed h \<longrightarrow> armed h') \<and> (seq_index S h \<longrightarrow> seq_index S h') \<and>
      hostNextSequence h' = hostNextSequence h \<and> hostSequences h' = hostSequences h"
    using base eq
  proof (cases rule: scheduleCall_cases)
    case refused
    then show ?thesis using base skip_payload_inv by (auto simp: skip_payload_same)
  next
    case (made s c)
    with add_call_inv [OF base made(1,3-7)] add_call_finds [OF base, of s c] show ?thesis by simp
  qed
  then show "host_base h'" "armed h \<Longrightarrow> armed h'" "seq_index S h \<Longrightarrow> seq_index S h'"
    "hostNextSequence h' = hostNextSequence h" "hostSequences h' = hostSequences h" by blast+
  then show "sequence_timers h' = sequence_timers h" by (simp add: sequence_timers_def fun_eq_iff)
qed

section \<open>Erasing a call\<close>

lemma detach_fields [simp]:
  "hostCore (detachTimerFromSequences t h) = hostCore h"
  "hostNextPayload (detachTimerFromSequences t h) = hostNextPayload h"
  "hostNextSubscription (detachTimerFromSequences t h) = hostNextSubscription h"
  "hostNextSequence (detachTimerFromSequences t h) = hostNextSequence h"
  "hostCalls (detachTimerFromSequences t h) = hostCalls h"
  "hostTimerPayload (detachTimerFromSequences t h) = hostTimerPayload h"
  "hostSubscriptions (detachTimerFromSequences t h) = hostSubscriptions h"
  by (simp_all add: detachTimerFromSequences_def Let_def split: option.split)

lemma detach_index:
  "om_find (hostTimerSequence (detachTimerFromSequences t h)) = (om_find (hostTimerSequence h))(t := None)"
  by (auto simp: detachTimerFromSequences_def Let_def fun_eq_iff split: option.split)

lemma detach_index_inv:
  "om_inv (hostTimerSequence h) \<Longrightarrow> om_inv (hostTimerSequence (detachTimerFromSequences t h))"
  by (simp add: detachTimerFromSequences_def Let_def split: option.split)

lemma detach_sequences:
  assumes seqs: "seqs_ok h"
    and idx: "\<And>i. t \<in> sequence_timers h i \<Longrightarrow> om_find (hostTimerSequence h) t = Some i"
  shows "seqs_ok (detachTimerFromSequences t h)"
    and "sequence_timers (detachTimerFromSequences t h) i = sequence_timers h i - {t}"
proof -
  have "seqs_ok (detachTimerFromSequences t h) \<and>
      sequence_timers (detachTimerFromSequences t h) i = sequence_timers h i - {t}"
  proof (cases "om_find (hostTimerSequence h) t")
    case None
    then have "detachTimerFromSequences t h = h" by (simp add: detachTimerFromSequences_def)
    moreover have "t \<notin> sequence_timers h i" using idx [of i] None by auto
    ultimately show ?thesis using seqs by simp
  next
    case (Some j)
    have other: "t \<notin> sequence_timers h k" if "k \<noteq> j" for k using idx [of k] Some that by auto
    show ?thesis
    proof (cases "om_find (hostSequences h) j")
      case None
      then have eq: "hostSequences (detachTimerFromSequences t h) = hostSequences h"
        using Some by (simp add: detachTimerFromSequences_def Let_def)
      then have "sequence_timers (detachTimerFromSequences t h) = sequence_timers h"
        by (simp add: sequence_timers_def fun_eq_iff)
      moreover have "t \<notin> sequence_timers h i"
        using other [of i] None by (cases "i = j") (simp_all add: sequence_timers_def)
      moreover have "seqs_ok (detachTimerFromSequences t h)" using seqs eq by (simp add: seqs_ok_def)
      ultimately show ?thesis by simp
    next
      case (Some s)
      let ?ts = "filter (\<lambda>u. u \<noteq> t) (seqTimers s)"
      have j: "om_find (hostTimerSequence h) t = Some j" by fact
      have sok: "seqId s = j" "j \<noteq> 0" "distinct (seqTimers s)"
          "hostNextSequence h = 0 \<or> j < hostNextSequence h" and inv: "om_inv (hostSequences h)"
        using seqs Some unfolding seqs_ok_def by blast+
      have find: "om_find (hostSequences (detachTimerFromSequences t h)) =
          (om_find (hostSequences h))(j := if ?ts = [] then None else Some (s\<lparr>seqTimers := ?ts\<rparr>))"
        and inv': "om_inv (hostSequences (detachTimerFromSequences t h))"
        using j Some inv by (simp_all add: detachTimerFromSequences_def Let_def)
      have "seqs_ok (detachTimerFromSequences t h)"
        using seqs sok inv' unfolding seqs_ok_def find
        by (auto split: if_splits)
      moreover have "sequence_timers (detachTimerFromSequences t h) i = sequence_timers h i - {t}"
      proof (cases "i = j")
        case True
        have "set ?ts = set (seqTimers s) - {t}" by auto
        moreover have "sequence_timers (detachTimerFromSequences t h) i = set ?ts"
          using True by (auto simp: sequence_timers_def find filter_empty_conv)
        ultimately show ?thesis using True Some by (simp add: sequence_timers_def)
      next
        case False
        with other show ?thesis by (simp add: sequence_timers_def find)
      qed
      ultimately show ?thesis ..
    qed
  qed
  then show "seqs_ok (detachTimerFromSequences t h)"
    "sequence_timers (detachTimerFromSequences t h) i = sequence_timers h i - {t}" by blast+
qed

text \<open>What erasing the calls of the timers \<open>K\<close> does, when they are no tasks afterwards.\<close>

definition erased :: "u64 set \<Rightarrow> GameplayHost \<Rightarrow> GameplayHost \<Rightarrow> bool" where
  "erased K h h' \<longleftrightarrow>
     (\<forall>t. om_find (hostTimerPayload h') t = (if t \<in> K then None else om_find (hostTimerPayload h) t)) \<and>
     (\<forall>p. om_find (hostCalls h') p =
        (if \<exists>t \<in> K. om_find (hostTimerPayload h) t = Some p then None else om_find (hostCalls h) p)) \<and>
     (\<forall>t. om_find (host_tasks h') t = (if t \<in> K then None else om_find (host_tasks h) t)) \<and>
     nextId (rtScheduler (hostCore h')) = nextId (rtScheduler (hostCore h)) \<and>
     (\<forall>i. sequence_timers h' i = sequence_timers h i - K) \<and>
     hostSubscriptions h' = hostSubscriptions h \<and> hostNextPayload h' = hostNextPayload h \<and>
     hostNextSubscription h' = hostNextSubscription h \<and> hostNextSequence h' = hostNextSequence h \<and>
     hostCore h' = (hostCore h)\<lparr>rtScheduler := rtScheduler (hostCore h')\<rparr>"

lemma erased_refl: "erased {} h h"
  by (simp add: erased_def)

lemma erased_trans: "erased K h g \<Longrightarrow> erased L g h' \<Longrightarrow> erased (K \<union> L) h h'"
  unfolding erased_def by (intro conjI) (simp, auto, metis GameplayRuntime.ext_inject GameplayRuntime.surjective GameplayRuntime.update_convs(4))

lemma seq_indexD:
  assumes "seq_index S h"
  shows "om_inv (hostTimerSequence h)" "om_find (hostTimerSequence h) t = Some i \<longleftrightarrow> t \<in> S i"
    "t \<in> S i \<Longrightarrow> om_find (hostTimerPayload h) t \<noteq> None"
  using assms unfolding seq_index_def by blast+

lemma cancel_tasks:
  assumes "sched_inv s"
  shows "om_find (tasks (snd (scheduler_cancel k s))) = (om_find (tasks s))(k := None)"
    and "nextId (snd (scheduler_cancel k s)) = nextId s"
  by (auto simp: scheduler_cancel_def fun_eq_iff split: option.split)

lemma eraseCall_effect:
  assumes base: "host_base h" and idx: "seq_index S h" and sub: "\<And>i. sequence_timers h i \<subseteq> S i"
    and cancel: "c \<or> om_find (host_tasks h) k = None"
  shows "host_base (snd (eraseCall k c h))" and "erased {k} h (snd (eraseCall k c h))"
    and "seq_index (\<lambda>i. S i - {k}) (snd (eraseCall k c h))"
    and "armed h \<Longrightarrow> armed (snd (eraseCall k c h))"
    and "fst (eraseCall k c h) \<longleftrightarrow> om_find (hostTimerPayload h) k \<noteq> None"
proof -
  note D = host_baseD [OF base] and I = seq_indexD [OF idx]
  let ?h' = "snd (eraseCall k c h)"
  show "fst (eraseCall k c h) \<longleftrightarrow> om_find (hostTimerPayload h) k \<noteq> None"
    by (simp add: eraseCall_def Let_def split: option.split)
  have "host_base ?h' \<and> erased {k} h ?h' \<and> seq_index (\<lambda>i. S i - {k}) ?h' \<and> (armed h \<longrightarrow> armed ?h')"
  proof (cases "om_find (hostTimerPayload h) k")
    case None
    then have eq: "?h' = h" by (simp add: eraseCall_def)
    have "om_find (host_tasks h) k = None"
      using D(7) None unfolding tasks_linked_def by (metis not_None_eq)
    moreover have notin: "k \<notin> S i" for i using I(3) None by blast
    moreover have "S = (\<lambda>i. S i - {k})" using notin by auto
    moreover have "k \<notin> sequence_timers h i" for i using notin sub by blast
    ultimately show ?thesis
      using base idx None unfolding eq erased_def by (auto simp: fun_eq_iff)
  next
    case (Some p)
    define s' where "s' = (if c then snd (scheduler_cancel k (rtScheduler (hostCore h))) else rtScheduler (hostCore h))"
    define g where "g = (with_scheduler s' h)\<lparr>hostTimerPayload := om_erase k (hostTimerPayload h),
        hostCalls := om_erase p (hostCalls h)\<rparr>"
    have h': "?h' = detachTimerFromSequences k g"
      using Some by (cases c) (simp_all add: eraseCall_def g_def s'_def Let_def)
    have s': "sched_inv s'" "om_find (tasks s') = (om_find (host_tasks h))(k := None)"
        "nextId s' = nextId (rtScheduler (hostCore h))"
      using cancel D(2) sched_inv_cancel cancel_tasks [of "rtScheduler (hostCore h)" k]
      by (auto simp: s'_def fun_eq_iff)
    have gseq: "sequence_timers g = sequence_timers h" by (simp add: g_def sequence_timers_def fun_eq_iff)
    have gok: "seqs_ok g" using D(6) by (simp add: seqs_ok_def g_def)
    have gidx: "om_find (hostTimerSequence g) k = Some i"
      if "k \<in> sequence_timers g i" for i
      using that sub [of i] I(2) [of k i] unfolding gseq by (auto simp: g_def)
    have dt: "seqs_ok (detachTimerFromSequences k g)"
      "sequence_timers (detachTimerFromSequences k g) i = sequence_timers g i - {k}" for i
      using detach_sequences [OF gok] gidx by blast+
    have rt: "runtime_inv (hostCore ?h')"
      using D(1) s'(1) by (simp add: h' g_def runtime_inv_def)
    have find: "om_find (hostTimerPayload ?h') = (om_find (hostTimerPayload h))(k := None)"
      "om_find (hostCalls ?h') = (om_find (hostCalls h))(p := None)"
      "om_find (host_tasks ?h') = (om_find (host_tasks h))(k := None)"
      by (simp_all add: h' g_def s'(2))
    obtain d where d: "om_find (hostCalls h) p = Some d" "callTimer d = k"
      using Some timer_payload_find [OF D(4)] by blast
    have calls: "calls_ok ?h'"
      unfolding calls_ok_def find
    proof (intro conjI allI impI)
      show "om_inv (hostCalls ?h')" "om_inv (hostTimerPayload ?h')"
        using D(9,10) by (simp_all add: h' g_def)
      fix q e assume "((om_find (hostCalls h))(p := None)) q = Some e"
      then have "om_find (hostCalls h) q = Some e" by (simp split: if_splits)
      from calls_okD [OF D(4) this] show "callPayload e = q" "validCall e"
        "hostNextPayload ?h' = 0 \<or> q < hostNextPayload ?h'" by (simp_all add: h' g_def)
    next
      fix t q
      show "((om_find (hostTimerPayload h))(k := None)) t = Some q \<longleftrightarrow>
          (\<exists>c. ((om_find (hostCalls h))(p := None)) q = Some c \<and> callTimer c = t)"
        using timer_payload_find [OF D(4), of t q] timer_payload_find [OF D(4), of k q] Some d
          timer_payload_find [OF D(4), of t p]
        by auto
    qed
    have "subs_ok ?h'" using D(5) by (simp add: subs_ok_def h' g_def)
    moreover have "seqs_ok ?h'" unfolding h' by (rule dt(1))
    moreover have "tasks_linked ?h'" using D(7) unfolding tasks_linked_def find by auto
    moreover have "timers_below ?h'"
      using D(8) unfolding timers_below_def find by (auto simp: h' g_def s'(3))
    ultimately have "host_base ?h'" using rt calls by (simp add: host_base_def)
    moreover have "\<forall>i. sequence_timers ?h' i = sequence_timers h i - {k}"
      unfolding h' dt(2) gseq by simp
    then have "erased {k} h ?h'"
      using Some unfolding erased_def find by (auto simp: h' g_def s'(3))
    moreover have "seq_index (\<lambda>i. S i - {k}) ?h'"
      using I unfolding seq_index_def find
      by (auto simp: h' detach_index detach_index_inv g_def)
    moreover have "armed h \<longrightarrow> armed ?h'" unfolding armed_def find by auto
    ultimately show ?thesis by blast
  qed
  then show "host_base ?h'" "erased {k} h ?h'" "seq_index (\<lambda>i. S i - {k}) ?h'" "armed h \<Longrightarrow> armed ?h'"
    by blast+
qed

end
