(* ===== verification/Host_Operations.thy ===== *)
theory Host_Operations
  imports Host_Invariant
begin

text \<open>
  What the remaining operations of the host do to the invariant: cancelling, starting a
  sequence call by call with its clean-up on failure, subscriptions, events and the drain of
  everything due.
\<close>

section \<open>Cancelling several calls\<close>

lemma erase_fold:
  fixes ts :: "u64 list"
  assumes "host_base h" and "seq_index S h" and "\<And>i. sequence_timers h i \<subseteq> S i"
  defines "h' \<equiv> fold (\<lambda>t g. snd (eraseCall t True g)) ts h"
  shows "host_base h' \<and> erased (set ts) h h' \<and> seq_index (\<lambda>i. S i - set ts) h' \<and> (armed h \<longrightarrow> armed h')"
  using assms(1-3) unfolding h'_def
proof (induction ts arbitrary: h S)
  case Nil
  then show ?case by (simp add: erased_refl)
next
  case (Cons t ts)
  let ?g = "snd (eraseCall t True h)"
  note E = eraseCall_effect [OF Cons.prems, of True t, simplified]
  have "sequence_timers ?g i \<subseteq> S i - {t}" for i
    using E(2) Cons.prems(3) [of i] unfolding erased_def by auto
  from Cons.IH [OF E(1,3) this] E(4) erased_trans [OF E(2)] show ?case
    by (simp add: Diff_insert2 [symmetric] insert_Diff_if)
qed

lemma sequence_timers_other:
  "hostSequences h' = hostSequences h \<Longrightarrow> sequence_timers h' = sequence_timers h"
  by (simp add: sequence_timers_def fun_eq_iff)

lemma cancelSequence_effect:
  assumes inv: "host_inv h" and s: "om_find (hostSequences h) i = Some s"
  defines "h' \<equiv> snd (cancelSequence i h)"
  shows "host_inv h'" and "erased (set (seqTimers s)) h h'" and "armed h \<Longrightarrow> armed h'"
    and "om_find (hostSequences h') i = None" and "fst (cancelSequence i h)"
proof -
  let ?K = "set (seqTimers s)"
  define g where "g = fold (\<lambda>t g. snd (eraseCall t True g)) (seqTimers s) h"
  have base: "host_base h" and idx: "seq_index (sequence_timers h) h" using inv by (simp_all add: host_inv_def)
  have E: "host_base g" "erased ?K h g" "seq_index (\<lambda>i. sequence_timers h i - ?K) g" "armed h \<longrightarrow> armed g"
    using erase_fold [OF base idx order_refl, of "seqTimers s"] by (simp_all add: g_def)
  have h': "h' = g\<lparr>hostSequences := om_erase i (hostSequences g)\<rparr>"
    using s by (simp add: h'_def cancelSequence_def g_def Let_def)
  have "sequence_timers h i = ?K" using s by (simp add: sequence_timers_def)
  moreover have timers: "sequence_timers g j = sequence_timers h j - ?K" for j
    using E(2) unfolding erased_def by blast
  ultimately have "sequence_timers g i = {}" by simp
  then have gone: "om_find (hostSequences g) i = None"
    using host_baseD(6) [OF E(1)] unfolding seqs_ok_def sequence_timers_def
    by (cases "om_find (hostSequences g) i") auto
  have finds: "om_find (hostSequences h') = om_find (hostSequences g)"
    using gone by (simp add: h' fun_eq_iff)
  then have same: "sequence_timers h' = sequence_timers g" by (simp add: sequence_timers_def fun_eq_iff)
  have "seqs_ok h'"
    using host_baseD(6) [OF E(1)] finds by (simp add: seqs_ok_def h')
  then have "host_base h'"
    using E(1) by (simp add: host_base_def h' calls_ok_def subs_ok_def tasks_linked_def timers_below_def)
  moreover have "seq_index (sequence_timers h') h'"
    using E(3) unfolding same seq_index_def by (simp add: h' timers)
  ultimately show "host_inv h'" by (simp add: host_inv_def)
  show "erased ?K h h'" using E(2) same by (simp add: erased_def h')
  show "armed h \<Longrightarrow> armed h'" using E(4) by (simp add: armed_def h')
  show "om_find (hostSequences h') i = None" using gone finds by simp
  show "fst (cancelSequence i h)" using s by (simp add: cancelSequence_def Let_def)
qed

lemma cancelCall_effect:
  assumes inv: "host_inv h"
  shows "host_inv (snd (cancelCall k h))" and "erased {k} h (snd (cancelCall k h))"
    and "armed h \<Longrightarrow> armed (snd (cancelCall k h))"
    and "fst (cancelCall k h) \<longleftrightarrow> om_find (hostTimerPayload h) k \<noteq> None"
proof -
  have base: "host_base h" and idx: "seq_index (sequence_timers h) h" using inv by (simp_all add: host_inv_def)
  note E = eraseCall_effect [OF base idx order_refl, of True k, simplified, folded cancelCall_def]
  have "sequence_timers (snd (cancelCall k h)) = (\<lambda>i. sequence_timers h i - {k})"
    using E(2) by (simp add: erased_def fun_eq_iff)
  with E show "host_inv (snd (cancelCall k h))" "erased {k} h (snd (cancelCall k h))"
    "armed h \<Longrightarrow> armed (snd (cancelCall k h))"
    "fst (cancelCall k h) \<longleftrightarrow> om_find (hostTimerPayload h) k \<noteq> None"
    by (auto simp: host_inv_def cancelCall_def)
qed

section \<open>Starting a sequence\<close>

text \<open>While the steps are scheduled: \<open>created\<close> are the timers of the open sequence \<open>i\<close>.\<close>

definition under_construction :: "u64 \<Rightarrow> u64 list \<Rightarrow> GameplayHost \<Rightarrow> bool" where
  "under_construction i created h \<longleftrightarrow>
     host_base h \<and> om_find (hostSequences h) i = None \<and> distinct created \<and>
     seq_index ((sequence_timers h)(i := set created)) h"

lemma under_construction_subset: "under_construction i created h \<Longrightarrow> sequence_timers h j \<subseteq> ((sequence_timers h)(i := set created)) j"
  by (auto simp: under_construction_def sequence_timers_def)

lemma index_put:
  assumes "host_base h" and "seq_index S h" and new: "\<And>j. k \<notin> S j"
    and call: "om_find (hostTimerPayload h) k \<noteq> None"
  shows "seq_index (S(i := insert k (S i)))
    (h\<lparr>hostTimerSequence := fst (om_emplace k i (hostTimerSequence h))\<rparr>)"
proof -
  note I = seq_indexD [OF assms(2)]
  have "om_find (hostTimerSequence h) k = None" using I(2) new by (metis not_None_eq)
  then show ?thesis
    using I call new unfolding seq_index_def
    by (auto simp: om_emplace_new)
qed

lemma base_put_index: "host_base h \<Longrightarrow> host_base (h\<lparr>hostTimerSequence := m\<rparr>)"
  by (simp add: host_base_def calls_ok_def subs_ok_def seqs_ok_def tasks_linked_def timers_below_def)

lemma under_construction_step:
  assumes "under_construction i created h"
    and k: "scheduleCall target callback due arguments interval n h = (k, h1)" "k \<noteq> 0"
  shows "under_construction i (created @ [k])
    (h1\<lparr>hostTimerSequence := fst (om_emplace k i (hostTimerSequence h1))\<rparr>)"
proof -
  let ?S = "(sequence_timers h)(i := set created)"
    and ?h2 = "h1\<lparr>hostTimerSequence := fst (om_emplace k i (hostTimerSequence h1))\<rparr>"
  have op: "host_base h" "om_find (hostSequences h) i = None" "distinct created" "seq_index ?S h"
    using assms(1) by (auto simp: under_construction_def)
  note C = scheduleCall_inv [OF op(1) k(1)]
  have none: "om_find (hostTimerPayload h) k = None" and some: "om_find (hostTimerPayload h1) k \<noteq> None"
  proof -
    show "om_find (hostTimerPayload h) k = None"
      using op(1) k(1) by (cases rule: scheduleCall_cases) (use k(2) add_call_inv(4) [OF op(1)] in auto)
    show "om_find (hostTimerPayload h1) k \<noteq> None"
      using op(1) k(1) by (cases rule: scheduleCall_cases) (use k(2) add_call_finds(2) [OF op(1)] in auto)
  qed
  have new: "k \<notin> ?S j" for j using seq_indexD(3) [OF op(4)] none by blast
  have "seq_index (?S(i := insert k (?S i))) ?h2"
    by (rule index_put [OF C(1)]) (use C(3) op(4) new some in auto)
  moreover have "?S(i := insert k (?S i)) = (sequence_timers ?h2)(i := set (created @ [k]))"
    using sequence_timers_other [of ?h2 h1] C(4) by simp
  moreover have "k \<notin> set created" using new [of i] by simp
  ultimately show "under_construction i (created @ [k]) ?h2"
    using op(2,3) C(6) base_put_index [OF C(1)] by (simp add: under_construction_def)
qed

lemma scheduleSteps_effect:
  assumes "under_construction i created h"
    and "scheduleSteps target i n cycle steps offset created h = (r, h')"
  shows "(armed h \<longrightarrow> armed h') \<and> hostNextSequence h' = hostNextSequence h \<and>
    (case r of
       Some timers \<Rightarrow> under_construction i timers h' \<and> hostSequences h' = hostSequences h \<and>
         length timers = length created + length steps
     | None \<Rightarrow> host_inv h')"
  using assms
proof (induction steps arbitrary: offset created h)
  case Nil
  then show ?case by auto
next
  case (Cons st steps)
  let ?S = "(sequence_timers h)(i := set created)"
  define due where "due = saturatedAdd offset (normalizedDelay (stepDelay st))"
  obtain k h1 where k: "scheduleCall target (stepCallback st) due (stepArguments st)
      (if n = 1 then 0 else cycle) n h = (k, h1)" by fastforce
  have op: "host_base h" "om_find (hostSequences h) i = None" "distinct created" "seq_index ?S h"
    using Cons.prems(1) by (auto simp: under_construction_def)
  note C = scheduleCall_inv [OF op(1) k]
  have S1: "(sequence_timers h1)(i := set created) = ?S" by (simp add: C(4))
  have op1: "under_construction i created h1" using op C by (simp add: under_construction_def)
  show ?case
  proof (cases "k = 0")
    case True
    let ?g = "fold (\<lambda>t g. snd (cancelCall t g)) created h1"
    have r: "r = None" "h' = ?g"
      using Cons.prems(2) k True by (simp_all add: due_def [symmetric])
    have "seq_index ?S h1" using C(3) op(4) by blast
    from erase_fold [OF C(1) this, of created] under_construction_subset [OF op1] S1
    have E: "host_base ?g" "erased (set created) h1 ?g" "seq_index (\<lambda>j. ?S j - set created) ?g"
      "armed h1 \<longrightarrow> armed ?g"
      by (simp_all add: cancelCall_def [abs_def])
    have timers: "sequence_timers ?g j = sequence_timers h j - set created" for j
      using E(2) unfolding erased_def C(4) by blast
    have "sequence_timers h i = {}" using op(2) by (simp add: sequence_timers_def)
    then have "(\<lambda>j. ?S j - set created) = sequence_timers ?g"
      by (auto simp: timers fun_eq_iff)
    with E have "host_inv ?g" by (simp add: host_inv_def)
    moreover have "hostNextSequence ?g = hostNextSequence h" using E(2) C(5) by (simp add: erased_def)
    ultimately show ?thesis using r E(4) C(2) by auto
  next
    case False
    let ?h2 = "h1\<lparr>hostTimerSequence := fst (om_emplace k i (hostTimerSequence h1))\<rparr>"
    have run: "scheduleSteps target i n cycle steps due (created @ [k]) ?h2 = (r, h')"
      using Cons.prems(2) k False by (simp add: due_def [symmetric])
    have "under_construction i (created @ [k]) ?h2"
      using Cons.prems(1) k False by (rule under_construction_step)
    from Cons.IH [OF this run] C(2,5,6) show ?thesis
      by (auto simp: armed_def split: option.splits)
  qed
qed

lemma startSequence_effect:
  assumes inv: "host_inv h" and eq: "startSequence target steps n h = (i, h')"
  shows "host_inv h'" and "armed h \<Longrightarrow> armed h'"
proof -
  have base: "host_base h" and idx: "seq_index (sequence_timers h) h" using inv by (simp_all add: host_inv_def)
  have "host_inv h' \<and> (armed h \<longrightarrow> armed h')"
  proof (cases "target = 0 \<or> steps = [] \<or> hostNextSequence h = 0 \<or> cycleLength steps 0 = None")
    case True
    with eq inv show ?thesis by (auto simp: startSequence_def split: if_splits)
  next
    case False
    then obtain cycle where cycle: "cycleLength steps 0 = Some cycle" by auto
    let ?id = "hostNextSequence h" and ?h0 = "h\<lparr>hostNextSequence := hostNextSequence h + 1\<rparr>"
    obtain r h1 where r: "scheduleSteps target ?id n cycle steps 0 [] ?h0 = (r, h1)" by fastforce
    have free: "om_find (hostSequences h) ?id = None"
      using host_baseD(6) [OF base] False unfolding seqs_ok_def by (metis less_irrefl not_Some_eq)
    have base0: "host_base ?h0"
      using base below_next [of "hostNextSequence h"] False
      by (auto simp: host_base_def calls_ok_def subs_ok_def seqs_ok_def tasks_linked_def timers_below_def)
    have same0: "sequence_timers ?h0 = sequence_timers h" by (rule sequence_timers_other) simp
    have "(sequence_timers h)(?id := {}) = sequence_timers h"
      using free by (simp add: sequence_timers_def fun_eq_iff)
    then have op0: "under_construction ?id [] ?h0"
      using base0 free idx by (simp add: under_construction_def same0) (simp add: seq_index_def)
    note E = scheduleSteps_effect [OF op0 r]
    show ?thesis
    proof (cases r)
      case None
      with eq False cycle r E show ?thesis by (auto simp: startSequence_def Let_def armed_def)
    next
      case (Some timers)
      with E have op: "under_construction ?id timers h1" and seqs: "hostSequences h1 = hostSequences h"
        and len: "length timers = length steps" and n1: "hostNextSequence h1 = ?id + 1"
        and arm: "armed ?h0 \<longrightarrow> armed h1" by auto
      let ?s = "\<lparr>seqId = ?id, seqTimers = timers\<rparr>"
      have b1: "host_base h1" and d: "distinct timers"
        and i1: "seq_index ((sequence_timers h1)(?id := set timers)) h1"
        and f1: "om_find (hostSequences h1) ?id = None"
        using op by (auto simp: under_construction_def)
      have h': "h' = h1\<lparr>hostSequences := om_put ?id ?s (hostSequences h1)\<rparr>"
        using eq False cycle r Some f1 by (auto simp: startSequence_def Let_def om_emplace_new)
      have find: "om_find (hostSequences h') = (om_find (hostSequences h1))(?id \<mapsto> ?s)"
        using host_baseD(12) [OF b1] by (simp add: h')
      have "timers \<noteq> []" using len False by auto
      then have "seqs_ok h'"
        using host_baseD(6) [OF b1] d False n1 word_less_plus_one [of ?id] host_baseD(12) [OF b1]
        unfolding seqs_ok_def find by (auto simp: h')
      then have "host_base h'"
        using b1 by (simp add: host_base_def h' calls_ok_def subs_ok_def tasks_linked_def timers_below_def)
      moreover have "sequence_timers h' = (sequence_timers h1)(?id := set timers)"
        by (auto simp: sequence_timers_def find fun_eq_iff)
      then have "seq_index (sequence_timers h') h'"
        using i1 by (simp add: seq_index_def h')
      ultimately show ?thesis using arm by (auto simp: host_inv_def armed_def h')
    qed
  qed
  then show "host_inv h'" "armed h \<Longrightarrow> armed h'" by blast+
qed

section \<open>Subscriptions and events\<close>

lemma subscribe_effect:
  assumes inv: "host_inv h"
  shows "host_inv (snd (subscribe topic target callback priority h))"
    and "armed h \<Longrightarrow> armed (snd (subscribe topic target callback priority h))"
proof -
  let ?h' = "snd (subscribe topic target callback priority h)" and ?i = "hostNextSubscription h"
  have base: "host_base h" and idx: "seq_index (sequence_timers h) h" using inv by (simp_all add: host_inv_def)
  have subs: "subs_ok h" using host_baseD(5) [OF base] .
  have "host_inv ?h' \<and> (armed h \<longrightarrow> armed ?h')"
  proof (cases "topic = '''' \<or> target = 0 \<or> callback = '''' \<or> ?i = 0")
    case True
    with inv show ?thesis by (auto simp: subscribe_def)
  next
    case False
    let ?s = "\<lparr>subId = ?i, subTopic = topic, subTarget = target, subCallback = callback, subPriority = priority\<rparr>"
    have free: "om_find (hostSubscriptions h) ?i = None"
      using subs False unfolding subs_ok_def by (metis less_irrefl not_Some_eq)
    have h': "?h' = h\<lparr>hostNextSubscription := ?i + 1, hostSubscriptions := om_put ?i ?s (hostSubscriptions h)\<rparr>"
      using False free by (simp add: subscribe_def Let_def om_emplace_new)
    have "subs_ok ?h'"
      using subs False below_next [of ?i] word_less_plus_one [of ?i]
      unfolding subs_ok_def h' by auto
    then have "host_base ?h'"
      using base by (simp add: host_base_def h' calls_ok_def seqs_ok_def tasks_linked_def timers_below_def)
    moreover have "sequence_timers ?h' = sequence_timers h" by (rule sequence_timers_other) (simp add: h')
    ultimately show ?thesis using idx by (simp add: host_inv_def seq_index_def armed_def h')
  qed
  then show "host_inv ?h'" "armed h \<Longrightarrow> armed ?h'" by blast+
qed

lemma unsubscribe_effect:
  assumes inv: "host_inv h"
  shows "host_inv (snd (unsubscribe i h))" and "armed (snd (unsubscribe i h)) = armed h"
proof -
  have "subs_ok (snd (unsubscribe i h))"
    using host_baseD(5) inv by (auto simp: host_inv_def subs_ok_def unsubscribe_def)
  then have "host_base (snd (unsubscribe i h))"
    using inv by (simp add: host_inv_def host_base_def unsubscribe_def calls_ok_def seqs_ok_def
        tasks_linked_def timers_below_def)
  moreover have "sequence_timers (snd (unsubscribe i h)) = sequence_timers h"
    by (rule sequence_timers_other) (simp add: unsubscribe_def)
  ultimately show "host_inv (snd (unsubscribe i h))"
    using inv by (simp add: host_inv_def seq_index_def unsubscribe_def)
  show "armed (snd (unsubscribe i h)) = armed h" by (simp add: armed_def unsubscribe_def)
qed

lemma with_events_simps [simp]:
  "hostCore (with_events q h) = (hostCore h)\<lparr>rtEvents := q\<rparr>"
  "hostNextPayload (with_events q h) = hostNextPayload h"
  "hostNextSubscription (with_events q h) = hostNextSubscription h"
  "hostNextSequence (with_events q h) = hostNextSequence h"
  "hostCalls (with_events q h) = hostCalls h"
  "hostTimerPayload (with_events q h) = hostTimerPayload h"
  "hostSubscriptions (with_events q h) = hostSubscriptions h"
  "hostSequences (with_events q h) = hostSequences h"
  "hostTimerSequence (with_events q h) = hostTimerSequence h"
  by (simp_all add: with_events_def)

text \<open>The host's own data refer to the core only through the tasks and their counter.\<close>

definition same_host :: "GameplayHost \<Rightarrow> GameplayHost \<Rightarrow> bool" where
  "same_host h h' \<longleftrightarrow>
     h' = h\<lparr>hostCore := hostCore h'\<rparr> \<and> host_tasks h' = host_tasks h \<and>
     nextId (rtScheduler (hostCore h')) = nextId (rtScheduler (hostCore h))"

lemma same_host_fields:
  assumes "same_host h h'"
  shows "hostNextPayload h' = hostNextPayload h" "hostNextSubscription h' = hostNextSubscription h"
    "hostNextSequence h' = hostNextSequence h" "hostCalls h' = hostCalls h"
    "hostTimerPayload h' = hostTimerPayload h" "hostSubscriptions h' = hostSubscriptions h"
    "hostSequences h' = hostSequences h" "hostTimerSequence h' = hostTimerSequence h"
    "host_tasks h' = host_tasks h"
    "nextId (rtScheduler (hostCore h')) = nextId (rtScheduler (hostCore h))"
  using assms unfolding same_host_def
  by (metis (no_types, lifting) GameplayHost.select_convs GameplayHost.surjective GameplayHost.update_convs(1))+

lemma same_host_inv:
  assumes "host_inv h" and "same_host h h'" and "runtime_inv (hostCore h')"
  shows "host_inv h'" and "armed h' = armed h"
proof -
  note F = same_host_fields [OF assms(2)]
  have "sequence_timers h' = sequence_timers h" by (rule sequence_timers_other) (rule F)
  moreover have "host_base h'"
    using assms(1,3) by (simp add: host_inv_def host_base_def calls_ok_def subs_ok_def seqs_ok_def
        tasks_linked_def timers_below_def F)
  ultimately show "host_inv h'" using assms(1) by (simp add: host_inv_def seq_index_def F)
  show "armed h' = armed h" by (simp add: armed_def F)
qed

lemma with_events_inv:
  assumes "host_inv h" and "evq_inv q"
  shows "host_inv (with_events q h)" and "armed (with_events q h) = armed h"
proof -
  have "same_host h (with_events q h)" by (simp add: same_host_def with_events_def)
  moreover have "runtime_inv (hostCore (with_events q h))"
    using assms by (simp add: host_inv_def host_base_def runtime_inv_def)
  ultimately show "host_inv (with_events q h)" "armed (with_events q h) = armed h"
    using same_host_inv [OF assms(1)] by blast+
qed

lemma host_events_inv: "host_inv h \<Longrightarrow> evq_inv (rtEvents (hostCore h))"
  by (simp add: host_inv_def host_base_def runtime_inv_def)

lemma host_enqueue_effect:
  assumes "host_inv h"
  shows "host_inv (snd (host_enqueue target topic arguments delay h))"
    and "armed (snd (host_enqueue target topic arguments delay h)) = armed h"
  using with_events_inv [OF assms evq_inv_enqueue [OF host_events_inv [OF assms]]]
  by (auto simp: host_enqueue_def split_beta)

lemma cancelEvent_effect:
  assumes "host_inv h"
  shows "host_inv (snd (cancelEvent n h))" and "armed (snd (cancelEvent n h)) = armed h"
  using with_events_inv [OF assms evq_inv_cancel [OF host_events_inv [OF assms]]]
  by (auto simp: cancelEvent_def split_beta)

section \<open>Draining what is due\<close>

text \<open>
  While the fired tasks are dispatched the tasks that have fired for the last time are gone
  from the scheduler but their calls are still there: \<open>settling fired h\<close> allows it for those.
\<close>

definition settling :: "FiredTask list \<Rightarrow> GameplayHost \<Rightarrow> bool" where
  "settling fired h \<longleftrightarrow>
     host_inv h \<and>
     (\<forall>f \<in> set fired. om_find (hostTimerPayload h) (firedId f) = Some (firedPayload f)) \<and>
     sorted_wrt (\<lambda>f g. repeats f \<or> firedId f \<noteq> firedId g) fired \<and>
     (\<forall>f \<in> set fired. \<not> repeats f \<longrightarrow> om_find (host_tasks h) (firedId f) = None)"

definition final_ids :: "FiredTask list \<Rightarrow> u64 set" where
  "final_ids fired = {firedId f |f. f \<in> set fired \<and> \<not> repeats f}"

lemma final_ids_Cons:
  "final_ids (f # fired) = (if repeats f then final_ids fired else insert (firedId f) (final_ids fired))"
  by (auto simp: final_ids_def)

text \<open>The dispatch of a fired task, read off the calls before the run.\<close>

definition dispatch_of :: "GameplayHost \<Rightarrow> FiredTask \<Rightarrow> ScriptDispatchCall" where
  "dispatch_of h f = timerDispatch (the (om_find (hostCalls h) (firedPayload f))) f"

lemma settling_call:
  assumes "settling fired h" and "f \<in> set fired"
  obtains c where "om_find (hostCalls h) (firedPayload f) = Some c" and "callTimer c = firedId f"
  using assms timer_payload_find [of h "firedId f" "firedPayload f"]
  unfolding settling_def host_inv_def host_base_def by blast

lemma dispatchTimers_effect:
  assumes "settling fired h"
  shows "fst (dispatchTimers fired h) = map (dispatch_of h) fired \<and>
    host_inv (snd (dispatchTimers fired h)) \<and>
    erased (final_ids fired) h (snd (dispatchTimers fired h))"
  using assms
proof (induction fired arbitrary: h)
  case Nil
  then show ?case by (simp add: settling_def erased_refl final_ids_def)
next
  case (Cons f fired)
  note S = Cons.prems [unfolded settling_def]
  obtain c where c: "om_find (hostCalls h) (firedPayload f) = Some c" "callTimer c = firedId f"
    by (rule settling_call [OF Cons.prems]) auto
  have inv: "host_inv h" and base: "host_base h" and idx: "seq_index (sequence_timers h) h"
    using S by (simp_all add: host_inv_def)
  show ?case
  proof (cases "repeats f")
    case True
    have "settling fired h" using S by (simp add: settling_def)
    from Cons.IH [OF this] c True show ?thesis
      by (simp add: split_beta Let_def dispatch_of_def final_ids_Cons)
  next
    case False
    define g where "g = snd (eraseCall (firedId f) False h)"
    have "om_find (host_tasks h) (firedId f) = None" using S False by simp
    then have E: "host_base g" "erased {firedId f} h g"
        "seq_index (\<lambda>i. sequence_timers h i - {firedId f}) g"
      using eraseCall_effect [OF base idx order_refl, of False "firedId f"] by (simp_all add: g_def)
    have "sequence_timers g = (\<lambda>i. sequence_timers h i - {firedId f})"
      using E(2) by (simp add: erased_def fun_eq_iff)
    then have ginv: "host_inv g" using E by (simp add: host_inv_def)
    have ne: "firedId e \<noteq> firedId f" if "e \<in> set fired" for e using S False that by auto
    have call_e: "om_find (hostCalls g) (firedPayload e) = om_find (hostCalls h) (firedPayload e)"
      if e: "e \<in> set fired" for e
    proof -
      obtain d where d: "om_find (hostCalls h) (firedPayload e) = Some d" "callTimer d = firedId e"
        by (rule settling_call [OF Cons.prems, of e]) (use e in auto)
      have "om_find (hostTimerPayload h) (firedId f) \<noteq> Some (firedPayload e)"
        using timer_payload_find [OF host_baseD(4) [OF base], of "firedId f" "firedPayload e"] d ne [OF e]
        by auto
      then show ?thesis using E(2) by (simp add: erased_def)
    qed
    have "settling fired g"
      using S E(2) ginv ne unfolding settling_def erased_def by auto
    note IH = Cons.IH [OF this]
    have "map (dispatch_of g) fired = map (dispatch_of h) fired"
      by (simp add: dispatch_of_def call_e)
    moreover have "erased (insert (firedId f) (final_ids fired)) h (snd (dispatchTimers fired g))"
      using erased_trans [OF E(2), of "final_ids fired"] IH by simp
    ultimately show ?thesis
      using IH c False by (simp add: split_beta Let_def dispatch_of_def final_ids_Cons g_def [symmetric])
  qed
qed

text \<open>The host between the run of the scheduler and the dispatch.\<close>

lemma runDue_settling:
  assumes inv: "host_inv h" and run: "runDue now b (rtScheduler (hostCore h)) = (fired, s)"
  shows "settling fired (with_scheduler s h)"
    and "no_overflow now (rtScheduler (hostCore h)) \<Longrightarrow> armed h \<Longrightarrow>
      \<forall>k p. om_find (hostTimerPayload h) k = Some p \<longrightarrow> k \<notin> final_ids fired \<longrightarrow>
        (\<exists>t. om_find (tasks s) k = Some t \<and> payload t = p)"
    and "nextId s = nextId (rtScheduler (hostCore h))"
proof -
  let ?s = "rtScheduler (hostCore h)" and ?g = "with_scheduler s h"
  have base: "host_base h" and idx: "seq_index (sequence_timers h) h" using inv by (simp_all add: host_inv_def)
  note D = host_baseD [OF base]
  from runDueLoop_fired_from [OF D(2), of now b "[]"] run
  have F: "fired_from ?s fired s" and n: "nextId s = nextId ?s" by (auto simp: runDue_def)
  then show "nextId s = nextId ?s" by simp
  have "sched_inv s" using sched_inv_runDue [OF D(2), of now b] run by simp
  then have "runtime_inv (hostCore ?g)" using D(1) by (simp add: runtime_inv_def)
  moreover have "tasks_linked ?g"
    unfolding tasks_linked_def
  proof (intro allI impI)
    fix k t' assume "om_find (host_tasks ?g) k = Some t'"
    then have "om_find (tasks s) k = Some t'" by simp
    then obtain t where "om_find (tasks ?s) k = Some t" "payload t' = payload t"
      using F unfolding fired_from_def by blast
    with D(7) show "om_find (hostTimerPayload ?g) k = Some (payload t')"
      by (simp add: tasks_linked_def)
  qed
  moreover have "timers_below ?g" using D(8) by (simp add: timers_below_def n)
  ultimately have "host_base ?g"
    using base by (simp add: host_base_def calls_ok_def subs_ok_def seqs_ok_def)
  moreover have "sequence_timers ?g = sequence_timers h" by (rule sequence_timers_other) simp
  ultimately have "host_inv ?g" using idx by (simp add: host_inv_def seq_index_def)
  moreover have "\<forall>f \<in> set fired. om_find (hostTimerPayload h) (firedId f) = Some (firedPayload f)"
  proof
    fix f assume "f \<in> set fired"
    then obtain t where "om_find (tasks ?s) (firedId f) = Some t" "payload t = firedPayload f"
      using F unfolding fired_from_def by blast
    with D(7) show "om_find (hostTimerPayload h) (firedId f) = Some (firedPayload f)"
      by (simp add: tasks_linked_def)
  qed
  ultimately show "settling fired ?g"
    using F unfolding settling_def fired_from_def by simp
  assume no: "no_overflow now ?s" and arm: "armed h"
  have L: "lost_only_final ?s fired s"
    using runDueLoop_lost_only_final [OF D(2) no, of b] run by (simp add: runDue_def)
  show "\<forall>k p. om_find (hostTimerPayload h) k = Some p \<longrightarrow> k \<notin> final_ids fired \<longrightarrow>
      (\<exists>t. om_find (tasks s) k = Some t \<and> payload t = p)"
  proof (intro allI impI)
    fix k p assume k: "om_find (hostTimerPayload h) k = Some p" "k \<notin> final_ids fired"
    then obtain t where t: "om_find (tasks ?s) k = Some t" "payload t = p"
      using arm unfolding armed_def by blast
    have "om_find (tasks s) k \<noteq> None"
      using L t(1) k(2) unfolding lost_only_final_def final_ids_def by blast
    then obtain t' where "om_find (tasks s) k = Some t'" by blast
    moreover from this F t have "payload t' = p" unfolding fired_from_def by (metis option.inject)
    ultimately show "\<exists>t. om_find (tasks s) k = Some t \<and> payload t = p" by blast
  qed
qed

text \<open>What \<open>drainDue\<close> returns and leaves.\<close>

lemma drainDue_effect:
  assumes inv: "host_inv h" and eq: "drainDue now tb eb h = (batch, h')"
    and run: "runDue now tb (rtScheduler (hostCore h)) = (fired, s)"
    and pop: "popDue now eb (rtEvents (hostCore h)) = (events, q)"
  shows "batchCalls batch = map (dispatch_of h) fired @ concat (map (dispatchEvent h) events)"
    and "batchTimers batch = length fired" and "batchEvents batch = length events"
    and "host_inv h'" and "no_overflow now (rtScheduler (hostCore h)) \<Longrightarrow> armed h \<Longrightarrow> armed h'"
    and "hostSubscriptions h' = hostSubscriptions h"
    and "om_find (hostTimerPayload h') k = (if k \<in> final_ids fired then None else om_find (hostTimerPayload h) k)"
proof -
  let ?g = "with_scheduler s h"
  note R = runDue_settling [OF inv run] and T = dispatchTimers_effect [OF runDue_settling(1) [OF inv run]]
  obtain calls g where d: "dispatchTimers fired ?g = (calls, g)" by fastforce
  have E: "erased (final_ids fired) ?g g" and ginv: "host_inv g" and calls: "calls = map (dispatch_of h) fired"
    using T d by (auto simp: dispatch_of_def)
  have ev: "rtEvents (hostCore g) = rtEvents (hostCore h)"
    using E unfolding erased_def by (metis GameplayRuntime.select_convs(5) GameplayRuntime.surjective
        GameplayRuntime.update_convs(4) with_scheduler_simps(1))
  have res: "batch = \<lparr>batchCalls = calls @ concat (map (dispatchEvent (with_events q g)) events),
      batchTimers = length fired, batchEvents = length events\<rparr>" "h' = with_events q g"
    using eq run pop d ev by (auto simp: drainDue_def Let_def)
  have subs: "hostSubscriptions g = hostSubscriptions h" using E by (simp add: erased_def)
  have "dispatchEvent (with_events q g) = dispatchEvent h"
    by (simp add: dispatchEvent_def subscribersOf_def subs fun_eq_iff)
  with res calls show "batchCalls batch = map (dispatch_of h) fired @ concat (map (dispatchEvent h) events)"
    "batchTimers batch = length fired" "batchEvents batch = length events" by simp_all
  have "evq_inv q" using evq_inv_popDue [OF host_events_inv [OF inv], of now eb] pop by simp
  then show "host_inv h'" using with_events_inv(1) [OF ginv] res(2) by simp
  show "hostSubscriptions h' = hostSubscriptions h" using subs res(2) by simp
  show payloads: "om_find (hostTimerPayload h') k =
      (if k \<in> final_ids fired then None else om_find (hostTimerPayload h) k)" for k
    using E res(2) by (simp add: erased_def)
  assume "no_overflow now (rtScheduler (hostCore h))" and "armed h"
  note A = R(2) [OF this]
  show "armed h'"
    unfolding armed_def
  proof (intro allI impI)
    fix k p assume "om_find (hostTimerPayload h') k = Some p"
    then have k: "k \<notin> final_ids fired" "om_find (hostTimerPayload h) k = Some p"
      by (simp_all add: payloads split: if_splits)
    with A obtain t where "om_find (tasks s) k = Some t" "payload t = p" by blast
    moreover have "om_find (host_tasks h') k = om_find (tasks s) k"
      using E k(1) res(2) by (simp add: erased_def)
    ultimately show "\<exists>t. om_find (host_tasks h') k = Some t \<and> payload t = p" by simp
  qed
qed

end
