(* ===== verification/Host_Restore.thy ===== *)
theory Host_Restore
  imports Host_Operations
begin

text \<open>
  \<open>snapshot\<close> and \<open>restore\<close> of the host: the loops of \<open>restore\<close> as maps filled entry by entry,
  the snapshot law in both directions, and the interpretation of the snapshot contract.
\<close>

section \<open>Maps filled entry by entry\<close>

definition om_fill :: "('c \<Rightarrow> 'k::linorder) \<Rightarrow> ('c \<Rightarrow> 'v) \<Rightarrow> 'c list \<Rightarrow> ('k, 'v) omap \<Rightarrow> ('k, 'v) omap" where
  "om_fill f g cs m = fold (\<lambda>c. om_put (f c) (g c)) cs m"

lemma om_fill_simps [simp]:
  "om_fill f g [] m = m" "om_fill f g (c # cs) m = om_fill f g cs (om_put (f c) (g c) m)"
  by (simp_all add: om_fill_def)

lemma om_fill_append: "om_fill f g (cs @ ds) m = om_fill f g ds (om_fill f g cs m)"
  by (simp add: om_fill_def)

lemma om_inv_fill: "om_inv m \<Longrightarrow> om_inv (om_fill f g cs m)"
  by (induction cs arbitrary: m) auto

lemma om_find_fill:
  "om_inv m \<Longrightarrow> distinct (map f cs) \<Longrightarrow>
   om_find (om_fill f g cs m) k = (case map_of (map (\<lambda>c. (f c, g c)) cs) k of Some v \<Rightarrow> Some v | None \<Rightarrow> om_find m k)"
proof (induction cs arbitrary: m)
  case Nil
  then show ?case by simp
next
  case (Cons c cs)
  have "map_of (map (\<lambda>c. (f c, g c)) cs) (f c) = None"
    using Cons.prems(2) by (auto simp: map_of_eq_None_iff image_image)
  with Cons show ?case by (auto split: option.split)
qed

lemma map_of_keys:
  "distinct (map f cs) \<Longrightarrow> map_of (map (\<lambda>c. (f c, g c)) cs) k = Some v \<longleftrightarrow> (\<exists>c \<in> set cs. f c = k \<and> g c = v)"
  by (subst map_of_eq_Some_iff) (auto simp: comp_def)

lemma om_find_fill_empty:
  "distinct (map f cs) \<Longrightarrow> om_find (om_fill f g cs []) k = Some v \<longleftrightarrow> (\<exists>c \<in> set cs. f c = k \<and> g c = v)"
  by (simp add: om_find_fill map_of_keys [symmetric] split: option.split)

lemma om_unique:
  "om_inv m \<Longrightarrow> om_inv n \<Longrightarrow> (\<And>k v. om_find m k = Some v \<longleftrightarrow> om_find n k = Some v) \<Longrightarrow> m = n"
  by (rule omap.entries_unique) (auto simp: fun_eq_iff, metis option.exhaust)

lemma om_values_keys:
  assumes "om_inv m" and "\<And>k v. om_find m k = Some v \<Longrightarrow> f v = k"
  shows "map f (map snd m) = map fst m" and "distinct (map f (map snd m))"
proof -
  show eq: "map f (map snd m) = map fst m" using assms om_find_iff [OF assms(1)] by auto
  show "distinct (map f (map snd m))" using assms(1) unfolding eq om_inv_def by (simp add: strict_sorted_iff)
qed

lemma om_fill_values:
  assumes "om_inv m" and "\<And>k v. om_find m k = Some v \<Longrightarrow> f v = k"
  shows "om_fill f (\<lambda>v. v) (map snd m) [] = m"
proof (rule om_unique)
  show "om_inv (om_fill f (\<lambda>v. v) (map snd m) [])" by (simp add: om_inv_fill)
  fix k v
  have "(\<exists>w \<in> set (map snd m). f w = k \<and> w = v) \<longleftrightarrow> om_find m k = Some v"
  proof
    assume "\<exists>w \<in> set (map snd m). f w = k \<and> w = v"
    then obtain j where "(j, v) \<in> set m" "f v = k" by auto
    with assms om_find_iff [OF assms(1)] show "om_find m k = Some v" by metis
  next
    assume v: "om_find m k = Some v"
    then have "(k, v) \<in> set m" using om_find_iff [OF assms(1)] by blast
    with assms(2) [OF v] show "\<exists>w \<in> set (map snd m). f w = k \<and> w = v" by force
  qed
  then show "om_find (om_fill f (\<lambda>v. v) (map snd m) []) k = Some v \<longleftrightarrow> om_find m k = Some v"
    by (simp only: om_find_fill_empty [OF om_values_keys(2) [OF assms]])
qed (rule assms(1))

lemma fold_max_less:
  fixes x n :: u64
  shows "fold (\<lambda>c x. max x (f c)) cs x < n \<longleftrightarrow> x < n \<and> (\<forall>c \<in> set cs. f c < n)"
  by (induction cs arbitrary: x) auto

section \<open>The loops of \<open>restore\<close>\<close>

definition fold_max :: "('c \<Rightarrow> u64) \<Rightarrow> 'c list \<Rightarrow> u64 \<Rightarrow> u64" where
  "fold_max f cs x = fold (\<lambda>c x. max x (f c)) cs x"

lemma fold_max_simps [simp]: "fold_max f [] x = x" "fold_max f (c # cs) x = fold_max f cs (max x (f c))"
  by (simp_all add: fold_max_def)

lemma restoreCalls_iff:
  assumes "om_inv m" and "om_inv tm"
  shows "restoreCalls P cs m tm x = Some r \<longleftrightarrow>
    (\<forall>c \<in> set cs. validCall c \<and> P (callTimer c) = Some (callPayload c)) \<and>
    distinct (map callPayload cs) \<and> distinct (map callTimer cs) \<and>
    (\<forall>c \<in> set cs. om_find m (callPayload c) = None \<and> om_find tm (callTimer c) = None) \<and>
    r = (om_fill callPayload (\<lambda>c. c) cs m, om_fill callTimer callPayload cs tm, fold_max callPayload cs x)"
  using assms
proof (induction cs arbitrary: m tm x)
  case Nil
  then show ?case by auto
next
  case (Cons c cs)
  show ?case
  proof (cases "validCall c \<and> P (callTimer c) = Some (callPayload c) \<and>
      om_find m (callPayload c) = None \<and> om_find tm (callTimer c) = None")
    case True
    then have "restoreCalls P (c # cs) m tm x =
        restoreCalls P cs (om_put (callPayload c) c m) (om_put (callTimer c) (callPayload c) tm)
          (max x (callPayload c))"
      by (simp add: om_emplace_new)
    with True Cons show ?thesis by (auto simp: image_iff)
  next
    case False
    then have "restoreCalls P (c # cs) m tm x = None"
      by (auto simp: om_emplace_def split: option.splits)
    with False show ?thesis by auto
  qed
qed

lemma restoreSubscriptions_iff:
  assumes "om_inv m"
  shows "restoreSubscriptions ss m x = Some r \<longleftrightarrow>
    (\<forall>s \<in> set ss. subId s \<noteq> 0 \<and> subTopic s \<noteq> '''' \<and> subTarget s \<noteq> 0 \<and> subCallback s \<noteq> '''') \<and>
    distinct (map subId ss) \<and> (\<forall>s \<in> set ss. om_find m (subId s) = None) \<and>
    r = (om_fill subId (\<lambda>s. s) ss m, fold_max subId ss x)"
  using assms
proof (induction ss arbitrary: m x)
  case Nil
  then show ?case by auto
next
  case (Cons s ss)
  show ?case
  proof (cases "subId s \<noteq> 0 \<and> subTopic s \<noteq> '''' \<and> subTarget s \<noteq> 0 \<and> subCallback s \<noteq> '''' \<and>
      om_find m (subId s) = None")
    case True
    then have "restoreSubscriptions (s # ss) m x =
        restoreSubscriptions ss (om_put (subId s) s m) (max x (subId s))"
      by (simp add: om_emplace_new)
    with True Cons show ?thesis by (auto simp: image_iff)
  next
    case False
    then have "restoreSubscriptions (s # ss) m x = None"
      by (auto simp: om_emplace_def split: option.splits)
    with False show ?thesis by auto
  qed
qed

lemma restoreSequenceTimers_iff:
  assumes "om_inv m"
  shows "restoreSequenceTimers i tp ts U m = Some r \<longleftrightarrow>
    (\<forall>t \<in> set ts. om_find tp t \<noteq> None \<and> t \<notin> U \<and> om_find m t = None) \<and> distinct ts \<and>
    r = om_fill (\<lambda>t. t) (\<lambda>t. i) ts m"
  using assms
proof (induction ts arbitrary: m U)
  case Nil
  then show ?case by auto
next
  case (Cons t ts)
  show ?case
  proof (cases "om_find tp t \<noteq> None \<and> t \<notin> U \<and> om_find m t = None")
    case True
    then have "restoreSequenceTimers i tp (t # ts) U m =
        restoreSequenceTimers i tp ts (insert t U) (om_put t i m)"
      by (auto simp: om_emplace_new)
    with True Cons show ?thesis by auto
  next
    case False
    then have "restoreSequenceTimers i tp (t # ts) U m = None"
      by (auto simp: om_emplace_def split: option.splits)
    with False show ?thesis by auto
  qed
qed

definition timerPairs :: "ScriptSequenceState list \<Rightarrow> (u64 \<times> u64) list" where
  "timerPairs ss = concat (map (\<lambda>s. map (\<lambda>t. (t, seqId s)) (seqTimers s)) ss)"

lemma timerPairs_simps [simp]:
  "timerPairs [] = []" "timerPairs (s # ss) = map (\<lambda>t. (t, seqId s)) (seqTimers s) @ timerPairs ss"
  by (simp_all add: timerPairs_def)

lemma om_fill_pairs: "om_fill fst snd (map (\<lambda>t. (t, i)) ts) m = om_fill (\<lambda>t. t) (\<lambda>t. i) ts m"
  by (induction ts arbitrary: m) simp_all

lemma om_find_fill_const:
  "om_inv m \<Longrightarrow> om_find (om_fill (\<lambda>t. t) (\<lambda>t. i) ts m) k = (if k \<in> set ts then Some i else om_find m k)"
  by (induction ts arbitrary: m) auto

lemma restoreSequences_iff:
  assumes "om_inv q" and "om_inv m"
  shows "restoreSequences tp ss q m x = Some r \<longleftrightarrow>
    (\<forall>s \<in> set ss. seqId s \<noteq> 0 \<and> seqTimers s \<noteq> [] \<and> om_find q (seqId s) = None \<and>
       (\<forall>t \<in> set (seqTimers s). om_find tp t \<noteq> None \<and> om_find m t = None)) \<and>
    distinct (map seqId ss) \<and> distinct (map fst (timerPairs ss)) \<and>
    r = (om_fill seqId (\<lambda>s. s) ss q, om_fill fst snd (timerPairs ss) m, fold_max seqId ss x)"
  using assms
proof (induction ss arbitrary: q m x)
  case Nil
  then show ?case by auto
next
  case (Cons s ss)
  let ?m = "om_fill (\<lambda>t. t) (\<lambda>t. seqId s) (seqTimers s) m"
  have fsts: "map fst (map (\<lambda>t. (t, seqId s)) (seqTimers s)) = seqTimers s" by (simp add: comp_def)
  have set_pairs: "fst ` set (timerPairs ss) = (\<Union>s \<in> set ss. set (seqTimers s))"
    by (auto simp: timerPairs_def image_iff)
  show ?case
  proof (cases "seqId s \<noteq> 0 \<and> seqTimers s \<noteq> [] \<and> om_find q (seqId s) = None \<and>
      (\<forall>t \<in> set (seqTimers s). om_find tp t \<noteq> None \<and> om_find m t = None) \<and> distinct (seqTimers s)")
    case True
    then have "restoreSequenceTimers (seqId s) tp (seqTimers s) {} m = Some ?m"
      using restoreSequenceTimers_iff [OF Cons.prems(2), of "seqId s" tp "seqTimers s" "{}" ?m] by blast
    then have "restoreSequences tp (s # ss) q m x =
        restoreSequences tp ss (om_put (seqId s) s q) ?m (max x (seqId s))"
      using True by (simp add: om_emplace_new)
    then have step: "restoreSequences tp (s # ss) q m x = Some r \<longleftrightarrow>
        restoreSequences tp ss (om_put (seqId s) s q) ?m (max x (seqId s)) = Some r" by simp
    have f1: "om_find (om_put (seqId s) s q) k = None \<longleftrightarrow> k \<noteq> seqId s \<and> om_find q k = None" for k
      using Cons.prems(1) by simp
    have f2: "om_find ?m t = None \<longleftrightarrow> t \<notin> set (seqTimers s) \<and> om_find m t = None" for t
      using Cons.prems(2) by (simp add: om_find_fill_const)
    define ok where "ok u \<longleftrightarrow> seqId u \<noteq> 0 \<and> seqTimers u \<noteq> [] \<and> om_find q (seqId u) = None \<and>
      (\<forall>t \<in> set (seqTimers u). om_find tp t \<noteq> None \<and> om_find m t = None)" for u :: ScriptSequenceState
    have A: "(\<forall>u \<in> set ss. seqId u \<noteq> 0 \<and> seqTimers u \<noteq> [] \<and> om_find (om_put (seqId s) s q) (seqId u) = None \<and>
          (\<forall>t \<in> set (seqTimers u). om_find tp t \<noteq> None \<and> om_find ?m t = None)) \<longleftrightarrow>
        (\<forall>u \<in> set ss. ok u) \<and> seqId s \<notin> seqId ` set ss \<and> set (seqTimers s) \<inter> fst ` set (timerPairs ss) = {}"
    proof -
      have one: "(seqId u \<noteq> 0 \<and> seqTimers u \<noteq> [] \<and> om_find (om_put (seqId s) s q) (seqId u) = None \<and>
            (\<forall>t \<in> set (seqTimers u). om_find tp t \<noteq> None \<and> om_find ?m t = None)) \<longleftrightarrow>
          ok u \<and> seqId s \<noteq> seqId u \<and> set (seqTimers s) \<inter> set (seqTimers u) = {}" for u
        unfolding f1 f2 ok_def by (auto simp only: disjoint_iff)
      show ?thesis unfolding one unfolding set_pairs ball_conj_distrib by auto
    qed
    have B: "distinct (map seqId (s # ss)) \<longleftrightarrow> seqId s \<notin> seqId ` set ss \<and> distinct (map seqId ss)"
      "distinct (map fst (timerPairs (s # ss))) \<longleftrightarrow> distinct (map fst (timerPairs ss)) \<and>
         set (seqTimers s) \<inter> fst ` set (timerPairs ss) = {}"
      using True by (simp_all add: comp_def)
    have "(\<forall>u \<in> set (s # ss). ok u) \<longleftrightarrow> (\<forall>u \<in> set ss. ok u)" using True by (simp add: ok_def)
    then show ?thesis
      unfolding step Cons.IH [OF om_inv_put [OF Cons.prems(1)] om_inv_fill [OF Cons.prems(2)]] A B
        ok_def [symmetric]
      by (simp add: om_fill_append om_fill_pairs) blast
  next
    case False
    then have "restoreSequences tp (s # ss) q m x = None"
      using restoreSequenceTimers_iff [OF Cons.prems(2), of "seqId s" tp "seqTimers s" "{}"]
      by (auto simp: om_emplace_def split: option.splits)
    with False show ?thesis by (auto simp: fsts simp del: map_map)
  qed
qed

section \<open>What \<open>restore\<close> accepts\<close>

text \<open>
  A host whose snapshot restores: the core restores, the indexes are consistent, every call
  has its timer, and no identifier counter has wrapped.
\<close>

definition host_ok :: "GameplayHost \<Rightarrow> bool" where
  "host_ok h \<longleftrightarrow>
     runtime_ok (hostCore h) \<and> calls_ok h \<and> subs_ok h \<and> seqs_ok h \<and>
     seq_index (sequence_timers h) h \<and> armed h \<and>
     hostNextPayload h \<noteq> 0 \<and> hostNextSubscription h \<noteq> 0 \<and> hostNextSequence h \<noteq> 0"

lemma host_inv_ok:
  "host_inv h \<Longrightarrow> armed h \<Longrightarrow> nextId (rtScheduler (hostCore h)) \<noteq> 0 \<Longrightarrow>
   hostNextPayload h \<noteq> 0 \<Longrightarrow> hostNextSubscription h \<noteq> 0 \<Longrightarrow> hostNextSequence h \<noteq> 0 \<Longrightarrow> host_ok h"
  by (simp add: host_ok_def host_inv_def host_base_def runtime_inv_ok)

lemma schedulerPayloads_tasks:
  assumes "sched_inv s"
  shows "schedulerPayloads (map snd (tasks s)) k = map_option payload (om_find (tasks s) k)"
proof -
  have "map (\<lambda>t. (taskId t, payload t)) (map snd (tasks s)) = map (\<lambda>(k, t). (k, payload t)) (tasks s)"
    using sched_invD(3) [OF assms] om_find_iff [OF sched_invD(1) [OF assms]] by (auto simp: task_ok_def)
  then show ?thesis unfolding schedulerPayloads_def by (simp only: map_of_map comp_apply)
qed

lemma timerPairs_set: "(t, i) \<in> set (timerPairs ss) \<longleftrightarrow> (\<exists>s \<in> set ss. seqId s = i \<and> t \<in> set (seqTimers s))"
  by (auto simp: timerPairs_def)

lemma om_find_pairs:
  "distinct (map fst ps) \<Longrightarrow> om_find (om_fill fst snd ps []) k = Some v \<longleftrightarrow> (k, v) \<in> set ps"
  by (subst om_find_fill_empty) force+

lemma fst_timerPairs: "map fst (timerPairs ss) = concat (map seqTimers ss)"
  by (simp add: timerPairs_def map_concat comp_def)

lemma distinct_timers:
  assumes "distinct ss" and "\<And>s. s \<in> set ss \<Longrightarrow> distinct (seqTimers s)"
    and "\<And>s u t. s \<in> set ss \<Longrightarrow> u \<in> set ss \<Longrightarrow> t \<in> set (seqTimers s) \<Longrightarrow> t \<in> set (seqTimers u) \<Longrightarrow> s = u"
  shows "distinct (concat (map seqTimers ss))"
  using assms
proof (induction ss)
  case Nil
  then show ?case by simp
next
  case (Cons s ss)
  have "set (seqTimers s) \<inter> set (concat (map seqTimers ss)) = {}"
    using Cons.prems(1) Cons.prems(3) [of s] by fastforce
  with Cons show ?case by simp
qed

lemma host_restore_snapshot:
  assumes ok: "host_ok h"
  shows "host_restore (host_snapshot h) = Some h"
proof -
  let ?cs = "map snd (hostCalls h)" and ?ss = "map snd (hostSequences h)" and ?us = "map snd (hostSubscriptions h)"
  have core: "runtime_restore (runtime_snapshot (hostCore h)) = Some (hostCore h)"
    and C: "calls_ok h" and U: "subs_ok h" and Q: "seqs_ok h" and X: "seq_index (sequence_timers h) h"
    and A: "armed h" and n: "hostNextPayload h \<noteq> 0" "hostNextSubscription h \<noteq> 0" "hostNextSequence h \<noteq> 0"
    and sched: "sched_inv (rtScheduler (hostCore h))"
    using ok runtime_restore_snapshot by (auto simp: host_ok_def runtime_ok_def sched_ok_def)
  let ?P = "schedulerPayloads (map snd (host_tasks h))"
  have inv: "om_inv (hostCalls h)" "om_inv (hostTimerPayload h)" "om_inv (hostSubscriptions h)"
      "om_inv (hostSequences h)" "om_inv (hostTimerSequence h)"
    using C U Q X by (simp_all add: calls_ok_def subs_ok_def seqs_ok_def seq_index_def)
  have in_cs: "c \<in> set ?cs \<longleftrightarrow> (\<exists>p. om_find (hostCalls h) p = Some c)" for c
    using om_find_iff [OF inv(1)] by force
  have in_us: "u \<in> set ?us \<longleftrightarrow> (\<exists>i. om_find (hostSubscriptions h) i = Some u)" for u
    using om_find_iff [OF inv(3)] by force
  have in_ss: "s \<in> set ?ss \<longleftrightarrow> (\<exists>i. om_find (hostSequences h) i = Some s)" for s
    using om_find_iff [OF inv(4)] by force
  have keyc: "callPayload c = p" if "om_find (hostCalls h) p = Some c" for p c using calls_okD(1) [OF C that] .
  have keyu: "subId u = i" if "om_find (hostSubscriptions h) i = Some u" for i u
    using U that unfolding subs_ok_def by blast
  have keys: "seqId s = i" if "om_find (hostSequences h) i = Some s" for i s
    using Q that unfolding seqs_ok_def by blast
  have kc: "distinct (map callPayload ?cs)" "om_fill callPayload (\<lambda>c. c) ?cs [] = hostCalls h"
    using om_values_keys(2) [OF inv(1), of callPayload] om_fill_values [OF inv(1), of callPayload] keyc by blast+
  have ku: "distinct (map subId ?us)" "om_fill subId (\<lambda>c. c) ?us [] = hostSubscriptions h"
    using om_values_keys(2) [OF inv(3), of subId] om_fill_values [OF inv(3), of subId] keyu by blast+
  have ks: "distinct (map seqId ?ss)" "om_fill seqId (\<lambda>c. c) ?ss [] = hostSequences h"
    using om_values_keys(2) [OF inv(4), of seqId] om_fill_values [OF inv(4), of seqId] keys by blast+
  \<comment> \<open>the calls\<close>
  have "inj_on callTimer (set ?cs)"
  proof (rule inj_onI)
    fix c d assume "c \<in> set ?cs" "d \<in> set ?cs" "callTimer c = callTimer d"
    with calls_okD(4) [OF C] show "c = d" unfolding in_cs by (metis option.inject)
  qed
  moreover have "distinct ?cs" using kc(1) by (rule distinct_map [THEN iffD1, THEN conjunct1])
  ultimately have dt: "distinct (map callTimer ?cs)" using distinct_map [of callTimer ?cs] by blast
  have "om_fill callTimer callPayload ?cs [] = hostTimerPayload h"
  proof (rule om_unique)
    fix t p
    show "om_find (om_fill callTimer callPayload ?cs []) t = Some p \<longleftrightarrow> om_find (hostTimerPayload h) t = Some p"
      unfolding om_find_fill_empty [OF dt] timer_payload_find [OF C] using in_cs keyc by metis
  qed (simp_all add: om_inv_fill inv)
  moreover have "validCall c \<and> ?P (callTimer c) = Some (callPayload c)" if c: "c \<in> set ?cs" for c
  proof -
    from c obtain p where p: "om_find (hostCalls h) p = Some c" unfolding in_cs by blast
    note K = calls_okD [OF C p]
    from K(4) A obtain t where "om_find (host_tasks h) (callTimer c) = Some t" "payload t = p"
      unfolding armed_def by blast
    with K(1,2) show ?thesis by (simp add: schedulerPayloads_tasks [OF sched])
  qed
  ultimately have rc: "restoreCalls ?P ?cs [] [] 0 =
      Some (hostCalls h, hostTimerPayload h, fold_max callPayload ?cs 0)"
    using kc dt
    by (subst restoreCalls_iff) simp_all
  have mc: "fold_max callPayload ?cs 0 < hostNextPayload h"
    using calls_okD(1,3) [OF C] n(1) in_cs unfolding fold_max_def fold_max_less
    by (metis word_neq_0_conv)
  \<comment> \<open>the subscriptions\<close>
  have ru: "restoreSubscriptions ?us [] 0 = Some (hostSubscriptions h, fold_max subId ?us 0)"
    using ku U in_us
    by (subst restoreSubscriptions_iff) (auto simp: subs_ok_def simp del: set_map list.set_map)
  have mu: "fold_max subId ?us 0 < hostNextSubscription h"
    using U n(2) in_us unfolding fold_max_def fold_max_less subs_ok_def by (metis word_neq_0_conv)
  \<comment> \<open>the sequences\<close>
  have own: "t \<in> set (seqTimers s) \<Longrightarrow> om_find (hostTimerSequence h) t = Some (seqId s)"
    if "s \<in> set ?ss" for s t
    using that seq_indexD(2) [OF X] keys unfolding in_ss by (force simp: sequence_timers_def)
  have "distinct (map fst (timerPairs ?ss))"
    unfolding fst_timerPairs
  proof (rule distinct_timers)
    show "distinct ?ss" using ks(1) by (rule distinct_map [THEN iffD1, THEN conjunct1])
    fix s assume "s \<in> set ?ss"
    then show "distinct (seqTimers s)" using Q unfolding in_ss seqs_ok_def by blast
  next
    fix s u t assume "s \<in> set ?ss" "u \<in> set ?ss" "t \<in> set (seqTimers s)" "t \<in> set (seqTimers u)"
    with own have "seqId s = seqId u" by (metis option.inject)
    with \<open>s \<in> set ?ss\<close> \<open>u \<in> set ?ss\<close> keys show "s = u" unfolding in_ss by (metis option.inject)
  qed
  note dp = this
  have "om_fill fst snd (timerPairs ?ss) [] = hostTimerSequence h"
  proof (rule om_unique)
    fix t i
    have "(t, i) \<in> set (timerPairs ?ss) \<longleftrightarrow> t \<in> sequence_timers h i"
    proof
      assume "(t, i) \<in> set (timerPairs ?ss)"
      then obtain s where s: "s \<in> set ?ss" "seqId s = i" "t \<in> set (seqTimers s)"
        unfolding timerPairs_set by blast
      then obtain j where "om_find (hostSequences h) j = Some s" unfolding in_ss by blast
      with keys s show "t \<in> sequence_timers h i" by (auto simp: sequence_timers_def)
    next
      assume "t \<in> sequence_timers h i"
      then obtain s where "om_find (hostSequences h) i = Some s" "t \<in> set (seqTimers s)"
        by (auto simp: sequence_timers_def split: option.splits)
      with keys in_ss show "(t, i) \<in> set (timerPairs ?ss)" unfolding timerPairs_set by blast
    qed
    then show "om_find (om_fill fst snd (timerPairs ?ss) []) t = Some i \<longleftrightarrow>
        om_find (hostTimerSequence h) t = Some i"
      using om_find_pairs [OF dp] seq_indexD(2) [OF X] by blast
  qed (simp_all add: om_inv_fill inv)
  moreover have "seqId s \<noteq> 0 \<and> seqTimers s \<noteq> [] \<and>
      (\<forall>t \<in> set (seqTimers s). om_find (hostTimerPayload h) t \<noteq> None)" if s: "s \<in> set ?ss" for s
  proof -
    from s obtain i where i: "om_find (hostSequences h) i = Some s" unfolding in_ss by blast
    then have "t \<in> set (seqTimers s) \<Longrightarrow> t \<in> sequence_timers h i" for t by (simp add: sequence_timers_def)
    with seq_indexD(3) [OF X] i Q show ?thesis unfolding seqs_ok_def by blast
  qed
  ultimately have rs: "restoreSequences (hostTimerPayload h) ?ss [] [] 0 =
      Some (hostSequences h, hostTimerSequence h, fold_max seqId ?ss 0)"
    using ks dp
    by (subst restoreSequences_iff) simp_all
  have ms: "fold_max seqId ?ss 0 < hostNextSequence h"
    using Q n(3) in_ss unfolding fold_max_def fold_max_less seqs_ok_def by (metis word_neq_0_conv)
  have P: "stTasks (rsScheduler (runtime_snapshot (hostCore h))) = map snd (host_tasks h)"
    by (simp add: runtime_snapshot_def scheduler_snapshot_def)
  show ?thesis
    using n mc mu ms by (simp add: host_restore_def host_snapshot_def core P rc ru rs not_le)
qed

lemma restoreTasks_find:
  "restoreTasks ts m q mx = Some (m', q', mx') \<Longrightarrow> om_inv m \<Longrightarrow>
   (\<forall>t \<in> set ts. om_find m' (taskId t) = Some t) \<and> (\<forall>k t. om_find m k = Some t \<longrightarrow> om_find m' k = Some t)"
proof (induction ts arbitrary: m q mx)
  case Nil
  then show ?case by simp
next
  case (Cons t ts)
  from Cons.prems have none: "om_find m (taskId t) = None"
    and rest: "restoreTasks ts (om_put (taskId t) t m) (os_insert (QueueKey (dueTick t) (taskId t)) q)
       (max mx (taskId t)) = Some (m', q', mx')"
    by (auto simp: om_emplace_def split: if_splits option.splits)
  from Cons.IH [OF rest] Cons.prems(2)
  have IH: "\<forall>t \<in> set ts. om_find m' (taskId t) = Some t" "om_find m' (taskId t) = Some t"
      "k \<noteq> taskId t \<Longrightarrow> om_find m k = Some u \<Longrightarrow> om_find m' k = Some u" for k u
    by auto
  with none show ?case by (metis option.distinct(1) set_ConsD)
qed

lemma scheduler_restore_tasks:
  assumes "scheduler_restore st = Some s" and "t \<in> set (stTasks st)"
  shows "om_find (tasks s) (taskId t) = Some t"
proof -
  obtain m q mx where "restoreTasks (stTasks st) [] [] 0 = Some (m, q, mx)" "tasks s = m"
    using assms(1) by (auto simp: scheduler_restore_def split: if_splits option.splits)
  with restoreTasks_find [of "stTasks st" "[]" "[]" 0 m q mx] assms(2) show ?thesis by simp
qed

lemma schedulerPayloads_restored:
  assumes "scheduler_restore st = Some s" and "schedulerPayloads (stTasks st) k = Some p"
  shows "\<exists>t. om_find (tasks s) k = Some t \<and> payload t = p"
proof -
  from assms(2) obtain t where "t \<in> set (stTasks st)" "taskId t = k" "payload t = p"
    using map_of_SomeD [of "map (\<lambda>t. (taskId t, payload t)) (stTasks st)" k p]
    unfolding schedulerPayloads_def by auto
  with scheduler_restore_tasks [OF assms(1)] show ?thesis by blast
qed

lemma distinct_timerPairs:
  assumes "distinct (map fst (timerPairs ss))"
  shows "s \<in> set ss \<Longrightarrow> distinct (seqTimers s)"
    and "distinct (concat (map seqTimers ss))"
proof -
  show d: "distinct (concat (map seqTimers ss))" using assms by (simp add: fst_timerPairs)
  show "s \<in> set ss \<Longrightarrow> distinct (seqTimers s)" using d by (induction ss) auto
qed

lemma host_restore_cases:
  assumes "host_restore st = Some h"
  obtains core where "runtime_restore (hsCore st) = Some core" and "hostCore h = core"
    and "hostNextPayload h \<noteq> 0" "hostNextSubscription h \<noteq> 0" "hostNextSequence h \<noteq> 0"
    and "restoreCalls (schedulerPayloads (stTasks (rsScheduler (hsCore st)))) (hsCalls st) [] [] 0 =
        Some (hostCalls h, hostTimerPayload h, fold_max callPayload (hsCalls st) 0)"
    and "fold_max callPayload (hsCalls st) 0 < hostNextPayload h"
    and "restoreSubscriptions (hsSubscriptions st) [] 0 =
        Some (hostSubscriptions h, fold_max subId (hsSubscriptions st) 0)"
    and "fold_max subId (hsSubscriptions st) 0 < hostNextSubscription h"
    and "restoreSequences (hostTimerPayload h) (hsSequences st) [] [] 0 =
        Some (hostSequences h, hostTimerSequence h, fold_max seqId (hsSequences st) 0)"
    and "fold_max seqId (hsSequences st) 0 < hostNextSequence h"
proof -
  from assms obtain core calls tp mp subs msub seqs ts mseq where
      n: "hsNextPayload st \<noteq> 0" "hsNextSubscription st \<noteq> 0" "hsNextSequence st \<noteq> 0"
    and core: "runtime_restore (hsCore st) = Some core"
    and c: "restoreCalls (schedulerPayloads (stTasks (rsScheduler (hsCore st)))) (hsCalls st) [] [] 0 =
        Some (calls, tp, mp)" "\<not> hsNextPayload st \<le> mp"
    and u: "restoreSubscriptions (hsSubscriptions st) [] 0 = Some (subs, msub)" "\<not> hsNextSubscription st \<le> msub"
    and s: "restoreSequences tp (hsSequences st) [] [] 0 = Some (seqs, ts, mseq)" "\<not> hsNextSequence st \<le> mseq"
    and h: "h = \<lparr>hostCore = core, hostNextPayload = hsNextPayload st,
                hostNextSubscription = hsNextSubscription st,
                hostNextSequence = hsNextSequence st, hostCalls = calls,
                hostTimerPayload = tp, hostSubscriptions = subs,
                hostSequences = seqs, hostTimerSequence = ts\<rparr>"
    unfolding host_restore_def by (auto split: if_splits option.splits)
  have "mp = fold_max callPayload (hsCalls st) 0" using c(1) by (subst (asm) restoreCalls_iff) simp_all
  moreover have "msub = fold_max subId (hsSubscriptions st) 0"
    using u(1) by (subst (asm) restoreSubscriptions_iff) simp_all
  moreover have "mseq = fold_max seqId (hsSequences st) 0"
    using s(1) by (subst (asm) restoreSequences_iff) simp_all
  ultimately show thesis using n core c u s h by (intro that) (auto simp: not_le)
qed

lemma host_restore_ok:
  assumes r: "host_restore st = Some h"
  shows "host_ok h"
proof -
  from r show ?thesis
  proof (rule host_restore_cases)
    fix core
    let ?cs = "hsCalls st" and ?us = "hsSubscriptions st" and ?ss = "hsSequences st"
    let ?P = "schedulerPayloads (stTasks (rsScheduler (hsCore st)))"
    assume core: "runtime_restore (hsCore st) = Some core" "hostCore h = core"
      and n: "hostNextPayload h \<noteq> 0" "hostNextSubscription h \<noteq> 0" "hostNextSequence h \<noteq> 0"
      and c: "restoreCalls ?P ?cs [] [] 0 = Some (hostCalls h, hostTimerPayload h, fold_max callPayload ?cs 0)"
      and mc: "fold_max callPayload ?cs 0 < hostNextPayload h"
      and u: "restoreSubscriptions ?us [] 0 = Some (hostSubscriptions h, fold_max subId ?us 0)"
      and mu: "fold_max subId ?us 0 < hostNextSubscription h"
      and s: "restoreSequences (hostTimerPayload h) ?ss [] [] 0 =
          Some (hostSequences h, hostTimerSequence h, fold_max seqId ?ss 0)"
      and ms: "fold_max seqId ?ss 0 < hostNextSequence h"
    have sch: "scheduler_restore (rsScheduler (hsCore st)) = Some (rtScheduler core)"
      using core(1) by (auto simp: runtime_restore_def split: option.splits)
    \<comment> \<open>the calls\<close>
    from c have C: "\<forall>c \<in> set ?cs. validCall c \<and> ?P (callTimer c) = Some (callPayload c)"
        "distinct (map callPayload ?cs)" "distinct (map callTimer ?cs)"
        "hostCalls h = om_fill callPayload (\<lambda>c. c) ?cs []"
        "hostTimerPayload h = om_fill callTimer callPayload ?cs []"
      by (simp_all add: restoreCalls_iff)
    have fc: "om_find (hostCalls h) p = Some c \<longleftrightarrow> c \<in> set ?cs \<and> callPayload c = p" for p c
      unfolding C(4) om_find_fill_empty [OF C(2)] by blast
    have ft: "om_find (hostTimerPayload h) t = Some p \<longleftrightarrow> (\<exists>c \<in> set ?cs. callTimer c = t \<and> callPayload c = p)" for t p
      unfolding C(5) om_find_fill_empty [OF C(3)] by blast
    have "calls_ok h"
      unfolding calls_ok_def
    proof (intro conjI allI impI)
      show "om_inv (hostCalls h)" "om_inv (hostTimerPayload h)" by (simp_all add: C om_inv_fill)
      show "callPayload c = p" "validCall c" "hostNextPayload h = 0 \<or> p < hostNextPayload h"
        if "om_find (hostCalls h) p = Some c" for p c
        using that C(1) mc unfolding fc fold_max_def fold_max_less by auto
      show "om_find (hostTimerPayload h) t = Some p \<longleftrightarrow>
          (\<exists>c. om_find (hostCalls h) p = Some c \<and> callTimer c = t)" for t p
        unfolding ft fc by blast
    qed
    moreover have "armed h"
      unfolding armed_def ft using C(1) schedulerPayloads_restored [OF sch] core(2) by fastforce
    \<comment> \<open>the subscriptions\<close>
    moreover have "subs_ok h"
    proof -
      from u have U: "\<forall>s \<in> set ?us. subId s \<noteq> 0 \<and> subTopic s \<noteq> '''' \<and> subTarget s \<noteq> 0 \<and> subCallback s \<noteq> ''''"
          "distinct (map subId ?us)" "hostSubscriptions h = om_fill subId (\<lambda>s. s) ?us []"
        by (simp_all add: restoreSubscriptions_iff)
      have "om_find (hostSubscriptions h) i = Some s \<longleftrightarrow> s \<in> set ?us \<and> subId s = i" for i s
        unfolding U(3) om_find_fill_empty [OF U(2)] by blast
      with U mu show ?thesis unfolding subs_ok_def fold_max_def fold_max_less by (auto simp: om_inv_fill)
    qed
    \<comment> \<open>the sequences\<close>
    moreover from s have S: "\<forall>s \<in> set ?ss. seqId s \<noteq> 0 \<and> seqTimers s \<noteq> [] \<and>
          (\<forall>t \<in> set (seqTimers s). om_find (hostTimerPayload h) t \<noteq> None)"
        "distinct (map seqId ?ss)" "distinct (map fst (timerPairs ?ss))"
        "hostSequences h = om_fill seqId (\<lambda>s. s) ?ss []"
        "hostTimerSequence h = om_fill fst snd (timerPairs ?ss) []"
      by (simp_all add: restoreSequences_iff)
    have fs: "om_find (hostSequences h) i = Some s \<longleftrightarrow> s \<in> set ?ss \<and> seqId s = i" for i s
      unfolding S(4) om_find_fill_empty [OF S(2)] by blast
    have "seqs_ok h"
      unfolding seqs_ok_def fs
      using S(1) ms distinct_timerPairs(1) [OF S(3)] unfolding fold_max_def fold_max_less
      by (auto simp: S(4) om_inv_fill)
    moreover have mem: "(t, i) \<in> set (timerPairs ?ss) \<longleftrightarrow> t \<in> sequence_timers h i" for t i
    proof -
      have "t \<in> sequence_timers h i \<longleftrightarrow> (\<exists>s. om_find (hostSequences h) i = Some s \<and> t \<in> set (seqTimers s))"
        by (auto simp: sequence_timers_def split: option.split)
      then show ?thesis unfolding timerPairs_set fs by blast
    qed
    have "seq_index (sequence_timers h) h"
      unfolding seq_index_def
    proof (intro conjI allI impI)
      show "om_inv (hostTimerSequence h)" by (simp add: S om_inv_fill)
      show "om_find (hostTimerSequence h) t = Some i \<longleftrightarrow> t \<in> sequence_timers h i" for t i
        using om_find_pairs [OF S(3)] mem by (simp add: S(5))
      show "om_find (hostTimerPayload h) t \<noteq> None" if "t \<in> sequence_timers h i" for t i
        using that S(1) unfolding mem [symmetric] timerPairs_set by blast
    qed
    ultimately show "host_ok h"
      using runtime_restore_ok [OF core(1)] core(2) n by (simp add: host_ok_def)
  qed
qed

interpretation host_save: snapshotable host_snapshot host_restore host_ok
  by unfold_locales (auto intro: host_restore_snapshot host_restore_ok)

end
