(* ===== verification/Host_Sequences.thy ===== *)
theory Host_Sequences
  imports Host_Restore
begin

text \<open>
  The hosts the program can reach, as runs of the operations of \<open>GameplayHost\<close>, and what
  \<open>startSequence\<close> schedules: the calls made so far for a sequence under construction, and their
  complete removal when one of them fails.
\<close>

section \<open>Reachable hosts\<close>

text \<open>
  The operations the program performs on a host, those on its core included. \<open>HDrain now tb eb\<close>
  is \<open>drainDue\<close> with its two budgets.
\<close>

datatype host_op =
    HStep
  | HAccumulate f64 u32
  | HCreateEntity
  | HDestroyEntity EntityId
  | HDrawUInt
  | HDrawInt u32 u32
  | HSchedule u64 string u64 "GameplayValue list" u64 u32
  | HCancelCall u64
  | HStartSequence u64 "ScriptSequenceStep list" u32
  | HCancelSequence u64
  | HSubscribe string u64 string u32
  | HUnsubscribe u64
  | HPublish string "GameplayValue list" u64
  | HEnqueueDirect u64 string "GameplayValue list" u64
  | HCancelEvent u64
  | HDrain u64 nat nat

fun host_apply :: "host_op \<Rightarrow> GameplayHost \<Rightarrow> GameplayHost" where
  "host_apply HStep h = h\<lparr>hostCore := (hostCore h)\<lparr>rtClock := snd (clock_step (rtClock (hostCore h)))\<rparr>\<rparr>"
| "host_apply (HAccumulate elapsed maximumSteps) h =
     (case accumulate elapsed maximumSteps (rtClock (hostCore h)) of
        None \<Rightarrow> h
      | Some (r, c) \<Rightarrow> h\<lparr>hostCore := (hostCore h)\<lparr>rtClock := c\<rparr>\<rparr>)"
| "host_apply HCreateEntity h =
     h\<lparr>hostCore := (hostCore h)\<lparr>rtEntities := snd (registry_create (rtEntities (hostCore h)))\<rparr>\<rparr>"
| "host_apply (HDestroyEntity e) h =
     h\<lparr>hostCore := (hostCore h)\<lparr>rtEntities := snd (registry_destroy e (rtEntities (hostCore h)))\<rparr>\<rparr>"
| "host_apply HDrawUInt h =
     h\<lparr>hostCore := (hostCore h)\<lparr>rtRandom := snd (nextUInt (rtRandom (hostCore h)))\<rparr>\<rparr>"
| "host_apply (HDrawInt lo hi) h =
     (case nextInt lo hi (rtRandom (hostCore h)) of
        None \<Rightarrow> h
      | Some (v, r) \<Rightarrow> h\<lparr>hostCore := (hostCore h)\<lparr>rtRandom := r\<rparr>\<rparr>)"
| "host_apply (HSchedule target callback delay arguments interval n) h =
     snd (scheduleCall target callback delay arguments interval n h)"
| "host_apply (HCancelCall k) h = snd (cancelCall k h)"
| "host_apply (HStartSequence target steps n) h = snd (startSequence target steps n h)"
| "host_apply (HCancelSequence i) h = snd (cancelSequence i h)"
| "host_apply (HSubscribe topic target callback priority) h =
     snd (subscribe topic target callback priority h)"
| "host_apply (HUnsubscribe i) h = snd (unsubscribe i h)"
| "host_apply (HPublish topic arguments delay) h = snd (publish topic arguments delay h)"
| "host_apply (HEnqueueDirect target callback arguments delay) h =
     snd (enqueueDirect target callback arguments delay h)"
| "host_apply (HCancelEvent n) h = snd (cancelEvent n h)"
| "host_apply (HDrain now tb eb) h = snd (drainDue now tb eb h)"

text \<open>
  A drain is \<open>safe\<close> when no repeating task's next due tick overflows: the scheduler erases such
  a task although it reports it as repeating.
\<close>

fun safe_op :: "host_op \<Rightarrow> GameplayHost \<Rightarrow> bool" where
  "safe_op (HDrain now tb eb) h = no_overflow now (rtScheduler (hostCore h))"
| "safe_op op h = True"

inductive host_reach :: "GameplayHost \<Rightarrow> bool" where
  reach_new: "host_reach (newHost rate seed sequence)"
| reach_step: "host_reach h \<Longrightarrow> host_reach (host_apply op h)"

inductive host_reach_safe :: "GameplayHost \<Rightarrow> bool" where
  safe_new: "host_reach_safe (newHost rate seed sequence)"
| safe_step: "host_reach_safe h \<Longrightarrow> safe_op op h \<Longrightarrow> host_reach_safe (host_apply op h)"

lemma core_inv:
  assumes "host_inv h" and "same_host h h'" and "runtime_inv (hostCore h')"
  shows "host_inv h' \<and> (armed h \<longrightarrow> armed h')"
  using same_host_inv [OF assms] by simp

lemma host_core_inv: "host_inv h \<Longrightarrow> runtime_inv (hostCore h)"
  by (simp add: host_inv_def host_base_def)

lemma host_apply_effect:
  assumes inv: "host_inv h"
  shows "host_inv (host_apply op h) \<and> (armed h \<longrightarrow> safe_op op h \<longrightarrow> armed (host_apply op h))"
proof (cases op)
  case HStep
  have "host_inv (host_apply HStep h) \<and> (armed h \<longrightarrow> armed (host_apply HStep h))"
    by (rule core_inv [OF inv])
      (use host_core_inv [OF inv] in \<open>auto simp: same_host_def runtime_inv_def intro: rs_inv_intro\<close>)
  with HStep show ?thesis by simp
next
  case (HAccumulate elapsed m)
  show ?thesis
  proof (cases "accumulate elapsed m (rtClock (hostCore h))")
    case None
    with HAccumulate inv show ?thesis by simp
  next
    case (Some rc)
    then obtain r c where rc: "accumulate elapsed m (rtClock (hostCore h)) = Some (r, c)" by (cases rc) auto
    have "clock_inv c"
      using accumulate_keeps [OF _ rc] host_core_inv [OF inv] by (simp add: runtime_inv_def)
    then have "host_inv (host_apply op h) \<and> (armed h \<longrightarrow> armed (host_apply op h))"
      using host_core_inv [OF inv] HAccumulate rc
      by (intro core_inv [OF inv]) (auto simp: same_host_def runtime_inv_def)
    then show ?thesis by simp
  qed
next
  case HCreateEntity
  have "host_inv (host_apply HCreateEntity h) \<and> (armed h \<longrightarrow> armed (host_apply HCreateEntity h))"
    by (rule core_inv [OF inv])
      (use host_core_inv [OF inv] in \<open>auto simp: same_host_def runtime_inv_def intro: rs_inv_intro\<close>)
  with HCreateEntity show ?thesis by simp
next
  case (HDestroyEntity e)
  have "host_inv (host_apply op h) \<and> (armed h \<longrightarrow> armed (host_apply op h))"
    by (rule core_inv [OF inv])
      (use host_core_inv [OF inv] HDestroyEntity in \<open>auto simp: same_host_def runtime_inv_def intro: rs_inv_intro\<close>)
  then show ?thesis by simp
next
  case HDrawUInt
  have "host_inv (host_apply HDrawUInt h) \<and> (armed h \<longrightarrow> armed (host_apply HDrawUInt h))"
    by (rule core_inv [OF inv])
      (use host_core_inv [OF inv] in \<open>auto simp: same_host_def runtime_inv_def random_inv_nextUInt\<close>)
  with HDrawUInt show ?thesis by simp
next
  case (HDrawInt lo hi)
  show ?thesis
  proof (cases "nextInt lo hi (rtRandom (hostCore h))")
    case None
    with HDrawInt inv show ?thesis by simp
  next
    case (Some vr)
    then obtain v r where vr: "nextInt lo hi (rtRandom (hostCore h)) = Some (v, r)" by (cases vr) auto
    have "random_inv r"
      using random_inv_nextInt [OF _ vr] host_core_inv [OF inv] by (simp add: runtime_inv_def)
    then have "host_inv (host_apply op h) \<and> (armed h \<longrightarrow> armed (host_apply op h))"
      using host_core_inv [OF inv] HDrawInt vr
      by (intro core_inv [OF inv]) (auto simp: same_host_def runtime_inv_def)
    then show ?thesis by simp
  qed
next
  case (HSchedule target callback delay arguments interval n)
  obtain k h' where eq: "scheduleCall target callback delay arguments interval n h = (k, h')" by fastforce
  note C = scheduleCall_inv [OF _ eq]
  from inv have "host_base h" "seq_index (sequence_timers h) h" by (simp_all add: host_inv_def)
  with C HSchedule eq show ?thesis by (simp add: host_inv_def)
next
  case (HCancelSequence i)
  show ?thesis
  proof (cases "om_find (hostSequences h) i")
    case None
    with HCancelSequence inv show ?thesis by (simp add: cancelSequence_def)
  next
    case (Some s)
    with cancelSequence_effect [OF inv Some] HCancelSequence show ?thesis by simp
  qed
next
  case (HStartSequence target steps n)
  obtain i h' where "startSequence target steps n h = (i, h')" by fastforce
  with startSequence_effect [OF inv this] HStartSequence show ?thesis by simp
next
  case (HDrain now tb eb)
  obtain batch h' fired s events q where "drainDue now tb eb h = (batch, h')"
    "runDue now tb (rtScheduler (hostCore h)) = (fired, s)"
    "popDue now eb (rtEvents (hostCore h)) = (events, q)" by fastforce
  from drainDue_effect(4,5) [OF inv this] this(1) HDrain show ?thesis by simp
qed (use inv cancelCall_effect subscribe_effect unsubscribe_effect host_enqueue_effect cancelEvent_effect
    in \<open>simp_all add: publish_def enqueueDirect_def\<close>)

lemma host_reach_inv: "host_reach h \<Longrightarrow> host_inv h"
  by (induction rule: host_reach.induct) (simp_all add: host_inv_new host_apply_effect)

lemma host_reach_safe_inv: "host_reach_safe h \<Longrightarrow> host_inv h \<and> armed h"
  by (induction rule: host_reach_safe.induct) (simp_all add: host_inv_new armed_new host_apply_effect)

section \<open>What starting a sequence schedules\<close>

text \<open>The delay of each step from the start of the sequence.\<close>

fun step_offsets :: "ScriptSequenceStep list \<Rightarrow> u64 \<Rightarrow> u64 list" where
  "step_offsets [] offset = []"
| "step_offsets (st # steps) offset =
     (let due = saturatedAdd offset (normalizedDelay (stepDelay st)) in due # step_offsets steps due)"

lemma length_step_offsets [simp]: "length (step_offsets steps offset) = length steps"
  by (induction steps arbitrary: offset) (simp_all add: Let_def)

text \<open>The timer \<open>k\<close> runs the callback of step \<open>st\<close> on \<open>target\<close>, \<open>offset\<close> ticks from now.\<close>

definition step_scheduled ::
    "u64 \<Rightarrow> u32 \<Rightarrow> GameplayHost \<Rightarrow> u64 \<Rightarrow> ScriptSequenceStep \<times> u64 \<Rightarrow> bool" where
  "step_scheduled target n h k so \<longleftrightarrow>
     (\<exists>c t. om_find (hostTimerPayload h) k = Some (callPayload c) \<and>
        om_find (hostCalls h) (callPayload c) = Some c \<and>
        callTarget c = target \<and> callCallback c = stepCallback (fst so) \<and>
        callArguments c = stepArguments (fst so) \<and>
        om_find (host_tasks h) k = Some t \<and> remainingFires t = n \<and>
        dueTick t = saturatedDue (host_tick h) (normalizedDelay (snd so)))"

text \<open>The calls of \<open>h\<close> are those of \<open>h0\<close> and the ones on the timers \<open>created\<close>.\<close>

definition grown :: "u64 list \<Rightarrow> GameplayHost \<Rightarrow> GameplayHost \<Rightarrow> bool" where
  "grown created h0 h \<longleftrightarrow>
     (\<forall>k. k \<notin> set created \<longrightarrow> om_find (hostTimerPayload h) k = om_find (hostTimerPayload h0) k \<and>
        om_find (host_tasks h) k = om_find (host_tasks h0) k) \<and>
     (\<forall>k \<in> set created. om_find (hostTimerPayload h0) k = None \<and> om_find (host_tasks h0) k = None) \<and>
     (\<forall>p c. om_find (hostCalls h0) p = Some c \<longrightarrow> om_find (hostCalls h) p = Some c) \<and>
     (\<forall>p c. om_find (hostCalls h) p = Some c \<longrightarrow>
        om_find (hostCalls h0) p = Some c \<or> callTimer c \<in> set created) \<and>
     hostSubscriptions h = hostSubscriptions h0 \<and> host_tick h = host_tick h0 \<and>
     hostSequences h = hostSequences h0"

lemma grown_refl: "grown [] h h"
  by (simp add: grown_def)

lemma grown_call:
  assumes base: "host_base h" and grown: "grown created h0 h"
    and eq: "scheduleCall target callback delay arguments interval n h = (k, h')" and k: "k \<noteq> 0"
  shows "grown (created @ [k]) h0 h'"
    and "step_scheduled target n h' k (\<lparr>stepDelay = d, stepCallback = callback, stepArguments = arguments\<rparr>, delay)"
    and "step_scheduled target' n' h j so \<Longrightarrow> step_scheduled target' n' h' j so"
proof -
  from base eq obtain s c where h': "h' = add_call s c h"
    and c: "c = \<lparr>callPayload = hostNextPayload h, callTimer = k, callTarget = target,
        callCallback = callback, callArguments = arguments\<rparr>"
    and n: "hostNextPayload h \<noteq> 0"
    and s: "scheduleAfter (host_tick h) (normalizedDelay delay) (hostNextPayload h) interval n
        (rtScheduler (hostCore h)) = (k, s)"
    by (cases rule: scheduleCall_cases) (use k in auto)
  note F = add_call_finds [OF base, of s c, folded h']
  note T = scheduleAt_task [OF host_baseD(2) [OF base] s [unfolded scheduleAfter_def] k]
  have fresh: "om_find (hostTimerPayload h) k = None" "om_find (hostCalls h) (hostNextPayload h) = None"
    using fresh_timer [OF base T(2) k] fresh_payload [OF host_baseD(4) [OF base] n] by auto
  have tasks: "om_find (host_tasks h') = om_find (tasks s)" and tick: "host_tick h' = host_tick h"
    using F(3) by simp_all
  have old: "k \<notin> set created \<and> om_find (hostTimerPayload h0) k = None \<and> om_find (host_tasks h0) k = None"
    if "k \<notin> set created"
    using grown fresh(1) T(1) that unfolding grown_def by metis
  have old': "om_find (hostTimerPayload h0) k = None \<and> om_find (host_tasks h0) k = None"
    using grown old unfolding grown_def by blast
  show "grown (created @ [k]) h0 h'"
    unfolding grown_def
  proof (intro conjI allI impI ballI)
    fix j assume "j \<notin> set (created @ [k])"
    then show "om_find (hostTimerPayload h') j = om_find (hostTimerPayload h0) j"
      "om_find (host_tasks h') j = om_find (host_tasks h0) j"
      using grown unfolding grown_def F(2) tasks T(4) by (simp_all add: c)
  next
    fix j assume "j \<in> set (created @ [k])"
    then show "om_find (hostTimerPayload h0) j = None" "om_find (host_tasks h0) j = None"
      using grown old' unfolding grown_def by auto
  next
    fix p d assume "om_find (hostCalls h0) p = Some d"
    then have "om_find (hostCalls h) p = Some d" using grown unfolding grown_def by blast
    then show "om_find (hostCalls h') p = Some d" using fresh(2) by (auto simp: F(1) c)
  next
    fix p d assume "om_find (hostCalls h') p = Some d"
    then have "om_find (hostCalls h) p = Some d \<or> callTimer d = k" by (auto simp: F(1) c split: if_splits)
    then show "om_find (hostCalls h0) p = Some d \<or> callTimer d \<in> set (created @ [k])"
      using grown unfolding grown_def by auto
  qed (use grown F tick in \<open>simp_all add: grown_def\<close>)
  show "step_scheduled target n h' k (\<lparr>stepDelay = d, stepCallback = callback, stepArguments = arguments\<rparr>, delay)"
    unfolding step_scheduled_def tasks tick by (intro exI [of _ c] exI) (auto simp: F T(4) c)
  assume "step_scheduled target' n' h j so"
  then obtain e t where e: "om_find (hostTimerPayload h) j = Some (callPayload e)"
      "om_find (hostCalls h) (callPayload e) = Some e" "callTarget e = target'"
      "callCallback e = stepCallback (fst so)" "callArguments e = stepArguments (fst so)"
      "om_find (host_tasks h) j = Some t" "remainingFires t = n'"
      "dueTick t = saturatedDue (host_tick h) (normalizedDelay (snd so))"
    unfolding step_scheduled_def by blast
  with fresh have "j \<noteq> k" "callPayload e \<noteq> hostNextPayload h" by auto
  with e show "step_scheduled target' n' h' j so"
    unfolding step_scheduled_def tasks tick by (intro exI [of _ e] exI [of _ t]) (simp add: F T(4) c)
qed

text \<open>Undoing the calls of an unfinished sequence leaves the calls the host had before.\<close>

lemma grown_erased:
  assumes base: "host_base h" and base0: "calls_ok h0"
    and grown: "grown created h0 h" and er: "erased (set created) h g"
  shows "om_find (hostTimerPayload g) = om_find (hostTimerPayload h0)"
    and "om_find (host_tasks g) = om_find (host_tasks h0)"
    and "om_find (hostCalls g) = om_find (hostCalls h0)"
proof -
  note G = grown [unfolded grown_def] and E = er [unfolded erased_def]
  show "om_find (hostTimerPayload g) = om_find (hostTimerPayload h0)"
    "om_find (host_tasks g) = om_find (host_tasks h0)"
    using G E by (auto simp: fun_eq_iff)
  note tp = timer_payload_find [OF host_baseD(4) [OF base]]
  show "om_find (hostCalls g) = om_find (hostCalls h0)"
  proof
    fix p
    have g: "om_find (hostCalls g) p =
        (if \<exists>t \<in> set created. om_find (hostTimerPayload h) t = Some p then None else om_find (hostCalls h) p)"
      using E by blast
    show "om_find (hostCalls g) p = om_find (hostCalls h0) p"
    proof (cases "om_find (hostCalls h) p")
      case None
      with g G show ?thesis by (cases "om_find (hostCalls h0) p") auto
    next
      case (Some c)
      then have t: "om_find (hostTimerPayload h) (callTimer c) = Some p" using tp by blast
      show ?thesis
      proof (cases "callTimer c \<in> set created")
        case True
        with t g have "om_find (hostCalls g) p = None" by auto
        moreover have "om_find (hostCalls h0) p = None"
        proof (rule ccontr)
          assume "om_find (hostCalls h0) p \<noteq> None"
          with G Some have "om_find (hostCalls h0) p = Some c" by auto
          then have "om_find (hostTimerPayload h0) (callTimer c) = Some p"
            using timer_payload_find [OF base0] by blast
          with G True show False by simp
        qed
        ultimately show ?thesis by simp
      next
        case False
        have "\<not> (\<exists>t \<in> set created. om_find (hostTimerPayload h) t = Some p)"
          using tp Some False by auto
        with g Some have "om_find (hostCalls g) p = Some c" by simp
        moreover have "om_find (hostCalls h0) p = Some c" using G Some False by blast
        ultimately show ?thesis by simp
      qed
    qed
  qed
qed

lemma grown_payload: "grown created h0 (h\<lparr>hostNextPayload := x\<rparr>) = grown created h0 h"
  by (simp add: grown_def)

lemma grown_index: "grown created h0 (h\<lparr>hostTimerSequence := m\<rparr>) = grown created h0 h"
  by (simp add: grown_def)

lemma step_scheduled_index: "step_scheduled target n (h\<lparr>hostTimerSequence := m\<rparr>) = step_scheduled target n h"
  by (simp add: step_scheduled_def fun_eq_iff)

lemma step_eta:
  "\<lparr>stepDelay = stepDelay st, stepCallback = stepCallback st, stepArguments = stepArguments st\<rparr> = st"
  by (cases st) simp

text \<open>The entries the host had before, in every map a failed sequence could have touched.\<close>

definition same_calls :: "GameplayHost \<Rightarrow> GameplayHost \<Rightarrow> bool" where
  "same_calls h h' \<longleftrightarrow>
     om_find (hostTimerPayload h') = om_find (hostTimerPayload h) \<and>
     om_find (host_tasks h') = om_find (host_tasks h) \<and>
     om_find (hostCalls h') = om_find (hostCalls h) \<and>
     sequence_timers h' = sequence_timers h \<and>
     hostSubscriptions h' = hostSubscriptions h \<and> host_tick h' = host_tick h"

lemma scheduleSteps_failure:
  assumes op: "under_construction i created h" and base0: "calls_ok h0" and grown: "grown created h0 h"
    and k: "scheduleCall target callback due arguments interval n h = (0, h1)"
  shows "same_calls h0 (fold (\<lambda>t g. snd (cancelCall t g)) created h1)"
proof -
  let ?g = "fold (\<lambda>t g. snd (cancelCall t g)) created h1" and ?S = "(sequence_timers h)(i := set created)"
  have base: "host_base h" and idx: "seq_index ?S h" using op by (auto simp: under_construction_def)
  note C = scheduleCall_inv [OF base k]
  have sub: "sequence_timers h1 j \<subseteq> ?S j" for j using under_construction_subset [OF op] C(4) by simp
  have E: "erased (set created) h1 ?g"
    using erase_fold [OF C(1) C(3) [OF idx] sub, of created] by (simp add: cancelCall_def [abs_def])
  have g1: "grown created h0 h1"
    using base k by (cases rule: scheduleCall_cases) (use grown in \<open>auto simp: grown_payload\<close>)
  note R = grown_erased [OF C(1) base0 g1 E]
  have "hostCore ?g = (hostCore h1)\<lparr>rtScheduler := rtScheduler (hostCore ?g)\<rparr>"
    using E unfolding erased_def by blast
  from arg_cong [OF this, of rtClock] have "host_tick ?g = host_tick h1" by simp
  moreover have "sequence_timers ?g j = sequence_timers h0 j" for j
  proof -
    have "sequence_timers h j \<inter> set created = {}"
    proof (cases "j = i")
      case True
      with op show ?thesis by (simp add: under_construction_def sequence_timers_def)
    next
      case False
      have "t \<notin> set created" if "t \<in> sequence_timers h j" for t
        using seq_indexD(2) [OF idx, of t j] seq_indexD(2) [OF idx, of t i] that False by auto
      then show ?thesis by blast
    qed
    moreover have "sequence_timers h = sequence_timers h0"
      using grown by (intro sequence_timers_other) (simp add: grown_def)
    ultimately show ?thesis using E C(4) unfolding erased_def by auto
  qed
  ultimately show ?thesis using R E g1 by (auto simp: same_calls_def grown_def erased_def)
qed

lemma scheduleSteps_grown:
  assumes "under_construction i created h" and "calls_ok h0" and "grown created h0 h"
    and "list_all2 (step_scheduled target n h) created done_steps"
    and "scheduleSteps target i n cycle steps offset created h = (r, h')"
  shows "case r of
      Some timers \<Rightarrow> grown timers h0 h' \<and>
        list_all2 (step_scheduled target n h') timers (done_steps @ zip steps (step_offsets steps offset))
    | None \<Rightarrow> same_calls h0 h'"
  using assms
proof (induction steps arbitrary: offset created h done_steps)
  case Nil
  then show ?case by auto
next
  case (Cons st steps)
  define due where "due = saturatedAdd offset (normalizedDelay (stepDelay st))"
  obtain k h1 where k: "scheduleCall target (stepCallback st) due (stepArguments st)
      (if n = 1 then 0 else cycle) n h = (k, h1)" by fastforce
  note op = Cons.prems(1)
  have base: "host_base h" using op by (auto simp: under_construction_def)
  show ?case
  proof (cases "k = 0")
    case True
    have "r = None" "h' = fold (\<lambda>t g. snd (cancelCall t g)) created h1"
      using Cons.prems(5) k True by (simp_all add: due_def [symmetric])
    then show ?thesis using scheduleSteps_failure [OF op Cons.prems(2,3)] k True by simp
  next
    case False
    let ?h2 = "h1\<lparr>hostTimerSequence := fst (om_emplace k i (hostTimerSequence h1))\<rparr>"
    have run: "scheduleSteps target i n cycle steps due (created @ [k]) ?h2 = (r, h')"
      using Cons.prems(5) k False by (simp add: due_def [symmetric])
    note G = grown_call [OF base Cons.prems(3) k False]
    have op2: "under_construction i (created @ [k]) ?h2" using op k False by (rule under_construction_step)
    have g2: "grown (created @ [k]) h0 ?h2" using G(1) by (simp add: grown_index)
    have "step_scheduled target n h1 k (st, due)"
      using G(2) [of "stepDelay st", unfolded step_eta] .
    moreover have "list_all2 (step_scheduled target n h1) created done_steps"
      using Cons.prems(4) G(3) by (rule list_all2_mono)
    ultimately have l2: "list_all2 (step_scheduled target n ?h2) (created @ [k]) (done_steps @ [(st, due)])"
      by (simp add: list_all2_appendI step_scheduled_index)
    from Cons.IH [OF op2 Cons.prems(2) g2 l2 run] show ?thesis
      by (cases r) (simp_all add: Let_def due_def)
  qed
qed

end
