(* ===== verification/Host_Properties.thy ===== *)
theory Host_Properties
  imports Host_Sequences "HOL-Library.Code_Target_Nat"
begin

text \<open>
  The properties of \<open>GameplayHost\<close>: saving and restoring, the correspondence of timers and
  calls, the order of dispatch, sequences, and the one way a call can lose its timer.
\<close>

definition exampleTimer :: GameplayHost where
  "exampleTimer = host_apply (HSchedule 7 ''tick'' 1 [] 5 0) (newHost 60 1 2)"

definition exampleSteps :: "ScriptSequenceStep list" where
  "exampleSteps =
     [\<lparr>stepDelay = 2, stepCallback = ''a'', stepArguments = []\<rparr>,
      \<lparr>stepDelay = 3, stepCallback = ''b'', stepArguments = [GvBool True]\<rparr>]"

definition exampleSequence :: GameplayHost where
  "exampleSequence = host_apply (HStartSequence 7 exampleSteps 1) exampleTimer"

definition exampleHost :: GameplayHost where
  "exampleHost =
     host_apply (HPublish ''door'' [GvInt 4] 1)
       (host_apply (HSubscribe ''door'' 7 ''onDoor'' 5)
         (host_apply (HSubscribe ''door'' 8 ''onDoor'' 0xffffffff) exampleSequence))"

lemma exampleNew_eq:
  "newHost 60 1 2 =
     \<lparr>hostCore = \<lparr>rtEntities = \<lparr>slots = [], freeIndices = [], aliveCount = 0\<rparr>,
          rtClock = \<lparr>ticksPerSecond = 60, clockTick = 0, accumulatorSeconds = 0, droppedSeconds = 0\<rparr>,
          rtRandom = \<lparr>rsState = 1291329195661654803, rsIncrement = 5\<rparr>,
          rtScheduler = \<lparr>nextId = 1, tasks = [], queue = []\<rparr>,
          rtEvents = \<lparr>eqNextSequence = 1, eqEvents = []\<rparr>\<rparr>,
        hostNextPayload = 1, hostNextSubscription = 1, hostNextSequence = 1, hostCalls = [],
        hostTimerPayload = [], hostSubscriptions = [], hostSequences = [], hostTimerSequence = []\<rparr>"
  by (simp add: newHost_def newRuntime_def emptyRegistry_def newClock_def reseed_def emptyScheduler_def
      emptyEventQueue_def nextUInt_def Let_def pcgStep_def pcgMultiplier_def)

lemma exampleTimer_eq:
  "exampleTimer =
     \<lparr>hostCore = \<lparr>rtEntities = \<lparr>slots = [], freeIndices = [], aliveCount = 0\<rparr>,
          rtClock = \<lparr>ticksPerSecond = 60, clockTick = 0, accumulatorSeconds = 0, droppedSeconds = 0\<rparr>,
          rtRandom = \<lparr>rsState = 1291329195661654803, rsIncrement = 5\<rparr>,
          rtScheduler = \<lparr>nextId = 2, tasks = [(1, \<lparr>taskId = 1, dueTick = 1, intervalTicks = 5, remainingFires = 0, payload = 1\<rparr>)], queue = [QueueKey 1 1]\<rparr>,
          rtEvents = \<lparr>eqNextSequence = 1, eqEvents = []\<rparr>\<rparr>,
        hostNextPayload = 2, hostNextSubscription = 1, hostNextSequence = 1,
        hostCalls = [(1, \<lparr>callPayload = 1, callTimer = 1, callTarget = 7, callCallback = ''tick'', callArguments = []\<rparr>)],
        hostTimerPayload = [(1, 1)], hostSubscriptions = [],
        hostSequences = [], hostTimerSequence = []\<rparr>"
  unfolding exampleTimer_def exampleNew_eq by code_simp

lemma exampleSequence_eq:
  "exampleSequence =
     \<lparr>hostCore = \<lparr>rtEntities = \<lparr>slots = [], freeIndices = [], aliveCount = 0\<rparr>,
          rtClock = \<lparr>ticksPerSecond = 60, clockTick = 0, accumulatorSeconds = 0, droppedSeconds = 0\<rparr>,
          rtRandom = \<lparr>rsState = 1291329195661654803, rsIncrement = 5\<rparr>,
          rtScheduler = \<lparr>nextId = 4, tasks = [(1, \<lparr>taskId = 1, dueTick = 1, intervalTicks = 5, remainingFires = 0, payload = 1\<rparr>),
            (2, \<lparr>taskId = 2, dueTick = 2, intervalTicks = 0, remainingFires = 1, payload = 2\<rparr>),
            (3, \<lparr>taskId = 3, dueTick = 5, intervalTicks = 0, remainingFires = 1, payload = 3\<rparr>)], queue = [QueueKey 1 1, QueueKey 2 2, QueueKey 5 3]\<rparr>,
          rtEvents = \<lparr>eqNextSequence = 1, eqEvents = []\<rparr>\<rparr>,
        hostNextPayload = 4, hostNextSubscription = 1, hostNextSequence = 2,
        hostCalls = [(1, \<lparr>callPayload = 1, callTimer = 1, callTarget = 7, callCallback = ''tick'', callArguments = []\<rparr>),
          (2, \<lparr>callPayload = 2, callTimer = 2, callTarget = 7, callCallback = ''a'', callArguments = []\<rparr>),
          (3, \<lparr>callPayload = 3, callTimer = 3, callTarget = 7, callCallback = ''b'', callArguments = [GvBool True]\<rparr>)],
        hostTimerPayload = [(1, 1), (2, 2), (3, 3)], hostSubscriptions = [],
        hostSequences = [(1, \<lparr>seqId = 1, seqTimers = [2, 3]\<rparr>)], hostTimerSequence = [(2, 1), (3, 1)]\<rparr>"
  unfolding exampleSequence_def exampleTimer_eq by code_simp

lemma exampleHost_eq:
  "exampleHost =
     \<lparr>hostCore = \<lparr>rtEntities = \<lparr>slots = [], freeIndices = [], aliveCount = 0\<rparr>,
          rtClock = \<lparr>ticksPerSecond = 60, clockTick = 0, accumulatorSeconds = 0, droppedSeconds = 0\<rparr>,
          rtRandom = \<lparr>rsState = 1291329195661654803, rsIncrement = 5\<rparr>,
          rtScheduler = \<lparr>nextId = 4, tasks = [(1, \<lparr>taskId = 1, dueTick = 1, intervalTicks = 5, remainingFires = 0, payload = 1\<rparr>),
            (2, \<lparr>taskId = 2, dueTick = 2, intervalTicks = 0, remainingFires = 1, payload = 2\<rparr>),
            (3, \<lparr>taskId = 3, dueTick = 5, intervalTicks = 0, remainingFires = 1, payload = 3\<rparr>)], queue = [QueueKey 1 1, QueueKey 2 2, QueueKey 5 3]\<rparr>,
          rtEvents = \<lparr>eqNextSequence = 2, eqEvents = [(QueueKey 1 1, \<lparr>evDueTick = 1, evSequence = 1, evTarget = 0,
            evTopic = ''door'', evArguments = [GvInt 4]\<rparr>)]\<rparr>\<rparr>,
        hostNextPayload = 4, hostNextSubscription = 3, hostNextSequence = 2,
        hostCalls = [(1, \<lparr>callPayload = 1, callTimer = 1, callTarget = 7, callCallback = ''tick'', callArguments = []\<rparr>),
          (2, \<lparr>callPayload = 2, callTimer = 2, callTarget = 7, callCallback = ''a'', callArguments = []\<rparr>),
          (3, \<lparr>callPayload = 3, callTimer = 3, callTarget = 7, callCallback = ''b'', callArguments = [GvBool True]\<rparr>)],
        hostTimerPayload = [(1, 1), (2, 2), (3, 3)], hostSubscriptions = [(1, \<lparr>subId = 1, subTopic = ''door'', subTarget = 8, subCallback = ''onDoor'', subPriority = 0xffffffff\<rparr>),
          (2, \<lparr>subId = 2, subTopic = ''door'', subTarget = 7, subCallback = ''onDoor'', subPriority = 5\<rparr>)],
        hostSequences = [(1, \<lparr>seqId = 1, seqTimers = [2, 3]\<rparr>)], hostTimerSequence = [(2, 1), (3, 1)]\<rparr>"
  unfolding exampleHost_def exampleSequence_eq by code_simp

lemma exampleTimer_reach: "host_reach_safe exampleTimer" "host_reach exampleTimer"
  unfolding exampleTimer_def by (rule safe_step [OF safe_new], simp) (rule reach_step [OF reach_new])

lemma exampleHost_reach: "host_reach exampleHost"
  unfolding exampleHost_def exampleSequence_def by (intro reach_step exampleTimer_reach)

lemma exampleHost_reach_safe: "host_reach_safe exampleHost"
  unfolding exampleHost_def exampleSequence_def by (intro safe_step exampleTimer_reach) simp_all

lemma exampleHost_counters:
  "hostNextPayload exampleHost = 4 \<and> hostNextSubscription exampleHost = 3 \<and> hostNextSequence exampleHost = 2 \<and>
   nextId (rtScheduler (hostCore exampleHost)) = 4"
  by (simp add: exampleHost_eq)

text \<open>
  C31: the snapshot of any host the program can reach restores to exactly that host, as long as
  its counters have not wrapped and no drain met a repeating timer whose next tick overflows.
\<close>

theorem reachable_host_restores:
  assumes "host_reach_safe h"
    and "nextId (rtScheduler (hostCore h)) \<noteq> 0" and "hostNextPayload h \<noteq> 0"
    and "hostNextSubscription h \<noteq> 0" and "hostNextSequence h \<noteq> 0"
  shows "host_restore (host_snapshot h) = Some h"
  using host_reach_safe_inv [OF assms(1)] assms(2-5)
  by (intro host_save.restore_snapshot host_inv_ok) simp_all

theorem reachable_host_restores_witness:
  "host_restore (host_snapshot exampleHost) = Some exampleHost"
  by (rule reachable_host_restores [OF exampleHost_reach_safe]) (simp_all add: exampleHost_counters)

text \<open>
  C32: \<open>restore\<close> of the host validates: what it accepts is consistent across its maps, every
  call has its timer with the payload of the call, and it saves and restores unchanged.
\<close>

theorem host_restore_validates:
  assumes "host_restore st = Some h"
  shows "host_ok h \<and> host_restore (host_snapshot h) = Some h"
  using host_save.restore_inv [OF assms] host_save.restore_idem [OF assms] by blast

theorem host_restore_validates_witness: "host_ok exampleHost"
proof -
  have "host_restore (host_snapshot exampleHost) = Some exampleHost"
    using host_reach_safe_inv [OF exampleHost_reach_safe] exampleHost_counters
    by (intro host_restore_snapshot host_inv_ok) simp_all
  then show ?thesis by (rule host_restore_validates [THEN conjunct1])
qed





text \<open>
  An event on a topic is delivered to exactly the subscriptions of that topic, each once,
  in the order of the signed priority and then of the subscription identifier.
\<close>

theorem subscribers_in_order:
  assumes "host_reach h"
  shows "set (subscribersOf topic h) =
      {s. om_find (hostSubscriptions h) (subId s) = Some s \<and> subTopic s = topic} \<and>
    sorted_wrt (\<lambda>a b. (sint (subPriority a), subId a) < (sint (subPriority b), subId b))
      (subscribersOf topic h)"
proof -
  let ?us = "map snd (hostSubscriptions h)" and ?key = "\<lambda>s. (sint (subPriority s), subId s)"
  have subs: "subs_ok h" using host_reach_inv [OF assms] by (simp add: host_inv_def host_base_def)
  then have inv: "om_inv (hostSubscriptions h)"
    and key: "\<And>i s. om_find (hostSubscriptions h) i = Some s \<Longrightarrow> subId s = i"
    unfolding subs_ok_def by blast+
  have mem: "s \<in> set ?us \<longleftrightarrow> om_find (hostSubscriptions h) (subId s) = Some s" for s
  proof
    assume "s \<in> set ?us"
    then obtain i where "om_find (hostSubscriptions h) i = Some s" using om_find_iff [OF inv] by force
    with key show "om_find (hostSubscriptions h) (subId s) = Some s" by simp
  next
    assume "om_find (hostSubscriptions h) (subId s) = Some s"
    then have "(subId s, s) \<in> set (hostSubscriptions h)" using om_find_iff [OF inv] by blast
    then show "s \<in> set ?us" by (auto intro: rev_image_eqI)
  qed
  have "distinct (map subId ?us)" using om_values_keys(2) [OF inv, of subId] key by blast
  then have "distinct (map ?key (filter (\<lambda>s. subTopic s = topic) ?us))"
    by (auto simp: distinct_map inj_on_def)
  then have "distinct (map ?key (subscribersOf topic h))"
    by (simp add: subscribersOf_def distinct_map)
  moreover have "sorted (map ?key (subscribersOf topic h))" by (simp add: subscribersOf_def)
  ultimately have "sorted_wrt (<) (map ?key (subscribersOf topic h))" by (simp add: strict_sorted_iff)
  moreover have "set (subscribersOf topic h) =
      {s. om_find (hostSubscriptions h) (subId s) = Some s \<and> subTopic s = topic}"
    by (auto simp: subscribersOf_def mem [symmetric] simp del: set_map list.set_map)
  ultimately show ?thesis by (simp add: sorted_wrt_map)
qed

theorem subscribers_in_order_witness:
  "map subTarget (subscribersOf ''door'' exampleHost) = [8, 7] \<and>
   sorted_wrt (\<lambda>a b. (sint (subPriority a), subId a) < (sint (subPriority b), subId b))
     (subscribersOf ''door'' exampleHost)"
proof
  show "map subTarget (subscribersOf ''door'' exampleHost) = [8, 7]" unfolding exampleHost_eq by code_simp
qed (rule subscribers_in_order [OF exampleHost_reach, THEN conjunct2])

lemma under_construction_start:
  assumes inv: "host_inv h" and n: "hostNextSequence h \<noteq> 0"
  shows "under_construction (hostNextSequence h) [] (h\<lparr>hostNextSequence := hostNextSequence h + 1\<rparr>)"
proof -
  let ?id = "hostNextSequence h" and ?h0 = "h\<lparr>hostNextSequence := hostNextSequence h + 1\<rparr>"
  have base: "host_base h" and idx: "seq_index (sequence_timers h) h" using inv by (simp_all add: host_inv_def)
  have free: "om_find (hostSequences h) ?id = None"
    using host_baseD(6) [OF base] n unfolding seqs_ok_def by (metis less_irrefl not_Some_eq)
  have base0: "host_base ?h0"
    using base below_next [of "hostNextSequence h"] n
    by (auto simp: host_base_def calls_ok_def subs_ok_def seqs_ok_def tasks_linked_def timers_below_def)
  have same0: "sequence_timers ?h0 = sequence_timers h" by (rule sequence_timers_other) simp
  have "(sequence_timers h)(?id := {}) = sequence_timers h"
    using free by (simp add: sequence_timers_def fun_eq_iff)
  then show ?thesis
    using base0 free idx by (simp add: under_construction_def same0) (simp add: seq_index_def)
qed

lemma startSequence_result:
  assumes inv: "host_inv h" and eq: "startSequence target steps n h = (i, h')"
  shows "if i = 0 then same_calls h h'
    else \<exists>timers. om_find (hostSequences h') i = Some \<lparr>seqId = i, seqTimers = timers\<rparr> \<and>
      distinct timers \<and> list_all2 (step_scheduled target n h') timers (zip steps (step_offsets steps 0)) \<and>
      (\<forall>k. k \<notin> set timers \<longrightarrow> om_find (host_tasks h') k = om_find (host_tasks h) k)"
proof (cases "target = 0 \<or> steps = [] \<or> hostNextSequence h = 0 \<or> cycleLength steps 0 = None")
  case True
  with eq have "i = 0" "h' = h" by (auto simp: startSequence_def split: if_splits)
  then show ?thesis by (simp add: same_calls_def)
next
  case False
  then obtain cycle where cycle: "cycleLength steps 0 = Some cycle" by auto
  let ?id = "hostNextSequence h" and ?h0 = "h\<lparr>hostNextSequence := hostNextSequence h + 1\<rparr>"
  obtain r h1 where r: "scheduleSteps target ?id n cycle steps 0 [] ?h0 = (r, h1)" by fastforce
  have op: "under_construction ?id [] ?h0" using under_construction_start [OF inv] False by simp
  have calls: "calls_ok ?h0" using inv by (simp add: host_inv_def host_base_def calls_ok_def)
  note G = scheduleSteps_grown [OF op calls grown_refl list_all2_Nil [THEN iffD2, OF refl] r]
    and E = scheduleSteps_effect [OF op r]
  show ?thesis
  proof (cases r)
    case None
    with eq False cycle r have "i = 0" "h' = h1" by (auto simp: startSequence_def Let_def)
    moreover have "same_calls ?h0 h1" using G None by simp
    moreover have "sequence_timers ?h0 = sequence_timers h" by (rule sequence_timers_other) simp
    ultimately show ?thesis by (simp add: same_calls_def)
  next
    case (Some timers)
    with E have u: "under_construction ?id timers h1" by simp
    then have b1: "host_base h1" and d: "distinct timers" and f1: "om_find (hostSequences h1) ?id = None"
      by (auto simp: under_construction_def)
    have h': "h' = h1\<lparr>hostSequences := om_put ?id \<lparr>seqId = ?id, seqTimers = timers\<rparr> (hostSequences h1)\<rparr>" "i = ?id"
      using eq False cycle r Some f1 by (auto simp: startSequence_def Let_def om_emplace_new)
    have "step_scheduled target n h' = step_scheduled target n h1"
      by (simp add: h' step_scheduled_def fun_eq_iff)
    with G Some have "list_all2 (step_scheduled target n h') timers (zip steps (step_offsets steps 0))"
      and "grown timers ?h0 h1" by simp_all
    with d host_baseD(12) [OF b1] show ?thesis using False by (auto simp: h' grown_def)
  qed
qed

text \<open>
  C35: starting a sequence is all or nothing. Either it returns 0 and every call, timer, task,
  sequence and subscription is as before, or the new sequence owns one timer per step, in
  order, each running the step's callback on the target at the step's accumulated delay, and
  no other task has changed.
\<close>

theorem startSequence_all_or_nothing:
  assumes "host_reach h" and "startSequence target steps n h = (i, h')"
  shows "if i = 0 then same_calls h h'
    else \<exists>timers. om_find (hostSequences h') i = Some \<lparr>seqId = i, seqTimers = timers\<rparr> \<and>
      distinct timers \<and> list_all2 (step_scheduled target n h') timers (zip steps (step_offsets steps 0)) \<and>
      (\<forall>k. k \<notin> set timers \<longrightarrow> om_find (host_tasks h') k = om_find (host_tasks h) k)"
  using startSequence_result [OF host_reach_inv [OF assms(1)] assms(2)] .

theorem startSequence_all_or_nothing_witness:
  "(\<exists>timers. om_find (hostSequences exampleSequence) 1 = Some \<lparr>seqId = 1, seqTimers = timers\<rparr> \<and>
     distinct timers \<and> list_all2 (step_scheduled 7 1 exampleSequence) timers
       (zip exampleSteps (step_offsets exampleSteps 0)) \<and>
     (\<forall>k. k \<notin> set timers \<longrightarrow> om_find (host_tasks exampleSequence) k = om_find (host_tasks exampleTimer) k)) \<and>
   step_offsets exampleSteps 0 = [2, 5]"
proof
  have "startSequence 7 exampleSteps 1 exampleTimer = (1, exampleSequence)"
  proof -
    have "fst (startSequence 7 exampleSteps 1 exampleTimer) = 1" unfolding exampleTimer_eq by code_simp
    then show ?thesis by (simp add: exampleSequence_def prod_eq_iff)
  qed
  from startSequence_all_or_nothing [OF exampleTimer_reach(2) this]
  show "\<exists>timers. om_find (hostSequences exampleSequence) 1 = Some \<lparr>seqId = 1, seqTimers = timers\<rparr> \<and>
     distinct timers \<and> list_all2 (step_scheduled 7 1 exampleSequence) timers
       (zip exampleSteps (step_offsets exampleSteps 0)) \<and>
     (\<forall>k. k \<notin> set timers \<longrightarrow> om_find (host_tasks exampleSequence) k = om_find (host_tasks exampleTimer) k)"
    by (simp only: if_False zero_neq_one [symmetric] cong: if_cong) 
  show "step_offsets exampleSteps 0 = [2, 5]" by code_simp
qed



text \<open>
  The safety condition on drains is needed. A call repeating every \<open>2 ^ 64 - 1\<close> ticks is
  scheduled at tick 0 and due at tick 1; the drain at tick 1 reports it as repeating, the
  scheduler drops it since its next tick overflows, and the host keeps the call: the
  snapshot of this reachable host is refused by \<open>restore\<close>.
\<close>

definition strandedTimer :: GameplayHost where
  "strandedTimer = host_apply (HSchedule 7 ''tick'' 1 [] 0xffffffffffffffff 0) (newHost 60 1 2)"

definition strandedHost :: GameplayHost where
  "strandedHost = host_apply (HDrain 1 9 9) strandedTimer"

lemma strandedTimer_eq:
  "strandedTimer =
     \<lparr>hostCore = \<lparr>rtEntities = \<lparr>slots = [], freeIndices = [], aliveCount = 0\<rparr>,
          rtClock = \<lparr>ticksPerSecond = 60, clockTick = 0, accumulatorSeconds = 0, droppedSeconds = 0\<rparr>,
          rtRandom = \<lparr>rsState = 1291329195661654803, rsIncrement = 5\<rparr>,
          rtScheduler = \<lparr>nextId = 2, tasks = [(1, \<lparr>taskId = 1, dueTick = 1,
            intervalTicks = 0xffffffffffffffff, remainingFires = 0, payload = 1\<rparr>)], queue = [QueueKey 1 1]\<rparr>,
          rtEvents = \<lparr>eqNextSequence = 1, eqEvents = []\<rparr>\<rparr>,
        hostNextPayload = 2, hostNextSubscription = 1, hostNextSequence = 1,
        hostCalls = [(1, \<lparr>callPayload = 1, callTimer = 1, callTarget = 7, callCallback = ''tick'',
          callArguments = []\<rparr>)],
        hostTimerPayload = [(1, 1)], hostSubscriptions = [], hostSequences = [], hostTimerSequence = []\<rparr>"
  unfolding strandedTimer_def exampleNew_eq by code_simp

lemma strandedHost_eq:
  "host_tasks strandedHost = [] \<and> hostTimerPayload strandedHost = [(1, 1)] \<and>
   hostCalls strandedHost =
     [(1, \<lparr>callPayload = 1, callTimer = 1, callTarget = 7, callCallback = ''tick'', callArguments = []\<rparr>)]"
  unfolding strandedHost_def strandedTimer_eq by code_simp

theorem overflow_strands_call:
  "host_reach strandedHost \<and> host_tasks strandedHost = [] \<and> hostTimerPayload strandedHost = [(1, 1)] \<and>
   host_restore (host_snapshot strandedHost) = None"
proof (intro conjI)
  show "host_reach strandedHost"
    unfolding strandedHost_def strandedTimer_def by (intro reach_step reach_new)
  show "host_restore (host_snapshot strandedHost) = None"
    using strandedHost_eq
    by (simp add: host_restore_def host_snapshot_def runtime_snapshot_def scheduler_snapshot_def
        schedulerPayloads_def split: option.split)
qed (simp_all add: strandedHost_eq)

end
