(* ===== verification/Scene_Driver.thy ===== *)
theory Scene_Driver
  imports Host_Properties "HOL-Library.Sublist"
begin

text \<open>
  The bridge between scripts and the deterministic core in \<open>src/game/GameplayScripting.cpp\<close>:
  the conversions between script values and gameplay values, \<open>SceneGameplayDriver\<close>, which
  steps the clock and invokes what \<open>drainDue\<close> dispatches, and the functions that
  \<open>installGameplayBindings\<close> offers to scripts. The scene the driver runs is a parameter: each
  of its entry points may change its own state \<open>'w\<close> and, since scripts hold the host through
  the bindings, the host.
\<close>

section \<open>Values across the boundary\<close>

fun toRuntimeValue :: "GameplayValue \<Rightarrow> Value" where
  "toRuntimeValue GvNone = VNone"
| "toRuntimeValue (GvBool b) = VBool b"
| "toRuntimeValue (GvInt n) = VInt (scast n)"
| "toRuntimeValue (GvLong n) = VLong n"
| "toRuntimeValue (GvDouble x) = VDouble x"
| "toRuntimeValue (GvString s) = VString s"
| "toRuntimeValue (GvEntity e) = VLong (entity_packed e)"

fun toGameplayValue :: "Value \<Rightarrow> GameplayValue option" where
  "toGameplayValue VNone = Some GvNone"
| "toGameplayValue (VBool b) = Some (GvBool b)"
| "toGameplayValue (VInt n) = Some (GvInt (ucast n))"
| "toGameplayValue (VLong n) = Some (GvLong n)"
| "toGameplayValue (VDouble x) = Some (GvDouble x)"
| "toGameplayValue (VString s) = Some (GvString s)"
| "toGameplayValue _ = None"

section \<open>The driver\<close>

record 'w SceneOps =
  scInvoke :: "u64 \<Rightarrow> string \<Rightarrow> Value list \<Rightarrow> 'w \<times> GameplayHost \<Rightarrow> string option \<times> 'w \<times> GameplayHost"
  scFixedUpdate :: "f64 \<Rightarrow> 'w \<times> GameplayHost \<Rightarrow> 'w \<times> GameplayHost"
  scEvaluateTriggers :: "'w \<times> GameplayHost \<Rightarrow> nat \<times> 'w \<times> GameplayHost"
  scFlushEvents :: "'w \<times> GameplayHost \<Rightarrow> nat \<times> 'w \<times> GameplayHost"

record DriverOptions =
  maximumCatchUpSteps :: u32
  timerBudgetPerTick :: nat
  eventBudgetPerTick :: nat
  evaluateTriggers :: bool
  flushSceneEvents :: bool

definition defaultOptions :: DriverOptions where
  "defaultOptions = \<lparr>maximumCatchUpSteps = 8, timerBudgetPerTick = 4096, eventBudgetPerTick = 4096,
     evaluateTriggers = True, flushSceneEvents = True\<rparr>"

record StepResult =
  srTick :: u64
  srAttempted :: nat
  srSucceeded :: nat
  srTimers :: nat
  srEvents :: nat
  srTriggers :: nat
  srFlushed :: nat

definition emptyStepResult :: StepResult where
  "emptyStepResult = \<lparr>srTick = 0, srAttempted = 0, srSucceeded = 0, srTimers = 0, srEvents = 0,
     srTriggers = 0, srFlushed = 0\<rparr>"

record SceneScriptError =
  seTarget :: u64
  seCallback :: string
  seError :: string

text \<open>A driver without a host, \<open>None\<close>, does nothing.\<close>

record 'w Driver =
  drScene :: 'w
  drHost :: "GameplayHost option"
  drErrors :: "SceneScriptError list"

text \<open>
  The loop over the dispatched calls: the number that succeeded and the errors, in order.
  \<open>None\<close> of \<open>scInvoke\<close> is success.
\<close>

fun invokeCalls ::
    "'w SceneOps \<Rightarrow> ScriptDispatchCall list \<Rightarrow> 'w \<times> GameplayHost \<Rightarrow>
     nat \<times> SceneScriptError list \<times> 'w \<times> GameplayHost" where
  "invokeCalls ops [] wh = (0, [], wh)"
| "invokeCalls ops (call # calls) wh =
     (case scInvoke ops (dcTarget call) (dcCallback call) (map toRuntimeValue (dcArguments call)) wh of
        (None, wh1) \<Rightarrow>
          (case invokeCalls ops calls wh1 of (n, es, wh2) \<Rightarrow> (Suc n, es, wh2))
      | (Some e, wh1) \<Rightarrow>
          (case invokeCalls ops calls wh1 of (n, es, wh2) \<Rightarrow>
             (n, \<lparr>seTarget = dcTarget call, seCallback = dcCallback call, seError = e\<rparr> # es, wh2)))"

definition stepClock :: "GameplayHost \<Rightarrow> GameplayHost" where
  "stepClock h = h\<lparr>hostCore := (hostCore h)\<lparr>rtClock := snd (clock_step (rtClock (hostCore h)))\<rparr>\<rparr>"

definition driver_step :: "'w SceneOps \<Rightarrow> DriverOptions \<Rightarrow> 'w Driver \<Rightarrow> StepResult \<times> 'w Driver" where
  "driver_step ops options d =
     (case drHost d of
        None \<Rightarrow> (emptyStepResult, d)
      | Some h \<Rightarrow>
          (let h1 = stepClock h;
               tick = host_tick h1;
               (batch, h2) = drainDue tick (timerBudgetPerTick options) (eventBudgetPerTick options) h1;
               (succeeded, errors, w3, h3) = invokeCalls ops (batchCalls batch) (drScene d, h2);
               wh4 = scFixedUpdate ops (fixedDeltaSeconds (rtClock (hostCore h3))) (w3, h3);
               (triggers, wh5) = (if evaluateTriggers options then scEvaluateTriggers ops wh4 else (0, wh4));
               (flushed, w6, h6) = (if flushSceneEvents options then scFlushEvents ops wh5 else (0, wh5))
           in (\<lparr>srTick = tick, srAttempted = length (batchCalls batch), srSucceeded = succeeded,
                srTimers = batchTimers batch, srEvents = batchEvents batch,
                srTriggers = triggers, srFlushed = flushed\<rparr>,
               \<lparr>drScene = w6, drHost = Some h6, drErrors = drErrors d @ errors\<rparr>)))"

fun driver_steps ::
    "'w SceneOps \<Rightarrow> DriverOptions \<Rightarrow> nat \<Rightarrow> 'w Driver \<Rightarrow> StepResult list \<times> 'w Driver" where
  "driver_steps ops options 0 d = ([], d)"
| "driver_steps ops options (Suc n) d =
     (let (r, d1) = driver_step ops options d; (rs, d2) = driver_steps ops options n d1 in (r # rs, d2))"

definition advanceTicks ::
    "'w SceneOps \<Rightarrow> DriverOptions \<Rightarrow> u32 \<Rightarrow> 'w Driver \<Rightarrow> StepResult list \<times> 'w Driver" where
  "advanceTicks ops options ticks d = driver_steps ops options (unat ticks) d"

text \<open>\<open>None\<close> where the conversion in \<open>accumulate\<close> is undefined.\<close>

definition driver_advance ::
    "'w SceneOps \<Rightarrow> DriverOptions \<Rightarrow> f64 \<Rightarrow> 'w Driver \<Rightarrow>
     ((AdvanceResult \<times> StepResult list) \<times> 'w Driver) option" where
  "driver_advance ops options elapsedSeconds d =
     (case drHost d of
        None \<Rightarrow> Some ((\<lparr>arSteps = 0, arInterpolationAlpha = 0, arDroppedSeconds = 0\<rparr>, []), d)
      | Some h \<Rightarrow>
          (case accumulate elapsedSeconds (maximumCatchUpSteps options) (rtClock (hostCore h)) of
             None \<Rightarrow> None
           | Some (r, c) \<Rightarrow>
               (let d1 = d\<lparr>drHost := Some (h\<lparr>hostCore := (hostCore h)\<lparr>rtClock := c\<rparr>\<rparr>)\<rparr>;
                    (steps, d2) = driver_steps ops options (unat (arSteps r)) d1
                in Some ((r, steps), d2))))"

section \<open>The functions offered to scripts\<close>

text \<open>Script integers are 64-bit, \<open>int\<close> parameters 32-bit; both are two's complement words.\<close>

definition bindCurrentTick :: "GameplayHost \<Rightarrow> u64" where
  "bindCurrentTick h = host_tick h"

definition bindCreateEntity :: "GameplayHost \<Rightarrow> u64 \<times> GameplayHost" where
  "bindCreateEntity h =
     (let (e, r) = registry_create (rtEntities (hostCore h))
      in (if entity_valid e then entity_packed e else 0, h\<lparr>hostCore := (hostCore h)\<lparr>rtEntities := r\<rparr>\<rparr>))"

definition bindDestroyEntity :: "u64 \<Rightarrow> GameplayHost \<Rightarrow> bool \<times> GameplayHost" where
  "bindDestroyEntity v h =
     (let (b, r) = registry_destroy (entity_fromPacked v) (rtEntities (hostCore h))
      in (b, h\<lparr>hostCore := (hostCore h)\<lparr>rtEntities := r\<rparr>\<rparr>))"

definition bindIsEntityAlive :: "u64 \<Rightarrow> GameplayHost \<Rightarrow> bool" where
  "bindIsEntityAlive v h = registry_alive (entity_fromPacked v) (rtEntities (hostCore h))"

definition bindRandomInt :: "u32 \<Rightarrow> u32 \<Rightarrow> GameplayHost \<Rightarrow> (u32 \<times> GameplayHost) option" where
  "bindRandomInt minimumInclusive maximumExclusive h =
     map_option (\<lambda>(v, r). (v, h\<lparr>hostCore := (hostCore h)\<lparr>rtRandom := r\<rparr>\<rparr>))
       (nextInt minimumInclusive maximumExclusive (rtRandom (hostCore h)))"

definition bindSchedule :: "u64 \<Rightarrow> string \<Rightarrow> u32 \<Rightarrow> GameplayHost \<Rightarrow> u64 \<times> GameplayHost" where
  "bindSchedule target callback delayTicks h =
     (if sint delayTicks < 0 then (0, h)
      else scheduleCall target callback (scast delayTicks) [] 0 1 h)"

definition bindScheduleRepeating ::
    "u64 \<Rightarrow> string \<Rightarrow> u32 \<Rightarrow> u32 \<Rightarrow> u32 \<Rightarrow> GameplayHost \<Rightarrow> u64 \<times> GameplayHost" where
  "bindScheduleRepeating target callback delayTicks interval repeatCount h =
     (if sint delayTicks < 0 \<or> sint interval \<le> 0 \<or> sint repeatCount < 0 then (0, h)
      else scheduleCall target callback (scast delayTicks) [] (scast interval) repeatCount h)"

definition bindCancelTimer :: "u64 \<Rightarrow> GameplayHost \<Rightarrow> bool \<times> GameplayHost" where
  "bindCancelTimer timerId h = (if 0 < sint timerId then cancelCall timerId h else (False, h))"

definition bindPublish :: "string \<Rightarrow> u32 \<Rightarrow> GameplayHost \<Rightarrow> u64 \<times> GameplayHost" where
  "bindPublish topic delayTicks h =
     (if sint delayTicks < 0 then (0, h) else publish topic [] (scast delayTicks) h)"

section \<open>What the driver does\<close>

lemma int_roundtrip: "scast (ucast n :: u32) = n \<longleftrightarrow> - (2 ^ 31) \<le> sint n \<and> sint n < 2 ^ 31" for n :: u64
proof -
  have "sint (scast (ucast n :: u32) :: u64) = signed_take_bit 31 (sint n)"
    by transfer (simp add: signed_take_bit_take_bit min_def)
  then have "scast (ucast n :: u32) = n \<longleftrightarrow> signed_take_bit 31 (sint n) = sint n"
    by (metis signed_word_eqI)
  then show ?thesis by (simp add: signed_take_bit_int_eq_self_iff)
qed

lemma invokeCalls_accounts:
  assumes "invokeCalls ops calls wh = (n, es, wh')"
  shows "n + length es = length calls"
    and "subseq (map (\<lambda>e. (seTarget e, seCallback e)) es) (map (\<lambda>c. (dcTarget c, dcCallback c)) calls)"
  using assms
  by (induction calls arbitrary: wh n es wh') (auto split: prod.splits option.splits)

text \<open>What the scene does to the host: every entry point keeps \<open>P\<close>.\<close>

definition scene_keeps :: "(GameplayHost \<Rightarrow> bool) \<Rightarrow> 'w SceneOps \<Rightarrow> bool" where
  "scene_keeps P ops \<longleftrightarrow>
     (\<forall>w h. P h \<longrightarrow>
        (\<forall>target callback arguments. P (snd (snd (scInvoke ops target callback arguments (w, h))))) \<and>
        (\<forall>dt. P (snd (scFixedUpdate ops dt (w, h)))) \<and>
        P (snd (snd (scEvaluateTriggers ops (w, h)))) \<and> P (snd (snd (scFlushEvents ops (w, h)))))"

lemma scene_keepsD:
  assumes "scene_keeps P ops" and "P (snd wh)"
  shows "P (snd (snd (scInvoke ops target callback arguments wh)))"
    "P (snd (scFixedUpdate ops dt wh))"
    "P (snd (snd (scEvaluateTriggers ops wh)))" "P (snd (snd (scFlushEvents ops wh)))"
  using assms by (cases wh; simp add: scene_keeps_def)+

lemma invokeCalls_keeps:
  assumes keeps: "scene_keeps P ops" and "P (snd wh)"
  shows "P (snd (snd (snd (invokeCalls ops calls wh))))"
  using assms(2)
proof (induction calls arbitrary: wh)
  case Nil
  then show ?case by simp
next
  case (Cons c calls)
  obtain r wh1 where r: "scInvoke ops (dcTarget c) (dcCallback c) (map toRuntimeValue (dcArguments c)) wh = (r, wh1)"
    by (rule prod.exhaust)
  have "P (snd wh1)" using scene_keepsD(1) [OF keeps Cons.prems] r by (metis snd_conv)
  from Cons.IH [OF this] r show ?case
    by (cases r; cases "invokeCalls ops calls wh1") (auto split: prod.splits)
qed

lemma driver_step_host:
  assumes step: "driver_step ops options d = (r, d')" and h: "drHost d = Some h"
  obtains batch h2 succeeded es wh3 h6 where
    "drainDue (host_tick (stepClock h)) (timerBudgetPerTick options) (eventBudgetPerTick options) (stepClock h) = (batch, h2)"
    and "invokeCalls ops (batchCalls batch) (drScene d, h2) = (succeeded, es, wh3)"
    and "drErrors d' = drErrors d @ es" and "drHost d' = Some h6"
    and "srTick r = host_tick (stepClock h)" and "srAttempted r = length (batchCalls batch)"
    and "srSucceeded r = succeeded"
    and "\<And>P. scene_keeps P ops \<Longrightarrow> P h2 \<Longrightarrow> P h6"
proof -
  obtain batch h2 where dr: "drainDue (host_tick (stepClock h)) (timerBudgetPerTick options)
      (eventBudgetPerTick options) (stepClock h) = (batch, h2)" by fastforce
  obtain succeeded es w3 h3 where inv: "invokeCalls ops (batchCalls batch) (drScene d, h2) = (succeeded, es, w3, h3)"
    by (metis prod.collapse)
  obtain wh4 where wh4: "scFixedUpdate ops (fixedDeltaSeconds (rtClock (hostCore h3))) (w3, h3) = wh4" by blast
  obtain triggers wh5 where tr: "(if evaluateTriggers options then scEvaluateTriggers ops wh4 else (0, wh4)) = (triggers, wh5)"
    by (rule prod.exhaust)
  obtain flushed w6 h6 where fl: "(if flushSceneEvents options then scFlushEvents ops wh5 else (0, wh5)) = (flushed, w6, h6)"
    by (metis prod.collapse)
  have eq: "r = \<lparr>srTick = host_tick (stepClock h), srAttempted = length (batchCalls batch), srSucceeded = succeeded,
                srTimers = batchTimers batch, srEvents = batchEvents batch,
                srTriggers = triggers, srFlushed = flushed\<rparr>"
    "d' = \<lparr>drScene = w6, drHost = Some h6, drErrors = drErrors d @ es\<rparr>"
    using step unfolding driver_step_def h option.case Let_def dr inv prod.case wh4 tr fl by simp_all
  have keep: "P h6" if K: "scene_keeps P ops" and P: "P h2" for P
  proof -
    have "P h3" using invokeCalls_keeps [OF K, of "(drScene d, h2)" "batchCalls batch"] P inv by simp
    then have "P (snd wh4)" using scene_keepsD(2) [OF K, of "(w3, h3)"] by (simp add: wh4 [symmetric])
    then have "P (snd wh5)" using scene_keepsD(3) [OF K, of wh4] tr by (auto split: if_splits)
    then show "P h6" using scene_keepsD(4) [OF K, of wh5] fl by (auto split: if_splits)
  qed
  show thesis
  proof (rule that [OF dr inv])
    show "P h6" if "scene_keeps P ops" "P h2" for P using that by (rule keep)
  qed (simp_all add: eq)
qed

lemma stepClock_apply: "stepClock h = host_apply HStep h"
  by (simp add: stepClock_def)

lemma driver_step_reach:
  assumes keeps: "scene_keeps host_reach ops" and h: "drHost d = Some h" "host_reach h"
    and step: "driver_step ops options d = (r, d')"
  shows "\<exists>h'. drHost d' = Some h' \<and> host_reach h'"
  using step h(1)
proof (rule driver_step_host)
  fix batch h2 h6
  assume dr: "drainDue (host_tick (stepClock h)) (timerBudgetPerTick options) (eventBudgetPerTick options) (stepClock h) = (batch, h2)"
    and h6: "drHost d' = Some h6" and keep: "\<And>P. scene_keeps P ops \<Longrightarrow> P h2 \<Longrightarrow> P h6"
  have "h2 = host_apply (HDrain (host_tick (stepClock h)) (timerBudgetPerTick options)
      (eventBudgetPerTick options)) (host_apply HStep h)"
    using dr by (simp add: stepClock_apply)
  then have "host_reach h2" using reach_step [OF reach_step [OF h(2)]] by metis
  with keep [OF keeps] h6 show ?thesis by blast
qed

lemma driver_steps_reach:
  assumes keeps: "scene_keeps host_reach ops" and "drHost d = Some h" and "host_reach h"
  shows "length (fst (driver_steps ops options n d)) = n \<and>
    (\<exists>h'. drHost (snd (driver_steps ops options n d)) = Some h' \<and> host_reach h')"
  using assms(2,3)
proof (induction n arbitrary: d h)
  case 0
  then show ?case by simp
next
  case (Suc n)
  obtain r d1 where step: "driver_step ops options d = (r, d1)" by fastforce
  obtain h1 where h1: "drHost d1 = Some h1" "host_reach h1"
    using driver_step_reach [OF keeps Suc.prems step] by blast
  from Suc.IH [OF h1] step show ?case by (simp add: Let_def split_beta)
qed

text \<open>Only the driver moves the clock.\<close>

lemma eraseCall_clock: "rtClock (hostCore (snd (eraseCall k b h))) = rtClock (hostCore h)"
  by (auto simp: eraseCall_def detachTimerFromSequences_def Let_def split: option.split)

lemma dispatchTimers_clock: "rtClock (hostCore (snd (dispatchTimers fired h))) = rtClock (hostCore h)"
  by (induction fired arbitrary: h) (auto simp: Let_def split_beta eraseCall_clock split: option.split)

lemma drainDue_clock: "rtClock (hostCore (snd (drainDue now tb eb h))) = rtClock (hostCore h)"
  by (simp add: drainDue_def Let_def split_beta dispatchTimers_clock)

definition keeps_clock :: "'w SceneOps \<Rightarrow> bool" where
  "keeps_clock ops \<longleftrightarrow> (\<forall>c. scene_keeps (\<lambda>h. rtClock (hostCore h) = c) ops)"

text \<open>The next ticks of the clock, which stops at the largest value.\<close>

definition nextTick :: "u64 \<Rightarrow> u64" where
  "nextTick t = (if t \<noteq> - 1 then t + 1 else t)"

fun ticks_from :: "u64 \<Rightarrow> nat \<Rightarrow> u64 list" where
  "ticks_from t 0 = []"
| "ticks_from t (Suc n) = nextTick t # ticks_from (nextTick t) n"

lemma clock_step_tick: "clockTick (snd (clock_step c)) = nextTick (clockTick c)"
  by (simp add: clock_step_def Let_def nextTick_def)

lemma driver_step_tick:
  assumes clock: "keeps_clock ops" and h: "drHost d = Some h" and step: "driver_step ops options d = (r, d')"
  shows "srTick r = nextTick (host_tick h)"
    and "\<exists>h'. drHost d' = Some h' \<and> host_tick h' = nextTick (host_tick h)"
proof -
  have "srTick r = nextTick (host_tick h) \<and>
      (\<exists>h'. drHost d' = Some h' \<and> host_tick h' = nextTick (host_tick h))"
    using step h
  proof (rule driver_step_host)
    fix batch h2 h6
    assume dr: "drainDue (host_tick (stepClock h)) (timerBudgetPerTick options) (eventBudgetPerTick options) (stepClock h) = (batch, h2)"
      and tick: "srTick r = host_tick (stepClock h)"
      and h6: "drHost d' = Some h6" and keep: "\<And>P. scene_keeps P ops \<Longrightarrow> P h2 \<Longrightarrow> P h6"
    have "rtClock (hostCore h2) = rtClock (hostCore (stepClock h))"
      using drainDue_clock [of "host_tick (stepClock h)" "timerBudgetPerTick options"
          "eventBudgetPerTick options" "stepClock h"] dr by simp
    then have "rtClock (hostCore h6) = rtClock (hostCore (stepClock h))"
      using keep [of "\<lambda>g. rtClock (hostCore g) = rtClock (hostCore (stepClock h))"] clock
      by (simp add: keeps_clock_def)
    then show ?thesis using tick h6 by (simp add: stepClock_def clock_step_tick)
  qed
  then show "srTick r = nextTick (host_tick h)"
    "\<exists>h'. drHost d' = Some h' \<and> host_tick h' = nextTick (host_tick h)" by blast+
qed

lemma driver_steps_ticks:
  assumes clock: "keeps_clock ops" and "drHost d = Some h"
  shows "map srTick (fst (driver_steps ops options n d)) = ticks_from (host_tick h) n"
  using assms(2)
proof (induction n arbitrary: d h)
  case 0
  then show ?case by simp
next
  case (Suc n)
  obtain r d1 where step: "driver_step ops options d = (r, d1)" by fastforce
  note T = driver_step_tick [OF clock Suc.prems step]
  from T(2) obtain h1 where h1: "drHost d1 = Some h1" "host_tick h1 = nextTick (host_tick h)" by blast
  from Suc.IH [OF h1(1)] h1(2) step T(1) show ?case by (simp add: Let_def split_beta)
qed

section \<open>What scripts can do to the host\<close>

text \<open>Each function offered to scripts is a run of operations of the host.\<close>

lemma bindings_reach:
  assumes "host_reach h"
  shows "host_reach (snd (bindCreateEntity h))" and "host_reach (snd (bindDestroyEntity v h))"
    and "bindRandomInt lo hi h = Some (x, h') \<Longrightarrow> host_reach h'"
    and "host_reach (snd (bindSchedule target callback delay h))"
    and "host_reach (snd (bindScheduleRepeating target callback delay interval n h))"
    and "host_reach (snd (bindCancelTimer k h))" and "host_reach (snd (bindPublish topic delay h))"
proof -
  note R = reach_step [OF assms]
  show "host_reach (snd (bindCreateEntity h))"
    using R [of HCreateEntity] by (simp add: bindCreateEntity_def split_beta Let_def)
  show "host_reach (snd (bindDestroyEntity v h))"
    using R [of "HDestroyEntity (entity_fromPacked v)"] by (simp add: bindDestroyEntity_def split_beta Let_def)
  show "host_reach h'" if "bindRandomInt lo hi h = Some (x, h')"
    using R [of "HDrawInt lo hi"] that by (auto simp: bindRandomInt_def)
  show "host_reach (snd (bindSchedule target callback delay h))"
    using R [of "HSchedule target callback (scast delay) [] 0 1"] assms by (simp add: bindSchedule_def)
  show "host_reach (snd (bindScheduleRepeating target callback delay interval n h))"
    using R [of "HSchedule target callback (scast delay) [] (scast interval) n"] assms
    by (simp add: bindScheduleRepeating_def)
  show "host_reach (snd (bindCancelTimer k h))"
    using R [of "HCancelCall k"] assms by (simp add: bindCancelTimer_def)
  show "host_reach (snd (bindPublish topic delay h))"
    using R [of "HPublish topic [] (scast delay)"] assms by (simp add: bindPublish_def)
qed

section \<open>Properties\<close>

text \<open>
  A gameplay value given to a script and read back is the same value, except that an entity
  comes back as the integer that packs it; in the other direction the conversion is exact for
  every value it accepts other than integers that do not fit 32 bits.
\<close>

theorem gameplay_value_roundtrip:
  "toGameplayValue (toRuntimeValue g) =
     Some (case g of GvEntity e \<Rightarrow> GvLong (entity_packed e) | _ \<Rightarrow> g) \<and>
   (toGameplayValue v = Some g \<longrightarrow>
     (toRuntimeValue g = v \<longleftrightarrow> (case v of VInt n \<Rightarrow> - (2 ^ 31) \<le> sint n \<and> sint n < 2 ^ 31 | _ \<Rightarrow> True)))"
proof (rule conjI)
  have "ucast (scast n :: u64) = n" for n :: u32
    by transfer (simp add: signed_take_bit_take_bit min_def take_bit_signed_take_bit)
  then show "toGameplayValue (toRuntimeValue g) =
     Some (case g of GvEntity e \<Rightarrow> GvLong (entity_packed e) | _ \<Rightarrow> g)"
    by (cases g) simp_all
  show "toGameplayValue v = Some g \<longrightarrow>
     (toRuntimeValue g = v \<longleftrightarrow> (case v of VInt n \<Rightarrow> - (2 ^ 31) \<le> sint n \<and> sint n < 2 ^ 31 | _ \<Rightarrow> True))"
    by (cases v) (auto simp: int_roundtrip)
qed

theorem gameplay_value_roundtrip_witness:
  "toRuntimeValue (GvInt 5) = VInt 5 \<and> toRuntimeValue (GvInt 0) \<noteq> VInt (2 ^ 32)"
proof
  have "toGameplayValue (VInt 5) = Some (GvInt 5)" by simp
  with gameplay_value_roundtrip [of "GvInt 5" "VInt 5"] show "toRuntimeValue (GvInt 5) = VInt 5" by simp
  have "toGameplayValue (VInt (2 ^ 32)) = Some (GvInt 0)" by simp
  with gameplay_value_roundtrip [of "GvInt 0" "VInt (2 ^ 32)"]
  show "toRuntimeValue (GvInt 0) \<noteq> VInt (2 ^ 32)" by simp
qed


text \<open>
  A scene of two scripts: \<open>''tick''\<close> publishes on \<open>''door''\<close> through the bindings, any other
  callback does not exist.
\<close>

definition exampleScene :: "unit SceneOps" where
  "exampleScene =
     \<lparr>scInvoke = \<lambda>target callback arguments (w, h).
        if callback = ''tick'' then (None, w, snd (bindPublish ''door'' 1 h))
        else (Some ''no such method'', w, h),
      scFixedUpdate = \<lambda>dt wh. wh, scEvaluateTriggers = \<lambda>wh. (0, wh), scFlushEvents = \<lambda>wh. (0, wh)\<rparr>"

lemma exampleScene_keeps: "scene_keeps host_reach exampleScene" "keeps_clock exampleScene"
proof -
  show "scene_keeps host_reach exampleScene"
    by (auto simp: scene_keeps_def exampleScene_def bindings_reach)
  have "rtClock (hostCore (snd (bindPublish topic delay h))) = rtClock (hostCore h)" for topic delay h
    by (simp add: bindPublish_def publish_def host_enqueue_def split_beta)
  then show "keeps_clock exampleScene" by (auto simp: scene_keeps_def keeps_clock_def exampleScene_def)
qed

definition exampleDriver :: "unit Driver" where
  "exampleDriver = \<lparr>drScene = (), drHost = Some exampleSequence, drErrors = []\<rparr>"


text \<open>
  \<open>advance\<close> performs exactly the steps the clock grants, at most \<open>maximumCatchUpSteps\<close>, and
  leaves the host in a reachable state, provided the scene's scripts use the host only through
  its operations, as the bindings do.
\<close>

theorem driver_advance_bounded:
  assumes "scene_keeps host_reach ops" and "drHost d = Some h" and "host_reach h"
    and "driver_advance ops options elapsed d = Some ((r, steps), d')"
  shows "length steps = unat (arSteps r) \<and> arSteps r \<le> maximumCatchUpSteps options \<and>
    (\<exists>h'. drHost d' = Some h' \<and> host_reach h')"
proof -
  obtain c where c: "accumulate elapsed (maximumCatchUpSteps options) (rtClock (hostCore h)) = Some (r, c)"
    and run: "driver_steps ops options (unat (arSteps r))
      (d\<lparr>drHost := Some (h\<lparr>hostCore := (hostCore h)\<lparr>rtClock := c\<rparr>\<rparr>)\<rparr>) = (steps, d')"
    using assms(2,4) by (auto simp: driver_advance_def Let_def split: option.splits prod.splits)
  let ?h1 = "h\<lparr>hostCore := (hostCore h)\<lparr>rtClock := c\<rparr>\<rparr>"
  have "?h1 = host_apply (HAccumulate elapsed (maximumCatchUpSteps options)) h" using c by simp
  then have reach: "host_reach ?h1" using reach_step [OF assms(3)] by metis
  have "clock_inv (rtClock (hostCore h))"
    using host_core_inv [OF host_reach_inv [OF assms(3)]] by (simp add: runtime_inv_def)
  with accumulate_keeps [OF _ c] have "arSteps r \<le> maximumCatchUpSteps options" by blast
  with driver_steps_reach [OF assms(1) _ reach, of "d\<lparr>drHost := Some ?h1\<rparr>" options "unat (arSteps r)"] run
  show ?thesis by simp
qed

theorem driver_advance_bounded_witness:
  "\<exists>h'. drHost (snd (the (driver_advance exampleScene defaultOptions 0 exampleDriver))) = Some h' \<and> host_reach h'"
proof -
  have d: "drHost exampleDriver = Some exampleSequence" by (simp add: exampleDriver_def)
  have reach: "host_reach exampleSequence"
    unfolding exampleSequence_def by (intro reach_step exampleTimer_reach)
  let ?r = "\<lparr>arSteps = 0, arInterpolationAlpha = interpolationAlpha (rtClock (hostCore exampleSequence)),
      arDroppedSeconds = 0\<rparr>"
  have "accumulate 0 8 (rtClock (hostCore exampleSequence)) = Some (?r, rtClock (hostCore exampleSequence))"
    using posD [OF pos_0] by (simp add: accumulate_def f64_le_def)
  then have eq: "driver_advance exampleScene defaultOptions 0 exampleDriver =
      Some ((?r, []), exampleDriver\<lparr>drHost := Some exampleSequence\<rparr>)"
    by (simp add: driver_advance_def d defaultOptions_def)
  from driver_advance_bounded [OF exampleScene_keeps(1) d reach eq] eq show ?thesis by simp
qed

text \<open>
  \<open>advanceTicks\<close> runs one step per requested tick and the steps see consecutive ticks, the
  clock stopping at its largest value, whatever the scripts do, as long as they leave the clock
  to the driver.
\<close>

theorem advanceTicks_consecutive:
  assumes "keeps_clock ops" and "drHost d = Some h"
  shows "map srTick (fst (advanceTicks ops options n d)) = ticks_from (host_tick h) (unat n)"
  using driver_steps_ticks [OF assms] by (simp add: advanceTicks_def)

theorem advanceTicks_consecutive_witness:
  "map srTick (fst (advanceTicks exampleScene defaultOptions 3 exampleDriver)) = [1, 2, 3]"
proof -
  have d: "drHost exampleDriver = Some exampleSequence" by (simp add: exampleDriver_def)
  have "ticks_from (host_tick exampleSequence) (Suc (Suc (Suc 0))) = [1, 2, 3]"
    by (simp add: exampleSequence_eq nextTick_def)
  moreover have "unat (3 :: u32) = Suc (Suc (Suc 0))" by simp
  ultimately have "ticks_from (host_tick exampleSequence) (unat (3 :: u32)) = [1, 2, 3]" by (simp only:)
  then show ?thesis using advanceTicks_consecutive [OF exampleScene_keeps(2) d, of defaultOptions 3] by simp
qed

end
