(* ===== verification/State_Codec.thy ===== *)
theory State_Codec
  imports Gameplay_Host
begin

text \<open>
  The binary format of a saved host (\<open>src/game/GameplayStateCodec.cpp\<close>). A writer takes the
  bytes written so far and returns them extended, a reader takes the bytes between its
  position and its end and returns a value and the bytes left; \<open>Inl\<close> is the first error
  recorded in \<open>GameplayStateError\<close> together with the \<open>return false\<close> that follows it.
\<close>

section \<open>Errors and limits\<close>

datatype GameplayStateErrorCode =
    GsNone | GsInvalidState | GsInvalidMagic | GsUnsupportedVersion | GsTruncatedInput
  | GsMalformedInput | GsLimitExceeded | GsHashMismatch

fun gameplayStateErrorCodeName :: "GameplayStateErrorCode \<Rightarrow> string" where
  "gameplayStateErrorCodeName GsNone = ''none''"
| "gameplayStateErrorCodeName GsInvalidState = ''invalid-state''"
| "gameplayStateErrorCodeName GsInvalidMagic = ''invalid-magic''"
| "gameplayStateErrorCodeName GsUnsupportedVersion = ''unsupported-version''"
| "gameplayStateErrorCodeName GsTruncatedInput = ''truncated-input''"
| "gameplayStateErrorCodeName GsMalformedInput = ''malformed-input''"
| "gameplayStateErrorCodeName GsLimitExceeded = ''limit-exceeded''"
| "gameplayStateErrorCodeName GsHashMismatch = ''hash-mismatch''"

datatype GameplayStateError = StateError (gsCode: GameplayStateErrorCode) (gsMessage: string)

record GameplayStateCodecLimits =
  maximumEncodedBytes :: nat
  maximumEntities :: nat
  maximumTasks :: nat
  maximumEvents :: nat
  maximumCalls :: nat
  maximumSubscriptions :: nat
  maximumSequences :: nat
  maximumArgumentsPerCall :: nat
  maximumStringBytes :: nat

definition defaultLimits :: GameplayStateCodecLimits where
  "defaultLimits =
     \<lparr>maximumEncodedBytes = 16 * 1024 * 1024, maximumEntities = 1000000, maximumTasks = 1000000,
      maximumEvents = 1000000, maximumCalls = 1000000, maximumSubscriptions = 1000000,
      maximumSequences = 1000000, maximumArgumentsPerCall = 4096,
      maximumStringBytes = 1 * 1024 * 1024\<rparr>"

type_synonym writer = "u8 list \<Rightarrow> GameplayStateError + u8 list"
type_synonym 'a reader = "u8 list \<Rightarrow> GameplayStateError + ('a \<times> u8 list)"

text \<open>Sequencing, and a loop over a vector.\<close>

definition w_then :: "writer \<Rightarrow> writer \<Rightarrow> writer" where
  "w_then f g = (\<lambda>bytes. case f bytes of Inl e \<Rightarrow> Inl e | Inr bytes' \<Rightarrow> g bytes')"

fun w_all :: "writer list \<Rightarrow> writer" where
  "w_all [] = Inr"
| "w_all (w # ws) = w_then w (w_all ws)"

definition r_return :: "'a \<Rightarrow> 'a reader" where
  "r_return x = (\<lambda>input. Inr (x, input))"

definition r_bind :: "'a reader \<Rightarrow> ('a \<Rightarrow> 'b reader) \<Rightarrow> 'b reader" where
  "r_bind r k = (\<lambda>input. case r input of Inl e \<Rightarrow> Inl e | Inr (x, rest) \<Rightarrow> k x rest)"

fun r_times :: "nat \<Rightarrow> 'a reader \<Rightarrow> 'a list reader" where
  "r_times 0 r = r_return []"
| "r_times (Suc n) r = r_bind r (\<lambda>x. r_bind (r_times n r) (\<lambda>xs. r_return (x # xs)))"

section \<open>Writer\<close>

definition w_u8 :: "u8 \<Rightarrow> writer" where
  "w_u8 value = (\<lambda>bytes. Inr (bytes @ [value]))"

definition w_u32 :: "u32 \<Rightarrow> writer" where
  "w_u32 value = w_all (map (\<lambda>shift. w_u8 (ucast (drop_bit shift value))) [0, 8, 16, 24])"

definition w_u64 :: "u64 \<Rightarrow> writer" where
  "w_u64 value = w_all (map (\<lambda>shift. w_u8 (ucast (drop_bit shift value))) [0, 8, 16, 24, 32, 40, 48, 56])"

definition w_boolean :: "bool \<Rightarrow> writer" where
  "w_boolean value = w_u8 (if value then 1 else 0)"

definition w_number :: "f64 \<Rightarrow> writer" where
  "w_number value = w_u64 (canonicalDoubleBits value)"

definition w_count :: "nat \<Rightarrow> nat \<Rightarrow> string \<Rightarrow> writer" where
  "w_count value maximum name =
     (if maximum < value \<or> 2 ^ 32 - 1 < value
      then (\<lambda>bytes. Inl (StateError GsLimitExceeded (name @ '' exceeds the codec limit'')))
      else w_u32 (of_nat value))"

definition w_withinLimit :: "GameplayStateCodecLimits \<Rightarrow> writer" where
  "w_withinLimit limits = (\<lambda>bytes.
     if maximumEncodedBytes limits < length bytes
     then Inl (StateError GsLimitExceeded ''encoded gameplay state exceeds the byte limit'')
     else Inr bytes)"

definition w_string :: "GameplayStateCodecLimits \<Rightarrow> string \<Rightarrow> writer" where
  "w_string limits value =
     w_all [w_count (length value) (maximumStringBytes limits) ''string length'',
            \<lambda>bytes. Inr (bytes @ map of_char value),
            w_withinLimit limits]"

definition w_value :: "GameplayStateCodecLimits \<Rightarrow> GameplayValue \<Rightarrow> writer" where
  "w_value limits value =
     w_then
       (case value of
          GvNone \<Rightarrow> w_u8 0
        | GvBool b \<Rightarrow> w_then (w_u8 1) (w_boolean b)
        | GvInt n \<Rightarrow> w_then (w_u8 2) (w_u32 n)
        | GvLong n \<Rightarrow> w_then (w_u8 3) (w_u64 n)
        | GvDouble x \<Rightarrow> w_then (w_u8 4) (w_number x)
        | GvString s \<Rightarrow> w_then (w_u8 5) (w_string limits s)
        | GvEntity e \<Rightarrow> w_then (w_u8 6) (w_u64 (entity_packed e)))
       (w_withinLimit limits)"

definition w_arguments :: "GameplayStateCodecLimits \<Rightarrow> GameplayValue list \<Rightarrow> writer" where
  "w_arguments limits arguments =
     w_then (w_count (length arguments) (maximumArgumentsPerCall limits) ''argument count'')
       (w_all (map (w_value limits) arguments))"

definition w_entities :: "GameplayStateCodecLimits \<Rightarrow> EntityRegistry \<Rightarrow> writer" where
  "w_entities limits st =
     w_all [w_count (length (slots st)) (maximumEntities limits) ''entity count'',
            w_all (map (\<lambda>s. w_then (w_u32 (generation s)) (w_boolean (alive s))) (slots st)),
            w_count (length (freeIndices st)) (maximumEntities limits) ''free entity count'',
            w_all (map w_u32 (freeIndices st)),
            w_u64 (aliveCount st)]"

definition w_clock :: "FixedTickClock \<Rightarrow> writer" where
  "w_clock st =
     w_all [w_u32 (ticksPerSecond st), w_u64 (clockTick st), w_number (accumulatorSeconds st),
            w_number (droppedSeconds st)]"

definition w_task :: "TaskState \<Rightarrow> writer" where
  "w_task t =
     w_all [w_u64 (taskId t), w_u64 (dueTick t), w_u64 (intervalTicks t), w_u32 (remainingFires t),
            w_u64 (payload t)]"

definition w_event :: "GameplayStateCodecLimits \<Rightarrow> GameplayEvent \<Rightarrow> writer" where
  "w_event limits e =
     w_all [w_u64 (evDueTick e), w_u64 (evSequence e), w_u64 (evTarget e),
            w_string limits (evTopic e), w_arguments limits (evArguments e)]"

definition writeCore :: "GameplayStateCodecLimits \<Rightarrow> RuntimeState \<Rightarrow> writer" where
  "writeCore limits st =
     w_all [w_entities limits (rsEntities st), w_clock (rsClock st),
            w_u64 (rsState (rsRandom st)), w_u64 (rsIncrement (rsRandom st)),
            w_u64 (stNextId (rsScheduler st)),
            w_count (length (stTasks (rsScheduler st))) (maximumTasks limits) ''task count'',
            w_all (map w_task (stTasks (rsScheduler st))),
            w_u64 (eqsNextSequence (rsEvents st)),
            w_count (length (eqsEvents (rsEvents st))) (maximumEvents limits) ''event count'',
            w_all (map (w_event limits) (eqsEvents (rsEvents st))),
            w_withinLimit limits]"

definition w_call :: "GameplayStateCodecLimits \<Rightarrow> ScheduledScriptCall \<Rightarrow> writer" where
  "w_call limits c =
     w_all [w_u64 (callPayload c), w_u64 (callTimer c), w_u64 (callTarget c),
            w_string limits (callCallback c), w_arguments limits (callArguments c)]"

definition w_subscription :: "GameplayStateCodecLimits \<Rightarrow> ScriptEventSubscription \<Rightarrow> writer" where
  "w_subscription limits s =
     w_all [w_u64 (subId s), w_string limits (subTopic s), w_u64 (subTarget s),
            w_string limits (subCallback s), w_u32 (subPriority s)]"

definition w_sequence :: "GameplayStateCodecLimits \<Rightarrow> ScriptSequenceState \<Rightarrow> writer" where
  "w_sequence limits s =
     w_all [w_u64 (seqId s),
            w_count (length (seqTimers s)) (maximumTasks limits) ''sequence timer count'',
            w_all (map w_u64 (seqTimers s))]"

definition writeHost :: "GameplayStateCodecLimits \<Rightarrow> HostState \<Rightarrow> writer" where
  "writeHost limits st =
     w_all [writeCore limits (hsCore st),
            w_u64 (hsNextPayload st), w_u64 (hsNextSubscription st), w_u64 (hsNextSequence st),
            w_count (length (hsCalls st)) (maximumCalls limits) ''call count'',
            w_all (map (w_call limits) (hsCalls st)),
            w_count (length (hsSubscriptions st)) (maximumSubscriptions limits) ''subscription count'',
            w_all (map (w_subscription limits) (hsSubscriptions st)),
            w_count (length (hsSequences st)) (maximumSequences limits) ''sequence count'',
            w_all (map (w_sequence limits) (hsSequences st)),
            w_withinLimit limits]"

section \<open>Reader\<close>

definition truncated :: GameplayStateError where
  "truncated = StateError GsTruncatedInput
     ''gameplay state ended before the declared payload was complete''"

fun r_u8 :: "u8 reader" where
  "r_u8 [] = Inl truncated"
| "r_u8 (b # bytes) = Inr (b, bytes)"

fun r_u32_loop :: "nat list \<Rightarrow> u32 \<Rightarrow> u32 reader" where
  "r_u32_loop [] value = r_return value"
| "r_u32_loop (shift # shifts) value =
     r_bind r_u8 (\<lambda>b. r_u32_loop shifts (or value (push_bit shift (ucast b))))"

definition r_u32 :: "u32 reader" where
  "r_u32 = r_u32_loop [0, 8, 16, 24] 0"

fun r_u64_loop :: "nat list \<Rightarrow> u64 \<Rightarrow> u64 reader" where
  "r_u64_loop [] value = r_return value"
| "r_u64_loop (shift # shifts) value =
     r_bind r_u8 (\<lambda>b. r_u64_loop shifts (or value (push_bit shift (ucast b))))"

definition r_u64 :: "u64 reader" where
  "r_u64 = r_u64_loop [0, 8, 16, 24, 32, 40, 48, 56] 0"

definition r_fail :: "GameplayStateErrorCode \<Rightarrow> string \<Rightarrow> 'a reader" where
  "r_fail code message = (\<lambda>input. Inl (StateError code message))"

definition r_boolean :: "bool reader" where
  "r_boolean = r_bind r_u8 (\<lambda>b. if 1 < b then r_fail GsMalformedInput ''boolean value is not zero or one''
     else r_return (b \<noteq> 0))"

definition r_number :: "f64 reader" where
  "r_number = r_u64"

definition r_count :: "nat \<Rightarrow> string \<Rightarrow> nat reader" where
  "r_count maximum name = r_bind r_u32 (\<lambda>encoded.
     if maximum < unat encoded then r_fail GsLimitExceeded (name @ '' exceeds the codec limit'')
     else r_return (unat encoded))"

definition r_take :: "nat \<Rightarrow> string reader" where
  "r_take n = (\<lambda>input. if length input < n then Inl truncated
     else Inr (map (\<lambda>b. char_of (unat b)) (take n input), drop n input))"

definition r_string :: "GameplayStateCodecLimits \<Rightarrow> string reader" where
  "r_string limits = r_bind (r_count (maximumStringBytes limits) ''string length'') r_take"

definition r_value :: "GameplayStateCodecLimits \<Rightarrow> GameplayValue reader" where
  "r_value limits = r_bind r_u8 (\<lambda>tag.
     if tag = 0 then r_return GvNone
     else if tag = 1 then r_bind r_boolean (\<lambda>b. r_return (GvBool b))
     else if tag = 2 then r_bind r_u32 (\<lambda>n. r_return (GvInt n))
     else if tag = 3 then r_bind r_u64 (\<lambda>n. r_return (GvLong n))
     else if tag = 4 then r_bind r_number (\<lambda>x. r_return (GvDouble x))
     else if tag = 5 then r_bind (r_string limits) (\<lambda>s. r_return (GvString s))
     else if tag = 6 then r_bind r_u64 (\<lambda>n. r_return (GvEntity (entity_fromPacked n)))
     else r_fail GsMalformedInput ''gameplay value has an unknown tag'')"

definition r_arguments :: "GameplayStateCodecLimits \<Rightarrow> GameplayValue list reader" where
  "r_arguments limits = r_bind (r_count (maximumArgumentsPerCall limits) ''argument count'')
     (\<lambda>n. r_times n (r_value limits))"

definition r_slot :: "SlotState reader" where
  "r_slot = r_bind r_u32 (\<lambda>g. r_bind r_boolean (\<lambda>a. r_return \<lparr>generation = g, alive = a\<rparr>))"

text \<open>The test of the live count against the largest \<open>size_t\<close> never fails for 64 bits.\<close>

definition r_entities :: "GameplayStateCodecLimits \<Rightarrow> EntityRegistry reader" where
  "r_entities limits =
     r_bind (r_count (maximumEntities limits) ''entity count'') (\<lambda>n.
     r_bind (r_times n r_slot) (\<lambda>ss.
     r_bind (r_count (maximumEntities limits) ''free entity count'') (\<lambda>m.
     r_bind (r_times m r_u32) (\<lambda>fs.
     r_bind r_u64 (\<lambda>a. r_return \<lparr>slots = ss, freeIndices = fs, aliveCount = a\<rparr>)))))"

definition r_clock :: "FixedTickClock reader" where
  "r_clock =
     r_bind r_u32 (\<lambda>rate. r_bind r_u64 (\<lambda>t. r_bind r_number (\<lambda>a. r_bind r_number (\<lambda>d.
     r_return \<lparr>ticksPerSecond = rate, clockTick = t, accumulatorSeconds = a, droppedSeconds = d\<rparr>))))"

definition r_task :: "TaskState reader" where
  "r_task =
     r_bind r_u64 (\<lambda>i. r_bind r_u64 (\<lambda>d. r_bind r_u64 (\<lambda>v. r_bind r_u32 (\<lambda>n. r_bind r_u64 (\<lambda>p.
     r_return \<lparr>taskId = i, dueTick = d, intervalTicks = v, remainingFires = n, payload = p\<rparr>)))))"

definition r_event :: "GameplayStateCodecLimits \<Rightarrow> GameplayEvent reader" where
  "r_event limits =
     r_bind r_u64 (\<lambda>d. r_bind r_u64 (\<lambda>n. r_bind r_u64 (\<lambda>t. r_bind (r_string limits) (\<lambda>topic.
     r_bind (r_arguments limits) (\<lambda>as. r_return \<lparr>evDueTick = d, evSequence = n, evTarget = t,
       evTopic = topic, evArguments = as\<rparr>)))))"

definition readCore :: "GameplayStateCodecLimits \<Rightarrow> RuntimeState reader" where
  "readCore limits =
     r_bind (r_entities limits) (\<lambda>entities.
     r_bind r_clock (\<lambda>clock.
     r_bind r_u64 (\<lambda>s.
     r_bind r_u64 (\<lambda>inc.
     r_bind r_u64 (\<lambda>next.
     r_bind (r_count (maximumTasks limits) ''task count'') (\<lambda>n.
     r_bind (r_times n r_task) (\<lambda>ts.
     r_bind r_u64 (\<lambda>nextSequence.
     r_bind (r_count (maximumEvents limits) ''event count'') (\<lambda>m.
     r_bind (r_times m (r_event limits)) (\<lambda>es.
     r_return \<lparr>rsEntities = entities, rsClock = clock,
       rsRandom = \<lparr>rsState = s, rsIncrement = inc\<rparr>,
       rsScheduler = \<lparr>stNextId = next, stTasks = ts\<rparr>,
       rsEvents = \<lparr>eqsNextSequence = nextSequence, eqsEvents = es\<rparr>\<rparr>))))))))))"

definition r_call :: "GameplayStateCodecLimits \<Rightarrow> ScheduledScriptCall reader" where
  "r_call limits =
     r_bind r_u64 (\<lambda>p. r_bind r_u64 (\<lambda>k. r_bind r_u64 (\<lambda>t. r_bind (r_string limits) (\<lambda>cb.
     r_bind (r_arguments limits) (\<lambda>as. r_return \<lparr>callPayload = p, callTimer = k, callTarget = t,
       callCallback = cb, callArguments = as\<rparr>)))))"

definition r_subscription :: "GameplayStateCodecLimits \<Rightarrow> ScriptEventSubscription reader" where
  "r_subscription limits =
     r_bind r_u64 (\<lambda>i. r_bind (r_string limits) (\<lambda>topic. r_bind r_u64 (\<lambda>t.
     r_bind (r_string limits) (\<lambda>cb. r_bind r_u32 (\<lambda>p. r_return \<lparr>subId = i, subTopic = topic,
       subTarget = t, subCallback = cb, subPriority = p\<rparr>)))))"

definition r_sequence :: "GameplayStateCodecLimits \<Rightarrow> ScriptSequenceState reader" where
  "r_sequence limits =
     r_bind r_u64 (\<lambda>i. r_bind (r_count (maximumTasks limits) ''sequence timer count'') (\<lambda>n.
     r_bind (r_times n r_u64) (\<lambda>ts. r_return \<lparr>seqId = i, seqTimers = ts\<rparr>)))"

definition readHost :: "GameplayStateCodecLimits \<Rightarrow> HostState reader" where
  "readHost limits =
     r_bind (readCore limits) (\<lambda>core.
     r_bind r_u64 (\<lambda>np. r_bind r_u64 (\<lambda>ns. r_bind r_u64 (\<lambda>nq.
     r_bind (r_count (maximumCalls limits) ''call count'') (\<lambda>n.
     r_bind (r_times n (r_call limits)) (\<lambda>cs.
     r_bind (r_count (maximumSubscriptions limits) ''subscription count'') (\<lambda>m.
     r_bind (r_times m (r_subscription limits)) (\<lambda>us.
     r_bind (r_count (maximumSequences limits) ''sequence count'') (\<lambda>q.
     r_bind (r_times q (r_sequence limits)) (\<lambda>ss.
     r_return \<lparr>hsCore = core, hsNextPayload = np, hsNextSubscription = ns, hsNextSequence = nq,
       hsCalls = cs, hsSubscriptions = us, hsSequences = ss\<rparr>))))))))))"

section \<open>The container\<close>

definition Magic :: "u8 list" where
  "Magic = map of_char ''RSGS''"

definition HeaderSize :: nat where
  "HeaderSize = 4 + 4 + 8 + 8"

definition kGameplayStateCodecVersion :: u32 where
  "kGameplayStateCodecVersion = 1"

definition appendHeader :: "u8 list \<Rightarrow> u64 \<Rightarrow> nat \<Rightarrow> u8 list" where
  "appendHeader output stateHash payloadSize =
     output @ Magic @
     map (\<lambda>shift. ucast (drop_bit shift kGameplayStateCodecVersion)) [0, 8, 16, 24] @
     u64Bytes stateHash @ u64Bytes (of_nat payloadSize)"

definition encodeGameplayHostState ::
    "GameplayStateCodecLimits \<Rightarrow> HostState \<Rightarrow> GameplayStateError + u8 list" where
  "encodeGameplayHostState limits st =
     (case host_restore st of
        None \<Rightarrow> Inl (StateError GsInvalidState ''gameplay host state failed structural validation'')
      | Some validator \<Rightarrow>
          (case writeHost limits st [] of
             Inl e \<Rightarrow> Inl e
           | Inr body \<Rightarrow>
               (if maximumEncodedBytes limits - min HeaderSize (maximumEncodedBytes limits) < length body
                then Inl (StateError GsLimitExceeded ''encoded gameplay state exceeds the byte limit'')
                else Inr (appendHeader [] (host_stableHash validator) (length body) @ body))))"

definition encodeGameplayHost ::
    "GameplayStateCodecLimits \<Rightarrow> GameplayHost \<Rightarrow> GameplayStateError + u8 list" where
  "encodeGameplayHost limits h = encodeGameplayHostState limits (host_snapshot h)"

text \<open>The three numbers of the header, after the magic.\<close>

definition r_header :: "(u32 \<times> u64 \<times> u64) reader" where
  "r_header = r_bind r_u32 (\<lambda>version. r_bind r_u64 (\<lambda>hash. r_bind r_u64 (\<lambda>size.
     r_return (version, hash, size))))"

definition decodeGameplayHostState ::
    "GameplayStateCodecLimits \<Rightarrow> u8 list \<Rightarrow> GameplayStateError + HostState" where
  "decodeGameplayHostState limits bytes =
     (if maximumEncodedBytes limits < length bytes
      then Inl (StateError GsLimitExceeded ''encoded gameplay state exceeds the byte limit'')
      else if length bytes < HeaderSize
      then Inl (StateError GsTruncatedInput ''gameplay state header is truncated'')
      else if take 4 bytes \<noteq> Magic
      then Inl (StateError GsInvalidMagic ''gameplay state magic is invalid'')
      else
        (case r_header (take (HeaderSize - 4) (drop 4 bytes)) of
           Inl e \<Rightarrow> Inl e
         | Inr ((version, expectedHash, payloadSize), _) \<Rightarrow>
             (if version \<noteq> kGameplayStateCodecVersion
              then Inl (StateError GsUnsupportedVersion ''gameplay state codec version is unsupported'')
              else if unat payloadSize \<noteq> length bytes - HeaderSize
              then Inl (StateError GsMalformedInput
                     ''gameplay state payload size does not match the container'')
              else
                (case readHost limits (drop HeaderSize bytes) of
                   Inl e \<Rightarrow> Inl e
                 | Inr (st, rest) \<Rightarrow>
                     (if rest \<noteq> []
                      then Inl (StateError GsMalformedInput
                             ''gameplay state contains trailing or malformed payload data'')
                      else
                        (case host_restore st of
                           None \<Rightarrow> Inl (StateError GsInvalidState
                                     ''decoded gameplay host state failed structural validation'')
                         | Some validator \<Rightarrow>
                             (if host_stableHash validator \<noteq> expectedHash
                              then Inl (StateError GsHashMismatch
                                     ''decoded gameplay host state hash does not match the container'')
                              else Inr st)))))))"

text \<open>The host is replaced only when decoding and \<open>restore\<close> both succeed.\<close>

definition restoreGameplayHostState ::
    "GameplayStateCodecLimits \<Rightarrow> u8 list \<Rightarrow> GameplayHost \<Rightarrow> bool \<times> GameplayHost" where
  "restoreGameplayHostState limits bytes h =
     (case decodeGameplayHostState limits bytes of
        Inl e \<Rightarrow> (False, h)
      | Inr st \<Rightarrow> (case host_restore st of None \<Rightarrow> (False, h) | Some h' \<Rightarrow> (True, h')))"

end
