(* ===== verification/Codec_Roundtrip.thy ===== *)
theory Codec_Roundtrip
  imports State_Codec
begin

text \<open>
  Every writer of \<open>State_Codec\<close> is inverted by its reader: the relation \<open>encodes\<close> composes along
  the sequencing of both sides, so the round trip of a record follows from its fields. Doubles
  come back in canonical form; \<open>restore\<close> and the stable hash do not see the difference.
\<close>

section \<open>Writing and reading back\<close>

text \<open>
  The writer \<open>w\<close> appends bytes from which \<open>r\<close>, whatever follows them, reads the value \<open>v\<close>
  and nothing more.
\<close>

definition encodes :: "writer \<Rightarrow> 'a reader \<Rightarrow> 'a \<Rightarrow> bool" where
  "encodes w r v \<longleftrightarrow>
     (\<forall>acc out. w acc = Inr out \<longrightarrow> (\<exists>bs. out = acc @ bs \<and> (\<forall>rest. r (bs @ rest) = Inr (v, rest))))"

lemma encodes_return: "encodes Inr (r_return v) v"
  by (simp add: encodes_def r_return_def)

lemma encodes_bind:
  assumes "encodes w r v" and "encodes w' (k v) v'"
  shows "encodes (w_then w w') (r_bind r k) v'"
  unfolding encodes_def
proof (intro allI impI)
  fix acc out assume "w_then w w' acc = Inr out"
  then obtain mid where mid: "w acc = Inr mid" "w' mid = Inr out"
    by (auto simp: w_then_def split: sum.splits)
  from assms(1) mid(1) obtain bs where "mid = acc @ bs" "\<forall>rest. r (bs @ rest) = Inr (v, rest)"
    unfolding encodes_def by blast
  moreover from assms(2) mid(2) obtain cs where "out = mid @ cs" "\<forall>rest. k v (cs @ rest) = Inr (v', rest)"
    unfolding encodes_def by blast
  ultimately show "\<exists>bs. out = acc @ bs \<and> (\<forall>rest. r_bind r k (bs @ rest) = Inr (v', rest))"
    by (intro exI [of _ "bs @ cs"]) (simp add: r_bind_def)
qed

lemma encodes_limit: "encodes w r v \<Longrightarrow> encodes (w_then (w_withinLimit limits) w) r v"
  by (auto simp: encodes_def w_then_def w_withinLimit_def split: if_splits sum.splits)

lemma encodes_limit_last: "encodes w r v \<Longrightarrow> encodes (w_then w (w_withinLimit limits)) r v"
  by (auto simp: encodes_def w_then_def w_withinLimit_def split: if_splits sum.splits)

lemma encodes_limit_end: "encodes w r v \<Longrightarrow> encodes (w_then w (w_then (w_withinLimit limits) Inr)) r v"
  by (auto simp: encodes_def w_then_def w_withinLimit_def split: if_splits sum.splits)

lemma encodes_last: "encodes w r v \<Longrightarrow> encodes (w_then w Inr) r v"
proof -
  have "w_then w Inr = w" by (auto simp: w_then_def fun_eq_iff split: sum.split)
  then show "encodes w r v \<Longrightarrow> encodes (w_then w Inr) r v" by simp
qed

lemma encodes_map:
  assumes "encodes w r v"
  shows "encodes w (r_bind r (\<lambda>x. r_return (f x))) (f v)"
  using assms unfolding encodes_def r_bind_def r_return_def by fastforce

lemma encodes_all:
  assumes "\<And>x. x \<in> set xs \<Longrightarrow> encodes (p x) r (c x)"
  shows "encodes (w_all (map p xs)) (r_times (length xs) r) (map c xs)"
  using assms
proof (induction xs)
  case Nil
  then show ?case by (simp add: encodes_return)
next
  case (Cons x xs)
  then have "encodes (w_all (map p xs)) (r_times (length xs) r) (map c xs)" by simp
  then have "encodes (w_all (map p xs)) (r_bind (r_times (length xs) r) (\<lambda>ys. r_return (c x # ys))) (c x # map c xs)"
    by (rule encodes_map)
  with Cons.prems show ?case by (auto intro: encodes_bind)
qed

section \<open>Numbers\<close>

lemma encodes_u8: "encodes (w_u8 b) r_u8 b"
  by (simp add: encodes_def w_u8_def)

lemma read_byte_u32:
  "or (take_bit s v) (push_bit s (ucast (ucast (drop_bit s v) :: u8))) = take_bit (s + 8) v" for v :: u32
  by (rule bit_word_eqI) (auto simp: bit_simps not_less le_Suc_ex intro: Suc_leI)

lemma encodes_u32_step:
  fixes v :: u32
  assumes "t = s + 8"
    and "encodes (w_all (map (\<lambda>shift. w_u8 (ucast (drop_bit shift v))) ss)) (r_u32_loop ss (take_bit t v)) v"
  shows "encodes (w_all (map (\<lambda>shift. w_u8 (ucast (drop_bit shift v))) (s # ss)))
    (r_u32_loop (s # ss) (take_bit s v)) v"
  unfolding list.map w_all.simps r_u32_loop.simps
  by (rule encodes_bind [OF encodes_u8]) (use assms in \<open>simp add: read_byte_u32\<close>)

lemma encodes_u32_end:
  fixes v :: u32
  shows "encodes (w_all (map (\<lambda>shift. w_u8 (ucast (drop_bit shift v))) [])) (r_u32_loop [] (take_bit 32 v)) v"
  using encodes_return [of v] by (simp add: take_bit_word_eq_self)

lemma encodes_u32: "encodes (w_u32 v) r_u32 v"
proof -
  note step = encodes_u32_step [where v = v]
  have "encodes (w_u32 v) (r_u32_loop [0, 8, 16, 24] (take_bit 0 v)) v"
    unfolding w_u32_def
    by (rule step [where t = 8], simp, rule step [where t = 16], simp, rule step [where t = 24], simp,
        rule step [where t = 32], simp, rule encodes_u32_end)
  then show ?thesis by (simp add: r_u32_def)
qed

lemma read_byte_u64:
  "or (take_bit s v) (push_bit s (ucast (ucast (drop_bit s v) :: u8))) = take_bit (s + 8) v" for v :: u64
  by (rule bit_word_eqI) (auto simp: bit_simps not_less le_Suc_ex intro: Suc_leI)

lemma encodes_u64_step:
  fixes v :: u64
  assumes "t = s + 8"
    and "encodes (w_all (map (\<lambda>shift. w_u8 (ucast (drop_bit shift v))) ss)) (r_u64_loop ss (take_bit t v)) v"
  shows "encodes (w_all (map (\<lambda>shift. w_u8 (ucast (drop_bit shift v))) (s # ss)))
    (r_u64_loop (s # ss) (take_bit s v)) v"
  unfolding list.map w_all.simps r_u64_loop.simps
  by (rule encodes_bind [OF encodes_u8]) (use assms in \<open>simp add: read_byte_u64\<close>)

lemma encodes_u64_end:
  fixes v :: u64
  shows "encodes (w_all (map (\<lambda>shift. w_u8 (ucast (drop_bit shift v))) [])) (r_u64_loop [] (take_bit 64 v)) v"
  using encodes_return [of v] by (simp add: take_bit_word_eq_self)

lemma encodes_u64: "encodes (w_u64 v) r_u64 v"
proof -
  note step = encodes_u64_step [where v = v]
  have "encodes (w_u64 v) (r_u64_loop [0, 8, 16, 24, 32, 40, 48, 56] (take_bit 0 v)) v"
    unfolding w_u64_def
    by (rule step [where t = 8], simp, rule step [where t = 16], simp, rule step [where t = 24], simp,
        rule step [where t = 32], simp, rule step [where t = 40], simp, rule step [where t = 48], simp,
        rule step [where t = 56], simp, rule step [where t = 64], simp, rule encodes_u64_end)
  then show ?thesis by (simp add: r_u64_def)
qed

lemma encodes_boolean: "encodes (w_boolean b) r_boolean b"
  by (simp add: encodes_def w_boolean_def r_boolean_def w_u8_def r_bind_def r_return_def)

lemma encodes_number: "encodes (w_number x) r_number (canonicalDoubleBits x)"
  by (simp add: w_number_def r_number_def encodes_u64)

lemma encodes_count: "encodes (w_count n maximum name) (r_count maximum name) n"
proof (cases "maximum < n \<or> 2 ^ 32 - 1 < n")
  case True
  then show ?thesis by (auto simp: encodes_def w_count_def)
next
  case False
  then have "unat (of_nat n :: u32) = n" by (intro unat_of_nat_u32) simp
  with False show ?thesis
    using encodes_u32 [of "of_nat n"] unfolding encodes_def w_count_def r_count_def r_bind_def r_return_def
    by fastforce
qed

lemma char_of_byte: "char_of (unat (of_char c :: u8)) = c"
proof -
  have "(of_char c :: u8) = of_nat (of_char c)" by (simp add: of_nat_of_char)
  then have "unat (of_char c :: u8) = of_char c"
    using nat_of_char_less_256 [of c] by (simp add: unat_of_nat take_bit_nat_eq_self)
  then show ?thesis by simp
qed

lemma encodes_string: "encodes (w_string limits s) (r_string limits) s"
proof -
  have "encodes (\<lambda>bytes. Inr (bytes @ map of_char s)) (r_take (length s)) s"
    by (simp add: encodes_def r_take_def char_of_byte comp_def)
  then show ?thesis
    unfolding w_string_def r_string_def w_all.simps
    by (intro encodes_bind [OF encodes_count] encodes_limit_end)
qed

section \<open>Canonical states\<close>

text \<open>A double comes back as its canonical pattern: one zero and one NaN.\<close>

fun canonValue :: "GameplayValue \<Rightarrow> GameplayValue" where
  "canonValue (GvDouble x) = GvDouble (canonicalDoubleBits x)"
| "canonValue v = v"

definition canonEvent :: "GameplayEvent \<Rightarrow> GameplayEvent" where
  "canonEvent e = e\<lparr>evArguments := map canonValue (evArguments e)\<rparr>"

definition canonCall :: "ScheduledScriptCall \<Rightarrow> ScheduledScriptCall" where
  "canonCall c = c\<lparr>callArguments := map canonValue (callArguments c)\<rparr>"

definition canonClock :: "FixedTickClock \<Rightarrow> FixedTickClock" where
  "canonClock c = c\<lparr>accumulatorSeconds := canonicalDoubleBits (accumulatorSeconds c),
     droppedSeconds := canonicalDoubleBits (droppedSeconds c)\<rparr>"

definition canonRuntimeState :: "RuntimeState \<Rightarrow> RuntimeState" where
  "canonRuntimeState st = st\<lparr>rsClock := canonClock (rsClock st),
     rsEvents := (rsEvents st)\<lparr>eqsEvents := map canonEvent (eqsEvents (rsEvents st))\<rparr>\<rparr>"

definition canonHostState :: "HostState \<Rightarrow> HostState" where
  "canonHostState st = st\<lparr>hsCore := canonRuntimeState (hsCore st), hsCalls := map canonCall (hsCalls st)\<rparr>"

section \<open>The state\<close>

lemma encodes_value: "encodes (w_value limits v) (r_value limits) (canonValue v)"
proof -
  have tag: "encodes w (k t) x \<Longrightarrow> encodes (w_then (w_u8 t) w) (r_bind r_u8 k) x" for t w k x
    by (rule encodes_bind [OF encodes_u8])
  have none: "encodes (w_u8 0) (r_value limits) GvNone"
    by (simp add: encodes_def w_u8_def r_value_def r_bind_def r_return_def)
  show ?thesis
  proof (cases v)
    case GvNone
    with none show ?thesis by (simp add: w_value_def encodes_limit_last)
  next
    case (GvBool b)
    then show ?thesis unfolding w_value_def r_value_def GameplayValue.case
      by (simp only: GameplayValue.case canonValue.simps)
        (intro encodes_limit_last tag, simp, rule encodes_map [OF encodes_boolean])
  next
    case (GvInt n)
    then show ?thesis unfolding w_value_def r_value_def
      by (simp only: GameplayValue.case canonValue.simps)
        (intro encodes_limit_last tag, simp, rule encodes_map [OF encodes_u32])
  next
    case (GvLong n)
    then show ?thesis unfolding w_value_def r_value_def
      by (simp only: GameplayValue.case canonValue.simps)
        (intro encodes_limit_last tag, simp, rule encodes_map [OF encodes_u64])
  next
    case (GvDouble x)
    then show ?thesis unfolding w_value_def r_value_def
      by (simp only: GameplayValue.case canonValue.simps)
        (intro encodes_limit_last tag, simp, rule encodes_map [OF encodes_number])
  next
    case (GvString s)
    then show ?thesis unfolding w_value_def r_value_def
      by (simp only: GameplayValue.case canonValue.simps)
        (intro encodes_limit_last tag, simp, rule encodes_map [OF encodes_string])
  next
    case (GvEntity e)
    have "encodes (w_u64 (entity_packed e)) (r_bind r_u64 (\<lambda>n. r_return (GvEntity (entity_fromPacked n))))
        (GvEntity (entity_fromPacked (entity_packed e)))"
      by (rule encodes_map [OF encodes_u64])
    with GvEntity show ?thesis unfolding w_value_def r_value_def
      by (simp only: GameplayValue.case canonValue.simps fromPacked_packed)
        (intro encodes_limit_last tag, simp)
  qed
qed

lemma encodes_arguments: "encodes (w_arguments limits as) (r_arguments limits) (map canonValue as)"
  unfolding w_arguments_def r_arguments_def
  by (intro encodes_bind [OF encodes_count] encodes_all encodes_value)

text \<open>A vector with its length in front.\<close>

lemma encodes_vector:
  assumes "\<And>x. encodes (p x) r (c x)" and "encodes w' (k (map c xs)) v'"
  shows "encodes (w_then (w_count (length xs) maximum name) (w_then (w_all (map p xs)) w'))
    (r_bind (r_count maximum name) (\<lambda>n. r_bind (r_times n r) k)) v'"
  by (intro encodes_bind [OF encodes_count] encodes_bind [OF encodes_all [where c = c]] assms)

lemma encodes_slot:
  "encodes (w_then (w_u32 (generation s)) (w_boolean (alive s))) r_slot s"
proof -
  have "encodes (w_then (w_u32 (generation s)) (w_boolean (alive s))) r_slot \<lparr>generation = generation s, alive = alive s\<rparr>"
    unfolding r_slot_def by (rule encodes_bind [OF encodes_u32 encodes_map [OF encodes_boolean]])
  then show ?thesis by (cases s) simp
qed

lemma encodes_entities: "encodes (w_entities limits st) (r_entities limits) st"
proof -
  have "encodes (w_entities limits st) (r_entities limits)
      \<lparr>slots = map (\<lambda>s. s) (slots st), freeIndices = map (\<lambda>i. i) (freeIndices st), aliveCount = aliveCount st\<rparr>"
    unfolding w_entities_def r_entities_def w_all.simps
    by (intro encodes_vector [where c = "\<lambda>x. x"] encodes_slot encodes_u32 encodes_last encodes_map encodes_u64)
  then show ?thesis by (cases st) simp
qed

lemmas encodes_fields =
  encodes_bind [OF encodes_u64] encodes_bind [OF encodes_u32] encodes_bind [OF encodes_number]
  encodes_bind [OF encodes_string] encodes_bind [OF encodes_arguments]

lemma encodes_clock: "encodes (w_clock c) r_clock (canonClock c)"
proof -
  have "canonClock c = \<lparr>ticksPerSecond = ticksPerSecond c, clockTick = clockTick c,
      accumulatorSeconds = canonicalDoubleBits (accumulatorSeconds c),
      droppedSeconds = canonicalDoubleBits (droppedSeconds c)\<rparr>"
    by (simp add: canonClock_def)
  then show ?thesis
    unfolding w_clock_def r_clock_def w_all.simps
    by (simp only:) (intro encodes_fields encodes_last encodes_map [OF encodes_number])
qed

lemma encodes_task: "encodes (w_task t) r_task t"
proof -
  have "encodes (w_task t) r_task \<lparr>taskId = taskId t, dueTick = dueTick t,
      intervalTicks = intervalTicks t, remainingFires = remainingFires t, payload = payload t\<rparr>"
    unfolding w_task_def r_task_def w_all.simps
    by (intro encodes_fields encodes_last encodes_map [OF encodes_u64])
  then show ?thesis by (cases t) simp
qed

lemma encodes_event: "encodes (w_event limits e) (r_event limits) (canonEvent e)"
proof -
  have "canonEvent e = \<lparr>evDueTick = evDueTick e, evSequence = evSequence e, evTarget = evTarget e,
      evTopic = evTopic e, evArguments = map canonValue (evArguments e)\<rparr>"
    by (simp add: canonEvent_def)
  then show ?thesis
    unfolding w_event_def r_event_def w_all.simps
    by (simp only:) (intro encodes_fields encodes_last encodes_map [OF encodes_arguments])
qed

lemma encodes_call: "encodes (w_call limits c) (r_call limits) (canonCall c)"
proof -
  have "canonCall c = \<lparr>callPayload = callPayload c, callTimer = callTimer c, callTarget = callTarget c,
      callCallback = callCallback c, callArguments = map canonValue (callArguments c)\<rparr>"
    by (simp add: canonCall_def)
  then show ?thesis
    unfolding w_call_def r_call_def w_all.simps
    by (simp only:) (intro encodes_fields encodes_last encodes_map [OF encodes_arguments])
qed

lemma encodes_subscription: "encodes (w_subscription limits s) (r_subscription limits) s"
proof -
  have "encodes (w_subscription limits s) (r_subscription limits) \<lparr>subId = subId s,
      subTopic = subTopic s, subTarget = subTarget s, subCallback = subCallback s, subPriority = subPriority s\<rparr>"
    unfolding w_subscription_def r_subscription_def w_all.simps
    by (intro encodes_fields encodes_last encodes_map [OF encodes_u32])
  then show ?thesis by (cases s) simp
qed

lemma encodes_sequence: "encodes (w_sequence limits s) (r_sequence limits) s"
proof -
  have "encodes (w_all (map w_u64 (seqTimers s))) (r_bind (r_times (length (seqTimers s)) r_u64)
      (\<lambda>ts. r_return \<lparr>seqId = seqId s, seqTimers = ts\<rparr>)) \<lparr>seqId = seqId s, seqTimers = map (\<lambda>x. x) (seqTimers s)\<rparr>"
    by (intro encodes_map encodes_all encodes_u64)
  then have "encodes (w_sequence limits s) (r_sequence limits) \<lparr>seqId = seqId s, seqTimers = seqTimers s\<rparr>"
    unfolding w_sequence_def r_sequence_def w_all.simps
    by (intro encodes_bind [OF encodes_u64] encodes_bind [OF encodes_count] encodes_last) simp
  then show ?thesis by (cases s) simp
qed

lemma encodes_core: "encodes (writeCore limits st) (readCore limits) (canonRuntimeState st)"
proof -
  have "encodes (writeCore limits st) (readCore limits)
      \<lparr>rsEntities = rsEntities st, rsClock = canonClock (rsClock st),
       rsRandom = \<lparr>rsState = rsState (rsRandom st), rsIncrement = rsIncrement (rsRandom st)\<rparr>,
       rsScheduler = \<lparr>stNextId = stNextId (rsScheduler st), stTasks = map (\<lambda>t. t) (stTasks (rsScheduler st))\<rparr>,
       rsEvents = \<lparr>eqsNextSequence = eqsNextSequence (rsEvents st),
         eqsEvents = map canonEvent (eqsEvents (rsEvents st))\<rparr>\<rparr>"
    unfolding writeCore_def readCore_def w_all.simps
    by (intro encodes_bind [OF encodes_entities] encodes_bind [OF encodes_clock] encodes_bind [OF encodes_u64]
        encodes_vector [where c = "\<lambda>t. t" and r = r_task] encodes_task
        encodes_bind [OF encodes_count] encodes_bind [OF encodes_all [where c = canonEvent]]
        encodes_event encodes_limit_end encodes_map encodes_all)
  moreover have "canonRuntimeState st =
      \<lparr>rsEntities = rsEntities st, rsClock = canonClock (rsClock st),
       rsRandom = \<lparr>rsState = rsState (rsRandom st), rsIncrement = rsIncrement (rsRandom st)\<rparr>,
       rsScheduler = \<lparr>stNextId = stNextId (rsScheduler st), stTasks = map (\<lambda>t. t) (stTasks (rsScheduler st))\<rparr>,
       rsEvents = \<lparr>eqsNextSequence = eqsNextSequence (rsEvents st),
         eqsEvents = map canonEvent (eqsEvents (rsEvents st))\<rparr>\<rparr>"
    by (cases st) (simp add: canonRuntimeState_def)
  ultimately show ?thesis by simp
qed

lemma encodes_host: "encodes (writeHost limits st) (readHost limits) (canonHostState st)"
proof -
  have "encodes (writeHost limits st) (readHost limits)
      \<lparr>hsCore = canonRuntimeState (hsCore st), hsNextPayload = hsNextPayload st,
       hsNextSubscription = hsNextSubscription st, hsNextSequence = hsNextSequence st,
       hsCalls = map canonCall (hsCalls st), hsSubscriptions = map (\<lambda>s. s) (hsSubscriptions st),
       hsSequences = map (\<lambda>s. s) (hsSequences st)\<rparr>"
    unfolding writeHost_def readHost_def w_all.simps
    by (intro encodes_bind [OF encodes_core] encodes_bind [OF encodes_u64]
        encodes_vector [where c = canonCall] encodes_call
        encodes_vector [where c = "\<lambda>s. s" and r = "r_subscription limits"] encodes_subscription
        encodes_bind [OF encodes_count] encodes_limit_end encodes_map encodes_all encodes_sequence)
  then show ?thesis by (cases st) (simp add: canonHostState_def)
qed

section \<open>Restoring a canonical state\<close>

definition om_map :: "('v \<Rightarrow> 'v) \<Rightarrow> ('k, 'v) omap \<Rightarrow> ('k, 'v) omap" where
  "om_map f m = map (\<lambda>(k, v). (k, f v)) m"

lemma om_map_put: "om_put k (f v) (om_map f m) = om_map f (om_put k v m)"
  by (induction m) (auto simp: om_map_def)

lemma om_map_find: "om_find (om_map f m) k = map_option f (om_find m k)"
  by (induction m) (auto simp: om_map_def)

lemma om_map_emplace: "om_emplace k (f v) (om_map f m) = map_prod (om_map f) (\<lambda>b. b) (om_emplace k v m)"
  by (auto simp: om_emplace_def om_map_find om_map_put split: option.split)

lemma om_map_values: "map snd (om_map f m) = map f (map snd m)"
  by (simp add: om_map_def split_beta comp_def)

lemma length_om_map: "length (om_map f m) = length m"
  by (simp add: om_map_def)

lemma hash_canonValue: "stableGameplayValueHash (canonValue v) = stableGameplayValueHash v"
  by (cases v) (simp_all add: stableGameplayValueHash_def)

lemma hash_canonValues:
  "foldl (\<lambda>h a. hashU64 h (stableGameplayValueHash a)) h (map canonValue vs) =
   foldl (\<lambda>h a. hashU64 h (stableGameplayValueHash a)) h vs"
  by (induction vs arbitrary: h) (simp_all add: hash_canonValue)

lemma foldl_canon: "(\<And>h x. f h (g x) = f h x) \<Longrightarrow> foldl f h (map g xs) = foldl f h xs"
  by (induction xs arbitrary: h) simp_all

subsection \<open>The clock\<close>

lemma canonical_finite: "f64_isfinite (canonicalDoubleBits x) = f64_isfinite x"
  by (auto simp: canonicalDoubleBits_def f64_isfinite_def f64_iszero_def f64_isnan_def f64_abs_def ExponentMask_def)

lemma canonical_nan: "f64_isnan (canonicalDoubleBits x) = f64_isnan x"
  by (auto simp: canonicalDoubleBits_def f64_iszero_def f64_isnan_def f64_abs_def ExponentMask_def)

lemma canonical_key: "\<not> f64_isnan x \<Longrightarrow> f64_key (canonicalDoubleBits x) = f64_key x"
  by (auto simp: canonicalDoubleBits_def f64_key_def f64_iszero_def f64_abs_def)

lemma canonical_compare:
  "f64_less (canonicalDoubleBits x) y = f64_less x y" "f64_le y (canonicalDoubleBits x) = f64_le y x"
  by (auto simp: f64_less_def f64_le_def canonical_nan canonical_key)

lemma clock_restore_canon: "clock_restore (canonClock c) = map_option canonClock (clock_restore c)"
  by (auto simp: clock_restore_def canonClock_def canonical_finite canonical_compare)

lemma clock_hash_canon: "clock_stableHash (canonClock c) = clock_stableHash c"
  by (simp add: clock_stableHash_def canonClock_def)

subsection \<open>Events\<close>

lemma canonEvent_fields [simp]:
  "evSequence (canonEvent e) = evSequence e" "evTopic (canonEvent e) = evTopic e" "eventKey (canonEvent e) = eventKey e"
  "evDueTick (canonEvent e) = evDueTick e" "evTarget (canonEvent e) = evTarget e"
  "evArguments (canonEvent e) = map canonValue (evArguments e)"
  by (simp_all add: canonEvent_def eventKey_def)

lemma restoreEvents_canon:
  "restoreEvents (map canonEvent es) (om_map canonEvent m) S x =
   map_option (\<lambda>(m, y). (om_map canonEvent m, y)) (restoreEvents es m S x)"
proof (induction es arbitrary: m S x)
  case Nil
  then show ?case by simp
next
  case (Cons e es)
  obtain m' b where em: "om_emplace (eventKey e) e m = (m', b)" by fastforce
  then have "om_emplace (eventKey e) (canonEvent e) (om_map canonEvent m) = (om_map canonEvent m', b)"
    using om_map_emplace [of "eventKey e" canonEvent e m] by simp
  with em Cons.IH show ?case by (cases b) simp_all
qed

definition canonQueue :: "EventQueue \<Rightarrow> EventQueue" where
  "canonQueue q = q\<lparr>eqEvents := om_map canonEvent (eqEvents q)\<rparr>"

lemma eventqueue_restore_canon:
  "eventqueue_restore (st\<lparr>eqsEvents := map canonEvent (eqsEvents st)\<rparr>) = map_option canonQueue (eventqueue_restore st)"
  using restoreEvents_canon [of "eqsEvents st" "[]" "{}" 0]
  by (cases "restoreEvents (eqsEvents st) [] {} 0")
    (auto simp: eventqueue_restore_def om_map_def canonQueue_def)

lemma hashEvent_canon: "hashEvent h (canonEvent e) = hashEvent h e"
  by (simp add: hashEvent_def hash_canonValues)

lemma eventqueue_hash_canon: "eventqueue_stableHash (canonQueue q) = eventqueue_stableHash q"
  by (simp add: eventqueue_stableHash_def canonQueue_def length_om_map om_map_values foldl_canon hashEvent_canon
      del: map_map)

subsection \<open>The host\<close>

definition canonRuntime :: "GameplayRuntime \<Rightarrow> GameplayRuntime" where
  "canonRuntime r = r\<lparr>rtClock := canonClock (rtClock r), rtEvents := canonQueue (rtEvents r)\<rparr>"

lemma runtime_restore_canon:
  "runtime_restore (canonRuntimeState st) = map_option canonRuntime (runtime_restore st)"
  by (auto simp: runtime_restore_def canonRuntimeState_def clock_restore_canon eventqueue_restore_canon
      canonRuntime_def split: option.split)

lemma runtime_hash_canon: "runtime_stableHash (canonRuntime r) = runtime_stableHash r"
  by (simp add: runtime_stableHash_def canonRuntime_def clock_hash_canon eventqueue_hash_canon)

lemma canonCall_fields [simp]:
  "callPayload (canonCall c) = callPayload c" "callTimer (canonCall c) = callTimer c"
  "callTarget (canonCall c) = callTarget c" "callCallback (canonCall c) = callCallback c"
  "callArguments (canonCall c) = map canonValue (callArguments c)" "validCall (canonCall c) = validCall c"
  by (simp_all add: canonCall_def validCall_def)

lemma restoreCalls_canon:
  "restoreCalls P (map canonCall cs) (om_map canonCall m) tm x =
   map_option (\<lambda>(m, t, y). (om_map canonCall m, t, y)) (restoreCalls P cs m tm x)"
proof (induction cs arbitrary: m tm x)
  case Nil
  then show ?case by simp
next
  case (Cons c cs)
  obtain m' b where em: "om_emplace (callPayload c) c m = (m', b)" by fastforce
  then have em': "om_emplace (callPayload c) (canonCall c) (om_map canonCall m) = (om_map canonCall m', b)"
    using om_map_emplace [of "callPayload c" canonCall c m] by simp
  obtain t' d where "om_emplace (callTimer c) (callPayload c) tm = (t', d)" by fastforce
  with em em' Cons.IH show ?case by (cases b; cases d) simp_all
qed

definition canonHost :: "GameplayHost \<Rightarrow> GameplayHost" where
  "canonHost h = h\<lparr>hostCore := canonRuntime (hostCore h), hostCalls := om_map canonCall (hostCalls h)\<rparr>"

lemma host_restore_canon: "host_restore (canonHostState st) = map_option canonHost (host_restore st)"
proof -
  have core: "runtime_restore (hsCore (canonHostState st)) = map_option canonRuntime (runtime_restore (hsCore st))"
    by (simp add: canonHostState_def runtime_restore_canon)
  have tasks: "stTasks (rsScheduler (hsCore (canonHostState st))) = stTasks (rsScheduler (hsCore st))"
    by (simp add: canonHostState_def canonRuntimeState_def)
  have calls: "restoreCalls P (hsCalls (canonHostState st)) [] [] 0 =
      map_option (\<lambda>(m, t, y). (om_map canonCall m, t, y)) (restoreCalls P (hsCalls st) [] [] 0)" for P
    using restoreCalls_canon [of P "hsCalls st" "[]"] by (simp add: canonHostState_def om_map_def)
  have same: "hsNextPayload (canonHostState st) = hsNextPayload st"
    "hsNextSubscription (canonHostState st) = hsNextSubscription st"
    "hsNextSequence (canonHostState st) = hsNextSequence st"
    "hsSubscriptions (canonHostState st) = hsSubscriptions st" "hsSequences (canonHostState st) = hsSequences st"
    by (simp_all add: canonHostState_def)
  show ?thesis
    unfolding host_restore_def core tasks calls same
    by (auto simp: canonHost_def split: option.split)
qed

lemma hashCall_canon: "hashCall h (canonCall c) = hashCall h c"
  by (simp add: hashCall_def hash_canonValues)

lemma host_hash_canon: "host_stableHash (canonHost h) = host_stableHash h"
  by (simp add: host_stableHash_def canonHost_def runtime_hash_canon length_om_map om_map_values foldl_canon
      hashCall_canon Let_def del: map_map)

end
