(* ===== verification/Codec_Properties.thy ===== *)
theory Codec_Properties
  imports Codec_Roundtrip Host_Properties
begin

text \<open>
  The properties of the container: round trip, rejection of files of the wrong length, and
  validated, atomic loading.
\<close>

section \<open>The container\<close>

lemma w_all_bytes: "w_all (map w_u8 bs) acc = Inr (acc @ bs)"
  by (induction bs arbitrary: acc) (simp_all add: w_then_def w_u8_def)

lemma w_u32_bytes: "w_u32 v acc = Inr (acc @ map (\<lambda>shift. ucast (drop_bit shift v)) [0, 8, 16, 24])"
  using w_all_bytes [of "map (\<lambda>shift. ucast (drop_bit shift v)) [0, 8, 16, 24]" acc]
  by (simp only: w_u32_def map_map comp_def)

lemma w_u64_bytes: "w_u64 v acc = Inr (acc @ u64Bytes v)"
  using w_all_bytes [of "u64Bytes v" acc] by (simp only: w_u64_def u64Bytes_def map_map comp_def)

lemma r_u32_bytes: "r_u32 (map (\<lambda>shift. ucast (drop_bit shift v)) [0, 8, 16, 24] @ rest) = Inr (v, rest)"
  using encodes_u32 [of v] w_u32_bytes [of v "[]"] unfolding encodes_def by fastforce

lemma r_u64_bytes: "r_u64 (u64Bytes v @ rest) = Inr (v, rest)"
  using encodes_u64 [of v] w_u64_bytes [of v "[]"] unfolding encodes_def by fastforce

definition headerBytes :: "u64 \<Rightarrow> nat \<Rightarrow> u8 list" where
  "headerBytes hash n = map (\<lambda>shift. ucast (drop_bit shift kGameplayStateCodecVersion)) [0, 8, 16, 24] @
     u64Bytes hash @ u64Bytes (of_nat n)"

lemma length_u64Bytes [simp]: "length (u64Bytes v) = 8"
  by (simp add: u64Bytes_def)

lemma length_headerBytes [simp]: "length (headerBytes hash n) = 20"
  by (simp add: headerBytes_def)

lemma length_Magic [simp]: "length Magic = 4"
  by (simp add: Magic_def)

lemma appendHeader_split: "appendHeader [] hash n = Magic @ headerBytes hash n"
  by (simp add: appendHeader_def headerBytes_def)

lemma r_header_bytes: "r_header (headerBytes hash n @ rest) = Inr ((kGameplayStateCodecVersion, hash, of_nat n), rest)"
  unfolding r_header_def headerBytes_def r_bind_def append_assoc r_u32_bytes sum.case prod.case r_u64_bytes
  by (simp add: r_return_def)

lemma container_parts:
  assumes "bytes = Magic @ headerBytes hash n @ rest"
  shows "take 4 bytes = Magic" and "take (HeaderSize - 4) (drop 4 bytes) = headerBytes hash n"
    and "drop HeaderSize bytes = rest" and "length bytes = HeaderSize + length rest"
proof -
  have d: "drop 4 bytes = headerBytes hash n @ rest" using assms by (simp add: drop_eq_Nil append_eq_conv_conj)
  show "take 4 bytes = Magic" using assms by simp
  show "take (HeaderSize - 4) (drop 4 bytes) = headerBytes hash n" unfolding d by (simp add: HeaderSize_def)
  have "drop HeaderSize bytes = drop 20 (drop 4 bytes)" by (simp add: HeaderSize_def)
  then show "drop HeaderSize bytes = rest" unfolding d by simp
  show "length bytes = HeaderSize + length rest" using assms by (simp add: HeaderSize_def)
qed

text \<open>What decoding does once the magic and the header have been read.\<close>

lemma decode_container:
  assumes "bytes = Magic @ headerBytes hash n @ rest" and n: "n < 2 ^ 64"
    and limit: "length bytes \<le> maximumEncodedBytes limits"
  shows "decodeGameplayHostState limits bytes =
    (if n \<noteq> length rest then Inl (StateError GsMalformedInput
       ''gameplay state payload size does not match the container'')
     else case readHost limits rest of
       Inl e \<Rightarrow> Inl e
     | Inr (st, remaining) \<Rightarrow>
         (if remaining \<noteq> [] then Inl (StateError GsMalformedInput
            ''gameplay state contains trailing or malformed payload data'')
          else case host_restore st of
            None \<Rightarrow> Inl (StateError GsInvalidState
              ''decoded gameplay host state failed structural validation'')
          | Some h \<Rightarrow> (if host_stableHash h \<noteq> hash then Inl (StateError GsHashMismatch
              ''decoded gameplay host state hash does not match the container'') else Inr st)))"
proof -
  note P = container_parts [OF assms(1)]
  have "unat (of_nat n :: u64) = n" using n by (rule unat_of_nat_u64)
  moreover have "r_header (headerBytes hash n) = Inr ((kGameplayStateCodecVersion, hash, of_nat n), [])"
    using r_header_bytes [of hash n "[]"] by simp
  ultimately show ?thesis
    using limit unfolding decodeGameplayHostState_def P by (simp add: P)
qed

lemma readHost_empty: "readHost limits [] = Inl truncated"
  by (simp add: readHost_def readCore_def r_entities_def r_count_def r_u32_def r_bind_def)

lemma encode_cases:
  assumes "encodeGameplayHostState limits st = Inr bytes"
  obtains h body where "host_restore st = Some h"
    and "bytes = Magic @ headerBytes (host_stableHash h) (length body) @ body"
    and "readHost limits body = Inr (canonHostState st, [])"
    and "length bytes \<le> maximumEncodedBytes limits"
proof -
  from assms obtain h body where h: "host_restore st = Some h" and w: "writeHost limits st [] = Inr body"
    and len: "\<not> maximumEncodedBytes limits - min HeaderSize (maximumEncodedBytes limits) < length body"
    and bytes: "bytes = appendHeader [] (host_stableHash h) (length body) @ body"
    by (auto simp: encodeGameplayHostState_def split: option.splits sum.splits if_splits)
  from w encodes_host [of limits st] have "\<exists>bs. body = [] @ bs \<and>
      (\<forall>rest. readHost limits (bs @ rest) = Inr (canonHostState st, rest))"
    unfolding encodes_def by blast
  then have "readHost limits (body @ []) = Inr (canonHostState st, [])" by (metis append_Nil)
  then have r: "readHost limits body = Inr (canonHostState st, [])" by simp
  then have "body \<noteq> []" by (auto simp: readHost_empty)
  then have "HeaderSize + length body \<le> maximumEncodedBytes limits"
    using len by (cases "HeaderSize \<le> maximumEncodedBytes limits") (auto simp: min_def)
  with that h bytes r show thesis
    using container_parts(4) [of bytes "host_stableHash h" "length body" body]
    by (simp add: appendHeader_split)
qed

lemma decode_encoded:
  assumes "encodeGameplayHostState limits st = Inr bytes" and "maximumEncodedBytes limits < 2 ^ 64"
  shows "decodeGameplayHostState limits bytes = Inr (canonHostState st)"
  using assms(1)
proof (rule encode_cases)
  fix h body
  assume h: "host_restore st = Some h" and bytes: "bytes = Magic @ headerBytes (host_stableHash h) (length body) @ body"
    and r: "readHost limits body = Inr (canonHostState st, [])" and len: "length bytes \<le> maximumEncodedBytes limits"
  have "length body < 2 ^ 64" using len assms(2) bytes by simp
  from decode_container [OF bytes this len] show ?thesis
    by (simp add: r host_restore_canon h host_hash_canon)
qed

section \<open>Properties\<close>

text \<open>
  C38: whatever state is encoded decodes again, to the same state with every double in its
  canonical pattern; the decoder's own structural validation and hash check pass.
\<close>

theorem encode_decode_roundtrip:
  assumes "encodeGameplayHostState limits st = Inr bytes" and "maximumEncodedBytes limits < 2 ^ 64"
  shows "decodeGameplayHostState limits bytes = Inr (canonHostState st)"
  using assms by (rule decode_encoded)

lemma exampleHost_ok: "host_ok exampleHost"
  using host_reach_safe_inv [OF exampleHost_reach_safe] exampleHost_counters by (intro host_inv_ok) simp_all

lemma exampleHost_written:
  "case writeHost defaultLimits (host_snapshot exampleHost) [] of Inl e \<Rightarrow> False | Inr body \<Rightarrow> length body < 1000"
  unfolding exampleHost_eq by code_simp

lemma exampleHost_encoded:
  obtains bytes where "encodeGameplayHostState defaultLimits (host_snapshot exampleHost) = Inr bytes"
proof -
  obtain body where "writeHost defaultLimits (host_snapshot exampleHost) [] = Inr body" "length body < 1000"
    using exampleHost_written by (auto split: sum.splits)
  then show thesis
    using that by (auto simp: encodeGameplayHostState_def host_restore_snapshot [OF exampleHost_ok]
        defaultLimits_def HeaderSize_def)
qed

theorem encode_decode_roundtrip_witness:
  "\<exists>bytes. encodeGameplayHostState defaultLimits (host_snapshot exampleHost) = Inr bytes \<and>
     decodeGameplayHostState defaultLimits bytes = Inr (canonHostState (host_snapshot exampleHost))"
proof -
  obtain bytes where "encodeGameplayHostState defaultLimits (host_snapshot exampleHost) = Inr bytes"
    by (rule exampleHost_encoded)
  with encode_decode_roundtrip [OF this] show ?thesis by (auto simp: defaultLimits_def)
qed

text \<open>
  C39: no proper prefix and no proper extension of an encoded state is accepted: a truncated or
  padded save file is always reported as an error.
\<close>

theorem damaged_length_rejected:
  assumes "encodeGameplayHostState limits st = Inr bytes" and "maximumEncodedBytes limits < 2 ^ 64"
    and "other = take k bytes \<and> k < length bytes \<or> other = bytes @ extra \<and> extra \<noteq> []"
  shows "\<exists>e. decodeGameplayHostState limits other = Inl e \<and>
    gsCode e \<in> {GsTruncatedInput, GsMalformedInput, GsLimitExceeded}"
  using assms(1)
proof (rule encode_cases)
  fix h body
  assume bytes: "bytes = Magic @ headerBytes (host_stableHash h) (length body) @ body"
    and len: "length bytes \<le> maximumEncodedBytes limits"
  note P = container_parts [OF bytes]
  have small: "length body < 2 ^ 64" using len assms(2) P(4) by simp
  have wrong: ?thesis
    if "other = Magic @ headerBytes (host_stableHash h) (length body) @ rest" "length rest \<noteq> length body" for rest
  proof (cases "length other \<le> maximumEncodedBytes limits")
    case True
    from decode_container [OF that(1) small True] that(2) show ?thesis by simp
  next
    case False
    then show ?thesis by (simp add: decodeGameplayHostState_def)
  qed
  consider "other = take k bytes" "k < HeaderSize" "k < length bytes"
    | "other = take k bytes" "HeaderSize \<le> k" "k < length bytes" | "other = bytes @ extra" "extra \<noteq> []"
    using assms(3) by fastforce
  then show ?thesis
  proof cases
    case 1
    then have "length other < HeaderSize" "length other \<le> maximumEncodedBytes limits" using len by simp_all
    then show ?thesis by (simp add: decodeGameplayHostState_def)
  next
    case 2
    have "k = 4 + (20 + (k - HeaderSize))" using 2 by (simp add: HeaderSize_def)
    then have "other = Magic @ headerBytes (host_stableHash h) (length body) @ take (k - HeaderSize) body"
      using 2(1) bytes by (metis append_eq_conv_conj length_Magic length_headerBytes take_append
          add_diff_cancel_left' le_add1 take_all_iff)
    then show ?thesis using 2(2,3) P(4) by (intro wrong) auto
  next
    case 3
    then show ?thesis using bytes by (intro wrong [of "body @ extra"]) auto
  qed
qed

theorem damaged_length_rejected_witness:
  "\<exists>bytes e. encodeGameplayHostState defaultLimits (host_snapshot exampleHost) = Inr bytes \<and>
     decodeGameplayHostState defaultLimits (bytes @ [0]) = Inl e"
proof -
  obtain bytes where b: "encodeGameplayHostState defaultLimits (host_snapshot exampleHost) = Inr bytes"
    by (rule exampleHost_encoded)
  have "bytes @ [0] = take 0 bytes \<and> 0 < length bytes \<or> bytes @ [0] = bytes @ [0] \<and> [0 :: u8] \<noteq> []" by simp
  from damaged_length_rejected [OF b _ this] b show ?thesis by (auto simp: defaultLimits_def)
qed

text \<open>
  C40: loading is atomic and validated: either the bytes are refused and the host is unchanged, or
  the new host is consistent, was restored from the decoded state and has the hash stored in
  the header.
\<close>

theorem load_atomic:
  assumes "restoreGameplayHostState limits bytes h = (b, h')"
  shows "(if b then host_ok h' \<and> (\<exists>st. decodeGameplayHostState limits bytes = Inr st \<and> host_restore st = Some h') \<and>
      take 4 bytes = Magic \<and>
      (\<exists>n rest. r_header (take (HeaderSize - 4) (drop 4 bytes)) =
         Inr ((kGameplayStateCodecVersion, host_stableHash h', n), rest))
    else h' = h)"
proof (cases b)
  case False
  with assms show ?thesis by (auto simp: restoreGameplayHostState_def split: sum.splits option.splits)
next
  case True
  with assms obtain st where st: "decodeGameplayHostState limits bytes = Inr st" "host_restore st = Some h'"
    by (auto simp: restoreGameplayHostState_def split: sum.splits option.splits)
  moreover from st have "take 4 bytes = Magic \<and> (\<exists>n rest. r_header (take (HeaderSize - 4) (drop 4 bytes)) =
         Inr ((kGameplayStateCodecVersion, host_stableHash h', n), rest))"
    by (auto simp: decodeGameplayHostState_def split: if_splits sum.splits option.splits)
  ultimately show ?thesis using True host_save.restore_inv [OF st(2)] by auto
qed

theorem load_atomic_witness:
  "\<exists>bytes. encodeGameplayHost defaultLimits exampleHost = Inr bytes \<and>
     host_ok (snd (restoreGameplayHostState defaultLimits bytes (newHost 60 1 2)))"
proof -
  obtain bytes where b: "encodeGameplayHostState defaultLimits (host_snapshot exampleHost) = Inr bytes"
    by (rule exampleHost_encoded)
  obtain h where r: "host_restore (canonHostState (host_snapshot exampleHost)) = Some h"
    using host_restore_canon [of "host_snapshot exampleHost"] host_restore_snapshot [OF exampleHost_ok] by simp
  have "decodeGameplayHostState defaultLimits bytes = Inr (canonHostState (host_snapshot exampleHost))"
    using b by (rule decode_encoded) (simp add: defaultLimits_def)
  with r have "restoreGameplayHostState defaultLimits bytes (newHost 60 1 2) = (True, h)"
    by (simp add: restoreGameplayHostState_def)
  from load_atomic [OF this] this b show ?thesis by (auto simp: encodeGameplayHost_def)
qed

end
