(* ===== verification/Source_Text.thy ===== *)
theory Source_Text
  imports RS_Prelude
begin

text \<open>
  Source text with its line map (\<open>include/realscript/text/Text.h\<close>, \<open>src/text/Text.cpp\<close>) and the
  diagnostics that the compiler's stages report (\<open>include/realscript/diagnostics/Diagnostic.h\<close>,
  \<open>src/diagnostics/Diagnostic.cpp\<close>). Offsets are unbounded: a text is held in memory, so no offset
  of it comes near the end of \<open>size_t\<close>.
\<close>

section \<open>Spans and source text\<close>

record TextSpan =
  spanStart :: nat
  spanLength :: nat

definition spanEnd :: "TextSpan \<Rightarrow> nat" where
  "spanEnd s = spanStart s + spanLength s"

definition span_empty :: "TextSpan \<Rightarrow> bool" where
  "span_empty s \<longleftrightarrow> spanLength s = 0"

definition fromBounds :: "nat \<Rightarrow> nat \<Rightarrow> TextSpan" where
  "fromBounds begin endOffset =
     \<lparr>spanStart = begin, spanLength = (if begin \<le> endOffset then endOffset - begin else 0)\<rparr>"

record LinePosition =
  lpLine :: nat
  lpColumn :: nat

record SourceText =
  srcContent :: string
  srcName :: string
  srcLineStarts :: "nat list"

text \<open>The loop of \<open>buildLineMap\<close> from offset \<open>i\<close> on; a carriage return takes a line feed with it.\<close>

fun lineStartsFrom :: "nat \<Rightarrow> string \<Rightarrow> nat list" where
  "lineStartsFrom i [] = []"
| "lineStartsFrom i [c] = (if c = CHR 0x0D \<or> c = CHR 0x0A then [i + 1] else [])"
| "lineStartsFrom i (c # d # cs) =
     (if c = CHR 0x0D then
        (if d = CHR 0x0A then (i + 2) # lineStartsFrom (i + 2) cs
         else (i + 1) # lineStartsFrom (i + 1) (d # cs))
      else if c = CHR 0x0A then (i + 1) # lineStartsFrom (i + 1) (d # cs)
      else lineStartsFrom (i + 1) (d # cs))"

definition buildLineMap :: "string \<Rightarrow> nat list" where
  "buildLineMap content = 0 # lineStartsFrom 0 content"

definition newSourceText :: "string \<Rightarrow> string \<Rightarrow> SourceText" where
  "newSourceText content name =
     \<lparr>srcContent = content, srcName = name, srcLineStarts = buildLineMap content\<rparr>"

definition src_at :: "SourceText \<Rightarrow> nat \<Rightarrow> char" where
  "src_at src offset =
     (if offset < length (srcContent src) then srcContent src ! offset else CHR 0x00)"

definition src_view :: "SourceText \<Rightarrow> TextSpan \<Rightarrow> string" where
  "src_view src span =
     (if length (srcContent src) \<le> spanStart span then ''''
      else take (min (spanLength span) (length (srcContent src) - spanStart span))
             (drop (spanStart span) (srcContent src)))"

text \<open>\<open>std::upper_bound\<close> on the sorted line starts, as a distance from the first.\<close>

definition upperBound :: "nat list \<Rightarrow> nat \<Rightarrow> nat" where
  "upperBound xs x = length (takeWhile (\<lambda>s. s \<le> x) xs)"

definition linePosition :: "SourceText \<Rightarrow> nat \<Rightarrow> LinePosition" where
  "linePosition src offset =
     (let offset' = min offset (length (srcContent src));
          n = upperBound (srcLineStarts src) offset';
          line = (if n = 0 then 0 else n - 1)
      in \<lparr>lpLine = line, lpColumn = offset' - srcLineStarts src ! line\<rparr>)"

section \<open>Diagnostics\<close>

datatype DiagnosticSeverity = SevWarning | SevError

record Diagnostic =
  dgSeverity :: DiagnosticSeverity
  dgCode :: string
  dgMessage :: string
  dgSpan :: TextSpan
  dgSourceName :: string

type_synonym DiagnosticBag = "Diagnostic list"

definition bag_report ::
    "string \<Rightarrow> string \<Rightarrow> TextSpan \<Rightarrow> DiagnosticSeverity \<Rightarrow> string \<Rightarrow> DiagnosticBag \<Rightarrow> DiagnosticBag" where
  "bag_report code message span severity sourceName bag =
     bag @ [\<lparr>dgSeverity = severity, dgCode = code, dgMessage = message, dgSpan = span,
             dgSourceName = sourceName\<rparr>]"

definition bag_append :: "DiagnosticBag \<Rightarrow> DiagnosticBag \<Rightarrow> DiagnosticBag" where
  "bag_append other bag = bag @ other"

definition hasErrors :: "DiagnosticBag \<Rightarrow> bool" where
  "hasErrors bag \<longleftrightarrow> (\<exists>d \<in> set bag. dgSeverity d = SevError)"

definition formatDiagnostic :: "Diagnostic \<Rightarrow> SourceText \<Rightarrow> string" where
  "formatDiagnostic d src =
     (let position = linePosition src (spanStart (dgSpan d));
          name = (if dgSourceName d = '''' then srcName src else dgSourceName d)
      in name @ '':'' @ showNat (lpLine position + 1) @ '':'' @ showNat (lpColumn position + 1) @ '': '' @
         (if dgSeverity d = SevError then ''error'' else ''warning'') @ '' '' @ dgCode d @ '': '' @
         dgMessage d)"

section \<open>The line map\<close>

text \<open>The line starts are strictly increasing offsets of the text, so every offset has a line.\<close>

lemma lineStartsFrom_bounds:
  "sorted_wrt (<) (lineStartsFrom i cs) \<and> (\<forall>s \<in> set (lineStartsFrom i cs). i < s \<and> s \<le> i + length cs)"
proof (induction i cs rule: lineStartsFrom.induct)
  case (3 i c d cs)
  then show ?case by force
qed auto

lemma linePosition_bounds:
  assumes "src = newSourceText content name" and "offset \<le> length content"
  shows "lpLine (linePosition src offset) < length (srcLineStarts src)"
    and "srcLineStarts src ! lpLine (linePosition src offset) + lpColumn (linePosition src offset) = offset"
    and "\<forall>s \<in> set (srcLineStarts src). s \<le> offset \<longrightarrow> s \<le> srcLineStarts src ! lpLine (linePosition src offset)"
proof -
  let ?xs = "srcLineStarts src"
  have xs: "?xs = 0 # lineStartsFrom 0 content" by (simp add: assms newSourceText_def buildLineMap_def)
  then have srt: "sorted_wrt (<) ?xs" using lineStartsFrom_bounds [of 0 content] by auto
  let ?n = "upperBound ?xs offset"
  have n: "0 < ?n" "?n \<le> length ?xs" by (simp_all add: xs upperBound_def length_takeWhile_le)
  have line: "lpLine (linePosition src offset) = ?n - 1"
    "lpColumn (linePosition src offset) = offset - ?xs ! (?n - 1)"
    using assms n by (simp_all add: linePosition_def newSourceText_def Let_def min_def)
  show "lpLine (linePosition src offset) < length ?xs" using n line by simp
  have le: "?xs ! (?n - 1) \<le> offset"
    using n set_takeWhileD [of "?xs ! (?n - 1)" "\<lambda>s. s \<le> offset" ?xs]
    by (metis diff_less nth_mem takeWhile_nth upperBound_def zero_less_one)
  then show "?xs ! lpLine (linePosition src offset) + lpColumn (linePosition src offset) = offset"
    by (simp add: line)
  have "s \<le> ?xs ! (?n - 1)" if "s \<in> set ?xs" "s \<le> offset" for s
  proof -
    from that(1) obtain k where k: "k < length ?xs" "?xs ! k = s" by (auto simp: in_set_conv_nth)
    have "k < ?n"
    proof (rule ccontr)
      assume "\<not> k < ?n"
      then have "?xs ! ?n \<le> s" using srt k by (metis le_neq_implies_less less_imp_le not_less sorted_wrt_nth_less)
      moreover have "?n < length ?xs" using k \<open>\<not> k < ?n\<close> by simp
      then have "offset < ?xs ! ?n"
        using nth_length_takeWhile [of "\<lambda>s. s \<le> offset" ?xs] by (simp add: upperBound_def)
      ultimately show False using that(2) by simp
    qed
    then have "k \<le> ?n - 1" by simp
    moreover have "?n - 1 < length ?xs" using n by simp
    ultimately show ?thesis
      using sorted_wrt_nth_less [OF srt, of k "?n - 1"] k(2) by (cases "k = ?n - 1") auto
  qed
  then show "\<forall>s \<in> set ?xs. s \<le> offset \<longrightarrow> s \<le> ?xs ! lpLine (linePosition src offset)"
    by (simp add: line)
qed

end
