(* ===== verification/Syntax_Facts.thy ===== *)
theory Syntax_Facts
  imports Source_Text
begin

text \<open>
  The kinds of tokens with the tables over them (\<open>SyntaxKind\<close> of
  \<open>include/realscript/syntax/Syntax.h\<close> up to \<open>VoidKeyword\<close> and \<open>src/syntax/SyntaxFacts.cpp\<close>). The one
  enumeration of the code is grouped: its punctuators and its keywords are types of their own,
  injected by \<open>Punct\<close> and \<open>Keyword\<close>. The kinds of syntax nodes, which only the parser uses, are left
  out.
\<close>

section \<open>Kinds\<close>

datatype (plugins only: code size) Punctuator =
    PlusToken | PlusEqualsToken | MinusToken | MinusEqualsToken | ArrowToken | StarToken
    | StarEqualsToken | SlashToken | SlashEqualsToken | PercentToken | PercentEqualsToken
    | BangToken | AmpersandAmpersandToken | PipePipeToken | EqualsToken | EqualsEqualsToken
    | BangEqualsToken | LessToken | LessOrEqualsToken | GreaterToken | GreaterOrEqualsToken
    | OpenParenToken | CloseParenToken | OpenBraceToken | CloseBraceToken | OpenBracketToken
    | CloseBracketToken | CommaToken | DotToken | ColonToken | QuestionToken
    | QuestionQuestionToken | QuestionDotToken | SemicolonToken

datatype (plugins only: code size) KeywordKind =
    ModuleKeyword | ImportKeyword | ReturnKeyword | IfKeyword | ElseKeyword | WhileKeyword
    | ForKeyword | ForeachKeyword | InKeyword | RefKeyword | OutKeyword | ParamsKeyword
    | DoKeyword | BreakKeyword | ContinueKeyword | SwitchKeyword | CaseKeyword | DefaultKeyword
    | SequenceKeyword | YieldKeyword | ClassKeyword | StructKeyword | EnumKeyword
    | InterfaceKeyword | DelegateKeyword | EventKeyword | StaticKeyword | PublicKeyword
    | PrivateKeyword | ProtectedKeyword | InternalKeyword | AbstractKeyword | VirtualKeyword
    | OverrideKeyword | SealedKeyword | BaseKeyword | GetKeyword | SetKeyword | ThisKeyword
    | NewKeyword | TrueKeyword | FalseKeyword | NullKeyword | IsKeyword | AsKeyword
    | TypeofKeyword | WhenKeyword | ThrowKeyword | OperatorKeyword | TryKeyword | CatchKeyword
    | FinallyKeyword | BoolKeyword | ByteKeyword | SByteKeyword | ShortKeyword | UShortKeyword
    | IntKeyword | UIntKeyword | LongKeyword | ULongKeyword | FloatKeyword | DoubleKeyword
    | StringKeyword | HandleKeyword | VoidKeyword

datatype SyntaxKind =
    BadToken | EndOfFileToken | IdentifierToken | IntegerLiteralToken | FloatLiteralToken | StringLiteralToken
  | Punct Punctuator | Keyword KeywordKind

section \<open>Keywords\<close>

definition keywordTable :: "(string \<times> KeywordKind) list" where
  "keywordTable =
     [(''module'', ModuleKeyword), (''import'', ImportKeyword), (''return'', ReturnKeyword),
      (''if'', IfKeyword), (''else'', ElseKeyword), (''while'', WhileKeyword),
      (''for'', ForKeyword), (''foreach'', ForeachKeyword), (''in'', InKeyword),
      (''ref'', RefKeyword), (''out'', OutKeyword), (''params'', ParamsKeyword),
      (''do'', DoKeyword), (''break'', BreakKeyword), (''continue'', ContinueKeyword),
      (''switch'', SwitchKeyword), (''case'', CaseKeyword), (''default'', DefaultKeyword),
      (''sequence'', SequenceKeyword), (''yield'', YieldKeyword), (''class'', ClassKeyword),
      (''struct'', StructKeyword), (''enum'', EnumKeyword), (''interface'', InterfaceKeyword),
      (''delegate'', DelegateKeyword), (''event'', EventKeyword), (''static'', StaticKeyword),
      (''public'', PublicKeyword), (''private'', PrivateKeyword),
      (''protected'', ProtectedKeyword), (''internal'', InternalKeyword),
      (''abstract'', AbstractKeyword), (''virtual'', VirtualKeyword),
      (''override'', OverrideKeyword), (''sealed'', SealedKeyword), (''base'', BaseKeyword),
      (''get'', GetKeyword), (''set'', SetKeyword), (''this'', ThisKeyword),
      (''new'', NewKeyword), (''true'', TrueKeyword), (''false'', FalseKeyword),
      (''null'', NullKeyword), (''is'', IsKeyword), (''as'', AsKeyword),
      (''typeof'', TypeofKeyword), (''when'', WhenKeyword), (''throw'', ThrowKeyword),
      (''operator'', OperatorKeyword), (''try'', TryKeyword), (''catch'', CatchKeyword),
      (''finally'', FinallyKeyword), (''bool'', BoolKeyword), (''byte'', ByteKeyword),
      (''sbyte'', SByteKeyword), (''short'', ShortKeyword), (''ushort'', UShortKeyword),
      (''int'', IntKeyword), (''uint'', UIntKeyword), (''long'', LongKeyword),
      (''ulong'', ULongKeyword), (''float'', FloatKeyword), (''double'', DoubleKeyword),
      (''string'', StringKeyword), (''handle'', HandleKeyword), (''void'', VoidKeyword)]"

definition keywordKind :: "string \<Rightarrow> SyntaxKind" where
  "keywordKind text = (case map_of keywordTable text of None \<Rightarrow> IdentifierToken | Some k \<Rightarrow> Keyword k)"

section \<open>Names\<close>

text \<open>\<open>syntaxKindName\<close> on the kinds of tokens: the name of the enumerator.\<close>

primrec punctuatorName :: "Punctuator \<Rightarrow> string" where
  "punctuatorName PlusToken = ''PlusToken''"
| "punctuatorName PlusEqualsToken = ''PlusEqualsToken''"
| "punctuatorName MinusToken = ''MinusToken''"
| "punctuatorName MinusEqualsToken = ''MinusEqualsToken''"
| "punctuatorName ArrowToken = ''ArrowToken''"
| "punctuatorName StarToken = ''StarToken''"
| "punctuatorName StarEqualsToken = ''StarEqualsToken''"
| "punctuatorName SlashToken = ''SlashToken''"
| "punctuatorName SlashEqualsToken = ''SlashEqualsToken''"
| "punctuatorName PercentToken = ''PercentToken''"
| "punctuatorName PercentEqualsToken = ''PercentEqualsToken''"
| "punctuatorName BangToken = ''BangToken''"
| "punctuatorName AmpersandAmpersandToken = ''AmpersandAmpersandToken''"
| "punctuatorName PipePipeToken = ''PipePipeToken''"
| "punctuatorName EqualsToken = ''EqualsToken''"
| "punctuatorName EqualsEqualsToken = ''EqualsEqualsToken''"
| "punctuatorName BangEqualsToken = ''BangEqualsToken''"
| "punctuatorName LessToken = ''LessToken''"
| "punctuatorName LessOrEqualsToken = ''LessOrEqualsToken''"
| "punctuatorName GreaterToken = ''GreaterToken''"
| "punctuatorName GreaterOrEqualsToken = ''GreaterOrEqualsToken''"
| "punctuatorName OpenParenToken = ''OpenParenToken''"
| "punctuatorName CloseParenToken = ''CloseParenToken''"
| "punctuatorName OpenBraceToken = ''OpenBraceToken''"
| "punctuatorName CloseBraceToken = ''CloseBraceToken''"
| "punctuatorName OpenBracketToken = ''OpenBracketToken''"
| "punctuatorName CloseBracketToken = ''CloseBracketToken''"
| "punctuatorName CommaToken = ''CommaToken''"
| "punctuatorName DotToken = ''DotToken''"
| "punctuatorName ColonToken = ''ColonToken''"
| "punctuatorName QuestionToken = ''QuestionToken''"
| "punctuatorName QuestionQuestionToken = ''QuestionQuestionToken''"
| "punctuatorName QuestionDotToken = ''QuestionDotToken''"
| "punctuatorName SemicolonToken = ''SemicolonToken''"

primrec keywordName :: "KeywordKind \<Rightarrow> string" where
  "keywordName ModuleKeyword = ''ModuleKeyword''"
| "keywordName ImportKeyword = ''ImportKeyword''"
| "keywordName ReturnKeyword = ''ReturnKeyword''"
| "keywordName IfKeyword = ''IfKeyword''"
| "keywordName ElseKeyword = ''ElseKeyword''"
| "keywordName WhileKeyword = ''WhileKeyword''"
| "keywordName ForKeyword = ''ForKeyword''"
| "keywordName ForeachKeyword = ''ForeachKeyword''"
| "keywordName InKeyword = ''InKeyword''"
| "keywordName RefKeyword = ''RefKeyword''"
| "keywordName OutKeyword = ''OutKeyword''"
| "keywordName ParamsKeyword = ''ParamsKeyword''"
| "keywordName DoKeyword = ''DoKeyword''"
| "keywordName BreakKeyword = ''BreakKeyword''"
| "keywordName ContinueKeyword = ''ContinueKeyword''"
| "keywordName SwitchKeyword = ''SwitchKeyword''"
| "keywordName CaseKeyword = ''CaseKeyword''"
| "keywordName DefaultKeyword = ''DefaultKeyword''"
| "keywordName SequenceKeyword = ''SequenceKeyword''"
| "keywordName YieldKeyword = ''YieldKeyword''"
| "keywordName ClassKeyword = ''ClassKeyword''"
| "keywordName StructKeyword = ''StructKeyword''"
| "keywordName EnumKeyword = ''EnumKeyword''"
| "keywordName InterfaceKeyword = ''InterfaceKeyword''"
| "keywordName DelegateKeyword = ''DelegateKeyword''"
| "keywordName EventKeyword = ''EventKeyword''"
| "keywordName StaticKeyword = ''StaticKeyword''"
| "keywordName PublicKeyword = ''PublicKeyword''"
| "keywordName PrivateKeyword = ''PrivateKeyword''"
| "keywordName ProtectedKeyword = ''ProtectedKeyword''"
| "keywordName InternalKeyword = ''InternalKeyword''"
| "keywordName AbstractKeyword = ''AbstractKeyword''"
| "keywordName VirtualKeyword = ''VirtualKeyword''"
| "keywordName OverrideKeyword = ''OverrideKeyword''"
| "keywordName SealedKeyword = ''SealedKeyword''"
| "keywordName BaseKeyword = ''BaseKeyword''"
| "keywordName GetKeyword = ''GetKeyword''"
| "keywordName SetKeyword = ''SetKeyword''"
| "keywordName ThisKeyword = ''ThisKeyword''"
| "keywordName NewKeyword = ''NewKeyword''"
| "keywordName TrueKeyword = ''TrueKeyword''"
| "keywordName FalseKeyword = ''FalseKeyword''"
| "keywordName NullKeyword = ''NullKeyword''"
| "keywordName IsKeyword = ''IsKeyword''"
| "keywordName AsKeyword = ''AsKeyword''"
| "keywordName TypeofKeyword = ''TypeofKeyword''"
| "keywordName WhenKeyword = ''WhenKeyword''"
| "keywordName ThrowKeyword = ''ThrowKeyword''"
| "keywordName OperatorKeyword = ''OperatorKeyword''"
| "keywordName TryKeyword = ''TryKeyword''"
| "keywordName CatchKeyword = ''CatchKeyword''"
| "keywordName FinallyKeyword = ''FinallyKeyword''"
| "keywordName BoolKeyword = ''BoolKeyword''"
| "keywordName ByteKeyword = ''ByteKeyword''"
| "keywordName SByteKeyword = ''SByteKeyword''"
| "keywordName ShortKeyword = ''ShortKeyword''"
| "keywordName UShortKeyword = ''UShortKeyword''"
| "keywordName IntKeyword = ''IntKeyword''"
| "keywordName UIntKeyword = ''UIntKeyword''"
| "keywordName LongKeyword = ''LongKeyword''"
| "keywordName ULongKeyword = ''ULongKeyword''"
| "keywordName FloatKeyword = ''FloatKeyword''"
| "keywordName DoubleKeyword = ''DoubleKeyword''"
| "keywordName StringKeyword = ''StringKeyword''"
| "keywordName HandleKeyword = ''HandleKeyword''"
| "keywordName VoidKeyword = ''VoidKeyword''"

primrec syntaxKindName :: "SyntaxKind \<Rightarrow> string" where
  "syntaxKindName BadToken = ''BadToken''"
| "syntaxKindName EndOfFileToken = ''EndOfFileToken''"
| "syntaxKindName IdentifierToken = ''IdentifierToken''"
| "syntaxKindName IntegerLiteralToken = ''IntegerLiteralToken''"
| "syntaxKindName FloatLiteralToken = ''FloatLiteralToken''"
| "syntaxKindName StringLiteralToken = ''StringLiteralToken''"
| "syntaxKindName (Punct p) = punctuatorName p"
| "syntaxKindName (Keyword k) = keywordName k"

section \<open>Classes of kinds\<close>

definition unaryPrecedence :: "SyntaxKind \<Rightarrow> int" where
  "unaryPrecedence kind = (if kind \<in> Punct ` {PlusToken, MinusToken, BangToken} then 7 else 0)"

definition binaryPrecedence :: "SyntaxKind \<Rightarrow> int" where
  "binaryPrecedence kind =
     (case kind of
        Punct p \<Rightarrow>
          (if p \<in> {StarToken, SlashToken, PercentToken} then 6
           else if p \<in> {PlusToken, MinusToken} then 5
           else if p \<in> {LessToken, LessOrEqualsToken, GreaterToken, GreaterOrEqualsToken} then 4
           else if p \<in> {EqualsEqualsToken, BangEqualsToken} then 3
           else if p = AmpersandAmpersandToken then 2
           else if p = PipePipeToken then 1
           else 0)
      | _ \<Rightarrow> 0)"

definition isDeclarationModifier :: "SyntaxKind \<Rightarrow> bool" where
  "isDeclarationModifier kind \<longleftrightarrow>
     kind \<in> Keyword ` {StaticKeyword, PublicKeyword, PrivateKeyword, ProtectedKeyword, InternalKeyword,
       AbstractKeyword, VirtualKeyword, OverrideKeyword, SealedKeyword}"

definition isPrimitiveTypeKeyword :: "SyntaxKind \<Rightarrow> bool" where
  "isPrimitiveTypeKeyword kind \<longleftrightarrow>
     kind \<in> Keyword ` {BoolKeyword, ByteKeyword, SByteKeyword, ShortKeyword, UShortKeyword, IntKeyword,
       UIntKeyword, LongKeyword, ULongKeyword, FloatKeyword, DoubleKeyword, StringKeyword,
       HandleKeyword, VoidKeyword}"

end
