(* ===== verification/Lexer.thy ===== *)
theory Lexer
  imports Syntax_Facts Binary64
begin

text \<open>
  The lexer (\<open>src/syntax/Lexer.cpp\<close>). The state is the source, the position and the diagnostics
  reported so far; every function of the class is a function on that state. A position past the
  end reads as the null character, and so does a null character inside the text, which therefore
  ends it. The loops are recursive with the rest of the text as measure.
\<close>

section \<open>State\<close>

record Lexer =
  lxSource :: SourceText
  lxPosition :: nat
  lxDiagnostics :: DiagnosticBag

definition newLexer :: "SourceText \<Rightarrow> DiagnosticBag \<Rightarrow> Lexer" where
  "newLexer src bag = \<lparr>lxSource = src, lxPosition = 0, lxDiagnostics = bag\<rparr>"

definition current :: "Lexer \<Rightarrow> char" where
  "current lx = src_at (lxSource lx) (lxPosition lx)"

definition peek :: "nat \<Rightarrow> Lexer \<Rightarrow> char" where
  "peek offset lx = src_at (lxSource lx) (lxPosition lx + offset)"

definition advance :: "nat \<Rightarrow> Lexer \<Rightarrow> Lexer" where
  "advance count lx = lx\<lparr>lxPosition := lxPosition lx + count\<rparr>"

definition report :: "string \<Rightarrow> string \<Rightarrow> TextSpan \<Rightarrow> Lexer \<Rightarrow> Lexer" where
  "report code message span lx =
     lx\<lparr>lxDiagnostics := bag_report code message span SevError '''' (lxDiagnostics lx)\<rparr>"

definition spanFrom :: "nat \<Rightarrow> Lexer \<Rightarrow> TextSpan" where
  "spanFrom start lx = \<lparr>spanStart = start, spanLength = lxPosition lx - start\<rparr>"

definition remains :: "Lexer \<Rightarrow> nat" where
  "remains lx = length (srcContent (lxSource lx)) - lxPosition lx"

lemma src_at_pos: "src_at src p \<noteq> CHR 0x00 \<Longrightarrow> p < length (srcContent src)"
  by (auto simp: src_at_def split: if_splits)

lemma advance_remains: "current lx \<noteq> CHR 0x00 \<Longrightarrow> 0 < n \<Longrightarrow> remains (advance n lx) < remains lx"
  using src_at_pos [of "lxSource lx" "lxPosition lx"] by (simp add: remains_def advance_def current_def)

section \<open>Character classes\<close>

definition isDigit :: "char \<Rightarrow> bool" where
  "isDigit c \<longleftrightarrow> 48 \<le> (of_char c :: nat) \<and> (of_char c :: nat) \<le> 57"

definition isIdentifierStart :: "char \<Rightarrow> bool" where
  "isIdentifierStart c \<longleftrightarrow>
     (97 \<le> (of_char c :: nat) \<and> (of_char c :: nat) \<le> 122) \<or>
     (65 \<le> (of_char c :: nat) \<and> (of_char c :: nat) \<le> 90) \<or> c = CHR ''_''"

definition isIdentifierPart :: "char \<Rightarrow> bool" where
  "isIdentifierPart c \<longleftrightarrow> isIdentifierStart c \<or> isDigit c"

definition isBlank :: "char \<Rightarrow> bool" where
  "isBlank c \<longleftrightarrow> c = CHR '' '' \<or> c = CHR 0x09 \<or> c = CHR 0x0D \<or> c = CHR 0x0A"

section \<open>Loops over characters\<close>

text \<open>\<open>while (P (current ())) advance ();\<close>, for predicates that fail on the null character.\<close>

function scanWhile :: "(char \<Rightarrow> bool) \<Rightarrow> Lexer \<Rightarrow> Lexer" where
  "scanWhile P lx = (if current lx \<noteq> CHR 0x00 \<and> P (current lx) then scanWhile P (advance 1 lx) else lx)"
  by pat_completeness auto
termination by (relation "measure (\<lambda>(P, lx). remains lx)") (auto simp: advance_remains)

declare scanWhile.simps [simp del]

text \<open>The body of a block comment: up to the closing mark or the end.\<close>

function scanComment :: "Lexer \<Rightarrow> Lexer" where
  "scanComment lx =
     (if current lx \<noteq> CHR 0x00 \<and> \<not> (current lx = CHR ''*'' \<and> peek 1 lx = CHR ''/'')
      then scanComment (advance 1 lx) else lx)"
  by pat_completeness auto
termination by (relation "measure remains") (auto simp: advance_remains)

declare scanComment.simps [simp del]

text \<open>A loop that only advances.\<close>

definition moved :: "Lexer \<Rightarrow> Lexer \<Rightarrow> bool" where
  "moved lx lx' \<longleftrightarrow> lxSource lx' = lxSource lx \<and> lxPosition lx \<le> lxPosition lx'"

lemma moved_refl [simp]: "moved lx lx"
  by (simp add: moved_def)

lemma moved_trans: "moved a b \<Longrightarrow> moved b c \<Longrightarrow> moved a c"
  by (simp add: moved_def)

lemma moved_advance [simp]: "moved lx (advance n lx)"
  by (simp add: moved_def advance_def)

lemma moved_report [simp]: "moved lx (report c m s lx') = moved lx lx'" "moved (report c m s lx) lx' = moved lx lx'"
  by (simp_all add: moved_def report_def)

lemma moved_scanWhile: "moved lx (scanWhile P lx)"
  by (induction P lx rule: scanWhile.induct)
    (subst scanWhile.simps, auto intro: moved_trans [OF moved_advance])

lemma moved_scanComment: "moved lx (scanComment lx)"
  by (induction lx rule: scanComment.induct)
    (subst scanComment.simps, auto intro: moved_trans [OF moved_advance])

lemma moved_remains: "moved lx lx' \<Longrightarrow> remains lx' \<le> remains lx"
  by (auto simp: moved_def remains_def intro: diff_le_mono2)

section \<open>Trivia\<close>

function skipTrivia :: "Lexer \<Rightarrow> Lexer" where
  "skipTrivia lx =
     (if isBlank (current lx) then skipTrivia (advance 1 lx)
      else if current lx = CHR ''/'' \<and> peek 1 lx = CHR ''/'' then
        skipTrivia (scanWhile (\<lambda>c. c \<noteq> CHR 0x0D \<and> c \<noteq> CHR 0x0A) (advance 2 lx))
      else if current lx = CHR ''/'' \<and> peek 1 lx = CHR ''*'' then
        (let lx' = scanComment (advance 2 lx)
         in if current lx' = CHR 0x00
            then report ''RS1002'' ''unterminated block comment'' (spanFrom (lxPosition lx) lx') lx'
            else skipTrivia (advance 2 lx'))
      else lx)"
  by pat_completeness auto
termination
proof (relation "measure remains")
  fix lx assume "isBlank (current lx)"
  then have "current lx \<noteq> CHR 0x00" by (auto simp: isBlank_def)
  then show "(advance 1 lx, lx) \<in> measure remains" by (simp add: advance_remains)
next
  fix lx assume "current lx = CHR ''/'' \<and> peek 1 lx = CHR ''/''"
  then have "remains (advance 2 lx) < remains lx" by (simp add: advance_remains)
  with moved_remains [OF moved_scanWhile]
  show "(scanWhile (\<lambda>c. c \<noteq> CHR 0x0D \<and> c \<noteq> CHR 0x0A) (advance 2 lx), lx) \<in> measure remains"
    by (fastforce intro: order_le_less_trans)
next
  fix lx lx' assume "current lx = CHR ''/'' \<and> peek 1 lx = CHR ''*''" and eq: "lx' = scanComment (advance 2 lx)"
  then have "remains (advance 2 lx) < remains lx" by (simp add: advance_remains)
  moreover have "remains (advance 2 lx') \<le> remains (advance 2 lx)"
    unfolding eq using moved_remains [OF moved_trans [OF moved_scanComment moved_advance]] .
  ultimately show "(advance 2 lx', lx) \<in> measure remains" by simp
qed auto

declare skipTrivia.simps [simp del]

lemma moved_skipTrivia: "moved lx (skipTrivia lx)"
proof (induction lx rule: skipTrivia.induct)
  case (1 lx)
  have "moved lx (scanWhile P (advance 2 lx))" "moved lx (advance 2 (scanComment (advance 2 lx)))"
    "moved lx (scanComment (advance 2 lx))" for P
    by (blast intro: moved_trans moved_advance moved_scanWhile moved_scanComment)+
  with 1 show ?case
    by (subst skipTrivia.simps) (auto simp: Let_def intro: moved_trans moved_trans [OF moved_advance])
qed

section \<open>Tokens\<close>

datatype TokenValue = TvNone | TvInt u64 | TvDouble f64 | TvBool bool | TvString string

record SyntaxToken =
  tkKind :: SyntaxKind
  tkSpan :: TextSpan
  tkText :: string
  tkValue :: TokenValue
  tkMissing :: bool

definition token :: "SyntaxKind \<Rightarrow> TextSpan \<Rightarrow> string \<Rightarrow> TokenValue \<Rightarrow> SyntaxToken" where
  "token kind span text val =
     \<lparr>tkKind = kind, tkSpan = span, tkText = text, tkValue = val, tkMissing = False\<rparr>"

definition lexeme :: "nat \<Rightarrow> Lexer \<Rightarrow> string" where
  "lexeme start lx = src_view (lxSource lx) (spanFrom start lx)"

section \<open>Numbers\<close>

definition digitValue :: "char \<Rightarrow> nat" where
  "digitValue c = of_char c - 48"

definition decimalValue :: "string \<Rightarrow> nat" where
  "decimalValue ds = foldl (\<lambda>n c. 10 * n + digitValue c) 0 ds"

text \<open>
  \<open>std::from_chars\<close> into a signed 64-bit integer, on digits only; \<open>None\<close> is the range error.
  \<open>std::strtod\<close> on a decimal number without sign and exponent, in the C locale: the nearest double
  and the number of characters read.
\<close>

definition from_chars :: "string \<Rightarrow> u64 option" where
  "from_chars ds = (if decimalValue ds < 2 ^ 63 then Some (of_nat (decimalValue ds)) else None)"

definition strtod :: "string \<Rightarrow> f64 \<times> nat" where
  "strtod text =
     (let whole = takeWhile isDigit text;
          rest = drop (length whole) text;
          fraction = (if rest \<noteq> [] \<and> hd rest = CHR ''.'' then takeWhile isDigit (tl rest) else [])
      in if whole = [] \<and> fraction = [] then (0, 0)
         else (f64_make False (bitsOfRatio (decimalValue (whole @ fraction) * oneUnits) (10 ^ length fraction)),
               length whole + (if rest \<noteq> [] \<and> hd rest = CHR ''.'' then 1 + length fraction else 0)))"

definition lexNumber :: "Lexer \<Rightarrow> SyntaxToken \<times> Lexer" where
  "lexNumber lx =
     (let start = lxPosition lx;
          lx1 = scanWhile isDigit lx;
          isFloat = (current lx1 = CHR ''.'' \<and> isDigit (peek 1 lx1));
          lx2 = (if isFloat then scanWhile isDigit (advance 1 lx1) else lx1);
          span = spanFrom start lx2;
          text = lexeme start lx2
      in if isFloat then
           (case strtod text of (val, consumed) \<Rightarrow>
              if consumed = 0 \<or> consumed < length text
              then (token FloatLiteralToken span text (TvDouble 0),
                    report ''RS1003'' ''invalid floating-point literal'' span lx2)
              else (token FloatLiteralToken span text (TvDouble val), lx2))
         else
           (case from_chars text of
              None \<Rightarrow> (token IntegerLiteralToken span text (TvInt 0),
                       report ''RS1004'' ''integer literal is outside the supported range'' span lx2)
            | Some val \<Rightarrow> (token IntegerLiteralToken span text (TvInt val), lx2)))"

section \<open>Names and keywords\<close>

definition lexIdentifierOrKeyword :: "Lexer \<Rightarrow> SyntaxToken \<times> Lexer" where
  "lexIdentifierOrKeyword lx =
     (let start = lxPosition lx;
          lx1 = scanWhile isIdentifierPart lx;
          text = lexeme start lx1;
          kind = keywordKind text
      in (token kind (spanFrom start lx1) text
            (if kind = Keyword TrueKeyword then TvBool True
             else if kind = Keyword FalseKeyword then TvBool False else TvNone), lx1))"

section \<open>Strings\<close>

definition escapedChar :: "char \<Rightarrow> char option" where
  "escapedChar c =
     (if c = CHR ''n'' then Some (CHR 0x0A) else if c = CHR ''r'' then Some (CHR 0x0D)
      else if c = CHR ''t'' then Some (CHR 0x09) else if c = CHR 0x5C then Some (CHR 0x5C)
      else if c = CHR 0x22 then Some (CHR 0x22) else None)"

text \<open>The loop over the characters: the value so far, and whether the closing quote was found.\<close>

function stringLoop :: "string \<Rightarrow> Lexer \<Rightarrow> bool \<times> string \<times> Lexer" where
  "stringLoop val lx =
     (if current lx = CHR 0x00 then (False, val, lx)
      else if current lx = CHR 0x22 then (True, val, advance 1 lx)
      else if current lx = CHR 0x0D \<or> current lx = CHR 0x0A then (False, val, lx)
      else if current lx = CHR 0x5C then
        (case escapedChar (peek 1 lx) of
           Some c \<Rightarrow> stringLoop (val @ [c]) (advance 2 lx)
         | None \<Rightarrow> stringLoop (val @ [peek 1 lx])
             (advance 2 (report ''RS1005'' ''unsupported escape sequence''
                \<lparr>spanStart = lxPosition lx, spanLength = 2\<rparr> lx)))
      else stringLoop (val @ [current lx]) (advance 1 lx))"
  by pat_completeness auto
termination
proof (relation "measure (\<lambda>(val, lx). remains lx)")
  have r: "remains (advance 2 (report c m s lx)) = remains (advance 2 lx)" for c m s lx
    by (simp add: remains_def advance_def report_def)
  fix val lx assume "current lx \<noteq> CHR 0x00"
  then show "((val @ [peek 1 lx], advance 2 (report ''RS1005'' ''unsupported escape sequence''
      \<lparr>spanStart = lxPosition lx, spanLength = 2\<rparr> lx)), (val, lx)) \<in> measure (\<lambda>(val, lx). remains lx)"
    by (simp add: r advance_remains)
qed (auto simp: advance_remains)

declare stringLoop.simps [simp del]

definition lexString :: "Lexer \<Rightarrow> SyntaxToken \<times> Lexer" where
  "lexString lx =
     (let start = lxPosition lx
      in case stringLoop [] (advance 1 lx) of (terminated, val, lx1) \<Rightarrow>
           (let span = spanFrom start lx1;
                lx2 = (if terminated then lx1
                       else report ''RS1001'' ''unterminated string literal'' span lx1)
            in (token StringLiteralToken span (src_view (lxSource lx1) span) (TvString val), lx2)))"

section \<open>The next token\<close>

definition fixedToken :: "nat \<Rightarrow> SyntaxKind \<Rightarrow> Lexer \<Rightarrow> SyntaxToken \<times> Lexer" where
  "fixedToken n kind lx =
     (let span = \<lparr>spanStart = lxPosition lx, spanLength = n\<rparr>
      in (token kind span (src_view (lxSource lx) span) TvNone, advance n lx))"

abbreviation single :: "Punctuator \<Rightarrow> Lexer \<Rightarrow> SyntaxToken \<times> Lexer" where
  "single p \<equiv> fixedToken 1 (Punct p)"

abbreviation pair :: "Punctuator \<Rightarrow> Lexer \<Rightarrow> SyntaxToken \<times> Lexer" where
  "pair p \<equiv> fixedToken 2 (Punct p)"

definition badToken :: "Lexer \<Rightarrow> SyntaxToken \<times> Lexer" where
  "badToken lx =
     (let span = \<lparr>spanStart = lxPosition lx, spanLength = 1\<rparr>;
          text = src_view (lxSource lx) span
      in (token BadToken span text TvNone,
          report ''RS1000'' (''invalid character '' @ [CHR 0x27] @ text @ [CHR 0x27]) span (advance 1 lx)))"

definition punctuation :: "Lexer \<Rightarrow> SyntaxToken \<times> Lexer" where
  "punctuation lx =
     (let c = current lx; d = peek 1 lx
      in if c = CHR ''+'' then (if d = CHR ''='' then pair PlusEqualsToken lx else single PlusToken lx)
         else if c = CHR ''-'' then (if d = CHR ''='' then pair MinusEqualsToken lx else single MinusToken lx)
         else if c = CHR ''*'' then (if d = CHR ''='' then pair StarEqualsToken lx else single StarToken lx)
         else if c = CHR ''/'' then (if d = CHR ''='' then pair SlashEqualsToken lx else single SlashToken lx)
         else if c = CHR ''%'' then
           (if d = CHR ''='' then pair PercentEqualsToken lx else single PercentToken lx)
         else if c = CHR ''('' then single OpenParenToken lx
         else if c = CHR '')'' then single CloseParenToken lx
         else if c = CHR ''{'' then single OpenBraceToken lx
         else if c = CHR ''}'' then single CloseBraceToken lx
         else if c = CHR ''['' then single OpenBracketToken lx
         else if c = CHR '']'' then single CloseBracketToken lx
         else if c = CHR '','' then single CommaToken lx
         else if c = CHR ''.'' then single DotToken lx
         else if c = CHR '':'' then single ColonToken lx
         else if c = CHR ''?'' then
           (if d = CHR ''?'' then pair QuestionQuestionToken lx
            else if d = CHR ''.'' then pair QuestionDotToken lx else single QuestionToken lx)
         else if c = CHR '';'' then single SemicolonToken lx
         else if c = CHR ''!'' then (if d = CHR ''='' then pair BangEqualsToken lx else single BangToken lx)
         else if c = CHR ''='' then
           (if d = CHR ''='' then pair EqualsEqualsToken lx
            else if d = CHR ''>'' then pair ArrowToken lx else single EqualsToken lx)
         else if c = CHR ''<'' then (if d = CHR ''='' then pair LessOrEqualsToken lx else single LessToken lx)
         else if c = CHR ''>'' then
           (if d = CHR ''='' then pair GreaterOrEqualsToken lx else single GreaterToken lx)
         else if c = CHR ''&'' \<and> d = CHR ''&'' then pair AmpersandAmpersandToken lx
         else if c = CHR ''|'' \<and> d = CHR ''|'' then pair PipePipeToken lx
         else badToken lx)"

definition nextToken :: "Lexer \<Rightarrow> SyntaxToken \<times> Lexer" where
  "nextToken lx0 =
     (let lx = skipTrivia lx0; c = current lx
      in if c = CHR 0x00
         then (token EndOfFileToken \<lparr>spanStart = lxPosition lx, spanLength = 0\<rparr> '''' TvNone, lx)
         else if isDigit c then lexNumber lx
         else if isIdentifierStart c then lexIdentifierOrKeyword lx
         else if c = CHR 0x22 then lexString lx
         else punctuation lx)"

section \<open>Progress\<close>

text \<open>
  What a token function does from the start of a token at \<open>lx\<close>: it reads at least one character and
  takes as text what it has read.
\<close>

definition lexes :: "Lexer \<Rightarrow> SyntaxToken \<times> Lexer \<Rightarrow> bool" where
  "lexes lx out \<longleftrightarrow>
     (case out of (tk, lx') \<Rightarrow>
        lxSource lx' = lxSource lx \<and> lxPosition lx < lxPosition lx' \<and>
        tkSpan tk = spanFrom (lxPosition lx) lx' \<and> tkText tk = src_view (lxSource lx) (tkSpan tk) \<and>
        tkKind tk \<noteq> EndOfFileToken)"

lemma advance_views [simp]:
  "lxSource (advance n lx) = lxSource lx" "lxPosition (advance n lx) = lxPosition lx + n"
  "lxDiagnostics (advance n lx) = lxDiagnostics lx"
  by (simp_all add: advance_def)

lemma report_views [simp]:
  "lxSource (report c m s lx) = lxSource lx" "lxPosition (report c m s lx) = lxPosition lx"
  by (simp_all add: report_def)

lemma token_views [simp]:
  "tkKind (token k s t v) = k" "tkSpan (token k s t v) = s" "tkText (token k s t v) = t"
  "tkValue (token k s t v) = v"
  by (simp_all add: token_def)

lemma scanWhile_progress:
  "current lx \<noteq> CHR 0x00 \<Longrightarrow> P (current lx) \<Longrightarrow> lxPosition lx < lxPosition (scanWhile P lx)"
  using moved_scanWhile [of "advance 1 lx" P] by (subst scanWhile.simps) (simp add: moved_def)

lemma scanWhile_source: "lxSource (scanWhile P lx) = lxSource lx"
  using moved_scanWhile [of lx P] by (simp add: moved_def)

lemma report_span [simp]: "spanFrom start (report c m s lx) = spanFrom start lx"
  by (simp add: spanFrom_def)

lemma digit_nonzero: "isDigit c \<Longrightarrow> c \<noteq> CHR 0x00"
  by (auto simp: isDigit_def)

lemma identifier_nonzero: "isIdentifierPart c \<Longrightarrow> c \<noteq> CHR 0x00"
  by (auto simp: isIdentifierPart_def isIdentifierStart_def isDigit_def)

lemma lexNumber_lexes: "isDigit (current lx) \<Longrightarrow> lexes lx (lexNumber lx)"
proof -
  assume d: "isDigit (current lx)"
  let ?lx1 = "scanWhile isDigit lx"
  have p: "lxPosition lx < lxPosition ?lx1" using d scanWhile_progress digit_nonzero by blast
  then have q: "lxPosition lx < lxPosition (scanWhile isDigit (advance 1 ?lx1))"
    using moved_scanWhile [of "advance 1 ?lx1" isDigit] by (simp add: moved_def)
  from p q show ?thesis
    by (auto simp: lexNumber_def Let_def lexes_def lexeme_def scanWhile_source split: option.split prod.split)
qed

lemma keywordKind_not_end: "keywordKind text \<noteq> EndOfFileToken"
  by (simp add: keywordKind_def split: option.split)

lemma lexIdentifier_lexes: "isIdentifierStart (current lx) \<Longrightarrow> lexes lx (lexIdentifierOrKeyword lx)"
  using scanWhile_progress [of lx isIdentifierPart] identifier_nonzero [of "current lx"]
  by (simp add: isIdentifierPart_def lexIdentifierOrKeyword_def Let_def lexes_def lexeme_def scanWhile_source
      keywordKind_not_end)

lemma moved_stringLoop: "moved lx (snd (snd (stringLoop val lx)))"
proof (induction val lx rule: stringLoop.induct)
  case (1 val lx)
  have step: "moved lx (advance 1 lx)" "moved lx (advance 2 lx)" "moved lx (advance 2 (report c m s lx))" for c m s
    by (simp_all add: moved_def)
  note go = step [THEN moved_trans]
  show ?case
  proof (cases "current lx = CHR 0x5C")
    case False
    with 1 show ?thesis
      by (subst stringLoop.simps) (auto simp del: One_nat_def intro: go)
  next
    case True
    show ?thesis
    proof (cases "escapedChar (peek 1 lx)")
      case None
      note go(3) [OF 1(1)]
      with True None show ?thesis by (subst stringLoop.simps) (simp del: One_nat_def)
    next
      case (Some c)
      note go(2) [OF 1(2)]
      with True Some show ?thesis by (subst stringLoop.simps) (simp del: One_nat_def)
    qed
  qed
qed

lemma lexString_lexes: "lexes lx (lexString lx)"
proof -
  obtain terminated val lx1 where s: "stringLoop [] (advance 1 lx) = (terminated, val, lx1)"
    by (rule prod.exhaust) (metis prod.exhaust)
  have "moved (advance 1 lx) lx1" using moved_stringLoop [of "advance 1 lx" "[]"] by (simp only: s snd_conv)
  then show ?thesis by (simp add: lexString_def s Let_def lexes_def moved_def del: One_nat_def)
qed

lemma fixedToken_lexes: "0 < n \<Longrightarrow> k \<noteq> EndOfFileToken \<Longrightarrow> lexes lx (fixedToken n k lx)"
  by (simp add: fixedToken_def Let_def lexes_def spanFrom_def)

lemma badToken_lexes: "lexes lx (badToken lx)"
  by (simp add: badToken_def Let_def lexes_def spanFrom_def)

lemma punctuation_lexes: "lexes lx (punctuation lx)"
  unfolding punctuation_def Let_def
  by (simp add: fixedToken_lexes badToken_lexes)

lemma nextToken_cases:
  obtains (eof) "current (skipTrivia lx) = CHR 0x00"
      "nextToken lx = (token EndOfFileToken \<lparr>spanStart = lxPosition (skipTrivia lx), spanLength = 0\<rparr> '''' TvNone,
         skipTrivia lx)"
    | (tok) "current (skipTrivia lx) \<noteq> CHR 0x00" "lexes (skipTrivia lx) (nextToken lx)"
  by (cases "current (skipTrivia lx) = CHR 0x00")
    (auto simp: nextToken_def Let_def lexNumber_lexes lexIdentifier_lexes lexString_lexes punctuation_lexes)

lemma nextToken_progress:
  assumes "nextToken lx = (tk, lx')" and "tkKind tk \<noteq> EndOfFileToken"
  shows "remains lx' < remains lx"
proof (cases lx rule: nextToken_cases)
  case eof
  with assms show ?thesis by auto
next
  case tok
  have "lxPosition (skipTrivia lx) < length (srcContent (lxSource (skipTrivia lx)))"
    using tok(1) src_at_pos by (simp add: current_def)
  with tok(2) assms(1) have "remains lx' < remains (skipTrivia lx)" by (auto simp: lexes_def remains_def)
  with moved_remains [OF moved_skipTrivia [of lx]] show ?thesis by simp
qed

section \<open>The whole text\<close>

function lexAllFrom :: "Lexer \<Rightarrow> SyntaxToken list \<Rightarrow> SyntaxToken list \<times> Lexer" where
  "lexAllFrom lx result =
     (let (tk, lx') = nextToken lx;
          result' = (if tkKind tk \<noteq> BadToken then result @ [tk] else result)
      in if tkKind tk = EndOfFileToken then (result', lx') else lexAllFrom lx' result')"
  by pat_completeness auto
termination
  by (relation "measure (\<lambda>(lx, result). remains lx)") (auto dest: nextToken_progress [OF sym])

declare lexAllFrom.simps [simp del]

definition lexAll :: "SourceText \<Rightarrow> SyntaxToken list \<times> DiagnosticBag" where
  "lexAll src = (case lexAllFrom (newLexer src []) [] of (tokens, lx) \<Rightarrow> (tokens, lxDiagnostics lx))"

end
