(* ===== verification/Lexer_Properties.thy ===== *)
theory Lexer_Properties
  imports Lexer "HOL-Library.Code_Target_Nat"
begin

text \<open>
  The properties of the lexer. Every function of the lexer is expressed through the text that is
  left (\<open>rest\<close>) and an \<open>advance\<close>; from this follow the shape of the token list and the round trip
  from lexemes through their printed form.
\<close>

section \<open>The rest of the text\<close>

definition rest :: "Lexer \<Rightarrow> string" where
  "rest lx = drop (lxPosition lx) (srcContent (lxSource lx))"

lemma current_rest: "current lx = (case rest lx of [] \<Rightarrow> CHR 0x00 | c # _ \<Rightarrow> c)"
  by (cases "lxPosition lx < length (srcContent (lxSource lx))")
    (simp_all add: current_def src_at_def rest_def Cons_nth_drop_Suc [symmetric])

lemma peek_rest: "peek n lx = (if n < length (rest lx) then rest lx ! n else CHR 0x00)"
  by (auto simp: peek_def src_at_def rest_def)

lemma rest_advance [simp]: "rest (advance n lx) = drop n (rest lx)"
  by (simp add: rest_def add.commute)

lemma rest_report [simp]: "rest (report c m s lx) = rest lx"
  by (simp add: rest_def)

lemma view_rest: "n \<le> length (rest lx) \<Longrightarrow> lexeme (lxPosition lx) (advance n lx) = take n (rest lx)"
  by (auto simp: lexeme_def src_view_def spanFrom_def rest_def)

lemma advance_advance [simp]: "advance m (advance n lx) = advance (n + m) lx"
  by (simp add: advance_def)

lemma advance_0 [simp]: "advance 0 lx = lx"
  by (simp add: advance_def)

lemma scanWhile_advance:
  "scanWhile P lx = advance (length (takeWhile (\<lambda>c. c \<noteq> CHR 0x00 \<and> P c) (rest lx))) lx"
proof (induction P lx rule: scanWhile.induct)
  case (1 P lx)
  show ?case
  proof (cases "current lx \<noteq> CHR 0x00 \<and> P (current lx)")
    case True
    then obtain c cs where r: "rest lx = c # cs" "c \<noteq> CHR 0x00" "P c"
      by (auto simp: current_rest split: list.splits)
    from 1 [OF True] True show ?thesis by (subst scanWhile.simps) (simp add: r)
  next
    case False
    then show ?thesis
      by (subst scanWhile.simps) (auto simp: current_rest split: list.splits)
  qed
qed

lemma takeWhile_stop:
  "\<forall>c \<in> set xs. P c \<Longrightarrow> \<not> P y \<Longrightarrow> takeWhile P (xs @ y # ys) = xs"
  by (simp add: takeWhile_tail)

lemma scanWhile_stop:
  assumes "rest lx = xs @ y # ys" and "\<forall>c \<in> set xs. c \<noteq> CHR 0x00 \<and> P c" and "\<not> P y"
  shows "scanWhile P lx = advance (length xs) lx"
proof -
  have "takeWhile (\<lambda>c. c \<noteq> CHR 0x00 \<and> P c) (xs @ y # ys) = xs"
    by (rule takeWhile_stop) (use assms(2,3) in auto)
  then show ?thesis by (simp add: scanWhile_advance assms(1))
qed

section \<open>Trivia\<close>

lemma skipTrivia_stop:
  assumes "\<not> isBlank (current lx)" and "current lx = CHR ''/'' \<Longrightarrow> peek 1 lx \<notin> {CHR ''/'', CHR ''*''}"
  shows "skipTrivia lx = lx"
  using assms by (subst skipTrivia.simps) auto

lemma skipTrivia_blank: "isBlank (current lx) \<Longrightarrow> skipTrivia lx = skipTrivia (advance 1 lx)"
  by (subst skipTrivia.simps) simp

section \<open>Tokens cover the text\<close>

definition ordered :: "SourceText \<Rightarrow> nat \<Rightarrow> SyntaxToken list \<Rightarrow> bool" where
  "ordered src start ts \<longleftrightarrow>
     (\<forall>t \<in> set ts. start \<le> spanStart (tkSpan t) \<and> tkText t = src_view src (tkSpan t)) \<and>
     sorted_wrt (\<lambda>a b. spanEnd (tkSpan a) \<le> spanStart (tkSpan b)) ts"

definition token_ok :: "SyntaxToken \<Rightarrow> bool" where
  "token_ok t \<longleftrightarrow> tkKind t \<notin> {EndOfFileToken, BadToken} \<and> 0 < spanLength (tkSpan t)"

lemma lexAllFrom_tokens:
  "\<exists>ts e. fst (lexAllFrom lx result) = result @ ts @ [e] \<and> tkKind e = EndOfFileToken \<and> spanLength (tkSpan e) = 0 \<and>
     (\<forall>t \<in> set ts. token_ok t) \<and> ordered (lxSource lx) (lxPosition lx) (ts @ [e])"
proof (induction lx result rule: lexAllFrom.induct)
  case (1 lx result)
  obtain tk lx' where n: "nextToken lx = (tk, lx')" by (rule prod.exhaust)
  have sk: "moved lx (skipTrivia lx)" by (rule moved_skipTrivia)
  show ?case
  proof (cases lx rule: nextToken_cases)
    case eof
    with n sk show ?thesis
      by (subst lexAllFrom.simps)
        (auto simp: ordered_def src_view_def moved_def token_def intro!: exI [of _ "[]"])
  next
    case tok
    then have L: "lxSource lx' = lxSource lx" "lxPosition lx \<le> spanStart (tkSpan tk)"
      "spanEnd (tkSpan tk) = lxPosition lx'" "0 < spanLength (tkSpan tk)"
      "tkText tk = src_view (lxSource lx) (tkSpan tk)" "tkKind tk \<noteq> EndOfFileToken"
      using sk by (auto simp: n lexes_def spanFrom_def spanEnd_def moved_def)
    let ?result = "if tkKind tk \<noteq> BadToken then result @ [tk] else result"
    have rec: "lexAllFrom lx result = lexAllFrom lx' ?result"
      using L(6) by (subst lexAllFrom.simps) (simp add: n)
    obtain ts e where IH: "fst (lexAllFrom lx' ?result) = ?result @ ts @ [e]" "tkKind e = EndOfFileToken"
        "spanLength (tkSpan e) = 0" "\<forall>t \<in> set ts. token_ok t" "ordered (lxSource lx') (lxPosition lx') (ts @ [e])"
      using 1 [OF n [symmetric] refl refl L(6)] by auto
    have ord: "ordered (lxSource lx) (lxPosition lx) (ts @ [e])"
      using IH(5) L(1-3) unfolding ordered_def spanEnd_def by fastforce
    have all: "ordered (lxSource lx) (lxPosition lx) (tk # ts @ [e])"
      using IH(5) ord L unfolding ordered_def by auto
    show ?thesis
    proof (cases "tkKind tk = BadToken")
      case True
      with rec IH ord show ?thesis by auto
    next
      case False
      have "fst (lexAllFrom lx result) = result @ (tk # ts) @ [e]" using rec IH(1) False by simp
      moreover have "\<forall>t \<in> set (tk # ts). token_ok t" using IH(4) False L(4,6) by (simp add: token_ok_def)
      ultimately show ?thesis using all IH(2,3) by (intro exI [of _ "tk # ts"] exI [of _ e]) simp
    qed
  qed
qed

section \<open>Lexemes\<close>

definition punctuators :: "(string \<times> Punctuator) list" where
  "punctuators =
     [(''+'', PlusToken), (''+='', PlusEqualsToken), (''-'', MinusToken), (''-='', MinusEqualsToken),
      (''=>'', ArrowToken), (''*'', StarToken), (''*='', StarEqualsToken), (''/'', SlashToken),
      (''/='', SlashEqualsToken), (''%'', PercentToken), (''%='', PercentEqualsToken),
      (''!'', BangToken), (''&&'', AmpersandAmpersandToken), (''||'', PipePipeToken),
      (''='', EqualsToken), (''=='', EqualsEqualsToken), (''!='', BangEqualsToken),
      (''<'', LessToken), (''<='', LessOrEqualsToken), (''>'', GreaterToken),
      (''>='', GreaterOrEqualsToken), (''('', OpenParenToken), ('')'', CloseParenToken),
      (''{'', OpenBraceToken), (''}'', CloseBraceToken), (''['', OpenBracketToken),
      ('']'', CloseBracketToken), ('','', CommaToken), (''.'', DotToken), ('':'', ColonToken),
      (''?'', QuestionToken), (''??'', QuestionQuestionToken), (''?.'', QuestionDotToken),
      ('';'', SemicolonToken)]"

text \<open>How a string is written as a literal.\<close>

fun quoteBody :: "string \<Rightarrow> string" where
  "quoteBody [] = []"
| "quoteBody (c # cs) =
     (if c = CHR 0x0A then CHR 0x5C # CHR ''n'' # quoteBody cs
      else if c = CHR 0x0D then CHR 0x5C # CHR ''r'' # quoteBody cs
      else if c = CHR 0x09 then CHR 0x5C # CHR ''t'' # quoteBody cs
      else if c = CHR 0x5C then CHR 0x5C # CHR 0x5C # quoteBody cs
      else if c = CHR 0x22 then CHR 0x5C # CHR 0x22 # quoteBody cs
      else c # quoteBody cs)"

datatype Lexeme =
    LxName string
  | LxInteger string
  | LxFloat string string
  | LxString string
  | LxPunct string

fun lexeme_ok :: "Lexeme \<Rightarrow> bool" where
  "lexeme_ok (LxName s) \<longleftrightarrow> s \<noteq> [] \<and> isIdentifierStart (hd s) \<and> (\<forall>c \<in> set s. isIdentifierPart c)"
| "lexeme_ok (LxInteger ds) \<longleftrightarrow> ds \<noteq> [] \<and> (\<forall>c \<in> set ds. isDigit c) \<and> decimalValue ds < 2 ^ 63"
| "lexeme_ok (LxFloat ds fs) \<longleftrightarrow> ds \<noteq> [] \<and> fs \<noteq> [] \<and> (\<forall>c \<in> set (ds @ fs). isDigit c)"
| "lexeme_ok (LxString s) \<longleftrightarrow> CHR 0x00 \<notin> set s"
| "lexeme_ok (LxPunct s) \<longleftrightarrow> map_of punctuators s \<noteq> None"

fun lexeme_text :: "Lexeme \<Rightarrow> string" where
  "lexeme_text (LxName s) = s"
| "lexeme_text (LxInteger ds) = ds"
| "lexeme_text (LxFloat ds fs) = ds @ CHR ''.'' # fs"
| "lexeme_text (LxString s) = CHR 0x22 # quoteBody s @ [CHR 0x22]"
| "lexeme_text (LxPunct s) = s"

fun lexeme_kind :: "Lexeme \<Rightarrow> SyntaxKind" where
  "lexeme_kind (LxName s) = keywordKind s"
| "lexeme_kind (LxInteger ds) = IntegerLiteralToken"
| "lexeme_kind (LxFloat ds fs) = FloatLiteralToken"
| "lexeme_kind (LxString s) = StringLiteralToken"
| "lexeme_kind (LxPunct s) = Punct (the (map_of punctuators s))"

fun lexeme_value :: "Lexeme \<Rightarrow> TokenValue" where
  "lexeme_value (LxName s) = (if s = ''true'' then TvBool True else if s = ''false'' then TvBool False else TvNone)"
| "lexeme_value (LxInteger ds) = TvInt (of_nat (decimalValue ds))"
| "lexeme_value (LxFloat ds fs) =
     TvDouble (f64_make False (bitsOfRatio (decimalValue (ds @ fs) * oneUnits) (10 ^ length fs)))"
| "lexeme_value (LxString s) = TvString s"
| "lexeme_value (LxPunct s) = TvNone"

text \<open>Reading one lexeme that a blank follows.\<close>

definition reads :: "Lexer \<Rightarrow> Lexeme \<Rightarrow> bool" where
  "reads lx l \<longleftrightarrow>
     nextToken lx =
       (token (lexeme_kind l) \<lparr>spanStart = lxPosition lx, spanLength = length (lexeme_text l)\<rparr> (lexeme_text l)
          (lexeme_value l), advance (length (lexeme_text l)) lx)"

lemma spanFrom_advance [simp]: "spanFrom (lxPosition lx) (advance n lx) = \<lparr>spanStart = lxPosition lx, spanLength = n\<rparr>"
  by (simp add: spanFrom_def)

lemma class_facts:
  "isDigit c \<Longrightarrow> \<not> isBlank c \<and> c \<noteq> CHR ''/'' \<and> c \<noteq> CHR 0x00 \<and> c \<noteq> CHR ''.''"
  "isIdentifierStart c \<Longrightarrow> \<not> isBlank c \<and> c \<noteq> CHR ''/'' \<and> c \<noteq> CHR 0x00 \<and> \<not> isDigit c"
  by (auto simp: isDigit_def isIdentifierStart_def isBlank_def)

lemma blank_facts: "\<not> isDigit (CHR '' '')" "\<not> isIdentifierPart (CHR '' '')"
  by (simp_all add: isDigit_def isIdentifierPart_def isIdentifierStart_def)

lemma reads_name:
  assumes "rest lx = s @ CHR '' '' # after" and "lexeme_ok (LxName s)"
  shows "reads lx (LxName s)"
proof -
  have s: "s \<noteq> []" "isIdentifierStart (hd s)" "\<forall>c \<in> set s. isIdentifierPart c" using assms(2) by simp_all
  have c: "current lx = hd s" using s(1) by (cases s) (simp_all add: current_rest assms(1))
  have t: "skipTrivia lx = lx" by (rule skipTrivia_stop) (use c class_facts(2) [OF s(2)] in auto)
  have w: "scanWhile isIdentifierPart lx = advance (length s) lx"
    by (rule scanWhile_stop [OF assms(1)]) (use s(3) identifier_nonzero blank_facts in auto)
  have v: "lexeme (lxPosition lx) (advance (length s) lx) = s"
    by (simp add: view_rest assms(1))
  have k: "(keywordKind s = Keyword TrueKeyword) = (s = ''true'')" "(keywordKind s = Keyword FalseKeyword) = (s = ''false'')"
    by (auto simp: keywordKind_def keywordTable_def)
  show ?thesis
    using class_facts(2) [OF s(2)] s(2)
    by (simp add: reads_def nextToken_def t c lexIdentifierOrKeyword_def w v k Let_def)
qed

lemma decimal_not_dot: "isDigit (CHR ''.'') = False"
  by (simp add: isDigit_def)

lemma reads_integer:
  assumes "rest lx = ds @ CHR '' '' # after" and "lexeme_ok (LxInteger ds)"
  shows "reads lx (LxInteger ds)"
proof -
  have s: "ds \<noteq> []" "\<forall>c \<in> set ds. isDigit c" "decimalValue ds < 2 ^ 63" using assms(2) by simp_all
  have h: "isDigit (hd ds)" using s by simp
  have c: "current lx = hd ds" using s(1) by (cases ds) (simp_all add: current_rest assms(1))
  have t: "skipTrivia lx = lx" by (rule skipTrivia_stop) (use c class_facts(1) [OF h] in auto)
  have w: "scanWhile isDigit lx = advance (length ds) lx"
    by (rule scanWhile_stop [OF assms(1)]) (use s(2) digit_nonzero blank_facts in auto)
  have v: "lexeme (lxPosition lx) (advance (length ds) lx) = ds" by (simp add: view_rest assms(1))
  have b: "current (advance (length ds) lx) = CHR '' ''" by (simp add: current_rest assms(1))
  show ?thesis
    using class_facts(1) [OF h] h s(3)
    by (simp add: reads_def nextToken_def t c lexNumber_def w v b from_chars_def Let_def)
qed

lemma reads_float:
  assumes "rest lx = ds @ CHR ''.'' # fs @ CHR '' '' # after" and "lexeme_ok (LxFloat ds fs)"
  shows "reads lx (LxFloat ds fs)"
proof -
  have s: "ds \<noteq> []" "fs \<noteq> []" "\<forall>c \<in> set ds. isDigit c" "\<forall>c \<in> set fs. isDigit c" using assms(2) by simp_all
  have h: "isDigit (hd ds)" "isDigit (hd fs)" using s by simp_all
  have c: "current lx = hd ds" using s(1) by (cases ds) (simp_all add: current_rest assms(1))
  have t: "skipTrivia lx = lx" by (rule skipTrivia_stop) (use c class_facts(1) [OF h(1)] in auto)
  have w: "scanWhile isDigit lx = advance (length ds) lx"
    by (rule scanWhile_stop [OF assms(1)]) (use s(3) digit_nonzero in \<open>auto simp: isDigit_def\<close>)
  have dot: "current (advance (length ds) lx) = CHR ''.''" by (simp add: current_rest assms(1))
  have d: "peek (Suc 0) (advance (length ds) lx) = hd fs"
    using s(2) by (cases fs) (simp_all add: peek_rest assms(1))
  let ?n = "Suc (length ds + length fs)"
  have "scanWhile isDigit (advance (Suc (length ds)) lx) = advance (length fs) (advance (Suc (length ds)) lx)"
    by (rule scanWhile_stop [where y = "CHR '' ''" and ys = after])
      (use s(4) digit_nonzero blank_facts in \<open>auto simp: assms(1)\<close>)
  then have w2: "scanWhile isDigit (advance (Suc (length ds)) lx) = advance ?n lx" by simp
  have v: "lexeme (lxPosition lx) (advance ?n lx) = ds @ CHR ''.'' # fs" by (simp add: view_rest assms(1))
  have tw: "takeWhile isDigit (ds @ CHR ''.'' # fs) = ds" "takeWhile isDigit fs = fs"
    using s(3,4) by (simp_all add: takeWhile_tail decimal_not_dot)
  have z: "strtod (ds @ CHR ''.'' # fs) =
      (f64_make False (bitsOfRatio (decimalValue (ds @ fs) * oneUnits) (10 ^ length fs)), ?n)"
    using s(1) by (simp add: strtod_def tw Let_def)
  show ?thesis
    using class_facts(1) [OF h(1)] h
    by (simp add: reads_def nextToken_def t c lexNumber_def w w2 v z dot d Let_def)
qed

lemma stringLoop_quote:
  assumes "rest lx = quoteBody s @ CHR 0x22 # after" and "CHR 0x00 \<notin> set s"
  shows "stringLoop val lx = (True, val @ s, advance (Suc (length (quoteBody s))) lx)"
  using assms
proof (induction s arbitrary: lx val)
  case Nil
  then show ?case by (subst stringLoop.simps) (simp add: current_rest)
next
  case (Cons c cs)
  show ?case
  proof (cases "c \<in> {CHR 0x0A, CHR 0x0D, CHR 0x09, CHR 0x5C, CHR 0x22}")
    case True
    then obtain e where e: "quoteBody (c # cs) = CHR 0x5C # e # quoteBody cs" "escapedChar e = Some c"
      by (auto simp: escapedChar_def)
    have "rest (advance 2 lx) = quoteBody cs @ CHR 0x22 # after" using Cons.prems e by simp
    from Cons.IH [OF this, of "val @ [c]"] Cons.prems(2)
    have "stringLoop (val @ [c]) (advance 2 lx) =
        (True, val @ c # cs, advance (Suc (length (quoteBody cs))) (advance 2 lx))" by simp
    then show ?thesis
      using Cons.prems e by (subst stringLoop.simps) (simp add: current_rest peek_rest)
  next
    case False
    then have q: "quoteBody (c # cs) = c # quoteBody cs" by simp
    have "rest (advance 1 lx) = quoteBody cs @ CHR 0x22 # after" using Cons.prems q by simp
    from Cons.IH [OF this, of "val @ [c]"] Cons.prems(2)
    have "stringLoop (val @ [c]) (advance 1 lx) =
        (True, val @ c # cs, advance (Suc (length (quoteBody cs))) (advance 1 lx))" by simp
    then show ?thesis
      using Cons.prems q False by (subst stringLoop.simps) (auto simp: current_rest)
  qed
qed

lemma reads_string:
  assumes "rest lx = (CHR 0x22 # quoteBody s @ [CHR 0x22]) @ CHR '' '' # after" and "lexeme_ok (LxString s)"
  shows "reads lx (LxString s)"
proof -
  have c: "current lx = CHR 0x22" by (simp add: current_rest assms(1))
  have t: "skipTrivia lx = lx" by (rule skipTrivia_stop) (simp_all add: c isBlank_def)
  let ?n = "Suc (Suc (length (quoteBody s)))"
  have "rest (advance 1 lx) = quoteBody s @ CHR 0x22 # CHR '' '' # after" by (simp add: assms(1))
  from stringLoop_quote [OF this, of "[]"] assms(2)
  have l: "stringLoop [] (advance (Suc 0) lx) = (True, s, advance ?n lx)" by simp
  have v: "src_view (lxSource lx) \<lparr>spanStart = lxPosition lx, spanLength = ?n\<rparr> = CHR 0x22 # quoteBody s @ [CHR 0x22]"
    using view_rest [of ?n lx] by (simp add: lexeme_def assms(1))
  show ?thesis
    by (simp add: reads_def nextToken_def t c lexString_def l v Let_def isDigit_def isIdentifierStart_def)
qed

text \<open>The punctuator that two characters start, with its length.\<close>

definition classify :: "char \<Rightarrow> char \<Rightarrow> (nat \<times> Punctuator) option" where
  "classify c d =
     (if c = CHR ''+'' then (if d = CHR ''='' then Some (2, PlusEqualsToken) else Some (1, PlusToken))
      else if c = CHR ''-'' then (if d = CHR ''='' then Some (2, MinusEqualsToken) else Some (1, MinusToken))
      else if c = CHR ''*'' then (if d = CHR ''='' then Some (2, StarEqualsToken) else Some (1, StarToken))
      else if c = CHR ''/'' then (if d = CHR ''='' then Some (2, SlashEqualsToken) else Some (1, SlashToken))
      else if c = CHR ''%'' then
           (if d = CHR ''='' then Some (2, PercentEqualsToken) else Some (1, PercentToken))
      else if c = CHR ''('' then Some (1, OpenParenToken)
      else if c = CHR '')'' then Some (1, CloseParenToken)
      else if c = CHR ''{'' then Some (1, OpenBraceToken)
      else if c = CHR ''}'' then Some (1, CloseBraceToken)
      else if c = CHR ''['' then Some (1, OpenBracketToken)
      else if c = CHR '']'' then Some (1, CloseBracketToken)
      else if c = CHR '','' then Some (1, CommaToken)
      else if c = CHR ''.'' then Some (1, DotToken)
      else if c = CHR '':'' then Some (1, ColonToken)
      else if c = CHR ''?'' then
           (if d = CHR ''?'' then Some (2, QuestionQuestionToken)
            else if d = CHR ''.'' then Some (2, QuestionDotToken) else Some (1, QuestionToken))
      else if c = CHR '';'' then Some (1, SemicolonToken)
      else if c = CHR ''!'' then (if d = CHR ''='' then Some (2, BangEqualsToken) else Some (1, BangToken))
      else if c = CHR ''='' then
           (if d = CHR ''='' then Some (2, EqualsEqualsToken)
            else if d = CHR ''>'' then Some (2, ArrowToken) else Some (1, EqualsToken))
      else if c = CHR ''<'' then (if d = CHR ''='' then Some (2, LessOrEqualsToken) else Some (1, LessToken))
      else if c = CHR ''>'' then
           (if d = CHR ''='' then Some (2, GreaterOrEqualsToken) else Some (1, GreaterToken))
      else if c = CHR ''&'' \<and> d = CHR ''&'' then Some (2, AmpersandAmpersandToken)
      else if c = CHR ''|'' \<and> d = CHR ''|'' then Some (2, PipePipeToken)
      else None)"

lemma punctuation_classify:
  "punctuation lx = (case classify (current lx) (peek 1 lx) of
     None \<Rightarrow> badToken lx | Some (n, p) \<Rightarrow> fixedToken n (Punct p) lx)"
  unfolding punctuation_def classify_def Let_def
  by (simp only: if_distrib [where f = "case_option (badToken lx) (\<lambda>(n, p). fixedToken n (Punct p) lx)"]
      option.case prod.case)

lemma classify_punctuators:
  "list_all (\<lambda>(s, p). s \<noteq> [] \<and> classify (hd s) (hd (tl s @ '' '')) = Some (length s, p) \<and>
     \<not> isBlank (hd s) \<and> hd (tl s @ '' '') \<notin> {CHR ''/'', CHR ''*''} \<and>
     hd s \<noteq> CHR 0x00 \<and> \<not> isDigit (hd s) \<and> \<not> isIdentifierStart (hd s) \<and> hd s \<noteq> CHR 0x22 \<and>
     map_of punctuators s = Some p) punctuators"
  by code_simp

lemma punctuator_facts:
  assumes "(s, p) \<in> set punctuators" and "rest lx = s @ CHR '' '' # after"
  shows "punctuation lx = fixedToken (length s) (Punct p) lx \<and> skipTrivia lx = lx \<and>
    current lx \<noteq> CHR 0x00 \<and> \<not> isDigit (current lx) \<and> \<not> isIdentifierStart (current lx) \<and>
    current lx \<noteq> CHR 0x22 \<and> length s \<le> length (rest lx) \<and> map_of punctuators s = Some p"
proof -
  have P: "s \<noteq> []" "classify (hd s) (hd (tl s @ '' '')) = Some (length s, p)" "\<not> isBlank (hd s)"
      "hd (tl s @ '' '') \<notin> {CHR ''/'', CHR ''*''}" "hd s \<noteq> CHR 0x00" "\<not> isDigit (hd s)"
      "\<not> isIdentifierStart (hd s)" "hd s \<noteq> CHR 0x22" "map_of punctuators s = Some p"
    using classify_punctuators assms(1) by (auto simp: list_all_iff)
  from P(1) obtain c cs where s: "s = c # cs" by (cases s) auto
  have cd: "current lx = hd s" "peek 1 lx = hd (tl s @ '' '')"
    using s by (simp_all add: current_rest peek_rest assms(2) nth_append hd_append hd_conv_nth)
  have "skipTrivia lx = lx" by (rule skipTrivia_stop) (use P(3,4) cd in simp_all)
  moreover have "punctuation lx = fixedToken (length s) (Punct p) lx"
    unfolding punctuation_classify cd P(2) by simp
  ultimately show ?thesis using P(5-9) cd assms(2) by simp
qed

lemma reads_punct:
  assumes "rest lx = s @ CHR '' '' # after" and "lexeme_ok (LxPunct s)"
  shows "reads lx (LxPunct s)"
proof -
  from assms(2) obtain p where "map_of punctuators s = Some p" by auto
  from punctuator_facts [OF map_of_SomeD [OF this] assms(1)] view_rest [of "length s" lx]
  show ?thesis
    by (simp add: reads_def nextToken_def Let_def fixedToken_def lexeme_def assms(1))
qed

lemma reads_lexeme:
  assumes "rest lx = lexeme_text l @ CHR '' '' # after" and "lexeme_ok l"
  shows "reads lx l"
  using assms
  by (cases l) (simp_all only: lexeme_text.simps append_assoc append_Cons reads_name reads_integer reads_float
      reads_string reads_punct)

section \<open>Printing and lexing\<close>

definition print_lexemes :: "Lexeme list \<Rightarrow> string" where
  "print_lexemes ls = concat (map (\<lambda>l. lexeme_text l @ '' '') ls)"

lemma nextToken_blank: "isBlank (current lx) \<Longrightarrow> nextToken lx = nextToken (advance 1 lx)"
  by (simp add: nextToken_def skipTrivia_blank [of lx])

lemma nextToken_end: "rest lx = [] \<Longrightarrow> nextToken lx = (token EndOfFileToken \<lparr>spanStart = lxPosition lx, spanLength = 0\<rparr> '''' TvNone, lx)"
  using skipTrivia_stop [of lx] by (simp add: nextToken_def current_rest isBlank_def)

definition token_of :: "Lexeme \<Rightarrow> SyntaxKind \<times> string \<times> TokenValue" where
  "token_of l = (lexeme_kind l, lexeme_text l, lexeme_value l)"

definition token_view :: "SyntaxToken \<Rightarrow> SyntaxKind \<times> string \<times> TokenValue" where
  "token_view t = (tkKind t, tkText t, tkValue t)"

lemma lexeme_kind_ok: "lexeme_kind l \<notin> {EndOfFileToken, BadToken}"
  by (cases l) (simp_all add: keywordKind_def split: option.split)

lemma lexAllFrom_print:
  assumes "rest lx = print_lexemes ls \<or> rest lx = CHR '' '' # print_lexemes ls"
    and "\<forall>l \<in> set ls. lexeme_ok l"
  shows "\<exists>ts. fst (lexAllFrom lx result) = result @ ts \<and>
      map token_view ts = map token_of ls @ [(EndOfFileToken, '''', TvNone)] \<and>
      lxDiagnostics (snd (lexAllFrom lx result)) = lxDiagnostics lx"
  using assms
proof (induction ls arbitrary: lx result)
  case Nil
  define lx0 where "lx0 = (if rest lx = [] then lx else advance 1 lx)"
  have r: "rest lx0 = []" using Nil by (auto simp: lx0_def print_lexemes_def)
  have "nextToken lx = nextToken lx0"
    using Nil nextToken_blank [of lx] by (auto simp: lx0_def print_lexemes_def current_rest isBlank_def)
  moreover have "lxDiagnostics lx0 = lxDiagnostics lx" by (simp add: lx0_def)
  ultimately show ?case
    using nextToken_end [OF r] by (subst (1 2) lexAllFrom.simps) (simp add: token_view_def)
next
  case (Cons l ls)
  define lx0 where "lx0 = (if rest lx = print_lexemes (l # ls) then lx else advance 1 lx)"
  have r: "rest lx0 = lexeme_text l @ CHR '' '' # print_lexemes ls"
    using Cons.prems(1) by (auto simp: lx0_def print_lexemes_def)
  have d: "lxDiagnostics lx0 = lxDiagnostics lx" by (simp add: lx0_def)
  have "nextToken lx = nextToken lx0"
    using Cons.prems(1) nextToken_blank [of lx] by (auto simp: lx0_def current_rest isBlank_def)
  then have n: "nextToken lx = (token (lexeme_kind l)
      \<lparr>spanStart = lxPosition lx0, spanLength = length (lexeme_text l)\<rparr> (lexeme_text l) (lexeme_value l),
      advance (length (lexeme_text l)) lx0)"
    using reads_lexeme [OF r] Cons.prems(2) by (simp add: reads_def)
  let ?lx' = "advance (length (lexeme_text l)) lx0"
  have "rest ?lx' = CHR '' '' # print_lexemes ls" by (simp add: r)
  then obtain ts where ts: "fst (lexAllFrom ?lx' (result @ [fst (nextToken lx)])) =
        (result @ [fst (nextToken lx)]) @ ts"
      "map token_view ts = map token_of ls @ [(EndOfFileToken, '''', TvNone)]"
      "lxDiagnostics (snd (lexAllFrom ?lx' (result @ [fst (nextToken lx)]))) = lxDiagnostics ?lx'"
    using Cons.IH [of ?lx' "result @ [fst (nextToken lx)]"] Cons.prems(2) by auto
  have "lexAllFrom lx result = lexAllFrom ?lx' (result @ [fst (nextToken lx)])"
    using lexeme_kind_ok [of l] by (subst lexAllFrom.simps) (simp add: n Let_def)
  moreover have "token_view (fst (nextToken lx)) = token_of l" by (simp add: n token_view_def token_of_def)
  ultimately show ?case
    using ts d by (intro exI [of _ "fst (nextToken lx) # ts"]) simp
qed

section \<open>Properties\<close>

text \<open>
  C28: the lexer ends on every text and its tokens tile it: they come in the order of the text
  without overlap, each is as long as what it names and carries exactly the characters of its span,
  none but the last is the end of the file or a bad token, and the last is always the end.
\<close>

theorem lexAll_tiles:
  "\<exists>ts e. fst (lexAll src) = ts @ [e] \<and> tkKind e = EndOfFileToken \<and> spanLength (tkSpan e) = 0 \<and>
     (\<forall>t \<in> set ts. tkKind t \<notin> {EndOfFileToken, BadToken} \<and> 0 < spanLength (tkSpan t) \<and>
        tkText t = src_view src (tkSpan t)) \<and>
     sorted_wrt (\<lambda>a b. spanEnd (tkSpan a) \<le> spanStart (tkSpan b)) (ts @ [e])"
proof -
  obtain ts e where "fst (lexAllFrom (newLexer src []) []) = ts @ [e]" "tkKind e = EndOfFileToken"
      "spanLength (tkSpan e) = 0" "\<forall>t \<in> set ts. token_ok t" "ordered src 0 (ts @ [e])"
    using lexAllFrom_tokens [of "newLexer src []" "[]"] by (auto simp: newLexer_def)
  then show ?thesis
    by (intro exI [of _ ts] exI [of _ e]) (auto simp: lexAll_def token_ok_def ordered_def split: prod.split)
qed

theorem lexAll_tiles_witness:
  "map tkText (fst (lexAll (newSourceText ''if x1'' ''m''))) = [''if'', ''x1'', ''''] \<and>
   list_all (\<lambda>t. tkText t = src_view (newSourceText ''if x1'' ''m'') (tkSpan t))
     (butlast (fst (lexAll (newSourceText ''if x1'' ''m''))))"
proof
  show "map tkText (fst (lexAll (newSourceText ''if x1'' ''m''))) = [''if'', ''x1'', '''']"
    by code_simp
  show "list_all (\<lambda>t. tkText t = src_view (newSourceText ''if x1'' ''m'') (tkSpan t))
     (butlast (fst (lexAll (newSourceText ''if x1'' ''m''))))"
    using lexAll_tiles [of "newSourceText ''if x1'' ''m''"] by (auto simp: list_all_iff)
qed

text \<open>
  C27: printing lexemes and lexing them again is the identity: names and keywords, integers and
  decimal numbers, string literals with their escapes and every punctuator, written one after the
  other with blanks between, give back exactly their kinds, texts and values, without a diagnostic.
\<close>

theorem lex_print_roundtrip:
  assumes "\<forall>l \<in> set ls. lexeme_ok l"
  shows "map token_view (fst (lexAll (newSourceText (print_lexemes ls) name))) =
      map token_of ls @ [(EndOfFileToken, '''', TvNone)] \<and>
    snd (lexAll (newSourceText (print_lexemes ls) name)) = []"
proof -
  let ?lx = "newLexer (newSourceText (print_lexemes ls) name) []"
  have "rest ?lx = print_lexemes ls" by (simp add: rest_def newLexer_def newSourceText_def)
  with lexAllFrom_print [of ?lx ls "[]"] assms show ?thesis
    by (auto simp: lexAll_def newLexer_def split: prod.split)
qed

theorem lex_print_roundtrip_witness:
  "map token_view (fst (lexAll (newSourceText
       (print_lexemes [LxName ''if'', LxPunct ''>='', LxInteger ''12'', LxString [CHR 0x0A, CHR 0x22]]) ''m''))) =
     [(Keyword IfKeyword, ''if'', TvNone), (Punct GreaterOrEqualsToken, ''>='', TvNone),
      (IntegerLiteralToken, ''12'', TvInt 12),
      (StringLiteralToken, [CHR 0x22, CHR 0x5C, CHR ''n'', CHR 0x5C, CHR 0x22, CHR 0x22],
       TvString [CHR 0x0A, CHR 0x22]), (EndOfFileToken, '''', TvNone)]"
proof -
  let ?ls = "[LxName ''if'', LxPunct ''>='', LxInteger ''12'', LxString [CHR 0x0A, CHR 0x22]]"
  have "\<forall>l \<in> set ?ls. lexeme_ok l" by code_simp
  from lex_print_roundtrip [OF this, of "''m''"]
  have "map token_view (fst (lexAll (newSourceText (print_lexemes ?ls) ''m''))) =
      map token_of ?ls @ [(EndOfFileToken, '''', TvNone)]" by blast
  also have "map token_of ?ls @ [(EndOfFileToken, '''', TvNone)] =
     [(Keyword IfKeyword, ''if'', TvNone), (Punct GreaterOrEqualsToken, ''>='', TvNone),
      (IntegerLiteralToken, ''12'', TvInt 12),
      (StringLiteralToken, [CHR 0x22, CHR 0x5C, CHR ''n'', CHR 0x5C, CHR 0x22, CHR 0x22],
       TvString [CHR 0x0A, CHR 0x22]), (EndOfFileToken, '''', TvNone)]" by code_simp
  finally show ?thesis .
qed

section \<open>Past the end\<close>

text \<open>
  An escape always takes two characters, also when the backslash is the last one of the text: the
  span of the string literal and the position of the end then lie past the end of the text. A
  null character ends the text without a diagnostic.
\<close>

theorem backslash_at_end_spans_past_end:
  "map (\<lambda>t. (tkKind t, tkSpan t)) (fst (lexAll (newSourceText [CHR 0x22, CHR 0x5C] name))) =
     [(StringLiteralToken, \<lparr>spanStart = 0, spanLength = 3\<rparr>),
      (EndOfFileToken, \<lparr>spanStart = 3, spanLength = 0\<rparr>)]"
  by code_simp

theorem null_character_hides_text:
  "lexAll (newSourceText [CHR 0x00, CHR ''x''] name) =
     ([\<lparr>tkKind = EndOfFileToken, tkSpan = \<lparr>spanStart = 0, spanLength = 0\<rparr>, tkText = '''', tkValue = TvNone,
        tkMissing = False\<rparr>], [])"
  by code_simp

end
