(* ===== verification/Fiber_Scheduler.thy ===== *)
theory Fiber_Scheduler
  imports Pcg32 "HOL-Library.Signed_Division"
begin

text \<open>
  The scheduler of fibers (\<open>include/realscript/runtime/FiberScheduler.h\<close> and the scheduler's part
  of \<open>src/runtime/FiberScheduler.cpp\<close>): small register programs that sleep on a timing wheel, wait
  for a blackboard value, fork and are killed with their descendants. The host is a parameter, two
  callbacks over its own state. Signed overflow, which C++ leaves undefined, is the outcome
  \<open>Undefined\<close>; the loop over the ready queue, which programs can keep filling, is a partial
  function. The free list is a stack whose head is the back of the vector.
\<close>

section \<open>Handles and random numbers of a fiber\<close>

record GenerationalEntityHandle =
  gehSlot :: u32
  gehGeneration :: u32

definition gehInvalidSlot :: u32 where
  "gehInvalidSlot = 0xFFFFFFFF"

definition noEntityHandle :: GenerationalEntityHandle where
  "noEntityHandle = \<lparr>gehSlot = gehInvalidSlot, gehGeneration = 0\<rparr>"

definition geh_valid :: "GenerationalEntityHandle \<Rightarrow> bool" where
  "geh_valid e \<longleftrightarrow> gehSlot e \<noteq> gehInvalidSlot \<and> gehGeneration e \<noteq> 0"

definition pack64 :: "GenerationalEntityHandle \<Rightarrow> u64" where
  "pack64 e = push_bit 32 (ucast (gehGeneration e)) OR ucast (gehSlot e)"

definition unpack64 :: "u64 \<Rightarrow> GenerationalEntityHandle" where
  "unpack64 packed =
     \<lparr>gehSlot = ucast (packed AND 0xFFFFFFFF), gehGeneration = ucast (drop_bit 32 packed)\<rparr>"

record DeterministicPRNG =
  prState :: u64
  prInc :: u64

definition defaultPRNG :: DeterministicPRNG where
  "defaultPRNG = \<lparr>prState = 0x853C49E6748FEA9B, prInc = 0xDA3E39CB94B95BDB\<rparr>"

definition nextUInt32 :: "DeterministicPRNG \<Rightarrow> u32 \<times> DeterministicPRNG" where
  "nextUInt32 r =
     (pcgOutput (prState r), r\<lparr>prState := pcgStep (prInc r OR 1) (prState r)\<rparr>)"

definition prng_seed :: "u32 \<Rightarrow> DeterministicPRNG \<Rightarrow> DeterministicPRNG" where
  "prng_seed seedVal r =
     (let r1 = snd (nextUInt32 (r\<lparr>prState := 0, prInc := push_bit 1 (ucast seedVal) OR 1\<rparr>));
          r2 = r1\<lparr>prState := prState r1 + 0x853C49E6748FEA9B\<rparr>
      in snd (nextUInt32 r2))"

definition nextByte255 :: "DeterministicPRNG \<Rightarrow> u8 \<times> DeterministicPRNG" where
  "nextByte255 r = (let (v, r') = nextUInt32 r in (ucast (v AND 0xFF), r'))"

definition nextRange :: "u16 \<Rightarrow> u16 \<Rightarrow> DeterministicPRNG \<Rightarrow> u16 \<times> DeterministicPRNG" where
  "nextRange minVal maxVal r =
     (if maxVal \<le> minVal then (minVal, r)
      else let span = ucast (maxVal - minVal) + 1 :: u32;
               (v, r') = nextUInt32 r
           in (ucast (ucast minVal + v mod span), r'))"

section \<open>Instructions\<close>

datatype FiberOpcode =
    Nop | LoadInt | LoadFixed24_8 | MoveReg | Add | Sub | Mul | Div | Mod
  | CmpEq | CmpNe | CmpLt | CmpLe | CmpGt | CmpGe | Jump | JumpIfZero | JumpIfNonZero
  | Call | Return | RandJump | HostCondJump | YieldTicks | YieldUntilPredicate | ForkFiber
  | KillFiber | SetUnbreakable | HostCommand

text \<open>The union of \<open>imm32\<close> with the pair \<open>srcA\<close>, \<open>srcB\<close> is its 32 bits, in little-endian order.\<close>

record CompactInstruction =
  ciOpcode :: FiberOpcode
  ciFlags :: u8
  ciRegOrSlot :: u16
  ciImm32 :: u32

definition srcA :: "CompactInstruction \<Rightarrow> u16" where
  "srcA ins = ucast (ciImm32 ins)"

definition srcB :: "CompactInstruction \<Rightarrow> u16" where
  "srcB ins = ucast (drop_bit 16 (ciImm32 ins))"

definition immInstruction :: "FiberOpcode \<Rightarrow> u8 \<Rightarrow> u16 \<Rightarrow> u32 \<Rightarrow> CompactInstruction" where
  "immInstruction op flg r0 imm =
     \<lparr>ciOpcode = op, ciFlags = flg, ciRegOrSlot = r0, ciImm32 = imm\<rparr>"

definition regsInstruction :: "FiberOpcode \<Rightarrow> u8 \<Rightarrow> u16 \<Rightarrow> u16 \<Rightarrow> u16 \<Rightarrow> CompactInstruction" where
  "regsInstruction op flg dst a b =
     \<lparr>ciOpcode = op, ciFlags = flg, ciRegOrSlot = dst,
      ciImm32 = ucast a OR push_bit 16 (ucast b)\<rparr>"

section \<open>Fibers and the scheduler\<close>

datatype FiberStatus = Inactive | Ready | SleepingTicks | WaitingPredicate | Terminated

record FiberContext =
  fcFiberId :: u32
  fcParentFiberId :: u32
  fcProgramId :: u32
  fcBoundEntity :: GenerationalEntityHandle
  fcOwnerGroupId :: u8
  fcStatus :: FiberStatus
  fcUnbreakable :: bool
  fcCallDepth :: u8
  fcPc :: u32
  fcWakeTick :: u32
  fcWaitChannel :: u8
  fcWaitKey :: u16
  fcWaitValue :: u32
  fcCallStack :: "u32 list"
  fcRegs :: "u32 list"
  fcPrng :: DeterministicPRNG

definition newFiber :: FiberContext where
  "newFiber =
     \<lparr>fcFiberId = 0, fcParentFiberId = 0, fcProgramId = 0, fcBoundEntity = noEntityHandle,
      fcOwnerGroupId = 0, fcStatus = Inactive, fcUnbreakable = False, fcCallDepth = 0,
      fcPc = 0, fcWakeTick = 0, fcWaitChannel = 0, fcWaitKey = 0, fcWaitValue = 0,
      fcCallStack = replicate 8 0, fcRegs = replicate 8 0, fcPrng = defaultPRNG\<rparr>"

definition fiber_live :: "FiberContext \<Rightarrow> bool" where
  "fiber_live f \<longleftrightarrow> fcStatus f \<noteq> Terminated \<and> fcStatus f \<noteq> Inactive"

record 'h FiberHost =
  onHostCommand :: "FiberContext \<Rightarrow> u8 \<Rightarrow> u16 \<Rightarrow> u32 \<Rightarrow> 'h \<Rightarrow> FiberContext \<times> 'h"
  onEvaluateCondition :: "FiberContext \<Rightarrow> u8 \<Rightarrow> u16 \<Rightarrow> u16 \<Rightarrow> 'h \<Rightarrow> bool"

record FiberScheduler =
  fsTick :: u32
  fsPrograms :: "CompactInstruction list list"
  fsStreams :: "u64 option list"
  fsFibers :: "FiberContext list"
  fsFree :: "u32 list"
  fsReady :: "u32 list"
  fsWheel :: "u32 list list"
  fsWaiting :: "u32 list"

definition WHEEL_SLOTS :: nat where
  "WHEEL_SLOTS = 4096"

definition newScheduler :: FiberScheduler where
  "newScheduler =
     \<lparr>fsTick = 0, fsPrograms = [[]], fsStreams = [None], fsFibers = [newFiber], fsFree = [],
      fsReady = [], fsWheel = replicate WHEEL_SLOTS [], fsWaiting = []\<rparr>"

definition fiberAt :: "FiberScheduler \<Rightarrow> u32 \<Rightarrow> FiberContext" where
  "fiberAt s i = fsFibers s ! unat i"

definition fiberKnown :: "FiberScheduler \<Rightarrow> u32 \<Rightarrow> bool" where
  "fiberKnown s i \<longleftrightarrow> i \<noteq> 0 \<and> unat i < length (fsFibers s)"

definition setFiber :: "u32 \<Rightarrow> FiberContext \<Rightarrow> FiberScheduler \<Rightarrow> FiberScheduler" where
  "setFiber i f s = s\<lparr>fsFibers := (fsFibers s)[unat i := f]\<rparr>"

definition getFiber :: "u32 \<Rightarrow> FiberScheduler \<Rightarrow> FiberContext option" where
  "getFiber i s = (if fiberKnown s i then Some (fiberAt s i) else None)"

definition activeFiberCount :: "FiberScheduler \<Rightarrow> nat" where
  "activeFiberCount s = length (filter fiber_live (drop 1 (fsFibers s)))"

section \<open>Programs and new fibers\<close>

definition registerProgram ::
    "CompactInstruction list \<Rightarrow> FiberScheduler \<Rightarrow> u32 \<times> FiberScheduler" where
  "registerProgram codeStream s =
     (of_nat (length (fsPrograms s)),
      s\<lparr>fsPrograms := fsPrograms s @ [codeStream], fsStreams := fsStreams s @ [None]\<rparr>)"

definition spawnFiberByProgram ::
    "u32 \<Rightarrow> u32 \<Rightarrow> GenerationalEntityHandle \<Rightarrow> u8 \<Rightarrow> u32 \<Rightarrow> u32 \<Rightarrow> FiberScheduler \<Rightarrow>
      u32 \<times> FiberScheduler" where
  "spawnFiberByProgram programId entryPc entity ownerGroupId parentFiberId seed s =
     (let (ident, s1) =
            (case fsFree s of
               i # rest \<Rightarrow> (i, s\<lparr>fsFree := rest\<rparr>)
             | [] \<Rightarrow> (of_nat (length (fsFibers s)), s\<lparr>fsFibers := fsFibers s @ [newFiber]\<rparr>));
          ctx = newFiber\<lparr>fcFiberId := ident, fcParentFiberId := parentFiberId,
            fcProgramId := programId, fcBoundEntity := entity, fcOwnerGroupId := ownerGroupId,
            fcStatus := Ready, fcPc := entryPc, fcWakeTick := fsTick s,
            fcPrng := prng_seed (seed XOR (ident * 0x9E3779B9)) defaultPRNG\<rparr>;
          s2 = setFiber ident ctx s1
      in (ident, s2\<lparr>fsReady := fsReady s2 @ [ident]\<rparr>))"

text \<open>
  \<open>spawnFiber\<close> recognises a stream it has seen by the address of the vector; the address is an
  argument beside the contents. The search starts behind the sentinel.
\<close>

fun findStream :: "u64 \<Rightarrow> nat \<Rightarrow> u64 option list \<Rightarrow> nat" where
  "findStream addr i [] = 0"
| "findStream addr i (c # cs) = (if c = Some addr then i else findStream addr (i + 1) cs)"

definition spawnFiber ::
    "u64 \<Rightarrow> CompactInstruction list \<Rightarrow> u32 \<Rightarrow> GenerationalEntityHandle \<Rightarrow> u8 \<Rightarrow> u32 \<Rightarrow> u32 \<Rightarrow>
      FiberScheduler \<Rightarrow> u32 \<times> FiberScheduler" where
  "spawnFiber addr codeStream entryPc entity ownerGroupId parentFiberId seed s =
     (let programId = of_nat (findStream addr 1 (drop 1 (fsStreams s))) :: u32
      in if programId = 0
         then let s1 = s\<lparr>fsPrograms := fsPrograms s @ [codeStream],
                        fsStreams := fsStreams s @ [Some addr]\<rparr>
              in spawnFiberByProgram (of_nat (length (fsPrograms s))) entryPc entity ownerGroupId
                   parentFiberId seed s1
         else spawnFiberByProgram programId entryPc entity ownerGroupId parentFiberId seed s)"

text \<open>A compiled module; the unordered map of its entry points is a finite map.\<close>

record CompiledFiberModule =
  cfmName :: string
  cfmInstructions :: "CompactInstruction list"
  cfmEntryPoints :: "string \<rightharpoonup> u32"

definition hasFunction :: "CompiledFiberModule \<Rightarrow> string \<Rightarrow> bool" where
  "hasFunction m name \<longleftrightarrow> cfmEntryPoints m name \<noteq> None"

definition entryPc :: "CompiledFiberModule \<Rightarrow> string \<Rightarrow> u32" where
  "entryPc m name = (case cfmEntryPoints m name of Some pc \<Rightarrow> pc | None \<Rightarrow> 0)"

definition registerModule :: "CompiledFiberModule \<Rightarrow> FiberScheduler \<Rightarrow> u32 \<times> FiberScheduler" where
  "registerModule m s = registerProgram (cfmInstructions m) s"

definition spawnFunction ::
    "u64 \<Rightarrow> CompiledFiberModule \<Rightarrow> string \<Rightarrow> GenerationalEntityHandle \<Rightarrow> u8 \<Rightarrow> u32 \<Rightarrow> u32 \<Rightarrow>
      FiberScheduler \<Rightarrow> u32 \<times> FiberScheduler" where
  "spawnFunction addr m functionName entity ownerGroupId parentFiberId seed s =
     spawnFiber addr (cfmInstructions m) (entryPc m functionName) entity ownerGroupId parentFiberId
       seed s"

section \<open>Interrupting and killing\<close>

definition interruptFiber :: "u32 \<Rightarrow> u32 \<Rightarrow> bool \<Rightarrow> FiberScheduler \<Rightarrow> bool \<times> FiberScheduler" where
  "interruptFiber fiberId newEntryPc force s =
     (if \<not> fiberKnown s fiberId then (False, s)
      else let f = fiberAt s fiberId
           in if \<not> fiber_live f then (False, s)
              else if fcUnbreakable f \<and> \<not> force then (False, s)
              else let f1 = f\<lparr>fcPc := newEntryPc, fcCallDepth := 0, fcWaitChannel := 0\<rparr>
                   in if fcStatus f \<noteq> Ready
                      then (True, (setFiber fiberId (f1\<lparr>fcStatus := Ready\<rparr>) s)
                              \<lparr>fsReady := fsReady s @ [fiberId]\<rparr>)
                      else (True, setFiber fiberId f1 s))"

text \<open>\<open>terminateFiber\<close> is what \<open>killFiberTree\<close> does to the fiber itself, before its children.\<close>

definition terminateFiber :: "u32 \<Rightarrow> FiberScheduler \<Rightarrow> FiberScheduler" where
  "terminateFiber i s =
     (setFiber i ((fiberAt s i)\<lparr>fcStatus := Terminated, fcUnbreakable := False\<rparr>) s)
       \<lparr>fsFree := i # fsFree s\<rparr>"

definition liveCount :: "FiberScheduler \<Rightarrow> nat" where
  "liveCount s = length (filter fiber_live (fsFibers s))"

definition isLiveChild :: "u32 \<Rightarrow> nat \<Rightarrow> FiberScheduler \<Rightarrow> bool" where
  "isLiveChild root i s \<longleftrightarrow>
     fcParentFiberId (fsFibers s ! i) = root \<and> fiber_live (fsFibers s ! i)"

lemma fsFibers_terminate:
  "fsFibers (terminateFiber i s) =
     (fsFibers s)[unat i := (fsFibers s ! unat i)\<lparr>fcStatus := Terminated, fcUnbreakable := False\<rparr>]"
  by (simp add: terminateFiber_def setFiber_def fiberAt_def)

lemma liveCount_terminate:
  assumes "unat i < length (fsFibers s)" and "fiber_live (fiberAt s i)"
  shows "liveCount (terminateFiber i s) < liveCount s"
proof -
  let ?f = "(fsFibers s ! unat i)\<lparr>fcStatus := Terminated, fcUnbreakable := False\<rparr>"
  have dead: "\<not> fiber_live ?f" by (simp add: fiber_live_def)
  have live: "fiber_live (fsFibers s ! unat i)" using assms(2) by (simp add: fiberAt_def)
  have "length (filter fiber_live ((fsFibers s)[unat i := ?f])) < length (filter fiber_live (fsFibers s))"
    by (subst (1) upd_conv_take_nth_drop [OF assms(1)], subst (3) id_take_nth_drop [OF assms(1)])
      (simp add: dead live)
  then show ?thesis by (simp add: liveCount_def fsFibers_terminate)
qed

function killFiberTree :: "u32 \<Rightarrow> FiberScheduler \<Rightarrow> FiberScheduler"
and killChildren :: "u32 \<Rightarrow> nat list \<Rightarrow> FiberScheduler \<Rightarrow> FiberScheduler" where
  "killFiberTree root s =
     (if \<not> fiberKnown s root then s
      else if \<not> fiber_live (fiberAt s root) then s
      else killChildren root [1..<length (fsFibers s)] (terminateFiber root s))"
| "killChildren root [] s = s"
| "killChildren root (i # is) s =
     killChildren root is (if isLiveChild root i s then killFiberTree (of_nat i) s else s)"
  by pat_completeness auto

lemma kill_liveCount:
  "killFiberTree_killChildren_dom (Inl (root, s)) \<Longrightarrow> liveCount (killFiberTree root s) \<le> liveCount s"
  "killFiberTree_killChildren_dom (Inr (root, is, s)) \<Longrightarrow> liveCount (killChildren root is s) \<le> liveCount s"
proof (induction root s and root "is" s rule: killFiberTree_killChildren.pinduct)
  case (1 root s)
  show ?case
  proof (cases "fiberKnown s root \<and> fiber_live (fiberAt s root)")
    case True
    then have "liveCount (terminateFiber root s) < liveCount s"
      using liveCount_terminate [of root s] by (simp add: fiberKnown_def)
    with 1 True show ?thesis by (simp add: killFiberTree.psimps)
  next
    case False
    with 1 show ?thesis by (auto simp: killFiberTree.psimps)
  qed
next
  case (2 root s)
  then show ?case by (simp add: killChildren.psimps)
next
  case (3 root i "is" s)
  then show ?case by (fastforce simp: killChildren.psimps)
qed

termination killFiberTree
proof (relation "measures [\<lambda>x. liveCount (case x of Inl (r, s) \<Rightarrow> s | Inr (r, is, s) \<Rightarrow> s),
    \<lambda>x. case x of Inl _ \<Rightarrow> 0 | Inr (r, is, s) \<Rightarrow> length is + 1]", goal_cases)
  case 1
  show ?case by simp
next
  case (2 root s)
  then show ?case using liveCount_terminate [of root s] by (simp add: fiberKnown_def)
next
  case (3 root i "is" s)
  then show ?case by simp
next
  case (4 root i "is" s)
  then show ?case using kill_liveCount(1) [of "of_nat i" s] by (auto simp: le_eq_less_or_eq)
qed

declare killFiberTree.simps [simp del]

section \<open>Instructions of a fiber\<close>

text \<open>
  A result outside \<open>int32_t\<close>, of which the quotient of the least value by -1 is one, is undefined.
\<close>

datatype 'a behaviour = Defined 'a | Undefined

definition int32 :: "int \<Rightarrow> u32 behaviour" where
  "int32 x = (if - (2 ^ 31) \<le> x \<and> x < 2 ^ 31 then Defined (word_of_int x) else Undefined)"

definition boolean :: "bool \<Rightarrow> u32 behaviour" where
  "boolean b = Defined (if b then 1 else 0)"

definition divide32 :: "u32 \<Rightarrow> u32 \<Rightarrow> u32 behaviour" where
  "divide32 a b = (if b = 0 then Defined 0 else int32 (sint a sdiv sint b))"

definition remainder32 :: "u32 \<Rightarrow> u32 \<Rightarrow> u32 behaviour" where
  "remainder32 a b =
     (if b = 0 then Defined 0
      else case int32 (sint a sdiv sint b) of
        Undefined \<Rightarrow> Undefined
      | Defined _ \<Rightarrow> int32 (sint a - (sint a sdiv sint b) * sint b))"

text \<open>The instructions \<open>MoveReg\<close> and \<open>Add\<close> to \<open>CmpGe\<close>, from the two source registers.\<close>

definition registerResult :: "FiberOpcode \<Rightarrow> u32 \<Rightarrow> u32 \<Rightarrow> u32 behaviour" where
  "registerResult op a b =
     (case op of
        Add \<Rightarrow> int32 (sint a + sint b)
      | Sub \<Rightarrow> int32 (sint a - sint b)
      | Mul \<Rightarrow> int32 (sint a * sint b)
      | Div \<Rightarrow> divide32 a b
      | Mod \<Rightarrow> remainder32 a b
      | CmpEq \<Rightarrow> boolean (a = b)
      | CmpNe \<Rightarrow> boolean (a \<noteq> b)
      | CmpLt \<Rightarrow> boolean (sint a < sint b)
      | CmpLe \<Rightarrow> boolean (sint a \<le> sint b)
      | CmpGt \<Rightarrow> boolean (sint a > sint b)
      | CmpGe \<Rightarrow> boolean (sint a \<ge> sint b)
      | _ \<Rightarrow> Defined a)"

definition reg :: "u16 \<Rightarrow> FiberContext \<Rightarrow> u32" where
  "reg r f = fcRegs f ! unat (r AND 7)"

definition writeRegister :: "CompactInstruction \<Rightarrow> u32 \<Rightarrow> FiberContext \<Rightarrow> FiberContext" where
  "writeRegister ins v f = f\<lparr>fcRegs := (fcRegs f)[unat (ciRegOrSlot ins) := v]\<rparr>"

definition nextPc :: "FiberContext \<Rightarrow> FiberContext" where
  "nextPc f = f\<lparr>fcPc := fcPc f + 1\<rparr>"

definition scheduleAtTick :: "u32 \<Rightarrow> u32 \<Rightarrow> FiberScheduler \<Rightarrow> FiberScheduler" where
  "scheduleAtTick fiberId wakeTick s =
     (let slot = unat wakeTick mod WHEEL_SLOTS
      in (setFiber fiberId
            ((fiberAt s fiberId)\<lparr>fcStatus := SleepingTicks, fcWakeTick := wakeTick\<rparr>) s)
           \<lparr>fsWheel := (fsWheel s)[slot := fsWheel s ! slot @ [fiberId]]\<rparr>)"

text \<open>
  One instruction of the fiber at index \<open>i\<close>. The flag of the result tells whether the slice goes on
  or the function has returned.
\<close>

definition executeInstruction ::
    "'h FiberHost option \<Rightarrow> u32 \<Rightarrow> CompactInstruction \<Rightarrow> u32 \<Rightarrow> FiberScheduler \<Rightarrow> 'h \<Rightarrow>
      (bool \<times> FiberScheduler \<times> 'h) behaviour" where
  "executeInstruction host currentTick ins i s h =
     (let f = fiberAt s i;
          goOn = (\<lambda>f'. Defined (True, setFiber i f' s, h));
          jump = (\<lambda>pc. f\<lparr>fcPc := pc\<rparr>)
      in case ciOpcode ins of
        Nop \<Rightarrow> goOn (nextPc f)
      | LoadInt \<Rightarrow>
          goOn (nextPc (if ciRegOrSlot ins < 8 then writeRegister ins (ciImm32 ins) f else f))
      | LoadFixed24_8 \<Rightarrow>
          goOn (nextPc (if ciRegOrSlot ins < 8 then writeRegister ins (ciImm32 ins) f else f))
      | Jump \<Rightarrow> goOn (jump (ciImm32 ins))
      | JumpIfZero \<Rightarrow>
          goOn (if reg (ciRegOrSlot ins) f = 0 then jump (ciImm32 ins) else nextPc f)
      | JumpIfNonZero \<Rightarrow>
          goOn (if reg (ciRegOrSlot ins) f \<noteq> 0 then jump (ciImm32 ins) else nextPc f)
      | Call \<Rightarrow>
          goOn (if unat (fcCallDepth f) < length (fcCallStack f)
                then f\<lparr>fcCallStack := (fcCallStack f)[unat (fcCallDepth f) := fcPc f + 1],
                       fcCallDepth := fcCallDepth f + 1, fcPc := ciImm32 ins\<rparr>
                else nextPc f)
      | Return \<Rightarrow>
          (if 0 < fcCallDepth f
           then if unat (fcCallDepth f - 1) < length (fcCallStack f)
                then goOn (f\<lparr>fcCallDepth := fcCallDepth f - 1,
                             fcPc := fcCallStack f ! unat (fcCallDepth f - 1)\<rparr>)
                else Undefined
           else Defined (False, killFiberTree (fcFiberId f) s, h))
      | RandJump \<Rightarrow>
          (let (roll, r) = nextByte255 (fcPrng f);
               f1 = f\<lparr>fcPrng := r\<rparr>
           in goOn (if roll < ciFlags ins then f1\<lparr>fcPc := ciImm32 ins\<rparr> else nextPc f1))
      | HostCondJump \<Rightarrow>
          (let cond = (case host of
                 None \<Rightarrow> False
               | Some H \<Rightarrow> onEvaluateCondition H f (ciFlags ins) (srcA ins) (srcB ins) h)
           in goOn (if cond then jump (ucast (ciRegOrSlot ins)) else nextPc f))
      | YieldTicks \<Rightarrow>
          (let (waitTicks, r) =
                 (if 0 < ciFlags ins
                  then map_prod ucast id (nextRange (ciRegOrSlot ins) (ucast (ciImm32 ins)) (fcPrng f))
                  else (ciImm32 ins, fcPrng f));
               s1 = setFiber i (nextPc (f\<lparr>fcPrng := r\<rparr>)) s
           in Defined (False, scheduleAtTick (fcFiberId f)
                (currentTick + (if 0 < waitTicks then waitTicks else 1)) s1, h))
      | YieldUntilPredicate \<Rightarrow>
          (let f1 = (nextPc f)\<lparr>fcStatus := WaitingPredicate, fcWaitChannel := ciFlags ins,
                 fcWaitKey := ciRegOrSlot ins, fcWaitValue := ciImm32 ins\<rparr>
           in Defined (False, (setFiber i f1 s)\<lparr>fsWaiting := fsWaiting s @ [fcFiberId f]\<rparr>, h))
      | ForkFiber \<Rightarrow>
          (let (childSeed, r) = nextUInt32 (fcPrng f);
               s1 = setFiber i (nextPc (f\<lparr>fcPrng := r\<rparr>)) s;
               s2 = scheduleAtTick (fcFiberId f) (currentTick + 1) s1
           in Defined (False, snd (spawnFiberByProgram (fcProgramId f) (ciImm32 ins)
                (fcBoundEntity f) (fcOwnerGroupId f) (fcFiberId f) childSeed s2), h))
      | KillFiber \<Rightarrow> Defined (False, killFiberTree (fcFiberId f) s, h)
      | SetUnbreakable \<Rightarrow> goOn (nextPc (f\<lparr>fcUnbreakable := (ciFlags ins \<noteq> 0)\<rparr>))
      | HostCommand \<Rightarrow>
          (case host of
             None \<Rightarrow> goOn (nextPc f)
           | Some H \<Rightarrow>
               let (f1, h1) = onHostCommand H f (ciFlags ins) (ciRegOrSlot ins) (ciImm32 ins) h
               in Defined (True, setFiber i (nextPc f1) s, h1))
      | op \<Rightarrow>
          (if ciRegOrSlot ins < 8
           then case registerResult op (reg (srcA ins) f) (reg (srcB ins) f) of
                  Undefined \<Rightarrow> Undefined
                | Defined v \<Rightarrow> goOn (nextPc (writeRegister ins v f))
           else goOn (nextPc f)))"

section \<open>Slices and ticks\<close>

fun sliceLoop ::
    "'h FiberHost option \<Rightarrow> u32 \<Rightarrow> CompactInstruction list \<Rightarrow> u32 \<Rightarrow> nat \<Rightarrow> u64 \<Rightarrow> FiberScheduler \<Rightarrow> 'h \<Rightarrow>
      (bool \<times> u64 \<times> FiberScheduler \<times> 'h) behaviour" where
  "sliceLoop host currentTick code i budget n s h =
     (if length code \<le> unat (fcPc (fiberAt s i)) then Defined (True, n, s, h)
      else case budget of
        0 \<Rightarrow> Defined (True, n, s, h)
      | Suc b \<Rightarrow>
          (case executeInstruction host currentTick (code ! unat (fcPc (fiberAt s i))) i s h of
             Undefined \<Rightarrow> Undefined
           | Defined (goOn, s', h') \<Rightarrow>
               if goOn then sliceLoop host currentTick code i b (n + 1) s' h'
               else Defined (False, n + 1, s', h')))"

declare sliceLoop.simps [simp del]

definition endSlice :: "u32 \<Rightarrow> CompactInstruction list \<Rightarrow> u32 \<Rightarrow> FiberScheduler \<Rightarrow> FiberScheduler" where
  "endSlice currentTick code i s =
     (let f = fiberAt s i
      in if length code \<le> unat (fcPc f) then killFiberTree (fcFiberId f) s
         else if fcStatus f = Ready then scheduleAtTick (fcFiberId f) (currentTick + 1) s
         else s)"

definition executeFiberSlice ::
    "'h FiberHost option \<Rightarrow> u32 \<Rightarrow> u32 \<Rightarrow> u64 \<Rightarrow> FiberScheduler \<Rightarrow> 'h \<Rightarrow>
      (u64 \<times> FiberScheduler \<times> 'h) behaviour" where
  "executeFiberSlice host currentTick i n s h =
     (let f = fiberAt s i
      in if fcProgramId f = 0 \<or> length (fsPrograms s) \<le> unat (fcProgramId f)
         then Defined (n, killFiberTree (fcFiberId f) s, h)
         else let code = fsPrograms s ! unat (fcProgramId f)
              in case sliceLoop host currentTick code i 256 n s h of
                   Undefined \<Rightarrow> Undefined
                 | Defined (leftLoop, n', s', h') \<Rightarrow>
                     Defined (n', if leftLoop then endSlice currentTick code i s' else s', h'))"

text \<open>The first part of \<open>stepTick\<close>: the bucket of the tick is emptied into the ready queue.\<close>

definition wakeFiber ::
    "u32 \<Rightarrow> u32 \<Rightarrow> FiberScheduler \<times> u32 list \<Rightarrow> FiberScheduler \<times> u32 list" where
  "wakeFiber currentTick fid acc =
     (let (s, remaining) = acc
      in if length (fsFibers s) \<le> unat fid then (s, remaining)
         else let f = fiberAt s fid
              in if fcStatus f = SleepingTicks
                 then if fcWakeTick f \<le> currentTick
                      then ((setFiber fid (f\<lparr>fcStatus := Ready\<rparr>) s)\<lparr>fsReady := fsReady s @ [fid]\<rparr>,
                            remaining)
                      else (s, remaining @ [fid])
                 else (s, remaining))"

definition wakeDue :: "u32 \<Rightarrow> FiberScheduler \<Rightarrow> FiberScheduler" where
  "wakeDue currentTick s =
     (let slot = unat currentTick mod WHEEL_SLOTS;
          (s', remaining) = fold (wakeFiber currentTick) (fsWheel s ! slot) (s, [])
      in s'\<lparr>fsWheel := (fsWheel s')[slot := remaining]\<rparr>)"

text \<open>The second part: forks append to the queue while it is drained.\<close>

partial_function (option) drainReady ::
    "'h FiberHost option \<Rightarrow> u32 \<Rightarrow> nat \<Rightarrow> u64 \<Rightarrow> FiberScheduler \<Rightarrow> 'h \<Rightarrow>
      (u64 \<times> FiberScheduler \<times> 'h) behaviour option" where
  "drainReady host currentTick idx n s h =
     (if length (fsReady s) \<le> idx then Some (Defined (n, s, h))
      else let fid = fsReady s ! idx
           in if \<not> fiberKnown s fid then drainReady host currentTick (idx + 1) n s h
              else if fcStatus (fiberAt s fid) \<noteq> Ready then drainReady host currentTick (idx + 1) n s h
              else case executeFiberSlice host currentTick fid n s h of
                     Undefined \<Rightarrow> Some Undefined
                   | Defined r \<Rightarrow>
                       drainReady host currentTick (idx + 1) (fst r) (fst (snd r)) (snd (snd r)))"

definition stepTick ::
    "'h FiberHost option \<Rightarrow> u32 \<Rightarrow> FiberScheduler \<Rightarrow> 'h \<Rightarrow>
      (u64 \<times> FiberScheduler \<times> 'h) behaviour option" where
  "stepTick host currentTick s h =
     (case drainReady host currentTick 0 0 (wakeDue currentTick (s\<lparr>fsTick := currentTick\<rparr>)) h of
        None \<Rightarrow> None
      | Some Undefined \<Rightarrow> Some Undefined
      | Some (Defined (n, s', h')) \<Rightarrow> Some (Defined (n, s'\<lparr>fsReady := []\<rparr>, h')))"

section \<open>Blackboard events\<close>

definition eventMatches :: "u8 \<Rightarrow> u8 \<Rightarrow> u16 \<Rightarrow> u32 \<Rightarrow> FiberContext \<Rightarrow> bool" where
  "eventMatches ownerGroupId predicateChannel targetKey currentValue f \<longleftrightarrow>
     fcOwnerGroupId f = ownerGroupId \<and> fcWaitChannel f = predicateChannel \<and>
     fcWaitKey f = targetKey \<and> fcWaitValue f \<le> currentValue"

definition notifyFiber ::
    "(FiberContext \<Rightarrow> bool) \<Rightarrow> u32 \<Rightarrow> u32 \<times> FiberScheduler \<times> u32 list \<Rightarrow>
      u32 \<times> FiberScheduler \<times> u32 list" where
  "notifyFiber matches fid acc =
     (let (woken, s, stillWaiting) = acc
      in if \<not> fiberKnown s fid then acc
         else let f = fiberAt s fid
              in if fcStatus f \<noteq> WaitingPredicate then acc
                 else if matches f
                 then (woken + 1,
                       (setFiber fid (f\<lparr>fcStatus := Ready, fcWaitChannel := 0\<rparr>) s)
                         \<lparr>fsReady := fsReady s @ [fid]\<rparr>, stillWaiting)
                 else (woken, s, stillWaiting @ [fid]))"

definition notifyBlackboardEvent ::
    "u8 \<Rightarrow> u8 \<Rightarrow> u16 \<Rightarrow> u32 \<Rightarrow> FiberScheduler \<Rightarrow> u32 \<times> FiberScheduler" where
  "notifyBlackboardEvent ownerGroupId predicateChannel targetKey currentValue s =
     (let (woken, s', stillWaiting) =
            fold (notifyFiber (eventMatches ownerGroupId predicateChannel targetKey currentValue))
              (fsWaiting s) (0, s, [])
      in (woken, s'\<lparr>fsWaiting := stillWaiting\<rparr>))"

section \<open>Digest and binary snapshot\<close>

definition mix :: "u64 \<Rightarrow> u64 \<Rightarrow> u64" where
  "mix hash v = (hash XOR v) * 1099511628211"

definition statusByte :: "FiberStatus \<Rightarrow> u64" where
  "statusByte st =
     (case st of Inactive \<Rightarrow> 0 | Ready \<Rightarrow> 1 | SleepingTicks \<Rightarrow> 2 | WaitingPredicate \<Rightarrow> 3 | Terminated \<Rightarrow> 4)"

definition mixFiber :: "u64 \<Rightarrow> FiberContext \<Rightarrow> u64" where
  "mixFiber hash f =
     (if \<not> fiber_live f then hash
      else foldl mix hash
        [ucast (fcFiberId f), ucast (fcProgramId f), statusByte (fcStatus f), ucast (fcPc f),
         ucast (fcWakeTick f), prState (fcPrng f), pack64 (fcBoundEntity f)])"

definition computeLockstepDigest :: "FiberScheduler \<Rightarrow> u64" where
  "computeLockstepDigest s =
     foldl mixFiber (mix 14695981039346656037 (ucast (fsTick s))) (drop 1 (fsFibers s))"

text \<open>
  The buffer of a snapshot holds the tick, the number of contexts and the contexts as the compiler
  lays them out, \<open>contextSize\<close> bytes each. A buffer is given by its size and by what the copies of
  \<open>memcpy\<close> read from it: the tick and the count if the size allows and as many contexts as there are.
\<close>

record FiberBuffer =
  fbSize :: nat
  fbTick :: u32
  fbCount :: u32
  fbContexts :: "FiberContext list"

definition captureBinarySnapshot :: "nat \<Rightarrow> FiberScheduler \<Rightarrow> FiberBuffer" where
  "captureBinarySnapshot contextSize s =
     (let count = of_nat (length (fsFibers s)) :: u32
      in \<lparr>fbSize = 4 * 2 + unat count * contextSize, fbTick = fsTick s, fbCount = count,
          fbContexts = take (unat count) (fsFibers s)\<rparr>)"

definition fileFiber :: "nat \<Rightarrow> FiberScheduler \<Rightarrow> FiberScheduler" where
  "fileFiber i s =
     (let f = fsFibers s ! i; ident = of_nat i :: u32
      in case fcStatus f of
           Ready \<Rightarrow> s\<lparr>fsReady := fsReady s @ [ident]\<rparr>
         | SleepingTicks \<Rightarrow>
             let slot = unat (fcWakeTick f) mod WHEEL_SLOTS
             in s\<lparr>fsWheel := (fsWheel s)[slot := fsWheel s ! slot @ [ident]]\<rparr>
         | WaitingPredicate \<Rightarrow> s\<lparr>fsWaiting := fsWaiting s @ [ident]\<rparr>
         | _ \<Rightarrow> s\<lparr>fsFree := ident # fsFree s\<rparr>)"

definition restoreBinarySnapshot :: "nat \<Rightarrow> FiberBuffer \<Rightarrow> FiberScheduler \<Rightarrow> FiberScheduler" where
  "restoreBinarySnapshot contextSize b s =
     (if fbSize b < 4 * 2 then s
      else let s1 = s\<lparr>fsTick := fbTick b\<rparr>
           in if fbSize b < 4 * 2 + unat (fbCount b) * contextSize then s1
              else fold fileFiber [1..<unat (fbCount b)]
                     (s1\<lparr>fsFibers := take (unat (fbCount b)) (fbContexts b), fsReady := [],
                         fsWaiting := [], fsFree := [], fsWheel := map (\<lambda>_. []) (fsWheel s)\<rparr>))"

end
