(* ===== verification/Fiber_Invariant.thy ===== *)
theory Fiber_Invariant
  imports Fiber_Scheduler
begin

text \<open>
  The invariant of the fiber scheduler: every fiber carries its own index, its call stack is in
  bounds, and it is filed where its status says: in the ready queue, in the bucket of its wake tick,
  in the list of waiting fibers or in the free list. \<open>fs_inv Q\<close> takes the part of the ready queue
  that is still to be drained as an argument.
\<close>

definition fiber_ok :: "u32 \<Rightarrow> FiberContext \<Rightarrow> bool" where
  "fiber_ok i f \<longleftrightarrow>
     fcFiberId f = i \<and> fcCallDepth f \<le> 8 \<and> length (fcCallStack f) = 8 \<and> length (fcRegs f) = 8"

definition bucket :: "FiberScheduler \<Rightarrow> u32 \<Rightarrow> u32 list" where
  "bucket s tick = fsWheel s ! (unat tick mod WHEEL_SLOTS)"

definition filed :: "u32 set \<Rightarrow> FiberScheduler \<Rightarrow> u32 \<Rightarrow> FiberContext \<Rightarrow> bool" where
  "filed Q s i f \<longleftrightarrow>
     (case fcStatus f of
        Inactive \<Rightarrow> False
      | Ready \<Rightarrow> i \<in> Q
      | SleepingTicks \<Rightarrow> i \<in> set (bucket s (fcWakeTick f))
      | WaitingPredicate \<Rightarrow> i \<in> set (fsWaiting s)
      | Terminated \<Rightarrow> i \<in> set (fsFree s))"

definition fs_inv :: "u32 set \<Rightarrow> FiberScheduler \<Rightarrow> bool" where
  "fs_inv Q s \<longleftrightarrow>
     0 < length (fsFibers s) \<and> length (fsFibers s) \<le> 2 ^ 32 \<and>
     length (fsWheel s) = WHEEL_SLOTS \<and> fcStatus (fsFibers s ! 0) = Inactive \<and>
     (\<forall>i. fiberKnown s i \<longrightarrow> fiber_ok i (fiberAt s i) \<and> filed Q s i (fiberAt s i)) \<and>
     distinct (fsFree s) \<and>
     (\<forall>i \<in> set (fsFree s). fiberKnown s i \<and> fcStatus (fiberAt s i) = Terminated)"

section \<open>Updates of one fiber\<close>

lemma setFiber_views [simp]:
  "fsTick (setFiber i f s) = fsTick s" "fsPrograms (setFiber i f s) = fsPrograms s"
  "fsFree (setFiber i f s) = fsFree s" "fsReady (setFiber i f s) = fsReady s"
  "fsWheel (setFiber i f s) = fsWheel s" "fsWaiting (setFiber i f s) = fsWaiting s"
  "fsStreams (setFiber i f s) = fsStreams s"
  "fsFibers (setFiber i f s) = (fsFibers s)[unat i := f]"
  by (simp_all add: setFiber_def)

lemma fiberKnown_cong: "length (fsFibers s') = length (fsFibers s) \<Longrightarrow> fiberKnown s' i = fiberKnown s i"
  by (simp add: fiberKnown_def)

lemma fiberKnown_setFiber [simp]: "fiberKnown (setFiber i f s) j = fiberKnown s j"
  by (simp add: fiberKnown_def)

lemma fiberAt_setFiber:
  "fiberKnown s i \<Longrightarrow> fiberAt (setFiber i f s) j = (if i = j then f else fiberAt s j)"
  by (auto simp: fiberAt_def fiberKnown_def word_unat_eq_iff)

lemma fiberAt_updated:
  assumes "fsFibers s' = (fsFibers s)[unat i := f]" and "fiberKnown s i"
  shows "fiberAt s' j = (if i = j then f else fiberAt s j)"
  using assms by (auto simp: fiberAt_def fiberKnown_def word_unat_eq_iff)

lemma live_not_free:
  assumes "fs_inv Q s" and "fiberKnown s i" and "fiber_live (fiberAt s i)"
  shows "i \<notin> set (fsFree s)"
  using assms by (auto simp: fs_inv_def fiber_live_def)

lemma fs_inv_update:
  assumes inv: "fs_inv Q s" and known: "fiberKnown s i" and live: "fiber_live (fiberAt s i)"
    and fibers: "fsFibers s' = (fsFibers s)[unat i := f]"
    and wheel: "length (fsWheel s') = length (fsWheel s)" "\<And>t. set (bucket s t) \<subseteq> set (bucket s' t)"
    and waiting: "set (fsWaiting s) \<subseteq> set (fsWaiting s')"
    and free: "fsFree s' = (if fcStatus f = Terminated then i # fsFree s else fsFree s)"
    and queue: "Q - {i} \<subseteq> Q'" and ok: "fiber_ok i f" "filed Q' s' i f"
  shows "fs_inv Q' s'"
proof -
  have at: "fiberAt s' j = (if i = j then f else fiberAt s j)" for j
    by (rule fiberAt_updated [OF fibers known])
  have knows: "fiberKnown s' j = fiberKnown s j" for j
    by (rule fiberKnown_cong) (simp add: fibers)
  have new: "i \<notin> set (fsFree s)" by (rule live_not_free [OF inv known live])
  have others: "filed Q' s' j (fiberAt s j)" if "fiberKnown s j" "i \<noteq> j" for j
  proof -
    have "filed Q s j (fiberAt s j)" using inv that by (simp add: fs_inv_def)
    then show ?thesis
      using that queue wheel(2) waiting free
      by (auto simp: filed_def split: FiberStatus.splits if_splits)
  qed
  show ?thesis
    using inv ok others new known free wheel(1) unfolding fs_inv_def
    by (auto simp: knows at fibers nth_list_update fiberKnown_def unat_eq_zero)
qed

section \<open>Scheduling, killing and interrupting\<close>

lemma fs_inv_length:
  "fs_inv Q s \<Longrightarrow> 0 < length (fsFibers s)" "fs_inv Q s \<Longrightarrow> length (fsFibers s) \<le> 2 ^ 32"
  "fs_inv Q s \<Longrightarrow> length (fsWheel s) = WHEEL_SLOTS"
  by (simp_all add: fs_inv_def)

lemma fs_inv_ok: "fs_inv Q s \<Longrightarrow> fiberKnown s i \<Longrightarrow> fiber_ok i (fiberAt s i)"
  by (simp add: fs_inv_def)

lemma filed_mono: "filed Q s i f \<Longrightarrow> Q \<subseteq> Q' \<Longrightarrow> filed Q' s i f"
  by (cases "fcStatus f") (auto simp: filed_def)

lemma fs_inv_mono: "fs_inv Q s \<Longrightarrow> Q \<subseteq> Q' \<Longrightarrow> fs_inv Q' s"
  unfolding fs_inv_def using filed_mono by blast

lemma status_unchanged: "fcStatus f = st \<Longrightarrow> f\<lparr>fcStatus := st\<rparr> = f"
  by (cases f) simp

lemma fs_inv_ready: "fs_inv Q (s\<lparr>fsReady := xs\<rparr>) = fs_inv Q s"
  by (simp add: fs_inv_def fiberKnown_def fiberAt_def filed_def bucket_def cong: FiberStatus.case_cong)

lemma fs_inv_tick: "fs_inv Q (s\<lparr>fsTick := t\<rparr>) = fs_inv Q s"
  by (simp add: fs_inv_def fiberKnown_def fiberAt_def filed_def bucket_def cong: FiberStatus.case_cong)

lemma scheduleAtTick_views [simp]:
  "fsTick (scheduleAtTick i t s) = fsTick s" "fsPrograms (scheduleAtTick i t s) = fsPrograms s"
  "fsFree (scheduleAtTick i t s) = fsFree s" "fsReady (scheduleAtTick i t s) = fsReady s"
  "fsWaiting (scheduleAtTick i t s) = fsWaiting s"
  "length (fsWheel (scheduleAtTick i t s)) = length (fsWheel s)"
  "length (fsFibers (scheduleAtTick i t s)) = length (fsFibers s)"
  "fsFibers (scheduleAtTick i t s) =
     (fsFibers s)[unat i := (fiberAt s i)\<lparr>fcStatus := SleepingTicks, fcWakeTick := t\<rparr>]"
  by (simp_all add: scheduleAtTick_def Let_def)

lemma slot_bound: "unat (t :: u32) mod WHEEL_SLOTS < WHEEL_SLOTS"
  by (simp add: WHEEL_SLOTS_def)

lemma bucket_scheduleAtTick:
  assumes "length (fsWheel s) = WHEEL_SLOTS"
  shows "bucket (scheduleAtTick i t s) u =
    (if unat t mod WHEEL_SLOTS = unat u mod WHEEL_SLOTS then bucket s u @ [i] else bucket s u)"
  using assms slot_bound [of t] by (auto simp: bucket_def scheduleAtTick_def Let_def)

lemma fs_inv_schedule:
  assumes inv: "fs_inv Q s" and known: "fiberKnown s i" and live: "fiber_live (fiberAt s i)"
  shows "fs_inv (Q - {i}) (scheduleAtTick i t s)"
proof (rule fs_inv_update [OF inv known live])
  let ?f = "(fiberAt s i)\<lparr>fcStatus := SleepingTicks, fcWakeTick := t\<rparr>"
  show "fsFibers (scheduleAtTick i t s) = (fsFibers s)[unat i := ?f]" by simp
  show "fiber_ok i ?f" using fs_inv_ok [OF inv known] by (simp add: fiber_ok_def)
  show "filed (Q - {i}) (scheduleAtTick i t s) i ?f"
    by (simp add: filed_def bucket_scheduleAtTick [OF fs_inv_length(3) [OF inv]])
qed (auto simp: bucket_scheduleAtTick [OF fs_inv_length(3) [OF inv]])

lemma terminateFiber_views [simp]:
  "fsTick (terminateFiber i s) = fsTick s" "fsPrograms (terminateFiber i s) = fsPrograms s"
  "fsFree (terminateFiber i s) = i # fsFree s" "fsReady (terminateFiber i s) = fsReady s"
  "fsWheel (terminateFiber i s) = fsWheel s" "fsWaiting (terminateFiber i s) = fsWaiting s"
  "length (fsFibers (terminateFiber i s)) = length (fsFibers s)"
  by (simp_all add: terminateFiber_def)

lemma fs_inv_terminate:
  assumes inv: "fs_inv Q s" and known: "fiberKnown s i" and live: "fiber_live (fiberAt s i)"
  shows "fs_inv (Q - {i}) (terminateFiber i s)"
proof (rule fs_inv_update [OF inv known live])
  let ?f = "(fiberAt s i)\<lparr>fcStatus := Terminated, fcUnbreakable := False\<rparr>"
  show "fsFibers (terminateFiber i s) = (fsFibers s)[unat i := ?f]"
    by (simp add: fsFibers_terminate fiberAt_def)
  show "fiber_ok i ?f" using fs_inv_ok [OF inv known] by (simp add: fiber_ok_def)
  show "filed (Q - {i}) (terminateFiber i s) i ?f" by (simp add: filed_def)
qed (auto simp: bucket_def)

lemma kill_views:
  "fsTick (killFiberTree r s) = fsTick s \<and> fsPrograms (killFiberTree r s) = fsPrograms s \<and>
   fsReady (killFiberTree r s) = fsReady s \<and> fsWheel (killFiberTree r s) = fsWheel s \<and>
   fsWaiting (killFiberTree r s) = fsWaiting s \<and>
   length (fsFibers (killFiberTree r s)) = length (fsFibers s)"
  "fsTick (killChildren r is s) = fsTick s \<and> fsPrograms (killChildren r is s) = fsPrograms s \<and>
   fsReady (killChildren r is s) = fsReady s \<and> fsWheel (killChildren r is s) = fsWheel s \<and>
   fsWaiting (killChildren r is s) = fsWaiting s \<and>
   length (fsFibers (killChildren r is s)) = length (fsFibers s)"
proof (induction r s and r "is" s rule: killFiberTree_killChildren.induct)
  case (1 root s)
  then show ?case by (subst (1 2 3 4 5 6) killFiberTree.simps) simp
qed simp_all

lemmas kill_tree_views [simp] =
  kill_views(1) [THEN conjunct1] kill_views(1) [THEN conjunct2, THEN conjunct1]
  kill_views(1) [THEN conjunct2, THEN conjunct2, THEN conjunct1]
  kill_views(1) [THEN conjunct2, THEN conjunct2, THEN conjunct2, THEN conjunct1]
  kill_views(1) [THEN conjunct2, THEN conjunct2, THEN conjunct2, THEN conjunct2, THEN conjunct1]
  kill_views(1) [THEN conjunct2, THEN conjunct2, THEN conjunct2, THEN conjunct2, THEN conjunct2]

lemma fs_inv_kill_any:
  "fs_inv Q s \<Longrightarrow> fs_inv Q (killFiberTree r s)"
  "fs_inv Q s \<Longrightarrow> fs_inv Q (killChildren r is s)"
proof (induction r s and r "is" s rule: killFiberTree_killChildren.induct)
  case (1 root s)
  have "fs_inv Q (terminateFiber root s)" if "fiberKnown s root" "fiber_live (fiberAt s root)"
    using fs_inv_terminate [OF 1(2) that] by (rule fs_inv_mono) blast
  with 1 show ?case by (subst killFiberTree.simps) auto
qed simp_all

lemma fs_inv_kill_known:
  assumes "fs_inv Q s" and "fiberKnown s i" and "fiber_live (fiberAt s i)"
  shows "fs_inv (Q - {i}) (killFiberTree i s)"
  using fs_inv_kill_any(2) [OF fs_inv_terminate [OF assms]] assms
  by (subst killFiberTree.simps) simp

definition interrupts :: "u32 \<Rightarrow> bool \<Rightarrow> FiberScheduler \<Rightarrow> bool" where
  "interrupts i force s \<longleftrightarrow>
     fiberKnown s i \<and> fiber_live (fiberAt s i) \<and> (fcUnbreakable (fiberAt s i) \<longrightarrow> force)"

lemma interrupt_refused: "\<not> interrupts i force s \<Longrightarrow> snd (interruptFiber i pc force s) = s"
  by (auto simp: interruptFiber_def interrupts_def Let_def)

lemma interrupt_fibers:
  assumes "interrupts i force s"
  shows "fsFibers (snd (interruptFiber i pc force s)) = (fsFibers s)[unat i :=
    (fiberAt s i)\<lparr>fcPc := pc, fcCallDepth := 0, fcWaitChannel := 0, fcStatus := Ready\<rparr>]"
    (is "_ = (fsFibers s)[unat i := ?f]")
proof (cases "fcStatus (fiberAt s i) = Ready")
  case True
  then have same: "?f = (fiberAt s i)\<lparr>fcPc := pc, fcCallDepth := 0, fcWaitChannel := 0\<rparr>"
    by (intro status_unchanged) simp
  from assms True show ?thesis unfolding same by (auto simp: interruptFiber_def interrupts_def Let_def)
qed (use assms in \<open>auto simp: interruptFiber_def interrupts_def Let_def\<close>)

lemma fs_inv_interrupt:
  assumes inv: "fs_inv (set (fsReady s)) s"
  shows "fs_inv (set (fsReady (snd (interruptFiber i pc force s)))) (snd (interruptFiber i pc force s))"
proof (cases "interrupts i force s")
  case True
  let ?s' = "snd (interruptFiber i pc force s)"
  have known: "fiberKnown s i" and live: "fiber_live (fiberAt s i)"
    using True by (simp_all add: interrupts_def)
  have ok: "fiber_ok i (fiberAt s i)" "filed (set (fsReady s)) s i (fiberAt s i)"
    using inv known by (simp_all add: fs_inv_def)
  have ready: "set (fsReady ?s') = insert i (set (fsReady s))"
    using True ok(2) by (auto simp: interruptFiber_def interrupts_def Let_def filed_def)
  show ?thesis
    by (rule fs_inv_update [OF inv known live interrupt_fibers [OF True]])
      (use True ready ok in \<open>auto simp: interruptFiber_def interrupts_def Let_def bucket_def fiber_ok_def
        filed_def\<close>)
next
  case False
  with inv show ?thesis by (simp add: interrupt_refused)
qed

section \<open>New fibers\<close>

lemma fs_inv_register: "fs_inv Q s \<Longrightarrow> fs_inv Q (s\<lparr>fsPrograms := ps, fsStreams := cs\<rparr>)"
  by (simp add: fs_inv_def fiberKnown_def fiberAt_def filed_def bucket_def cong: FiberStatus.case_cong)

definition spawned :: "u32 \<Rightarrow> FiberScheduler \<Rightarrow> FiberScheduler \<Rightarrow> bool" where
  "spawned c s s' \<longleftrightarrow>
     fiberKnown s' c \<and> fcStatus (fiberAt s' c) = Ready \<and> fiber_ok c (fiberAt s' c) \<and>
     (fiberKnown s c \<longrightarrow> \<not> fiber_live (fiberAt s c)) \<and>
     (\<forall>j. j \<noteq> c \<longrightarrow> fiberKnown s' j = fiberKnown s j \<and> (fiberKnown s j \<longrightarrow> fiberAt s' j = fiberAt s j)) \<and>
     fsReady s' = fsReady s @ [c] \<and> fsWheel s' = fsWheel s \<and> fsWaiting s' = fsWaiting s \<and>
     fsTick s' = fsTick s \<and> fsPrograms s' = fsPrograms s \<and>
     length (fsFibers s) \<le> length (fsFibers s')"

lemma spawn_effect:
  assumes inv: "fs_inv Q s" and room: "fsFree s = [] \<Longrightarrow> length (fsFibers s) < 2 ^ 32"
    and spawn: "spawnFiberByProgram p pc e g parent seed s = (c, s')"
  shows "spawned c s s'" and "fs_inv (insert c Q) s'"
proof -
  note parts = inv [unfolded fs_inv_def]
  have ctx: "fiberKnown s' c \<and> fcStatus (fiberAt s' c) = Ready \<and> fiber_ok c (fiberAt s' c) \<and>
      (fiberKnown s c \<longrightarrow> \<not> fiber_live (fiberAt s c)) \<and>
      (\<forall>j. j \<noteq> c \<longrightarrow> fiberKnown s' j = fiberKnown s j \<and> (fiberKnown s j \<longrightarrow> fiberAt s' j = fiberAt s j)) \<and>
      fcStatus (fsFibers s' ! 0) = Inactive \<and> length (fsFibers s') \<le> 2 ^ 32 \<and>
      set (fsFree s') = set (fsFree s) - {c} \<and> distinct (fsFree s') \<and>
      length (fsFibers s) \<le> length (fsFibers s')"
  proof (cases "fsFree s")
    case Nil
    have c: "c = of_nat (length (fsFibers s))" "unat c = length (fsFibers s)"
      using spawn Nil room by (auto simp: spawnFiberByProgram_def Let_def unat_of_nat_u32)
    obtain f where fibers: "fsFibers s' = fsFibers s @ [f]" "fcStatus f = Ready" "fiber_ok c f"
        and free: "fsFree s' = []"
      using spawn Nil c by (auto simp: spawnFiberByProgram_def Let_def fiber_ok_def newFiber_def)
    have "c \<noteq> 0" using c(2) parts by auto
    moreover have "\<not> fiberKnown s c" using c(2) by (simp add: fiberKnown_def)
    moreover have "fiberKnown s' j = fiberKnown s j" if "j \<noteq> c" for j
      using that c(2) fibers(1) by (auto simp: fiberKnown_def less_Suc_eq word_unat_eq_iff)
    moreover have "fiberAt s' j = fiberAt s j" if "fiberKnown s j" for j
      using that fibers(1) by (simp add: fiberAt_def fiberKnown_def nth_append)
    moreover have "fiberAt s' c = f" using fibers(1) c(2) by (simp add: fiberAt_def nth_append)
    moreover have "fiberKnown s' c" using \<open>c \<noteq> 0\<close> c(2) fibers(1) by (simp add: fiberKnown_def)
    ultimately show ?thesis using fibers free Nil parts room [OF Nil] by (simp add: nth_append)
  next
    case (Cons i rest)
    have c: "c = i" "fiberKnown s i" "fcStatus (fiberAt s i) = Terminated"
      using spawn Cons parts by (auto simp: spawnFiberByProgram_def Let_def)
    have fibers: "\<exists>f. fsFibers s' = (fsFibers s)[unat i := f] \<and> fcStatus f = Ready \<and> fiber_ok c f"
      using spawn Cons c by (auto simp: spawnFiberByProgram_def Let_def fiber_ok_def newFiber_def)
    then have at: "\<exists>f. (\<forall>j. fiberAt s' j = (if i = j then f else fiberAt s j)) \<and> fcStatus f = Ready \<and>
        fiber_ok c f"
      using fiberAt_updated [OF _ c(2)] by blast
    have len: "length (fsFibers s') = length (fsFibers s)" using fibers by auto
    have zero: "fsFibers s' ! 0 = fsFibers s ! 0"
      using fibers c(2) by (auto simp: fiberKnown_def nth_list_update unat_eq_zero)
    show ?thesis
      using at c parts Cons spawn len zero
      by (auto simp: fiberKnown_def fiber_live_def spawnFiberByProgram_def Let_def)
  qed
  have views: "fsReady s' = fsReady s @ [c]" "fsWheel s' = fsWheel s" "fsWaiting s' = fsWaiting s"
      "fsTick s' = fsTick s" "fsPrograms s' = fsPrograms s"
    using spawn by (auto simp: spawnFiberByProgram_def Let_def split: list.splits)
  show "spawned c s s'" using ctx views by (simp add: spawned_def)
  have old: "filed (insert c Q) s' j (fiberAt s j)" if "fiberKnown s j" "j \<noteq> c" for j
  proof -
    have "filed Q s j (fiberAt s j)" using parts that by blast
    then show ?thesis
      using that ctx views by (auto simp: filed_def bucket_def split: FiberStatus.splits)
  qed
  show "fs_inv (insert c Q) s'"
    unfolding fs_inv_def
  proof (intro conjI allI ballI impI)
    show "0 < length (fsFibers s')" using ctx parts by linarith
    show "length (fsWheel s') = WHEEL_SLOTS" using views parts by simp
    fix j assume j: "fiberKnown s' j"
    show "fiber_ok j (fiberAt s' j)" using ctx parts j by (cases "j = c") auto
    show "filed (insert c Q) s' j (fiberAt s' j)"
      using ctx old j by (cases "j = c") (auto simp: filed_def)
  next
    fix j assume "j \<in> set (fsFree s')"
    then show "fiberKnown s' j" "fcStatus (fiberAt s' j) = Terminated" using ctx parts by auto
  qed (use ctx in auto)
qed

section \<open>One instruction\<close>

definition callbacks_ok :: "'h FiberHost option \<Rightarrow> bool" where
  "callbacks_ok host \<longleftrightarrow>
     (case host of
        None \<Rightarrow> True
      | Some H \<Rightarrow> \<forall>i f c a b h. fiber_ok i f \<longrightarrow>
          fiber_ok i (fst (onHostCommand H f c a b h)) \<and>
          fcStatus (fst (onHostCommand H f c a b h)) = fcStatus f)"

definition short_wait :: "CompactInstruction \<Rightarrow> bool" where
  "short_wait ins \<longleftrightarrow>
     (ciOpcode ins = YieldTicks \<and> ciFlags ins = 0 \<longrightarrow> unat (ciImm32 ins) < 2 ^ 31)"

definition continues :: "u32 \<Rightarrow> FiberScheduler \<Rightarrow> FiberScheduler \<Rightarrow> bool" where
  "continues i s s' \<longleftrightarrow> (\<exists>f. fiber_ok i f \<and> fcStatus f = Ready \<and> s' = setFiber i f s)"

definition yields :: "bool \<Rightarrow> u32 \<Rightarrow> u32 \<Rightarrow> FiberScheduler \<Rightarrow> FiberScheduler \<Rightarrow> bool" where
  "yields short t i s s' \<longleftrightarrow>
     (\<exists>f w. fiber_ok i f \<and> fcStatus f = Ready \<and> 0 < unat w \<and> (short \<longrightarrow> unat w < 2 ^ 31) \<and>
        s' = scheduleAtTick i (t + w) (setFiber i f s))"

definition awaits :: "u32 \<Rightarrow> FiberScheduler \<Rightarrow> FiberScheduler \<Rightarrow> bool" where
  "awaits i s s' \<longleftrightarrow>
     (\<exists>f. fiber_ok i f \<and> fcStatus f = WaitingPredicate \<and>
        s' = (setFiber i f s)\<lparr>fsWaiting := fsWaiting s @ [i]\<rparr>)"

definition forks :: "u32 \<Rightarrow> u32 \<Rightarrow> FiberScheduler \<Rightarrow> FiberScheduler \<Rightarrow> bool" where
  "forks t i s s' \<longleftrightarrow>
     (\<exists>f p pc e g seed. fiber_ok i f \<and> fcStatus f = Ready \<and>
        s' = snd (spawnFiberByProgram p pc e g i seed (scheduleAtTick i (t + 1) (setFiber i f s))))"

lemma continuesI: "fiber_ok i f \<Longrightarrow> fcStatus f = Ready \<Longrightarrow> continues i s (setFiber i f s)"
  by (auto simp: continues_def)

lemma awaitsI:
  "fiber_ok i f \<Longrightarrow> fcStatus f = WaitingPredicate \<Longrightarrow>
   awaits i s ((setFiber i f s)\<lparr>fsWaiting := fsWaiting s @ [i]\<rparr>)"
  by (auto simp: awaits_def)

lemma forksI:
  "fiber_ok i f \<Longrightarrow> fcStatus f = Ready \<Longrightarrow>
   forks t i s (snd (spawnFiberByProgram p pc e g i seed (scheduleAtTick i (t + 1) (setFiber i f s))))"
  unfolding forks_def by blast

lemma fiber_ok_regs [simp]:
  "fiber_ok i (nextPc f) = fiber_ok i f" "fcStatus (nextPc f) = fcStatus f"
  "fiber_ok i (writeRegister ins v f) = fiber_ok i f" "fcStatus (writeRegister ins v f) = fcStatus f"
  "fiber_ok i (f\<lparr>fcPc := pc\<rparr>) = fiber_ok i f" "fiber_ok i (f\<lparr>fcPrng := r\<rparr>) = fiber_ok i f"
  "fiber_ok i (f\<lparr>fcUnbreakable := b\<rparr>) = fiber_ok i f" "fcFiberId (nextPc f) = fcFiberId f"
  "fiber_ok i (f\<lparr>fcStatus := st\<rparr>) = fiber_ok i f"
  by (simp_all add: fiber_ok_def nextPc_def writeRegister_def)

lemma depth_less: "d < 8 \<Longrightarrow> d + 1 \<le> (8 :: u8)" "d \<le> 8 \<Longrightarrow> 0 < d \<Longrightarrow> unat (d - 1 :: u8) < 8"
  by unat_arith+

lemma fiber_ok_call:
  assumes "fiber_ok i f" and "unat (fcCallDepth f) < length (fcCallStack f)"
  shows "fiber_ok i (f\<lparr>fcCallStack := xs\<rparr>) \<longleftrightarrow> length xs = 8"
    and "fiber_ok i (f\<lparr>fcCallStack := (fcCallStack f)[k := v], fcCallDepth := fcCallDepth f + 1, fcPc := pc\<rparr>)"
  using assms by (auto simp: fiber_ok_def word_less_nat_alt intro!: depth_less)

lemma fiber_ok_return:
  assumes "fiber_ok i f" and "0 < fcCallDepth f"
  shows "fiber_ok i (f\<lparr>fcCallDepth := fcCallDepth f - 1, fcPc := pc\<rparr>)"
    and "unat (fcCallDepth f - 1) < length (fcCallStack f)"
  using assms depth_less(2) [of "fcCallDepth f"]
  by (auto simp: fiber_ok_def word_le_nat_alt)

lemma unat_ucast_u16_u32: "unat (ucast x :: u32) = unat x" for x :: u16
proof -
  have "uint (ucast x :: u32) = uint x" by (simp add: uint_up_ucast is_up)
  then show ?thesis by (simp only: unat_eq_nat_uint)
qed

lemma callbacks_okD:
  assumes "callbacks_ok (Some H)" and "onHostCommand H f c a b h = (f', h')" and "fiber_ok i f"
  shows "fiber_ok i f'" and "fcStatus f' = fcStatus f"
  using assms unfolding callbacks_ok_def option.case by (metis fst_conv)+

lemma execute_effect:
  assumes run: "executeInstruction host t ins i s h = Defined (goOn, s', h')"
    and f: "fiber_ok i (fiberAt s i)" "fcStatus (fiberAt s i) = Ready" and host: "callbacks_ok host"
  shows "if goOn then continues i s s'
    else yields (short_wait ins) t i s s' \<or> awaits i s s' \<or> ciOpcode ins = ForkFiber \<and> forks t i s s' \<or> s' = killFiberTree i s"
proof -
  have ident: "fcFiberId (fiberAt s i) = i" using f by (simp add: fiber_ok_def)
  note run' = run [unfolded executeInstruction_def Let_def]
  show ?thesis
  proof (cases "ciOpcode ins")
    case Call
    with run' f show ?thesis using fiber_ok_call [OF f(1)] by (auto intro!: continuesI split: if_splits)
  next
    case Return
    with run' f ident show ?thesis using fiber_ok_return [OF f(1)] by (auto intro!: continuesI split: if_splits)
  next
    case YieldTicks
    obtain v r where wait: "(if 0 < ciFlags ins
        then map_prod ucast id (nextRange (ciRegOrSlot ins) (ucast (ciImm32 ins)) (fcPrng (fiberAt s i)))
        else (ciImm32 ins, fcPrng (fiberAt s i))) = (v :: u32, r)" by fastforce
    let ?w = "if 0 < v then v else 1" and ?f = "nextPc ((fiberAt s i)\<lparr>fcPrng := r\<rparr>)"
    have "unat v < 2 ^ 31" if "short_wait ins"
    proof (cases "0 < ciFlags ins")
      case True
      with wait obtain x :: u16 where "v = ucast x" by (auto simp: map_prod_def split: prod.splits)
      moreover have "unat x < 2 ^ 16" using unsigned_less [of x] by simp
      ultimately show ?thesis by (simp add: unat_ucast_u16_u32)
    qed (use that wait YieldTicks in \<open>simp add: short_wait_def word_gt_0\<close>)
    moreover have "goOn = False" "s' = scheduleAtTick i (t + ?w) (setFiber i ?f s)"
      using run' wait YieldTicks ident by simp_all
    moreover have "0 < unat ?w" by (simp add: word_less_nat_alt)
    ultimately have "yields (short_wait ins) t i s s'"
      unfolding yields_def using f by (intro exI [of _ ?f] exI [of _ ?w]) auto
    with \<open>goOn = False\<close> show ?thesis by simp
  next
    case YieldUntilPredicate
    with run' f ident have "awaits i s s'"
      by (auto intro!: awaitsI simp: fiber_ok_def nextPc_def)
    with run' YieldUntilPredicate show ?thesis by simp
  next
    case ForkFiber
    with run' f ident have "forks t i s s'" by (auto split: prod.splits intro!: forksI)
    with run' ForkFiber show ?thesis by (simp split: prod.splits)
  next
    case HostCommand
    with run' f host show ?thesis
      by (auto split: option.splits prod.splits intro!: continuesI dest: callbacks_okD)
  qed (use run' f ident in \<open>auto intro!: continuesI split: if_splits behaviour.splits prod.splits\<close>)
qed

section \<open>Slices\<close>

definition departs :: "bool \<Rightarrow> bool \<Rightarrow> u32 \<Rightarrow> u32 \<Rightarrow> FiberScheduler \<Rightarrow> FiberScheduler \<Rightarrow> bool" where
  "departs short forking t i s s' \<longleftrightarrow>
     yields short t i s s' \<or> awaits i s s' \<or> forking \<and> forks t i s s' \<or>
     (\<exists>f. fiber_ok i f \<and> fcStatus f = Ready \<and> s' = killFiberTree i (setFiber i f s))"

definition short_code :: "CompactInstruction list \<Rightarrow> bool" where
  "short_code code \<longleftrightarrow> list_all short_wait code"

definition forking_code :: "CompactInstruction list \<Rightarrow> bool" where
  "forking_code code \<longleftrightarrow> list_ex (\<lambda>ins. ciOpcode ins = ForkFiber) code"

lemma setFiber_setFiber [simp]: "setFiber i f (setFiber i g s) = setFiber i f s"
  by (simp add: setFiber_def)

lemma setFiber_same: "setFiber i (fiberAt s i) s = s"
  by (simp add: setFiber_def fiberAt_def)

lemma after_setFiber [simp]:
  "yields short t i (setFiber i g s) s' = yields short t i s s'"
  "awaits i (setFiber i g s) s' = awaits i s s'" "forks t i (setFiber i g s) s' = forks t i s s'"
  "continues i (setFiber i g s) s' = continues i s s'"
  "departs short forking t i (setFiber i g s) s' = departs short forking t i s s'"
  by (simp_all add: yields_def awaits_def forks_def continues_def departs_def)

lemma departs_execute:
  assumes "yields (short_wait ins) t i s s' \<or> awaits i s s' \<or> ciOpcode ins = ForkFiber \<and> forks t i s s' \<or>
      s' = killFiberTree i s"
    and "ins \<in> set code" and "fiber_ok i (fiberAt s i)" and "fcStatus (fiberAt s i) = Ready"
  shows "departs (short_code code) (forking_code code) t i s s'"
proof -
  have "short_code code \<Longrightarrow> short_wait ins" using assms(2) by (simp add: short_code_def list_all_iff)
  moreover have "ciOpcode ins = ForkFiber \<Longrightarrow> forking_code code"
    using assms(2) by (auto simp: forking_code_def list_ex_iff)
  moreover have "\<exists>f. fiber_ok i f \<and> fcStatus f = Ready \<and> killFiberTree i s = killFiberTree i (setFiber i f s)"
    using assms(3,4) setFiber_same by (intro exI [of _ "fiberAt s i"]) simp
  ultimately show ?thesis using assms(1) unfolding departs_def yields_def by metis
qed

lemma sliceLoop_effect:
  assumes "sliceLoop host t code i budget n s h = Defined (left, n', s', h')"
    and "fiberKnown s i" and "fiber_ok i (fiberAt s i)" and "fcStatus (fiberAt s i) = Ready"
    and "callbacks_ok host"
  shows "(if left then continues i s s' else departs (short_code code) (forking_code code) t i s s') \<and>
    (\<exists>k \<le> budget. n' = n + of_nat k)"
  using assms
proof (induction budget arbitrary: n s h)
  case 0
  then have "s' = setFiber i (fiberAt s i) s \<and> left \<and> n' = n"
    by (subst (asm) sliceLoop.simps) (simp add: setFiber_same split: if_splits)
  with 0 show ?case by (auto intro!: continuesI)
next
  case (Suc b)
  show ?case
  proof (cases "length code \<le> unat (fcPc (fiberAt s i))")
    case True
    with Suc.prems have "s' = setFiber i (fiberAt s i) s \<and> left \<and> n' = n"
      by (subst (asm) sliceLoop.simps) (simp add: setFiber_same split: if_splits)
    with Suc.prems show ?thesis by (auto intro!: continuesI exI [of _ 0])
  next
    case False
    let ?ins = "code ! unat (fcPc (fiberAt s i))"
    have mem: "?ins \<in> set code" using False by (intro nth_mem) simp
    obtain goOn s1 h1 where step: "executeInstruction host t ?ins i s h = Defined (goOn, s1, h1)"
        and rest: "if goOn then sliceLoop host t code i b (n + 1) s1 h1 = Defined (left, n', s', h')
          else \<not> left \<and> n' = n + 1 \<and> s' = s1"
      using Suc.prems(1) False
      by (subst (asm) sliceLoop.simps) (auto split: behaviour.splits prod.splits if_splits)
    note effect = execute_effect [OF step Suc.prems(3,4,5)]
    show ?thesis
    proof (cases goOn)
      case True
      with effect obtain f where f: "fiber_ok i f" "fcStatus f = Ready" "s1 = setFiber i f s"
        by (auto simp: continues_def)
      have at: "fiberAt s1 i = f" using f(3) Suc.prems(2) by (simp add: fiberAt_setFiber)
      from True rest have "sliceLoop host t code i b (n + 1) s1 h1 = Defined (left, n', s', h')" by simp
      from Suc.IH [OF this] f at Suc.prems(2,5)
      have "(if left then continues i s s' else departs (short_code code) (forking_code code) t i s s') \<and>
          (\<exists>k \<le> b. n' = n + 1 + of_nat k)" by (cases left) simp_all
      then show ?thesis by (metis (no_types, lifting) Suc_le_mono add.assoc of_nat_Suc)
    next
      case False
      with effect rest departs_execute [OF _ mem Suc.prems(3,4)] show ?thesis
        by (auto intro!: exI [of _ "1 :: nat"])
    qed
  qed
qed

lemma slice_effect:
  assumes run: "executeFiberSlice host t i n s h = Defined (n', s', h')"
    and i: "fiberKnown s i" "fiber_ok i (fiberAt s i)" "fcStatus (fiberAt s i) = Ready"
    and host: "callbacks_ok host"
  shows "departs (list_all short_code (fsPrograms s)) (list_ex forking_code (fsPrograms s)) t i s s' \<and>
    (\<exists>k \<le> 256. n' = n + of_nat k)"
proof (cases "fcProgramId (fiberAt s i) = 0 \<or> length (fsPrograms s) \<le> unat (fcProgramId (fiberAt s i))")
  case True
  with run i have "s' = killFiberTree i (setFiber i (fiberAt s i) s) \<and> n' = n"
    by (auto simp: executeFiberSlice_def Let_def setFiber_same fiber_ok_def)
  with i show ?thesis unfolding departs_def by (auto intro!: exI [of _ 0])
next
  case False
  let ?code = "fsPrograms s ! unat (fcProgramId (fiberAt s i))"
  have mem: "?code \<in> set (fsPrograms s)" using False by (intro nth_mem) simp
  obtain left s1 where loop: "sliceLoop host t ?code i 256 n s h = Defined (left, n', s1, h')"
      and s': "s' = (if left then endSlice t ?code i s1 else s1)"
    using run False by (auto simp: executeFiberSlice_def Let_def split: behaviour.splits)
  note effect = sliceLoop_effect [OF loop i host]
  have weaken: "departs (list_all short_code (fsPrograms s)) (list_ex forking_code (fsPrograms s)) t i s s'"
    if "departs (short_code ?code) (forking_code ?code) t i s s'"
  proof -
    have "list_all short_code (fsPrograms s) \<Longrightarrow> short_code ?code"
      and "forking_code ?code \<Longrightarrow> list_ex forking_code (fsPrograms s)"
      using mem by (auto simp: list_all_iff list_ex_iff)
    with that show ?thesis unfolding departs_def yields_def by metis
  qed
  have "departs (short_code ?code) (forking_code ?code) t i s s'"
  proof (cases left)
    case True
    with effect obtain f where f: "fiber_ok i f" "fcStatus f = Ready" "s1 = setFiber i f s"
      by (auto simp: continues_def)
    have at: "fiberAt s1 i = f" "fcFiberId f = i"
      using f i(1) by (simp_all add: fiberAt_setFiber fiber_ok_def)
    have "yields b t i s (scheduleAtTick i (t + 1) (setFiber i f s))" for b
      unfolding yields_def using f by (intro exI [of _ f] exI [of _ 1]) simp
    with True s' at f show ?thesis
      unfolding departs_def by (auto simp: endSlice_def Let_def)
  qed (use effect s' in simp)
  with weaken effect show ?thesis by blast
qed

section \<open>A slice keeps the invariant\<close>

lemma ready_queued: "fs_inv Q s \<Longrightarrow> fiberKnown s i \<Longrightarrow> fcStatus (fiberAt s i) = Ready \<Longrightarrow> i \<in> Q"
  by (fastforce simp: fs_inv_def filed_def)

lemma fs_inv_rewrite:
  assumes "fs_inv Q s" and "fiberKnown s i" and "fcStatus (fiberAt s i) = Ready"
    and "fiber_ok i f" and "fcStatus f = Ready"
  shows "fs_inv Q (setFiber i f s)"
  using assms ready_queued [OF assms(1-3)]
  by (intro fs_inv_update [OF assms(1,2)]) (auto simp: fiber_live_def bucket_def filed_def)

lemma fs_inv_await:
  assumes inv: "fs_inv Q s" and i: "fiberKnown s i" "fcStatus (fiberAt s i) = Ready"
    and aw: "awaits i s s'"
  shows "fs_inv (Q - {i}) s'"
proof -
  obtain f where f: "fiber_ok i f" "fcStatus f = WaitingPredicate"
      "s' = (setFiber i f s)\<lparr>fsWaiting := fsWaiting s @ [i]\<rparr>"
    using aw by (auto simp: awaits_def)
  show ?thesis
    by (rule fs_inv_update [OF inv i(1), where f = f])
      (use i f in \<open>auto simp: fiber_live_def bucket_def filed_def\<close>)
qed

lemma spawned_next: "\<exists>c. spawnFiberByProgram p pc e g parent seed s = (c, snd (spawnFiberByProgram p pc e g parent seed s))"
  by (metis prod.collapse)

lemma spawn_room:
  assumes "length (fsFibers (snd (spawnFiberByProgram p pc e g parent seed s))) \<le> 2 ^ 32"
    and "fsFree s = []"
  shows "length (fsFibers s) < 2 ^ 32"
  using assms by (simp add: spawnFiberByProgram_def Let_def)

definition slice_result :: "u32 set \<Rightarrow> bool \<Rightarrow> u32 \<Rightarrow> FiberScheduler \<Rightarrow> FiberScheduler \<Rightarrow> bool" where
  "slice_result Q forking i s s' \<longleftrightarrow>
     (\<exists>xs. fsReady s' = fsReady s @ xs \<and> fs_inv ((Q - {i}) \<union> set xs) s' \<and> (xs \<noteq> [] \<longrightarrow> forking)) \<and>
     fsPrograms s' = fsPrograms s \<and> fsTick s' = fsTick s \<and>
     length (fsFibers s) \<le> length (fsFibers s')"

lemma scheduled_known: "fiberKnown (scheduleAtTick i t s) j = fiberKnown s j"
  by (simp add: fiberKnown_def)

lemma forks_inv:
  assumes inv: "fs_inv Q s" and i: "fiberKnown s i" "fcStatus (fiberAt s i) = Ready"
    and fork: "forks t i s s'" and room: "length (fsFibers s') \<le> 2 ^ 32"
  shows "slice_result Q True i s s'"
proof -
  obtain f p pc e g seed where f: "fiber_ok i f" "fcStatus f = Ready"
      and s': "s' = snd (spawnFiberByProgram p pc e g i seed (scheduleAtTick i (t + 1) (setFiber i f s)))"
    using fork by (auto simp: forks_def)
  let ?s1 = "scheduleAtTick i (t + 1) (setFiber i f s)"
  have "fs_inv (Q - {i}) ?s1"
    using fs_inv_rewrite [OF inv i f] i(1) f
    by (intro fs_inv_schedule) (simp_all add: fiberAt_setFiber fiber_live_def)
  moreover obtain c where "spawnFiberByProgram p pc e g i seed ?s1 = (c, s')"
    using spawned_next s' by metis
  moreover have "fsFree ?s1 = [] \<Longrightarrow> length (fsFibers ?s1) < 2 ^ 32"
    using spawn_room room unfolding s' by blast
  ultimately have "spawned c ?s1 s'" "fs_inv (insert c (Q - {i})) s'"
    using spawn_effect by blast+
  then show ?thesis
    by (auto simp: slice_result_def spawned_def insert_commute)
qed

lemma departs_inv:
  assumes inv: "fs_inv Q s" and i: "fiberKnown s i" "fcStatus (fiberAt s i) = Ready"
    and dep: "departs short forking t i s s'" and room: "length (fsFibers s') \<le> 2 ^ 32"
  shows "slice_result Q forking i s s'"
proof -
  have quiet: "slice_result Q forking i s s'"
    if "fs_inv (Q - {i}) s'" "fsReady s' = fsReady s" "fsPrograms s' = fsPrograms s"
      "fsTick s' = fsTick s" "length (fsFibers s') = length (fsFibers s)"
    using that by (simp add: slice_result_def)
  consider (yield) "yields short t i s s'" | (await) "awaits i s s'"
    | (fork) "forking" "forks t i s s'"
    | (kill) f where "fiber_ok i f" "fcStatus f = Ready" "s' = killFiberTree i (setFiber i f s)"
    using dep unfolding departs_def by blast
  then show ?thesis
  proof cases
    case yield
    then obtain f w where f: "fiber_ok i f" "fcStatus f = Ready" and s': "s' = scheduleAtTick i (t + w) (setFiber i f s)"
      unfolding yields_def by blast
    have "fs_inv (Q - {i}) s'" unfolding s'
      using fs_inv_rewrite [OF inv i f] i(1) f
      by (intro fs_inv_schedule) (simp_all add: fiberAt_setFiber fiber_live_def)
    then show ?thesis by (rule quiet) (simp_all add: s')
  next
    case await
    with fs_inv_await [OF inv i] show ?thesis by (intro quiet) (auto simp: awaits_def)
  next
    case fork
    with forks_inv [OF inv i fork(2) room] show ?thesis by (simp add: slice_result_def)
  next
    case kill
    have "fs_inv (Q - {i}) s'" unfolding kill(3)
      using fs_inv_rewrite [OF inv i kill(1,2)] i(1) kill(2)
      by (intro fs_inv_kill_known) (simp_all add: fiberAt_setFiber fiber_live_def)
    then show ?thesis by (rule quiet) (simp_all add: kill(3))
  qed
qed

end
