(* ===== verification/Fiber_Ticks.thy ===== *)
theory Fiber_Ticks
  imports Fiber_Invariant
begin

text \<open>
  Ticks, events and snapshots of the fiber scheduler: which fibers a tick and an event wake, the
  drain of the ready queue slice by slice with its rule of induction, and the queues that a restored
  snapshot rebuilds. Each of them keeps the invariant.
\<close>

section \<open>Waking\<close>

definition fiber_due :: "u32 \<Rightarrow> FiberContext \<Rightarrow> bool" where
  "fiber_due t f \<longleftrightarrow> fcStatus f = SleepingTicks \<and> fcWakeTick f \<le> t"

definition wake_effect :: "u32 \<Rightarrow> u32 set \<Rightarrow> FiberScheduler \<Rightarrow> FiberScheduler \<Rightarrow> bool" where
  "wake_effect t B s s' \<longleftrightarrow>
     length (fsFibers s') = length (fsFibers s) \<and>
     (\<forall>i. unat i < length (fsFibers s) \<longrightarrow>
        fiberAt s' i = (if i \<in> B \<and> fiber_due t (fiberAt s i)
          then (fiberAt s i)\<lparr>fcStatus := Ready\<rparr> else fiberAt s i)) \<and>
     (\<exists>xs. fsReady s' = fsReady s @ xs \<and>
        set xs = {i \<in> B. unat i < length (fsFibers s) \<and> fiber_due t (fiberAt s i)}) \<and>
     fsWaiting s' = fsWaiting s \<and> fsFree s' = fsFree s \<and> fsTick s' = fsTick s \<and>
     fsPrograms s' = fsPrograms s"

lemma wake_fold:
  assumes "fold (wakeFiber t) xs (s, remaining) = (s', remaining')"
  shows "wake_effect t (set xs) s s' \<and> fsWheel s' = fsWheel s \<and>
    set remaining' = set remaining \<union> {i \<in> set xs. unat i < length (fsFibers s) \<and>
      fcStatus (fiberAt s i) = SleepingTicks \<and> \<not> fcWakeTick (fiberAt s i) \<le> t}"
  using assms
proof (induction xs arbitrary: s remaining)
  case Nil
  then show ?case by (simp add: wake_effect_def)
next
  case (Cons x xs)
  let ?in = "unat x < length (fsFibers s)" and ?f = "fiberAt s x"
  obtain s1 remaining1 where step: "wakeFiber t x (s, remaining) = (s1, remaining1)" by fastforce
  from Cons.prems step have "fold (wakeFiber t) xs (s1, remaining1) = (s', remaining')" by simp
  note IH = Cons.IH [OF this]
  show ?case
  proof (cases "?in \<and> fiber_due t ?f")
    case True
    then have s1: "s1 = (setFiber x (?f\<lparr>fcStatus := Ready\<rparr>) s)\<lparr>fsReady := fsReady s @ [x]\<rparr>"
        "remaining1 = remaining"
      using step by (auto simp: wakeFiber_def Let_def fiber_due_def)
    have at: "fiberAt s1 i = (if i = x then ?f\<lparr>fcStatus := Ready\<rparr> else fiberAt s i)" for i
      using True by (auto simp: s1 fiberAt_def word_unat_eq_iff)
    have len: "length (fsFibers s1) = length (fsFibers s)" by (simp add: s1)
    have views: "fsReady s1 = fsReady s @ [x]" "fsWaiting s1 = fsWaiting s" "fsFree s1 = fsFree s"
        "fsTick s1 = fsTick s" "fsPrograms s1 = fsPrograms s" "fsWheel s1 = fsWheel s"
      by (simp_all add: s1)
    show ?thesis
      using IH True s1(2) unfolding wake_effect_def
      by (auto simp: at len views fiber_due_def)
  next
    case False
    then have s1: "s1 = s"
        "set remaining1 = set remaining \<union> {i. i = x \<and> ?in \<and> fcStatus ?f = SleepingTicks \<and> \<not> fcWakeTick ?f \<le> t}"
      using step by (auto simp: wakeFiber_def Let_def fiber_due_def split: if_splits)
    show ?thesis using IH False s1 unfolding wake_effect_def by (auto simp: fiber_due_def)
  qed
qed

lemma wakeDue_effect:
  assumes "length (fsWheel s) = WHEEL_SLOTS"
  shows "wake_effect t (set (bucket s t)) s (wakeDue t s)"
    and "length (fsWheel (wakeDue t s)) = WHEEL_SLOTS"
    and "unat u mod WHEEL_SLOTS \<noteq> unat t mod WHEEL_SLOTS \<Longrightarrow> bucket (wakeDue t s) u = bucket s u"
    and "unat u mod WHEEL_SLOTS = unat t mod WHEEL_SLOTS \<Longrightarrow>
      set (bucket (wakeDue t s) u) = {i \<in> set (bucket s t). unat i < length (fsFibers s) \<and>
        fcStatus (fiberAt s i) = SleepingTicks \<and> \<not> fcWakeTick (fiberAt s i) \<le> t}"
proof -
  obtain s' remaining where run: "fold (wakeFiber t) (bucket s t) (s, []) = (s', remaining)" by fastforce
  note effect = wake_fold [OF run]
  have eq: "wakeDue t s = s'\<lparr>fsWheel := (fsWheel s')[unat t mod WHEEL_SLOTS := remaining]\<rparr>"
    using run by (simp add: wakeDue_def bucket_def Let_def)
  show "wake_effect t (set (bucket s t)) s (wakeDue t s)"
    using effect by (simp add: eq wake_effect_def fiberAt_def)
  show "length (fsWheel (wakeDue t s)) = WHEEL_SLOTS" using effect assms by (simp add: eq)
  show "unat u mod WHEEL_SLOTS \<noteq> unat t mod WHEEL_SLOTS \<Longrightarrow> bucket (wakeDue t s) u = bucket s u"
    using effect by (simp add: eq bucket_def)
  show "unat u mod WHEEL_SLOTS = unat t mod WHEEL_SLOTS \<Longrightarrow>
      set (bucket (wakeDue t s) u) = {i \<in> set (bucket s t). unat i < length (fsFibers s) \<and>
        fcStatus (fiberAt s i) = SleepingTicks \<and> \<not> fcWakeTick (fiberAt s i) \<le> t}"
    using effect assms slot_bound [of t] by (simp add: eq bucket_def)
qed

lemma fs_inv_wake:
  assumes inv: "fs_inv (set (fsReady s)) s"
  shows "fs_inv (set (fsReady (wakeDue t s))) (wakeDue t s)"
proof -
  let ?s' = "wakeDue t s" and ?B = "set (bucket s t)"
  note parts = inv [unfolded fs_inv_def]
  note wheel = wakeDue_effect [OF fs_inv_length(3) [OF inv], where t = t]
  note eff = wheel(1) [unfolded wake_effect_def]
  have knows: "fiberKnown ?s' i = fiberKnown s i" for i using eff by (simp add: fiberKnown_def)
  have at: "fiberAt ?s' i = (if i \<in> ?B \<and> fiber_due t (fiberAt s i)
      then (fiberAt s i)\<lparr>fcStatus := Ready\<rparr> else fiberAt s i)" if "fiberKnown s i" for i
    using eff that by (simp add: fiberKnown_def)
  have queue: "set (fsReady s) \<subseteq> set (fsReady ?s')" using eff by auto
  have "filed (set (fsReady ?s')) ?s' i (fiberAt ?s' i)" if i: "fiberKnown s i" for i
  proof (cases "i \<in> ?B \<and> fiber_due t (fiberAt s i)")
    case True
    have "unat i < length (fsFibers s)" using i by (simp add: fiberKnown_def)
    with True eff have "i \<in> set (fsReady ?s')" by auto
    with True at [OF i] show ?thesis by (simp add: filed_def)
  next
    case False
    have old: "filed (set (fsReady s)) s i (fiberAt s i)" using parts i by blast
    have "i \<in> set (bucket ?s' (fcWakeTick (fiberAt s i)))" if "fcStatus (fiberAt s i) = SleepingTicks"
    proof (cases "unat (fcWakeTick (fiberAt s i)) mod WHEEL_SLOTS = unat t mod WHEEL_SLOTS")
      case True
      then have "i \<in> ?B" using old that by (simp add: filed_def bucket_def)
      with False that i have "i \<in> {j \<in> ?B. unat j < length (fsFibers s) \<and>
          fcStatus (fiberAt s j) = SleepingTicks \<and> \<not> fcWakeTick (fiberAt s j) \<le> t}"
        by (simp add: fiber_due_def fiberKnown_def)
      then show ?thesis by (simp only: wheel(4) [OF True])
    qed (use old that wheel(3) in \<open>auto simp: filed_def\<close>)
    with False old at [OF i] eff queue show ?thesis
      by (auto simp: filed_def split: FiberStatus.splits)
  qed
  moreover have "fiber_ok i (fiberAt ?s' i)" if "fiberKnown s i" for i
    using parts that at [OF that] by simp
  moreover have "fcStatus (fsFibers ?s' ! 0) = Inactive"
  proof -
    have "fiberAt ?s' 0 = (if 0 \<in> ?B \<and> fiber_due t (fiberAt s 0)
        then (fiberAt s 0)\<lparr>fcStatus := Ready\<rparr> else fiberAt s 0)" using eff parts by simp
    then show ?thesis using parts by (simp add: fiberAt_def fiber_due_def)
  qed
  moreover have "fcStatus (fiberAt ?s' i) = Terminated" if "i \<in> set (fsFree s)" for i
    using parts that at [of i] by (auto simp: fiber_due_def)
  ultimately show ?thesis
    using parts eff wheel(2) unfolding fs_inv_def by (auto simp: knows)
qed

section \<open>Draining the ready queue\<close>

lemma execute_length:
  assumes "executeInstruction host t ins i s h = Defined (goOn, s', h')"
  shows "length (fsFibers s) \<le> length (fsFibers s')"
  using assms
  by (cases "ciOpcode ins")
    (auto simp: executeInstruction_def Let_def spawnFiberByProgram_def
      split: if_splits behaviour.splits prod.splits option.splits list.splits)

lemma sliceLoop_length:
  "sliceLoop host t code i budget n s h = Defined (left, n', s', h') \<Longrightarrow>
   length (fsFibers s) \<le> length (fsFibers s')"
proof (induction budget arbitrary: n s h)
  case 0
  then show ?case by (subst (asm) sliceLoop.simps) (simp split: if_splits)
next
  case (Suc b)
  then show ?case
    by (subst (asm) (2) sliceLoop.simps)
      (force split: if_splits behaviour.splits prod.splits dest: execute_length intro: order_trans)
qed

lemma slice_length:
  assumes "executeFiberSlice host t i n s h = Defined (n', s', h')"
  shows "length (fsFibers s) \<le> length (fsFibers s')"
  using assms
  by (auto simp: executeFiberSlice_def endSlice_def Let_def dest!: sliceLoop_length
      split: if_splits behaviour.splits prod.splits)

lemma drain_induct [consumes 1, case_names finish skip undefined slice]:
  assumes run: "drainReady host t idx n s h = Some r"
    and finish: "\<And>idx n s h. length (fsReady s) \<le> idx \<Longrightarrow> P idx n s h (Defined (n, s, h))"
    and skip: "\<And>idx n s h r. idx < length (fsReady s) \<Longrightarrow>
      \<not> fiberKnown s (fsReady s ! idx) \<or> fcStatus (fiberAt s (fsReady s ! idx)) \<noteq> Ready \<Longrightarrow>
      P (idx + 1) n s h r \<Longrightarrow> P idx n s h r"
    and undefined: "\<And>idx n s h. P idx n s h Undefined"
    and slice: "\<And>idx n s h n1 s1 h1 r. idx < length (fsReady s) \<Longrightarrow> fiberKnown s (fsReady s ! idx) \<Longrightarrow>
      fcStatus (fiberAt s (fsReady s ! idx)) = Ready \<Longrightarrow>
      executeFiberSlice host t (fsReady s ! idx) n s h = Defined (n1, s1, h1) \<Longrightarrow>
      P (idx + 1) n1 s1 h1 r \<Longrightarrow> P idx n s h r"
  shows "P idx n s h r"
proof -
  have "host' = host \<longrightarrow> t' = t \<longrightarrow> P idx n s h r" if "drainReady host' t' idx n s h = Some r" for host' t' idx n s h r
  proof (rule drainReady.raw_induct [where P = "\<lambda>host' t' idx n s h r. host' = host \<longrightarrow> t' = t \<longrightarrow> P idx n s h r", OF _ that])
    fix drain
    fix host' t' idx n h r and s :: FiberScheduler
    let ?fid = "fsReady s ! idx"
    assume IH: "\<And>host' t' idx n s h r. drain host' t' idx n s h = Some r \<Longrightarrow>
        host' = host \<longrightarrow> t' = t \<longrightarrow> P idx n s h r"
    assume body: "(if length (fsReady s) \<le> idx then Some (Defined (n, s, h))
      else let fid = ?fid
           in if \<not> fiberKnown s fid then drain host' t' (idx + 1) n s h
              else if fcStatus (fiberAt s fid) \<noteq> Ready then drain host' t' (idx + 1) n s h
              else case executeFiberSlice host' t' fid n s h of
                     Undefined \<Rightarrow> Some Undefined
                   | Defined r \<Rightarrow> drain host' t' (idx + 1) (fst r) (fst (snd r)) (snd (snd r))) = Some r"
    show "host' = host \<longrightarrow> t' = t \<longrightarrow> P idx n s h r"
    proof (intro impI)
      assume eq: "host' = host" "t' = t"
      consider (over) "length (fsReady s) \<le> idx"
        | (skip) "idx < length (fsReady s)" "\<not> fiberKnown s ?fid \<or> fcStatus (fiberAt s ?fid) \<noteq> Ready"
        | (run) "idx < length (fsReady s)" "fiberKnown s ?fid" "fcStatus (fiberAt s ?fid) = Ready"
        by linarith
      then show "P idx n s h r"
      proof cases
        case over
        with body finish show ?thesis by auto
      next
        case skip
        with body eq IH have "P (idx + 1) n s h r" by (auto simp: Let_def split: if_splits)
        with skip assms(3) show ?thesis by blast
      next
        case run
        show ?thesis
        proof (cases "executeFiberSlice host t ?fid n s h")
          case (Defined x)
          obtain n1 s1 h1 where x: "x = (n1, s1, h1)" by (cases x)
          from body run Defined x eq have "drain host t (idx + 1) n1 s1 h1 = Some r" by (simp add: Let_def)
          with IH have "P (idx + 1) n1 s1 h1 r" by (auto dest: IH)
          with slice [OF run] Defined x show ?thesis by blast
        next
          case Undefined
          with body run eq undefined show ?thesis by (simp add: Let_def)
        qed
      qed
    qed
  qed
  with run show ?thesis by blast
qed

lemma fs_inv_not_ready:
  assumes inv: "fs_inv (insert i Q) s" and i: "\<not> fiberKnown s i \<or> fcStatus (fiberAt s i) \<noteq> Ready"
  shows "fs_inv Q s"
proof -
  have "filed Q s j (fiberAt s j)" if "fiberKnown s j" for j
  proof -
    have "filed (insert i Q) s j (fiberAt s j)" using inv that by (simp add: fs_inv_def)
    with i that show ?thesis by (auto simp: filed_def split: FiberStatus.splits)
  qed
  with inv show ?thesis unfolding fs_inv_def by blast
qed

lemma drain_effect:
  assumes "drainReady host t idx n s h = Some r" and "r = Defined (n', s', h')" and "callbacks_ok host"
    and step: "\<And>Q i s s'. fs_inv Q s \<Longrightarrow> fiberKnown s i \<Longrightarrow> fcStatus (fiberAt s i) = Ready \<Longrightarrow>
      departs (list_all short_code (fsPrograms s)) (list_ex forking_code (fsPrograms s)) t i s s' \<Longrightarrow>
      length (fsFibers s') \<le> 2 ^ 32 \<Longrightarrow> J s \<Longrightarrow> J s'"
  shows "length (fsFibers s) \<le> length (fsFibers s') \<and>
    (fs_inv (set (drop idx (fsReady s))) s \<longrightarrow> length (fsFibers s') \<le> 2 ^ 32 \<longrightarrow> J s \<longrightarrow>
      fs_inv {} s' \<and> J s' \<and> fsTick s' = fsTick s \<and> fsPrograms s' = fsPrograms s)"
  using assms(1-3)
proof (induction rule: drain_induct)
  case (finish idx n s h)
  then show ?case by simp
next
  case (skip idx n s h r)
  have "set (drop idx (fsReady s)) = insert (fsReady s ! idx) (set (drop (idx + 1) (fsReady s)))"
    using skip(1) by (simp add: Cons_nth_drop_Suc [symmetric])
  with fs_inv_not_ready [OF _ skip(2)] skip(3) [OF skip(4,5)] show ?case by simp
next
  case (slice idx n s h n1 s1 h1 r)
  let ?fid = "fsReady s ! idx"
  have split: "set (drop idx (fsReady s)) = insert ?fid (set (drop (idx + 1) (fsReady s)))"
    using slice(1) by (simp add: Cons_nth_drop_Suc [symmetric])
  note IH = slice(5) [OF slice(6,7)]
  have len: "length (fsFibers s) \<le> length (fsFibers s1)" by (rule slice_length [OF slice(4)])
  have "fs_inv {} s' \<and> J s' \<and> fsTick s' = fsTick s \<and> fsPrograms s' = fsPrograms s"
    if inv: "fs_inv (set (drop idx (fsReady s))) s" and room: "length (fsFibers s') \<le> 2 ^ 32" and J: "J s"
  proof -
    have dep: "departs (list_all short_code (fsPrograms s)) (list_ex forking_code (fsPrograms s)) t ?fid s s1"
      using slice_effect [OF slice(4) slice(2) fs_inv_ok [OF inv slice(2)] slice(3,7)] by blast
    have room1: "length (fsFibers s1) \<le> 2 ^ 32" using IH room by linarith
    have "slice_result (set (drop idx (fsReady s))) (list_ex forking_code (fsPrograms s)) ?fid s s1"
      by (rule departs_inv [OF inv slice(2,3) dep room1])
    then obtain xs where xs: "fsReady s1 = fsReady s @ xs"
        "fs_inv ((set (drop idx (fsReady s)) - {?fid}) \<union> set xs) s1"
        "fsTick s1 = fsTick s" "fsPrograms s1 = fsPrograms s"
      unfolding slice_result_def by blast
    have "fs_inv (set (drop (idx + 1) (fsReady s1))) s1"
      using xs(2) by (rule fs_inv_mono) (use slice(1) xs(1) split in auto)
    moreover have "J s1" by (rule step [OF inv slice(2,3) dep room1 J])
    ultimately show ?thesis using IH room xs by simp
  qed
  with IH len show ?case by simp
qed simp

text \<open>What a tick, an event or any other operation leaves behind satisfies the invariant.\<close>

lemma stepTick_inv:
  assumes inv: "fs_inv (set (fsReady s)) s" and host: "callbacks_ok host"
    and run: "stepTick host t s h = Some (Defined (n, s', h'))" and room: "length (fsFibers s') \<le> 2 ^ 32"
    and step: "\<And>Q i s s'. fs_inv Q s \<Longrightarrow> fiberKnown s i \<Longrightarrow> fcStatus (fiberAt s i) = Ready \<Longrightarrow>
      departs (list_all short_code (fsPrograms s)) (list_ex forking_code (fsPrograms s)) t i s s' \<Longrightarrow>
      length (fsFibers s') \<le> 2 ^ 32 \<Longrightarrow> J s \<Longrightarrow> J s'"
    and start: "J (wakeDue t (s\<lparr>fsTick := t\<rparr>))"
  shows "fs_inv (set (fsReady s')) s'" and "fsTick s' = t" and "fsPrograms s' = fsPrograms s"
    and "\<exists>s1. J s1 \<and> s' = s1\<lparr>fsReady := []\<rparr>"
proof -
  let ?s0 = "s\<lparr>fsTick := t\<rparr>"
  obtain s1 where drain: "drainReady host t 0 0 (wakeDue t ?s0) h = Some (Defined (n, s1, h'))"
      and s': "s' = s1\<lparr>fsReady := []\<rparr>"
    using run by (auto simp: stepTick_def split: option.splits behaviour.splits)
  have inv0: "fs_inv (set (fsReady ?s0)) ?s0" using inv by (simp add: fs_inv_tick)
  note wake = wakeDue_effect(1) [OF fs_inv_length(3) [OF inv0], where t = t, unfolded wake_effect_def]
  have "fs_inv {} s1 \<and> J s1 \<and> fsTick s1 = t \<and> fsPrograms s1 = fsPrograms s"
    using drain_effect [where J = J, OF drain refl host step] fs_inv_wake [OF inv0] wake room start by (simp add: s')
  then show "fs_inv (set (fsReady s')) s'" "fsTick s' = t" "fsPrograms s' = fsPrograms s"
      "\<exists>s1. J s1 \<and> s' = s1\<lparr>fsReady := []\<rparr>"
    by (auto simp: s' fs_inv_ready)
qed

section \<open>Blackboard events\<close>

definition awaited :: "(FiberContext \<Rightarrow> bool) \<Rightarrow> FiberScheduler \<Rightarrow> u32 \<Rightarrow> bool" where
  "awaited matches s i \<longleftrightarrow>
     fiberKnown s i \<and> fcStatus (fiberAt s i) = WaitingPredicate \<and> matches (fiberAt s i)"

definition notify_effect ::
    "(FiberContext \<Rightarrow> bool) \<Rightarrow> u32 set \<Rightarrow> u32 list \<Rightarrow> FiberScheduler \<Rightarrow> FiberScheduler \<Rightarrow> bool" where
  "notify_effect matches W ys s s' \<longleftrightarrow>
     length (fsFibers s') = length (fsFibers s) \<and>
     fcStatus (fsFibers s' ! 0) = fcStatus (fsFibers s ! 0) \<and>
     (\<forall>i. fiberKnown s i \<longrightarrow> fiberAt s' i = (if i \<in> W \<and> awaited matches s i
        then (fiberAt s i)\<lparr>fcStatus := Ready, fcWaitChannel := 0\<rparr> else fiberAt s i)) \<and>
     fsReady s' = fsReady s @ ys \<and> distinct ys \<and> set ys = {i \<in> W. awaited matches s i} \<and>
     fsWheel s' = fsWheel s \<and> fsFree s' = fsFree s \<and> fsTick s' = fsTick s \<and>
     fsPrograms s' = fsPrograms s"

lemma notify_fold:
  assumes "fold (notifyFiber matches) xs (woken, s, waiting) = (woken', s', waiting')"
  shows "\<exists>ys. notify_effect matches (set xs) ys s s' \<and> woken' = woken + of_nat (length ys) \<and>
    set waiting' = set waiting \<union> {i \<in> set xs. fiberKnown s i \<and>
      fcStatus (fiberAt s i) = WaitingPredicate \<and> \<not> matches (fiberAt s i)}"
  using assms
proof (induction xs arbitrary: woken s waiting)
  case Nil
  then show ?case by (auto simp: notify_effect_def)
next
  case (Cons x xs)
  let ?f = "fiberAt s x"
  obtain woken1 s1 waiting1 where step: "notifyFiber matches x (woken, s, waiting) = (woken1, s1, waiting1)"
    by (metis prod.exhaust)
  from Cons.prems step have "fold (notifyFiber matches) xs (woken1, s1, waiting1) = (woken', s', waiting')"
    by simp
  from Cons.IH [OF this] obtain ys where ys: "notify_effect matches (set xs) ys s1 s'"
      "woken' = woken1 + of_nat (length ys)" "set waiting' = set waiting1 \<union> {i \<in> set xs. fiberKnown s1 i \<and>
        fcStatus (fiberAt s1 i) = WaitingPredicate \<and> \<not> matches (fiberAt s1 i)}" by blast
  show ?case
  proof (cases "awaited matches s x")
    case True
    then have s1: "s1 = (setFiber x (?f\<lparr>fcStatus := Ready, fcWaitChannel := 0\<rparr>) s)\<lparr>fsReady := fsReady s @ [x]\<rparr>"
        "woken1 = woken + 1" "waiting1 = waiting"
      using step by (auto simp: notifyFiber_def Let_def awaited_def)
    have at: "fiberAt s1 i = (if i = x then ?f\<lparr>fcStatus := Ready, fcWaitChannel := 0\<rparr> else fiberAt s i)" for i
      using True by (auto simp: s1 fiberAt_def awaited_def fiberKnown_def word_unat_eq_iff)
    have views: "length (fsFibers s1) = length (fsFibers s)" "fsReady s1 = fsReady s @ [x]"
        "fsWheel s1 = fsWheel s" "fsFree s1 = fsFree s" "fsTick s1 = fsTick s" "fsPrograms s1 = fsPrograms s"
        "fcStatus (fsFibers s1 ! 0) = fcStatus (fsFibers s ! 0)"
      using True by (auto simp: s1 awaited_def fiberKnown_def nth_list_update unat_eq_zero)
    have knows: "fiberKnown s1 i = fiberKnown s i" for i by (rule fiberKnown_cong [OF views(1)])
    have aw: "awaited matches s1 i = (i \<noteq> x \<and> awaited matches s i)" for i
      by (simp add: awaited_def knows at)
    have "notify_effect matches (set (x # xs)) (x # ys) s s'"
      using ys(1) True unfolding notify_effect_def
      by (auto simp: views knows aw at)
    moreover have "woken' = woken + of_nat (length (x # ys))" using ys(2) s1(2) by simp
    moreover have "set waiting' = set waiting \<union> {i \<in> set (x # xs). fiberKnown s i \<and>
        fcStatus (fiberAt s i) = WaitingPredicate \<and> \<not> matches (fiberAt s i)}"
      using ys(3) True by (auto simp: s1(3) knows at awaited_def)
    ultimately show ?thesis by blast
  next
    case False
    then have s1: "s1 = s" "woken1 = woken" "set waiting1 = set waiting \<union> {i. i = x \<and> fiberKnown s i \<and>
        fcStatus ?f = WaitingPredicate \<and> \<not> matches ?f}"
      using step by (auto simp: notifyFiber_def Let_def awaited_def split: if_splits)
    have "notify_effect matches (set (x # xs)) ys s s'"
      using ys(1) False unfolding notify_effect_def s1(1) by auto
    moreover have "set waiting' = set waiting \<union> {i \<in> set (x # xs). fiberKnown s i \<and>
        fcStatus (fiberAt s i) = WaitingPredicate \<and> \<not> matches (fiberAt s i)}"
      using ys(3) unfolding s1(1,3) by auto
    ultimately show ?thesis using ys(2) s1(2) by blast
  qed
qed

lemma notify_result:
  assumes "notifyBlackboardEvent g c k v s = (woken, s')"
  obtains ys where "notify_effect (eventMatches g c k v) (set (fsWaiting s)) ys s s'"
    and "woken = of_nat (length ys)"
    and "set (fsWaiting s') = {i \<in> set (fsWaiting s). fiberKnown s i \<and>
      fcStatus (fiberAt s i) = WaitingPredicate \<and> \<not> eventMatches g c k v (fiberAt s i)}"
proof -
  obtain s1 waiting where run: "fold (notifyFiber (eventMatches g c k v)) (fsWaiting s) (0, s, []) = (woken, s1, waiting)"
      and s': "s' = s1\<lparr>fsWaiting := waiting\<rparr>"
    using assms by (auto simp: notifyBlackboardEvent_def Let_def split: prod.splits)
  from notify_fold [OF run] obtain ys where "notify_effect (eventMatches g c k v) (set (fsWaiting s)) ys s s1"
      "woken = of_nat (length ys)" "set waiting = {i \<in> set (fsWaiting s). fiberKnown s i \<and>
      fcStatus (fiberAt s i) = WaitingPredicate \<and> \<not> eventMatches g c k v (fiberAt s i)}" by auto
  then show thesis by (intro that [of ys]) (simp_all add: s' notify_effect_def fiberAt_def)
qed

lemma fs_inv_notify:
  assumes inv: "fs_inv (set (fsReady s)) s" and run: "notifyBlackboardEvent g c k v s = (woken, s')"
  shows "fs_inv (set (fsReady s')) s'"
proof -
  let ?m = "eventMatches g c k v"
  note parts = inv [unfolded fs_inv_def]
  obtain ys where eff: "notify_effect ?m (set (fsWaiting s)) ys s s'"
    and waiting: "set (fsWaiting s') = {i \<in> set (fsWaiting s). fiberKnown s i \<and>
      fcStatus (fiberAt s i) = WaitingPredicate \<and> \<not> ?m (fiberAt s i)}"
    using run by (rule notify_result)
  note eff' = eff [unfolded notify_effect_def]
  have knows: "fiberKnown s' i = fiberKnown s i" for i using eff' by (intro fiberKnown_cong) simp
  have "filed (set (fsReady s')) s' i (fiberAt s' i)" if i: "fiberKnown s i" for i
  proof -
    have old: "filed (set (fsReady s)) s i (fiberAt s i)" using parts i by blast
    show ?thesis
    proof (cases "i \<in> set (fsWaiting s) \<and> awaited ?m s i")
      case True
      with eff' i have "fcStatus (fiberAt s' i) = Ready" "i \<in> set (fsReady s')" by auto
      then show ?thesis by (simp add: filed_def)
    next
      case False
      with eff' i have at: "fiberAt s' i = fiberAt s i" by metis
      show ?thesis unfolding at
        using old False i eff' waiting
        by (auto simp: filed_def bucket_def awaited_def split: FiberStatus.splits)
    qed
  qed
  moreover have "fiber_ok i (fiberAt s' i)" if "fiberKnown s i" for i
    using parts that eff' by (simp add: fiber_ok_def)
  moreover have "fcStatus (fiberAt s' i) = Terminated" if "i \<in> set (fsFree s)" for i
    using parts that eff' by (auto simp: awaited_def)
  ultimately show ?thesis
    using parts eff' unfolding fs_inv_def by (auto simp: knows)
qed

section \<open>Snapshots\<close>

text \<open>\<open>restore\<close> files every fiber of the image under its status.\<close>

lemma filed_grow:
  assumes "filed (set (fsReady s)) s i f" and "set (fsReady s) \<subseteq> set (fsReady s')"
    and "\<And>t. set (bucket s t) \<subseteq> set (bucket s' t)" and "set (fsWaiting s) \<subseteq> set (fsWaiting s')"
    and "set (fsFree s) \<subseteq> set (fsFree s')"
  shows "filed (set (fsReady s')) s' i f"
  using assms by (cases "fcStatus f") (auto simp: filed_def)

lemma bucket_push:
  fixes t u :: u32
  assumes "length (fsWheel s) = WHEEL_SLOTS"
  shows "bucket (s\<lparr>fsWheel := (fsWheel s)[unat u mod WHEEL_SLOTS := ys]\<rparr>) t =
      (if unat u mod WHEEL_SLOTS = unat t mod WHEEL_SLOTS then ys else bucket s t)"
  using assms slot_bound [of u] by (auto simp: bucket_def)

lemma fileFiber_effect:
  assumes wheel: "length (fsWheel s) = WHEEL_SLOTS"
  shows "fsFibers (fileFiber i s) = fsFibers s" "fsTick (fileFiber i s) = fsTick s"
    "fsPrograms (fileFiber i s) = fsPrograms s" "length (fsWheel (fileFiber i s)) = WHEEL_SLOTS"
    "set (fsReady s) \<subseteq> set (fsReady (fileFiber i s))"
    "set (bucket s t) \<subseteq> set (bucket (fileFiber i s) t)"
    "set (fsWaiting s) \<subseteq> set (fsWaiting (fileFiber i s))"
    "fsFree (fileFiber i s) = (if fiber_live (fsFibers s ! i) then fsFree s else of_nat i # fsFree s)"
    "fcStatus (fsFibers s ! i) \<noteq> Inactive \<Longrightarrow>
      filed (set (fsReady (fileFiber i s))) (fileFiber i s) (of_nat i) (fsFibers s ! i)"
  using bucket_push [OF wheel, of "fcWakeTick (fsFibers s ! i)"]
  by (cases "fcStatus (fsFibers s ! i)";
      simp add: fileFiber_def Let_def fiber_live_def wheel filed_def;
      fastforce simp: bucket_def)+

definition filing :: "nat \<Rightarrow> FiberScheduler \<Rightarrow> FiberScheduler \<Rightarrow> bool" where
  "filing n s s' \<longleftrightarrow>
     fsFibers s' = fsFibers s \<and> fsTick s' = fsTick s \<and> fsPrograms s' = fsPrograms s \<and>
     length (fsWheel s') = WHEEL_SLOTS \<and> distinct (fsFree s') \<and>
     (\<forall>i \<in> {1..<n}. fcStatus (fsFibers s ! i) \<noteq> Inactive \<longrightarrow>
        filed (set (fsReady s')) s' (of_nat i) (fsFibers s ! i)) \<and>
     set (fsFree s') = {of_nat i | i. i \<in> {1..<n} \<and> \<not> fiber_live (fsFibers s ! i)}"

lemma filing_step:
  assumes fil: "filing n s s'" and n: "1 \<le> n" "n < 2 ^ 32"
  shows "filing (Suc n) s (fileFiber n s')"
proof -
  have wheel: "length (fsWheel s') = WHEEL_SLOTS" and same: "fsFibers s' = fsFibers s"
    using fil by (simp_all add: filing_def)
  note eff = fileFiber_effect [OF wheel, where i = n]
  have fresh: "of_nat n \<notin> set (fsFree s')"
  proof
    assume "of_nat n \<in> set (fsFree s')"
    then obtain j where "j < n" "(of_nat n :: u32) = of_nat j" using fil by (auto simp: filing_def)
    then show False using n by (metis less_irrefl less_trans unat_of_nat_u32)
  qed
  have "filed (set (fsReady (fileFiber n s'))) (fileFiber n s') (of_nat i) (fsFibers s ! i)"
    if "i \<in> {1..<Suc n}" "fcStatus (fsFibers s ! i) \<noteq> Inactive" for i
  proof (cases "i = n")
    case False
    with that fil have "filed (set (fsReady s')) s' (of_nat i) (fsFibers s ! i)" by (simp add: filing_def)
    then show ?thesis using eff by (rule_tac filed_grow) auto
  qed (use that eff(9) same in simp)
  moreover have "set (fsFree (fileFiber n s')) =
      {of_nat i | i. i \<in> {1..<Suc n} \<and> \<not> fiber_live (fsFibers s ! i)}"
    using fil n(1) unfolding eff(8) same filing_def by (auto simp: less_Suc_eq)
  ultimately show ?thesis
    using fil eff fresh unfolding filing_def by (auto simp: same)
qed

lemma filing_fold:
  assumes "filing 1 s s'" and "n \<le> 2 ^ 32" and "1 \<le> n"
  shows "filing n s (fold fileFiber [1..<n] s')"
  using assms(3,2)
proof (induction n rule: dec_induct)
  case (step n)
  then have "filing n s (fold fileFiber [1..<n] s')" by simp
  with filing_step [OF this] step show ?case by simp
qed (use assms in simp)

end
