(* ===== verification/Fiber_Kill.thy ===== *)
theory Fiber_Kill
  imports Fiber_Ticks
begin

text \<open>
  \<open>killFiberTree\<close> takes exactly the subtree: the depth-first recursion over the parent links
  terminates every live fiber that live fibers connect to the root, each once, and leaves all other
  fibers as they are. \<open>closed\<close> says that no killed fiber has a live child left.
\<close>

section \<open>Killing a tree of fibers\<close>

definition live_child :: "FiberScheduler \<Rightarrow> u32 \<Rightarrow> u32 \<Rightarrow> bool" where
  "live_child s p c \<longleftrightarrow>
     fiberKnown s c \<and> fiber_live (fiberAt s c) \<and> fcParentFiberId (fiberAt s c) = p"

definition killed :: "FiberScheduler \<Rightarrow> FiberScheduler \<Rightarrow> u32 set" where
  "killed s s' = {i. fiberKnown s i \<and> fiber_live (fiberAt s i) \<and> \<not> fiber_live (fiberAt s' i)}"

definition shrinks :: "FiberScheduler \<Rightarrow> FiberScheduler \<Rightarrow> bool" where
  "shrinks s s' \<longleftrightarrow>
     length (fsFibers s') = length (fsFibers s) \<and>
     (\<forall>i. fiberKnown s i \<longrightarrow> fiberAt s' i = fiberAt s i \<or>
        fiber_live (fiberAt s i) \<and>
        fiberAt s' i = (fiberAt s i)\<lparr>fcStatus := Terminated, fcUnbreakable := False\<rparr>) \<and>
     (\<exists>xs. fsFree s' = xs @ fsFree s \<and> distinct xs \<and> set xs = killed s s')"

definition closed :: "FiberScheduler \<Rightarrow> FiberScheduler \<Rightarrow> bool" where
  "closed s s' \<longleftrightarrow> (\<forall>x \<in> killed s s'. \<forall>c. \<not> live_child s' x c)"

lemma shrinks_at:
  assumes "shrinks s s'" and "fiberKnown s i"
  shows "fiberAt s' i = fiberAt s i \<or> fiber_live (fiberAt s i) \<and>
      fiberAt s' i = (fiberAt s i)\<lparr>fcStatus := Terminated, fcUnbreakable := False\<rparr>"
  using assms by (simp add: shrinks_def)

lemma dead_after: "\<not> fiber_live (f\<lparr>fcStatus := Terminated, fcUnbreakable := b\<rparr>)"
  by (simp add: fiber_live_def)

lemma killed_same [simp]: "killed s s = {}"
  by (auto simp: killed_def)

lemma shrinks_refl: "shrinks s s"
  by (simp add: shrinks_def)

lemma shrinks_known: "shrinks s s' \<Longrightarrow> fiberKnown s' i = fiberKnown s i"
  by (rule fiberKnown_cong) (simp add: shrinks_def)

lemma shrinks_child: "shrinks s s' \<Longrightarrow> live_child s' p c \<Longrightarrow> live_child s p c"
  by (fastforce simp: shrinks_def live_child_def fiberKnown_def fiber_live_def)

lemma shrinks_dead: "shrinks s s' \<Longrightarrow> fiberKnown s i \<Longrightarrow> \<not> fiber_live (fiberAt s i) \<Longrightarrow> \<not> fiber_live (fiberAt s' i)"
  by (auto simp: shrinks_def)

lemma killed_trans:
  assumes "shrinks s s1" and "shrinks s1 s2"
  shows "killed s s2 = killed s1 s2 \<union> killed s s1" and "killed s1 s2 \<inter> killed s s1 = {}"
proof -
  have "fiber_live (fiberAt s i)" if "fiber_live (fiberAt s1 i)" "fiberKnown s i" for i
    using that shrinks_dead [OF assms(1)] by blast
  then show "killed s s2 = killed s1 s2 \<union> killed s s1"
    using shrinks_dead [OF assms(2)] by (auto simp: killed_def shrinks_known [OF assms(1)])
qed (auto simp: killed_def)

lemma shrinks_trans:
  assumes "shrinks s s1" and "shrinks s1 s2"
  shows "shrinks s s2"
proof -
  note a = assms(1) [unfolded shrinks_def] and b = assms(2) [unfolded shrinks_def]
  have "fiberAt s2 i = fiberAt s i \<or> fiber_live (fiberAt s i) \<and>
      fiberAt s2 i = (fiberAt s i)\<lparr>fcStatus := Terminated, fcUnbreakable := False\<rparr>" if "fiberKnown s i" for i
    using shrinks_at [OF assms(1) that] shrinks_at [OF assms(2), of i] that
      shrinks_known [OF assms(1), of i] by (auto simp: dead_after)
  moreover have "\<exists>xs. fsFree s2 = xs @ fsFree s \<and> distinct xs \<and> set xs = killed s s2"
  proof -
    obtain xs ys where "fsFree s1 = xs @ fsFree s" "distinct xs" "set xs = killed s s1"
        "fsFree s2 = ys @ fsFree s1" "distinct ys" "set ys = killed s1 s2" using a b by blast
    then show ?thesis
      using killed_trans [OF assms] by (intro exI [of _ "ys @ xs"]) auto
  qed
  ultimately show ?thesis using a b unfolding shrinks_def by auto
qed

lemma closed_trans:
  assumes "shrinks s s1" and "shrinks s1 s2" and "closed s s1" and "closed s1 s2"
  shows "closed s s2"
  using assms(3,4) shrinks_child [OF assms(2)]
  unfolding closed_def killed_trans(1) [OF assms(1,2)] by blast

lemma terminate_shrinks:
  assumes "fiberKnown s r" and "fiber_live (fiberAt s r)"
  shows "shrinks s (terminateFiber r s)" and "killed s (terminateFiber r s) = {r}"
proof -
  have at: "fiberAt (terminateFiber r s) i = (if r = i
      then (fiberAt s r)\<lparr>fcStatus := Terminated, fcUnbreakable := False\<rparr> else fiberAt s i)" for i
    using assms(1) by (intro fiberAt_updated) (simp_all add: fsFibers_terminate fiberAt_def)
  show killed: "killed s (terminateFiber r s) = {r}"
    using assms by (auto simp: killed_def at dead_after)
  show "shrinks s (terminateFiber r s)"
    unfolding shrinks_def killed using assms(2) by (auto simp: at)
qed

lemma reach_shrinks:
  assumes "shrinks s s1" and "(live_child s1)\<^sup>*\<^sup>* r i"
  shows "(live_child s)\<^sup>*\<^sup>* r i"
  using assms(2) by (rule rtranclp_mono [THEN predicate2D, rotated]) (use shrinks_child [OF assms(1)] in blast)

lemma isLiveChild_conv:
  assumes "length (fsFibers s) \<le> 2 ^ 32" and "1 \<le> i" and "i < length (fsFibers s)"
  shows "isLiveChild r i s = live_child s r (of_nat i)" and "fiberKnown s (of_nat i)"
proof -
  have unat: "unat (of_nat i :: u32) = i" using assms by (intro unat_of_nat_u32) simp
  then have "(of_nat i :: u32) \<noteq> 0" using assms(2) by (metis not_one_le_zero unat_0)
  with unat assms(3) show "fiberKnown s (of_nat i)" by (simp add: fiberKnown_def)
  with unat show "isLiveChild r i s = live_child s r (of_nat i)"
    by (auto simp: isLiveChild_def live_child_def fiberAt_def)
qed

lemma kill_exact:
  "length (fsFibers s) \<le> 2 ^ 32 \<Longrightarrow>
   shrinks s (killFiberTree r s) \<and> closed s (killFiberTree r s) \<and>
   (\<forall>i \<in> killed s (killFiberTree r s). (live_child s)\<^sup>*\<^sup>* r i) \<and>
   (fiberKnown s r \<and> fiber_live (fiberAt s r) \<longrightarrow> r \<in> killed s (killFiberTree r s))"
  "length (fsFibers s) \<le> 2 ^ 32 \<Longrightarrow> set is \<subseteq> {1..<length (fsFibers s)} \<Longrightarrow>
   shrinks s (killChildren r is s) \<and> closed s (killChildren r is s) \<and>
   (\<forall>i \<in> killed s (killChildren r is s). (live_child s)\<^sup>*\<^sup>* r i) \<and>
   (\<forall>i \<in> set is. \<not> live_child (killChildren r is s) r (of_nat i))"
proof (induction r s and r "is" s rule: killFiberTree_killChildren.induct)
  case (1 root s)
  show ?case
  proof (cases "fiberKnown s root \<and> fiber_live (fiberAt s root)")
    case False
    then have "killFiberTree root s = s" by (subst killFiberTree.simps) auto
    with False show ?thesis by (simp add: shrinks_refl closed_def)
  next
    case True
    let ?t = "terminateFiber root s" and ?is = "[1..<length (fsFibers s)]"
    let ?s' = "killChildren root ?is ?t"
    have eq: "killFiberTree root s = ?s'" using True by (subst killFiberTree.simps) simp
    note t = terminate_shrinks [of s root]
    have IH: "shrinks ?t ?s'" "closed ?t ?s'" "\<forall>i \<in> killed ?t ?s'. (live_child ?t)\<^sup>*\<^sup>* root i"
        "\<forall>i \<in> set ?is. \<not> live_child ?s' root (of_nat i)"
      using 1 True by simp_all
    have shr: "shrinks s ?t" and kt: "killed s ?t = {root}" using t True by simp_all
    have K: "killed s ?s' = insert root (killed ?t ?s')"
      using killed_trans(1) [OF shr IH(1)] kt by simp
    have "\<not> live_child ?s' root c" for c
    proof
      assume c: "live_child ?s' root c"
      then have "unat c \<in> set ?is" using shrinks_known [OF shrinks_trans [OF shr IH(1)], of c]
        by (auto simp: live_child_def fiberKnown_def unat_gt_0 Suc_le_eq)
      with IH(4) have "\<not> live_child ?s' root (of_nat (unat c))" by blast
      with c show False by simp
    qed
    then have "closed s ?s'" using IH(2) unfolding closed_def K by blast
    moreover have "(live_child s)\<^sup>*\<^sup>* root i" if "i \<in> killed s ?s'" for i
      using that IH(3) reach_shrinks [OF shr] unfolding K by blast
    moreover have "root \<in> killed s ?s'" unfolding K by simp
    ultimately show ?thesis
      unfolding eq using shrinks_trans [OF shr IH(1)] by blast
  qed
next
  case (2 root s)
  show ?case by (simp add: shrinks_refl closed_def)
next
  case (3 root i "is" s)
  let ?s1 = "if isLiveChild root i s then killFiberTree (of_nat i) s else s"
  let ?s2 = "killChildren root is ?s1"
  have i: "isLiveChild root i s = live_child s root (of_nat i)" "fiberKnown s (of_nat i)"
    using isLiveChild_conv [of s i] 3(3,4) by auto
  have first: "shrinks s ?s1 \<and> closed s ?s1 \<and> (\<forall>j \<in> killed s ?s1. (live_child s)\<^sup>*\<^sup>* root j) \<and>
      \<not> live_child ?s1 root (of_nat i)"
  proof (cases "isLiveChild root i s")
    case True
    then have child: "live_child s root (of_nat i)" using i(1) by simp
    then have live: "fiber_live (fiberAt s (of_nat i))" by (simp add: live_child_def)
    from True have s1: "?s1 = killFiberTree (of_nat i) s" by simp
    have IH: "shrinks s ?s1" "closed s ?s1" "\<forall>j \<in> killed s ?s1. (live_child s)\<^sup>*\<^sup>* (of_nat i) j"
        "of_nat i \<in> killed s ?s1"
      unfolding s1 using 3(1) [OF True 3(3)] i(2) live by blast+
    have "(live_child s)\<^sup>*\<^sup>* root j" if "j \<in> killed s ?s1" for j
      using IH(3) that child by (meson converse_rtranclp_into_rtranclp)
    moreover have "\<not> live_child ?s1 root (of_nat i)"
      using IH(4) by (simp add: live_child_def killed_def)
    ultimately show ?thesis using IH(1,2) by blast
  qed (use i in \<open>simp add: shrinks_refl closed_def\<close>)
  have len: "length (fsFibers ?s1) = length (fsFibers s)" using first by (simp add: shrinks_def)
  have second: "shrinks ?s1 ?s2 \<and> closed ?s1 ?s2 \<and> (\<forall>j \<in> killed ?s1 ?s2. (live_child ?s1)\<^sup>*\<^sup>* root j) \<and>
      (\<forall>j \<in> set is. \<not> live_child ?s2 root (of_nat j))"
    using 3(2) 3(3,4) len by auto
  have "shrinks s ?s2" "closed s ?s2" using first second shrinks_trans closed_trans by blast+
  moreover have "(live_child s)\<^sup>*\<^sup>* root j" if "j \<in> killed s ?s2" for j
    using that first second killed_trans(1) [of s ?s1 ?s2] reach_shrinks [of s ?s1] by blast
  moreover have "\<not> live_child ?s2 root (of_nat i)"
    using first second shrinks_child [of ?s1 ?s2] by blast
  ultimately show ?case using second by simp
qed

lemma kill_subtree:
  assumes len: "length (fsFibers s) \<le> 2 ^ 32" and r: "fiberKnown s r" "fiber_live (fiberAt s r)"
  shows "killed s (killFiberTree r s) = {i. (live_child s)\<^sup>*\<^sup>* r i}"
proof -
  let ?s' = "killFiberTree r s"
  have facts: "shrinks s ?s'" "closed s ?s'" "\<forall>i \<in> killed s ?s'. (live_child s)\<^sup>*\<^sup>* r i" "r \<in> killed s ?s'"
    using kill_exact(1) [OF len, of r] r by blast+
  have "i \<in> killed s ?s'" if "(live_child s)\<^sup>*\<^sup>* r i" for i
    using that
  proof induction
    case (step y z)
    have "\<not> live_child ?s' y z" using facts(2) step(3) by (simp add: closed_def)
    with step(2) shrinks_at [OF facts(1), of z] shrinks_known [OF facts(1), of z] show ?case
      by (auto simp: live_child_def killed_def dead_after)
  qed (rule facts(4))
  with facts(3) show ?thesis by blast
qed

end
