(* ===== verification/Fiber_Properties.thy ===== *)
theory Fiber_Properties
  imports Fiber_Kill "HOL-Library.Code_Target_Nat"
begin

text \<open>
  The properties of the fiber scheduler over all states its operations reach: no fiber is lost,
  sleeping fibers wake exactly on time, events ready exactly the fibers that wait for them, killing
  takes exactly the subtree, ticks end when no program forks, and snapshots rebuild the queues.
\<close>

section \<open>Reachable schedulers\<close>

inductive fiber_step :: "'h FiberHost option \<Rightarrow> FiberScheduler \<Rightarrow> FiberScheduler \<Rightarrow> bool"
  for host :: "'h FiberHost option" where
  register: "fiber_step host s (snd (registerProgram code s))"
| spawn: "fiber_step host s (snd (spawnFiberByProgram p pc e g parent seed s))"
| spawnStream: "fiber_step host s (snd (spawnFiber addr code pc e g parent seed s))"
| interrupt: "fiber_step host s (snd (interruptFiber i pc force s))"
| kill: "fiber_step host s (killFiberTree i s)"
| tick: "stepTick host t s h = Some (Defined (n, s', h')) \<Longrightarrow> fiber_step host s s'"
| event: "fiber_step host s (snd (notifyBlackboardEvent g c k v s))"

text \<open>
  A restored image comes from a reachable scheduler, possibly of another process. Identifiers are
  32-bit words, which bounds the number of fibers.
\<close>

inductive fiber_reach :: "'h FiberHost option \<Rightarrow> FiberScheduler \<Rightarrow> bool"
  for host :: "'h FiberHost option" where
  new: "fiber_reach host newScheduler"
| step: "fiber_reach host s \<Longrightarrow> fiber_step host s s' \<Longrightarrow> length (fsFibers s') \<le> 2 ^ 32 \<Longrightarrow>
    fiber_reach host s'"
| restored: "fiber_reach host s \<Longrightarrow> fiber_reach host saved \<Longrightarrow> length (fsFibers saved) < 2 ^ 32 \<Longrightarrow>
    fiber_reach host (restoreBinarySnapshot sz (captureBinarySnapshot sz saved) s)"

lemma fs_inv_new: "fs_inv (set (fsReady newScheduler)) newScheduler"
proof -
  have "\<not> fiberKnown newScheduler i" for i
    by (auto simp: fiberKnown_def newScheduler_def unat_eq_zero)
  then show ?thesis by (simp add: fs_inv_def) (simp add: newScheduler_def newFiber_def)
qed

lemma fs_inv_spawnByProgram:
  assumes "fs_inv (set (fsReady s)) s"
    and "length (fsFibers (snd (spawnFiberByProgram p pc e g parent seed s))) \<le> 2 ^ 32"
  shows "fs_inv (set (fsReady (snd (spawnFiberByProgram p pc e g parent seed s))))
    (snd (spawnFiberByProgram p pc e g parent seed s))"
proof -
  let ?s' = "snd (spawnFiberByProgram p pc e g parent seed s)"
  obtain c where run: "spawnFiberByProgram p pc e g parent seed s = (c, ?s')" using spawned_next by blast
  note room = spawn_room [OF assms(2)]
  from spawn_effect [OF assms(1) room run] show ?thesis by (simp add: spawned_def)
qed

lemma spawnFiber_conv:
  "\<exists>p ps cs. spawnFiber addr code pc e g parent seed s =
     spawnFiberByProgram p pc e g parent seed (s\<lparr>fsPrograms := ps, fsStreams := cs\<rparr>) \<and>
     (ps = fsPrograms s \<or> ps = fsPrograms s @ [code])"
proof -
  have "s\<lparr>fsPrograms := fsPrograms s, fsStreams := fsStreams s\<rparr> = s" by simp
  then have "spawnFiber addr code pc e g parent seed s =
      spawnFiberByProgram (of_nat (findStream addr 1 (drop 1 (fsStreams s)))) pc e g parent seed
        (s\<lparr>fsPrograms := fsPrograms s, fsStreams := fsStreams s\<rparr>) \<or>
    spawnFiber addr code pc e g parent seed s =
      spawnFiberByProgram (of_nat (length (fsPrograms s))) pc e g parent seed
        (s\<lparr>fsPrograms := fsPrograms s @ [code], fsStreams := fsStreams s @ [Some addr]\<rparr>)"
    by (simp add: spawnFiber_def Let_def)
  then show ?thesis by blast
qed

lemma fs_inv_spawnFiber:
  assumes inv: "fs_inv (set (fsReady s)) s"
    and room: "length (fsFibers (snd (spawnFiber addr code pc e g parent seed s))) \<le> 2 ^ 32"
  shows "fs_inv (set (fsReady (snd (spawnFiber addr code pc e g parent seed s))))
    (snd (spawnFiber addr code pc e g parent seed s))"
proof -
  obtain p ps cs where eq: "spawnFiber addr code pc e g parent seed s =
      spawnFiberByProgram p pc e g parent seed (s\<lparr>fsPrograms := ps, fsStreams := cs\<rparr>)"
    using spawnFiber_conv by blast
  have "fs_inv (set (fsReady s)) (s\<lparr>fsPrograms := ps, fsStreams := cs\<rparr>)" by (rule fs_inv_register [OF inv])
  with room show ?thesis unfolding eq by (intro fs_inv_spawnByProgram) simp_all
qed

lemma restore_effect:
  fixes sz :: nat
  assumes inv: "fs_inv Q saved" and len: "length (fsFibers saved) < 2 ^ 32"
    and wheel: "length (fsWheel s) = WHEEL_SLOTS"
  defines "s' \<equiv> restoreBinarySnapshot sz (captureBinarySnapshot sz saved) s"
  shows "fsFibers s' = fsFibers saved" and "fsTick s' = fsTick saved" and "fsPrograms s' = fsPrograms s"
    and "fs_inv (set (fsReady s')) s'"
proof -
  let ?n = "length (fsFibers saved)"
  let ?base = "s\<lparr>fsTick := fsTick saved, fsFibers := fsFibers saved, fsReady := [], fsWaiting := [],
      fsFree := [], fsWheel := map (\<lambda>_. []) (fsWheel s)\<rparr>"
  note parts = inv [unfolded fs_inv_def]
  have unat: "unat (of_nat ?n :: u32) = ?n" by (rule unat_of_nat_u32 [OF len])
  have eq: "s' = fold fileFiber [1..<?n] ?base"
    by (simp add: s'_def restoreBinarySnapshot_def captureBinarySnapshot_def Let_def unat)
  have "filing 1 ?base ?base" using wheel by (simp add: filing_def)
  then have fil: "filing ?n ?base s'"
    unfolding eq by (rule filing_fold) (use len parts in \<open>auto simp: Suc_le_eq\<close>)
  then show same: "fsFibers s' = fsFibers saved" "fsTick s' = fsTick saved" "fsPrograms s' = fsPrograms s"
    by (simp_all add: filing_def)
  have knows: "fiberKnown s' i = fiberKnown saved i" and at: "fiberAt s' i = fiberAt saved i" for i
    by (simp_all add: fiberKnown_def fiberAt_def same)
  have "filed (set (fsReady s')) s' i (fiberAt saved i)" if i: "fiberKnown saved i" for i
  proof -
    have "fcStatus (fiberAt saved i) \<noteq> Inactive" using parts i by (fastforce simp: filed_def)
    moreover have "unat i \<in> {1..<?n}" using i by (auto simp: fiberKnown_def unat_gt_0 Suc_le_eq)
    moreover have "\<forall>k \<in> {1..<?n}. fcStatus (fsFibers saved ! k) \<noteq> Inactive \<longrightarrow>
        filed (set (fsReady s')) s' (of_nat k) (fsFibers saved ! k)"
      using fil by (simp add: filing_def)
    ultimately have "filed (set (fsReady s')) s' (of_nat (unat i)) (fsFibers saved ! unat i)"
      unfolding fiberAt_def by blast
    then show ?thesis by (simp add: fiberAt_def)
  qed
  moreover have "fiberKnown saved i \<and> fcStatus (fiberAt saved i) = Terminated" if "i \<in> set (fsFree s')" for i
  proof -
    have "set (fsFree s') = {of_nat k | k. k \<in> {1..<?n} \<and> \<not> fiber_live (fsFibers saved ! k)}"
      using fil by (simp add: filing_def)
    with that obtain k where k: "i = of_nat k" "k \<in> {1..<?n}" "\<not> fiber_live (fsFibers saved ! k)"
      by blast
    have "unat i = k" unfolding k(1) using k(2) len by (intro unat_of_nat_u32) simp
    with k have i: "fiberKnown saved i" "\<not> fiber_live (fiberAt saved i)"
      by (auto simp: fiberKnown_def fiberAt_def unat_gt_0 [symmetric])
    with parts have "filed Q saved i (fiberAt saved i)" by blast
    with i show ?thesis by (auto simp: fiber_live_def filed_def)
  qed
  ultimately show "fs_inv (set (fsReady s')) s'"
    using parts fil unfolding fs_inv_def by (simp add: same knows at filing_def)
qed

lemma fs_inv_step:
  assumes "fiber_step host s s'" and "fs_inv (set (fsReady s)) s" and "callbacks_ok host"
    and "length (fsFibers s') \<le> 2 ^ 32"
  shows "fs_inv (set (fsReady s')) s'"
  using assms
proof cases
  case (register code)
  with assms(2) show ?thesis by (simp add: registerProgram_def fs_inv_register)
next
  case (kill i)
  with fs_inv_kill_any(1) [OF assms(2)] show ?thesis by simp
next
  case (tick t h n h')
  show ?thesis by (rule stepTick_inv(1) [where J = "\<lambda>_. True", OF assms(2,3) tick assms(4)]) simp_all
next
  case (event g c k v)
  with fs_inv_notify [OF assms(2) prod.collapse [symmetric]] show ?thesis by simp
qed (use assms fs_inv_spawnByProgram fs_inv_spawnFiber fs_inv_interrupt in simp_all)

lemma fiber_reach_inv:
  assumes "fiber_reach host s" and "callbacks_ok host"
  shows "fs_inv (set (fsReady s)) s"
  using assms
proof induction
  case new
  show ?case by (rule fs_inv_new)
next
  case (step s s')
  from step.IH [OF step.prems] step.prems show ?case
    by (rule fs_inv_step [OF step.hyps(2) _ _ step.hyps(3)])
next
  case (restored s saved sz)
  then have "fs_inv (set (fsReady saved)) saved" "length (fsWheel s) = WHEEL_SLOTS"
    using fs_inv_length(3) by blast+
  with restored(3) show ?case by (intro restore_effect(4))
qed

section \<open>Sleeping on the wheel\<close>

definition timely :: "u32 \<Rightarrow> FiberScheduler \<Rightarrow> bool" where
  "timely t s \<longleftrightarrow>
     (\<forall>i. fiberKnown s i \<longrightarrow> fcStatus (fiberAt s i) = SleepingTicks \<longrightarrow> t < fcWakeTick (fiberAt s i))"

lemma timely_from:
  assumes "timely t s"
    and "\<And>i. fiberKnown s' i \<Longrightarrow> fcStatus (fiberAt s' i) = SleepingTicks \<Longrightarrow>
      fiberKnown s i \<and> fiberAt s' i = fiberAt s i \<or> t < fcWakeTick (fiberAt s' i)"
  shows "timely t s'"
  using assms unfolding timely_def by metis

lemma fiberAt_schedule:
  assumes "fiberKnown s i"
  shows "fiberAt (scheduleAtTick i t (setFiber i f s)) j =
    (if i = j then f\<lparr>fcStatus := SleepingTicks, fcWakeTick := t\<rparr> else fiberAt s j)"
proof -
  have "fiberAt (scheduleAtTick i t (setFiber i f s)) j = (if i = j
      then (fiberAt (setFiber i f s) i)\<lparr>fcStatus := SleepingTicks, fcWakeTick := t\<rparr> else fiberAt (setFiber i f s) j)"
    using assms by (intro fiberAt_updated) simp_all
  with assms show ?thesis by (auto simp: fiberAt_setFiber)
qed

lemma later_tick:
  fixes t w :: u32
  assumes "unat t < 2 ^ 31" and "0 < unat w" and "unat w < 2 ^ 31"
  shows "t < t + w"
proof -
  have "unat (t + w) = unat t + unat w" using assms by (intro unat_add_lem [THEN iffD1]) simp
  with assms show ?thesis by (simp add: word_less_nat_alt)
qed

lemma spawned_timely:
  assumes "spawned c s s'" and "timely t s"
  shows "timely t s'"
  using assms(2)
proof (rule timely_from)
  fix i assume "fiberKnown s' i" "fcStatus (fiberAt s' i) = SleepingTicks"
  then have "i \<noteq> c" using assms(1) by (auto simp: spawned_def)
  with \<open>fiberKnown s' i\<close> assms(1) show "fiberKnown s i \<and> fiberAt s' i = fiberAt s i \<or> t < fcWakeTick (fiberAt s' i)"
    by (auto simp: spawned_def)
qed

lemma kill_timely:
  assumes "timely t s" and "length (fsFibers s) \<le> 2 ^ 32"
  shows "timely t (killFiberTree r s)"
  using assms(1)
proof (rule timely_from)
  let ?s' = "killFiberTree r s"
  have shr: "shrinks s ?s'" using kill_exact(1) [OF assms(2)] by blast
  fix i assume i: "fiberKnown ?s' i" "fcStatus (fiberAt ?s' i) = SleepingTicks"
  then have "fiberKnown s i" using shrinks_known [OF shr] by blast
  with shrinks_at [OF shr this] i(2)
  show "fiberKnown s i \<and> fiberAt ?s' i = fiberAt s i \<or> t < fcWakeTick (fiberAt ?s' i)" by auto
qed

lemma setFiber_timely:
  assumes "timely t s" and "fiberKnown s i" and "fcStatus f \<noteq> SleepingTicks"
  shows "timely t (setFiber i f s)"
  using assms(1) by (rule timely_from) (use assms(2,3) in \<open>auto simp: fiberAt_setFiber split: if_splits\<close>)

lemma schedule_timely:
  assumes "timely t s" and "fiberKnown s i" and "t < u"
  shows "timely t (scheduleAtTick i u (setFiber i f s))"
  using assms(1)
  by (rule timely_from) (use assms(2,3) in \<open>auto simp: fiberAt_schedule fiberKnown_def split: if_splits\<close>)

lemma departs_timely:
  assumes inv: "fs_inv Q s" and i: "fiberKnown s i" "fcStatus (fiberAt s i) = Ready"
    and dep: "departs short forking t i s s'" and short: "short"
    and room: "length (fsFibers s') \<le> 2 ^ 32" and t: "unat t < 2 ^ 31" and timely: "timely t s"
  shows "timely t s'"
proof -
  consider (yield) "yields short t i s s'" | (await) "awaits i s s'" | (fork) "forks t i s s'"
    | (kill) f where "fcStatus f = Ready" "s' = killFiberTree i (setFiber i f s)"
    using dep unfolding departs_def by blast
  then show ?thesis
  proof cases
    case yield
    then obtain f w where "0 < unat w" "unat w < 2 ^ 31" "s' = scheduleAtTick i (t + w) (setFiber i f s)"
      using short unfolding yields_def by blast
    with schedule_timely [OF timely i(1) later_tick [OF t]] show ?thesis by blast
  next
    case await
    then obtain f where "fcStatus f = WaitingPredicate" "s' = (setFiber i f s)\<lparr>fsWaiting := fsWaiting s @ [i]\<rparr>"
      unfolding awaits_def by blast
    with setFiber_timely [OF timely i(1), of f] show ?thesis
      by (simp add: timely_def fiberKnown_def fiberAt_def)
  next
    case fork
    then obtain f p pc e g seed where f: "fiber_ok i f" "fcStatus f = Ready"
        and s': "s' = snd (spawnFiberByProgram p pc e g i seed (scheduleAtTick i (t + 1) (setFiber i f s)))"
      unfolding forks_def by blast
    let ?s1 = "scheduleAtTick i (t + 1) (setFiber i f s)"
    have inv1: "fs_inv (Q - {i}) ?s1"
      using fs_inv_rewrite [OF inv i f] i(1) f
      by (intro fs_inv_schedule) (simp_all add: fiberAt_setFiber fiber_live_def)
    obtain c where run: "spawnFiberByProgram p pc e g i seed ?s1 = (c, s')" using spawned_next s' by metis
    have room1: "fsFree ?s1 = [] \<Longrightarrow> length (fsFibers ?s1) < 2 ^ 32"
      using spawn_room room unfolding s' by blast
    have "spawned c ?s1 s'" by (rule spawn_effect(1) [OF inv1 room1 run])
    moreover have "timely t ?s1" by (intro schedule_timely timely i(1) later_tick [OF t]) simp_all
    ultimately show ?thesis by (rule spawned_timely)
  next
    case kill
    have "timely t (setFiber i f s)" using kill(1) by (intro setFiber_timely timely i(1)) simp
    with kill(2) show ?thesis using fs_inv_length(2) [OF inv] by (simp add: kill_timely)
  qed
qed

lemma wake_timely:
  assumes inv: "fs_inv Q s" and timely: "timely t0 s" and t: "t = t0 \<or> t = t0 + 1"
    and i: "fiberKnown s i"
  shows "fcStatus (fiberAt (wakeDue t s) i) =
      (if fcStatus (fiberAt s i) = SleepingTicks \<and> fcWakeTick (fiberAt s i) = t then Ready
       else fcStatus (fiberAt s i))"
    and "fcStatus (fiberAt s i) = SleepingTicks \<Longrightarrow> t \<le> fcWakeTick (fiberAt s i)"
    and "fcWakeTick (fiberAt (wakeDue t s) i) = fcWakeTick (fiberAt s i)"
proof -
  note eff = wakeDue_effect(1) [OF fs_inv_length(3) [OF inv], where t = t, unfolded wake_effect_def]
  have at: "fiberAt (wakeDue t s) i = (if i \<in> set (bucket s t) \<and> fiber_due t (fiberAt s i)
      then (fiberAt s i)\<lparr>fcStatus := Ready\<rparr> else fiberAt s i)"
    using eff i by (simp add: fiberKnown_def)
  show late: "t \<le> fcWakeTick (fiberAt s i)" if "fcStatus (fiberAt s i) = SleepingTicks"
    using timely i that t inc_le [of t0] by (auto simp: timely_def)
  have "i \<in> set (bucket s t)" if "fcStatus (fiberAt s i) = SleepingTicks" "fcWakeTick (fiberAt s i) = t"
    using inv i that by (fastforce simp: fs_inv_def filed_def)
  with late at show "fcStatus (fiberAt (wakeDue t s) i) =
      (if fcStatus (fiberAt s i) = SleepingTicks \<and> fcWakeTick (fiberAt s i) = t then Ready
       else fcStatus (fiberAt s i))"
    by (auto simp: fiber_due_def)
  show "fcWakeTick (fiberAt (wakeDue t s) i) = fcWakeTick (fiberAt s i)" by (simp add: at)
qed

text \<open>
  A timely run steps through consecutive ticks below \<open>2 ^ 31\<close> and registers only programs whose
  constant waits are below \<open>2 ^ 31\<close>, so that no wake tick wraps around.
\<close>

inductive timely_run :: "'h FiberHost option \<Rightarrow> FiberScheduler \<Rightarrow> bool"
  for host :: "'h FiberHost option" where
  new: "timely_run host newScheduler"
| step: "timely_run host s \<Longrightarrow> fiber_step host s s' \<Longrightarrow> fsTick s' = fsTick s \<or> fsTick s' = fsTick s + 1 \<Longrightarrow>
    unat (fsTick s') < 2 ^ 31 \<Longrightarrow> list_all short_code (fsPrograms s') \<Longrightarrow>
    length (fsFibers s') \<le> 2 ^ 32 \<Longrightarrow> timely_run host s'"
| restored: "timely_run host s \<Longrightarrow> timely_run host saved \<Longrightarrow> length (fsFibers saved) < 2 ^ 32 \<Longrightarrow>
    timely_run host (restoreBinarySnapshot sz (captureBinarySnapshot sz saved) s)"

lemma timely_reach: "timely_run host s \<Longrightarrow> fiber_reach host s"
  by (induction rule: timely_run.induct) (auto intro: fiber_reach.intros)

lemma timely_short: "timely_run host s \<Longrightarrow> callbacks_ok host \<Longrightarrow> list_all short_code (fsPrograms s)"
proof (induction rule: timely_run.induct)
  case (restored s saved sz)
  have "fs_inv (set (fsReady saved)) saved" "length (fsWheel s) = WHEEL_SLOTS"
    using restored fiber_reach_inv timely_reach fs_inv_length(3) by blast+
  with restored show ?case by (simp add: restore_effect(3))
qed (simp_all add: newScheduler_def short_code_def)

lemma quiet_timely:
  assumes "timely t s" and "fsFibers s' = fsFibers s"
  shows "timely t s'"
  using assms by (simp add: timely_def fiberKnown_def fiberAt_def)

lemma interrupt_timely:
  assumes timely: "timely t s"
  shows "timely t (snd (interruptFiber i pc force s))"
proof (cases "interrupts i force s")
  case True
  note fibers = interrupt_fibers [OF True, of pc]
  have "timely t (setFiber i ((fiberAt s i)\<lparr>fcPc := pc, fcCallDepth := 0, fcWaitChannel := 0,
      fcStatus := Ready\<rparr>) s)"
    using True by (intro setFiber_timely timely) (simp_all add: interrupts_def)
  then show ?thesis by (rule quiet_timely) (simp add: fibers)
qed (simp add: timely interrupt_refused)

lemma notify_timely:
  assumes timely: "timely t s" and run: "notifyBlackboardEvent g c k v s = (woken, s')"
  shows "timely t s'"
  using timely
proof (rule timely_from)
  fix i assume i: "fiberKnown s' i" "fcStatus (fiberAt s' i) = SleepingTicks"
  obtain ys where "notify_effect (eventMatches g c k v) (set (fsWaiting s)) ys s s'"
    using run by (rule notify_result)
  note eff = this [unfolded notify_effect_def]
  have "fiberKnown s i" using i(1) eff fiberKnown_cong by metis
  then show "fiberKnown s i \<and> fiberAt s' i = fiberAt s i \<or> t < fcWakeTick (fiberAt s' i)"
    using eff i(2) by (auto split: if_splits)
qed

lemma spawnByProgram_timely:
  assumes "fs_inv Q s" and "timely t s"
    and "length (fsFibers (snd (spawnFiberByProgram p pc e g parent seed s))) \<le> 2 ^ 32"
  shows "timely t (snd (spawnFiberByProgram p pc e g parent seed s))"
proof -
  obtain c where run: "spawnFiberByProgram p pc e g parent seed s =
      (c, snd (spawnFiberByProgram p pc e g parent seed s))" using spawned_next by blast
  have "spawned c s (snd (spawnFiberByProgram p pc e g parent seed s))"
    by (rule spawn_effect(1) [OF assms(1) spawn_room [OF assms(3)] run])
  then show ?thesis using assms(2) by (rule spawned_timely)
qed

lemma timely_step:
  assumes step: "fiber_step host s s'" and inv: "fs_inv (set (fsReady s)) s" and host: "callbacks_ok host"
    and timely: "timely (fsTick s) s" and tick: "fsTick s' = fsTick s \<or> fsTick s' = fsTick s + 1"
    and bound: "unat (fsTick s') < 2 ^ 31" and room: "length (fsFibers s') \<le> 2 ^ 32"
    and short: "list_all short_code (fsPrograms s')"
  shows "timely (fsTick s') s'"
  using step
proof cases
  case (register code)
  with timely show ?thesis by (auto simp: registerProgram_def intro: quiet_timely)
next
  case (spawn p pc e g parent seed)
  have "fsTick s' = fsTick s" unfolding spawn by (simp add: spawnFiberByProgram_def Let_def split: list.splits)
  then show ?thesis using spawnByProgram_timely [OF inv timely] room unfolding spawn by simp
next
  case (spawnStream addr code pc e g parent seed)
  obtain p ps cs where eq: "s' = snd (spawnFiberByProgram p pc e g parent seed (s\<lparr>fsPrograms := ps, fsStreams := cs\<rparr>))"
    using spawnFiber_conv spawnStream by metis
  have "fsTick s' = fsTick s" unfolding eq by (simp add: spawnFiberByProgram_def Let_def split: list.splits)
  moreover have "timely (fsTick s) (s\<lparr>fsPrograms := ps, fsStreams := cs\<rparr>)"
    using timely by (rule quiet_timely) simp
  ultimately show ?thesis
    using spawnByProgram_timely [OF fs_inv_register [OF inv]] room unfolding eq by simp
next
  case (interrupt i pc force)
  have "fsTick s' = fsTick s" unfolding interrupt by (simp add: interruptFiber_def Let_def)
  then show ?thesis using interrupt_timely [OF timely] unfolding interrupt by simp
next
  case (kill i)
  then show ?thesis using kill_timely [OF timely fs_inv_length(2) [OF inv]] by simp
next
  case (tick t h n h')
  let ?J = "\<lambda>s. timely t s \<and> list_all short_code (fsPrograms s)"
  let ?s0 = "s\<lparr>fsTick := t\<rparr>"
  have t: "fsTick s' = t" "fsPrograms s' = fsPrograms s"
    by (rule stepTick_inv(2,3) [where J = "\<lambda>_. True", OF inv host tick(1) room]; simp)+
  have keeps: "?J s2" if "fs_inv Q s1" "fiberKnown s1 i" "fcStatus (fiberAt s1 i) = Ready"
    "departs (list_all short_code (fsPrograms s1)) (list_ex forking_code (fsPrograms s1)) t i s1 s2"
    "length (fsFibers s2) \<le> 2 ^ 32" "?J s1" for Q i s1 s2
  proof -
    have "timely t s2"
      by (rule departs_timely [OF that(1-4) _ that(5)]) (use that(6) bound t(1) in auto)
    moreover have "fsPrograms s2 = fsPrograms s1"
      using departs_inv [OF that(1-5)] by (simp add: slice_result_def)
    ultimately show ?thesis using that(6) by simp
  qed
  have inv0: "fs_inv (set (fsReady s)) ?s0" using inv by (simp add: fs_inv_tick)
  have timely0: "timely (fsTick s) ?s0" using timely by (rule quiet_timely) simp
  note wake = wake_timely [OF inv0 timely0, of t]
  have next_tick: "t = fsTick s \<or> t = fsTick s + 1" using assms(5) t(1) by simp
  have "timely t (wakeDue t ?s0)"
    unfolding timely_def
  proof (intro allI impI)
    fix i assume i: "fiberKnown (wakeDue t ?s0) i" "fcStatus (fiberAt (wakeDue t ?s0) i) = SleepingTicks"
    have known: "fiberKnown ?s0 i"
      using i(1) wakeDue_effect(1) [OF fs_inv_length(3) [OF inv0], where t = t]
      by (simp add: wake_effect_def fiberKnown_def)
    note wake' = wake [OF next_tick known]
    from i(2) wake'(1) have "fcStatus (fiberAt ?s0 i) = SleepingTicks" "fcWakeTick (fiberAt ?s0 i) \<noteq> t"
      by (auto split: if_splits)
    with wake'(2,3) show "t < fcWakeTick (fiberAt (wakeDue t ?s0) i)" by simp
  qed
  moreover have "list_all short_code (fsPrograms (wakeDue t ?s0))"
    using wakeDue_effect(1) [OF fs_inv_length(3) [OF inv0], where t = t] short t(2)
    by (simp add: wake_effect_def)
  ultimately have start: "?J (wakeDue t ?s0)" by blast
  have "\<exists>s1. ?J s1 \<and> s' = s1\<lparr>fsReady := []\<rparr>"
    by (rule stepTick_inv(4) [where J = ?J, OF inv host tick(1) room _ start]) (rule keeps)
  then obtain s1 where "?J s1" "s' = s1\<lparr>fsReady := []\<rparr>" by blast
  then show ?thesis using t(1) quiet_timely [of t s1 s'] by simp
next
  case (event g c k v)
  then obtain woken where run: "notifyBlackboardEvent g c k v s = (woken, s')" by (metis prod.collapse)
  obtain ys where "notify_effect (eventMatches g c k v) (set (fsWaiting s)) ys s s'"
    using run by (rule notify_result)
  then have "fsTick s' = fsTick s" by (simp add: notify_effect_def)
  then show ?thesis using notify_timely [OF timely run] by simp
qed

lemma timely_run_timely:
  assumes "timely_run host s" and "callbacks_ok host"
  shows "timely (fsTick s) s"
  using assms
proof induction
  case new
  show ?case by (auto simp: timely_def fiberKnown_def newScheduler_def unat_eq_zero)
next
  case (step s s')
  have inv: "fs_inv (set (fsReady s)) s"
    by (rule fiber_reach_inv [OF timely_reach [OF step.hyps(1)] step.prems])
  show ?case
    by (rule timely_step [OF step.hyps(2) inv step.prems step.IH [OF step.prems] step.hyps(3,4,6,5)])
next
  case (restored s saved sz)
  have inv: "fs_inv (set (fsReady saved)) saved" "length (fsWheel s) = WHEEL_SLOTS"
    using restored fiber_reach_inv timely_reach fs_inv_length(3) by blast+
  note eff = restore_effect [OF inv(1) restored.hyps(3) inv(2)]
  show ?case unfolding eff(2) using restored.IH(2) [OF restored.prems] by (rule quiet_timely) (rule eff(1))
qed

section \<open>Ticks without forks\<close>

lemma departs_length:
  assumes "departs short False t i s s'"
  shows "length (fsFibers s') = length (fsFibers s)"
  using assms unfolding departs_def yields_def awaits_def by auto

lemma drain_total:
  assumes "fs_inv (set (drop idx (fsReady s))) s" and "callbacks_ok host"
    and "\<not> list_ex forking_code (fsPrograms s)"
  shows "\<exists>r. drainReady host t idx n s h = Some r \<and>
    (\<forall>n' s' h'. r = Defined (n', s', h') \<longrightarrow> (\<exists>k \<le> 256 * (length (fsReady s) - idx). n' = n + of_nat k))"
  using assms
proof (induction "length (fsReady s) - idx" arbitrary: idx n s h)
  case 0
  then show ?case by (subst drainReady.simps) auto
next
  case (Suc m)
  let ?fid = "fsReady s ! idx"
  have idx: "idx < length (fsReady s)" and m: "m = length (fsReady s) - (idx + 1)" using Suc(2) by linarith+
  have split: "set (drop idx (fsReady s)) = insert ?fid (set (drop (idx + 1) (fsReady s)))"
    using idx by (simp add: Cons_nth_drop_Suc [symmetric])
  show ?case
  proof (cases "fiberKnown s ?fid \<and> fcStatus (fiberAt s ?fid) = Ready")
    case False
    have "fs_inv (set (drop (idx + 1) (fsReady s))) s"
      using fs_inv_not_ready [OF Suc(3) [unfolded split]] False by blast
    from Suc(1) [OF m this Suc(4,5), folded m] obtain r where "drainReady host t (idx + 1) n s h = Some r"
        "\<forall>n' s' h'. r = Defined (n', s', h') \<longrightarrow> (\<exists>k \<le> 256 * m. n' = n + of_nat k)" by blast
    moreover have "drainReady host t idx n s h = drainReady host t (idx + 1) n s h"
      using False idx by (subst drainReady.simps) (auto simp: Let_def)
    moreover have "\<exists>k \<le> 256 * (length (fsReady s) - idx). n' = n + of_nat k"
      if r: "r = Defined (n', s', h')" for n' s' h'
    proof -
      obtain k where "k \<le> 256 * m" "n' = n + of_nat k" using calculation(2) r by blast
      then show ?thesis using Suc(2) by (intro exI [of _ k]) linarith
    qed
    ultimately show ?thesis by auto
  next
    case True
    show ?thesis
    proof (cases "executeFiberSlice host t ?fid n s h")
      case Undefined
      then show ?thesis using True idx by (subst drainReady.simps) (simp add: Let_def)
    next
      case (Defined x)
      obtain n1 s1 h1 where x: "x = (n1, s1, h1)" by (cases x)
      have run: "executeFiberSlice host t ?fid n s h = Defined (n1, s1, h1)" using Defined x by simp
      have known: "fiberKnown s ?fid" "fcStatus (fiberAt s ?fid) = Ready" using True by simp_all
      obtain k where k: "k \<le> 256" "n1 = n + of_nat k"
        and dep: "departs (list_all short_code (fsPrograms s)) False t ?fid s s1"
        using slice_effect [OF run known(1) fs_inv_ok [OF Suc(3) known(1)] known(2) Suc(4)] Suc(5) by auto
      have "length (fsFibers s1) \<le> 2 ^ 32" using departs_length [OF dep] fs_inv_length(2) [OF Suc(3)] by simp
      from departs_inv [OF Suc(3) known dep this]
      have s1: "fsReady s1 = fsReady s" "fs_inv (set (drop idx (fsReady s)) - {?fid}) s1"
          "fsPrograms s1 = fsPrograms s"
        by (auto simp: slice_result_def)
      have inv1: "fs_inv (set (drop (idx + 1) (fsReady s1))) s1"
        using s1(2) by (rule fs_inv_mono) (use split s1(1) in auto)
      have m1: "m = length (fsReady s1) - (idx + 1)" and "\<not> list_ex forking_code (fsPrograms s1)"
        using m Suc(5) s1 by simp_all
      from Suc(1) [OF m1 inv1 Suc(4) this(2), folded m1]
      obtain r where r: "drainReady host t (idx + 1) n1 s1 h1 = Some r"
          "\<forall>n' s' h'. r = Defined (n', s', h') \<longrightarrow> (\<exists>k \<le> 256 * m. n' = n1 + of_nat k)"
        by blast
      have "drainReady host t idx n s h = Some r"
        using r(1) run known idx by (subst drainReady.simps) (simp add: Let_def)
      moreover have "\<exists>j \<le> 256 * (length (fsReady s) - idx). n' = n + of_nat j"
        if "r = Defined (n', s', h')" for n' s' h'
      proof -
        obtain j where "j \<le> 256 * m" "n' = n1 + of_nat j" using r(2) \<open>r = _\<close> by blast
        then show ?thesis using k Suc(2) by (intro exI [of _ "k + j"]) auto
      qed
      ultimately show ?thesis by blast
    qed
  qed
qed

lemma step_total:
  assumes inv: "fs_inv (set (fsReady s)) s" and host: "callbacks_ok host"
    and "\<not> list_ex forking_code (fsPrograms s)"
  shows "\<exists>r. stepTick host t s h = Some r \<and> (\<forall>n s' h'. r = Defined (n, s', h') \<longrightarrow>
    unat n \<le> 256 * length (fsReady (wakeDue t (s\<lparr>fsTick := t\<rparr>))))"
proof -
  let ?s0 = "s\<lparr>fsTick := t\<rparr>" and ?w = "wakeDue t (s\<lparr>fsTick := t\<rparr>)"
  have inv0: "fs_inv (set (fsReady ?s0)) ?s0" using inv by (simp add: fs_inv_tick)
  have "\<not> list_ex forking_code (fsPrograms ?w)"
    using assms(3) wakeDue_effect(1) [OF fs_inv_length(3) [OF inv0], where t = t]
    by (simp add: wake_effect_def)
  with drain_total [of 0 ?w host t 0 h] fs_inv_wake [OF inv0] host
  obtain r where r: "drainReady host t 0 0 ?w h = Some r"
      "\<forall>n s' h'. r = Defined (n, s', h') \<longrightarrow> (\<exists>k \<le> 256 * length (fsReady ?w). n = of_nat k)" by auto
  have small: "unat (of_nat k :: u64) \<le> k" for k by (simp add: unat_of_nat)
  show ?thesis
  proof (cases r)
    case (Defined x)
    obtain n s1 h1 where x: "x = (n, s1, h1)" by (cases x)
    with Defined r(2) obtain k where k: "k \<le> 256 * length (fsReady ?w)" "n = of_nat k" by blast
    have "unat n \<le> 256 * length (fsReady ?w)" using small [of k] k(1) unfolding k(2) by (rule le_trans)
    with r(1) Defined x show ?thesis by (simp add: stepTick_def)
  qed (use r(1) in \<open>simp add: stepTick_def\<close>)
qed

section \<open>Example schedulers\<close>

definition exampleWith :: "CompactInstruction list \<Rightarrow> FiberScheduler" where
  "exampleWith code = snd (spawnFiberByProgram 1 0 noEntityHandle 0 0 7 (snd (registerProgram code newScheduler)))"

lemma exampleWith_views:
  "fsPrograms (exampleWith code) = [[], code]" "fsFree (exampleWith code) = []"
  "fsReady (exampleWith code) = [1]" "fsWaiting (exampleWith code) = []"
  "fsWheel (exampleWith code) = replicate WHEEL_SLOTS []" "fsTick (exampleWith code) = 0"
  "length (fsFibers (exampleWith code)) = 2"
  "fiberAt (exampleWith code) 1 = newFiber\<lparr>fcFiberId := 1, fcProgramId := 1, fcStatus := Ready,
     fcPrng := prng_seed (7 XOR 0x9E3779B9) defaultPRNG\<rparr>"
  by (simp_all add: exampleWith_def newScheduler_def registerProgram_def spawnFiberByProgram_def Let_def
      fiberAt_def newFiber_def)

lemma exampleWith_known: "fiberKnown (exampleWith code) i \<longleftrightarrow> i = 1"
proof -
  have "i \<noteq> 0 \<and> unat i < 2 \<longleftrightarrow> i = 1" by (auto simp: word_unat_eq_iff)
  then show ?thesis by (simp add: fiberKnown_def exampleWith_views)
qed

lemma exampleWith_reach:
  "timely_run host (exampleWith code)" if "short_code code"
proof -
  have "timely_run host (snd (registerProgram code newScheduler))"
    by (rule timely_run.step [OF timely_run.new fiber_step.register])
      (use that in \<open>simp_all add: registerProgram_def newScheduler_def short_code_def\<close>)
  then show ?thesis
    unfolding exampleWith_def
    by (rule timely_run.step [OF _ fiber_step.spawn])
      (use that in \<open>simp_all add: spawnFiberByProgram_def Let_def short_code_def registerProgram_def
        newScheduler_def\<close>)
qed

lemma example_slot: "wakeDue 0 (exampleWith code) = exampleWith code"
  using slot_bound [of 0] by (simp add: wakeDue_def Let_def exampleWith_views list_update_same_conv)

lemma example_tick:
  assumes "executeFiberSlice None 0 1 0 (exampleWith code) () = Defined (1, s1, ())" and "fsReady s1 = [1]"
  shows "stepTick None 0 (exampleWith code) () = Some (Defined (1, s1\<lparr>fsReady := []\<rparr>, ()))"
proof -
  have "exampleWith code\<lparr>fsTick := 0\<rparr> = exampleWith code"
    using exampleWith_views(6) [of code] by (cases "exampleWith code") simp
  moreover have "drainReady None 0 1 1 s1 () = Some (Defined (1, s1, ()))"
    using assms(2) by (subst drainReady.simps) simp
  then have "drainReady None 0 0 0 (exampleWith code) () = Some (Defined (1, s1, ()))"
    using assms(1) by (subst drainReady.simps) (simp add: exampleWith_views exampleWith_known newFiber_def)
  ultimately show ?thesis by (simp add: stepTick_def example_slot)
qed

definition exampleSleep :: "CompactInstruction list" where
  "exampleSleep = [immInstruction YieldTicks 0 0 1, immInstruction Return 0 0 0]"

definition exampleWait :: "CompactInstruction list" where
  "exampleWait = [immInstruction YieldUntilPredicate 1 5 2, immInstruction Return 0 0 0]"

definition exampleSlept :: FiberScheduler where
  "exampleSlept = (scheduleAtTick 1 1 (setFiber 1 (nextPc (fiberAt (exampleWith exampleSleep) 1))
     (exampleWith exampleSleep)))\<lparr>fsReady := []\<rparr>"

definition exampleWaiting :: FiberScheduler where
  "exampleWaiting = (setFiber 1 ((nextPc (fiberAt (exampleWith exampleWait) 1))\<lparr>fcStatus := WaitingPredicate,
      fcWaitChannel := 1, fcWaitKey := 5, fcWaitValue := 2\<rparr>) (exampleWith exampleWait))
     \<lparr>fsWaiting := [1], fsReady := []\<rparr>"

lemma exampleSlept_tick: "stepTick None 0 (exampleWith exampleSleep) () = Some (Defined (1, exampleSlept, ()))"
  unfolding exampleSlept_def
proof (rule example_tick)
  show "executeFiberSlice None 0 1 0 (exampleWith exampleSleep) () = Defined (1, scheduleAtTick 1 1
      (setFiber 1 (nextPc (fiberAt (exampleWith exampleSleep) 1)) (exampleWith exampleSleep)), ())"
    by (simp add: executeFiberSlice_def exampleWith_views exampleSleep_def newFiber_def, subst sliceLoop.simps)
      (simp add: exampleWith_views exampleSleep_def newFiber_def executeInstruction_def immInstruction_def)
qed (simp add: exampleWith_views)

lemma exampleWaiting_tick: "stepTick None 0 (exampleWith exampleWait) () = Some (Defined (1, exampleWaiting, ()))"
proof -
  let ?s1 = "exampleWaiting\<lparr>fsReady := [1]\<rparr>"
  have "stepTick None 0 (exampleWith exampleWait) () = Some (Defined (1, ?s1\<lparr>fsReady := []\<rparr>, ()))"
  proof (rule example_tick)
    show "executeFiberSlice None 0 1 0 (exampleWith exampleWait) () = Defined (1, ?s1, ())"
      by (simp add: executeFiberSlice_def exampleWith_views exampleWait_def newFiber_def, subst sliceLoop.simps)
        (simp add: exampleWith_views exampleWait_def newFiber_def executeInstruction_def immInstruction_def
          exampleWaiting_def)
  qed simp
  then show ?thesis by (simp add: exampleWaiting_def)
qed

lemma example_short: "short_code exampleSleep" "short_code exampleWait"
  by (simp_all add: short_code_def short_wait_def exampleSleep_def exampleWait_def immInstruction_def)

lemma exampleSlept_run: "timely_run (None :: unit FiberHost option) exampleSlept"
  by (rule timely_run.step [OF exampleWith_reach [OF example_short(1)] fiber_step.tick [OF exampleSlept_tick]])
    (use example_short in \<open>simp_all add: exampleSlept_def exampleWith_views short_code_def\<close>)

lemma exampleWaiting_reach: "fiber_reach (None :: unit FiberHost option) exampleWaiting"
  by (rule fiber_reach.step [OF timely_reach [OF exampleWith_reach [OF example_short(2)]]
        fiber_step.tick [OF exampleWaiting_tick]])
    (simp add: exampleWaiting_def exampleWith_views)

section \<open>Properties\<close>

text \<open>
  C13: no fiber is lost. In every reachable scheduler each fiber carries its own identifier and a call
  depth within its stack, and it is filed where its status says: a ready fiber in the ready queue, a
  sleeping one in the wheel slot of its wake tick, a waiting one in the waiting list, a terminated one
  in the free list, which names no fiber twice.
\<close>

theorem fibers_never_lost:
  assumes "fiber_reach host s" and "callbacks_ok host" and "fiberKnown s i"
  shows "fcFiberId (fiberAt s i) = i \<and> fcCallDepth (fiberAt s i) \<le> 8 \<and>
    (case fcStatus (fiberAt s i) of
       Inactive \<Rightarrow> False
     | Ready \<Rightarrow> i \<in> set (fsReady s)
     | SleepingTicks \<Rightarrow> i \<in> set (fsWheel s ! (unat (fcWakeTick (fiberAt s i)) mod WHEEL_SLOTS))
     | WaitingPredicate \<Rightarrow> i \<in> set (fsWaiting s)
     | Terminated \<Rightarrow> i \<in> set (fsFree s)) \<and>
    distinct (fsFree s)"
  using fiber_reach_inv [OF assms(1,2)] assms(3) unfolding bucket_def [symmetric]
  by (simp add: fs_inv_def fiber_ok_def filed_def)

theorem fibers_never_lost_witness:
  "fcStatus (fiberAt exampleSlept 1) = SleepingTicks \<and>
   1 \<in> set (fsWheel exampleSlept ! (unat (fcWakeTick (fiberAt exampleSlept 1)) mod WHEEL_SLOTS))"
proof -
  have reach: "fiber_reach (None :: unit FiberHost option) exampleSlept"
    by (rule timely_reach [OF exampleSlept_run])
  have known: "fiberKnown exampleSlept 1" and st: "fcStatus (fiberAt exampleSlept 1) = SleepingTicks"
    by (simp_all add: exampleSlept_def fiberKnown_def fiberAt_def exampleWith_views)
  show ?thesis
    using fibers_never_lost [OF reach _ known] st by (simp add: callbacks_ok_def)
qed



text \<open>
  C15: an event readies exactly the fibers of the group that wait for its channel and key with a
  threshold it reaches, queues each of them and returns how many there are.
\<close>

theorem event_readies_exactly:
  assumes "fiber_reach host s" and "callbacks_ok host"
    and "notifyBlackboardEvent g c k v s = (woken, s')"
  defines "hit \<equiv> {i. fiberKnown s i \<and> fcStatus (fiberAt s i) = WaitingPredicate \<and>
    fcOwnerGroupId (fiberAt s i) = g \<and> fcWaitChannel (fiberAt s i) = c \<and>
    fcWaitKey (fiberAt s i) = k \<and> fcWaitValue (fiberAt s i) \<le> v}"
  shows "woken = of_nat (card hit) \<and> hit \<subseteq> set (fsReady s') \<and>
    (\<forall>i. fiberKnown s i \<longrightarrow> fiberAt s' i =
      (if i \<in> hit then (fiberAt s i)\<lparr>fcStatus := Ready, fcWaitChannel := 0\<rparr> else fiberAt s i))"
proof -
  have inv: "fs_inv (set (fsReady s)) s" by (rule fiber_reach_inv [OF assms(1,2)])
  obtain ys where eff: "notify_effect (eventMatches g c k v) (set (fsWaiting s)) ys s s'"
      and woken: "woken = of_nat (length ys)"
    using assms(3) by (rule notify_result)
  have "i \<in> set (fsWaiting s)" if "fiberKnown s i" "fcStatus (fiberAt s i) = WaitingPredicate" for i
    using inv that by (fastforce simp: fs_inv_def filed_def)
  then have hit: "hit = {i \<in> set (fsWaiting s). awaited (eventMatches g c k v) s i}"
    by (auto simp: hit_def awaited_def eventMatches_def)
  have ys: "set ys = hit" "distinct ys" "fsReady s' = fsReady s @ ys"
    using eff hit by (simp_all add: notify_effect_def)
  with woken have "woken = of_nat (card hit)" using distinct_card by metis
  moreover have "fiberAt s' i =
      (if i \<in> hit then (fiberAt s i)\<lparr>fcStatus := Ready, fcWaitChannel := 0\<rparr> else fiberAt s i)"
    if "fiberKnown s i" for i
  proof -
    have "\<forall>i. fiberKnown s i \<longrightarrow> fiberAt s' i = (if i \<in> set (fsWaiting s) \<and> awaited (eventMatches g c k v) s i
        then (fiberAt s i)\<lparr>fcStatus := Ready, fcWaitChannel := 0\<rparr> else fiberAt s i)"
      using eff by (simp add: notify_effect_def)
    with that show ?thesis by (simp add: hit)
  qed
  ultimately show ?thesis using ys by simp
qed

theorem event_readies_exactly_witness:
  "fst (notifyBlackboardEvent 0 1 5 2 exampleWaiting) = 1 \<and>
   fcStatus (fiberAt (snd (notifyBlackboardEvent 0 1 5 2 exampleWaiting)) 1) = Ready"
proof -
  have known: "fiberKnown exampleWaiting i \<longleftrightarrow> i = 1" for i
    using exampleWith_known [of exampleWait i]
    by (simp add: exampleWaiting_def fiberKnown_def exampleWith_views)
  have at: "fiberAt exampleWaiting 1 = (nextPc (fiberAt (exampleWith exampleWait) 1))\<lparr>fcStatus := WaitingPredicate,
      fcWaitChannel := 1, fcWaitKey := 5, fcWaitValue := 2\<rparr>"
    by (simp add: exampleWaiting_def fiberAt_def exampleWith_views)
  have hit: "{i. fiberKnown exampleWaiting i \<and> fcStatus (fiberAt exampleWaiting i) = WaitingPredicate \<and>
      fcOwnerGroupId (fiberAt exampleWaiting i) = 0 \<and> fcWaitChannel (fiberAt exampleWaiting i) = 1 \<and>
      fcWaitKey (fiberAt exampleWaiting i) = 5 \<and> fcWaitValue (fiberAt exampleWaiting i) \<le> 2} = {1}"
    by (auto simp: known at exampleWith_views newFiber_def nextPc_def)
  from event_readies_exactly [OF exampleWaiting_reach _ prod.collapse [symmetric], of 0 1 5 2, unfolded hit]
  show ?thesis by (simp add: callbacks_ok_def known)
qed

text \<open>
  C16: killing a fiber terminates exactly the fibers below it, that is the root and every live fiber
  that a chain of live fibers connects to it by their parent links, puts each of them on the free list
  once and leaves every other fiber as it is.
\<close>

theorem kill_takes_subtree:
  assumes "fiber_reach host s" and "callbacks_ok host"
    and "fiberKnown s r" and "fiber_live (fiberAt s r)"
  defines "below \<equiv> {i. (live_child s)\<^sup>*\<^sup>* r i}"
  shows "(\<forall>i. fiberKnown s i \<longrightarrow> fiberAt (killFiberTree r s) i =
      (if i \<in> below then (fiberAt s i)\<lparr>fcStatus := Terminated, fcUnbreakable := False\<rparr> else fiberAt s i)) \<and>
    (\<exists>xs. fsFree (killFiberTree r s) = xs @ fsFree s \<and> distinct (xs @ fsFree s) \<and> set xs = below)"
proof -
  let ?s' = "killFiberTree r s"
  have inv: "fs_inv (set (fsReady s)) s" by (rule fiber_reach_inv [OF assms(1,2)])
  have below: "killed s ?s' = below"
    unfolding below_def by (rule kill_subtree [OF fs_inv_length(2) [OF inv] assms(3,4)])
  have shr: "shrinks s ?s'" using kill_exact(1) [OF fs_inv_length(2) [OF inv]] by blast
  have "fiberAt ?s' i = (if i \<in> below then (fiberAt s i)\<lparr>fcStatus := Terminated, fcUnbreakable := False\<rparr>
      else fiberAt s i)" if "fiberKnown s i" for i
    using shrinks_at [OF shr that] that unfolding below [symmetric] killed_def by (auto simp: dead_after)
  moreover have "distinct (fsFree ?s')" using fs_inv_kill_any(1) [OF inv] by (simp add: fs_inv_def)
  ultimately show ?thesis using shr unfolding below [symmetric] shrinks_def by auto
qed

theorem kill_takes_subtree_witness:
  "fcStatus (fiberAt (killFiberTree 1 exampleSlept) 1) = Terminated"
proof -
  have reach: "fiber_reach (None :: unit FiberHost option) exampleSlept"
    by (rule timely_reach [OF exampleSlept_run])
  have known: "fiberKnown exampleSlept 1" and live: "fiber_live (fiberAt exampleSlept 1)"
    by (simp_all add: exampleSlept_def fiberKnown_def fiberAt_def exampleWith_views fiber_live_def)
  show ?thesis
    using kill_takes_subtree [OF reach _ known live] known by (simp add: callbacks_ok_def)
qed

text \<open>
  C17: a tick ends when no registered program forks, and it executes at most 256 instructions for each
  fiber that is ready at its start.
\<close>

theorem tick_without_forks_ends:
  assumes "fiber_reach host s" and "callbacks_ok host"
    and "\<not> list_ex (list_ex (\<lambda>ins. ciOpcode ins = ForkFiber)) (fsPrograms s)"
  shows "\<exists>r. stepTick host t s h = Some r \<and> (\<forall>n s' h'. r = Defined (n, s', h') \<longrightarrow>
    unat n \<le> 256 * length (fsReady (wakeDue t (s\<lparr>fsTick := t\<rparr>))))"
proof -
  have "\<not> list_ex forking_code (fsPrograms s)"
    using assms(3) by (simp add: forking_code_def [abs_def])
  with fiber_reach_inv [OF assms(1,2)] assms(2) show ?thesis by (rule step_total)
qed

theorem tick_without_forks_ends_witness:
  "\<exists>r. stepTick None 5 exampleSlept () = Some r"
proof -
  have reach: "fiber_reach (None :: unit FiberHost option) exampleSlept"
    by (rule timely_reach [OF exampleSlept_run])
  have "\<not> list_ex (list_ex (\<lambda>ins. ciOpcode ins = ForkFiber)) (fsPrograms exampleSlept)"
    by (simp add: exampleSlept_def exampleWith_views exampleSleep_def immInstruction_def)
  with tick_without_forks_ends [OF reach, of 5 "()"] show ?thesis by (auto simp: callbacks_ok_def)
qed

text \<open>
  C18: restoring the snapshot of a reachable scheduler into another brings back its tick, its fibers
  and its lockstep digest and files every fiber again: the restored scheduler satisfies the invariant
  of \<open>fibers_never_lost\<close>.
\<close>

theorem fiber_snapshot_restores:
  assumes "fiber_reach host saved" and "fiber_reach host s" and "callbacks_ok host"
    and "length (fsFibers saved) < 2 ^ 32"
    and "s' = restoreBinarySnapshot sz (captureBinarySnapshot sz saved) s"
  shows "fsTick s' = fsTick saved \<and> fsFibers s' = fsFibers saved \<and>
    computeLockstepDigest s' = computeLockstepDigest saved \<and> fs_inv (set (fsReady s')) s'"
proof -
  have "fs_inv (set (fsReady saved)) saved" "length (fsWheel s) = WHEEL_SLOTS"
    using fiber_reach_inv [OF assms(1,3)] fs_inv_length(3) [OF fiber_reach_inv [OF assms(2,3)]] .
  note eff = restore_effect [OF this(1) assms(4) this(2)]
  show ?thesis unfolding assms(5) using eff by (simp add: computeLockstepDigest_def)
qed

theorem fiber_snapshot_restores_witness:
  "computeLockstepDigest (restoreBinarySnapshot 136 (captureBinarySnapshot 136 exampleSlept) newScheduler) =
   computeLockstepDigest exampleSlept"
proof -
  have reach: "fiber_reach (None :: unit FiberHost option) exampleSlept"
    by (rule timely_reach [OF exampleSlept_run])
  have "length (fsFibers exampleSlept) < 2 ^ 32" by (simp add: exampleSlept_def exampleWith_views)
  with fiber_snapshot_restores [OF reach fiber_reach.new] show ?thesis by (simp add: callbacks_ok_def)
qed

section \<open>Where the scheduler does not keep its promises\<close>

text \<open>
  The free list is not part of a snapshot; \<open>restore\<close> rebuilds it in the order of the identifiers.
  After killing the second and then the first of two fibers the next fiber is number 1, in the
  restored scheduler it is number 2: the digests of a rolled back and an undisturbed peer part.
\<close>

definition twoFibers :: FiberScheduler where
  "twoFibers = snd (spawnFiberByProgram 1 0 noEntityHandle 0 0 7 (exampleWith []))"

lemma twoFibers_fibers:
  "\<exists>f g. fsFibers twoFibers = [newFiber, f, g] \<and> fcStatus f = Ready \<and> fcParentFiberId f = 0 \<and>
     fcStatus g = Ready \<and> fcParentFiberId g = 0"
  "fsFree twoFibers = []"
  by (simp_all add: twoFibers_def exampleWith_def newScheduler_def registerProgram_def spawnFiberByProgram_def
      Let_def newFiber_def)

definition twoKilled :: FiberScheduler where
  "twoKilled = killFiberTree 1 (killFiberTree 2 twoFibers)"

lemma twoKilled_views:
  "\<exists>f g. fsFibers twoKilled = [newFiber, f, g] \<and> fcStatus f = Terminated \<and> fcStatus g = Terminated"
  "fsFree twoKilled = [1, 2]"
proof -
  obtain f g where s: "fsFibers twoFibers = [newFiber, f, g]" "fcStatus f = Ready" "fcParentFiberId f = 0"
      "fcStatus g = Ready" "fcParentFiberId g = 0" using twoFibers_fibers(1) by blast
  have range: "[1..<3] = [1, 2 :: nat]" by (simp add: upt_rec)
  let ?g = "g\<lparr>fcStatus := Terminated, fcUnbreakable := False\<rparr>"
  let ?s1 = "terminateFiber 2 twoFibers"
  have s1: "fsFibers ?s1 = [newFiber, f, ?g]" "fsFree ?s1 = [2]"
    using s twoFibers_fibers(2) by (simp_all add: fsFibers_terminate)
  have k2: "killFiberTree 2 twoFibers = ?s1"
    using s s1 by (subst killFiberTree.simps) (simp add: fiberKnown_def fiberAt_def fiber_live_def range isLiveChild_def)
  let ?f = "f\<lparr>fcStatus := Terminated, fcUnbreakable := False\<rparr>"
  have s2: "fsFibers (terminateFiber 1 ?s1) = [newFiber, ?f, ?g]" "fsFree (terminateFiber 1 ?s1) = [1, 2]"
    using s1 by (simp_all add: fsFibers_terminate)
  have "killFiberTree 1 ?s1 = terminateFiber 1 ?s1"
    using s s1 s2 by (subst killFiberTree.simps)
      (simp add: fiberKnown_def fiberAt_def fiber_live_def range isLiveChild_def)
  with s2 k2 show "\<exists>f g. fsFibers twoKilled = [newFiber, f, g] \<and> fcStatus f = Terminated \<and> fcStatus g = Terminated"
      "fsFree twoKilled = [1, 2]"
    by (simp_all add: twoKilled_def)
qed

lemma restored_free_list_differs:
  "fst (spawnFiberByProgram 1 0 noEntityHandle 0 0 7 twoKilled) = 1 \<and>
   fst (spawnFiberByProgram 1 0 noEntityHandle 0 0 7
     (restoreBinarySnapshot 136 (captureBinarySnapshot 136 twoKilled) twoKilled)) = 2"
proof -
  obtain f g where s: "fsFibers twoKilled = [newFiber, f, g]" "fcStatus f = Terminated" "fcStatus g = Terminated"
    using twoKilled_views(1) by blast
  have range: "[Suc 0..<3] = [1, 2]" by (simp add: upt_rec)
  have "fsFree (restoreBinarySnapshot 136 (captureBinarySnapshot 136 twoKilled) twoKilled) = [2, 1]"
    using s by (simp add: restoreBinarySnapshot_def captureBinarySnapshot_def Let_def range fileFiber_def)
  then show ?thesis using twoKilled_views(2) by (simp add: spawnFiberByProgram_def Let_def)
qed

text \<open>
  A buffer that is cut short is refused, but only after its tick has been copied: the tick changes
  while every fiber stays.
\<close>

lemma truncated_snapshot_changes_tick:
  assumes "4 * 2 \<le> fbSize b" and "fbSize b < 4 * 2 + unat (fbCount b) * sz"
  shows "restoreBinarySnapshot sz b s = s\<lparr>fsTick := fbTick b\<rparr>"
  using assms by (simp add: restoreBinarySnapshot_def Let_def)

text \<open>
  \<open>spawnFiber\<close> identifies a stream by the address of its vector: another stream at an address seen
  before, after the first was destroyed or changed in place, runs the program registered first.
\<close>

lemma stale_stream_runs_old_program:
  "fcProgramId (fiberAt (snd (spawnFiber a new 0 noEntityHandle 0 0 7
       (snd (spawnFiber a old 0 noEntityHandle 0 0 7 newScheduler)))) 2) = 1 \<and>
   fsPrograms (snd (spawnFiber a new 0 noEntityHandle 0 0 7
       (snd (spawnFiber a old 0 noEntityHandle 0 0 7 newScheduler)))) ! 1 = old"
  by (simp add: spawnFiber_def newScheduler_def spawnFiberByProgram_def Let_def fiberAt_def)

end
