(* ===== verification/Bytecode.thy ===== *)
theory Bytecode
  imports Runtime_Value
begin

text \<open>
  The program representation of the virtual machine (\<open>include/realscript/bytecode/Bytecode.h\<close>), with
  the parts of type descriptors that the machine reads (\<open>include/realscript/semantic/Semantic.h\<close>) and
  the linked image of \<open>src/runtime/RuntimeServices.cpp\<close>. Sizes of vectors in memory are natural
  numbers; a pointer to a function of a module is the module with the function.
\<close>

section \<open>References to functions\<close>

text \<open>Names in messages stand in single quotes.\<close>

definition quoted :: "string \<Rightarrow> string" where
  "quoted name = CHR 0x27 # name @ [CHR 0x27]"

definition mismatchMessage :: "string \<Rightarrow> PrimitiveType \<Rightarrow> PrimitiveType \<Rightarrow> string" where
  "mismatchMessage subject expected actual =
     subject @ '' expected '' @ quoted (primitiveTypeName expected) @ '', got '' @
     quoted (primitiveTypeName actual)"

record FunctionReference =
  frSymbolId :: SymbolId
  frName :: string
  frReturnType :: PrimitiveType
  frReturnTypeId :: SymbolId
  frParameterTypes :: "PrimitiveType list"
  frParameterTypeIds :: "SymbolId list"
  frVirtualDispatch :: bool
  frVirtualSlot :: u32
  frInterfaceDispatch :: bool
  frInterfaceTypeId :: SymbolId
  frInterfaceSlot :: u32

text \<open>The largest \<open>std::uint32_t\<close> stands for no slot and no register.\<close>

definition NoSlot :: u32 where
  "NoSlot = 0xffffffff"

definition InvalidRegister :: u32 where
  "InvalidRegister = 0xffffffff"

section \<open>Instructions\<close>

datatype (plugins only: code size) Opcode =
    OpLoadParameter | OpConstantInt | OpConstantDouble | OpConstantBool | OpConstantString
  | OpConstantNull | OpLoadLocal | OpStoreLocal | OpConvertNullToString | OpConvertNullToObject
  | OpConvertNullToArray | OpConvertIntToLong | OpConvertIntToDouble | OpConvertLongToDouble
  | OpNewObject | OpNewStruct | OpNewArray | OpCheckNotNull | OpArrayLength | OpLoadElement
  | OpStoreElement | OpLoadField | OpStoreField | OpLoadStructField | OpStoreStructField | OpCall
  | OpNegateInt | OpNegateLong | OpNegateDouble | OpLogicalNot
  | OpAddInt | OpSubtractInt | OpMultiplyInt | OpDivideInt | OpRemainderInt
  | OpEqual | OpNotEqual | OpLessInt | OpLessOrEqualInt | OpGreaterInt | OpGreaterOrEqualInt
  | OpAddLong | OpSubtractLong | OpMultiplyLong | OpDivideLong | OpRemainderLong
  | OpLessLong | OpLessOrEqualLong | OpGreaterLong | OpGreaterOrEqualLong
  | OpAddDouble | OpSubtractDouble | OpMultiplyDouble | OpDivideDouble
  | OpLessDouble | OpLessOrEqualDouble | OpGreaterDouble | OpGreaterOrEqualDouble
  | OpNewDelegate | OpInvokeDelegate | OpCombineDelegate | OpRemoveDelegate
  | OpConvertNumeric | OpIsType | OpAsType | OpConstantTypeId

record Instruction =
  inOpcode :: Opcode
  inResult :: u32
  inOperands :: "u32 list"
  inIndex :: u32
  inTypeIndex :: u32
  inElementType :: PrimitiveType
  inElementTypeId :: SymbolId
  inInteger :: u64
  inDouble :: u64
  inBool :: bool
  inChecked :: bool
  inString :: string

record BlockParameter =
  bpTarget :: u32
  bpType :: PrimitiveType
  bpTypeId :: SymbolId

datatype TerminatorKind = TkNone | TkJump | TkBranch | TkReturnValue | TkReturnVoid | TkThrow

record Terminator =
  tmKind :: TerminatorKind
  tmCondition :: u32
  tmValue :: u32
  tmTarget :: u32
  tmFalseTarget :: u32
  tmArguments :: "u32 list"
  tmFalseArguments :: "u32 list"

record BasicBlock =
  bbId :: u32
  bbParameters :: "BlockParameter list"
  bbInstructions :: "Instruction list"
  bbTerminator :: Terminator

record ExceptionHandler =
  ehProtectedBlocks :: "u32 list"
  ehHandlerBlock :: u32
  ehCatchTypeId :: SymbolId
  ehExceptionLocal :: nat

record Function =
  fnSymbolId :: SymbolId
  fnName :: string
  fnReturnType :: PrimitiveType
  fnReturnTypeId :: SymbolId
  fnParameterTypes :: "PrimitiveType list"
  fnParameterTypeIds :: "SymbolId list"
  fnLocalTypes :: "PrimitiveType list"
  fnLocalTypeIds :: "SymbolId list"
  fnRegisterTypes :: "PrimitiveType list"
  fnRegisterTypeIds :: "SymbolId list"
  fnBlocks :: "BasicBlock list"
  fnHandlers :: "ExceptionHandler list"

definition typeIdAt :: "SymbolId list \<Rightarrow> nat \<Rightarrow> SymbolId" where
  "typeIdAt typeIds i = (if i < length typeIds then typeIds ! i else 0)"

section \<open>Type descriptors\<close>

datatype TypeKind = TkClass | TkStruct | TkEnum

record FieldSymbol =
  fdType :: PrimitiveType
  fdTypeName :: string

record VariableSymbol =
  vrType :: PrimitiveType
  vrTypeName :: string
  vrStorageType :: PrimitiveType
  vrStorageTypeName :: string

definition storageTypeOf :: "VariableSymbol \<Rightarrow> PrimitiveType" where
  "storageTypeOf v = (if vrStorageType v = PtError then vrType v else vrStorageType v)"

definition storageTypeNameOf :: "VariableSymbol \<Rightarrow> string" where
  "storageTypeNameOf v = (if vrStorageType v = PtError then vrTypeName v else vrStorageTypeName v)"

record MethodSymbol =
  mdName :: string
  mdParameters :: "VariableSymbol list"

record TypeSymbol =
  tsId :: SymbolId
  tsKind :: TypeKind
  tsDelegateType :: bool
  tsInterfaceType :: bool
  tsBaseTypeId :: SymbolId
  tsModuleName :: string
  tsName :: string
  tsFields :: "FieldSymbol list"
  tsMethods :: "MethodSymbol list"
  tsVirtualTable :: "SymbolId list"
  tsInterfaceMaps :: "(SymbolId \<times> SymbolId list) list"

text \<open>The identifier of a type is a hash of its canonical name; the empty name has none.\<close>

definition fnv1a :: "string \<Rightarrow> u64" where
  "fnv1a value =
     foldl (\<lambda>hash c. (hash XOR of_char c) * 1099511628211) 14695981039346656037 value"

definition stableTypeId :: "string \<Rightarrow> SymbolId" where
  "stableTypeId name = (if name = [] then 0 else fnv1a name)"

definition exactTypeId :: "PrimitiveType \<Rightarrow> string \<Rightarrow> SymbolId" where
  "exactTypeId type typeName = (if isExactType type \<and> typeName \<noteq> [] then stableTypeId typeName else 0)"

section \<open>Modules and the linked program\<close>

record Module =
  mdlName :: string
  mdlTypes :: "TypeSymbol list"
  mdlReferences :: "FunctionReference list"
  mdlFunctions :: "Function list"

record FunctionLocation =
  flModule :: Module
  flFunction :: Function
  flQualifiedName :: string

type_synonym ProgramImage = "Module list"

text \<open>\<open>emplace\<close> keeps the first descriptor of an identifier and the first function of a symbol.\<close>

definition program_types :: "ProgramImage \<Rightarrow> TypeSymbol list" where
  "program_types program = concat (map mdlTypes program)"

definition resolveType :: "ProgramImage \<Rightarrow> SymbolId \<Rightarrow> TypeSymbol option" where
  "resolveType program typeId = find (\<lambda>t. tsId t = typeId) (program_types program)"

definition program_locations :: "ProgramImage \<Rightarrow> FunctionLocation list" where
  "program_locations program =
     concat (map (\<lambda>m. map (\<lambda>f. \<lparr>flModule = m, flFunction = f,
       flQualifiedName = mdlName m @ ''::'' @ fnName f\<rparr>) (mdlFunctions m)) program)"

definition resolveFunction :: "ProgramImage \<Rightarrow> SymbolId \<Rightarrow> FunctionLocation option" where
  "resolveFunction program symbolId =
     find (\<lambda>l. fnSymbolId (flFunction l) = symbolId) (program_locations program)"

definition findFunction :: "ProgramImage \<Rightarrow> string \<Rightarrow> SymbolId option" where
  "findFunction program qualifiedName =
     map_option (\<lambda>l. fnSymbolId (flFunction l))
       (find (\<lambda>l. flQualifiedName l = qualifiedName) (program_locations program))"

definition typeDescriptor :: "Module \<Rightarrow> u32 \<Rightarrow> TypeSymbol option" where
  "typeDescriptor m i = (if unat i < length (mdlTypes m) then Some (mdlTypes m ! unat i) else None)"

definition typeDescriptorById :: "Module \<Rightarrow> SymbolId \<Rightarrow> TypeSymbol option" where
  "typeDescriptorById m typeId = find (\<lambda>t. tsId t = typeId) (mdlTypes m)"

definition canonicalTypeName :: "TypeSymbol \<Rightarrow> string" where
  "canonicalTypeName t =
     (if tsModuleName t = [] then tsName t else tsModuleName t @ ''::'' @ tsName t)"

end
