(* ===== verification/Vm_Arithmetic.thy ===== *)
theory Vm_Arithmetic
  imports Bytecode Binary64 "HOL-Library.Signed_Division"
begin

text \<open>
  The arithmetic of the virtual machine (\<open>src/runtime/Interpreter.cpp\<close>): the checked and the
  wrapping operations on \<open>int\<close>, \<open>uint\<close>, \<open>long\<close>, \<open>ulong\<close>, \<open>float\<close> and \<open>double\<close>, and the numeric
  conversions. An \<open>int\<close> of the language travels in a \<open>std::int64_t\<close>. Words hold the bits; \<open>sint\<close> reads
  the signed types. The fast evaluator \<open>evaluateQuickInt\<close> is a separate piece of the source and a
  separate definition here.
\<close>

section \<open>Outcomes\<close>

text \<open>
  A computation yields a value, a runtime error, or has no defined meaning in C++: a signed overflow
  of \<open>std::int64_t\<close>, or \<open>std::get\<close> on another alternative of the variant, which throws.
\<close>

datatype 'a calc = Ok 'a | Fails ErrorCode string | Undef

definition int64 :: "int \<Rightarrow> u64 calc" where
  "int64 x = (if - (2 ^ 63) \<le> x \<and> x < 2 ^ 63 then Ok (word_of_int x) else Undef)"

fun calc_bind :: "'a calc \<Rightarrow> ('a \<Rightarrow> 'b calc) \<Rightarrow> 'b calc" where
  "calc_bind (Ok a) f = f a"
| "calc_bind (Fails c m) f = Fails c m"
| "calc_bind Undef f = Undef"

section \<open>Integers of 32 bits\<close>

definition checkedIntResult :: "u64 \<Rightarrow> Value calc" where
  "checkedIntResult value =
     (if sint value < - (2 ^ 31) \<or> sint value > 2 ^ 31 - 1
      then Fails EcIntegerOverflow ''integer arithmetic overflow'' else Ok (VInt value))"

definition wrapInt32 :: "u64 \<Rightarrow> u64" where
  "wrapInt32 value =
     (let bits = (ucast value :: u32)
      in if bits \<le> 0x7fffffff then ucast bits else ucast bits - 2 ^ 32)"

text \<open>The sum, difference or product of two carriers, before it is checked or wrapped.\<close>

definition checkedOrWrapped :: "bool \<Rightarrow> int \<Rightarrow> Value calc" where
  "checkedOrWrapped checked x =
     calc_bind (int64 x) (\<lambda>v. if checked then checkedIntResult v else Ok (VInt (wrapInt32 v)))"

definition IntMin32 :: u64 where
  "IntMin32 = - (2 ^ 31)"

definition intBinary :: "Opcode \<Rightarrow> bool \<Rightarrow> u64 \<Rightarrow> u64 \<Rightarrow> Value calc" where
  "intBinary op checked a b =
     (case op of
        OpAddInt \<Rightarrow> checkedOrWrapped checked (sint a + sint b)
      | OpSubtractInt \<Rightarrow> checkedOrWrapped checked (sint a - sint b)
      | OpMultiplyInt \<Rightarrow> checkedOrWrapped checked (sint a * sint b)
      | OpDivideInt \<Rightarrow>
          if b = 0 then Fails EcDivisionByZero ''division by zero''
          else if a = IntMin32 \<and> b = - 1 then Fails EcIntegerOverflow ''integer division overflow''
          else calc_bind (int64 (sint a sdiv sint b)) (\<lambda>v. Ok (VInt v))
      | OpRemainderInt \<Rightarrow>
          if b = 0 then Fails EcDivisionByZero ''remainder by zero''
          else if a = IntMin32 \<and> b = - 1 then Ok (VInt 0)
          else calc_bind (int64 (sint a sdiv sint b)) (\<lambda>_. Ok (VInt (word_of_int (sint a smod sint b))))
      | OpLessInt \<Rightarrow> Ok (VBool (sint a < sint b))
      | OpLessOrEqualInt \<Rightarrow> Ok (VBool (sint a \<le> sint b))
      | OpGreaterInt \<Rightarrow> Ok (VBool (sint a > sint b))
      | OpGreaterOrEqualInt \<Rightarrow> Ok (VBool (sint a \<ge> sint b))
      | _ \<Rightarrow> Fails EcInvalidProgram ''unsupported bytecode opcode'')"

definition negateInt :: "bool \<Rightarrow> u64 \<Rightarrow> Value calc" where
  "negateInt checked n =
     (if \<not> checked \<and> n = IntMin32 then Ok (VInt n)
      else calc_bind (int64 (- sint n)) checkedIntResult)"

text \<open>Unsigned: \<open>uint\<close> and \<open>ulong\<close> differ in the width and in the wording of the errors.\<close>

definition uintBinary :: "Opcode \<Rightarrow> bool \<Rightarrow> u32 \<Rightarrow> u32 \<Rightarrow> Value calc" where
  "uintBinary op checked a b =
     (case op of
        OpAddInt \<Rightarrow>
          if checked \<and> b > - 1 - a then Fails EcIntegerOverflow ''uint addition overflow''
          else Ok (VUInt (a + b))
      | OpSubtractInt \<Rightarrow>
          if checked \<and> a < b then Fails EcIntegerOverflow ''uint subtraction overflow''
          else Ok (VUInt (a - b))
      | OpMultiplyInt \<Rightarrow>
          if checked \<and> b \<noteq> 0 \<and> a > (- 1) div b then Fails EcIntegerOverflow ''uint multiplication overflow''
          else Ok (VUInt (a * b))
      | OpDivideInt \<Rightarrow>
          if b = 0 then Fails EcDivisionByZero ''division by zero'' else Ok (VUInt (a div b))
      | OpRemainderInt \<Rightarrow>
          if b = 0 then Fails EcDivisionByZero ''remainder by zero'' else Ok (VUInt (a mod b))
      | OpLessInt \<Rightarrow> Ok (VBool (a < b))
      | OpLessOrEqualInt \<Rightarrow> Ok (VBool (a \<le> b))
      | OpGreaterInt \<Rightarrow> Ok (VBool (a > b))
      | OpGreaterOrEqualInt \<Rightarrow> Ok (VBool (a \<ge> b))
      | _ \<Rightarrow> Fails EcTypeMismatch (mismatchMessage ''binary operation'' PtInt PtUInt))"

definition ulongBinary :: "Opcode \<Rightarrow> bool \<Rightarrow> u64 \<Rightarrow> u64 \<Rightarrow> Value calc" where
  "ulongBinary op checked a b =
     (case op of
        OpAddLong \<Rightarrow>
          if checked \<and> b > - 1 - a then Fails EcIntegerOverflow ''ulong addition overflow''
          else Ok (VULong (a + b))
      | OpSubtractLong \<Rightarrow>
          if checked \<and> a < b then Fails EcIntegerOverflow ''ulong subtraction overflow''
          else Ok (VULong (a - b))
      | OpMultiplyLong \<Rightarrow>
          if checked \<and> b \<noteq> 0 \<and> a > (- 1) div b then Fails EcIntegerOverflow ''ulong multiplication overflow''
          else Ok (VULong (a * b))
      | OpDivideLong \<Rightarrow>
          if b = 0 then Fails EcDivisionByZero ''division by zero'' else Ok (VULong (a div b))
      | OpRemainderLong \<Rightarrow>
          if b = 0 then Fails EcDivisionByZero ''remainder by zero'' else Ok (VULong (a mod b))
      | OpLessLong \<Rightarrow> Ok (VBool (a < b))
      | OpLessOrEqualLong \<Rightarrow> Ok (VBool (a \<le> b))
      | OpGreaterLong \<Rightarrow> Ok (VBool (a > b))
      | OpGreaterOrEqualLong \<Rightarrow> Ok (VBool (a \<ge> b))
      | _ \<Rightarrow> Undef)"

section \<open>Integers of 64 bits\<close>

definition signedFromBits :: "u64 \<Rightarrow> int" where
  "signedFromBits bits =
     (if bits \<le> 0x7fffffffffffffff then uint bits else - 1 - uint (- 1 - bits))"

definition LongMin :: int where
  "LongMin = - (2 ^ 63)"

definition LongMax :: int where
  "LongMax = 2 ^ 63 - 1"

definition longOverflow :: "Value calc" where
  "longOverflow = Fails EcIntegerOverflow ''long arithmetic overflow''"

definition longResult :: "int \<Rightarrow> Value calc" where
  "longResult x = calc_bind (int64 x) (\<lambda>v. Ok (VLong v))"

text \<open>The guards are those of the code; their own differences and quotients stay in range.\<close>

definition checkedLongAdd :: "int \<Rightarrow> int \<Rightarrow> Value calc" where
  "checkedLongAdd l r =
     (if 0 < r \<and> LongMax - r < l \<or> r < 0 \<and> l < LongMin - r then longOverflow
      else longResult (l + r))"

definition checkedLongSubtract :: "int \<Rightarrow> int \<Rightarrow> Value calc" where
  "checkedLongSubtract l r =
     (if r < 0 \<and> LongMax + r < l \<or> 0 < r \<and> l < LongMin + r then longOverflow
      else longResult (l - r))"

definition checkedLongMultiply :: "int \<Rightarrow> int \<Rightarrow> Value calc" where
  "checkedLongMultiply l r =
     (if l = 0 \<or> r = 0 then Ok (VLong 0)
      else
        let overflow =
          (if 0 < l then (if 0 < r then LongMax sdiv r < l else r < LongMin sdiv l)
           else (if 0 < r then l < LongMin sdiv r else l \<noteq> 0 \<and> r < LongMax sdiv l))
        in if overflow then longOverflow else longResult (l * r))"

definition longBinary :: "Opcode \<Rightarrow> bool \<Rightarrow> u64 \<Rightarrow> u64 \<Rightarrow> Value calc" where
  "longBinary op checked a b =
     (case op of
        OpAddLong \<Rightarrow>
          if \<not> checked then longResult (signedFromBits (a + b)) else checkedLongAdd (sint a) (sint b)
      | OpSubtractLong \<Rightarrow>
          if \<not> checked then longResult (signedFromBits (a - b)) else checkedLongSubtract (sint a) (sint b)
      | OpMultiplyLong \<Rightarrow>
          if \<not> checked then longResult (signedFromBits (a * b)) else checkedLongMultiply (sint a) (sint b)
      | OpDivideLong \<Rightarrow>
          if b = 0 then Fails EcDivisionByZero ''division by zero''
          else if sint a = LongMin \<and> b = - 1 then Fails EcIntegerOverflow ''long division overflow''
          else longResult (sint a sdiv sint b)
      | OpRemainderLong \<Rightarrow>
          if b = 0 then Fails EcDivisionByZero ''remainder by zero''
          else if sint a = LongMin \<and> b = - 1 then Ok (VLong 0)
          else longResult (sint a smod sint b)
      | OpLessLong \<Rightarrow> Ok (VBool (sint a < sint b))
      | OpLessOrEqualLong \<Rightarrow> Ok (VBool (sint a \<le> sint b))
      | OpGreaterLong \<Rightarrow> Ok (VBool (sint a > sint b))
      | OpGreaterOrEqualLong \<Rightarrow> Ok (VBool (sint a \<ge> sint b))
      | _ \<Rightarrow> Undef)"

definition negateLong :: "bool \<Rightarrow> u64 \<Rightarrow> Value calc" where
  "negateLong checked n =
     (if sint n = LongMin
      then if \<not> checked then Ok (VLong n) else Fails EcIntegerOverflow ''long negation overflow''
      else longResult (- sint n))"

section \<open>The type \<open>float\<close>\<close>

text \<open>
  Single precision on bit patterns, like \<open>Binary64\<close>: magnitudes are in units of \<open>2 ^ -149\<close>, results
  are rounded half to even, and every NaN that an operation makes is the same one.
\<close>

definition inf32 :: nat where
  "inf32 = 255 * 2 ^ 23"

definition one32 :: nat where
  "one32 = 2 ^ 149"

definition f32_abs :: "u32 \<Rightarrow> u32" where
  "f32_abs x = x AND 0x7fffffff"

definition f32_isnan :: "u32 \<Rightarrow> bool" where
  "f32_isnan x \<longleftrightarrow> f32_abs x > 0x7f800000"

definition f32_isfinite :: "u32 \<Rightarrow> bool" where
  "f32_isfinite x \<longleftrightarrow> f32_abs x < 0x7f800000"

definition f32_iszero :: "u32 \<Rightarrow> bool" where
  "f32_iszero x \<longleftrightarrow> f32_abs x = 0"

definition f32_negative :: "u32 \<Rightarrow> bool" where
  "f32_negative x \<longleftrightarrow> bit x 31"

definition f32_nan :: u32 where
  "f32_nan = 0x7fc00000"

definition f32_mag :: "u32 \<Rightarrow> nat" where
  "f32_mag x =
     (let b = unat (f32_abs x)
      in if b < 2 ^ 23 then b else (2 ^ 23 + b mod 2 ^ 23) * 2 ^ (b div 2 ^ 23 - 1))"

definition f32_signed :: "u32 \<Rightarrow> int" where
  "f32_signed x = (if f32_negative x then - int (f32_mag x) else int (f32_mag x))"

definition bits32OfRatio :: "nat \<Rightarrow> nat \<Rightarrow> nat" where
  "bits32OfRatio num den =
     (let s = bitLength (num div den) - 24;
          d = den * 2 ^ s;
          f = num div d;
          rem = num mod d;
          r = (if d < 2 * rem \<or> (2 * rem = d \<and> odd f) then f + 1 else f)
      in min (s * 2 ^ 23 + r) inf32)"

definition f32_make :: "bool \<Rightarrow> nat \<Rightarrow> u32" where
  "f32_make neg b = (if neg then 0x80000000 OR of_nat b else of_nat b)"

definition f32_neg :: "u32 \<Rightarrow> u32" where
  "f32_neg x = x XOR 0x80000000"

definition f32_add :: "u32 \<Rightarrow> u32 \<Rightarrow> u32" where
  "f32_add x y =
     (if f32_isnan x \<or> f32_isnan y then f32_nan
      else if \<not> f32_isfinite x then
        (if \<not> f32_isfinite y \<and> f32_negative x \<noteq> f32_negative y then f32_nan else x)
      else if \<not> f32_isfinite y then y
      else (let v = f32_signed x + f32_signed y
            in if v = 0 then f32_make (f32_negative x \<and> f32_negative y) 0
               else f32_make (v < 0) (bits32OfRatio (nat \<bar>v\<bar>) 1)))"

definition f32_sub :: "u32 \<Rightarrow> u32 \<Rightarrow> u32" where
  "f32_sub x y = (if f32_isnan y then f32_nan else f32_add x (f32_neg y))"

definition f32_mul :: "u32 \<Rightarrow> u32 \<Rightarrow> u32" where
  "f32_mul x y =
     (let neg = (f32_negative x \<noteq> f32_negative y)
      in if f32_isnan x \<or> f32_isnan y then f32_nan
         else if \<not> f32_isfinite x \<or> \<not> f32_isfinite y then
           (if f32_iszero x \<or> f32_iszero y then f32_nan else f32_make neg inf32)
         else f32_make neg (bits32OfRatio (f32_mag x * f32_mag y) one32))"

definition f32_div :: "u32 \<Rightarrow> u32 \<Rightarrow> u32" where
  "f32_div x y =
     (let neg = (f32_negative x \<noteq> f32_negative y)
      in if f32_isnan x \<or> f32_isnan y then f32_nan
         else if \<not> f32_isfinite x then
           (if \<not> f32_isfinite y then f32_nan else f32_make neg inf32)
         else if \<not> f32_isfinite y then f32_make neg 0
         else if f32_iszero y then
           (if f32_iszero x then f32_nan else f32_make neg inf32)
         else f32_make neg (bits32OfRatio (f32_mag x * one32) (f32_mag y)))"

definition f32_less :: "u32 \<Rightarrow> u32 \<Rightarrow> bool" where
  "f32_less x y \<longleftrightarrow> \<not> f32_isnan x \<and> \<not> f32_isnan y \<and>
     (if f32_isfinite x \<and> f32_isfinite y then f32_signed x < f32_signed y
      else if f32_isfinite x then \<not> f32_negative y
      else if f32_isfinite y then f32_negative x
      else f32_negative x \<and> \<not> f32_negative y)"

definition f32_eq :: "u32 \<Rightarrow> u32 \<Rightarrow> bool" where
  "f32_eq x y \<longleftrightarrow> \<not> f32_isnan x \<and> \<not> f32_isnan y \<and> (x = y \<or> f32_iszero x \<and> f32_iszero y)"

definition f32_le :: "u32 \<Rightarrow> u32 \<Rightarrow> bool" where
  "f32_le x y \<longleftrightarrow> f32_less x y \<or> f32_eq x y"

definition f64_eq :: "f64 \<Rightarrow> f64 \<Rightarrow> bool" where
  "f64_eq x y \<longleftrightarrow> \<not> f64_isnan x \<and> \<not> f64_isnan y \<and> (x = y \<or> f64_iszero x \<and> f64_iszero y)"

definition floatBinary :: "Opcode \<Rightarrow> u32 \<Rightarrow> u32 \<Rightarrow> Value calc" where
  "floatBinary op a b =
     (case op of
        OpAddDouble \<Rightarrow> Ok (VFloat (f32_add a b))
      | OpSubtractDouble \<Rightarrow> Ok (VFloat (f32_sub a b))
      | OpMultiplyDouble \<Rightarrow> Ok (VFloat (f32_mul a b))
      | OpDivideDouble \<Rightarrow> Ok (VFloat (f32_div a b))
      | OpLessDouble \<Rightarrow> Ok (VBool (f32_less a b))
      | OpLessOrEqualDouble \<Rightarrow> Ok (VBool (f32_le a b))
      | OpGreaterDouble \<Rightarrow> Ok (VBool (f32_less b a))
      | OpGreaterOrEqualDouble \<Rightarrow> Ok (VBool (f32_le b a))
      | _ \<Rightarrow> Undef)"

definition doubleBinary :: "Opcode \<Rightarrow> f64 \<Rightarrow> f64 \<Rightarrow> Value calc" where
  "doubleBinary op a b =
     (case op of
        OpAddDouble \<Rightarrow> Ok (VDouble (f64_add a b))
      | OpSubtractDouble \<Rightarrow> Ok (VDouble (f64_sub a b))
      | OpMultiplyDouble \<Rightarrow> Ok (VDouble (f64_mul a b))
      | OpDivideDouble \<Rightarrow> Ok (VDouble (f64_div a b))
      | OpLessDouble \<Rightarrow> Ok (VBool (f64_less a b))
      | OpLessOrEqualDouble \<Rightarrow> Ok (VBool (f64_le a b))
      | OpGreaterDouble \<Rightarrow> Ok (VBool (f64_less b a))
      | OpGreaterOrEqualDouble \<Rightarrow> Ok (VBool (f64_le b a))
      | _ \<Rightarrow> Undef)"

section \<open>Numeric conversions\<close>

text \<open>
  The \<open>long double\<close> of the conversion has a significand of 64 bits, as on x86-64, and holds every
  source exactly: a sign with a magnitude in units of \<open>2 ^ -1074\<close>, an infinity, or not a number.
\<close>

datatype Number = Finite bool nat | Infinite bool | NotANumber

definition numberOfInt :: "int \<Rightarrow> Number" where
  "numberOfInt x = Finite (x < 0) (nat \<bar>x\<bar> * oneUnits)"

definition numberOfFloat :: "u32 \<Rightarrow> Number" where
  "numberOfFloat x =
     (if f32_isnan x then NotANumber else if \<not> f32_isfinite x then Infinite (f32_negative x)
      else Finite (f32_negative x) (f32_mag x * 2 ^ 925))"

definition numberOfDouble :: "f64 \<Rightarrow> Number" where
  "numberOfDouble x =
     (if f64_isnan x then NotANumber else if \<not> f64_isfinite x then Infinite (f64_negative x)
      else Finite (f64_negative x) (f64_mag x))"

text \<open>The number with the bits of an integer source; a floating source has none.\<close>

definition numericSource :: "Value \<Rightarrow> (Number \<times> u64 option) option" where
  "numericSource value =
     (case value of
        VByte v \<Rightarrow> Some (numberOfInt (uint v), Some (ucast v))
      | VSByte v \<Rightarrow> Some (numberOfInt (sint v), Some (scast v))
      | VShort v \<Rightarrow> Some (numberOfInt (sint v), Some (scast v))
      | VUShort v \<Rightarrow> Some (numberOfInt (uint v), Some (ucast v))
      | VInt v \<Rightarrow> Some (numberOfInt (sint v), Some v)
      | VUInt v \<Rightarrow> Some (numberOfInt (uint v), Some (ucast v))
      | VLong v \<Rightarrow> Some (numberOfInt (sint v), Some v)
      | VULong v \<Rightarrow> Some (numberOfInt (uint v), Some v)
      | VFloat v \<Rightarrow> Some (numberOfFloat v, None)
      | VDouble v \<Rightarrow> Some (numberOfDouble v, None)
      | VChar v \<Rightarrow> Some (numberOfInt (uint v), Some (ucast v))
      | _ \<Rightarrow> None)"

definition truncated :: "bool \<Rightarrow> nat \<Rightarrow> int" where
  "truncated negative mag = (let n = int (mag div oneUnits) in if negative then - n else n)"

definition targetModulus :: "PrimitiveType \<Rightarrow> int" where
  "targetModulus t =
     (if t = PtByte \<or> t = PtSByte then 2 ^ 8
      else if t = PtShort \<or> t = PtUShort \<or> t = PtChar then 2 ^ 16
      else if t = PtInt \<or> t = PtUInt then 2 ^ 32 else 2 ^ 64)"

definition wrappedBits :: "PrimitiveType \<Rightarrow> Number \<Rightarrow> u64" where
  "wrappedBits target number =
     (case number of
        Finite negative mag \<Rightarrow>
          (let modulus = targetModulus target;
               wrapped = truncated negative mag smod modulus
           in word_of_int (if wrapped < 0 then wrapped + modulus else wrapped))
      | _ \<Rightarrow> 0)"

definition integralOfBits :: "PrimitiveType \<Rightarrow> u64 \<Rightarrow> Value option" where
  "integralOfBits target bits =
     (case target of
        PtByte \<Rightarrow> Some (VByte (ucast bits))
      | PtSByte \<Rightarrow> Some (VSByte (ucast bits))
      | PtShort \<Rightarrow> Some (VShort (ucast bits))
      | PtUShort \<Rightarrow> Some (VUShort (ucast bits))
      | PtChar \<Rightarrow> Some (VChar (ucast bits))
      | PtInt \<Rightarrow> Some (VInt (wrapInt32 bits))
      | PtUInt \<Rightarrow> Some (VUInt (ucast bits))
      | PtLong \<Rightarrow> Some (VLong (word_of_int (signedFromBits bits)))
      | PtULong \<Rightarrow> Some (VULong bits)
      | _ \<Rightarrow> None)"

definition inRange :: "Number \<Rightarrow> int \<Rightarrow> int \<Rightarrow> bool" where
  "inRange number low high \<longleftrightarrow>
     (case number of
        Finite negative mag \<Rightarrow>
          (let x = (if negative then - int mag else int mag)
           in low * int oneUnits \<le> x \<and> x \<le> high * int oneUnits)
      | _ \<Rightarrow> False)"

text \<open>The largest finite \<open>float\<close> is an integer.\<close>

definition FloatMax :: int where
  "FloatMax = (2 ^ 24 - 1) * 2 ^ 104"

definition checkedRange :: "PrimitiveType \<Rightarrow> Number \<Rightarrow> bool" where
  "checkedRange target number \<longleftrightarrow>
     (case target of
        PtByte \<Rightarrow> inRange number 0 255
      | PtSByte \<Rightarrow> inRange number (-128) 127
      | PtShort \<Rightarrow> inRange number (-32768) 32767
      | PtUShort \<Rightarrow> inRange number 0 65535
      | PtChar \<Rightarrow> inRange number 0 65535
      | PtInt \<Rightarrow> inRange number (- (2 ^ 31)) (2 ^ 31 - 1)
      | PtUInt \<Rightarrow> inRange number 0 (2 ^ 32 - 1)
      | PtLong \<Rightarrow> inRange number LongMin LongMax
      | PtULong \<Rightarrow> inRange number 0 (2 ^ 64 - 1)
      | PtFloat \<Rightarrow> inRange number (- FloatMax) FloatMax
      | _ \<Rightarrow> True)"

definition floatOf :: "Number \<Rightarrow> u32" where
  "floatOf number =
     (case number of
        Finite negative mag \<Rightarrow> f32_make negative (bits32OfRatio mag (2 ^ 925))
      | Infinite negative \<Rightarrow> f32_make negative inf32
      | NotANumber \<Rightarrow> f32_nan)"

definition doubleOf :: "Number \<Rightarrow> f64" where
  "doubleOf number =
     (case number of
        Finite negative mag \<Rightarrow> f64_make negative (bitsOfRatio mag 1)
      | Infinite negative \<Rightarrow> f64_make negative infBits
      | NotANumber \<Rightarrow> f64_nan)"

text \<open>
  The final casts. They reach an integral type only after a range check, so the truncated number
  fits.
\<close>

definition numberCast :: "PrimitiveType \<Rightarrow> Number \<Rightarrow> Value option" where
  "numberCast target number =
     (let n = (case number of Finite negative mag \<Rightarrow> truncated negative mag | _ \<Rightarrow> 0)
      in case target of
        PtByte \<Rightarrow> Some (VByte (word_of_int n))
      | PtSByte \<Rightarrow> Some (VSByte (word_of_int n))
      | PtShort \<Rightarrow> Some (VShort (word_of_int n))
      | PtUShort \<Rightarrow> Some (VUShort (word_of_int n))
      | PtInt \<Rightarrow> Some (VInt (word_of_int n))
      | PtUInt \<Rightarrow> Some (VUInt (word_of_int n))
      | PtLong \<Rightarrow> Some (VLong (word_of_int n))
      | PtULong \<Rightarrow> Some (VULong (word_of_int n))
      | PtFloat \<Rightarrow> Some (VFloat (floatOf number))
      | PtDouble \<Rightarrow> Some (VDouble (doubleOf number))
      | PtChar \<Rightarrow> Some (VChar (word_of_int n))
      | _ \<Rightarrow> None)"

definition tryConvertNumeric :: "Value \<Rightarrow> PrimitiveType \<Rightarrow> bool \<Rightarrow> Value option" where
  "tryConvertNumeric value target checked =
     (case numericSource value of
        None \<Rightarrow> None
      | Some (number, bits) \<Rightarrow>
          if \<not> checked \<and> isIntegralType target
          then integralOfBits target (case bits of Some b \<Rightarrow> b | None \<Rightarrow> wrappedBits target number)
          else if checked \<and> \<not> checkedRange target number then None
          else numberCast target number)"

section \<open>The fast evaluator\<close>

text \<open>The operations with a fast path, decided when a program is linked (\<open>ExecutionMirror.h\<close>).\<close>

datatype QuickOpcode =
    QGeneric | QLoadParameter | QConstantInt | QLoadLocal | QStoreLocal | QCallDirect
  | QAddInt | QSubtractInt | QMultiplyInt | QDivideInt | QRemainderInt
  | QLessInt | QLessOrEqualInt | QGreaterInt | QGreaterOrEqualInt

definition evaluateQuickInt :: "QuickOpcode \<Rightarrow> bool \<Rightarrow> u64 \<Rightarrow> u64 \<Rightarrow> Value calc" where
  "evaluateQuickInt op checked l r =
     (case op of
        QAddInt \<Rightarrow>
          calc_bind (int64 (sint l + sint r))
            (\<lambda>v. if \<not> checked then Ok (VInt (wrapInt32 v)) else checkedIntResult v)
      | QSubtractInt \<Rightarrow>
          calc_bind (int64 (sint l - sint r))
            (\<lambda>v. if \<not> checked then Ok (VInt (wrapInt32 v)) else checkedIntResult v)
      | QMultiplyInt \<Rightarrow>
          calc_bind (int64 (sint l * sint r))
            (\<lambda>v. if \<not> checked then Ok (VInt (wrapInt32 v)) else checkedIntResult v)
      | QDivideInt \<Rightarrow>
          if r = 0 then Fails EcDivisionByZero ''division by zero''
          else if l = IntMin32 \<and> r = - 1 then Fails EcIntegerOverflow ''integer division overflow''
          else calc_bind (int64 (sint l sdiv sint r)) (\<lambda>v. Ok (VInt v))
      | QRemainderInt \<Rightarrow>
          if r = 0 then Fails EcDivisionByZero ''remainder by zero''
          else if l = IntMin32 \<and> r = - 1 then Ok (VInt 0)
          else calc_bind (int64 (sint l sdiv sint r)) (\<lambda>_. Ok (VInt (word_of_int (sint l smod sint r))))
      | QLessInt \<Rightarrow> Ok (VBool (sint l < sint r))
      | QLessOrEqualInt \<Rightarrow> Ok (VBool (sint l \<le> sint r))
      | QGreaterInt \<Rightarrow> Ok (VBool (sint l > sint r))
      | QGreaterOrEqualInt \<Rightarrow> Ok (VBool (sint l \<ge> sint r))
      | _ \<Rightarrow> Fails EcInvalidProgram ''invalid quickened bytecode opcode'')"

end
