(* ===== verification/Determinism_Session.thy ===== *)
theory Determinism_Session
  imports Vm_Arithmetic Stable_Hash
begin

text \<open>
  Record and replay of the calls that leave the virtual machine: \<open>BindingRegistry\<close>
  (\<open>src/runtime/RuntimeServices.cpp\<close>), the stable hash of values, \<open>ReplayLog\<close> and
  \<open>DeterminismSession\<close> (\<open>src/runtime/ExecutionServices.cpp\<close>). A function of the host is a parameter: a
  function of the reference, the arguments and the state of the host, which returns an optional value
  with the error it left behind and the host's next state. A null pointer to a function and an empty
  \<open>std::function\<close> are both \<open>None\<close>. A session holds the contents of the log its shared pointer refers
  to. The stack trace of an error is filled in by the interpreter and not part of \<open>RuntimeError\<close>.
\<close>

section \<open>Hashing values\<close>

definition hashU16 :: "u64 \<Rightarrow> u16 \<Rightarrow> u64" where
  "hashU16 hash value = foldl hashByte hash [ucast value, ucast (drop_bit 8 value)]"

definition hashU32 :: "u64 \<Rightarrow> u32 \<Rightarrow> u64" where
  "hashU32 hash value =
     foldl hashByte hash (map (\<lambda>shift. ucast (drop_bit shift value)) [0, 8, 16, 24])"

definition hashBool :: "u64 \<Rightarrow> bool \<Rightarrow> u64" where
  "hashBool hash value = hashByte hash (if value then 1 else 0)"

definition objectKindByte :: "ObjectKind \<Rightarrow> u8" where
  "objectKindByte k = (case k of KString \<Rightarrow> 0 | KArray \<Rightarrow> 1 | KRecord \<Rightarrow> 2)"

text \<open>The position of a value's alternative in the variant.\<close>

definition value_index :: "Value \<Rightarrow> u64" where
  "value_index value =
     (case value of
        VNone \<Rightarrow> 0 | VNullString \<Rightarrow> 1 | VNullObject \<Rightarrow> 2 | VNullArray \<Rightarrow> 3 | VBool _ \<Rightarrow> 4
      | VByte _ \<Rightarrow> 5 | VSByte _ \<Rightarrow> 6 | VShort _ \<Rightarrow> 7 | VUShort _ \<Rightarrow> 8 | VInt _ \<Rightarrow> 9 | VUInt _ \<Rightarrow> 10
      | VLong _ \<Rightarrow> 11 | VULong _ \<Rightarrow> 12 | VFloat _ \<Rightarrow> 13 | VDouble _ \<Rightarrow> 14 | VChar _ \<Rightarrow> 15
      | VEnum _ _ \<Rightarrow> 16 | VStruct _ _ \<Rightarrow> 17 | VString _ \<Rightarrow> 18 | VRef _ \<Rightarrow> 19 | VHandle _ \<Rightarrow> 20)"

definition hashFloat :: "bool \<Rightarrow> u64 \<Rightarrow> u32 \<Rightarrow> u64" where
  "hashFloat canonicalize hash x =
     hashU32 hash (if canonicalize \<and> f32_isnan x then 0x7fc00000
                   else if canonicalize \<and> f32_iszero x then 0 else x)"

definition hashDouble :: "bool \<Rightarrow> u64 \<Rightarrow> u64 \<Rightarrow> u64" where
  "hashDouble canonicalize hash x = hashU64 hash (if canonicalize then canonicalDoubleBits x else x)"

fun hashValue :: "bool \<Rightarrow> u64 \<Rightarrow> Value \<Rightarrow> u64"
and hashPayload :: "bool \<Rightarrow> u64 \<Rightarrow> Value \<Rightarrow> u64"
and hashFields :: "bool \<Rightarrow> u64 \<Rightarrow> Value list \<Rightarrow> u64" where
  "hashValue c hash value = hashPayload c (hashU64 hash (value_index value)) value"
| "hashPayload c hash VNone = hash"
| "hashPayload c hash VNullString = hash"
| "hashPayload c hash VNullObject = hash"
| "hashPayload c hash VNullArray = hash"
| "hashPayload c hash (VBool b) = hashBool hash b"
| "hashPayload c hash (VByte v) = hashByte hash v"
| "hashPayload c hash (VSByte v) = hashByte hash v"
| "hashPayload c hash (VShort v) = hashU16 hash v"
| "hashPayload c hash (VUShort v) = hashU16 hash v"
| "hashPayload c hash (VInt v) = hashU64 hash v"
| "hashPayload c hash (VUInt v) = hashU32 hash v"
| "hashPayload c hash (VLong v) = hashU64 hash v"
| "hashPayload c hash (VULong v) = hashU64 hash v"
| "hashPayload c hash (VFloat v) = hashFloat c hash v"
| "hashPayload c hash (VDouble v) = hashDouble c hash v"
| "hashPayload c hash (VChar v) = hashU16 hash v"
| "hashPayload c hash (VEnum t v) = hashU64 (hashU64 hash t) v"
| "hashPayload c hash (VStruct t None) = hashU64 (hashU64 hash t) 0"
| "hashPayload c hash (VStruct t (Some (StructStorage a fs))) =
     hashFields c (hashU64 (hashU64 hash t) (of_nat (length fs))) fs"
| "hashPayload c hash (VString s) = hashString hash s"
| "hashPayload c hash (VRef r) =
     hashByte (hashU32 (hashU32 hash (refSlot r)) (refGeneration r)) (objectKindByte (refKind r))"
| "hashPayload c hash (VHandle n) =
     hashU64 (hashU32 (hashU32 hash (nhSlot n)) (nhGeneration n)) (nhTypeId n)"
| "hashFields c hash [] = hash"
| "hashFields c hash (v # vs) = hashFields c (hashValue c hash v) vs"

definition argumentsHash :: "Value list \<Rightarrow> bool \<Rightarrow> u64" where
  "argumentsHash arguments canonicalize =
     hashFields canonicalize (hashU64 FnvOffset (of_nat (length arguments))) arguments"

definition stableValueHash :: "Value \<Rightarrow> u64" where
  "stableValueHash value = hashValue True FnvOffset value"

text \<open>Values that mean the same in another process: no managed reference and no native handle.\<close>

fun replayStable :: "Value \<Rightarrow> bool"
and allReplayStable :: "Value list \<Rightarrow> bool" where
  "replayStable (VRef _) \<longleftrightarrow> False"
| "replayStable (VHandle _) \<longleftrightarrow> False"
| "replayStable (VStruct t (Some (StructStorage a fs))) \<longleftrightarrow> allReplayStable fs"
| "replayStable _ \<longleftrightarrow> True"
| "allReplayStable [] \<longleftrightarrow> True"
| "allReplayStable (v # vs) \<longleftrightarrow> replayStable v \<and> allReplayStable vs"

section \<open>Bindings\<close>

datatype BindingDeterminism = BdDeterministic | BdRecordable | BdNonDeterministic

type_synonym 'h ExternalFunction =
  "FunctionReference \<Rightarrow> Value list \<Rightarrow> 'h \<Rightarrow> Value option \<times> RuntimeError \<times> 'h"

type_synonym 'h BindingEntry = "'h ExternalFunction \<times> BindingDeterminism"

record 'h BindingRegistry =
  brBySymbol :: "SymbolId \<rightharpoonup> 'h BindingEntry"
  brByName :: "string \<rightharpoonup> 'h BindingEntry"

definition emptyRegistry :: "'h BindingRegistry" where
  "emptyRegistry = \<lparr>brBySymbol = Map.empty, brByName = Map.empty\<rparr>"

definition bindSymbol ::
    "SymbolId \<Rightarrow> 'h ExternalFunction option \<Rightarrow> BindingDeterminism \<Rightarrow> 'h BindingRegistry \<Rightarrow>
      bool \<times> 'h BindingRegistry" where
  "bindSymbol symbolId function determinism r =
     (case function of
        None \<Rightarrow> (False, r)
      | Some f \<Rightarrow>
          if symbolId = 0 \<or> brBySymbol r symbolId \<noteq> None then (False, r)
          else (True, r\<lparr>brBySymbol := (brBySymbol r)(symbolId \<mapsto> (f, determinism))\<rparr>))"

definition bindName ::
    "string \<Rightarrow> 'h ExternalFunction option \<Rightarrow> BindingDeterminism \<Rightarrow> 'h BindingRegistry \<Rightarrow>
      bool \<times> 'h BindingRegistry" where
  "bindName canonicalName function determinism r =
     (case function of
        None \<Rightarrow> (False, r)
      | Some f \<Rightarrow>
          if canonicalName = [] \<or> brByName r canonicalName \<noteq> None then (False, r)
          else (True, r\<lparr>brByName := (brByName r)(canonicalName \<mapsto> (f, determinism))\<rparr>))"

text \<open>The symbol is asked first and hides a binding by name.\<close>

definition binding_resolve :: "'h BindingRegistry \<Rightarrow> FunctionReference \<Rightarrow> 'h BindingEntry option" where
  "binding_resolve r reference =
     (case brBySymbol r (frSymbolId reference) of
        Some e \<Rightarrow> Some e
      | None \<Rightarrow> brByName r (frName reference))"

definition notRegistered :: "FunctionReference \<Rightarrow> RuntimeError" where
  "notRegistered reference =
     RuntimeError EcExternalFunctionUnresolved
       (''external function '' @ quoted (frName reference) @ '' is not registered'')"

definition binding_invoke ::
    "'h BindingRegistry \<Rightarrow> FunctionReference \<Rightarrow> Value list \<Rightarrow> 'h \<Rightarrow> Value option \<times> RuntimeError \<times> 'h" where
  "binding_invoke r reference arguments h =
     (case binding_resolve r reference of
        Some (f, d) \<Rightarrow> f reference arguments h
      | None \<Rightarrow> (None, notRegistered reference, h))"

section \<open>Sessions\<close>

datatype DeterminismMode = DmOff | DmStrict | DmRecord | DmReplay

record ExternalCallRecord =
  ecSymbolId :: SymbolId
  ecName :: string
  ecArgumentHash :: u64
  ecSucceeded :: bool
  ecResult :: Value
  ecErrorCode :: ErrorCode
  ecErrorMessage :: string

record DeterminismOptions =
  doMode :: DeterminismMode
  doReplayLog :: "ExternalCallRecord list option"
  doCanonicalize :: bool

record DeterminismSession =
  dsOptions :: DeterminismOptions
  dsReplayEntries :: "ExternalCallRecord list"
  dsReplayCursor :: nat
  dsDigest :: u64

definition newSession :: "DeterminismOptions \<Rightarrow> DeterminismSession" where
  "newSession options =
     \<lparr>dsOptions = options,
      dsReplayEntries =
        (if doMode options = DmReplay
         then case doReplayLog options of Some entries \<Rightarrow> entries | None \<Rightarrow> [] else []),
      dsReplayCursor = 0, dsDigest = FnvOffset\<rparr>"

definition logAppend :: "ExternalCallRecord \<Rightarrow> DeterminismSession \<Rightarrow> DeterminismSession" where
  "logAppend entry s =
     s\<lparr>dsOptions := (dsOptions s)
         \<lparr>doReplayLog := map_option (\<lambda>entries. entries @ [entry]) (doReplayLog (dsOptions s))\<rparr>\<rparr>"

definition onDigest :: "(u64 \<Rightarrow> u64) \<Rightarrow> DeterminismSession \<Rightarrow> DeterminismSession" where
  "onDigest f s = s\<lparr>dsDigest := f (dsDigest s)\<rparr>"

definition resultHash :: "DeterminismSession \<Rightarrow> Value \<Rightarrow> u64 \<Rightarrow> u64" where
  "resultHash s value hash = hashValue (doCanonicalize (dsOptions s)) hash value"

text \<open>The numeric value of an error code is its position in the enumeration.\<close>

definition errorNumber :: "ErrorCode \<Rightarrow> u16" where
  "errorNumber c =
     (case c of
        EcNone \<Rightarrow> 0 | EcFunctionNotFound \<Rightarrow> 1 | EcInvalidArguments \<Rightarrow> 2 | EcTypeMismatch \<Rightarrow> 3
      | EcDivisionByZero \<Rightarrow> 4 | EcIntegerOverflow \<Rightarrow> 5 | EcInstructionBudgetExceeded \<Rightarrow> 6
      | EcRecursionLimitExceeded \<Rightarrow> 7 | EcExternalFunctionUnresolved \<Rightarrow> 8 | EcDuplicateSymbol \<Rightarrow> 9
      | EcInvalidObjectReference \<Rightarrow> 10 | EcInvalidNativeHandle \<Rightarrow> 11 | EcNullReference \<Rightarrow> 12
      | EcIndexOutOfRange \<Rightarrow> 13 | EcOutOfMemory \<Rightarrow> 14 | EcInvalidProgram \<Rightarrow> 15
      | EcExecutionTerminated \<Rightarrow> 16 | EcDeterminismViolation \<Rightarrow> 17 | EcReplayMismatch \<Rightarrow> 18
      | EcScriptException \<Rightarrow> 19)"

definition hashError :: "RuntimeError \<Rightarrow> u64 \<Rightarrow> u64" where
  "hashError e hash = hashString (hashU16 hash (errorNumber (errCode e))) (errMessage e)"

text \<open>The function that is to be called and the policy of its binding.\<close>

definition resolveCall ::
    "'h BindingRegistry option \<Rightarrow> 'h ExternalFunction option \<Rightarrow> FunctionReference \<Rightarrow>
      'h ExternalFunction option \<times> BindingDeterminism" where
  "resolveCall bindings fallback reference =
     (case bindings of
        None \<Rightarrow> (fallback, BdNonDeterministic)
      | Some r \<Rightarrow>
          (case binding_resolve r reference of
             None \<Rightarrow> (fallback, BdNonDeterministic)
           | Some (f, policy) \<Rightarrow> (Some f, policy)))"

definition callHash :: "FunctionReference \<Rightarrow> u64 \<Rightarrow> u64 \<Rightarrow> u64" where
  "callHash reference argumentHash hash =
     hashU64 (hashString (hashU64 hash (frSymbolId reference)) (frName reference)) argumentHash"

text \<open>A call that is answered from the log.\<close>

definition replayCall ::
    "FunctionReference \<Rightarrow> u64 \<Rightarrow> DeterminismSession \<Rightarrow> (RuntimeError + Value) \<times> DeterminismSession" where
  "replayCall reference argumentHash s =
     (if doReplayLog (dsOptions s) = None \<or> length (dsReplayEntries s) \<le> dsReplayCursor s
      then (Inl (RuntimeError EcReplayMismatch
             (''replay log ended before external function '' @ quoted (frName reference))), s)
      else
        let entry = dsReplayEntries s ! dsReplayCursor s;
            s1 = s\<lparr>dsReplayCursor := dsReplayCursor s + 1\<rparr>
        in if ecSymbolId entry \<noteq> frSymbolId reference \<or> ecName entry \<noteq> frName reference
              \<or> ecArgumentHash entry \<noteq> argumentHash
           then (Inl (RuntimeError EcReplayMismatch
                  (''replay entry does not match external function '' @ quoted (frName reference))), s1)
           else if ecSucceeded entry
           then (Inr (ecResult entry), onDigest (resultHash s1 (ecResult entry)) s1)
           else let e = RuntimeError (ecErrorCode entry) (ecErrorMessage entry)
                in (Inl e, onDigest (hashError e) s1))"

text \<open>The reasons for which a recording refuses a call before it is made.\<close>

definition recordRefusal :: "FunctionReference \<Rightarrow> Value list \<Rightarrow> DeterminismSession \<Rightarrow> RuntimeError option" where
  "recordRefusal reference arguments s =
     (if doReplayLog (dsOptions s) = None
      then Some (RuntimeError EcDeterminismViolation ''record mode requires a replay log'')
      else if \<not> list_all replayStable arguments
      then Some (RuntimeError EcDeterminismViolation
             (''external function '' @ quoted (frName reference) @
              '' used a managed or native handle argument that cannot be replayed''))
      else None)"

text \<open>The call of the host function, whose outcome a recording appends to the log.\<close>

definition hostCall ::
    "'h ExternalFunction \<Rightarrow> bool \<Rightarrow> FunctionReference \<Rightarrow> Value list \<Rightarrow> u64 \<Rightarrow> DeterminismSession \<Rightarrow> 'h \<Rightarrow>
      (RuntimeError + Value) \<times> DeterminismSession \<times> 'h" where
  "hostCall f recording reference arguments argumentHash s h =
     (let (outcome, e, h1) = f reference arguments h;
          entry = \<lparr>ecSymbolId = frSymbolId reference, ecName = frName reference,
                   ecArgumentHash = argumentHash, ecSucceeded = outcome \<noteq> None,
                   ecResult = (case outcome of Some v \<Rightarrow> v | None \<Rightarrow> VNone),
                   ecErrorCode = errCode e, ecErrorMessage = errMessage e\<rparr>;
          s1 = (if recording then logAppend entry s else s)
      in case outcome of
           None \<Rightarrow> (Inl e, onDigest (hashError e) s1, h1)
         | Some v \<Rightarrow>
             if recording \<and> \<not> replayStable v
             then (Inl (RuntimeError EcDeterminismViolation
                    (''external function '' @ quoted (frName reference) @
                     '' returned a managed or native handle value that cannot be replayed'')), s, h1)
             else (Inr v, onDigest (resultHash s1 v) s1, h1))"

definition invokeExternal ::
    "'h BindingRegistry option \<Rightarrow> 'h ExternalFunction option \<Rightarrow> FunctionReference \<Rightarrow> Value list \<Rightarrow>
      DeterminismSession \<Rightarrow> 'h \<Rightarrow> (RuntimeError + Value) \<times> DeterminismSession \<times> 'h" where
  "invokeExternal bindings fallback reference arguments s h =
     (let mode = doMode (dsOptions s);
          (function, policy) = resolveCall bindings fallback reference;
          argumentHash = argumentsHash arguments (doCanonicalize (dsOptions s));
          s1 = onDigest (callHash reference argumentHash) s;
          free = (policy \<noteq> BdDeterministic)
      in if mode = DmStrict \<and> free
         then (Inl (RuntimeError EcDeterminismViolation
                (''external function '' @ quoted (frName reference) @
                 '' is not allowed in strict deterministic mode'')), s1, h)
         else if mode = DmReplay \<and> free
         then let (r, s2) = replayCall reference argumentHash s1 in (r, s2, h)
         else case (if mode = DmRecord \<and> free then recordRefusal reference arguments s1 else None) of
                Some e \<Rightarrow> (Inl e, s1, h)
              | None \<Rightarrow>
                  (case function of
                     None \<Rightarrow> (Inl (notRegistered reference), s1, h)
                   | Some f \<Rightarrow> hostCall f (mode = DmRecord \<and> free) reference arguments argumentHash s1 h))"

section \<open>The end of an execution\<close>

record RuntimeStatistics =
  rsInstructionsExecuted :: u64
  rsFunctionCalls :: u64
  rsExternalCalls :: u64
  rsBranchesTaken :: u64
  rsMaximumCallDepth :: nat
  rsGcWorkPerformed :: u64

definition mergeEventDigest :: "u64 \<Rightarrow> u64 \<Rightarrow> DeterminismSession \<Rightarrow> DeterminismSession" where
  "mergeEventDigest eventDigest eventCount s =
     onDigest (\<lambda>d. hashU64 (hashU64 d eventCount) eventDigest) s"

definition replayLeft :: "DeterminismSession \<Rightarrow> nat" where
  "replayLeft s = length (dsReplayEntries s) - dsReplayCursor s"

definition replayUnfinished :: "DeterminismSession \<Rightarrow> bool" where
  "replayUnfinished s \<longleftrightarrow>
     doMode (dsOptions s) = DmReplay \<and> dsReplayCursor s \<noteq> length (dsReplayEntries s)"

definition unconsumedError :: "DeterminismSession \<Rightarrow> RuntimeError" where
  "unconsumedError s =
     RuntimeError EcReplayMismatch
       (''replay log contains '' @ showNat (replayLeft s) @ '' unconsumed external call entr'' @
        (if replayLeft s = 1 then ''y'' else ''ies''))"

definition statisticsHash :: "RuntimeStatistics \<Rightarrow> u64 \<Rightarrow> u64" where
  "statisticsHash st d =
     foldl hashU64 d
       [rsInstructionsExecuted st, rsFunctionCalls st, rsExternalCalls st, rsBranchesTaken st,
        of_nat (rsMaximumCallDepth st), rsGcWorkPerformed st]"

text \<open>The trace is the list of frames, innermost first.\<close>

definition session_finish ::
    "bool \<Rightarrow> Value \<Rightarrow> RuntimeError \<Rightarrow> string list \<Rightarrow> RuntimeStatistics \<Rightarrow> DeterminismSession \<Rightarrow>
      bool \<times> RuntimeError \<times> DeterminismSession" where
  "session_finish succeeded value e trace st s =
     (let rejected = (succeeded \<and> replayUnfinished s);
          ok = (succeeded \<and> \<not> rejected);
          e1 = (if rejected then unconsumedError s else e);
          d1 = hashBool (dsDigest s) ok;
          d2 = (if ok then resultHash s value d1 else foldl hashString (hashError e1 d1) trace);
          d3 = statisticsHash st d2;
          d4 = (if replayUnfinished s then hashU64 d3 (of_nat (replayLeft s)) else d3)
      in (ok, e1, s\<lparr>dsDigest := d4\<rparr>))"

section \<open>Trace events\<close>

datatype TraceEventKind =
    TeFunctionEnter | TeFunctionExit | TeInstruction | TeBranch | TeExternalCall | TeGcStep
  | TeRuntimeError

definition eventNumber :: "TraceEventKind \<Rightarrow> u64" where
  "eventNumber k =
     (case k of
        TeFunctionEnter \<Rightarrow> 0 | TeFunctionExit \<Rightarrow> 1 | TeInstruction \<Rightarrow> 2 | TeBranch \<Rightarrow> 3
      | TeExternalCall \<Rightarrow> 4 | TeGcStep \<Rightarrow> 5 | TeRuntimeError \<Rightarrow> 6)"

definition session_observe ::
    "TraceEventKind \<Rightarrow> string \<Rightarrow> string \<Rightarrow> u64 \<Rightarrow> nat \<Rightarrow> DeterminismSession \<Rightarrow> DeterminismSession" where
  "session_observe kind function operation instructionIndex callDepth s =
     onDigest (\<lambda>d.
       let d1 = hashString (hashByte d (ucast (eventNumber kind))) function;
           d2 = (if kind \<noteq> TeFunctionExit then hashString d1 operation else d1)
       in hashU64 (hashU64 d2 instructionIndex) (of_nat callDepth)) s"

definition accumulateDeterminismEvent ::
    "u64 \<Rightarrow> TraceEventKind \<Rightarrow> SymbolId \<Rightarrow> u64 \<Rightarrow> u64 \<Rightarrow> nat \<Rightarrow> u64" where
  "accumulateDeterminismEvent digest kind functionId operationId instructionIndex callDepth =
     (let event = operationId XOR (functionId * 0x9e3779b185ebca87)
            XOR (instructionIndex * 0xc2b2ae3d27d4eb4f)
            XOR (push_bit 48 (of_nat callDepth))
            XOR ((eventNumber kind + 1) * 0x165667b19e3779f9)
      in digest XOR (event + 0x9e3779b97f4a7c15 + push_bit 6 digest + drop_bit 2 digest))"

end
