(* ===== verification/Replay_Properties.thy ===== *)
theory Replay_Properties
  imports Determinism_Session
begin

text \<open>
  What record and replay promise. A program is a function from the outcomes of its earlier calls to
  its next call, so that a run of the virtual machine is adaptive: what it asks next may depend on
  all answers. \<open>session_run\<close> makes its calls one after the other through \<open>invokeExternal\<close>.
\<close>

type_synonym call_outcome = "RuntimeError + Value"

type_synonym script_calls = "call_outcome list \<Rightarrow> (FunctionReference \<times> Value list) option"

fun session_run ::
    "nat \<Rightarrow> 'h BindingRegistry option \<Rightarrow> 'h ExternalFunction option \<Rightarrow> script_calls \<Rightarrow>
      call_outcome list \<Rightarrow> DeterminismSession \<Rightarrow> 'h \<Rightarrow> call_outcome list \<times> DeterminismSession \<times> 'h" where
  "session_run 0 bindings fallback program outs s h = (outs, s, h)"
| "session_run (Suc n) bindings fallback program outs s h =
     (case program outs of
        None \<Rightarrow> (outs, s, h)
      | Some (reference, arguments) \<Rightarrow>
          let (r, s1, h1) = invokeExternal bindings fallback reference arguments s h
          in session_run n bindings fallback program (outs @ [r]) s1 h1)"

text \<open>A call that a recording can write down: nothing of the process appears in it.\<close>

definition call_recordable ::
    "'h BindingRegistry option \<Rightarrow> 'h ExternalFunction option \<Rightarrow> FunctionReference \<Rightarrow> Value list \<Rightarrow> 'h \<Rightarrow> bool" where
  "call_recordable bindings fallback reference arguments h \<longleftrightarrow>
     (case resolveCall bindings fallback reference of (function, policy) \<Rightarrow>
        policy = BdDeterministic \<or>
        list_all replayStable arguments \<and>
        (case function of
           None \<Rightarrow> False
         | Some f \<Rightarrow> (case fst (f reference arguments h) of None \<Rightarrow> True | Some v \<Rightarrow> replayStable v)))"

fun run_recordable ::
    "nat \<Rightarrow> 'h BindingRegistry option \<Rightarrow> 'h ExternalFunction option \<Rightarrow> script_calls \<Rightarrow>
      call_outcome list \<Rightarrow> DeterminismSession \<Rightarrow> 'h \<Rightarrow> bool" where
  "run_recordable 0 bindings fallback program outs s h \<longleftrightarrow> True"
| "run_recordable (Suc n) bindings fallback program outs s h \<longleftrightarrow>
     (case program outs of
        None \<Rightarrow> True
      | Some (reference, arguments) \<Rightarrow>
          call_recordable bindings fallback reference arguments h \<and>
          (let (r, s1, h1) = invokeExternal bindings fallback reference arguments s h
           in run_recordable n bindings fallback program (outs @ [r]) s1 h1))"

text \<open>
  Two hosts that agree on which functions are deterministic, and on what those return. Nothing is
  said of the others.
\<close>

definition same_deterministic ::
    "'h BindingRegistry option \<Rightarrow> 'h ExternalFunction option \<Rightarrow>
      'g BindingRegistry option \<Rightarrow> 'g ExternalFunction option \<Rightarrow> bool" where
  "same_deterministic b fb b' fb' \<longleftrightarrow>
     (\<forall>reference.
        snd (resolveCall b fb reference) = snd (resolveCall b' fb' reference) \<and>
        (snd (resolveCall b fb reference) = BdDeterministic \<longrightarrow>
           (\<forall>f f' arguments h h'.
              fst (resolveCall b fb reference) = Some f \<longrightarrow>
              fst (resolveCall b' fb' reference) = Some f' \<longrightarrow>
              fst (f reference arguments h) = fst (f' reference arguments h') \<and>
              fst (snd (f reference arguments h)) = fst (snd (f' reference arguments h')))))"

section \<open>One call\<close>

lemma deterministic_resolved:
  assumes "resolveCall b fb reference = (function, BdDeterministic)"
  obtains f where "function = Some f"
  using assms by (auto simp: resolveCall_def split: option.splits prod.splits)

lemma onDigest_simps [simp]:
  "dsOptions (onDigest f s) = dsOptions s"
  "dsReplayEntries (onDigest f s) = dsReplayEntries s"
  "dsReplayCursor (onDigest f s) = dsReplayCursor s"
  "dsDigest (onDigest f s) = f (dsDigest s)"
  by (simp_all add: onDigest_def)

lemma logAppend_simps [simp]:
  "doMode (dsOptions (logAppend e s)) = doMode (dsOptions s)"
  "doCanonicalize (dsOptions (logAppend e s)) = doCanonicalize (dsOptions s)"
  "doReplayLog (dsOptions (logAppend e s)) = map_option (\<lambda>es. es @ [e]) (doReplayLog (dsOptions s))"
  "dsReplayEntries (logAppend e s) = dsReplayEntries s"
  "dsReplayCursor (logAppend e s) = dsReplayCursor s"
  "dsDigest (logAppend e s) = dsDigest s"
  by (simp_all add: logAppend_def)

lemma resultHash_cong: "doCanonicalize (dsOptions s) = doCanonicalize (dsOptions t) \<Longrightarrow> resultHash s = resultHash t"
  by (intro ext) (simp add: resultHash_def)

text \<open>A recording session that has written the entries \<open>L\<close>, and a replaying one that has read them.\<close>

definition recording :: "bool \<Rightarrow> ExternalCallRecord list \<Rightarrow> DeterminismSession \<Rightarrow> bool" where
  "recording c L s \<longleftrightarrow> doMode (dsOptions s) = DmRecord \<and> doReplayLog (dsOptions s) = Some L \<and>
     doCanonicalize (dsOptions s) = c"

definition replaying ::
    "bool \<Rightarrow> ExternalCallRecord list \<Rightarrow> ExternalCallRecord list \<Rightarrow> DeterminismSession \<Rightarrow> bool" where
  "replaying c L M s \<longleftrightarrow> doMode (dsOptions s) = DmReplay \<and> doReplayLog (dsOptions s) \<noteq> None \<and>
     doCanonicalize (dsOptions s) = c \<and> dsReplayEntries s = L @ M \<and> dsReplayCursor s = length L"

lemma host_error_eq: "errCode e = errCode e' \<and> errMessage e = errMessage e' \<longleftrightarrow> e = e'"
  by (cases e; cases e') simp

lemma recorded_call:
  assumes rec: "recording c L s"
    and ok: "call_recordable b fb reference arguments h"
    and free: "snd (resolveCall b fb reference) \<noteq> BdDeterministic"
  obtains f e where "fst (resolveCall b fb reference) = Some f"
    and "e = \<lparr>ecSymbolId = frSymbolId reference, ecName = frName reference,
             ecArgumentHash = argumentsHash arguments c,
             ecSucceeded = fst (f reference arguments h) \<noteq> None,
             ecResult = (case fst (f reference arguments h) of Some v \<Rightarrow> v | None \<Rightarrow> VNone),
             ecErrorCode = errCode (fst (snd (f reference arguments h))),
             ecErrorMessage = errMessage (fst (snd (f reference arguments h)))\<rparr>"
    and "recording c (L @ [e]) (fst (snd (invokeExternal b fb reference arguments s h)))"
    and "invokeExternal b fb reference arguments s h =
           hostCall f True reference arguments (argumentsHash arguments c)
             (onDigest (callHash reference (argumentsHash arguments c)) s) h"
proof -
  obtain fn policy where R: "resolveCall b fb reference = (fn, policy)"
    by (cases "resolveCall b fb reference")
  from ok free R obtain f where f: "fn = Some f" and args: "list_all replayStable arguments"
    and res: "\<And>v. fst (f reference arguments h) = Some v \<Longrightarrow> replayStable v"
    by (auto simp: call_recordable_def split: option.splits)
  have inv: "invokeExternal b fb reference arguments s h =
      hostCall f True reference arguments (argumentsHash arguments c)
        (onDigest (callHash reference (argumentsHash arguments c)) s) h"
    using rec R f free args
    by (simp add: invokeExternal_def recording_def recordRefusal_def Let_def)
  show thesis
    by (rule that [of f]) (use R f inv rec res in
      \<open>auto simp: hostCall_def recording_def Let_def split: option.splits prod.splits\<close>)
qed

lemma replayed_call:
  assumes rep: "replaying c L (e # M) s"
    and free: "snd (resolveCall b fb reference) \<noteq> BdDeterministic"
    and same: "ecSymbolId e = frSymbolId reference" "ecName e = frName reference"
      "ecArgumentHash e = argumentsHash arguments c"
    and d': "d' = callHash reference (argumentsHash arguments c) (dsDigest s)"
  shows "invokeExternal b fb reference arguments s h =
     (if ecSucceeded e then Inr (ecResult e) else Inl (RuntimeError (ecErrorCode e) (ecErrorMessage e)),
      onDigest (\<lambda>d. (if ecSucceeded e then hashValue c d' (ecResult e)
                     else hashError (RuntimeError (ecErrorCode e) (ecErrorMessage e)) d'))
        (s\<lparr>dsReplayCursor := length L + 1\<rparr>), h)"
proof -
  obtain fn policy where R: "resolveCall b fb reference = (fn, policy)"
    by (cases "resolveCall b fb reference")
  show ?thesis
    using rep free same d' R
    by (auto simp: invokeExternal_def replayCall_def replaying_def resultHash_def onDigest_def Let_def)
qed

lemma one_call_replays:
  assumes rec: "recording c L s" and rep: "replaying c L M t" and dig: "dsDigest t = dsDigest s"
    and ok: "call_recordable b fb reference arguments h"
    and det: "same_deterministic b fb b' fb'"
    and run: "invokeExternal b fb reference arguments s h = (r, s1, h1)"
    and log: "doReplayLog (dsOptions s1) = Some L1" and M: "L @ M = L1 @ M1"
  shows "\<exists>t1 h1'. invokeExternal b' fb' reference arguments t h' = (r, t1, h1') \<and>
      recording c L1 s1 \<and> replaying c L1 M1 t1 \<and> dsDigest t1 = dsDigest s1"
proof (cases "snd (resolveCall b fb reference) = BdDeterministic")
  case True
  then have pol: "snd (resolveCall b' fb' reference) = BdDeterministic"
    using det by (auto simp: same_deterministic_def)
  obtain f where f: "resolveCall b fb reference = (Some f, BdDeterministic)"
    using True deterministic_resolved by (metis prod.collapse)
  obtain f' where f': "resolveCall b' fb' reference = (Some f', BdDeterministic)"
    using pol deterministic_resolved by (metis prod.collapse)
  have eq: "fst (f reference arguments h) = fst (f' reference arguments h')"
      "fst (snd (f reference arguments h)) = fst (snd (f' reference arguments h'))"
    using det f f' by (auto simp: same_deterministic_def)
  obtain v err k where out: "f reference arguments h = (v, err, k)" by (cases "f reference arguments h")
  obtain k' where out': "f' reference arguments h' = (v, err, k')"
    using eq out by (cases "f' reference arguments h'") auto
  have "L1 = L" using run log rec f out
    by (auto simp: invokeExternal_def hostCall_def recording_def Let_def split: option.splits)
  with M have "M1 = M" by simp
  show ?thesis
    using run rec rep dig f f' out out' \<open>L1 = L\<close> \<open>M1 = M\<close>
    by (auto simp: invokeExternal_def hostCall_def recording_def replaying_def resultHash_def Let_def
        split: option.splits)
next
  case False
  then have pol: "snd (resolveCall b' fb' reference) \<noteq> BdDeterministic"
    using det by (auto simp: same_deterministic_def)
  obtain f e where f: "fst (resolveCall b fb reference) = Some f"
    and e: "e = \<lparr>ecSymbolId = frSymbolId reference, ecName = frName reference,
             ecArgumentHash = argumentsHash arguments c,
             ecSucceeded = fst (f reference arguments h) \<noteq> None,
             ecResult = (case fst (f reference arguments h) of Some v \<Rightarrow> v | None \<Rightarrow> VNone),
             ecErrorCode = errCode (fst (snd (f reference arguments h))),
             ecErrorMessage = errMessage (fst (snd (f reference arguments h)))\<rparr>"
    and rec1: "recording c (L @ [e]) (fst (snd (invokeExternal b fb reference arguments s h)))"
    and inv: "invokeExternal b fb reference arguments s h =
           hostCall f True reference arguments (argumentsHash arguments c)
             (onDigest (callHash reference (argumentsHash arguments c)) s) h"
    by (rule recorded_call [OF rec ok False])
  from rec1 run log have L1: "L1 = L @ [e]" by (simp add: recording_def)
  with M have M': "M = e # M1" by simp
  have stable: "fst (f reference arguments h) = Some v \<Longrightarrow> replayStable v" for v
    using ok False f by (cases "resolveCall b fb reference") (auto simp: call_recordable_def)
  have same: "ecSymbolId e = frSymbolId reference" "ecName e = frName reference"
      "ecArgumentHash e = argumentsHash arguments c" by (simp_all add: e)
  note step = replayed_call [OF rep [unfolded M'] pol same refl, of h']
  obtain v err k where out: "f reference arguments h = (v, err, k)" by (cases "f reference arguments h")
  have canon: "doCanonicalize (dsOptions s) = c" using rec by (simp add: recording_def)
  show ?thesis
    using rec1 run L1 rep M' dig out inv stable
    by (cases v; cases err)
      (auto simp: step e hostCall_def replaying_def resultHash_def canon Let_def)
qed

section \<open>A whole run\<close>

lemma log_grows:
  assumes "recording c L s" and "run_recordable n b fb program outs s h"
    and "session_run n b fb program outs s h = (outs1, s1, h1)"
  obtains X where "recording c (L @ X) s1"
  using assms
proof (induction n arbitrary: outs s h L thesis)
  case 0
  then show ?case by (metis append.right_neutral prod.inject session_run.simps(1))
next
  case (Suc n)
  show ?case
  proof (cases "program outs")
    case None
    with Suc.prems show ?thesis by (metis (no_types, lifting) append.right_neutral option.case(1) prod.inject session_run.simps(2))
  next
    case (Some call)
    obtain reference arguments where call: "call = (reference, arguments)" by (cases call)
    obtain r s' h' where step: "invokeExternal b fb reference arguments s h = (r, s', h')"
      by (cases "invokeExternal b fb reference arguments s h")
    have ok: "call_recordable b fb reference arguments h"
      and rest: "run_recordable n b fb program (outs @ [r]) s' h'"
      using Suc.prems(3) Some call step by auto
    have run: "session_run n b fb program (outs @ [r]) s' h' = (outs1, s1, h1)"
      using Suc.prems(4) Some call step by simp
    have "\<exists>X. recording c (L @ X) s'"
    proof (cases "snd (resolveCall b fb reference) = BdDeterministic")
      case True
      with Suc.prems(2) step have "recording c (L @ []) s'"
        by (cases "resolveCall b fb reference")
          (auto simp: invokeExternal_def hostCall_def recording_def Let_def split: option.splits prod.splits)
      then show ?thesis by blast
    next
      case False
      show ?thesis
        by (rule recorded_call [OF Suc.prems(2) ok False]) (metis step fst_conv snd_conv)
    qed
    then obtain X where X: "recording c (L @ X) s'" by blast
    show ?thesis by (rule Suc.IH [OF _ X rest run]) (use Suc.prems(1) in force)
  qed
qed

lemma run_replays:
  assumes "recording c L s" and "replaying c L M t" and "dsDigest t = dsDigest s"
    and "run_recordable n b fb program outs s h"
    and "same_deterministic b fb b' fb'"
    and "session_run n b fb program outs s h = (outs1, s1, h1)"
    and "doReplayLog (dsOptions s1) = Some L1" and "L @ M = L1 @ M1"
  shows "\<exists>t1 h1'. session_run n b' fb' program outs t h' = (outs1, t1, h1') \<and>
      replaying c L1 M1 t1 \<and> dsDigest t1 = dsDigest s1"
  using assms(1-4,6-8)
proof (induction n arbitrary: outs s t h h' L M)
  case 0
  then have "L1 = L" by (simp add: recording_def)
  with 0 show ?case by simp
next
  case (Suc n)
  show ?case
  proof (cases "program outs")
    case None
    with Suc.prems have "L1 = L" "outs1 = outs" "s1 = s" by (simp_all add: recording_def)
    with Suc.prems None show ?thesis by simp
  next
    case (Some call)
    obtain reference arguments where call: "call = (reference, arguments)" by (cases call)
    obtain r s' k where step: "invokeExternal b fb reference arguments s h = (r, s', k)"
      by (cases "invokeExternal b fb reference arguments s h")
    have ok: "call_recordable b fb reference arguments h"
      and rest: "run_recordable n b fb program (outs @ [r]) s' k"
      using Suc.prems(4) Some call step by auto
    have run: "session_run n b fb program (outs @ [r]) s' k = (outs1, s1, h1)"
      using Suc.prems(5) Some call step by simp
    have one: "session_run (Suc 0) b fb (\<lambda>_. Some (reference, arguments)) outs s h = (outs @ [r], s', k)"
      and rec1: "run_recordable (Suc 0) b fb (\<lambda>_. Some (reference, arguments)) outs s h"
      using ok step by simp_all
    obtain X where X: "recording c (L @ X) s'" by (rule log_grows [OF Suc.prems(1) rec1 one])
    obtain Y where "recording c ((L @ X) @ Y) s1" by (rule log_grows [OF X rest run])
    then have L1: "L1 = (L @ X) @ Y" using Suc.prems(6) by (simp add: recording_def)
    then have M: "M = X @ (Y @ M1)" using Suc.prems(7) by simp
    have "doReplayLog (dsOptions s') = Some (L @ X)" using X by (simp add: recording_def)
    from one_call_replays [OF Suc.prems(1-3) ok assms(5) step this, of "Y @ M1" h'] M
    obtain t' k' where t': "invokeExternal b' fb' reference arguments t h' = (r, t', k')"
      and st: "recording c (L @ X) s'" "replaying c (L @ X) (Y @ M1) t'" "dsDigest t' = dsDigest s'"
      by auto
    from Suc.IH [OF st rest run Suc.prems(6), of k'] L1 Some call t' show ?thesis by simp
  qed
qed

lemma finish_agrees:
  assumes "recording c L1 s" and "replaying c L1 [] t" and "dsDigest t = dsDigest s"
  shows "fst (session_finish ok v e trace st t) = fst (session_finish ok v e trace st s)"
    and "fst (snd (session_finish ok v e trace st t)) = fst (snd (session_finish ok v e trace st s))"
    and "dsDigest (snd (snd (session_finish ok v e trace st t))) =
         dsDigest (snd (snd (session_finish ok v e trace st s)))"
proof -
  have "\<not> replayUnfinished s" "\<not> replayUnfinished t" "resultHash t = resultHash s"
    using assms by (auto simp: recording_def replaying_def replayUnfinished_def intro: resultHash_cong)
  with assms(3) show
    "fst (session_finish ok v e trace st t) = fst (session_finish ok v e trace st s)"
    "fst (snd (session_finish ok v e trace st t)) = fst (snd (session_finish ok v e trace st s))"
    "dsDigest (snd (snd (session_finish ok v e trace st t))) =
         dsDigest (snd (snd (session_finish ok v e trace st s)))"
    by (simp_all add: session_finish_def Let_def)
qed

definition session_options :: "DeterminismMode \<Rightarrow> ExternalCallRecord list option \<Rightarrow> bool \<Rightarrow> DeterminismOptions" where
  "session_options mode entries canonicalize =
     \<lparr>doMode = mode, doReplayLog = entries, doCanonicalize = canonicalize\<rparr>"

text \<open>The answer of \<open>finish\<close> with the digest of the finished session.\<close>

definition finished ::
    "bool \<Rightarrow> Value \<Rightarrow> RuntimeError \<Rightarrow> string list \<Rightarrow> RuntimeStatistics \<Rightarrow> DeterminismSession \<Rightarrow>
      bool \<times> RuntimeError \<times> u64" where
  "finished ok v e trace st s = (case session_finish ok v e trace st s of (ok1, e1, s1) \<Rightarrow> (ok1, e1, dsDigest s1))"


text \<open>A host that counts its calls, and one that always answers 99.\<close>

definition countingHost :: "nat ExternalFunction" where
  "countingHost reference arguments h = (Some (VInt (of_nat h)), RuntimeError EcNone [], h + 1)"

definition constantHost :: "nat ExternalFunction" where
  "constantHost reference arguments h = (Some (VInt 99), RuntimeError EcNone [], h)"

definition tickReference :: FunctionReference where
  "tickReference =
     \<lparr>frSymbolId = 7, frName = ''Tick'', frReturnType = PtInt, frReturnTypeId = 0,
      frParameterTypes = [], frParameterTypeIds = [], frVirtualDispatch = False, frVirtualSlot = 0,
      frInterfaceDispatch = False, frInterfaceTypeId = 0, frInterfaceSlot = 0\<rparr>"

definition twoTicks :: script_calls where
  "twoTicks outs = (if length outs < 2 then Some (tickReference, []) else None)"

lemma example_call:
  "doMode (dsOptions s) = DmRecord \<Longrightarrow> doReplayLog (dsOptions s) = Some es \<Longrightarrow>
   \<exists>s1. invokeExternal None (Some countingHost) tickReference [] s h = (Inr (VInt (of_nat h)), s1, h + 1) \<and>
     doMode (dsOptions s1) = DmRecord \<and> doReplayLog (dsOptions s1) \<noteq> None"
  by (simp add: invokeExternal_def resolveCall_def recordRefusal_def hostCall_def countingHost_def Let_def)

lemma example_recording:
  "\<exists>s. session_run 2 None (Some countingHost) twoTicks []
        (newSession (session_options DmRecord (Some []) True)) 5 =
      ([Inr (VInt 5), Inr (VInt 6)], s, 7) \<and>
    run_recordable 2 None (Some countingHost) twoTicks []
        (newSession (session_options DmRecord (Some []) True)) 5"
proof -
  let ?s0 = "newSession (session_options DmRecord (Some []) True)"
  have "doMode (dsOptions ?s0) = DmRecord" "doReplayLog (dsOptions ?s0) = Some []"
    by (simp_all add: newSession_def session_options_def)
  from example_call [OF this, of 5] obtain s1 es where
    1: "invokeExternal None (Some countingHost) tickReference [] ?s0 5 = (Inr (VInt 5), s1, 6)"
    and m: "doMode (dsOptions s1) = DmRecord" "doReplayLog (dsOptions s1) = Some es" by auto
  from example_call [OF m, of 6] obtain s2 where
    2: "invokeExternal None (Some countingHost) tickReference [] s1 6 = (Inr (VInt 6), s2, 7)" by auto
  have ok: "call_recordable None (Some countingHost) tickReference [] k" for k
    by (simp add: call_recordable_def resolveCall_def countingHost_def)
  show ?thesis
    by (simp add: numeral_2_eq_2 twoTicks_def 1 2 ok)
qed


section \<open>Strict mode\<close>

lemma strict_call:
  assumes "doMode (dsOptions s) = DmStrict" and "same_deterministic b fb b' fb'"
    and "invokeExternal b fb reference arguments s h = (r, s1, h1)"
  shows "\<exists>h1'. invokeExternal b' fb' reference arguments s h' = (r, s1, h1') \<and>
      doMode (dsOptions s1) = DmStrict"
proof (cases "snd (resolveCall b fb reference) = BdDeterministic")
  case True
  obtain f where f: "resolveCall b fb reference = (Some f, BdDeterministic)"
    using True deterministic_resolved by (metis prod.collapse)
  have "snd (resolveCall b' fb' reference) = BdDeterministic"
    using assms(2) True by (auto simp: same_deterministic_def)
  then obtain f' where f': "resolveCall b' fb' reference = (Some f', BdDeterministic)"
    using deterministic_resolved by (metis prod.collapse)
  have eq: "fst (f reference arguments h) = fst (f' reference arguments h')"
      "fst (snd (f reference arguments h)) = fst (snd (f' reference arguments h'))"
    using assms(2) f f' by (auto simp: same_deterministic_def)
  obtain v err k where out: "f reference arguments h = (v, err, k)" by (cases "f reference arguments h")
  obtain k' where out': "f' reference arguments h' = (v, err, k')"
    using eq out by (cases "f' reference arguments h'") auto
  show ?thesis
    using assms(1,3) f f' out out' by (cases v) (auto simp: invokeExternal_def hostCall_def Let_def)
next
  case False
  then have "snd (resolveCall b' fb' reference) \<noteq> BdDeterministic"
    using assms(2) by (auto simp: same_deterministic_def)
  with False assms(1,3) show ?thesis
    by (cases "resolveCall b fb reference"; cases "resolveCall b' fb' reference")
      (auto simp: invokeExternal_def Let_def)
qed

text \<open>
  C6: Strict mode makes every run reproducible: whatever the hosts do in their non-deterministic
  functions, two runs of a program whose deterministic bindings agree have the same outcomes and end
  in the same session, digest included.
\<close>

theorem strict_runs_agree:
  assumes "same_deterministic b fb b' fb'"
    and "session_run n b fb program [] (newSession (session_options DmStrict entries c)) h = (outs, s, h1)"
  shows "\<exists>h1'. session_run n b' fb' program [] (newSession (session_options DmStrict entries c)) h' = (outs, s, h1')"
proof -
  have "\<exists>h1'. session_run n b' fb' program pre s0 h' = (outs, s, h1')"
    if "doMode (dsOptions s0) = DmStrict" "session_run n b fb program pre s0 h = (outs, s, h1)" for pre s0
    using that
  proof (induction n arbitrary: pre s0 h h')
    case 0
    then show ?case by simp
  next
    case (Suc n)
    show ?case
    proof (cases "program pre")
      case None
      with Suc.prems show ?thesis by simp
    next
      case (Some call)
      obtain reference arguments where call: "call = (reference, arguments)" by (cases call)
      obtain r s' k where step: "invokeExternal b fb reference arguments s0 h = (r, s', k)"
        by (cases "invokeExternal b fb reference arguments s0 h")
      from strict_call [OF Suc.prems(1) assms(1) step, of h'] obtain k'
        where "invokeExternal b' fb' reference arguments s0 h' = (r, s', k')"
          and "doMode (dsOptions s') = DmStrict" by blast
      moreover from this(2) Suc.IH [of s' "pre @ [r]" k k'] Suc.prems(2) Some call step
      have "\<exists>h1'. session_run n b' fb' program (pre @ [r]) s' k' = (outs, s, h1')" by simp
      ultimately show ?thesis using Some call by simp
    qed
  qed
  from this [OF _ assms(2)] show ?thesis by (simp add: newSession_def session_options_def)
qed

theorem strict_runs_agree_witness:
  "\<exists>outs s h1 h1'.
     session_run 2 None (Some countingHost) twoTicks [] (newSession (session_options DmStrict None True)) 5 = (outs, s, h1) \<and>
     session_run 2 None (Some constantHost) twoTicks [] (newSession (session_options DmStrict None True)) 0 = (outs, s, h1')"
proof -
  have same: "same_deterministic None (Some countingHost) None (Some constantHost)"
    by (simp add: same_deterministic_def resolveCall_def)
  obtain outs s h1 where run: "session_run 2 None (Some countingHost) twoTicks []
      (newSession (session_options DmStrict None True)) 5 = (outs, s, h1)"
    by (metis prod_cases3)
  from strict_runs_agree [OF same run, of 0] run show ?thesis by blast
qed

section \<open>Calls that are refused are not recorded\<close>

text \<open>
  A recorded run in which a function is not registered replays with a different error, because the
  refusal leaves no entry in the log.
\<close>

lemma unregistered_call_not_replayable:
  "fst (invokeExternal None None tickReference [] (newSession (session_options DmRecord (Some []) True)) ()) =
     Inl (notRegistered tickReference)"
  "fst (invokeExternal None None tickReference []
      (newSession (session_options DmReplay
        (doReplayLog (dsOptions (fst (snd (invokeExternal None None tickReference []
          (newSession (session_options DmRecord (Some []) True)) ()))))) True)) ()) =
     Inl (RuntimeError EcReplayMismatch (''replay log ended before external function '' @ quoted ''Tick''))"
  by (simp_all add: invokeExternal_def resolveCall_def recordRefusal_def replayCall_def newSession_def
      session_options_def onDigest_def tickReference_def)

end
