(* ===== verification/Execution_Mirror.thy ===== *)
theory Execution_Mirror
  imports Vm_Arithmetic
begin

text \<open>
  The form in which a linked function is executed (\<open>ExecutionMirror.h\<close> and \<open>buildExecutionMirror\<close> of
  \<open>src/runtime/RuntimeServices.cpp\<close>): every instruction with its fast path, runs of two to four
  instructions that are executed as one, calls bound to their target, and edges bound to the index of
  their block. The mirror of a function is computed from it, since the map from functions to mirrors
  never changes.
\<close>

datatype SuperOpcode =
    SuNone | SuLoadParameterStoreLocal | SuBinaryLocalIntConstant | SuBinaryLocalIntLocal
  | SuBinaryLocalIntConstantStoreLocal | SuBinaryLocalIntLocalStoreLocal

record ExecutionInstruction =
  eiInstruction :: Instruction
  eiQuick :: QuickOpcode
  eiSuper :: SuperOpcode
  eiSpan :: nat
  eiTarget :: "FunctionLocation option"

record ExecutionEdge =
  eeTarget :: nat
  eeSources :: "u32 list"
  eeDestinations :: "BlockParameter list"

record ExecutionBlock =
  ebBlock :: BasicBlock
  ebInstructions :: "ExecutionInstruction list"
  ebBranch :: "ExecutionEdge option"
  ebFalseBranch :: "ExecutionEdge option"

definition registerTypeIs :: "Function \<Rightarrow> u32 \<Rightarrow> PrimitiveType \<Rightarrow> bool" where
  "registerTypeIs f r t \<longleftrightarrow> unat r < length (fnRegisterTypes f) \<and> fnRegisterTypes f ! unat r = t"

definition quickBinary :: "Opcode \<Rightarrow> QuickOpcode" where
  "quickBinary op =
     (case op of
        OpAddInt \<Rightarrow> QAddInt | OpSubtractInt \<Rightarrow> QSubtractInt | OpMultiplyInt \<Rightarrow> QMultiplyInt
      | OpDivideInt \<Rightarrow> QDivideInt | OpRemainderInt \<Rightarrow> QRemainderInt | OpLessInt \<Rightarrow> QLessInt
      | OpLessOrEqualInt \<Rightarrow> QLessOrEqualInt | OpGreaterInt \<Rightarrow> QGreaterInt
      | OpGreaterOrEqualInt \<Rightarrow> QGreaterOrEqualInt | _ \<Rightarrow> QGeneric)"

definition quickOpcode :: "Function \<Rightarrow> Instruction \<Rightarrow> QuickOpcode" where
  "quickOpcode f ins =
     (if inOpcode ins = OpLoadParameter then QLoadParameter
      else if inOpcode ins = OpConstantInt \<and> registerTypeIs f (inResult ins) PtInt then QConstantInt
      else if inOpcode ins = OpLoadLocal then QLoadLocal
      else if inOpcode ins = OpStoreLocal then QStoreLocal
      else if length (inOperands ins) < 2
           \<or> \<not> registerTypeIs f (inOperands ins ! 0) PtInt
           \<or> \<not> registerTypeIs f (inOperands ins ! 1) PtInt
      then QGeneric
      else quickBinary (inOpcode ins))"

definition decoded :: "Function \<Rightarrow> Instruction \<Rightarrow> ExecutionInstruction" where
  "decoded f ins =
     \<lparr>eiInstruction = ins, eiQuick = quickOpcode f ins, eiSuper = SuNone, eiSpan = 1, eiTarget = None\<rparr>"

definition isBinaryInt :: "QuickOpcode \<Rightarrow> bool" where
  "isBinaryInt q \<longleftrightarrow>
     q \<in> {QAddInt, QSubtractInt, QMultiplyInt, QDivideInt, QRemainderInt, QLessInt,
          QLessOrEqualInt, QGreaterInt, QGreaterOrEqualInt}"

definition storesRegister :: "ExecutionInstruction \<Rightarrow> u32 \<Rightarrow> bool" where
  "storesRegister e r \<longleftrightarrow> eiQuick e = QStoreLocal \<and> inOperands (eiInstruction e) ! 0 = r"

text \<open>The first instruction of a fused run is marked; the others stay in place and are skipped.\<close>

definition fusesParameter :: "ExecutionInstruction \<Rightarrow> ExecutionInstruction \<Rightarrow> bool" where
  "fusesParameter e0 e1 \<longleftrightarrow>
     eiQuick e0 = QLoadParameter \<and> storesRegister e1 (inResult (eiInstruction e0))"

definition fusesBinary ::
    "ExecutionInstruction \<Rightarrow> ExecutionInstruction \<Rightarrow> ExecutionInstruction \<Rightarrow> bool" where
  "fusesBinary e0 e1 e2 \<longleftrightarrow>
     eiQuick e0 = QLoadLocal \<and> (eiQuick e1 = QConstantInt \<or> eiQuick e1 = QLoadLocal) \<and>
     isBinaryInt (eiQuick e2) \<and>
     inOperands (eiInstruction e2) ! 0 = inResult (eiInstruction e0) \<and>
     inOperands (eiInstruction e2) ! 1 = inResult (eiInstruction e1)"

definition markSuper :: "SuperOpcode \<Rightarrow> nat \<Rightarrow> ExecutionInstruction \<Rightarrow> ExecutionInstruction" where
  "markSuper op span e = e\<lparr>eiSuper := op, eiSpan := span\<rparr>"

fun fuse :: "ExecutionInstruction list \<Rightarrow> ExecutionInstruction list" where
  "fuse (e0 # e1 # e2 # e3 # es) =
     (if fusesParameter e0 e1
      then markSuper SuLoadParameterStoreLocal 2 e0 # e1 # fuse (e2 # e3 # es)
      else if fusesBinary e0 e1 e2
      then if storesRegister e3 (inResult (eiInstruction e2))
           then markSuper (if eiQuick e1 = QConstantInt then SuBinaryLocalIntConstantStoreLocal
                           else SuBinaryLocalIntLocalStoreLocal) 4 e0 # e1 # e2 # e3 # fuse es
           else markSuper (if eiQuick e1 = QConstantInt then SuBinaryLocalIntConstant
                           else SuBinaryLocalIntLocal) 3 e0 # e1 # e2 # fuse (e3 # es)
      else e0 # fuse (e1 # e2 # e3 # es))"
| "fuse [e0, e1, e2] =
     (if fusesParameter e0 e1 then markSuper SuLoadParameterStoreLocal 2 e0 # e1 # fuse [e2]
      else if fusesBinary e0 e1 e2
      then markSuper (if eiQuick e1 = QConstantInt then SuBinaryLocalIntConstant
                      else SuBinaryLocalIntLocal) 3 e0 # e1 # e2 # fuse []
      else e0 # fuse [e1, e2])"
| "fuse [e0, e1] =
     (if fusesParameter e0 e1 then markSuper SuLoadParameterStoreLocal 2 e0 # e1 # fuse []
      else e0 # fuse [e1])"
| "fuse [e0] = [e0]"
| "fuse [] = []"

text \<open>A call is bound to its target when the reference agrees with the function it names.\<close>

definition directTarget :: "ProgramImage \<Rightarrow> Module \<Rightarrow> Instruction \<Rightarrow> FunctionLocation option" where
  "directTarget program m ins =
     (if inOpcode ins \<noteq> OpCall \<or> length (mdlReferences m) \<le> unat (inIndex ins) then None
      else let reference = mdlReferences m ! unat (inIndex ins)
           in if frVirtualDispatch reference \<or> frInterfaceDispatch reference then None
              else case resolveFunction program (frSymbolId reference) of
                     None \<Rightarrow> None
                   | Some l \<Rightarrow>
                       if frReturnType reference = fnReturnType (flFunction l)
                          \<and> frReturnTypeId reference = fnReturnTypeId (flFunction l)
                          \<and> frParameterTypes reference = fnParameterTypes (flFunction l)
                          \<and> frParameterTypeIds reference = fnParameterTypeIds (flFunction l)
                          \<and> length (inOperands ins) = length (fnParameterTypes (flFunction l))
                       then Some l else None)"

definition bindCall :: "ProgramImage \<Rightarrow> Module \<Rightarrow> ExecutionInstruction \<Rightarrow> ExecutionInstruction" where
  "bindCall program m e =
     (case directTarget program m (eiInstruction e) of
        None \<Rightarrow> e
      | Some l \<Rightarrow> e\<lparr>eiQuick := QCallDirect, eiTarget := Some l\<rparr>)"

text \<open>The first block of an identifier is the one that is found.\<close>

definition blockIndex :: "Function \<Rightarrow> u32 \<Rightarrow> nat option" where
  "blockIndex f target =
     find (\<lambda>i. bbId (fnBlocks f ! i) = target) [0..<length (fnBlocks f)]"

definition bindEdge :: "Function \<Rightarrow> u32 \<Rightarrow> u32 list \<Rightarrow> ExecutionEdge option" where
  "bindEdge f target sources =
     map_option (\<lambda>i. \<lparr>eeTarget = i, eeSources = sources, eeDestinations = bbParameters (fnBlocks f ! i)\<rparr>)
       (blockIndex f target)"

definition mirrorBlock :: "ProgramImage \<Rightarrow> Module \<Rightarrow> Function \<Rightarrow> BasicBlock \<Rightarrow> ExecutionBlock" where
  "mirrorBlock program m f b =
     (let t = bbTerminator b
      in \<lparr>ebBlock = b,
          ebInstructions = map (bindCall program m) (fuse (map (decoded f) (bbInstructions b))),
          ebBranch = (if tmKind t = TkJump \<or> tmKind t = TkBranch
                      then bindEdge f (tmTarget t) (tmArguments t) else None),
          ebFalseBranch = (if tmKind t = TkBranch
                           then bindEdge f (tmFalseTarget t) (tmFalseArguments t) else None)\<rparr>)"

definition edgeSize :: "ExecutionEdge option \<Rightarrow> nat" where
  "edgeSize e = (case e of None \<Rightarrow> 0 | Some edge \<Rightarrow> length (eeSources edge))"

definition edgeScratchCount :: "ExecutionBlock list \<Rightarrow> nat" where
  "edgeScratchCount bs = fold (\<lambda>b n. max n (max (edgeSize (ebBranch b)) (edgeSize (ebFalseBranch b)))) bs 0"

end
