(* ===== verification/Interpreter_State.thy ===== *)
theory Interpreter_State
  imports Execution_Mirror Determinism_Session Managed_Heap
begin

text \<open>
  The state of an execution and the checks around the instructions (\<open>src/runtime/Interpreter.cpp\<close>):
  \<open>State\<close>, \<open>fail\<close>, \<open>consume\<close>, the type checks, default values and equality. The execution has no
  debugger, no trace sink and no profile; the determinism events are on or off. All frames live in
  one vector of values, the roots of the collector. A fresh \<open>StructStorage\<close> takes its address from a
  counter. The functions return a result and the next state.
\<close>

section \<open>Results\<close>

text \<open>
  \<open>Failed\<close> is the \<open>false\<close> of the code. \<open>Crashed\<close> is an exception of C++ or undefined behaviour, where the
  code reads an alternative that a value does not have. \<open>OutOfFuel\<close> is of the model only.
\<close>

datatype 'a result = Done 'a | Failed | Crashed | OutOfFuel

type_synonym ('a, 's) run = "'s \<Rightarrow> 'a result \<times> 's"

definition vbind :: "('a, 's) run \<Rightarrow> ('a \<Rightarrow> ('b, 's) run) \<Rightarrow> ('b, 's) run" where
  "vbind m f st =
     (case m st of
        (Done a, st1) \<Rightarrow> f a st1
      | (Failed, st1) \<Rightarrow> (Failed, st1)
      | (Crashed, st1) \<Rightarrow> (Crashed, st1)
      | (OutOfFuel, st1) \<Rightarrow> (OutOfFuel, st1))"

definition vreturn :: "'a \<Rightarrow> ('a, 's) run" where
  "vreturn a st = (Done a, st)"

definition vfalse :: "('a, 's) run" where
  "vfalse st = (Failed, st)"

section \<open>The state\<close>

record Limits =
  limInstructionBudget :: u64
  limRecursionLimit :: nat
  limGcWorkBudget :: nat

text \<open>
  The address of an instruction, which keys the inline cache, is its place: the symbol of the
  function, the block and the position. The slot of an address in the cache is the allocator's choice
  and a parameter.
\<close>

type_synonym CallSite = "SymbolId \<times> nat \<times> nat"

record InlineCallCacheEntry =
  icCallSite :: CallSite
  icReceiver :: ObjectRef
  icReceiverTypeId :: SymbolId
  icTarget :: FunctionLocation

record 'h VmConfig =
  cfLimits :: Limits
  cfProgram :: ProgramImage
  cfResolver :: "'h ExternalFunction option"
  cfBindings :: "'h BindingRegistry option"
  cfEvents :: bool
  cfCacheSlot :: "CallSite \<Rightarrow> nat"

record 'h Vm =
  vmExecuted :: u64
  vmStatistics :: RuntimeStatistics
  vmError :: RuntimeError
  vmErrorTrace :: "string list"
  vmStack :: "string list"
  vmEventDigest :: u64
  vmEventCount :: u64
  vmSession :: DeterminismSession
  vmFunctionId :: SymbolId
  vmHeap :: ManagedHeap
  vmValues :: "Value list"
  vmTop :: nat
  vmCache :: "nat \<rightharpoonup> InlineCallCacheEntry"
  vmPending :: "Value option"
  vmHost :: 'h
  vmAddress :: nat

definition fastAccounting :: "'h VmConfig \<Rightarrow> bool" where
  "fastAccounting cfg \<longleftrightarrow> \<not> cfEvents cfg \<and> limGcWorkBudget (cfLimits cfg) = 0"

section \<open>Names of operations\<close>

definition opcodeName :: "Opcode \<Rightarrow> string" where
  "opcodeName op =
     (case op of
        OpLoadParameter \<Rightarrow> ''param''
      | OpConstantInt \<Rightarrow> ''const.int''
      | OpConstantDouble \<Rightarrow> ''const.f64''
      | OpConstantBool \<Rightarrow> ''const.bool''
      | OpConstantString \<Rightarrow> ''const.string''
      | OpConstantNull \<Rightarrow> ''const.null''
      | OpLoadLocal \<Rightarrow> ''load.local''
      | OpStoreLocal \<Rightarrow> ''store.local''
      | OpConvertNullToString \<Rightarrow> ''conv.null.string''
      | OpConvertNullToObject \<Rightarrow> ''conv.null.object''
      | OpConvertNullToArray \<Rightarrow> ''conv.null.array''
      | OpConvertIntToLong \<Rightarrow> ''conv.i32.i64''
      | OpConvertIntToDouble \<Rightarrow> ''conv.i32.f64''
      | OpConvertLongToDouble \<Rightarrow> ''conv.i64.f64''
      | OpConvertNumeric \<Rightarrow> ''conv.numeric''
      | OpIsType \<Rightarrow> ''is.type''
      | OpAsType \<Rightarrow> ''as.type''
      | OpConstantTypeId \<Rightarrow> ''const.typeid''
      | OpNewObject \<Rightarrow> ''new.object''
      | OpNewStruct \<Rightarrow> ''new.struct''
      | OpNewArray \<Rightarrow> ''new.array''
      | OpCheckNotNull \<Rightarrow> ''check.notnull''
      | OpArrayLength \<Rightarrow> ''array.length''
      | OpLoadElement \<Rightarrow> ''load.element''
      | OpStoreElement \<Rightarrow> ''store.element''
      | OpLoadField \<Rightarrow> ''load.field''
      | OpStoreField \<Rightarrow> ''store.field''
      | OpLoadStructField \<Rightarrow> ''load.struct.field''
      | OpStoreStructField \<Rightarrow> ''store.struct.field''
      | OpCall \<Rightarrow> ''call''
      | OpNegateInt \<Rightarrow> ''neg.i32''
      | OpNegateLong \<Rightarrow> ''neg.i64''
      | OpNegateDouble \<Rightarrow> ''neg.f64''
      | OpLogicalNot \<Rightarrow> ''not.bool''
      | OpAddInt \<Rightarrow> ''add.i32''
      | OpSubtractInt \<Rightarrow> ''sub.i32''
      | OpMultiplyInt \<Rightarrow> ''mul.i32''
      | OpDivideInt \<Rightarrow> ''div.checked.i32''
      | OpRemainderInt \<Rightarrow> ''rem.checked.i32''
      | OpEqual \<Rightarrow> ''eq''
      | OpNotEqual \<Rightarrow> ''ne''
      | OpLessInt \<Rightarrow> ''lt.i32''
      | OpLessOrEqualInt \<Rightarrow> ''le.i32''
      | OpGreaterInt \<Rightarrow> ''gt.i32''
      | OpGreaterOrEqualInt \<Rightarrow> ''ge.i32''
      | OpAddLong \<Rightarrow> ''add.i64''
      | OpSubtractLong \<Rightarrow> ''sub.i64''
      | OpMultiplyLong \<Rightarrow> ''mul.i64''
      | OpDivideLong \<Rightarrow> ''div.checked.i64''
      | OpRemainderLong \<Rightarrow> ''rem.checked.i64''
      | OpLessLong \<Rightarrow> ''lt.i64''
      | OpLessOrEqualLong \<Rightarrow> ''le.i64''
      | OpGreaterLong \<Rightarrow> ''gt.i64''
      | OpGreaterOrEqualLong \<Rightarrow> ''ge.i64''
      | OpAddDouble \<Rightarrow> ''add.f64''
      | OpSubtractDouble \<Rightarrow> ''sub.f64''
      | OpMultiplyDouble \<Rightarrow> ''mul.f64''
      | OpDivideDouble \<Rightarrow> ''div.f64''
      | OpLessDouble \<Rightarrow> ''lt.f64''
      | OpLessOrEqualDouble \<Rightarrow> ''le.f64''
      | OpGreaterDouble \<Rightarrow> ''gt.f64''
      | OpGreaterOrEqualDouble \<Rightarrow> ''ge.f64''
      | OpNewDelegate \<Rightarrow> ''new.delegate''
      | OpInvokeDelegate \<Rightarrow> ''invoke.delegate''
      | OpCombineDelegate \<Rightarrow> ''combine.delegate''
      | OpRemoveDelegate \<Rightarrow> ''remove.delegate'')"

definition terminatorName :: "TerminatorKind \<Rightarrow> string" where
  "terminatorName k =
     (case k of
        TkNone \<Rightarrow> ''none'' | TkJump \<Rightarrow> ''jmp'' | TkBranch \<Rightarrow> ''br'' | TkReturnValue \<Rightarrow> ''ret''
      | TkReturnVoid \<Rightarrow> ''ret.void'' | TkThrow \<Rightarrow> ''throw'')"

definition determinismOperationId :: "string \<Rightarrow> u64" where
  "determinismOperationId operation = foldl (\<lambda>h c. hashByte h (of_char c)) FnvOffset operation"

section \<open>Events, errors and the budget\<close>

definition emitTrace :: "'h VmConfig \<Rightarrow> TraceEventKind \<Rightarrow> u64 \<Rightarrow> 'h Vm \<Rightarrow> 'h Vm" where
  "emitTrace cfg kind operationId st =
     (if \<not> cfEvents cfg then st
      else st\<lparr>vmEventDigest := accumulateDeterminismEvent (vmEventDigest st) kind (vmFunctionId st)
                operationId (vmExecuted st) (length (vmStack st)),
              vmEventCount := vmEventCount st + 1\<rparr>)"

definition fail :: "'h VmConfig \<Rightarrow> ErrorCode \<Rightarrow> string \<Rightarrow> ('a, 'h Vm) run" where
  "fail cfg code message st =
     (Failed, emitTrace cfg TeRuntimeError 0
        (st\<lparr>vmError := RuntimeError code message, vmErrorTrace := rev (vmStack st)\<rparr>))"

text \<open>One step of the collector, whose roots are the values of all frames.\<close>

definition gcStep :: "'h VmConfig \<Rightarrow> 'h Vm \<Rightarrow> 'h Vm" where
  "gcStep cfg st =
     (if limGcWorkBudget (cfLimits cfg) = 0 then st
      else let (work, h) = step (pushFrame None None (Some (vmValues st)) [])
                             (limGcWorkBudget (cfLimits cfg)) (vmHeap st);
               st1 = st\<lparr>vmHeap := h,
                       vmStatistics := (vmStatistics st)
                         \<lparr>rsGcWorkPerformed := rsGcWorkPerformed (vmStatistics st) + of_nat work\<rparr>\<rparr>
           in if work \<noteq> 0 then emitTrace cfg TeGcStep (of_nat work) st1 else st1)"

definition consume :: "'h VmConfig \<Rightarrow> u64 \<Rightarrow> (unit, 'h Vm) run" where
  "consume cfg operationId st =
     (if limInstructionBudget (cfLimits cfg) \<le> vmExecuted st
      then fail cfg EcInstructionBudgetExceeded ''instruction budget exceeded'' st
      else let st1 = st\<lparr>vmExecuted := vmExecuted st + 1\<rparr>
           in if fastAccounting cfg then (Done (), st1)
              else (Done (), gcStep cfg (emitTrace cfg TeInstruction operationId
                (st1\<lparr>vmStatistics := (vmStatistics st1)\<lparr>rsInstructionsExecuted := vmExecuted st1\<rparr>\<rparr>))))"

section \<open>Frames\<close>

record Frame =
  fmModule :: Module
  fmFunction :: Function
  fmArguments :: nat
  fmLocals :: nat
  fmRegisters :: nat
  fmScratch :: nat

definition argumentAt :: "Frame \<Rightarrow> u32 \<Rightarrow> 'h Vm \<Rightarrow> Value" where
  "argumentAt F i st = vmValues st ! (fmArguments F + unat i)"

definition localAt :: "Frame \<Rightarrow> u32 \<Rightarrow> 'h Vm \<Rightarrow> Value" where
  "localAt F i st = vmValues st ! (fmLocals F + unat i)"

definition registerAt :: "Frame \<Rightarrow> u32 \<Rightarrow> 'h Vm \<Rightarrow> Value" where
  "registerAt F r st = vmValues st ! (fmRegisters F + unat r)"

definition putValue :: "nat \<Rightarrow> Value \<Rightarrow> 'h Vm \<Rightarrow> 'h Vm" where
  "putValue i v st = st\<lparr>vmValues := (vmValues st)[i := v]\<rparr>"

definition setLocal :: "Frame \<Rightarrow> u32 \<Rightarrow> Value \<Rightarrow> 'h Vm \<Rightarrow> 'h Vm" where
  "setLocal F i v = putValue (fmLocals F + unat i) v"

definition setRegister :: "Frame \<Rightarrow> u32 \<Rightarrow> Value \<Rightarrow> 'h Vm \<Rightarrow> 'h Vm" where
  "setRegister F r v = putValue (fmRegisters F + unat r) v"

definition operandAt :: "Frame \<Rightarrow> Instruction \<Rightarrow> nat \<Rightarrow> 'h Vm \<Rightarrow> Value" where
  "operandAt F ins k st = registerAt F (inOperands ins ! k) st"

definition storeResult :: "Frame \<Rightarrow> Instruction \<Rightarrow> Value \<Rightarrow> (unit, 'h Vm) run" where
  "storeResult F ins v st = (Done (), setRegister F (inResult ins) v st)"

end
