(* ===== verification/Interpreter_Checks.thy ===== *)
theory Interpreter_Checks
  imports Interpreter_State
begin

text \<open>
  The checks of values against types, default values and the equality of values
  (\<open>expectType\<close> to \<open>valuesEqual\<close> of \<open>src/runtime/Interpreter.cpp\<close>). The walks along the base types
  keep the set of visited identifiers, as the code does, which also bounds them.
\<close>

section \<open>Assignability\<close>

definition baseOf :: "ProgramImage \<Rightarrow> SymbolId \<Rightarrow> SymbolId" where
  "baseOf program t = (case resolveType program t of Some d \<Rightarrow> tsBaseTypeId d | None \<Rightarrow> 0)"

definition known_ids :: "ProgramImage \<Rightarrow> SymbolId set" where
  "known_ids program = tsId ` set (program_types program)"

lemma finite_known [simp]: "finite (known_ids program)"
  by (simp add: known_ids_def)

lemma resolveType_known: "resolveType program t = Some d \<Longrightarrow> t \<in> known_ids program"
  by (auto simp: resolveType_def known_ids_def find_Some_iff)

lemma visit_decreases:
  assumes "resolveType program current = Some d" and "current \<notin> set visited"
  shows "card (known_ids program - set (current # visited)) < card (known_ids program - set visited)"
proof (rule psubset_card_mono)
  show "known_ids program - set (current # visited) \<subset> known_ids program - set visited"
    using resolveType_known [OF assms(1)] assms(2) by auto
qed simp

function assignableFrom :: "ProgramImage \<Rightarrow> SymbolId \<Rightarrow> SymbolId list \<Rightarrow> SymbolId \<Rightarrow> bool" where
  "assignableFrom program expected visited current =
     (if current = 0 \<or> current \<in> set visited then False
      else case resolveType program current of
             None \<Rightarrow> False
           | Some d \<Rightarrow>
               if expected \<in> fst ` set (tsInterfaceMaps d) then True
               else if tsBaseTypeId d = expected then True
               else assignableFrom program expected (current # visited) (tsBaseTypeId d))"
  by pat_completeness auto

termination assignableFrom
  by (relation "measure (\<lambda>(program, expected, visited, current). card (known_ids program - set visited))")
    (simp_all add: visit_decreases del: set_simps)

declare assignableFrom.simps [simp del]

definition runtimeAssignable :: "ProgramImage \<Rightarrow> SymbolId \<Rightarrow> SymbolId \<Rightarrow> bool" where
  "runtimeAssignable program actual expected \<longleftrightarrow>
     actual = expected \<or> assignableFrom program expected [] actual"

function interfaceMapFrom ::
    "ProgramImage \<Rightarrow> SymbolId \<Rightarrow> SymbolId list \<Rightarrow> SymbolId \<Rightarrow> SymbolId list option" where
  "interfaceMapFrom program interfaceTypeId visited current =
     (if current = 0 \<or> current \<in> set visited then None
      else case resolveType program current of
             None \<Rightarrow> None
           | Some d \<Rightarrow>
               (case find (\<lambda>m. fst m = interfaceTypeId) (tsInterfaceMaps d) of
                  Some m \<Rightarrow> Some (snd m)
                | None \<Rightarrow> interfaceMapFrom program interfaceTypeId (current # visited) (tsBaseTypeId d)))"
  by pat_completeness auto

termination interfaceMapFrom
  by (relation "measure (\<lambda>(program, interfaceTypeId, visited, current). card (known_ids program - set visited))")
    (simp_all add: visit_decreases del: set_simps)

declare interfaceMapFrom.simps [simp del]

definition runtimeInterfaceMap :: "ProgramImage \<Rightarrow> SymbolId \<Rightarrow> SymbolId \<Rightarrow> SymbolId list option" where
  "runtimeInterfaceMap program actual interfaceTypeId = interfaceMapFrom program interfaceTypeId [] actual"

section \<open>Type checks\<close>

definition expectType :: "'h VmConfig \<Rightarrow> Value \<Rightarrow> PrimitiveType \<Rightarrow> string \<Rightarrow> (unit, 'h Vm) run" where
  "expectType cfg value type what st =
     (if (case value of VRef r \<Rightarrow> \<not> isAlive r (vmHeap st) | _ \<Rightarrow> False)
      then fail cfg EcInvalidObjectReference (what @ '' contains an invalid managed object reference'') st
      else if valueType value \<noteq> type
      then fail cfg EcTypeMismatch (mismatchMessage what type (valueType value)) st
      else (Done (), st))"

definition expectObject :: "'h VmConfig \<Rightarrow> Value \<Rightarrow> TypeSymbol \<Rightarrow> bool \<Rightarrow> string \<Rightarrow> (unit, 'h Vm) run" where
  "expectObject cfg value type allowNull what st =
     (let mismatch = fail cfg EcTypeMismatch (what @ '' expected object '' @ quoted (canonicalTypeName type)) st
      in case value of
           VNullObject \<Rightarrow>
             if allowNull then (Done (), st)
             else fail cfg EcNullReference (what @ '' attempted to dereference null'') st
         | VRef r \<Rightarrow>
             if refKind r \<noteq> KRecord then mismatch
             else if \<not> isAlive r (vmHeap st)
             then fail cfg EcInvalidObjectReference (what @ '' contains an invalid managed object reference'') st
             else (case objectTypeId r (vmHeap st) of
                     None \<Rightarrow> mismatch
                   | Some actual \<Rightarrow>
                       if runtimeAssignable (cfProgram cfg) actual (tsId type) then (Done (), st) else mismatch)
         | _ \<Rightarrow> mismatch)"

text \<open>What is wrong with a value of the right primitive type, if anything.\<close>

definition signatureError :: "'h VmConfig \<Rightarrow> Value \<Rightarrow> PrimitiveType \<Rightarrow> SymbolId \<Rightarrow> ManagedHeap \<Rightarrow> string option" where
  "signatureError cfg value type typeId h =
     (case type of
        PtObject \<Rightarrow>
          if value = VNullObject \<or> typeId = 0 then None
          else (case (case value of VRef r \<Rightarrow> objectTypeId r h | _ \<Rightarrow> None) of
                  Some actual \<Rightarrow>
                    if runtimeAssignable (cfProgram cfg) actual typeId then None
                    else Some '' has the wrong runtime object type''
                | None \<Rightarrow> Some '' has the wrong runtime object type'')
      | PtArray \<Rightarrow>
          if value = VNullArray \<or> typeId = 0 then None
          else (case (case value of VRef r \<Rightarrow> arrayTypeId r h | _ \<Rightarrow> None) of
                  Some actual \<Rightarrow> if actual = typeId then None else Some '' has the wrong runtime array type''
                | None \<Rightarrow> Some '' has the wrong runtime array type'')
      | PtHandle \<Rightarrow>
          if typeId = 0 then None
          else (case value of
                  VHandle n \<Rightarrow>
                    if handle_valid n \<and> nhTypeId n \<noteq> typeId
                       \<or> \<not> handle_valid n \<and> nhTypeId n \<noteq> 0 \<and> nhTypeId n \<noteq> typeId
                    then Some '' has the wrong native handle type'' else None
                | _ \<Rightarrow> Some '' has the wrong native handle type'')
      | PtStruct \<Rightarrow>
          (case value of
             VStruct t (Some storage) \<Rightarrow>
               if typeId = 0 \<or> t \<noteq> typeId then Some '' has the wrong struct type'' else None
           | _ \<Rightarrow> Some '' has the wrong struct type'')
      | PtEnum \<Rightarrow>
          (case value of
             VEnum t n \<Rightarrow> if typeId = 0 \<or> t \<noteq> typeId then Some '' has the wrong enum type'' else None
           | _ \<Rightarrow> Some '' has the wrong enum type'')
      | _ \<Rightarrow> None)"

definition expectSignatureType ::
    "'h VmConfig \<Rightarrow> Value \<Rightarrow> PrimitiveType \<Rightarrow> SymbolId \<Rightarrow> string \<Rightarrow> (unit, 'h Vm) run" where
  "expectSignatureType cfg value type typeId what =
     vbind (expectType cfg value type what) (\<lambda>_ st.
       case signatureError cfg value type typeId (vmHeap st) of
         None \<Rightarrow> (Done (), st)
       | Some message \<Rightarrow> fail cfg EcTypeMismatch (what @ message) st)"

section \<open>Default values\<close>

text \<open>
  The first number is how many levels of structs may still be entered, the second the next free
  address. The storage of a struct takes its address before its fields do.
\<close>

fun defaultValue :: "Module \<Rightarrow> nat \<Rightarrow> nat \<Rightarrow> PrimitiveType \<Rightarrow> SymbolId \<Rightarrow> Value \<times> nat"
and defaultFields :: "Module \<Rightarrow> nat \<Rightarrow> nat \<Rightarrow> FieldSymbol list \<Rightarrow> Value list \<times> nat" where
  "defaultValue m levels a type typeId =
     (case type of
        PtBool \<Rightarrow> (VBool False, a) | PtByte \<Rightarrow> (VByte 0, a) | PtSByte \<Rightarrow> (VSByte 0, a)
      | PtShort \<Rightarrow> (VShort 0, a) | PtUShort \<Rightarrow> (VUShort 0, a) | PtInt \<Rightarrow> (VInt 0, a)
      | PtUInt \<Rightarrow> (VUInt 0, a) | PtLong \<Rightarrow> (VLong 0, a) | PtULong \<Rightarrow> (VULong 0, a)
      | PtFloat \<Rightarrow> (VFloat 0, a) | PtDouble \<Rightarrow> (VDouble 0, a) | PtChar \<Rightarrow> (VChar 0, a)
      | PtString \<Rightarrow> (VNullString, a) | PtObject \<Rightarrow> (VNullObject, a) | PtArray \<Rightarrow> (VNullArray, a)
      | PtHandle \<Rightarrow> (VHandle (NativeHandle InvalidSlot 0 typeId 0), a)
      | PtEnum \<Rightarrow> (VEnum typeId 0, a)
      | PtStruct \<Rightarrow>
          (case levels of
             0 \<Rightarrow> (VStruct 0 None, a)
           | Suc deeper \<Rightarrow>
               (case typeDescriptorById m typeId of
                  None \<Rightarrow> (VStruct 0 None, a)
                | Some d \<Rightarrow>
                    if tsKind d \<noteq> TkStruct then (VStruct 0 None, a)
                    else let (vs, a1) = defaultFields m deeper (a + 1) (tsFields d)
                         in (VStruct typeId (Some (StructStorage a vs)), a1)))
      | PtNull \<Rightarrow> (VNone, a) | PtVoid \<Rightarrow> (VNone, a) | PtError \<Rightarrow> (VNone, a))"
| "defaultFields m levels a [] = ([], a)"
| "defaultFields m levels a (f # fs) =
     (let (v, a1) = defaultValue m levels a (fdType f) (exactTypeId (fdType f) (fdTypeName f));
          (vs, a2) = defaultFields m levels a1 fs
      in (v # vs, a2))"

declare defaultValue.simps [simp del]

text \<open>\<open>depth > 64\<close> ends the recursion, so 65 levels may be entered.\<close>

definition defaultLevels :: nat where
  "defaultLevels = 65"

section \<open>Equality\<close>

fun value_eq :: "Value \<Rightarrow> Value \<Rightarrow> bool"
and values_eq :: "Value list \<Rightarrow> Value list \<Rightarrow> bool" where
  "value_eq x y =
     (case x of
        VStruct t s \<Rightarrow>
          (case y of
             VStruct t' s' \<Rightarrow>
               t = t' \<and> (s = s' \<or>
                 (case s of
                    None \<Rightarrow> False
                  | Some (StructStorage a vs) \<Rightarrow>
                      (case s' of None \<Rightarrow> False | Some (StructStorage a' vs') \<Rightarrow> values_eq vs vs')))
           | _ \<Rightarrow> False)
      | VDouble d \<Rightarrow> (case y of VDouble d' \<Rightarrow> f64_eq d d' | _ \<Rightarrow> False)
      | VFloat d \<Rightarrow> (case y of VFloat d' \<Rightarrow> f32_eq d d' | _ \<Rightarrow> False)
      | _ \<Rightarrow> x = y)"
| "values_eq [] ws \<longleftrightarrow> ws = []"
| "values_eq (v # vs) ws \<longleftrightarrow> (case ws of [] \<Rightarrow> False | w # ws' \<Rightarrow> value_eq v w \<and> values_eq vs ws')"

declare value_eq.simps [simp del]

definition stringOf :: "ManagedHeap \<Rightarrow> Value \<Rightarrow> string option" where
  "stringOf h v = (case v of VString s \<Rightarrow> Some s | VRef r \<Rightarrow> stringView r h | _ \<Rightarrow> None)"

definition valid_reference :: "ManagedHeap \<Rightarrow> Value \<Rightarrow> bool" where
  "valid_reference h v \<longleftrightarrow> (case v of VRef r \<Rightarrow> isAlive r h | _ \<Rightarrow> True)"

definition valuesEqual :: "'h VmConfig \<Rightarrow> Value \<Rightarrow> Value \<Rightarrow> (bool, 'h Vm) run" where
  "valuesEqual cfg l r st =
     (if valueType l \<noteq> valueType r then (Done False, st)
      else if valueType l = PtObject \<or> valueType l = PtArray
      then if \<not> valid_reference (vmHeap st) l \<or> \<not> valid_reference (vmHeap st) r
           then fail cfg EcInvalidObjectReference ''reference equality encountered an invalid managed reference'' st
           else (Done (value_eq l r), st)
      else if valueType l \<noteq> PtString then (Done (value_eq l r), st)
      else if l = VNullString \<or> r = VNullString then (Done (l = VNullString \<and> r = VNullString), st)
      else case (stringOf (vmHeap st) l, stringOf (vmHeap st) r) of
             (Some s, Some t) \<Rightarrow> (Done (s = t), st)
           | _ \<Rightarrow> fail cfg EcInvalidObjectReference ''string equality encountered an invalid managed reference'' st)"

end
