(* ===== verification/Interpreter_Instructions.thy ===== *)
theory Interpreter_Instructions
  imports Interpreter_Checks
begin

text \<open>
  The instructions that neither call nor make delegates (\<open>executeInstruction\<close> of
  \<open>src/runtime/Interpreter.cpp\<close>): constants and locals, conversions, types, arrays, objects, structs and
  arithmetic. Operands are read from the registers of the frame and results written there. The heap
  is never missing.
\<close>

section \<open>Failures of the heap\<close>

text \<open>An error of the heap is passed on; the fallbacks apply where it carries no code or message.\<close>

definition heapFailure :: "'h VmConfig \<Rightarrow> RuntimeError \<Rightarrow> ErrorCode \<Rightarrow> string \<Rightarrow> ('a, 'h Vm) run" where
  "heapFailure cfg e code message =
     fail cfg (if errCode e = EcNone then code else errCode e)
       (if errMessage e = [] then message else errMessage e)"

text \<open>An allocation whose reference becomes the result.\<close>

definition storeAllocated ::
    "'h VmConfig \<Rightarrow> Frame \<Rightarrow> Instruction \<Rightarrow> string \<Rightarrow> (ObjectRef outcome \<times> ManagedHeap) \<Rightarrow> (unit, 'h Vm) run" where
  "storeAllocated cfg F ins message allocated st =
     (let (r, h) = allocated; st1 = st\<lparr>vmHeap := h\<rparr>
      in case r of
           Inl e \<Rightarrow> heapFailure cfg e EcOutOfMemory message st1
         | Inr reference \<Rightarrow> storeResult F ins (VRef reference) st1)"

definition storeCalc :: "'h VmConfig \<Rightarrow> Frame \<Rightarrow> Instruction \<Rightarrow> Value calc \<Rightarrow> (unit, 'h Vm) run" where
  "storeCalc cfg F ins c st =
     (case c of
        Ok v \<Rightarrow> storeResult F ins v st
      | Fails code message \<Rightarrow> fail cfg code message st
      | Undef \<Rightarrow> (Crashed, st))"

section \<open>Constants, locals and conversions\<close>

definition constantInt :: "Frame \<Rightarrow> Instruction \<Rightarrow> Value" where
  "constantInt F ins =
     (let t = fnRegisterTypes (fmFunction F) ! unat (inResult ins)
      in if t = PtLong then VLong (inInteger ins)
         else if t = PtEnum
         then VEnum (typeIdAt (fnRegisterTypeIds (fmFunction F)) (unat (inResult ins))) (inInteger ins)
         else VInt (inInteger ins))"

definition convertNull ::
    "'h VmConfig \<Rightarrow> Frame \<Rightarrow> Instruction \<Rightarrow> Value \<Rightarrow> (unit, 'h Vm) run" where
  "convertNull cfg F ins null st =
     vbind (expectType cfg (operandAt F ins 0 st) PtNull ''conversion'')
       (\<lambda>_. storeResult F ins null) st"

text \<open>\<open>static_cast<double>\<close> of a signed 64-bit integer.\<close>

definition f64_of_int :: "int \<Rightarrow> f64" where
  "f64_of_int x = f64_make (x < 0) (bitsOfRatio (nat \<bar>x\<bar> * oneUnits) 1)"

definition convertIntToLong :: "'h VmConfig \<Rightarrow> Frame \<Rightarrow> Instruction \<Rightarrow> (unit, 'h Vm) run" where
  "convertIntToLong cfg F ins st =
     vbind (expectType cfg (operandAt F ins 0 st) PtInt ''numeric conversion'') (\<lambda>_ st1.
       case operandAt F ins 0 st1 of VInt n \<Rightarrow> storeResult F ins (VLong n) st1 | _ \<Rightarrow> (Crashed, st1)) st"

definition convertIntToDouble :: "'h VmConfig \<Rightarrow> Frame \<Rightarrow> Instruction \<Rightarrow> (unit, 'h Vm) run" where
  "convertIntToDouble cfg F ins st =
     vbind (expectType cfg (operandAt F ins 0 st) PtInt ''numeric conversion'') (\<lambda>_ st1.
       case operandAt F ins 0 st1 of
         VInt n \<Rightarrow> storeResult F ins (VDouble (f64_of_int (sint n))) st1 | _ \<Rightarrow> (Crashed, st1)) st"

definition convertLongToDouble :: "'h VmConfig \<Rightarrow> Frame \<Rightarrow> Instruction \<Rightarrow> (unit, 'h Vm) run" where
  "convertLongToDouble cfg F ins st =
     vbind (expectType cfg (operandAt F ins 0 st) PtLong ''numeric conversion'') (\<lambda>_ st1.
       case operandAt F ins 0 st1 of
         VLong n \<Rightarrow> storeResult F ins (VDouble (f64_of_int (sint n))) st1 | _ \<Rightarrow> (Crashed, st1)) st"

definition convertNumeric :: "'h VmConfig \<Rightarrow> Frame \<Rightarrow> Instruction \<Rightarrow> (unit, 'h Vm) run" where
  "convertNumeric cfg F ins st =
     (let types = fnRegisterTypes (fmFunction F)
      in if inResult ins = InvalidRegister \<or> length types \<le> unat (inResult ins)
         then fail cfg EcInvalidProgram ''numeric conversion metadata is invalid'' st
         else case tryConvertNumeric (operandAt F ins 0 st) (types ! unat (inResult ins)) (inChecked ins) of
                None \<Rightarrow> fail cfg EcIntegerOverflow ''numeric conversion overflow'' st
              | Some v \<Rightarrow> storeResult F ins v st)"

definition typeMatches :: "'h VmConfig \<Rightarrow> Frame \<Rightarrow> Instruction \<Rightarrow> 'h Vm \<Rightarrow> bool" where
  "typeMatches cfg F ins st =
     (let value = operandAt F ins 0 st;
          sourceType = fnRegisterTypes (fmFunction F) ! unat (inOperands ins ! 0)
      in if value = VNone \<or> value = VNullString \<or> value = VNullObject \<or> value = VNullArray then False
         else if inElementType ins = PtObject
         then (case (case value of VRef r \<Rightarrow> objectTypeId r (vmHeap st) | _ \<Rightarrow> None) of
                 None \<Rightarrow> False
               | Some actual \<Rightarrow> runtimeAssignable (cfProgram cfg) actual (inElementTypeId ins))
         else if inElementType ins = PtArray
         then (case (case value of VRef r \<Rightarrow> arrayTypeId r (vmHeap st) | _ \<Rightarrow> None) of
                 None \<Rightarrow> False
               | Some actual \<Rightarrow> actual = inElementTypeId ins)
         else sourceType = inElementType ins)"

definition typeTest :: "'h VmConfig \<Rightarrow> Frame \<Rightarrow> Instruction \<Rightarrow> (unit, 'h Vm) run" where
  "typeTest cfg F ins st =
     (if length (fnRegisterTypes (fmFunction F)) \<le> unat (inOperands ins ! 0)
      then fail cfg EcInvalidProgram ''runtime type operation metadata is invalid'' st
      else if inOpcode ins = OpIsType then storeResult F ins (VBool (typeMatches cfg F ins st)) st
      else if typeMatches cfg F ins st then storeResult F ins (operandAt F ins 0 st) st
      else storeResult F ins
             (if inElementType ins = PtString then VNullString
              else if inElementType ins = PtArray then VNullArray else VNullObject) st)"

section \<open>Arrays\<close>

definition newArray :: "'h VmConfig \<Rightarrow> Frame \<Rightarrow> Instruction \<Rightarrow> (unit, 'h Vm) run" where
  "newArray cfg F ins st =
     vbind (expectType cfg (operandAt F ins 0 st) PtInt ''array length'') (\<lambda>_ st1.
       case operandAt F ins 0 st1 of
         VInt n \<Rightarrow>
           if sint n < 0 then fail cfg EcIndexOutOfRange ''array length cannot be negative'' st1
           else if length (fnRegisterTypeIds (fmFunction F)) \<le> unat (inResult ins)
           then fail cfg EcInvalidProgram ''array allocation result type metadata is missing'' st1
           else let (initial, a) = defaultValue (fmModule F) defaultLevels (vmAddress st1)
                      (inElementType ins) (inElementTypeId ins);
                    st2 = st1\<lparr>vmAddress := a\<rparr>
                in storeAllocated cfg F ins ''managed array allocation failed''
                     (allocateTypedArray (fnRegisterTypeIds (fmFunction F) ! unat (inResult ins))
                       (inElementType ins) (inElementTypeId ins) (unat n) initial (vmHeap st2)) st2
       | _ \<Rightarrow> (Crashed, st1)) st"

definition arrayLengthInstruction :: "'h VmConfig \<Rightarrow> Frame \<Rightarrow> Instruction \<Rightarrow> (unit, 'h Vm) run" where
  "arrayLengthInstruction cfg F ins st =
     (if operandAt F ins 0 st = VNullArray
      then fail cfg EcNullReference ''array length attempted to dereference null'' st
      else vbind (expectType cfg (operandAt F ins 0 st) PtArray ''array length'') (\<lambda>_ st1.
        case (case operandAt F ins 0 st1 of VRef r \<Rightarrow> arrayLength r (vmHeap st1) | _ \<Rightarrow> None) of
          None \<Rightarrow> fail cfg EcInvalidObjectReference ''array length references an invalid managed array'' st1
        | Some n \<Rightarrow>
            if n > 2 ^ 31 - 1
            then fail cfg EcInvalidObjectReference ''array length references an invalid managed array'' st1
            else storeResult F ins (VInt (of_nat n)) st1) st)"

text \<open>The checks that reading and writing an element share, with the array and the position they find.\<close>

definition elementPlace ::
    "'h VmConfig \<Rightarrow> Instruction \<Rightarrow> string \<Rightarrow> Value \<Rightarrow> Value \<Rightarrow> (ObjectRef \<times> nat, 'h Vm) run" where
  "elementPlace cfg ins what receiver index st =
     (case (receiver, index) of
        (VRef r, VInt i) \<Rightarrow>
          (case arrayLength r (vmHeap st) of
             None \<Rightarrow> fail cfg EcInvalidObjectReference (what @ '' references an invalid managed array'') st
           | Some n \<Rightarrow>
               if sint i < 0 \<or> n \<le> unat i
               then fail cfg EcIndexOutOfRange ''array element index is out of range'' st
               else if arrayElementType r (vmHeap st) \<noteq> Some (inElementType ins)
                    \<or> arrayElementTypeId r (vmHeap st) \<noteq> Some (inElementTypeId ins)
               then fail cfg EcTypeMismatch ''array element metadata does not match the bytecode operation'' st
               else (Done (r, unat i), st))
      | _ \<Rightarrow> (Crashed, st))"

definition loadElement :: "'h VmConfig \<Rightarrow> Frame \<Rightarrow> Instruction \<Rightarrow> (unit, 'h Vm) run" where
  "loadElement cfg F ins st =
     (let receiver = operandAt F ins 0 st; index = operandAt F ins 1 st
      in if receiver = VNullArray
         then fail cfg EcNullReference ''array element load attempted to dereference null'' st
         else vbind (expectType cfg receiver PtArray ''array element load'') (\<lambda>_.
           vbind (expectType cfg index PtInt ''array index'') (\<lambda>_.
           vbind (elementPlace cfg ins ''array element load'' receiver index) (\<lambda>(r, i) st1.
             case arrayGet r i (vmHeap st1) of
               None \<Rightarrow> (Failed, st1)
             | Some v \<Rightarrow>
                 vbind (expectSignatureType cfg v (inElementType ins) (inElementTypeId ins) ''array element value'')
                   (\<lambda>_. storeResult F ins v) st1))) st)"

definition storeElement :: "'h VmConfig \<Rightarrow> Frame \<Rightarrow> Instruction \<Rightarrow> (unit, 'h Vm) run" where
  "storeElement cfg F ins st =
     (let receiver = operandAt F ins 0 st; index = operandAt F ins 1 st; value = operandAt F ins 2 st
      in if receiver = VNullArray
         then fail cfg EcNullReference ''array element store attempted to dereference null'' st
         else vbind (expectType cfg receiver PtArray ''array element store'') (\<lambda>_.
           vbind (expectType cfg index PtInt ''array index'') (\<lambda>_.
           vbind (expectSignatureType cfg value (inElementType ins) (inElementTypeId ins) ''array element store value'') (\<lambda>_.
           vbind (elementPlace cfg ins ''array element store'' receiver index) (\<lambda>(r, i) st1.
             let (outcome, h) = arraySet r i value
                   (if inElementType ins = PtObject then StorePrevalidated else StoreExact) (vmHeap st1);
                 st2 = st1\<lparr>vmHeap := h\<rparr>
             in case outcome of
                  Inl e \<Rightarrow> heapFailure cfg e EcInvalidProgram ''array element store failed'' st2
                | Inr _ \<Rightarrow> (Done (), st2))))) st)"

section \<open>Objects and structs\<close>

definition newObject :: "'h VmConfig \<Rightarrow> Frame \<Rightarrow> Instruction \<Rightarrow> (unit, 'h Vm) run" where
  "newObject cfg F ins st =
     (case typeDescriptor (fmModule F) (inTypeIndex ins) of
        None \<Rightarrow> fail cfg EcInvalidProgram ''object allocation references an invalid class or heap'' st
      | Some d \<Rightarrow>
          if tsInterfaceType d \<or> tsDelegateType d
          then fail cfg EcInvalidProgram ''object allocation references an invalid class or heap'' st
          else let (vals, a) = defaultFields (fmModule F) defaultLevels (vmAddress st) (tsFields d);
                   refFields = filter (\<lambda>i. fdType (tsFields d ! i) \<in> {PtString, PtObject, PtArray, PtStruct})
                     [0..<length (tsFields d)];
                   st1 = st\<lparr>vmAddress := a\<rparr>
               in storeAllocated cfg F ins ''managed object allocation failed''
                    (allocateObject (tsId d) vals refFields (vmHeap st1)) st1)"

definition newStruct :: "'h VmConfig \<Rightarrow> Frame \<Rightarrow> Instruction \<Rightarrow> (unit, 'h Vm) run" where
  "newStruct cfg F ins st =
     (case typeDescriptor (fmModule F) (inTypeIndex ins) of
        None \<Rightarrow> fail cfg EcInvalidProgram ''struct allocation references an invalid type descriptor'' st
      | Some d \<Rightarrow>
          if tsKind d \<noteq> TkStruct
          then fail cfg EcInvalidProgram ''struct allocation references an invalid type descriptor'' st
          else let (vals, a) = defaultFields (fmModule F) defaultLevels (vmAddress st + 1) (tsFields d)
               in storeResult F ins (VStruct (tsId d) (Some (StructStorage (vmAddress st) vals)))
                    (st\<lparr>vmAddress := a\<rparr>))"

definition checkNotNull :: "'h VmConfig \<Rightarrow> Frame \<Rightarrow> Instruction \<Rightarrow> (unit, 'h Vm) run" where
  "checkNotNull cfg F ins st =
     (case typeDescriptor (fmModule F) (inTypeIndex ins) of
        None \<Rightarrow> (Failed, st)
      | Some d \<Rightarrow>
          vbind (expectObject cfg (operandAt F ins 0 st) d False ''field access'')
            (\<lambda>_. storeResult F ins (operandAt F ins 0 st)) st)"

definition fieldTypeId :: "FieldSymbol \<Rightarrow> SymbolId" where
  "fieldTypeId f = exactTypeId (fdType f) (fdTypeName f)"

definition loadField :: "'h VmConfig \<Rightarrow> Frame \<Rightarrow> Instruction \<Rightarrow> (unit, 'h Vm) run" where
  "loadField cfg F ins st =
     (case typeDescriptor (fmModule F) (inTypeIndex ins) of
        None \<Rightarrow> (Failed, st)
      | Some d \<Rightarrow>
          if length (tsFields d) \<le> unat (inIndex ins) then (Failed, st)
          else vbind (expectObject cfg (operandAt F ins 0 st) d False ''field load'') (\<lambda>_ st1.
            case operandAt F ins 0 st1 of
              VRef r \<Rightarrow>
                (case fieldGet r (unat (inIndex ins)) (vmHeap st1) of
                   None \<Rightarrow> fail cfg EcInvalidProgram ''field load references an invalid field slot'' st1
                 | Some v \<Rightarrow>
                     let f = tsFields d ! unat (inIndex ins)
                     in vbind (expectSignatureType cfg v (fdType f) (fieldTypeId f) ''field load value'')
                          (\<lambda>_. storeResult F ins v) st1)
            | _ \<Rightarrow> (Crashed, st1)) st)"

definition storeField :: "'h VmConfig \<Rightarrow> Frame \<Rightarrow> Instruction \<Rightarrow> (unit, 'h Vm) run" where
  "storeField cfg F ins st =
     (case typeDescriptor (fmModule F) (inTypeIndex ins) of
        None \<Rightarrow> (Failed, st)
      | Some d \<Rightarrow>
          if length (tsFields d) \<le> unat (inIndex ins) then (Failed, st)
          else let f = tsFields d ! unat (inIndex ins); value = operandAt F ins 1 st
               in vbind (expectObject cfg (operandAt F ins 0 st) d False ''field store'') (\<lambda>_.
                    vbind (expectSignatureType cfg value (fdType f) (fieldTypeId f) ''field store value'') (\<lambda>_ st1.
                      case operandAt F ins 0 st1 of
                        VRef r \<Rightarrow>
                          (let (outcome, h) = fieldSet r (unat (inIndex ins)) value (vmHeap st1);
                               st2 = st1\<lparr>vmHeap := h\<rparr>
                           in case outcome of
                                Inl e \<Rightarrow> heapFailure cfg e EcInvalidProgram ''field store failed'' st2
                              | Inr _ \<Rightarrow> (Done (), st2))
                      | _ \<Rightarrow> (Crashed, st1))) st)"

definition loadStructField :: "'h VmConfig \<Rightarrow> Frame \<Rightarrow> Instruction \<Rightarrow> (unit, 'h Vm) run" where
  "loadStructField cfg F ins st =
     (case typeDescriptor (fmModule F) (inTypeIndex ins) of
        None \<Rightarrow> (Failed, st)
      | Some d \<Rightarrow>
          if tsKind d \<noteq> TkStruct \<or> length (tsFields d) \<le> unat (inIndex ins) then (Failed, st)
          else vbind (expectSignatureType cfg (operandAt F ins 0 st) PtStruct (tsId d) ''struct field load'') (\<lambda>_ st1.
            case operandAt F ins 0 st1 of
              VStruct t (Some (StructStorage a vals)) \<Rightarrow>
                if length vals \<le> unat (inIndex ins)
                then fail cfg EcInvalidProgram ''struct field load references an invalid field slot'' st1
                else let f = tsFields d ! unat (inIndex ins); v = vals ! unat (inIndex ins)
                     in vbind (expectSignatureType cfg v (fdType f) (fieldTypeId f) ''struct field load value'')
                          (\<lambda>_. storeResult F ins v) st1
            | VStruct t None \<Rightarrow>
                fail cfg EcInvalidProgram ''struct field load references an invalid field slot'' st1
            | _ \<Rightarrow> (Crashed, st1)) st)"

text \<open>A store makes a new storage; the old value of the struct is not touched.\<close>

definition storeStructField :: "'h VmConfig \<Rightarrow> Frame \<Rightarrow> Instruction \<Rightarrow> (unit, 'h Vm) run" where
  "storeStructField cfg F ins st =
     (case typeDescriptor (fmModule F) (inTypeIndex ins) of
        None \<Rightarrow> (Failed, st)
      | Some d \<Rightarrow>
          if tsKind d \<noteq> TkStruct \<or> length (tsFields d) \<le> unat (inIndex ins) then (Failed, st)
          else let f = tsFields d ! unat (inIndex ins); value = operandAt F ins 1 st
               in vbind (expectSignatureType cfg (operandAt F ins 0 st) PtStruct (tsId d) ''struct field store'') (\<lambda>_.
                    vbind (expectSignatureType cfg value (fdType f) (fieldTypeId f) ''struct field store value'') (\<lambda>_ st1.
                      case operandAt F ins 0 st1 of
                        VStruct t (Some (StructStorage a vals)) \<Rightarrow>
                          if length vals \<le> unat (inIndex ins)
                          then fail cfg EcInvalidProgram ''struct field store references an invalid field slot'' st1
                          else storeResult F ins
                                 (VStruct (tsId d) (Some (StructStorage (vmAddress st1)
                                   (vals[unat (inIndex ins) := value]))))
                                 (st1\<lparr>vmAddress := vmAddress st1 + 1\<rparr>)
                      | VStruct t None \<Rightarrow>
                          fail cfg EcInvalidProgram ''struct field store references an invalid field slot'' st1
                      | _ \<Rightarrow> (Crashed, st1))) st)"

end
