(* ===== verification/Interpreter_Operations.thy ===== *)
theory Interpreter_Operations
  imports Interpreter_Instructions
begin

text \<open>
  The arithmetic instructions and the delegates of the interpreter (\<open>src/runtime/Interpreter.cpp\<close>).
\<close>

section \<open>Arithmetic\<close>

definition equalityInstruction :: "'h VmConfig \<Rightarrow> Frame \<Rightarrow> Instruction \<Rightarrow> (unit, 'h Vm) run" where
  "equalityInstruction cfg F ins st =
     vbind (valuesEqual cfg (operandAt F ins 0 st) (operandAt F ins 1 st))
       (\<lambda>equal. storeResult F ins (VBool (if inOpcode ins = OpEqual then equal else \<not> equal))) st"

definition isIntOpcode :: "Opcode \<Rightarrow> bool" where
  "isIntOpcode op \<longleftrightarrow>
     op \<in> {OpAddInt, OpSubtractInt, OpMultiplyInt, OpDivideInt, OpRemainderInt, OpEqual, OpNotEqual,
           OpLessInt, OpLessOrEqualInt, OpGreaterInt, OpGreaterOrEqualInt}"

definition isLongOpcode :: "Opcode \<Rightarrow> bool" where
  "isLongOpcode op \<longleftrightarrow>
     op \<in> {OpAddLong, OpSubtractLong, OpMultiplyLong, OpDivideLong, OpRemainderLong, OpLessLong,
           OpLessOrEqualLong, OpGreaterLong, OpGreaterOrEqualLong}"

definition isDoubleOpcode :: "Opcode \<Rightarrow> bool" where
  "isDoubleOpcode op \<longleftrightarrow>
     op \<in> {OpAddDouble, OpSubtractDouble, OpMultiplyDouble, OpDivideDouble, OpLessDouble,
           OpLessOrEqualDouble, OpGreaterDouble, OpGreaterOrEqualDouble}"

definition binaryInstruction :: "'h VmConfig \<Rightarrow> Frame \<Rightarrow> Instruction \<Rightarrow> (unit, 'h Vm) run" where
  "binaryInstruction cfg F ins st =
     (let l = operandAt F ins 0 st; r = operandAt F ins 1 st;
          op = inOpcode ins; checked = inChecked ins; f = fmFunction F;
          expect = (\<lambda>v t. expectType cfg v t ''binary operation'')
      in if isIntOpcode op \<and> 2 \<le> length (inOperands ins)
            \<and> registerTypeIs f (inOperands ins ! 0) PtInt \<and> registerTypeIs f (inOperands ins ! 1) PtInt
         then (case (l, r) of
                 (VInt a, VInt b) \<Rightarrow> storeCalc cfg F ins (intBinary op checked a b) st
               | _ \<Rightarrow> fail cfg EcTypeMismatch ''binary operation expected int operands'' st)
         else if isLongOpcode op
         then if valueType l = PtULong
              then vbind (expect r PtULong) (\<lambda>_ st1.
                case (l, r) of
                  (VULong a, VULong b) \<Rightarrow> storeCalc cfg F ins (ulongBinary op checked a b) st1
                | _ \<Rightarrow> (Crashed, st1)) st
              else vbind (expect l PtLong) (\<lambda>_. vbind (expect r PtLong) (\<lambda>_ st1.
                case (l, r) of
                  (VLong a, VLong b) \<Rightarrow> storeCalc cfg F ins (longBinary op checked a b) st1
                | _ \<Rightarrow> (Crashed, st1))) st
         else if isDoubleOpcode op
         then if valueType l = PtFloat
              then vbind (expect r PtFloat) (\<lambda>_ st1.
                case (l, r) of
                  (VFloat a, VFloat b) \<Rightarrow> storeCalc cfg F ins (floatBinary op a b) st1
                | _ \<Rightarrow> (Crashed, st1)) st
              else vbind (expect l PtDouble) (\<lambda>_. vbind (expect r PtDouble) (\<lambda>_ st1.
                case (l, r) of
                  (VDouble a, VDouble b) \<Rightarrow> storeCalc cfg F ins (doubleBinary op a b) st1
                | _ \<Rightarrow> (Crashed, st1))) st
         else if valueType l = PtUInt
         then vbind (expect r PtUInt) (\<lambda>_ st1.
           case (l, r) of
             (VUInt a, VUInt b) \<Rightarrow> storeCalc cfg F ins (uintBinary op checked a b) st1
           | _ \<Rightarrow> (Crashed, st1)) st
         else vbind (expect l PtInt) (\<lambda>_. vbind (expect r PtInt) (\<lambda>_ st1.
           case (l, r) of
             (VInt a, VInt b) \<Rightarrow> storeCalc cfg F ins (intBinary op checked a b) st1
           | _ \<Rightarrow> (Crashed, st1))) st)"

definition negateInstruction :: "'h VmConfig \<Rightarrow> Frame \<Rightarrow> Instruction \<Rightarrow> (unit, 'h Vm) run" where
  "negateInstruction cfg F ins st =
     (let v = operandAt F ins 0 st
      in case inOpcode ins of
           OpNegateInt \<Rightarrow> vbind (expectType cfg v PtInt ''negation'') (\<lambda>_ st1.
             case v of VInt n \<Rightarrow> storeCalc cfg F ins (negateInt (inChecked ins) n) st1 | _ \<Rightarrow> (Crashed, st1)) st
         | OpNegateLong \<Rightarrow> vbind (expectType cfg v PtLong ''negation'') (\<lambda>_ st1.
             case v of VLong n \<Rightarrow> storeCalc cfg F ins (negateLong (inChecked ins) n) st1 | _ \<Rightarrow> (Crashed, st1)) st
         | OpNegateDouble \<Rightarrow>
             (case v of
                VFloat x \<Rightarrow> storeResult F ins (VFloat (f32_neg x)) st
              | _ \<Rightarrow> vbind (expectType cfg v PtDouble ''negation'') (\<lambda>_ st1.
                  case v of VDouble x \<Rightarrow> storeResult F ins (VDouble (f64_neg x)) st1 | _ \<Rightarrow> (Crashed, st1)) st)
         | _ \<Rightarrow> vbind (expectType cfg v PtBool ''logical not'') (\<lambda>_ st1.
             case v of VBool b \<Rightarrow> storeResult F ins (VBool (\<not> b)) st1 | _ \<Rightarrow> (Crashed, st1)) st)"

section \<open>Delegates\<close>

text \<open>A delegate is an object of eight fields; the flags in field 3 are 4 for a list of delegates.\<close>

definition delegateWord :: "u64 \<Rightarrow> bool \<Rightarrow> Value" where
  "delegateWord value high = VInt (ucast (ucast (if high then drop_bit 32 value else value) :: u32))"

definition newDelegate :: "'h VmConfig \<Rightarrow> Frame \<Rightarrow> Instruction \<Rightarrow> (unit, 'h Vm) run" where
  "newDelegate cfg F ins st =
     (case typeDescriptor (fmModule F) (inTypeIndex ins) of
        None \<Rightarrow> fail cfg EcInvalidProgram ''delegate creation has invalid metadata'' st
      | Some d \<Rightarrow>
          if \<not> tsDelegateType d \<or> length (mdlReferences (fmModule F)) \<le> unat (inIndex ins)
             \<or> 1 < length (inOperands ins)
          then fail cfg EcInvalidProgram ''delegate creation has invalid metadata'' st
          else
            let reference = mdlReferences (fmModule F) ! unat (inIndex ins);
                virt = frVirtualDispatch reference; iface = frInterfaceDispatch reference;
                allocation = (\<lambda>target st1.
                  storeAllocated cfg F ins ''delegate allocation failed''
                    (allocateObject (tsId d)
                      [target, delegateWord (frSymbolId reference) False, delegateWord (frSymbolId reference) True,
                       VInt ((if virt then 1 else 0) OR (if iface then 2 else 0)),
                       VInt (if virt then ucast (frVirtualSlot reference)
                             else if iface then ucast (frInterfaceSlot reference) else 0),
                       delegateWord (frInterfaceTypeId reference) False,
                       delegateWord (frInterfaceTypeId reference) True, VNullObject]
                      [0, 7] (vmHeap st1)) st1)
            in if inOperands ins \<noteq> []
               then if frParameterTypes reference = [] then (Failed, st)
                    else vbind (expectSignatureType cfg (operandAt F ins 0 st) (hd (frParameterTypes reference))
                           (typeIdAt (frParameterTypeIds reference) 0) ''delegate target'')
                           (\<lambda>_. allocation (operandAt F ins 0 st)) st
               else if frParameterTypes reference \<noteq> [] \<and> (virt \<or> iface)
               then fail cfg EcInvalidProgram ''delegate dispatch target has no receiver'' st
               else allocation VNullObject st)"

text \<open>The leaves of a list, left to right; the number is how deep the walk may still go.\<close>

fun flattenDelegate :: "'h VmConfig \<Rightarrow> SymbolId \<Rightarrow> nat \<Rightarrow> Value \<Rightarrow> (Value list, 'h Vm) run" where
  "flattenDelegate cfg typeId 0 value st =
     (if value = VNullObject then (Done [], st)
      else fail cfg EcInvalidProgram ''delegate invocation list is too deep'' st)"
| "flattenDelegate cfg typeId (Suc deeper) value st =
     (if value = VNullObject then (Done [], st)
      else case value of
        VRef r \<Rightarrow>
          if objectTypeId r (vmHeap st) \<noteq> Some typeId \<or> fieldCount r (vmHeap st) \<noteq> Some 8
          then fail cfg EcTypeMismatch ''delegate invocation list contains an incompatible value'' st
          else (case fieldGet r 3 (vmHeap st) of
                  Some (VInt flags) \<Rightarrow>
                    if sint flags < 0 \<or> 4 < sint flags
                    then fail cfg EcInvalidProgram ''delegate invocation-list metadata is corrupt'' st
                    else if flags \<noteq> 4 then (Done [value], st)
                    else (case (fieldGet r 0 (vmHeap st), fieldGet r 7 (vmHeap st)) of
                            (Some l, Some r) \<Rightarrow>
                              vbind (flattenDelegate cfg typeId deeper l) (\<lambda>ls.
                                vbind (flattenDelegate cfg typeId deeper r) (\<lambda>rs. vreturn (ls @ rs))) st
                          | _ \<Rightarrow> (Failed, st))
                | _ \<Rightarrow> fail cfg EcInvalidProgram ''delegate invocation-list metadata is corrupt'' st)
      | _ \<Rightarrow> fail cfg EcTypeMismatch ''delegate invocation list contains an incompatible value'' st)"

text \<open>Depths 0 to 1024 are allowed.\<close>

definition delegateDepth :: nat where
  "delegateDepth = 1025"

definition sameDelegateLeaf :: "ManagedHeap \<Rightarrow> Value \<Rightarrow> Value \<Rightarrow> bool" where
  "sameDelegateLeaf h l r =
     (case (l, r) of
        (VRef a, VRef b) \<Rightarrow>
          list_all (\<lambda>i. case (fieldGet a i h, fieldGet b i h) of
            (Some x, Some y) \<Rightarrow> value_eq x y | _ \<Rightarrow> False) [0..<7]
      | _ \<Rightarrow> False)"

text \<open>The last place at which the leaves to remove stand.\<close>

definition lastMatch :: "ManagedHeap \<Rightarrow> Value list \<Rightarrow> Value list \<Rightarrow> nat option" where
  "lastMatch h ls rs =
     fold (\<lambda>start found.
       if list_all2 (sameDelegateLeaf h) (take (length rs) (drop start ls)) rs then Some start else found)
       [0..<length ls + 1 - length rs] None"

definition removeLeaves :: "ManagedHeap \<Rightarrow> Value list \<Rightarrow> Value list \<Rightarrow> Value list" where
  "removeLeaves h ls rs =
     (if rs = [] \<or> length ls < length rs then ls
      else case lastMatch h ls rs of
             None \<Rightarrow> ls
           | Some i \<Rightarrow> take i ls @ drop (i + length rs) ls)"

fun buildDelegateFrom :: "'h VmConfig \<Rightarrow> SymbolId \<Rightarrow> Value \<Rightarrow> Value list \<Rightarrow> (Value, 'h Vm) run" where
  "buildDelegateFrom cfg typeId acc [] st = (Done acc, st)"
| "buildDelegateFrom cfg typeId acc (leaf # leaves) st =
     (let (r, h) = allocateObject typeId
            [acc, VInt 0, VInt 0, VInt 4, VInt 0, VInt 0, VInt 0, leaf] [0, 7] (vmHeap st);
          st1 = st\<lparr>vmHeap := h\<rparr>
      in case r of
           Inl e \<Rightarrow> heapFailure cfg e EcOutOfMemory ''delegate-list allocation failed'' st1
         | Inr reference \<Rightarrow> buildDelegateFrom cfg typeId (VRef reference) leaves st1)"

definition buildDelegateList :: "'h VmConfig \<Rightarrow> SymbolId \<Rightarrow> Value list \<Rightarrow> (Value, 'h Vm) run" where
  "buildDelegateList cfg typeId leaves st =
     (case leaves of [] \<Rightarrow> (Done VNullObject, st) | v # vs \<Rightarrow> buildDelegateFrom cfg typeId v vs st)"

definition combineDelegates :: "'h VmConfig \<Rightarrow> Frame \<Rightarrow> Instruction \<Rightarrow> (unit, 'h Vm) run" where
  "combineDelegates cfg F ins st =
     (case typeDescriptor (fmModule F) (inTypeIndex ins) of
        None \<Rightarrow> (Failed, st)
      | Some d \<Rightarrow>
          if \<not> tsDelegateType d then (Failed, st)
          else let l = operandAt F ins 0 st; r = operandAt F ins 1 st
               in vbind (expectSignatureType cfg l PtObject (tsId d) ''delegate combination left operand'') (\<lambda>_.
                  vbind (expectSignatureType cfg r PtObject (tsId d) ''delegate combination right operand'') (\<lambda>_.
                  vbind (flattenDelegate cfg (tsId d) delegateDepth l) (\<lambda>ls.
                  vbind (flattenDelegate cfg (tsId d) delegateDepth r) (\<lambda>rs st1.
                  vbind (buildDelegateList cfg (tsId d)
                    (if inOpcode ins = OpCombineDelegate then ls @ rs else removeLeaves (vmHeap st1) ls rs))
                    (storeResult F ins) st1)))) st)"

definition readDelegateId ::
    "'h VmConfig \<Rightarrow> ObjectRef \<Rightarrow> nat \<Rightarrow> string \<Rightarrow> (SymbolId, 'h Vm) run" where
  "readDelegateId cfg r low message st =
     (case (fieldGet r low (vmHeap st), fieldGet r (low + 1) (vmHeap st)) of
        (Some (VInt a), Some (VInt b)) \<Rightarrow>
          if sint a < 0 \<or> sint b < 0 \<or> sint a > 2 ^ 32 - 1 \<or> sint b > 2 ^ 32 - 1
          then fail cfg EcInvalidProgram message st
          else (Done (ucast (ucast a :: u32) OR push_bit 32 (ucast (ucast b :: u32))), st)
      | _ \<Rightarrow> fail cfg EcInvalidProgram message st)"

end
