(* ===== verification/Interpreter.thy ===== *)
theory Interpreter
  imports Interpreter_Operations
begin

text \<open>
  The interpreter (\<open>src/runtime/Interpreter.cpp\<close>): calls with their inline cache, the invocation of
  delegates, the fast and the fused instructions, the blocks of a function with exception handlers and
  edges, and \<open>invoke\<close>. Calls nest, so the functions that call take a fuel; the theory
  \<open>Interpreter_Termination\<close> shows how much always suffices.
\<close>

section \<open>Calls\<close>

text \<open>
  \<open>executeFunction\<close> is passed to the instructions that call, as \<open>Exec\<close>: its arguments are the function,
  the values of the arguments and whether they have been validated.
\<close>

type_synonym 'h executor = "FunctionLocation \<Rightarrow> Value list \<Rightarrow> bool \<Rightarrow> (Value, 'h Vm) run"

fun expectSignatures ::
    "'h VmConfig \<Rightarrow> string \<Rightarrow> PrimitiveType list \<Rightarrow> SymbolId list \<Rightarrow> nat \<Rightarrow> Value list \<Rightarrow> (unit, 'h Vm) run" where
  "expectSignatures cfg what types typeIds i [] st = (Done (), st)"
| "expectSignatures cfg what types typeIds i (v # vs) st =
     vbind (expectSignatureType cfg v (types ! i) (typeIdAt typeIds i) what)
       (\<lambda>_. expectSignatures cfg what types typeIds (i + 1) vs) st"

text \<open>A hit of the inline cache, by the receiver itself or by its type.\<close>

definition cachedTarget ::
    "'h VmConfig \<Rightarrow> CallSite \<Rightarrow> (InlineCallCacheEntry \<Rightarrow> bool) \<Rightarrow> 'h Vm \<Rightarrow> FunctionLocation option" where
  "cachedTarget cfg site P st =
     (case vmCache st (cfCacheSlot cfg site) of
        Some e \<Rightarrow> if P e \<and> icCallSite e = site then Some (icTarget e) else None
      | None \<Rightarrow> None)"

definition cacheCall ::
    "'h VmConfig \<Rightarrow> CallSite \<Rightarrow> Value \<Rightarrow> FunctionLocation \<Rightarrow> 'h Vm \<Rightarrow> 'h Vm" where
  "cacheCall cfg site receiver target st =
     (case receiver of
        VRef r \<Rightarrow>
          (case objectTypeId r (vmHeap st) of
             Some t \<Rightarrow>
               st\<lparr>vmCache := (vmCache st)(cfCacheSlot cfg site \<mapsto>
                   \<lparr>icCallSite = site, icReceiver = r, icReceiverTypeId = t, icTarget = target\<rparr>)\<rparr>
           | None \<Rightarrow> st)
      | _ \<Rightarrow> st)"

text \<open>The symbol that the dispatch tables of a type give for a reference.\<close>

definition virtualTarget ::
    "'h VmConfig \<Rightarrow> FunctionReference \<Rightarrow> SymbolId \<Rightarrow> (SymbolId, 'h Vm) run" where
  "virtualTarget cfg reference actual st =
     (case resolveType (cfProgram cfg) actual of
        None \<Rightarrow> fail cfg EcInvalidProgram ''virtual call slot is outside the runtime dispatch table'' st
      | Some d \<Rightarrow>
          if length (tsVirtualTable d) \<le> unat (frVirtualSlot reference)
          then fail cfg EcInvalidProgram ''virtual call slot is outside the runtime dispatch table'' st
          else let target = tsVirtualTable d ! unat (frVirtualSlot reference)
               in if target = 0
                  then fail cfg EcInvalidProgram ''virtual call reached an abstract runtime slot'' st
                  else (Done target, st))"

definition interfaceTarget ::
    "'h VmConfig \<Rightarrow> FunctionReference \<Rightarrow> SymbolId \<Rightarrow> (SymbolId, 'h Vm) run" where
  "interfaceTarget cfg reference actual st =
     (case runtimeInterfaceMap (cfProgram cfg) actual (frInterfaceTypeId reference) of
        None \<Rightarrow> fail cfg EcInvalidProgram ''interface call slot is outside the runtime dispatch map'' st
      | Some slotTargets \<Rightarrow>
          if length slotTargets \<le> unat (frInterfaceSlot reference)
          then fail cfg EcInvalidProgram ''interface call slot is outside the runtime dispatch map'' st
          else let target = slotTargets ! unat (frInterfaceSlot reference)
               in if target = 0
                  then fail cfg EcInvalidProgram ''interface call reached an unimplemented runtime slot'' st
                  else (Done target, st))"

text \<open>
  Dispatch on a receiver: the cache is asked for the receiver, then for its type, then the tables. The
  result is either a cached function or the symbol to call.
\<close>

definition dispatchReceiver ::
    "'h VmConfig \<Rightarrow> CallSite \<Rightarrow> Value \<Rightarrow> string \<Rightarrow> (SymbolId \<Rightarrow> (SymbolId, 'h Vm) run) \<Rightarrow>
      (FunctionLocation + SymbolId, 'h Vm) run" where
  "dispatchReceiver cfg site receiver what tables st =
     (if receiver = VNullObject
      then fail cfg EcNullReference (what @ '' call attempted to dereference null'') st
      else
        case (case receiver of VRef r \<Rightarrow> cachedTarget cfg site (\<lambda>e. icReceiver e = r) st | _ \<Rightarrow> None) of
          Some l \<Rightarrow> (Done (Inl l), st)
        | None \<Rightarrow>
            (case (case receiver of VRef r \<Rightarrow> objectTypeId r (vmHeap st) | _ \<Rightarrow> None) of
               None \<Rightarrow>
                 fail cfg EcInvalidObjectReference (what @ '' call receiver has no runtime type descriptor'') st
             | Some t \<Rightarrow>
                 (case cachedTarget cfg site (\<lambda>e. icReceiverTypeId e = t) st of
                    Some l \<Rightarrow> (Done (Inl l), st)
                  | None \<Rightarrow> vbind (tables t) (\<lambda>symbol. vreturn (Inr symbol)) st)))"

definition validReceiverContract :: "FunctionReference \<Rightarrow> Value list \<Rightarrow> bool" where
  "validReceiverContract reference arguments \<longleftrightarrow>
     arguments \<noteq> [] \<and> frParameterTypes reference \<noteq> [] \<and> hd (frParameterTypes reference) = PtObject"

definition dispatch ::
    "'h VmConfig \<Rightarrow> CallSite \<Rightarrow> FunctionReference \<Rightarrow> Value list \<Rightarrow> (FunctionLocation + SymbolId, 'h Vm) run" where
  "dispatch cfg site reference arguments st =
     (if frVirtualDispatch reference \<and> frInterfaceDispatch reference
      then fail cfg EcInvalidProgram ''call cannot use virtual and interface dispatch together'' st
      else if frVirtualDispatch reference
      then if frVirtualSlot reference = NoSlot \<or> \<not> validReceiverContract reference arguments
           then fail cfg EcInvalidProgram ''virtual call has an invalid receiver contract'' st
           else dispatchReceiver cfg site (hd arguments) ''virtual'' (virtualTarget cfg reference) st
      else if frInterfaceDispatch reference
      then if frInterfaceTypeId reference = 0 \<or> frInterfaceSlot reference = NoSlot
              \<or> \<not> validReceiverContract reference arguments
              \<or> typeIdAt (frParameterTypeIds reference) 0 \<noteq> frInterfaceTypeId reference
           then fail cfg EcInvalidProgram ''interface call has an invalid receiver contract'' st
           else dispatchReceiver cfg site (hd arguments) ''interface'' (interfaceTarget cfg reference) st
      else (Done (Inr (frSymbolId reference)), st))"

text \<open>A call that leaves the machine.\<close>

definition externalCall ::
    "'h VmConfig \<Rightarrow> FunctionReference \<Rightarrow> Value list \<Rightarrow> (Value, 'h Vm) run" where
  "externalCall cfg reference arguments =
     vbind (expectSignatures cfg ''call argument'' (frParameterTypes reference)
       (frParameterTypeIds reference) 0 arguments) (\<lambda>_ st.
       let st1 = emitTrace cfg TeExternalCall (frSymbolId reference)
             (st\<lparr>vmStatistics := (vmStatistics st)
                  \<lparr>rsExternalCalls := rsExternalCalls (vmStatistics st) + 1\<rparr>\<rparr>);
           (r, session, host) = invokeExternal (cfBindings cfg) (cfResolver cfg) reference arguments
             (vmSession st1) (vmHost st1);
           st2 = st1\<lparr>vmSession := session, vmHost := host\<rparr>
       in case r of
            Inl e \<Rightarrow>
              (Failed, st2\<lparr>vmError :=
                 (if errCode e = EcNone
                  then RuntimeError EcExternalFunctionUnresolved
                    (''external function '' @ quoted (frName reference) @ '' failed'')
                  else e),
                 vmErrorTrace := rev (vmStack st2)\<rparr>)
          | Inr v \<Rightarrow>
              vbind (expectSignatureType cfg v (frReturnType reference) (frReturnTypeId reference)
                ''external return value'') (\<lambda>_. vreturn v) st2)"

definition executeCall ::
    "'h VmConfig \<Rightarrow> 'h executor \<Rightarrow> Frame \<Rightarrow> CallSite \<Rightarrow> Instruction \<Rightarrow> (Value, 'h Vm) run" where
  "executeCall cfg Exec F site ins st =
     (if length (mdlReferences (fmModule F)) \<le> unat (inIndex ins)
      then fail cfg EcInvalidProgram ''call reference index is invalid'' st
      else if \<not> list_all (\<lambda>r. unat r < length (fnRegisterTypes (fmFunction F))) (inOperands ins)
      then fail cfg EcInvalidProgram ''call operand register is invalid'' st
      else
        let reference = mdlReferences (fmModule F) ! unat (inIndex ins);
            arguments = map (\<lambda>r. registerAt F r st) (inOperands ins);
            dispatched = frVirtualDispatch reference \<or> frInterfaceDispatch reference
        in if length arguments \<noteq> length (frParameterTypes reference)
           then fail cfg EcInvalidProgram ''call argument count does not match its reference'' st
           else vbind (dispatch cfg site reference arguments) (\<lambda>target st1.
             case target of
               Inl cached \<Rightarrow> Exec cached arguments True st1
             | Inr symbol \<Rightarrow>
                 (case resolveFunction (cfProgram cfg) symbol of
                    Some l \<Rightarrow>
                      Exec l arguments False
                        (if dispatched then cacheCall cfg site (hd arguments) l st1 else st1)
                  | None \<Rightarrow>
                      if dispatched
                      then fail cfg EcInvalidProgram ''runtime dispatch target function is unavailable'' st1
                      else externalCall cfg reference arguments st1)) st)"

section \<open>Invoking a delegate\<close>

definition invokeParameters :: "TypeSymbol \<Rightarrow> VariableSymbol list option" where
  "invokeParameters d = map_option mdParameters (find (\<lambda>md. mdName md = ''Invoke'') (tsMethods d))"

fun expectDelegateArguments ::
    "'h VmConfig \<Rightarrow> VariableSymbol list \<Rightarrow> Value list \<Rightarrow> (unit, 'h Vm) run" where
  "expectDelegateArguments cfg (p # ps) (v # vs) st =
     vbind (expectSignatureType cfg v (storageTypeOf p)
       (exactTypeId (storageTypeOf p) (storageTypeNameOf p)) ''delegate argument'')
       (\<lambda>_. expectDelegateArguments cfg ps vs) st"
| "expectDelegateArguments cfg _ _ st = (Done (), st)"

text \<open>The function that a delegate of the flags calls on its receiver.\<close>

definition delegateDispatch ::
    "'h VmConfig \<Rightarrow> ObjectRef \<Rightarrow> u64 \<Rightarrow> nat \<Rightarrow> Value list \<Rightarrow> SymbolId \<Rightarrow> (SymbolId, 'h Vm) run" where
  "delegateDispatch cfg delegate flags slot arguments symbol st =
     (let virt = (flags AND 1 \<noteq> 0); iface = (flags AND 2 \<noteq> 0)
      in if \<not> virt \<and> \<not> iface then (Done symbol, st)
         else case (case arguments of VRef r # _ \<Rightarrow> objectTypeId r (vmHeap st) | _ \<Rightarrow> None) of
                None \<Rightarrow> fail cfg EcInvalidObjectReference ''delegate receiver has no runtime type'' st
              | Some t \<Rightarrow>
                  (case resolveType (cfProgram cfg) t of
                     None \<Rightarrow> fail cfg EcInvalidProgram ''delegate receiver descriptor is unavailable'' st
                   | Some d \<Rightarrow>
                       if virt
                       then if length (tsVirtualTable d) \<le> slot
                            then fail cfg EcInvalidProgram ''delegate virtual slot is invalid'' st
                            else (Done (tsVirtualTable d ! slot), st)
                       else vbind (readDelegateId cfg delegate 5 ''delegate interface identity is corrupt'')
                         (\<lambda>interfaceTypeId st1.
                            case runtimeInterfaceMap (cfProgram cfg) t interfaceTypeId of
                              Some slotTargets \<Rightarrow>
                                if length slotTargets \<le> slot
                                then fail cfg EcInvalidProgram ''delegate interface slot is invalid'' st1
                                else (Done (slotTargets ! slot), st1)
                            | None \<Rightarrow> fail cfg EcInvalidProgram ''delegate interface slot is invalid'' st1) st))"

definition invokeSingle ::
    "'h VmConfig \<Rightarrow> 'h executor \<Rightarrow> TypeSymbol \<Rightarrow> ObjectRef \<Rightarrow> Value list \<Rightarrow> (Value, 'h Vm) run" where
  "invokeSingle cfg Exec d delegate operandValues st =
     (case invokeParameters d of
        None \<Rightarrow> fail cfg EcInvalidProgram ''delegate invocation signature is invalid'' st
      | Some parameters \<Rightarrow>
          if parameters = [] \<or> length operandValues \<noteq> length parameters
          then fail cfg EcInvalidProgram ''delegate invocation signature is invalid'' st
          else vbind (expectDelegateArguments cfg (tl parameters) (tl operandValues)) (\<lambda>_.
               vbind (readDelegateId cfg delegate 1 ''delegate callable identity is corrupt'') (\<lambda>symbol st1.
                 case (fieldGet delegate 0 (vmHeap st1), fieldGet delegate 3 (vmHeap st1),
                       fieldGet delegate 4 (vmHeap st1)) of
                   (Some target, Some (VInt flags), Some (VInt slot)) \<Rightarrow>
                     if sint flags < 0 \<or> 3 < sint flags \<or> sint slot < 0 \<or> 2 ^ 32 - 1 < sint slot
                     then fail cfg EcInvalidProgram ''delegate dispatch metadata is corrupt'' st1
                     else if flags = 3
                     then fail cfg EcInvalidProgram ''delegate dispatch modes conflict'' st1
                     else let arguments = (if target = VNullObject then tl operandValues
                                           else target # tl operandValues)
                          in vbind (delegateDispatch cfg delegate flags (unat slot) arguments symbol)
                               (\<lambda>targetSymbol st2.
                                  case resolveFunction (cfProgram cfg) targetSymbol of
                                    None \<Rightarrow> fail cfg EcInvalidProgram ''delegate target function is unavailable'' st2
                                  | Some l \<Rightarrow> Exec l arguments False st2) st1
                 | _ \<Rightarrow> fail cfg EcInvalidProgram ''delegate dispatch metadata is corrupt'' st1)) st)"

text \<open>
  A list of delegates is invoked by executing the instruction once more for each leaf, on a copy of the
  registers in which the leaf stands in the place of the list. The value is that of the last leaf.
\<close>

definition withLeaf :: "Instruction \<Rightarrow> Value \<Rightarrow> Value list \<Rightarrow> Value list" where
  "withLeaf ins leaf operandValues =
     map2 (\<lambda>r v. if r = hd (inOperands ins) then leaf else v) (inOperands ins) operandValues"

definition invokeStart :: "'h VmConfig \<Rightarrow> Frame \<Rightarrow> Instruction \<Rightarrow> Value list \<Rightarrow>
    (TypeSymbol \<times> ObjectRef, 'h Vm) run" where
  "invokeStart cfg F ins operandValues st =
     (case typeDescriptor (fmModule F) (inTypeIndex ins) of
        None \<Rightarrow> fail cfg EcInvalidProgram ''delegate invocation has invalid metadata'' st
      | Some d \<Rightarrow>
          if \<not> tsDelegateType d
          then fail cfg EcInvalidProgram ''delegate invocation has invalid metadata'' st
          else case hd operandValues of
                 VNullObject \<Rightarrow> fail cfg EcNullReference ''delegate invocation attempted to dereference null'' st
               | VRef r \<Rightarrow>
                   if objectTypeId r (vmHeap st) \<noteq> Some (tsId d) \<or> fieldCount r (vmHeap st) \<noteq> Some 8
                   then fail cfg EcTypeMismatch ''delegate invocation received an incompatible value'' st
                   else (Done (d, r), st)
               | _ \<Rightarrow> fail cfg EcTypeMismatch ''delegate invocation received an incompatible value'' st)"

fun invokeDelegate ::
    "'h VmConfig \<Rightarrow> 'h executor \<Rightarrow> Frame \<Rightarrow> Instruction \<Rightarrow> nat \<Rightarrow> Value list \<Rightarrow> (Value, 'h Vm) run"
and invokeLeaves ::
    "'h VmConfig \<Rightarrow> 'h executor \<Rightarrow> Frame \<Rightarrow> Instruction \<Rightarrow> nat \<Rightarrow> Value list \<Rightarrow> Value \<Rightarrow> Value list \<Rightarrow>
      (Value, 'h Vm) run" where
  "invokeDelegate cfg Exec F ins 0 operandValues st = (OutOfFuel, st)"
| "invokeDelegate cfg Exec F ins (Suc n) operandValues st =
     vbind (invokeStart cfg F ins operandValues) (\<lambda>(d, r) st1.
       if fieldGet r 3 (vmHeap st1) = Some (VInt 4)
       then vbind (flattenDelegate cfg (tsId d) delegateDepth (VRef r))
              (\<lambda>leaves. invokeLeaves cfg Exec F ins n operandValues VNone leaves) st1
       else invokeSingle cfg Exec d r operandValues st1) st"
| "invokeLeaves cfg Exec F ins n operandValues latest [] st = (Done latest, st)"
| "invokeLeaves cfg Exec F ins n operandValues latest (leaf # leaves) st =
     vbind (consume cfg (determinismOperationId (opcodeName OpInvokeDelegate))) (\<lambda>_.
     vbind (invokeDelegate cfg Exec F ins n (withLeaf ins leaf operandValues)) (\<lambda>v.
       invokeLeaves cfg Exec F ins n operandValues v leaves)) st"

end
