(* ===== verification/Interpreter_Functions.thy ===== *)
theory Interpreter_Functions
  imports Interpreter
begin

text \<open>
  The execution of instructions, blocks and functions (\<open>executeInstruction\<close>,
  \<open>executeQuickInstruction\<close>, \<open>executeSuperInstruction\<close>, \<open>executeFunction\<close> and \<open>Interpreter::invoke\<close> of
  \<open>src/runtime/Interpreter.cpp\<close>).
\<close>

section \<open>The generic path\<close>

text \<open>The instructions of the switch, after the budget has been charged.\<close>

definition performInstruction ::
    "'h VmConfig \<Rightarrow> 'h executor \<Rightarrow> nat \<Rightarrow> Frame \<Rightarrow> CallSite \<Rightarrow> Instruction \<Rightarrow> (unit, 'h Vm) run" where
  "performInstruction cfg Exec n F site ins st =
     (case inOpcode ins of
        OpLoadParameter \<Rightarrow> storeResult F ins (argumentAt F (inIndex ins) st) st
      | OpConstantInt \<Rightarrow> storeResult F ins (constantInt F ins) st
      | OpConstantDouble \<Rightarrow> storeResult F ins (VDouble (inDouble ins)) st
      | OpConstantBool \<Rightarrow> storeResult F ins (VBool (inBool ins)) st
      | OpConstantString \<Rightarrow>
          storeAllocated cfg F ins ''managed string allocation failed''
            (allocateString (inString ins) (vmHeap st)) st
      | OpConstantNull \<Rightarrow> storeResult F ins VNone st
      | OpLoadLocal \<Rightarrow> storeResult F ins (localAt F (inIndex ins) st) st
      | OpStoreLocal \<Rightarrow> (Done (), setLocal F (inIndex ins) (operandAt F ins 0 st) st)
      | OpConvertNullToString \<Rightarrow> convertNull cfg F ins VNullString st
      | OpConvertNullToObject \<Rightarrow> convertNull cfg F ins VNullObject st
      | OpConvertNullToArray \<Rightarrow> convertNull cfg F ins VNullArray st
      | OpConvertIntToLong \<Rightarrow> convertIntToLong cfg F ins st
      | OpConvertIntToDouble \<Rightarrow> convertIntToDouble cfg F ins st
      | OpConvertLongToDouble \<Rightarrow> convertLongToDouble cfg F ins st
      | OpConvertNumeric \<Rightarrow> convertNumeric cfg F ins st
      | OpConstantTypeId \<Rightarrow> storeResult F ins (VULong (inInteger ins)) st
      | OpIsType \<Rightarrow> typeTest cfg F ins st
      | OpAsType \<Rightarrow> typeTest cfg F ins st
      | OpNewArray \<Rightarrow> newArray cfg F ins st
      | OpNewObject \<Rightarrow> newObject cfg F ins st
      | OpNewStruct \<Rightarrow> newStruct cfg F ins st
      | OpArrayLength \<Rightarrow> arrayLengthInstruction cfg F ins st
      | OpLoadElement \<Rightarrow> loadElement cfg F ins st
      | OpStoreElement \<Rightarrow> storeElement cfg F ins st
      | OpCheckNotNull \<Rightarrow> checkNotNull cfg F ins st
      | OpLoadField \<Rightarrow> loadField cfg F ins st
      | OpStoreField \<Rightarrow> storeField cfg F ins st
      | OpLoadStructField \<Rightarrow> loadStructField cfg F ins st
      | OpStoreStructField \<Rightarrow> storeStructField cfg F ins st
      | OpNewDelegate \<Rightarrow> newDelegate cfg F ins st
      | OpCombineDelegate \<Rightarrow> combineDelegates cfg F ins st
      | OpRemoveDelegate \<Rightarrow> combineDelegates cfg F ins st
      | OpInvokeDelegate \<Rightarrow>
          vbind (invokeDelegate cfg Exec F ins n (map (\<lambda>r. registerAt F r st) (inOperands ins))) (\<lambda>v st1.
            if inResult ins = InvalidRegister then (Done (), st1) else storeResult F ins v st1) st
      | OpCall \<Rightarrow>
          vbind (executeCall cfg Exec F site ins) (\<lambda>v st1.
            if inResult ins = InvalidRegister then (Done (), st1) else storeResult F ins v st1) st
      | OpNegateInt \<Rightarrow> negateInstruction cfg F ins st
      | OpNegateLong \<Rightarrow> negateInstruction cfg F ins st
      | OpNegateDouble \<Rightarrow> negateInstruction cfg F ins st
      | OpLogicalNot \<Rightarrow> negateInstruction cfg F ins st
      | OpEqual \<Rightarrow> equalityInstruction cfg F ins st
      | OpNotEqual \<Rightarrow> equalityInstruction cfg F ins st
      | _ \<Rightarrow> binaryInstruction cfg F ins st)"

definition consumeInstruction :: "'h VmConfig \<Rightarrow> Instruction \<Rightarrow> (unit, 'h Vm) run" where
  "consumeInstruction cfg ins = consume cfg (determinismOperationId (opcodeName (inOpcode ins)))"

definition executeInstruction ::
    "'h VmConfig \<Rightarrow> 'h executor \<Rightarrow> nat \<Rightarrow> Frame \<Rightarrow> CallSite \<Rightarrow> Instruction \<Rightarrow> (unit, 'h Vm) run" where
  "executeInstruction cfg Exec n F site ins =
     vbind (consumeInstruction cfg ins) (\<lambda>_. performInstruction cfg Exec n F site ins)"

section \<open>The fast path\<close>

text \<open>\<open>std::get\<close> of an \<open>int\<close> throws when a register holds something else.\<close>

definition quickBinaryInstruction ::
    "'h VmConfig \<Rightarrow> Frame \<Rightarrow> QuickOpcode \<Rightarrow> Instruction \<Rightarrow> (unit, 'h Vm) run" where
  "quickBinaryInstruction cfg F q ins st =
     (case (operandAt F ins 0 st, operandAt F ins 1 st) of
        (VInt a, VInt b) \<Rightarrow> storeCalc cfg F ins (evaluateQuickInt q (inChecked ins) a b) st
      | _ \<Rightarrow> (Crashed, st))"

definition performQuick ::
    "'h VmConfig \<Rightarrow> 'h executor \<Rightarrow> Frame \<Rightarrow> ExecutionInstruction \<Rightarrow> (unit, 'h Vm) run" where
  "performQuick cfg Exec F e st =
     (let ins = eiInstruction e
      in case eiQuick e of
           QLoadParameter \<Rightarrow> storeResult F ins (argumentAt F (inIndex ins) st) st
         | QConstantInt \<Rightarrow> storeResult F ins (VInt (inInteger ins)) st
         | QLoadLocal \<Rightarrow> storeResult F ins (localAt F (inIndex ins) st) st
         | QStoreLocal \<Rightarrow> (Done (), setLocal F (inIndex ins) (operandAt F ins 0 st) st)
         | QCallDirect \<Rightarrow>
             (case eiTarget e of
                None \<Rightarrow> fail cfg EcInvalidProgram ''direct call execution cache is missing'' st
              | Some l \<Rightarrow>
                  vbind (Exec l (map (\<lambda>r. registerAt F r st) (inOperands ins)) True) (\<lambda>v st1.
                    if inResult ins = InvalidRegister then (Done (), st1) else storeResult F ins v st1) st)
         | q \<Rightarrow> quickBinaryInstruction cfg F q ins st)"

definition executeQuickInstruction ::
    "'h VmConfig \<Rightarrow> 'h executor \<Rightarrow> Frame \<Rightarrow> ExecutionInstruction \<Rightarrow> (unit, 'h Vm) run" where
  "executeQuickInstruction cfg Exec F e =
     vbind (consumeInstruction cfg (eiInstruction e)) (\<lambda>_. performQuick cfg Exec F e)"

text \<open>A fused run counts its instructions without asking the budget, which was checked for all of them.\<close>

definition countOne :: "'h Vm \<Rightarrow> 'h Vm" where
  "countOne st = st\<lparr>vmExecuted := vmExecuted st + 1\<rparr>"

definition loadsLocal :: "Frame \<Rightarrow> Instruction \<Rightarrow> 'h Vm \<Rightarrow> 'h Vm" where
  "loadsLocal F ins st = setRegister F (inResult ins) (localAt F (inIndex ins) st) st"

definition storesLocal :: "Frame \<Rightarrow> Instruction \<Rightarrow> 'h Vm \<Rightarrow> 'h Vm" where
  "storesLocal F ins st = setLocal F (inIndex ins) (operandAt F ins 0 st) st"

definition executeSuperInstruction ::
    "'h VmConfig \<Rightarrow> Frame \<Rightarrow> ExecutionInstruction list \<Rightarrow> (unit, 'h Vm) run" where
  "executeSuperInstruction cfg F es st =
     (let e0 = es ! 0; i0 = eiInstruction e0
      in if eiSuper e0 = SuLoadParameterStoreLocal
         then let st1 = countOne st;
                  st2 = setRegister F (inResult i0) (argumentAt F (inIndex i0) st1) st1
              in (Done (), storesLocal F (eiInstruction (es ! 1)) (countOne st2))
         else
           let e1 = es ! 1; i1 = eiInstruction e1; e2 = es ! 2;
               st1 = loadsLocal F i0 (countOne st);
               st2 = countOne st1;
               st3 = (if eiQuick e1 = QConstantInt then setRegister F (inResult i1) (VInt (inInteger i1)) st2
                      else loadsLocal F i1 st2)
           in vbind (\<lambda>st. quickBinaryInstruction cfg F (eiQuick e2) (eiInstruction e2) (countOne st)) (\<lambda>_ st4.
                if eiSpan e0 = 4 then (Done (), storesLocal F (eiInstruction (es ! 3)) (countOne st4))
                else (Done (), st4)) st3)"

section \<open>Blocks\<close>

definition canExecuteSuper :: "'h VmConfig \<Rightarrow> ExecutionInstruction \<Rightarrow> 'h Vm \<Rightarrow> bool" where
  "canExecuteSuper cfg e st \<longleftrightarrow>
     fastAccounting cfg \<and> eiSuper e \<noteq> SuNone \<and>
     vmExecuted st \<le> limInstructionBudget (cfLimits cfg) \<and>
     eiSpan e \<le> unat (limInstructionBudget (cfLimits cfg) - vmExecuted st)"

text \<open>The instructions from position \<open>i\<close> on; the list is what is left of the block.\<close>

definition executeOne ::
    "'h VmConfig \<Rightarrow> 'h executor \<Rightarrow> nat \<Rightarrow> Frame \<Rightarrow> CallSite \<Rightarrow> ExecutionInstruction list \<Rightarrow> (nat, 'h Vm) run" where
  "executeOne cfg Exec n F site es st =
     (let e = hd es
      in if canExecuteSuper cfg e st
         then vbind (executeSuperInstruction cfg F es) (\<lambda>_. vreturn (eiSpan e)) st
         else if eiQuick e = QGeneric
         then vbind (executeInstruction cfg Exec n F site (eiInstruction e)) (\<lambda>_. vreturn 1) st
         else vbind (executeQuickInstruction cfg Exec F e) (\<lambda>_. vreturn 1) st)"

function executeInstructions ::
    "'h VmConfig \<Rightarrow> 'h executor \<Rightarrow> nat \<Rightarrow> Frame \<Rightarrow> nat \<Rightarrow> nat \<Rightarrow> ExecutionInstruction list \<Rightarrow> (unit, 'h Vm) run" where
  "executeInstructions cfg Exec n F block i es st =
     (if es = [] then (Done (), st)
      else vbind (executeOne cfg Exec n F (fnSymbolId (fmFunction F), block, i) es)
             (\<lambda>span. executeInstructions cfg Exec n F block (i + max 1 span) (drop (max 1 span) es)) st)"
  by pat_completeness auto

termination executeInstructions
  by (relation "measure (\<lambda>(cfg, Exec, n, F, block, i, es, st). length es)") auto

declare executeInstructions.simps [simp del]

text \<open>
  The first handler that protects the block and catches the type; a handler whose local does not exist
  ends the search.
\<close>

fun routeHandlers ::
    "'h VmConfig \<Rightarrow> Frame \<Rightarrow> u32 \<Rightarrow> Value \<Rightarrow> SymbolId \<Rightarrow> ExceptionHandler list \<Rightarrow> 'h Vm \<Rightarrow> nat option \<times> 'h Vm" where
  "routeHandlers cfg F block pending actual [] st = (None, st)"
| "routeHandlers cfg F block pending actual (h # hs) st =
     (if block \<notin> set (ehProtectedBlocks h) then routeHandlers cfg F block pending actual hs st
      else if ehCatchTypeId h \<noteq> 0 \<and> \<not> runtimeAssignable (cfProgram cfg) actual (ehCatchTypeId h)
      then routeHandlers cfg F block pending actual hs st
      else if length (fnLocalTypes (fmFunction F)) \<le> ehExceptionLocal h then (None, st)
      else (blockIndex (fmFunction F) (ehHandlerBlock h),
            (putValue (fmLocals F + ehExceptionLocal h) pending st)\<lparr>vmPending := None\<rparr>))"

definition routePendingException :: "'h VmConfig \<Rightarrow> Frame \<Rightarrow> u32 \<Rightarrow> 'h Vm \<Rightarrow> nat option \<times> 'h Vm" where
  "routePendingException cfg F block st =
     (case vmPending st of
        Some (VRef r) \<Rightarrow>
          (case objectTypeId r (vmHeap st) of
             None \<Rightarrow> (None, st)
           | Some actual \<Rightarrow> routeHandlers cfg F block (VRef r) actual (fnHandlers (fmFunction F)) st)
      | _ \<Rightarrow> (None, st))"

text \<open>
  The arguments of an edge go through the scratch window, so that they are read before any is written.
  A value that was moved out keeps its alternative; a string is left empty and a struct without storage.
\<close>

definition movedFrom :: "Value \<Rightarrow> Value" where
  "movedFrom v = (case v of VStruct t s \<Rightarrow> VStruct t None | VString s \<Rightarrow> VString [] | _ \<Rightarrow> v)"

definition copyIn :: "Frame \<Rightarrow> u32 list \<Rightarrow> 'h Vm \<Rightarrow> 'h Vm" where
  "copyIn F sources st =
     fold (\<lambda>i s. putValue (fmScratch F + i) (registerAt F (sources ! i) s) s) [0..<length sources] st"

definition copyOut :: "Frame \<Rightarrow> BlockParameter list \<Rightarrow> 'h Vm \<Rightarrow> 'h Vm" where
  "copyOut F destinations st =
     fold (\<lambda>i s. let v = vmValues s ! (fmScratch F + i)
                 in setRegister F (bpTarget (destinations ! i)) v (putValue (fmScratch F + i) (movedFrom v) s))
       [0..<length destinations] st"

definition popStack :: "'h Vm \<Rightarrow> 'h Vm" where
  "popStack st = st\<lparr>vmStack := butlast (vmStack st)\<rparr>"

text \<open>A failure of the function itself is reported after its frame has left the stack of names.\<close>

definition failPopped :: "'h VmConfig \<Rightarrow> ErrorCode \<Rightarrow> string \<Rightarrow> ('a, 'h Vm) run" where
  "failPopped cfg code message st = fail cfg code message (popStack st)"

text \<open>The arguments before the first one whose registers do not exist have reached the scratch window.\<close>

definition takeEdge ::
    "'h VmConfig \<Rightarrow> Frame \<Rightarrow> nat \<Rightarrow> ExecutionEdge option \<Rightarrow> (nat, 'h Vm) run" where
  "takeEdge cfg F scratch edge st =
     (case edge of
        None \<Rightarrow> failPopped cfg EcInvalidProgram ''branch target or argument count is invalid'' st
      | Some e \<Rightarrow>
          if length (eeSources e) \<noteq> length (eeDestinations e)
          then failPopped cfg EcInvalidProgram ''branch target or argument count is invalid'' st
          else if scratch < length (eeSources e)
          then failPopped cfg EcInvalidProgram ''branch scratch space is too small'' st
          else
            let count = length (fnRegisterTypes (fmFunction F));
                valid = takeWhile (\<lambda>(r, p). unat r < count \<and> unat (bpTarget p) < count)
                  (zip (eeSources e) (eeDestinations e));
                st1 = copyIn F (map fst valid) st
            in if length valid < length (eeSources e)
               then failPopped cfg EcInvalidProgram ''branch argument register is invalid'' st1
               else (Done (eeTarget e), copyOut F (eeDestinations e) st1))"

text \<open>What the terminator of a block does: return a value, or go on at a block.\<close>

definition finishReturn :: "'h VmConfig \<Rightarrow> Value \<Rightarrow> (Value + nat, 'h Vm) run" where
  "finishReturn cfg v st = (Done (Inl v), popStack (emitTrace cfg TeFunctionExit 0 st))"

text \<open>A failure inside the function pops the frame from the stack of names.\<close>

definition popping :: "('a, 'h Vm) run \<Rightarrow> ('a, 'h Vm) run" where
  "popping m st = (case m st of (Failed, st1) \<Rightarrow> (Failed, popStack st1) | other \<Rightarrow> other)"

definition throwTerminator :: "'h VmConfig \<Rightarrow> Frame \<Rightarrow> ExecutionBlock \<Rightarrow> (Value + nat, 'h Vm) run" where
  "throwTerminator cfg F b st =
     (let t = bbTerminator (ebBlock b); v = registerAt F (tmValue t) st
      in if length (fnRegisterTypes (fmFunction F)) \<le> unat (tmValue t) \<or> (case v of VRef _ \<Rightarrow> False | _ \<Rightarrow> True)
         then failPopped cfg EcNullReference ''throw requires a non-null script object'' st
         else case routePendingException cfg F (bbId (ebBlock b)) (st\<lparr>vmPending := Some v\<rparr>) of
                (Some i, st1) \<Rightarrow> (Done (Inr i), st1)
              | (None, st1) \<Rightarrow> (Failed, popStack st1))"

definition countBranch :: "'h VmConfig \<Rightarrow> u32 \<Rightarrow> 'h Vm \<Rightarrow> 'h Vm" where
  "countBranch cfg target st =
     emitTrace cfg TeBranch (ucast target)
       (st\<lparr>vmStatistics := (vmStatistics st)\<lparr>rsBranchesTaken := rsBranchesTaken (vmStatistics st) + 1\<rparr>\<rparr>)"

definition jumpTerminator ::
    "'h VmConfig \<Rightarrow> Frame \<Rightarrow> nat \<Rightarrow> ExecutionBlock \<Rightarrow> (Value + nat, 'h Vm) run" where
  "jumpTerminator cfg F scratch b st =
     (let t = bbTerminator (ebBlock b);
          go = (\<lambda>target edge st1.
            vbind (takeEdge cfg F scratch edge) (\<lambda>i. vreturn (Inr i)) (countBranch cfg target st1))
      in case tmKind t of
           TkJump \<Rightarrow> go (tmTarget t) (ebBranch b) st
         | TkBranch \<Rightarrow>
             if length (fnRegisterTypes (fmFunction F)) \<le> unat (tmCondition t) then (Failed, popStack st)
             else vbind (popping (expectType cfg (registerAt F (tmCondition t) st) PtBool ''branch'')) (\<lambda>_ st1.
                    case registerAt F (tmCondition t) st1 of
                      VBool True \<Rightarrow> go (tmTarget t) (ebBranch b) st1
                    | VBool False \<Rightarrow> go (tmFalseTarget t) (ebFalseBranch b) st1
                    | _ \<Rightarrow> (Crashed, st1)) st
         | _ \<Rightarrow> failPopped cfg EcInvalidProgram ''block has invalid terminator'' st)"

definition executeTerminator ::
    "'h VmConfig \<Rightarrow> Frame \<Rightarrow> nat \<Rightarrow> ExecutionBlock \<Rightarrow> (Value + nat, 'h Vm) run" where
  "executeTerminator cfg F scratch b =
     vbind (popping (consume cfg (determinismOperationId (terminatorName (tmKind (bbTerminator (ebBlock b)))))))
       (\<lambda>_ st.
          let t = bbTerminator (ebBlock b)
          in case tmKind t of
               TkThrow \<Rightarrow> throwTerminator cfg F b st
             | TkReturnVoid \<Rightarrow> finishReturn cfg VNone st
             | TkReturnValue \<Rightarrow>
                 if length (fnRegisterTypes (fmFunction F)) \<le> unat (tmValue t)
                 then failPopped cfg EcInvalidProgram ''return register is invalid'' st
                 else vbind (popping (expectSignatureType cfg (registerAt F (tmValue t) st)
                          (fnReturnType (fmFunction F)) (fnReturnTypeId (fmFunction F)) ''return value''))
                        (\<lambda>_ st1. finishReturn cfg (registerAt F (tmValue t) st1) st1) st
             | _ \<Rightarrow> jumpTerminator cfg F scratch b st)"

definition executeBlock ::
    "'h VmConfig \<Rightarrow> 'h executor \<Rightarrow> nat \<Rightarrow> Frame \<Rightarrow> nat \<Rightarrow> ExecutionBlock list \<Rightarrow> nat \<Rightarrow> (Value + nat, 'h Vm) run" where
  "executeBlock cfg Exec n F scratch bs i st =
     (let b = bs ! i
      in case executeInstructions cfg Exec n F i 0 (ebInstructions b) st of
           (Done _, st1) \<Rightarrow> executeTerminator cfg F scratch b st1
         | (Failed, st1) \<Rightarrow>
             (if vmPending st1 = None then (Failed, popStack st1)
              else case routePendingException cfg F (bbId (ebBlock b)) st1 of
                     (Some handler, st2) \<Rightarrow> (Done (Inr handler), st2)
                   | (None, st2) \<Rightarrow> (Failed, popStack st2))
         | (Crashed, st1) \<Rightarrow> (Crashed, st1)
         | (OutOfFuel, st1) \<Rightarrow> (OutOfFuel, st1))"

section \<open>Functions\<close>

text \<open>
  The window of a frame: the vector grows, or the part in use is cleared unless the machine runs in
  fast accounting, which leaves old values in the locals.
\<close>

definition allocateWindow :: "'h VmConfig \<Rightarrow> nat \<Rightarrow> 'h Vm \<Rightarrow> 'h Vm" where
  "allocateWindow cfg extent st =
     (let base = vmTop st; top = base + extent; vs = vmValues st
      in st\<lparr>vmValues :=
              (if length vs < top then vs @ replicate (top - length vs) VNone
               else if \<not> fastAccounting cfg then take base vs @ replicate extent VNone @ drop top vs
               else vs),
            vmTop := top\<rparr>)"

definition releaseWindow :: "'h VmConfig \<Rightarrow> nat \<Rightarrow> nat \<Rightarrow> 'h Vm \<Rightarrow> 'h Vm" where
  "releaseWindow cfg base extent st =
     st\<lparr>vmValues := (if fastAccounting cfg then vmValues st
                    else take base (vmValues st) @ replicate extent VNone @ drop (base + extent) (vmValues st)),
        vmTop := base\<rparr>"

definition storeArguments :: "nat \<Rightarrow> Value list \<Rightarrow> 'h Vm \<Rightarrow> 'h Vm" where
  "storeArguments base arguments st =
     fold (\<lambda>i. putValue (base + i) (arguments ! i)) [0..<length arguments] st"

definition enterFunction :: "'h VmConfig \<Rightarrow> FunctionLocation \<Rightarrow> 'h Vm \<Rightarrow> 'h Vm" where
  "enterFunction cfg l st =
     (let names = vmStack st @ [flQualifiedName l]; stats = vmStatistics st
      in emitTrace cfg TeFunctionEnter 0
           (st\<lparr>vmFunctionId := fnSymbolId (flFunction l), vmStack := names,
              vmStatistics := stats
                \<lparr>rsFunctionCalls := rsFunctionCalls stats + 1,
                 rsMaximumCallDepth := max (rsMaximumCallDepth stats) (length names)\<rparr>\<rparr>))"

definition frameOf :: "FunctionLocation \<Rightarrow> nat \<Rightarrow> nat \<Rightarrow> Frame" where
  "frameOf l base argumentCount =
     (let f = flFunction l; locals = base + argumentCount;
          registers = locals + length (fnLocalTypes f)
      in \<lparr>fmModule = flModule l, fmFunction = f, fmArguments = base, fmLocals = locals,
          fmRegisters = registers, fmScratch = registers + length (fnRegisterTypes f)\<rparr>)"

definition functionBlocks :: "'h VmConfig \<Rightarrow> FunctionLocation \<Rightarrow> ExecutionBlock list" where
  "functionBlocks cfg l =
     map (mirrorBlock (cfProgram cfg) (flModule l) (flFunction l)) (fnBlocks (flFunction l))"

definition checkArguments ::
    "'h VmConfig \<Rightarrow> FunctionLocation \<Rightarrow> Value list \<Rightarrow> bool \<Rightarrow> (unit, 'h Vm) run" where
  "checkArguments cfg l arguments prevalidated st =
     (if prevalidated then (Done (), st)
      else if length arguments \<noteq> length (fnParameterTypes (flFunction l))
      then fail cfg EcInvalidArguments ''argument count does not match function signature'' st
      else expectSignatures cfg ''argument'' (fnParameterTypes (flFunction l))
             (fnParameterTypeIds (flFunction l)) 0 arguments st)"

fun executeFunction :: "'h VmConfig \<Rightarrow> nat \<Rightarrow> 'h executor"
and runBlocks :: "'h VmConfig \<Rightarrow> nat \<Rightarrow> Frame \<Rightarrow> nat \<Rightarrow> ExecutionBlock list \<Rightarrow> nat \<Rightarrow> (Value, 'h Vm) run" where
  "executeFunction cfg 0 l arguments prevalidated st = (OutOfFuel, st)"
| "executeFunction cfg (Suc n) l arguments prevalidated st =
     (case blockIndex (flFunction l) 0 of
        None \<Rightarrow> fail cfg EcInvalidProgram ''function execution mirror is missing'' st
      | Some entry \<Rightarrow>
          if limRecursionLimit (cfLimits cfg) \<le> length (vmStack st)
          then fail cfg EcRecursionLimitExceeded ''recursion limit exceeded'' st
          else vbind (checkArguments cfg l arguments prevalidated) (\<lambda>_ st1.
            let bs = functionBlocks cfg l; scratch = edgeScratchCount bs;
                base = vmTop st1; F = frameOf l base (length arguments);
                extent = fmScratch F + scratch - base;
                st2 = storeArguments base arguments (allocateWindow cfg extent (enterFunction cfg l st1));
                (r, st3) = runBlocks cfg n F scratch bs entry st2
            in (r, (releaseWindow cfg base extent st3)\<lparr>vmFunctionId := vmFunctionId st1\<rparr>)) st)"
| "runBlocks cfg 0 F scratch bs i st = (OutOfFuel, st)"
| "runBlocks cfg (Suc n) F scratch bs i st =
     vbind (executeBlock cfg (executeFunction cfg n) n F scratch bs i) (\<lambda>next.
       case next of Inl v \<Rightarrow> vreturn v | Inr j \<Rightarrow> runBlocks cfg n F scratch bs j) st"

section \<open>Invocation\<close>

record ExecutionOptions =
  xoLimits :: Limits
  xoDeterminism :: DeterminismOptions

record ExecutionResult =
  xrSucceeded :: bool
  xrValue :: Value
  xrError :: RuntimeError
  xrErrorTrace :: "string list"
  xrInstructionsExecuted :: u64
  xrStatistics :: RuntimeStatistics
  xrDeterminismDigest :: u64
  xrReplayEntriesConsumed :: nat

definition zeroRuntimeStatistics :: RuntimeStatistics where
  "zeroRuntimeStatistics =
     \<lparr>rsInstructionsExecuted = 0, rsFunctionCalls = 0, rsExternalCalls = 0, rsBranchesTaken = 0,
      rsMaximumCallDepth = 0, rsGcWorkPerformed = 0\<rparr>"

text \<open>
  What an interpreter holds: the linked program, its resolver and bindings. The heap, the state of the
  host and the next free address are what an invocation shares with the rest of the process.
\<close>

record 'h Interpreter =
  ipProgram :: ProgramImage
  ipResolver :: "'h ExternalFunction option"
  ipBindings :: "'h BindingRegistry option"
  ipCacheSlot :: "CallSite \<Rightarrow> nat"

definition vmConfig :: "'h Interpreter \<Rightarrow> ExecutionOptions \<Rightarrow> 'h VmConfig" where
  "vmConfig ip options =
     \<lparr>cfLimits = xoLimits options, cfProgram = ipProgram ip, cfResolver = ipResolver ip,
      cfBindings = ipBindings ip, cfEvents = (doMode (xoDeterminism options) \<noteq> DmOff),
      cfCacheSlot = ipCacheSlot ip\<rparr>"

definition startVm :: "ExecutionOptions \<Rightarrow> ManagedHeap \<Rightarrow> 'h \<Rightarrow> nat \<Rightarrow> 'h Vm" where
  "startVm options heap host address =
     \<lparr>vmExecuted = 0, vmStatistics = zeroRuntimeStatistics, vmError = RuntimeError EcNone [],
      vmErrorTrace = [], vmStack = [], vmEventDigest = FnvOffset, vmEventCount = 0,
      vmSession = newSession (xoDeterminism options), vmFunctionId = 0, vmHeap = heap, vmValues = [],
      vmTop = 0, vmCache = Map.empty, vmPending = None, vmHost = host, vmAddress = address\<rparr>"

definition noResult :: "ErrorCode \<Rightarrow> string \<Rightarrow> ExecutionResult" where
  "noResult code message =
     \<lparr>xrSucceeded = False, xrValue = VNone, xrError = RuntimeError code message, xrErrorTrace = [],
      xrInstructionsExecuted = 0, xrStatistics = zeroRuntimeStatistics, xrDeterminismDigest = 0,
      xrReplayEntriesConsumed = 0\<rparr>"

text \<open>A thrown object that no handler caught becomes an error of its own, at the end of the run.\<close>

definition reportUnhandled :: "bool \<Rightarrow> 'h Vm \<Rightarrow> 'h Vm" where
  "reportUnhandled succeeded st =
     (if \<not> succeeded \<and> vmPending st \<noteq> None \<and> errCode (vmError st) = EcNone
      then st\<lparr>vmError := RuntimeError EcScriptException ''unhandled script exception'',
              vmErrorTrace := vmStack st\<rparr>
      else st)"

definition mergeEvents :: "'h VmConfig \<Rightarrow> 'h Vm \<Rightarrow> 'h Vm" where
  "mergeEvents cfg st =
     (if cfEvents cfg
      then st\<lparr>vmSession := mergeEventDigest (vmEventDigest st) (vmEventCount st) (vmSession st)\<rparr> else st)"

definition countExecuted :: "'h Vm \<Rightarrow> 'h Vm" where
  "countExecuted st =
     st\<lparr>vmStatistics := (vmStatistics st)\<lparr>rsInstructionsExecuted := vmExecuted st\<rparr>\<rparr>"

text \<open>The end of an invocation: the result of the caller, and the session, which holds the log.\<close>

definition concludeInvocation ::
    "'h VmConfig \<Rightarrow> bool \<Rightarrow> Value \<Rightarrow> 'h Vm \<Rightarrow> ExecutionResult \<times> 'h Vm" where
  "concludeInvocation cfg succeeded value st =
     (let st1 = mergeEvents cfg (reportUnhandled succeeded (countExecuted st));
          (ok, e, session) = session_finish succeeded value (vmError st1) (vmErrorTrace st1)
            (vmStatistics st1) (vmSession st1)
      in (\<lparr>xrSucceeded = ok, xrValue = value, xrError = e, xrErrorTrace = vmErrorTrace st1,
           xrInstructionsExecuted = vmExecuted st1, xrStatistics = vmStatistics st1,
           xrDeterminismDigest = dsDigest session, xrReplayEntriesConsumed = dsReplayCursor session\<rparr>,
          st1\<lparr>vmSession := session\<rparr>))"

definition invoke ::
    "nat \<Rightarrow> 'h Interpreter \<Rightarrow> SymbolId \<Rightarrow> Value list \<Rightarrow> ExecutionOptions \<Rightarrow> ManagedHeap \<Rightarrow> 'h \<Rightarrow> nat \<Rightarrow>
      ExecutionResult result \<times> 'h Vm" where
  "invoke fuel ip symbolId arguments options heap host address =
     (case resolveFunction (ipProgram ip) symbolId of
        None \<Rightarrow>
          (Done (noResult EcFunctionNotFound ''entry function was not found''),
           startVm options heap host address)
      | Some l \<Rightarrow>
          let cfg = vmConfig ip options
          in case executeFunction cfg fuel l arguments False (startVm options heap host address) of
               (Done v, st) \<Rightarrow> (let (x, st1) = concludeInvocation cfg True v st in (Done x, st1))
             | (Failed, st) \<Rightarrow> (let (x, st1) = concludeInvocation cfg False VNone st in (Done x, st1))
             | (Crashed, st) \<Rightarrow> (Crashed, st)
             | (OutOfFuel, st) \<Rightarrow> (OutOfFuel, st))"

end
