(* ===== verification/Interpreter_Budgets.thy ===== *)
theory Interpreter_Budgets
  imports Interpreter_Functions
begin

text \<open>
  How a run of the interpreter uses its budgets. The relation \<open>goes_on\<close> says what any piece of an execution
  leaves of the state: the count of instructions never decreases and stays within the budget, the call
  depth stays within the recursion limit, the stack of names, the current function and the window of the
  frames are restored, and no value below the window of the running frame changes. The fuel that an
  execution needs is bounded by the instructions that are left.
\<close>

section \<open>What an execution keeps\<close>

abbreviation budgetOf :: "'h VmConfig \<Rightarrow> u64" where
  "budgetOf cfg \<equiv> limInstructionBudget (cfLimits cfg)"

definition ticksLeft :: "'h VmConfig \<Rightarrow> 'h Vm \<Rightarrow> nat" where
  "ticksLeft cfg st = unat (budgetOf cfg) - unat (vmExecuted st)"

definition depth_ok :: "'h VmConfig \<Rightarrow> 'h Vm \<Rightarrow> bool" where
  "depth_ok cfg st \<longleftrightarrow> rsMaximumCallDepth (vmStatistics st) \<le> limRecursionLimit (cfLimits cfg)"

definition goes_on :: "'h VmConfig \<Rightarrow> nat \<Rightarrow> 'h Vm \<Rightarrow> 'h Vm \<Rightarrow> bool" where
  "goes_on cfg base st st' \<longleftrightarrow>
     vmExecuted st \<le> vmExecuted st' \<and> (vmExecuted st' = vmExecuted st \<or> vmExecuted st' \<le> budgetOf cfg) \<and>
     vmFunctionId st' = vmFunctionId st \<and> vmTop st' = vmTop st \<and>
     length (vmValues st) \<le> length (vmValues st') \<and> take base (vmValues st') = take base (vmValues st) \<and>
     (depth_ok cfg st \<longrightarrow> depth_ok cfg st')"

definition window_ok :: "nat \<Rightarrow> 'h Vm \<Rightarrow> bool" where
  "window_ok base st \<longleftrightarrow>
     base \<le> vmTop st \<and> vmTop st \<le> length (vmValues st) \<and> vmPending st = None"

text \<open>
  The outcome of a piece of an execution that starts in \<open>st\<close>. An object that is thrown has cost at least
  one instruction; the fuel \<open>N\<close> runs out only where more than \<open>N\<close> would have been needed.
\<close>

definition follows ::
    "('a result \<Rightarrow> bool) \<Rightarrow> 'h VmConfig \<Rightarrow> nat \<Rightarrow> nat \<Rightarrow> 'h Vm \<Rightarrow> 'a result \<times> 'h Vm \<Rightarrow> bool" where
  "follows pops cfg N base st p \<longleftrightarrow>
     (window_ok base st \<longrightarrow>
       (case p of
          (Crashed, st') \<Rightarrow> True
        | (OutOfFuel, st') \<Rightarrow> N < 2 * ticksLeft cfg st + 2
        | (r, st') \<Rightarrow>
            goes_on cfg base st st' \<and>
            vmStack st' = (if pops r then butlast (vmStack st) else vmStack st) \<and>
            (if r = Failed then vmPending st' \<noteq> None \<longrightarrow> vmExecuted st < vmExecuted st'
             else vmPending st' = None)))"

abbreviation keeps :: "'h VmConfig \<Rightarrow> nat \<Rightarrow> nat \<Rightarrow> 'h Vm \<Rightarrow> 'a result \<times> 'h Vm \<Rightarrow> bool" where
  "keeps \<equiv> follows (\<lambda>_. False)"

text \<open>A step that only changes values of the frame, the heap, statistics or the session.\<close>

definition quiet :: "nat \<Rightarrow> 'h Vm \<Rightarrow> 'h Vm \<Rightarrow> bool" where
  "quiet base st st' \<longleftrightarrow>
     vmExecuted st' = vmExecuted st \<and> vmFunctionId st' = vmFunctionId st \<and> vmTop st' = vmTop st \<and>
     vmStack st' = vmStack st \<and> vmPending st' = vmPending st \<and>
     length (vmValues st') = length (vmValues st) \<and> take base (vmValues st') = take base (vmValues st) \<and>
     rsMaximumCallDepth (vmStatistics st') = rsMaximumCallDepth (vmStatistics st)"

lemma quiet_refl [simp]: "quiet base st st"
  by (simp add: quiet_def)

lemma quiet_trans: "quiet base st st1 \<Longrightarrow> quiet base st1 st2 \<Longrightarrow> quiet base st st2"
  by (simp add: quiet_def)

lemma quiet_goes_on: "quiet base st st' \<Longrightarrow> goes_on cfg base st st'"
  by (simp add: quiet_def goes_on_def depth_ok_def)

lemma quiet_emitTrace [simp]: "quiet base st (emitTrace cfg k i st') = quiet base st st'"
  by (simp add: quiet_def emitTrace_def)

lemma quiet_put [simp]: "base \<le> i \<Longrightarrow> quiet base st (putValue i v st') = quiet base st st'"
  by (simp add: quiet_def putValue_def)

lemma quiet_updates [simp]:
  "quiet base st (st'\<lparr>vmHeap := h\<rparr>) = quiet base st st'"
  "quiet base st (st'\<lparr>vmAddress := a\<rparr>) = quiet base st st'"
  "quiet base st (st'\<lparr>vmCache := c\<rparr>) = quiet base st st'"
  "quiet base st (st'\<lparr>vmSession := s\<rparr>) = quiet base st st'"
  "quiet base st (st'\<lparr>vmHost := x\<rparr>) = quiet base st st'"
  "quiet base st (st'\<lparr>vmError := e\<rparr>) = quiet base st st'"
  "quiet base st (st'\<lparr>vmErrorTrace := t\<rparr>) = quiet base st st'"
  by (simp_all add: quiet_def)

lemma quiet_gcStep [simp]: "quiet base st (gcStep cfg st') = quiet base st st'"
  by (auto simp: gcStep_def Let_def quiet_def emitTrace_def split: prod.split)

section \<open>Rules for the pieces\<close>

named_theorems keeps_rules

lemma keeps_done [keeps_rules]: "quiet base st st' \<Longrightarrow> keeps cfg N base st (Done a, st')"
  by (simp add: follows_def quiet_goes_on) (simp add: quiet_def window_ok_def)

lemma keeps_failed [keeps_rules]: "quiet base st st' \<Longrightarrow> keeps cfg N base st (Failed, st')"
  by (simp add: follows_def quiet_goes_on) (simp add: quiet_def window_ok_def)

lemma keeps_crashed [keeps_rules]: "keeps cfg N base st (Crashed, st')"
  by (simp add: follows_def)

lemma keeps_fail [keeps_rules]: "quiet base st st' \<Longrightarrow> keeps cfg N base st (fail cfg c m st')"
  by (simp add: fail_def keeps_failed)

lemma keeps_return [keeps_rules]: "quiet base st st' \<Longrightarrow> keeps cfg N base st (vreturn a st')"
  by (simp add: vreturn_def keeps_done)

lemma goes_on_trans: "goes_on cfg base st st1 \<Longrightarrow> goes_on cfg base st1 st2 \<Longrightarrow> goes_on cfg base st st2"
  by (auto simp: goes_on_def)

lemma goes_on_window:
  "goes_on cfg base st st' \<Longrightarrow> window_ok base st \<Longrightarrow> vmPending st' = None \<Longrightarrow> window_ok base st'"
  by (auto simp: goes_on_def window_ok_def)

lemma goes_on_ticks: "goes_on cfg base st st' \<Longrightarrow> ticksLeft cfg st' \<le> ticksLeft cfg st"
  by (auto simp: goes_on_def ticksLeft_def word_le_nat_alt)

lemma follows_quiet:
  "quiet base st st' \<Longrightarrow> follows pops cfg N base st' p \<Longrightarrow> follows pops cfg N base st p"
  by (auto simp: follows_def quiet_def goes_on_def window_ok_def depth_ok_def ticksLeft_def split: prod.splits result.splits)

lemma goes_on_count: "goes_on cfg base st st' \<Longrightarrow> vmExecuted st \<le> vmExecuted st'"
  by (simp add: goes_on_def)

lemma followsI:
  assumes "window_ok base st \<Longrightarrow>
      (case p of (Crashed, st') \<Rightarrow> True | (OutOfFuel, st') \<Rightarrow> N < 2 * ticksLeft cfg st + 2
       | (r, st') \<Rightarrow>
            goes_on cfg base st st' \<and>
            vmStack st' = (if pops r then butlast (vmStack st) else vmStack st) \<and>
            (if r = Failed then vmPending st' \<noteq> None \<longrightarrow> vmExecuted st < vmExecuted st'
             else vmPending st' = None))"
  shows "follows pops cfg N base st p"
  using assms by (simp only: follows_def) blast

lemma follows_Done:
  "window_ok base st \<Longrightarrow> follows pops cfg N base st (Done a, st') \<longleftrightarrow>
     goes_on cfg base st st' \<and>
     vmStack st' = (if pops (Done a) then butlast (vmStack st) else vmStack st) \<and>
     vmPending st' = None"
  by (simp add: follows_def)

lemma follows_Failed:
  "window_ok base st \<Longrightarrow> follows pops cfg N base st (Failed, st') \<longleftrightarrow>
     goes_on cfg base st st' \<and>
     vmStack st' = (if pops Failed then butlast (vmStack st) else vmStack st) \<and>
     (vmPending st' \<noteq> None \<longrightarrow> vmExecuted st < vmExecuted st')"
  by (simp add: follows_def)

lemma follows_OutOfFuel:
  "window_ok base st \<Longrightarrow> follows pops cfg N base st (OutOfFuel, st') \<longleftrightarrow> N < 2 * ticksLeft cfg st + 2"
  by (simp add: follows_def)

lemma follows_Crashed [simp]: "follows pops cfg N base st (Crashed, st')"
  by (simp add: follows_def)

lemma follows_after:
  assumes G: "goes_on cfg base st st1" and S: "vmStack st1 = vmStack st"
    and P: "vmPending st = None \<Longrightarrow> vmPending st1 = None"
    and F: "follows pops cfg N base st1 p"
  shows "follows pops cfg N base st p"
proof (cases "window_ok base st")
  case True
  have "vmPending st1 = None" using P True by (simp add: window_ok_def)
  note W = True goes_on_window [OF G True this]
  obtain r st2 where p: "p = (r, st2)" by (cases p)
  show ?thesis
  proof (cases r)
    case (Done a)
    with F G S W show ?thesis by (simp add: p follows_Done) (meson goes_on_trans)
  next
    case Failed
    with F G S W show ?thesis
      by (simp add: p follows_Failed) (meson goes_on_trans goes_on_count le_less_trans)
  next
    case OutOfFuel
    with F W goes_on_ticks [OF G] show ?thesis by (simp add: p follows_OutOfFuel)
  qed (simp add: p)
qed (simp add: follows_def)

lemma follows_bind:
  assumes M: "keeps cfg N base st (m st)"
    and F: "\<And>a st1. m st = (Done a, st1) \<Longrightarrow> follows pops cfg N base st1 (f a st1)"
    and pops: "pops Failed = False"
  shows "follows pops cfg N base st (vbind m f st)"
proof (cases "window_ok base st")
  case True
  obtain r st1 where m: "m st = (r, st1)" by (cases "m st")
  show ?thesis
  proof (cases r)
    case (Done a)
    with m have d: "m st = (Done a, st1)" by simp
    then have v: "vbind m f st = f a st1" by (simp add: vbind_def)
    from M True have "goes_on cfg base st st1" "vmStack st1 = vmStack st"
        "vmPending st1 = None" by (simp_all add: d follows_Done)
    then show ?thesis unfolding v by (intro follows_after [OF _ _ _ F [OF d]]) auto
  next
    case Failed
    with M True pops show ?thesis by (simp add: m vbind_def follows_Failed)
  next
    case OutOfFuel
    with M True show ?thesis by (simp add: m vbind_def follows_OutOfFuel)
  qed (simp add: m vbind_def)
qed (simp add: follows_def)

lemma keeps_bind [keeps_rules]:
  "quiet base st st' \<Longrightarrow> keeps cfg N base st' (m st') \<Longrightarrow>
   (\<And>a st1. keeps cfg N base st1 (f a st1)) \<Longrightarrow> keeps cfg N base st (vbind m f st')"
  by (rule follows_quiet, assumption, rule follows_bind) simp_all

lemma keeps_if [keeps_rules]:
  "(b \<Longrightarrow> keeps cfg N base st p) \<Longrightarrow> (\<not> b \<Longrightarrow> keeps cfg N base st q) \<Longrightarrow>
   keeps cfg N base st (if b then p else q)"
  by simp

lemma keeps_option [keeps_rules]:
  "keeps cfg N base st p \<Longrightarrow> (\<And>y. keeps cfg N base st (q y)) \<Longrightarrow>
   keeps cfg N base st (case x of None \<Rightarrow> p | Some y \<Rightarrow> q y)"
  by (simp split: option.split)

lemma keeps_sum [keeps_rules]:
  "(\<And>y. keeps cfg N base st (p y)) \<Longrightarrow> (\<And>y. keeps cfg N base st (q y)) \<Longrightarrow>
   keeps cfg N base st (case x of Inl y \<Rightarrow> p y | Inr y \<Rightarrow> q y)"
  by (simp split: sum.split)

lemma keeps_prod [keeps_rules]:
  "(\<And>y z. keeps cfg N base st (p y z)) \<Longrightarrow> keeps cfg N base st (case x of (y, z) \<Rightarrow> p y z)"
  by (simp split: prod.split)

lemma keeps_prod_fun [keeps_rules]:
  "(\<And>y z. keeps cfg N base st (p y z st')) \<Longrightarrow> keeps cfg N base st ((case x of (y, z) \<Rightarrow> p y z) st')"
  by (simp split: prod.split)

lemma keeps_list [keeps_rules]:
  "keeps cfg N base st p \<Longrightarrow> (\<And>y z. keeps cfg N base st (q y z)) \<Longrightarrow>
   keeps cfg N base st (case x of [] \<Rightarrow> p | y # z \<Rightarrow> q y z)"
  by (simp split: list.split)

lemma keeps_bool [keeps_rules]:
  "keeps cfg N base st p \<Longrightarrow> keeps cfg N base st q \<Longrightarrow>
   keeps cfg N base st (case x of True \<Rightarrow> p | False \<Rightarrow> q)"
  by (simp split: bool.split)

lemma keeps_calc [keeps_rules]:
  "(\<And>y. keeps cfg N base st (p y)) \<Longrightarrow> (\<And>y z. keeps cfg N base st (q y z)) \<Longrightarrow> keeps cfg N base st u \<Longrightarrow>
   keeps cfg N base st (case x of Ok y \<Rightarrow> p y | Fails y z \<Rightarrow> q y z | Undef \<Rightarrow> u)"
  by (simp split: calc.split)

lemma keeps_storage [keeps_rules]:
  "(\<And>y z. keeps cfg N base st (p y z)) \<Longrightarrow> keeps cfg N base st (case x of StructStorage y z \<Rightarrow> p y z)"
  by (cases x) simp

lemma keeps_value [keeps_rules]:
  "keeps cfg N base st p0 \<Longrightarrow> keeps cfg N base st p1 \<Longrightarrow> 
   keeps cfg N base st p2 \<Longrightarrow> keeps cfg N base st p3 \<Longrightarrow> 
   (\<And>y. keeps cfg N base st (p4 y)) \<Longrightarrow> 
   (\<And>y. keeps cfg N base st (p5 y)) \<Longrightarrow> 
   (\<And>y. keeps cfg N base st (p6 y)) \<Longrightarrow> 
   (\<And>y. keeps cfg N base st (p7 y)) \<Longrightarrow> 
   (\<And>y. keeps cfg N base st (p8 y)) \<Longrightarrow> 
   (\<And>y. keeps cfg N base st (p9 y)) \<Longrightarrow> 
   (\<And>y. keeps cfg N base st (p10 y)) \<Longrightarrow> 
   (\<And>y. keeps cfg N base st (p11 y)) \<Longrightarrow> 
   (\<And>y. keeps cfg N base st (p12 y)) \<Longrightarrow> 
   (\<And>y. keeps cfg N base st (p13 y)) \<Longrightarrow> 
   (\<And>y. keeps cfg N base st (p14 y)) \<Longrightarrow> 
   (\<And>y. keeps cfg N base st (p15 y)) \<Longrightarrow> 
   (\<And>y. keeps cfg N base st (p16 y)) \<Longrightarrow> 
   (\<And>y. keeps cfg N base st (p17 y)) \<Longrightarrow> 
   (\<And>y. keeps cfg N base st (p18 y)) \<Longrightarrow> 
   (\<And>y z. keeps cfg N base st (p19 y z)) \<Longrightarrow> 
   (\<And>y z. keeps cfg N base st (p20 y z)) \<Longrightarrow>
   keeps cfg N base st (case x of VNone \<Rightarrow> p0 | VNullString \<Rightarrow> p1 | VNullObject \<Rightarrow> p2 | 
       VNullArray \<Rightarrow> p3 | VBool y \<Rightarrow> p4 y | VByte y \<Rightarrow> p5 y | 
       VSByte y \<Rightarrow> p6 y | VShort y \<Rightarrow> p7 y | VUShort y \<Rightarrow> p8 y | 
       VInt y \<Rightarrow> p9 y | VUInt y \<Rightarrow> p10 y | VLong y \<Rightarrow> p11 y | 
       VULong y \<Rightarrow> p12 y | VFloat y \<Rightarrow> p13 y | VDouble y \<Rightarrow> p14 y | 
       VChar y \<Rightarrow> p15 y | VString y \<Rightarrow> p16 y | VRef y \<Rightarrow> p17 y | 
       VHandle y \<Rightarrow> p18 y | VStruct y z \<Rightarrow> p19 y z | 
       VEnum y z \<Rightarrow> p20 y z)"
  by (cases x) simp_all


section \<open>Instructions\<close>

lemma keeps_storeResult [keeps_rules]:
  "quiet base st st' \<Longrightarrow> base \<le> fmRegisters F \<Longrightarrow> keeps cfg N base st (storeResult F ins v st')"
  by (simp add: storeResult_def setRegister_def keeps_done)

lemma keeps_heapFailure [keeps_rules]: "quiet base st st' \<Longrightarrow> keeps cfg N base st (heapFailure cfg e c m st')"
  by (simp add: heapFailure_def keeps_fail)

lemma keeps_storeAllocated [keeps_rules]:
  "quiet base st st' \<Longrightarrow> base \<le> fmRegisters F \<Longrightarrow> keeps cfg N base st (storeAllocated cfg F ins m a st')"
  unfolding storeAllocated_def Let_def by (intro keeps_rules) simp_all

lemma keeps_storeCalc [keeps_rules]:
  "quiet base st st' \<Longrightarrow> base \<le> fmRegisters F \<Longrightarrow> keeps cfg N base st (storeCalc cfg F ins c st')"
  unfolding storeCalc_def by (intro keeps_rules) simp_all

lemma keeps_expectType [keeps_rules]: "quiet base st st' \<Longrightarrow> keeps cfg N base st (expectType cfg v t w st')"
  unfolding expectType_def by (intro keeps_rules) simp_all

lemma keeps_expectObject [keeps_rules]: "quiet base st st' \<Longrightarrow> keeps cfg N base st (expectObject cfg v t b w st')"
  unfolding expectObject_def Let_def by (intro keeps_rules) simp_all

lemma keeps_expectSignatureType [keeps_rules]:
  "quiet base st st' \<Longrightarrow> keeps cfg N base st (expectSignatureType cfg v t i w st')"
  unfolding expectSignatureType_def by (intro keeps_rules) simp_all

lemma keeps_valuesEqual [keeps_rules]: "quiet base st st' \<Longrightarrow> keeps cfg N base st (valuesEqual cfg l r st')"
  unfolding valuesEqual_def by (intro keeps_rules) simp_all

lemma keeps_convertIntToLong [keeps_rules]:
  "quiet base st st' \<Longrightarrow> base \<le> fmRegisters F \<Longrightarrow> keeps cfg N base st (convertIntToLong cfg F ins st')"
  unfolding convertIntToLong_def Let_def by (intro keeps_rules) simp_all

lemma keeps_convertIntToDouble [keeps_rules]:
  "quiet base st st' \<Longrightarrow> base \<le> fmRegisters F \<Longrightarrow> keeps cfg N base st (convertIntToDouble cfg F ins st')"
  unfolding convertIntToDouble_def Let_def by (intro keeps_rules) simp_all

lemma keeps_convertLongToDouble [keeps_rules]:
  "quiet base st st' \<Longrightarrow> base \<le> fmRegisters F \<Longrightarrow> keeps cfg N base st (convertLongToDouble cfg F ins st')"
  unfolding convertLongToDouble_def Let_def by (intro keeps_rules) simp_all

lemma keeps_convertNumeric [keeps_rules]:
  "quiet base st st' \<Longrightarrow> base \<le> fmRegisters F \<Longrightarrow> keeps cfg N base st (convertNumeric cfg F ins st')"
  unfolding convertNumeric_def Let_def by (intro keeps_rules) simp_all

lemma keeps_typeTest [keeps_rules]:
  "quiet base st st' \<Longrightarrow> base \<le> fmRegisters F \<Longrightarrow> keeps cfg N base st (typeTest cfg F ins st')"
  unfolding typeTest_def Let_def by (intro keeps_rules) simp_all

lemma keeps_newArray [keeps_rules]:
  "quiet base st st' \<Longrightarrow> base \<le> fmRegisters F \<Longrightarrow> keeps cfg N base st (newArray cfg F ins st')"
  unfolding newArray_def Let_def by (intro keeps_rules) simp_all

lemma keeps_arrayLengthInstruction [keeps_rules]:
  "quiet base st st' \<Longrightarrow> base \<le> fmRegisters F \<Longrightarrow> keeps cfg N base st (arrayLengthInstruction cfg F ins st')"
  unfolding arrayLengthInstruction_def Let_def by (intro keeps_rules) simp_all

lemma keeps_elementPlace [keeps_rules]:
  "quiet base st st' \<Longrightarrow> keeps cfg N base st (elementPlace cfg ins w v i st')"
  unfolding elementPlace_def by (intro keeps_rules) simp_all

lemma keeps_loadElement [keeps_rules]:
  "quiet base st st' \<Longrightarrow> base \<le> fmRegisters F \<Longrightarrow> keeps cfg N base st (loadElement cfg F ins st')"
  unfolding loadElement_def Let_def by (intro keeps_rules) simp_all

lemma keeps_storeElement [keeps_rules]:
  "quiet base st st' \<Longrightarrow> base \<le> fmRegisters F \<Longrightarrow> keeps cfg N base st (storeElement cfg F ins st')"
  unfolding storeElement_def Let_def by (intro keeps_rules) simp_all

lemma keeps_newObject [keeps_rules]:
  "quiet base st st' \<Longrightarrow> base \<le> fmRegisters F \<Longrightarrow> keeps cfg N base st (newObject cfg F ins st')"
  unfolding newObject_def Let_def by (intro keeps_rules) simp_all

lemma keeps_newStruct [keeps_rules]:
  "quiet base st st' \<Longrightarrow> base \<le> fmRegisters F \<Longrightarrow> keeps cfg N base st (newStruct cfg F ins st')"
  unfolding newStruct_def Let_def by (intro keeps_rules) simp_all

lemma keeps_checkNotNull [keeps_rules]:
  "quiet base st st' \<Longrightarrow> base \<le> fmRegisters F \<Longrightarrow> keeps cfg N base st (checkNotNull cfg F ins st')"
  unfolding checkNotNull_def Let_def by (intro keeps_rules) simp_all

lemma keeps_loadField [keeps_rules]:
  "quiet base st st' \<Longrightarrow> base \<le> fmRegisters F \<Longrightarrow> keeps cfg N base st (loadField cfg F ins st')"
  unfolding loadField_def Let_def by (intro keeps_rules) simp_all

lemma keeps_storeField [keeps_rules]:
  "quiet base st st' \<Longrightarrow> base \<le> fmRegisters F \<Longrightarrow> keeps cfg N base st (storeField cfg F ins st')"
  unfolding storeField_def Let_def by (intro keeps_rules) simp_all

lemma keeps_loadStructField [keeps_rules]:
  "quiet base st st' \<Longrightarrow> base \<le> fmRegisters F \<Longrightarrow> keeps cfg N base st (loadStructField cfg F ins st')"
  unfolding loadStructField_def Let_def by (intro keeps_rules) simp_all

lemma keeps_storeStructField [keeps_rules]:
  "quiet base st st' \<Longrightarrow> base \<le> fmRegisters F \<Longrightarrow> keeps cfg N base st (storeStructField cfg F ins st')"
  unfolding storeStructField_def Let_def by (intro keeps_rules) simp_all

lemma keeps_equalityInstruction [keeps_rules]:
  "quiet base st st' \<Longrightarrow> base \<le> fmRegisters F \<Longrightarrow> keeps cfg N base st (equalityInstruction cfg F ins st')"
  unfolding equalityInstruction_def Let_def by (intro keeps_rules) simp_all

lemma keeps_binaryInstruction [keeps_rules]:
  "quiet base st st' \<Longrightarrow> base \<le> fmRegisters F \<Longrightarrow> keeps cfg N base st (binaryInstruction cfg F ins st')"
  unfolding binaryInstruction_def Let_def by (intro keeps_rules) simp_all

lemma keeps_newDelegate [keeps_rules]:
  "quiet base st st' \<Longrightarrow> base \<le> fmRegisters F \<Longrightarrow> keeps cfg N base st (newDelegate cfg F ins st')"
  unfolding newDelegate_def Let_def by (intro keeps_rules) simp_all

lemma keeps_convertNull [keeps_rules]:
  "quiet base st st' \<Longrightarrow> base \<le> fmRegisters F \<Longrightarrow> keeps cfg N base st (convertNull cfg F ins v st')"
  unfolding convertNull_def Let_def by (intro keeps_rules) simp_all


lemma keeps_negateInstruction [keeps_rules]:
  "quiet base st st' \<Longrightarrow> base \<le> fmRegisters F \<Longrightarrow> keeps cfg N base st (negateInstruction cfg F ins st')"
  unfolding negateInstruction_def Let_def
  by (rule Opcode.split [THEN iffD2], intro conjI impI; intro keeps_rules) simp_all

lemma keeps_flattenDelegate [keeps_rules]:
  "quiet base st st' \<Longrightarrow> keeps cfg N base st (flattenDelegate cfg t n v st')"
proof (induction n arbitrary: v st st')
  case (Suc n)
  show ?case unfolding flattenDelegate.simps
    by (intro keeps_rules Suc.IH) (simp_all add: Suc.prems)
qed (simp add: keeps_rules)

lemma keeps_buildDelegateFrom [keeps_rules]:
  "quiet base st st' \<Longrightarrow> keeps cfg N base st (buildDelegateFrom cfg t acc leaves st')"
proof (induction leaves arbitrary: acc st')
  case (Cons leaf leaves)
  show ?case unfolding buildDelegateFrom.simps Let_def
    by (intro keeps_rules Cons.IH) (simp_all add: Cons.prems)
qed (simp add: keeps_rules)

lemma keeps_buildDelegateList [keeps_rules]:
  "quiet base st st' \<Longrightarrow> keeps cfg N base st (buildDelegateList cfg t leaves st')"
  unfolding buildDelegateList_def by (intro keeps_rules) simp_all

lemma keeps_combineDelegates [keeps_rules]:
  "quiet base st st' \<Longrightarrow> base \<le> fmRegisters F \<Longrightarrow> keeps cfg N base st (combineDelegates cfg F ins st')"
  unfolding combineDelegates_def Let_def by (intro keeps_rules) simp_all

lemma keeps_readDelegateId [keeps_rules]:
  "quiet base st st' \<Longrightarrow> keeps cfg N base st (readDelegateId cfg r low m st')"
  unfolding readDelegateId_def by (intro keeps_rules) simp_all

section \<open>Calls\<close>

definition executor_ok :: "'h VmConfig \<Rightarrow> nat \<Rightarrow> 'h executor \<Rightarrow> bool" where
  "executor_ok cfg N Exec \<longleftrightarrow>
     (\<forall>l arguments prevalidated st. keeps cfg N (vmTop st) st (Exec l arguments prevalidated st))"

lemma goes_on_base: "goes_on cfg upper st st' \<Longrightarrow> base \<le> upper \<Longrightarrow> goes_on cfg base st st'"
  unfolding goes_on_def by (metis min.absorb1 take_take)

lemma follows_base:
  "window_ok base st \<Longrightarrow> follows pops cfg N (vmTop st) st p \<Longrightarrow> follows pops cfg N base st p"
  by (cases p; cases "fst p")
    (auto simp: follows_Done follows_Failed follows_OutOfFuel window_ok_def elim: goes_on_base)

lemma follows_fuel: "follows pops cfg N base st p \<Longrightarrow> K \<le> N \<Longrightarrow> follows pops cfg K base st p"
  by (cases p; cases "fst p"; cases "window_ok base st")
    (auto simp: follows_Done follows_Failed follows_OutOfFuel follows_def)

lemma keeps_exec:
  assumes "executor_ok cfg N Exec" and "quiet base st st'"
  shows "keeps cfg N base st (Exec l arguments prevalidated st')"
proof (cases "window_ok base st'")
  case True
  with assms show ?thesis using follows_base follows_quiet by (metis executor_ok_def)
next
  case False
  with assms(2) have "\<not> window_ok base st" by (simp add: window_ok_def quiet_def)
  then show ?thesis by (simp add: follows_def)
qed

lemma consume_Done:
  assumes "consume cfg i st = (Done a, st1)"
  shows "vmExecuted st < budgetOf cfg" and "vmExecuted st1 = vmExecuted st + 1"
    and "quiet base (st\<lparr>vmExecuted := vmExecuted st1\<rparr>) st1"
  using assms
  by (auto simp: consume_def Let_def fail_def split: if_splits)
    (auto simp: quiet_def emitTrace_def gcStep_def Let_def split: prod.split)

lemma count_up:
  assumes "x < (y :: u64)"
  shows "unat (x + 1) = unat x + 1"
proof -
  have "unat y < 2 ^ LENGTH(64)" by (rule unsigned_less)
  with assms show ?thesis by (simp add: word_less_nat_alt unat_word_ariths)
qed

lemma count_bounds: "x < (y :: u64) \<Longrightarrow> x < x + 1 \<and> x + 1 \<le> y"
  using count_up [of x y] by (simp add: word_less_nat_alt word_le_nat_alt)

lemma consume_goes_on:
  assumes "consume cfg i st = (Done a, st1)"
  shows "goes_on cfg base st st1" and "vmExecuted st < vmExecuted st1" and "vmStack st1 = vmStack st"
    and "vmPending st1 = vmPending st" and "ticksLeft cfg st = ticksLeft cfg st1 + 1"
proof -
  note E = consume_Done [OF assms]
  note Q = E(3) [of base]
  show "vmExecuted st < vmExecuted st1" using count_bounds [OF E(1)] E(2) by simp
  show "goes_on cfg base st st1" using Q count_bounds [OF E(1)] E(2)
    by (auto simp: quiet_def goes_on_def depth_ok_def)
  show "vmStack st1 = vmStack st" "vmPending st1 = vmPending st" using Q by (simp_all add: quiet_def)
  show "ticksLeft cfg st = ticksLeft cfg st1 + 1"
    using E(1) by (simp add: ticksLeft_def E(2) count_up word_less_nat_alt)
qed

lemma consume_failed:
  assumes "consume cfg i st = (r, st1)" and "\<And>a. r \<noteq> Done a"
  shows "r = Failed" and "quiet base st st1"
  using assms by (auto simp: consume_def fail_def Let_def split: if_splits)

lemma follows_consume:
  assumes "\<And>st1. follows pops cfg N base st1 (f () st1)" and pops: "pops Failed = False"
  shows "follows pops cfg (N + 2) base st (vbind (consume cfg i) f st)"
proof (cases "window_ok base st")
  case True
  obtain r st1 where c: "consume cfg i st = (r, st1)" by (cases "consume cfg i st")
  show ?thesis
  proof (cases "\<exists>a. r = Done a")
    case True
    with c have c': "consume cfg i st = (Done (), st1)" by auto
    note G = consume_goes_on [OF c']
    have v: "vbind (consume cfg i) f st = f () st1" by (simp add: vbind_def c')
    obtain r2 st2 where p: "f () st1 = (r2, st2)" by (cases "f () st1")
    have F: "follows pops cfg N base st1 (r2, st2)" using assms(1) [of st1] by (simp add: p)
    show ?thesis
    proof (cases "r2 = OutOfFuel")
      case True
      have "vmPending st1 = None" using G(4) \<open>window_ok base st\<close> by (simp add: window_ok_def)
      with True F G(5) \<open>window_ok base st\<close> goes_on_window [OF G(1) \<open>window_ok base st\<close>]
      show ?thesis by (simp add: v p follows_OutOfFuel)
    next
      case False
      have "follows pops cfg N base st (r2, st2)"
        using follows_after [OF G(1,3) _ F] G(4) by simp
      with False show ?thesis by (cases r2) (auto simp: v p follows_def)
    qed
  next
    case False
    with consume_failed [OF c] have "r = Failed" "quiet base st st1" by blast+
    with c pops show ?thesis
      using \<open>window_ok base st\<close>
      by (simp add: vbind_def follows_Failed quiet_goes_on) (simp add: quiet_def window_ok_def)
  qed
qed (simp add: follows_def)

lemma follows_charged:
  assumes "\<And>st1. follows pops cfg N base st1 (f () st1)" and "K \<le> N + 2" and "pops Failed = False"
  shows "follows pops cfg K base st (vbind (consume cfg i) f st)"
  by (rule follows_fuel [OF _ assms(2)], rule follows_consume) (simp_all add: assms)

lemma keeps_expectSignatures [keeps_rules]:
  "quiet base st st' \<Longrightarrow> keeps cfg N base st (expectSignatures cfg w ts is i vs st')"
proof (induction vs arbitrary: i st st')
  case (Cons v vs)
  show ?case unfolding expectSignatures.simps by (intro keeps_rules Cons.IH) (simp_all add: Cons.prems)
qed (simp add: keeps_rules)

lemma quiet_cacheCall [simp]: "quiet base st (cacheCall cfg site v l st') = quiet base st st'"
  by (simp add: cacheCall_def split: Value.split option.split)

lemma keeps_virtualTarget [keeps_rules]:
  "quiet base st st' \<Longrightarrow> keeps cfg N base st (virtualTarget cfg reference t st')"
  unfolding virtualTarget_def Let_def by (intro keeps_rules) simp_all

lemma keeps_interfaceTarget [keeps_rules]:
  "quiet base st st' \<Longrightarrow> keeps cfg N base st (interfaceTarget cfg reference t st')"
  unfolding interfaceTarget_def Let_def by (intro keeps_rules) simp_all

lemma keeps_dispatchReceiver [keeps_rules]:
  "quiet base st st' \<Longrightarrow> (\<And>t st. keeps cfg N base st (tables t st)) \<Longrightarrow>
   keeps cfg N base st (dispatchReceiver cfg site v w tables st')"
  unfolding dispatchReceiver_def by (intro keeps_rules) simp_all

lemma keeps_dispatch [keeps_rules]:
  "quiet base st st' \<Longrightarrow> keeps cfg N base st (dispatch cfg site reference vs st')"
  unfolding dispatch_def by (intro keeps_rules) simp_all

lemma keeps_externalCall [keeps_rules]:
  "quiet base st st' \<Longrightarrow> keeps cfg N base st (externalCall cfg reference vs st')"
  unfolding externalCall_def Let_def
  by (intro keeps_rules) (simp_all add: quiet_def emitTrace_def)

lemma keeps_executeCall:
  assumes E: "executor_ok cfg N Exec" and "quiet base st st'"
  shows "keeps cfg N base st (executeCall cfg Exec F site ins st')"
  unfolding executeCall_def Let_def by (intro keeps_rules keeps_exec [OF E]) (simp_all add: assms)

lemma keeps_expectDelegateArguments [keeps_rules]:
  "quiet base st st' \<Longrightarrow> keeps cfg N base st (expectDelegateArguments cfg ps vs st')"
proof (induction ps arbitrary: vs st st')
  case (Cons p ps)
  show ?case
  proof (cases vs)
    case (Cons v vs')
    show ?thesis unfolding Cons expectDelegateArguments.simps(1)
      by (intro keeps_rules Cons.IH) (simp_all add: Cons.prems)
  qed (simp add: keeps_rules Cons.prems)
qed (simp add: keeps_rules)

lemma keeps_delegateDispatch [keeps_rules]:
  "quiet base st st' \<Longrightarrow> keeps cfg N base st (delegateDispatch cfg d flags i vs target st')"
  unfolding delegateDispatch_def Let_def by (intro keeps_rules) simp_all

lemma keeps_invokeSingle:
  assumes E: "executor_ok cfg N Exec" and "quiet base st st'"
  shows "keeps cfg N base st (invokeSingle cfg Exec d r vs st')"
  unfolding invokeSingle_def Let_def by (intro keeps_rules keeps_exec [OF E]) (simp_all add: assms)

lemma keeps_invokeStart [keeps_rules]:
  "quiet base st st' \<Longrightarrow> keeps cfg N base st (invokeStart cfg F ins vs st')"
  unfolding invokeStart_def by (intro keeps_rules) simp_all


lemma keeps_fuel: "keeps cfg N base st p \<Longrightarrow> K \<le> N \<Longrightarrow> keeps cfg K base st p"
  by (rule follows_fuel)

lemma keeps_invokeDelegate:
  fixes st :: "'h Vm"
  assumes E: "executor_ok cfg N Exec" and "quiet base st st'"
  shows "keeps cfg (min N (2 * m)) base st (invokeDelegate cfg Exec F ins m vs st')"
  using assms(2)
proof (induction m arbitrary: vs st st')
  case 0
  have "keeps cfg 0 base st' (invokeDelegate cfg Exec F ins 0 vs st')" by (simp add: follows_def)
  then show ?case using follows_quiet [OF 0] by simp
next
  case (Suc m)
  have leaves: "keeps cfg (min N (2 * Suc m)) base st (invokeLeaves cfg Exec F ins m vs latest ls st)" for latest ls st
  proof (induction ls arbitrary: latest st)
    case (Cons leaf ls)
    have step: "keeps cfg (min N (2 * m)) base st1 (invokeDelegate cfg Exec F ins m ws st1)" for ws st1
      by (rule Suc.IH) simp
    show ?case unfolding invokeLeaves.simps
    proof (rule follows_charged)
      fix st1 :: "'h Vm"
      show "keeps cfg (min N (2 * m)) base st1 (vbind (invokeDelegate cfg Exec F ins m (withLeaf ins leaf vs))
          (\<lambda>v. invokeLeaves cfg Exec F ins m vs v ls) st1)"
        by (rule keeps_bind [OF quiet_refl step keeps_fuel [OF Cons.IH]]) simp
    qed simp_all
  qed (simp add: keeps_rules)
  show ?case unfolding invokeDelegate.simps
    by (intro keeps_rules keeps_fuel [OF keeps_invokeSingle [OF E]] leaves) (simp_all add: Suc.prems)
qed

end
