(* ===== verification/Interpreter_Termination.thy ===== *)
theory Interpreter_Termination
  imports Interpreter_Budgets
begin

text \<open>
  Every execution ends within the fuel that the instruction budget allows: a block charges for its
  terminator, a call and a leaf of a delegate are each preceded by a charge, so a fuel of twice the
  instructions that are left, plus two, is enough for \<open>executeFunction\<close>.
\<close>

section \<open>Blocks and functions\<close>

definition frame_above :: "nat \<Rightarrow> Frame \<Rightarrow> bool" where
  "frame_above base F \<longleftrightarrow> base \<le> fmLocals F \<and> base \<le> fmRegisters F \<and> base \<le> fmScratch F"

lemma quiet_frame [simp]:
  assumes "frame_above base F"
  shows "quiet base st (setLocal F i v st') = quiet base st st'"
    and "quiet base st (setRegister F i v st') = quiet base st st'"
    and "quiet base st (putValue (fmScratch F + j) v st') = quiet base st st'"
  using assms by (simp_all add: frame_above_def setLocal_def setRegister_def)

lemma keeps_stored:
  "frame_above base F \<Longrightarrow> keeps cfg N base st
     (if r = InvalidRegister then (Done (), st) else storeResult F ins v st)"
  by (intro keeps_rules) (simp_all add: frame_above_def)

lemma keeps_performInstruction:
  fixes st :: "'h Vm"
  assumes E: "executor_ok cfg n Exec" and F: "frame_above base F"
  shows "keeps cfg n base st (performInstruction cfg Exec n F site ins st)"
proof -
  have D: "keeps cfg n base st (vbind (invokeDelegate cfg Exec F ins n vs)
      (\<lambda>v st1. if inResult ins = InvalidRegister then (Done (), st1) else storeResult F ins v st1) st)" for vs
    by (rule keeps_bind [OF quiet_refl keeps_fuel [OF keeps_invokeDelegate [OF E quiet_refl]] keeps_stored [OF F]]) simp
  have C: "keeps cfg n base st (vbind (executeCall cfg Exec F site ins)
      (\<lambda>v st1. if inResult ins = InvalidRegister then (Done (), st1) else storeResult F ins v st1) st)"
    by (rule keeps_bind [OF quiet_refl keeps_executeCall [OF E quiet_refl] keeps_stored [OF F]])
  have b: "base \<le> fmRegisters F" using F by (simp add: frame_above_def)
  show ?thesis unfolding performInstruction_def
    by (rule Opcode.split [THEN iffD2], intro conjI impI)
      (simp_all add: keeps_rules F C D b)
qed

lemma keeps_executeInstruction:
  assumes "executor_ok cfg n Exec" and "frame_above base F"
  shows "keeps cfg (n + 2) base st (executeInstruction cfg Exec n F site ins st)"
  unfolding executeInstruction_def consumeInstruction_def
  by (rule follows_charged [where N = n]) (simp_all add: keeps_performInstruction [OF assms])

lemma keeps_quickBinary:
  "frame_above base F \<Longrightarrow> quiet base st st' \<Longrightarrow> keeps cfg N base st (quickBinaryInstruction cfg F q ins st')"
  unfolding quickBinaryInstruction_def by (intro keeps_rules) (simp_all add: frame_above_def)

lemma keeps_performQuick:
  assumes E: "executor_ok cfg N Exec" and F: "frame_above base F"
  shows "keeps cfg N base st (performQuick cfg Exec F e st)"
proof -
  have b: "base \<le> fmRegisters F" using F by (simp add: frame_above_def)
  have D: "keeps cfg N base st (vbind (Exec l vs True)
      (\<lambda>v st1. if inResult ins = InvalidRegister then (Done (), st1) else storeResult F ins v st1) st)" for l vs ins
    by (rule keeps_bind [OF quiet_refl keeps_exec [OF E quiet_refl] keeps_stored [OF F]])
  show ?thesis unfolding performQuick_def Let_def
    by (rule QuickOpcode.split [THEN iffD2], intro conjI impI)
      (simp_all add: keeps_rules keeps_quickBinary F b D split: option.split)
qed

lemma keeps_executeQuick:
  assumes "executor_ok cfg n Exec" and "frame_above base F"
  shows "keeps cfg (n + 2) base st (executeQuickInstruction cfg Exec F e st)"
  unfolding executeQuickInstruction_def consumeInstruction_def
  by (rule follows_charged [where N = n]) (simp_all add: keeps_performQuick [OF assms])

text \<open>A fused run has as many instructions as its span says.\<close>

definition span_ok :: "ExecutionInstruction \<Rightarrow> bool" where
  "span_ok e \<longleftrightarrow>
     (eiSuper e \<noteq> SuNone \<longrightarrow>
       (if eiSuper e = SuLoadParameterStoreLocal then eiSpan e = 2 else eiSpan e = 3 \<or> eiSpan e = 4))"

lemma fuse_spans: "\<forall>e\<in>set es. eiSuper e = SuNone \<Longrightarrow> \<forall>e\<in>set (fuse es). span_ok e"
  by (induction es rule: fuse.induct) (auto simp: span_ok_def markSuper_def)

lemma mirror_spans: "\<forall>e\<in>set (ebInstructions (mirrorBlock program m f b)). span_ok e"
proof -
  have "\<forall>e\<in>set (fuse (map (decoded f) (bbInstructions b))). span_ok e"
    by (rule fuse_spans) (simp add: decoded_def)
  then show ?thesis by (auto simp: mirrorBlock_def Let_def span_ok_def bindCall_def split: option.split)
qed

definition room :: "'h VmConfig \<Rightarrow> nat \<Rightarrow> 'h Vm \<Rightarrow> bool" where
  "room cfg k st \<longleftrightarrow> vmExecuted st \<le> budgetOf cfg \<and> k \<le> unat (budgetOf cfg - vmExecuted st)"

lemma room_ticks: "room cfg k st \<longleftrightarrow> unat (vmExecuted st) + k \<le> unat (budgetOf cfg)"
  by (auto simp: room_def word_le_nat_alt unat_sub)

lemma room_quiet: "quiet base st st' \<Longrightarrow> room cfg k st' = room cfg k st"
  by (simp add: room_def quiet_def)

lemma room_count: "room cfg (Suc k) st \<Longrightarrow> room cfg k (countOne st)"
  using count_up [of "vmExecuted st" "budgetOf cfg"]
  by (simp add: room_ticks countOne_def word_less_nat_alt)

lemma keeps_counted:
  assumes R: "room cfg (Suc k) st" and K: "keeps cfg N base (countOne st) p"
  shows "keeps cfg N base st p"
proof (rule follows_after [OF _ _ _ K])
  have "vmExecuted st < budgetOf cfg" using R by (simp add: room_ticks word_less_nat_alt)
  from count_bounds [OF this] show "goes_on cfg base st (countOne st)"
    by (auto simp: goes_on_def countOne_def depth_ok_def)
qed (simp_all add: countOne_def)

lemma quickBinary_quiet:
  assumes "frame_above base F" and "quickBinaryInstruction cfg F q ins st = (Done a, st1)"
  shows "quiet base st st1"
  using assms
  by (auto simp: quickBinaryInstruction_def storeCalc_def fail_def storeResult_def
      split: Value.splits calc.splits)

lemma quiet_local [simp]:
  assumes "frame_above base F"
  shows "quiet base st (loadsLocal F i st') = quiet base st st'"
    and "quiet base st (storesLocal F i st') = quiet base st st'"
  using assms by (simp_all add: loadsLocal_def storesLocal_def)

lemma keeps_super_binary:
  assumes F: "frame_above base F" and R: "room cfg (if eiSpan e0 = 4 then 2 else 1) st"
  shows "keeps cfg N base st
    (vbind (\<lambda>st. quickBinaryInstruction cfg F q i2 (countOne st)) (\<lambda>_ st4.
       if eiSpan e0 = 4 then (Done (), storesLocal F i3 (countOne st4)) else (Done (), st4)) st)"
proof (rule follows_bind)
  have R1: "room cfg (Suc 0) st" using R by (auto simp: room_def split: if_splits)
  show "keeps cfg N base st (quickBinaryInstruction cfg F q i2 (countOne st))"
    by (rule keeps_counted [OF R1 keeps_quickBinary [OF F quiet_refl]])
  fix a st4
  assume "quickBinaryInstruction cfg F q i2 (countOne st) = (Done a, st4)"
  then have Q: "quiet base (countOne st) st4" by (rule quickBinary_quiet [OF F])
  show "keeps cfg N base st4
      (if eiSpan e0 = 4 then (Done (), storesLocal F i3 (countOne st4)) else (Done (), st4))"
  proof (cases "eiSpan e0 = 4")
    case True
    then have "room cfg (Suc 0) (countOne st)" using R room_count [of cfg "Suc 0" st] by (simp add: numeral_2_eq_2)
    then have "room cfg (Suc 0) st4" by (simp add: room_quiet [OF Q])
    have "keeps cfg N base st4 (Done (), storesLocal F i3 (countOne st4))"
      by (rule keeps_counted [OF \<open>room cfg (Suc 0) st4\<close> keeps_done]) (simp add: F)
    with True show ?thesis by simp
  qed (simp add: keeps_done)
qed simp

lemma keeps_executeSuper:
  assumes F: "frame_above base F" and S: "span_ok (es ! 0)" "eiSuper (es ! 0) \<noteq> SuNone"
    and R: "room cfg (eiSpan (es ! 0)) st"
  shows "keeps cfg N base st (executeSuperInstruction cfg F es st)"
proof (cases "eiSuper (es ! 0) = SuLoadParameterStoreLocal")
  case True
  define v where "v = argumentAt F (inIndex (eiInstruction (es ! 0))) (countOne st)"
  define st2 where "st2 = setRegister F (inResult (eiInstruction (es ! 0))) v (countOne st)"
  have R2: "room cfg (Suc (Suc 0)) st" using S R True by (simp add: span_ok_def numeral_2_eq_2)
  have Q: "quiet base (countOne st) st2" using F by (simp add: st2_def)
  have R1: "room cfg (Suc 0) st2" using room_count [OF R2] by (simp add: room_quiet [OF Q])
  have "keeps cfg N base st2 (Done (), storesLocal F (eiInstruction (es ! 1)) (countOne st2))"
    by (rule keeps_counted [OF R1 keeps_done]) (simp add: F)
  from keeps_counted [OF R2 follows_quiet [OF Q this]] show ?thesis using True
    by (simp add: executeSuperInstruction_def Let_def st2_def v_def)
next
  case False
  let ?i0 = "eiInstruction (es ! 0)" and ?i1 = "eiInstruction (es ! 1)"
  define k where "k = (if eiSpan (es ! 0) = 4 then 2 else 1 :: nat)"
  define st1 where "st1 = loadsLocal F ?i0 (countOne st)"
  define st3 where "st3 = (if eiQuick (es ! 1) = QConstantInt
      then setRegister F (inResult ?i1) (VInt (inInteger ?i1)) (countOne st1)
      else loadsLocal F ?i1 (countOne st1))"
  have R3: "room cfg (Suc (Suc k)) st" using S R False by (auto simp: span_ok_def k_def numeral_eq_Suc)
  have Q1: "quiet base (countOne st) st1" using F by (simp add: st1_def)
  have R2: "room cfg (Suc k) st1" using room_count [OF R3] by (simp add: room_quiet [OF Q1])
  have Q3: "quiet base (countOne st1) st3" using F by (simp add: st3_def)
  have R1: "room cfg k st3" using room_count [OF R2] by (simp add: room_quiet [OF Q3])
  note K = keeps_super_binary [OF F R1 [unfolded k_def], of N "eiQuick (es ! 2)" "eiInstruction (es ! 2)" "eiInstruction (es ! 3)"]
  have "executeSuperInstruction cfg F es st =
      vbind (\<lambda>st. quickBinaryInstruction cfg F (eiQuick (es ! 2)) (eiInstruction (es ! 2)) (countOne st))
        (\<lambda>_ st4. if eiSpan (es ! 0) = 4 then (Done (), storesLocal F (eiInstruction (es ! 3)) (countOne st4))
                 else (Done (), st4)) st3"
    using False by (simp add: executeSuperInstruction_def Let_def st1_def st3_def)
  with keeps_counted [OF R3 follows_quiet [OF Q1 keeps_counted [OF R2 follows_quiet [OF Q3 K]]]]
  show ?thesis by simp
qed

lemma keeps_executeOne:
  assumes E: "executor_ok cfg n Exec" and F: "frame_above base F" and S: "span_ok (hd es)" "es \<noteq> []"
  shows "keeps cfg (n + 2) base st (executeOne cfg Exec n F site es st)"
proof -
  have h: "hd es = es ! 0" using S by (simp add: hd_conv_nth)
  show ?thesis
  proof (cases "canExecuteSuper cfg (hd es) st")
    case True
    then have R: "room cfg (eiSpan (es ! 0)) st" "eiSuper (es ! 0) \<noteq> SuNone"
      by (auto simp: canExecuteSuper_def room_def h)
    have "keeps cfg (n + 2) base st (vbind (executeSuperInstruction cfg F es) (\<lambda>_. vreturn (eiSpan (hd es))) st)"
      by (rule keeps_bind [OF quiet_refl keeps_executeSuper [OF F]]) (use S R h in \<open>simp_all add: keeps_rules\<close>)
    with True show ?thesis by (simp add: executeOne_def)
  next
    case False
    have G: "keeps cfg (n + 2) base st
        (vbind (executeInstruction cfg Exec n F site ins) (\<lambda>_. vreturn (1 :: nat)) st)" for ins
      by (rule keeps_bind [OF quiet_refl keeps_executeInstruction [OF E F]]) (simp add: keeps_rules)
    have Q: "keeps cfg (n + 2) base st (vbind (executeQuickInstruction cfg Exec F e) (\<lambda>_. vreturn (1 :: nat)) st)" for e
      by (rule keeps_bind [OF quiet_refl keeps_executeQuick [OF E F]]) (simp add: keeps_rules)
    show ?thesis unfolding executeOne_def Let_def using False G Q by (simp del: One_nat_def)
  qed
qed

lemma keeps_executeInstructions:
  fixes st :: "'h Vm"
  assumes E: "executor_ok cfg n Exec" and F: "frame_above base F"
  shows "\<forall>e\<in>set es. span_ok e \<Longrightarrow>
    keeps cfg (n + 2) base st (executeInstructions cfg Exec n F block i es st)"
proof (induction "length es" arbitrary: es i st rule: less_induct)
  case less
  show ?case
  proof (cases "es = []")
    case True
    then show ?thesis by (simp add: executeInstructions.simps keeps_done)
  next
    case False
    have one: "keeps cfg (n + 2) base st (executeOne cfg Exec n F site es st)" for site
      by (rule keeps_executeOne [OF E F]) (use False less.prems in auto)
    have rest: "keeps cfg (n + 2) base st1
        (executeInstructions cfg Exec n F block (i + max 1 k) (drop (max 1 k) es) st1)" for k and st1 :: "'h Vm"
      by (rule less.hyps) (use False less.prems in \<open>auto dest: in_set_dropD\<close>)
    from False have "executeInstructions cfg Exec n F block i es st =
        vbind (executeOne cfg Exec n F (fnSymbolId (fmFunction F), block, i) es)
          (\<lambda>k. executeInstructions cfg Exec n F block (i + max 1 k) (drop (max 1 k) es)) st"
      by (subst executeInstructions.simps) simp
    then show ?thesis by (simp only:) (rule follows_bind, rule one, rule rest, simp)
  qed
qed

lemma follows_popped:
  assumes "quiet base (popStack st) st'" and "\<And>a. pops (Done a) \<Longrightarrow> True"
  shows "pops Failed \<Longrightarrow> follows pops cfg N base st (Failed, st')"
    and "pops (Done a) \<Longrightarrow> follows pops cfg N base st (Done a, st')"
  using assms(1) by (auto simp: follows_def quiet_def popStack_def goes_on_def depth_ok_def window_ok_def)

lemma follows_failPopped:
  "pops Failed \<Longrightarrow> quiet base st st' \<Longrightarrow> follows pops cfg N base st (failPopped cfg c m st')"
  unfolding failPopped_def fail_def
  by (rule follows_popped) (simp_all, simp add: quiet_def popStack_def)

lemma follows_popping_bind:
  assumes M: "keeps cfg N base st (m st)"
    and F: "\<And>a st1. m st = (Done a, st1) \<Longrightarrow> follows pops cfg N base st1 (f a st1)"
    and pops: "pops Failed"
  shows "follows pops cfg N base st (vbind (popping m) f st)"
proof (cases "window_ok base st")
  case True
  obtain r st1 where m: "m st = (r, st1)" by (cases "m st")
  show ?thesis
  proof (cases r)
    case (Done a)
    with m have d: "m st = (Done a, st1)" by simp
    then have v: "vbind (popping m) f st = f a st1" by (simp add: vbind_def popping_def)
    from M True have "goes_on cfg base st st1" "vmStack st1 = vmStack st"
        "vmPending st1 = None" by (simp_all add: d follows_Done)
    then show ?thesis unfolding v by (intro follows_after [OF _ _ _ F [OF d]]) auto
  next
    case Failed
    with M True pops show ?thesis
      by (simp add: m vbind_def popping_def follows_Failed goes_on_def popStack_def depth_ok_def)
  next
    case OutOfFuel
    with M True show ?thesis by (simp add: m vbind_def popping_def follows_OutOfFuel)
  qed (simp add: m vbind_def popping_def)
qed (simp add: follows_def)

lemma quiet_copyIn:
  assumes F: "frame_above base F"
  shows "quiet base st (copyIn F rs st') = quiet base st st'"
proof -
  have "quiet base st (fold (\<lambda>i s. putValue (fmScratch F + i) (registerAt F (rs ! i) s) s) is st') = quiet base st st'" for "is"
    by (induction "is" arbitrary: st') (simp_all add: F)
  then show ?thesis by (simp add: copyIn_def)
qed

lemma quiet_copyOut:
  assumes F: "frame_above base F"
  shows "quiet base st (copyOut F ps st') = quiet base st st'"
proof -
  have "quiet base st (fold (\<lambda>i s. let v = vmValues s ! (fmScratch F + i)
      in setRegister F (bpTarget (ps ! i)) v (putValue (fmScratch F + i) (movedFrom v) s)) is st') = quiet base st st'" for "is"
    by (induction "is" arbitrary: st') (simp_all add: F Let_def)
  then show ?thesis by (simp add: copyOut_def)
qed

text \<open>Where a block ends: it goes on at another block or leaves the function.\<close>

definition leaves :: "(Value + nat) result \<Rightarrow> bool" where
  "leaves r \<longleftrightarrow> (case r of Done (Inr _) \<Rightarrow> False | _ \<Rightarrow> True)"

lemma leaves_simps [simp]: "leaves Failed" "leaves (Done (Inl v))" "\<not> leaves (Done (Inr i))"
  by (simp_all add: leaves_def)

lemma takeEdge_cases:
  assumes F: "frame_above base F"
  obtains (failed) c m st1 where "quiet base st st1" and "takeEdge cfg F scratch edge st = failPopped cfg c m st1"
    | (taken) i st1 where "quiet base st st1" and "takeEdge cfg F scratch edge st = (Done i, st1)"
proof (cases edge)
  case None
  then show ?thesis by (intro failed [of st]) (simp_all add: takeEdge_def)
next
  case (Some e)
  note C = quiet_copyIn [OF F] quiet_copyOut [OF F]
  define count where "count = length (fnRegisterTypes (fmFunction F))"
  define valid where "valid = takeWhile (\<lambda>(r, p). unat r < count \<and> unat (bpTarget p) < count)
      (zip (eeSources e) (eeDestinations e))"
  have eq: "takeEdge cfg F scratch edge st =
      (if length (eeSources e) \<noteq> length (eeDestinations e)
       then failPopped cfg EcInvalidProgram ''branch target or argument count is invalid'' st
       else if scratch < length (eeSources e)
       then failPopped cfg EcInvalidProgram ''branch scratch space is too small'' st
       else if length valid < length (eeSources e)
       then failPopped cfg EcInvalidProgram ''branch argument register is invalid'' (copyIn F (map fst valid) st)
       else (Done (eeTarget e), copyOut F (eeDestinations e) (copyIn F (map fst valid) st)))"
    by (simp add: takeEdge_def Some Let_def valid_def count_def)
  have q: "quiet base st (copyIn F (map fst valid) st)" by (simp add: C)
  then have q2: "quiet base st (copyOut F (eeDestinations e) (copyIn F (map fst valid) st))" by (simp add: C)
  show ?thesis
    using eq failed [OF quiet_refl] failed [OF q] taken [OF q2] by metis
qed

lemma follows_takeEdge:
  assumes F: "frame_above base F" and Q: "quiet base st st'"
  shows "follows leaves cfg N base st (vbind (takeEdge cfg F scratch edge) (\<lambda>i. vreturn (Inr i)) st')"
proof (rule follows_quiet [OF Q])
  show "follows leaves cfg N base st' (vbind (takeEdge cfg F scratch edge) (\<lambda>i. vreturn (Inr i)) st')"
  proof (rule takeEdge_cases [OF F, of st' cfg scratch edge])
    fix c m st1
    assume "quiet base st' st1" and E: "takeEdge cfg F scratch edge st' = failPopped cfg c m st1"
    then have "follows leaves cfg N base st' (failPopped cfg c m st1 :: (Value + nat) result \<times> 'a Vm)"
      by (intro follows_failPopped) simp_all
    then show ?thesis by (simp add: vbind_def E) (simp add: failPopped_def fail_def)
  next
    fix i st1
    assume "quiet base st' st1" and E: "takeEdge cfg F scratch edge st' = (Done i, st1)"
    then show ?thesis
      by (simp add: vbind_def vreturn_def E follows_def quiet_goes_on) (simp add: quiet_def window_ok_def)
  qed
qed

lemma quiet_finish:
  "quiet base (popStack st) (popStack (emitTrace cfg k i st'))= quiet base (popStack st) (popStack st')"
  by (simp add: quiet_def popStack_def emitTrace_def)

lemma follows_finishReturn: "follows leaves cfg N base st (finishReturn cfg v st)"
  unfolding finishReturn_def by (rule follows_popped) (simp_all add: quiet_finish)

lemma routeHandlers_effect:
  "routeHandlers cfg F block v t hs st = (target, st1) \<Longrightarrow> frame_above base F \<Longrightarrow>
   vmPending st1 \<in> {None, vmPending st} \<and> (target \<noteq> None \<longrightarrow> vmPending st1 = None) \<and>
   quiet base (st\<lparr>vmPending := vmPending st1\<rparr>) st1"
  by (induction hs) (auto simp: quiet_def putValue_def frame_above_def split: if_splits)

lemma routePending_effect:
  assumes "routePendingException cfg F block st = (target, st1)" and "frame_above base F"
  shows "vmPending st1 \<in> {None, vmPending st} \<and> (target \<noteq> None \<longrightarrow> vmPending st1 = None) \<and>
    quiet base (st\<lparr>vmPending := vmPending st1\<rparr>) st1"
  using assms
  by (auto simp: routePendingException_def quiet_def split: option.splits Value.splits dest!: routeHandlers_effect)

text \<open>What a terminator does once it has been charged.\<close>

definition settles :: "'h VmConfig \<Rightarrow> nat \<Rightarrow> 'h Vm \<Rightarrow> (Value + nat) result \<times> 'h Vm \<Rightarrow> bool" where
  "settles cfg base st p \<longleftrightarrow>
     (window_ok base st \<longrightarrow>
       (case p of
          (Crashed, st') \<Rightarrow> True
        | (OutOfFuel, st') \<Rightarrow> False
        | (r, st') \<Rightarrow>
            goes_on cfg base st st' \<and>
            vmStack st' = (if leaves r then butlast (vmStack st) else vmStack st) \<and>
            (r \<noteq> Failed \<longrightarrow> vmPending st' = None)))"

lemma settles_follows:
  assumes "\<And>N. follows leaves cfg N base st p"
  shows "settles cfg base st p"
  using assms [of "2 * ticksLeft cfg st + 2"]
  by (cases p; cases "fst p") (auto simp: settles_def follows_Done follows_Failed follows_OutOfFuel)

lemma settles_throw:
  assumes F: "frame_above base F"
  shows "settles cfg base st (throwTerminator cfg F b st)"
proof (cases "length (fnRegisterTypes (fmFunction F)) \<le> unat (tmValue (bbTerminator (ebBlock b))) \<or>
    (case registerAt F (tmValue (bbTerminator (ebBlock b))) st of VRef _ \<Rightarrow> False | _ \<Rightarrow> True)")
  case True
  have "settles cfg base st (failPopped cfg EcNullReference ''throw requires a non-null script object'' st)"
    by (intro settles_follows follows_failPopped) simp_all
  with True show ?thesis by (simp add: throwTerminator_def Let_def)
next
  case False
  define st0 where "st0 = st\<lparr>vmPending := Some (registerAt F (tmValue (bbTerminator (ebBlock b))) st)\<rparr>"
  obtain target st1 where R: "routePendingException cfg F (bbId (ebBlock b)) st0 = (target, st1)"
    by (cases "routePendingException cfg F (bbId (ebBlock b)) st0")
  note E = routePending_effect [OF R F]
  then have "goes_on cfg base st st1" "vmStack st1 = vmStack st"
    by (auto simp: st0_def quiet_def goes_on_def depth_ok_def)
  moreover have "throwTerminator cfg F b st =
      (case target of Some i \<Rightarrow> (Done (Inr i), st1) | None \<Rightarrow> (Failed, popStack st1))"
    using False R by (simp add: throwTerminator_def Let_def st0_def split: option.split)
  ultimately show ?thesis using E
    by (auto simp: settles_def popStack_def goes_on_def depth_ok_def split: option.split)
qed

lemma quiet_countBranch [simp]: "quiet base st (countBranch cfg t st') = quiet base st st'"
  by (simp add: countBranch_def quiet_def emitTrace_def)

lemma follows_jump:
  assumes F: "frame_above base F"
  shows "follows leaves cfg N base st (jumpTerminator cfg F scratch b st)"
proof -
  let ?t = "bbTerminator (ebBlock b)"
  have go: "follows leaves cfg N base st1
      (vbind (takeEdge cfg F scratch edge) (\<lambda>i. vreturn (Inr i)) (countBranch cfg target st1))"
    for edge target st1 by (rule follows_takeEdge [OF F]) simp
  have bad: "follows leaves cfg N base st (failPopped cfg c m st)" for c m
    by (rule follows_failPopped) simp_all
  have pop: "follows leaves cfg N base st (Failed, popStack st)" by (rule follows_popped) simp_all
  have branch: "follows leaves cfg N base st1 (case registerAt F (tmCondition ?t) st1 of
        VBool True \<Rightarrow> vbind (takeEdge cfg F scratch (ebBranch b)) (\<lambda>i. vreturn (Inr i)) (countBranch cfg (tmTarget ?t) st1)
      | VBool False \<Rightarrow> vbind (takeEdge cfg F scratch (ebFalseBranch b)) (\<lambda>i. vreturn (Inr i)) (countBranch cfg (tmFalseTarget ?t) st1)
      | _ \<Rightarrow> (Crashed, st1))" for st1
    using go by (simp split: Value.split bool.split)
  show ?thesis unfolding jumpTerminator_def Let_def
    by (rule TerminatorKind.split [THEN iffD2], intro conjI impI)
      (simp_all add: go bad pop follows_popping_bind [OF keeps_expectType [OF quiet_refl] branch])
qed

lemma settles_return:
  assumes F: "frame_above base F"
  shows "settles cfg base st
    (if length (fnRegisterTypes (fmFunction F)) \<le> unat r
     then failPopped cfg EcInvalidProgram ''return register is invalid'' st
     else vbind (popping (expectSignatureType cfg v t i ''return value''))
       (\<lambda>_ st1. finishReturn cfg (registerAt F r st1) st1) st)"
proof (rule settles_follows)
  fix N
  have "follows leaves cfg N base st (vbind (popping (expectSignatureType cfg v t i ''return value''))
      (\<lambda>_ st1. finishReturn cfg (registerAt F r st1) st1) st)"
    by (rule follows_popping_bind [OF keeps_expectSignatureType [OF quiet_refl] follows_finishReturn]) simp
  then show "follows leaves cfg N base st
    (if length (fnRegisterTypes (fmFunction F)) \<le> unat r
     then failPopped cfg EcInvalidProgram ''return register is invalid'' st
     else vbind (popping (expectSignatureType cfg v t i ''return value''))
       (\<lambda>_ st1. finishReturn cfg (registerAt F r st1) st1) st)"
    by (simp add: follows_failPopped)
qed

definition afterTerminator ::
    "'h VmConfig \<Rightarrow> Frame \<Rightarrow> nat \<Rightarrow> ExecutionBlock \<Rightarrow> (Value + nat, 'h Vm) run" where
  "afterTerminator cfg F scratch b st =
     (let t = bbTerminator (ebBlock b)
      in case tmKind t of
           TkThrow \<Rightarrow> throwTerminator cfg F b st
         | TkReturnVoid \<Rightarrow> finishReturn cfg VNone st
         | TkReturnValue \<Rightarrow>
             if length (fnRegisterTypes (fmFunction F)) \<le> unat (tmValue t)
             then failPopped cfg EcInvalidProgram ''return register is invalid'' st
             else vbind (popping (expectSignatureType cfg (registerAt F (tmValue t) st)
                      (fnReturnType (fmFunction F)) (fnReturnTypeId (fmFunction F)) ''return value''))
                    (\<lambda>_ st1. finishReturn cfg (registerAt F (tmValue t) st1) st1) st
         | _ \<Rightarrow> jumpTerminator cfg F scratch b st)"

lemma executeTerminator_eq:
  "executeTerminator cfg F scratch b =
     vbind (popping (consume cfg (determinismOperationId (terminatorName (tmKind (bbTerminator (ebBlock b)))))))
       (\<lambda>_. afterTerminator cfg F scratch b)"
  unfolding executeTerminator_def
  by (rule arg_cong [where f = "vbind _"]) (simp add: fun_eq_iff afterTerminator_def Let_def)

lemma settles_afterTerminator:
  assumes F: "frame_above base F"
  shows "settles cfg base st (afterTerminator cfg F scratch b st)"
proof -
  have J: "settles cfg base st (jumpTerminator cfg F scratch b st)"
    by (rule settles_follows) (rule follows_jump [OF F])
  have R: "settles cfg base st (finishReturn cfg v st)" for v
    by (rule settles_follows) (rule follows_finishReturn)
  show ?thesis unfolding afterTerminator_def Let_def
    by (rule TerminatorKind.split [THEN iffD2], intro conjI impI)
      (simp_all only: J R settles_throw [OF F] settles_return [OF F])
qed

text \<open>A block that goes on at another one has executed something.\<close>

definition moves :: "'h VmConfig \<Rightarrow> nat \<Rightarrow> nat \<Rightarrow> 'h Vm \<Rightarrow> (Value + nat) result \<times> 'h Vm \<Rightarrow> bool" where
  "moves cfg N base st p \<longleftrightarrow> follows leaves cfg N base st p \<and>
     (window_ok base st \<longrightarrow> (\<forall>i st'. p = (Done (Inr i), st') \<longrightarrow> vmExecuted st < vmExecuted st'))"

lemma moves_terminator:
  fixes st :: "'h Vm"
  assumes F: "frame_above base F"
  shows "moves cfg N base st (executeTerminator cfg F scratch b st)"
proof (cases "window_ok base st")
  case False
  then show ?thesis by (simp add: moves_def follows_def)
next
  case True
  define i where "i = determinismOperationId (terminatorName (tmKind (bbTerminator (ebBlock b))))"
  have eq: "executeTerminator cfg F scratch b st = vbind (popping (consume cfg i)) (\<lambda>_. afterTerminator cfg F scratch b) st"
    by (simp add: executeTerminator_eq i_def)
  obtain r st1 where c: "consume cfg i st = (r, st1)" by (cases "consume cfg i st")
  show ?thesis
  proof (cases "\<exists>a. r = Done a")
    case False
    with consume_failed [OF c] have "r = Failed" "quiet base st st1" by blast+
    moreover from this have "follows leaves cfg N base st (Failed, popStack st1)"
      by (intro follows_popped) (auto simp: quiet_def popStack_def)
    ultimately show ?thesis by (simp add: moves_def eq vbind_def popping_def c)
  next
    case charged: True
    with c have c': "consume cfg i st = (Done (), st1)" by auto
    note G = consume_goes_on [OF c']
    have v: "executeTerminator cfg F scratch b st = afterTerminator cfg F scratch b st1"
      by (simp add: eq vbind_def popping_def c')
    obtain r2 st2 where p: "afterTerminator cfg F scratch b st1 = (r2, st2)"
      by (cases "afterTerminator cfg F scratch b st1")
    have S: "settles cfg base st1 (r2, st2)" using settles_afterTerminator [OF F] p by metis
    have W: "window_ok base st1"
      using goes_on_window [OF G(1) True] G(4) True by (simp add: window_ok_def)
    from S W have T: "r2 = Crashed \<or> r2 \<noteq> OutOfFuel \<and> goes_on cfg base st1 st2 \<and>
        vmStack st2 = (if leaves r2 then butlast (vmStack st1) else vmStack st1) \<and>
        (r2 \<noteq> Failed \<longrightarrow> vmPending st2 = None)"
      by (cases r2) (simp_all add: settles_def)
    show ?thesis
    proof (cases "r2 = Crashed")
      case False
      with T have g: "goes_on cfg base st st2" "vmExecuted st < vmExecuted st2"
        using goes_on_trans [OF G(1)] goes_on_count [of cfg base st1 st2] G(2) by auto
      show ?thesis
      proof (cases r2)
        case (Done a)
        with T g G(3) True show ?thesis by (simp add: moves_def v p follows_Done)
      qed (use T g G(3) True False in \<open>simp_all add: moves_def v p follows_Failed\<close>)
    qed (simp add: moves_def v p)
  qed
qed

lemma popStack_simps [simp]:
  "goes_on cfg base st (popStack st') = goes_on cfg base st st'"
  "vmStack (popStack st') = butlast (vmStack st')" "vmPending (popStack st') = vmPending st'"
  "vmExecuted (popStack st') = vmExecuted st'"
  by (simp_all add: popStack_def goes_on_def depth_ok_def)

lemma moves_executeBlock:
  fixes st :: "'h Vm"
  assumes E: "executor_ok cfg n Exec" and F: "frame_above base F"
    and S: "\<forall>e\<in>set (ebInstructions (bs ! i)). span_ok e"
  shows "moves cfg (n + 2) base st (executeBlock cfg Exec n F scratch bs i st)"
proof (cases "window_ok base st")
  case False
  then show ?thesis by (simp add: moves_def follows_def)
next
  case W: True
  obtain r st1 where x: "executeInstructions cfg Exec n F i 0 (ebInstructions (bs ! i)) st = (r, st1)"
    by (cases "executeInstructions cfg Exec n F i 0 (ebInstructions (bs ! i)) st")
  have K: "keeps cfg (n + 2) base st (r, st1)" using keeps_executeInstructions [OF E F S] x by metis
  show ?thesis
  proof (cases r)
    case (Done a)
    from K W have G: "goes_on cfg base st st1" "vmStack st1 = vmStack st" "vmPending st1 = None"
      by (simp_all add: Done follows_Done)
    note M = moves_terminator [OF F, of cfg "n + 2" st1 scratch "bs ! i"]
    have "executeBlock cfg Exec n F scratch bs i st = executeTerminator cfg F scratch (bs ! i) st1"
      by (simp add: executeBlock_def Let_def x Done)
    moreover have "follows leaves cfg (n + 2) base st (executeTerminator cfg F scratch (bs ! i) st1)"
      by (rule follows_after [OF G(1,2)]) (use G(3) M in \<open>simp_all add: moves_def\<close>)
    moreover have "vmExecuted st < vmExecuted st'"
      if "executeTerminator cfg F scratch (bs ! i) st1 = (Done (Inr j), st')" for j st'
      using M that goes_on_window [OF G(1) W G(3)] goes_on_count [OF G(1)] by (force simp: moves_def)
    ultimately show ?thesis by (simp add: moves_def)
  next
    case Failed
    from K W have G: "goes_on cfg base st st1" "vmStack st1 = vmStack st"
        "vmPending st1 \<noteq> None \<longrightarrow> vmExecuted st < vmExecuted st1"
      by (simp_all add: Failed follows_Failed)
    show ?thesis
    proof (cases "vmPending st1 = None")
      case True
      with G W show ?thesis
        by (simp add: moves_def executeBlock_def Let_def x Failed follows_Failed)
    next
      case False
      obtain target st2 where R: "routePendingException cfg F (bbId (ebBlock (bs ! i))) st1 = (target, st2)"
        by (cases "routePendingException cfg F (bbId (ebBlock (bs ! i))) st1")
      note P = routePending_effect [OF R F]
      have "goes_on cfg base st1 st2" and B: "vmStack st2 = vmStack st1" "vmExecuted st2 = vmExecuted st1"
        using P by (auto simp: quiet_def goes_on_def depth_ok_def)
      then have A: "goes_on cfg base st st2" using goes_on_trans [OF G(1)] by blast
      show ?thesis
      proof (cases target)
        case None
        with A B False G(2,3) W show ?thesis
          by (auto simp: moves_def executeBlock_def Let_def x Failed R follows_Failed)
      next
        case (Some j)
        with A B False G(2,3) W P show ?thesis
          by (auto simp: moves_def executeBlock_def Let_def x Failed R follows_Done)
      qed
    qed
  next
    case OutOfFuel
    with K W show ?thesis by (simp add: moves_def executeBlock_def Let_def x follows_OutOfFuel)
  qed (simp add: moves_def executeBlock_def Let_def x)
qed

lemma quiet_storeArguments:
  "base \<le> i \<Longrightarrow> quiet base st (storeArguments i vs st') = quiet base st st'"
proof -
  assume b: "base \<le> i"
  have "quiet base st (fold (\<lambda>j. putValue (i + j) (vs ! j)) js st') = quiet base st st'" for js
    by (induction js arbitrary: st') (simp_all add: b trans_le_add1)
  then show ?thesis by (simp add: storeArguments_def)
qed

text \<open>A block goes on at a block of the function.\<close>

definition target_ok :: "nat \<Rightarrow> (Value + nat) result \<times> 'h Vm \<Rightarrow> bool" where
  "target_ok n p \<longleftrightarrow> (\<forall>j st'. p = (Done (Inr j), st') \<longrightarrow> j < n)"

lemma target_bind: "(\<And>a st1. target_ok n (f a st1)) \<Longrightarrow> target_ok n (vbind m f st)"
  by (auto simp: target_ok_def vbind_def split: prod.splits result.splits)

lemma target_fails [simp]: "target_ok n (failPopped cfg c m st)" "target_ok n (Failed, st)" "target_ok n (Crashed, st)"
    "target_ok n (Done (Inl v), st)" "target_ok n (finishReturn cfg v st)"
  by (simp_all add: target_ok_def failPopped_def fail_def finishReturn_def)

lemma blockIndex_less: "blockIndex f t = Some i \<Longrightarrow> i < length (fnBlocks f)"
  by (auto simp: blockIndex_def find_Some_iff)

lemma routeHandlers_target:
  "routeHandlers cfg F block v t hs st = (Some i, st1) \<Longrightarrow> i < length (fnBlocks (fmFunction F))"
  by (induction hs) (auto split: if_splits dest: blockIndex_less)

lemma routePending_target:
  "routePendingException cfg F block st = (Some i, st1) \<Longrightarrow> i < length (fnBlocks (fmFunction F))"
  by (auto simp: routePendingException_def split: option.splits Value.splits dest: routeHandlers_target)

definition mirrors :: "'h VmConfig \<Rightarrow> Frame \<Rightarrow> ExecutionBlock list \<Rightarrow> bool" where
  "mirrors cfg F bs \<longleftrightarrow>
     bs = map (mirrorBlock (cfProgram cfg) (fmModule F) (fmFunction F)) (fnBlocks (fmFunction F))"

lemma bindEdge_target: "bindEdge f t rs = Some e \<Longrightarrow> eeTarget e < length (fnBlocks f)"
  by (auto simp: bindEdge_def dest: blockIndex_less)

lemma takeEdge_target:
  "takeEdge cfg F scratch edge st = (Done i, st1) \<Longrightarrow> \<exists>e. edge = Some e \<and> i = eeTarget e"
  by (auto simp: takeEdge_def failPopped_def fail_def Let_def split: option.splits if_splits)

lemma target_go:
  assumes "edge = None \<or> (\<exists>f t rs. edge = bindEdge f t rs \<and> length (fnBlocks f) = n)"
  shows "target_ok n (vbind (takeEdge cfg F scratch edge) (\<lambda>i. vreturn (Inr i)) st)"
  using assms
  by (auto simp: target_ok_def vbind_def vreturn_def split: prod.splits result.splits
      dest!: takeEdge_target dest: bindEdge_target [OF sym])

lemma target_executeBlock:
  assumes M: "mirrors cfg F bs" and i: "i < length bs"
  shows "target_ok (length bs) (executeBlock cfg Exec n F scratch bs i st)"
proof -
  let ?b = "bs ! i" and ?n = "length bs"
  have n: "?n = length (fnBlocks (fmFunction F))" using M by (simp add: mirrors_def)
  have b: "?b = mirrorBlock (cfProgram cfg) (fmModule F) (fmFunction F) (fnBlocks (fmFunction F) ! i)"
    using M i by (simp add: mirrors_def)
  have edges: "ebBranch ?b = None \<or> (\<exists>f t rs. ebBranch ?b = bindEdge f t rs \<and> length (fnBlocks f) = ?n)"
      "ebFalseBranch ?b = None \<or> (\<exists>f t rs. ebFalseBranch ?b = bindEdge f t rs \<and> length (fnBlocks f) = ?n)"
    by (auto simp: b mirrorBlock_def Let_def n)
  note go = target_go [OF edges(1)] target_go [OF edges(2)]
  have J: "target_ok ?n (jumpTerminator cfg F scratch ?b st1)" for st1
    unfolding jumpTerminator_def Let_def
    by (rule TerminatorKind.split [THEN iffD2], intro conjI impI)
      (simp_all add: go target_bind split: Value.split bool.split)
  have T: "target_ok ?n (throwTerminator cfg F ?b st1)" for st1
    by (auto simp: throwTerminator_def Let_def n target_ok_def failPopped_def fail_def
        split: if_splits prod.splits option.splits dest!: routePending_target)
  have A: "target_ok ?n (afterTerminator cfg F scratch ?b st1)" for st1
    unfolding afterTerminator_def Let_def
    by (rule TerminatorKind.split [THEN iffD2], intro conjI impI)
      (simp_all add: J T target_bind)
  have "target_ok ?n (executeTerminator cfg F scratch ?b st1)" for st1
    unfolding executeTerminator_eq by (rule target_bind) (rule A)
  then show ?thesis
    by (auto simp: executeBlock_def Let_def n target_ok_def
        split: prod.splits result.splits if_splits option.splits dest!: routePending_target)
qed

section \<open>The whole execution\<close>

lemma allocateWindow_values:
  assumes "vmTop st \<le> length (vmValues st)"
  shows "vmTop st + n \<le> length (vmValues (allocateWindow cfg n st))"
    and "length (vmValues st) \<le> length (vmValues (allocateWindow cfg n st))"
    and "take (vmTop st) (vmValues (allocateWindow cfg n st)) = take (vmTop st) (vmValues st)"
  using assms by (auto simp: allocateWindow_def Let_def)

lemma releaseWindow_values:
  assumes "base \<le> length (vmValues st)"
  shows "length (vmValues st) \<le> length (vmValues (releaseWindow cfg base n st))"
    and "take base (vmValues (releaseWindow cfg base n st)) = take base (vmValues st)"
  using assms by (auto simp: releaseWindow_def)

definition runner_ok :: "'h VmConfig \<Rightarrow> nat \<Rightarrow> bool" where
  "runner_ok cfg n \<longleftrightarrow>
     (\<forall>F scratch bs i base (st :: 'h Vm).
        frame_above base F \<longrightarrow> mirrors cfg F bs \<longrightarrow> i < length bs \<longrightarrow>
        follows (\<lambda>_. True) cfg (n + 1) base st (runBlocks cfg n F scratch bs i st))"

lemma runner_step:
  fixes cfg :: "'h VmConfig"
  assumes E: "executor_ok cfg n (executeFunction cfg n)" and R: "runner_ok cfg n"
  shows "runner_ok cfg (Suc n)"
  unfolding runner_ok_def
proof (intro allI impI)
  fix F scratch bs i base
  fix st :: "'h Vm"
  assume F: "frame_above base F" and M: "mirrors cfg F bs" and i: "i < length bs"
  have S: "\<forall>e\<in>set (ebInstructions (bs ! i)). span_ok e"
    using M i mirror_spans by (simp add: mirrors_def)
  note B = moves_executeBlock [OF E F S, where st = st and scratch = scratch]
  show "follows (\<lambda>_. True) cfg (Suc n + 1) base st (runBlocks cfg (Suc n) F scratch bs i st)"
  proof (cases "window_ok base st")
    case False
    then show ?thesis by (simp add: follows_def)
  next
    case W: True
    obtain r st1 where x: "executeBlock cfg (executeFunction cfg n) n F scratch bs i st = (r, st1)"
      by (cases "executeBlock cfg (executeFunction cfg n) n F scratch bs i st")
    show ?thesis
    proof (cases "\<exists>j. r = Done (Inr j)")
      case True
      then obtain j where j: "r = Done (Inr j)" by blast
      with B W x have G: "goes_on cfg base st st1" "vmStack st1 = vmStack st" "vmPending st1 = None"
          "vmExecuted st < vmExecuted st1" by (simp_all add: moves_def follows_Done)
      have "j < length bs" using target_executeBlock [OF M i] x j by (simp add: target_ok_def) blast
      then have K: "follows (\<lambda>_. True) cfg (n + 1) base st1 (runBlocks cfg n F scratch bs j st1)"
        using R F M by (simp add: runner_ok_def)
      obtain r2 st2 where y: "runBlocks cfg n F scratch bs j st1 = (r2, st2)"
        by (cases "runBlocks cfg n F scratch bs j st1")
      have z: "runBlocks cfg (Suc n) F scratch bs i st = (r2, st2)"
        by (simp add: vbind_def x j y)
      note K' = follows_after [OF G(1,2) G(3) K]
      show ?thesis
      proof (cases "r2 = OutOfFuel")
        case True
        have "ticksLeft cfg st1 < ticksLeft cfg st"
          using G(1,4) by (auto simp: goes_on_def ticksLeft_def word_less_nat_alt word_le_nat_alt)
        moreover have "n + 1 < 2 * ticksLeft cfg st1 + 2"
          using K goes_on_window [OF G(1) W G(3)] by (simp add: y True follows_OutOfFuel)
        ultimately show ?thesis unfolding z using W by (auto simp: True follows_OutOfFuel)
      next
        case False
        with K' W show ?thesis unfolding z
          by (cases r2) (simp_all add: y follows_Done follows_Failed)
      qed
    next
      case False
      then have "runBlocks cfg (Suc n) F scratch bs i st =
          (case r of Done a \<Rightarrow> Done (projl a) | Failed \<Rightarrow> Failed | Crashed \<Rightarrow> Crashed | OutOfFuel \<Rightarrow> OutOfFuel, st1)"
        by (cases r) (auto simp: vbind_def vreturn_def x split: sum.split)
      moreover from False B W x have "follows leaves cfg (n + 2) base st (r, st1)" by (simp add: moves_def)
      ultimately show ?thesis using W False
        by (cases r) (auto simp: follows_Done follows_Failed follows_OutOfFuel leaves_def split: sum.splits)
    qed
  qed
qed

lemma frame_above_frameOf: "base \<le> a \<Longrightarrow> frame_above base (frameOf l a n)"
  by (simp add: frame_above_def frameOf_def Let_def)

lemma enterFunction_effect:
  "vmExecuted (enterFunction cfg l st) = vmExecuted st" "vmTop (enterFunction cfg l st) = vmTop st"
  "vmValues (enterFunction cfg l st) = vmValues st" "vmPending (enterFunction cfg l st) = vmPending st"
  "vmStack (enterFunction cfg l st) = vmStack st @ [flQualifiedName l]"
  "length (vmStack st) < limRecursionLimit (cfLimits cfg) \<Longrightarrow> depth_ok cfg st \<Longrightarrow> depth_ok cfg (enterFunction cfg l st)"
  by (simp_all add: enterFunction_def Let_def emitTrace_def depth_ok_def)

lemma window_effect:
  "vmExecuted (allocateWindow cfg n st) = vmExecuted st" "vmPending (allocateWindow cfg n st) = vmPending st"
  "vmStack (allocateWindow cfg n st) = vmStack st" "vmTop (allocateWindow cfg n st) = vmTop st + n"
  "vmStatistics (allocateWindow cfg n st) = vmStatistics st"
  "vmExecuted (releaseWindow cfg a n st) = vmExecuted st" "vmPending (releaseWindow cfg a n st) = vmPending st"
  "vmStack (releaseWindow cfg a n st) = vmStack st" "vmTop (releaseWindow cfg a n st) = a"
  "vmStatistics (releaseWindow cfg a n st) = vmStatistics st"
  by (simp_all add: allocateWindow_def releaseWindow_def Let_def)

text \<open>Entering and leaving the frame of a function around its body.\<close>

definition runBody :: "'h VmConfig \<Rightarrow> nat \<Rightarrow> FunctionLocation \<Rightarrow> Value list \<Rightarrow> nat \<Rightarrow> (Value, 'h Vm) run" where
  "runBody cfg n l arguments entry st1 =
     (let bs = functionBlocks cfg l; scratch = edgeScratchCount bs;
          base = vmTop st1; F = frameOf l base (length arguments);
          extent = fmScratch F + scratch - base;
          st2 = storeArguments base arguments (allocateWindow cfg extent (enterFunction cfg l st1));
          (r, st3) = runBlocks cfg n F scratch bs entry st2
      in (r, (releaseWindow cfg base extent st3)\<lparr>vmFunctionId := vmFunctionId st1\<rparr>))"

lemma executeFunction_Suc:
  "executeFunction cfg (Suc n) l arguments prevalidated st =
     (case blockIndex (flFunction l) 0 of
        None \<Rightarrow> fail cfg EcInvalidProgram ''function execution mirror is missing'' st
      | Some entry \<Rightarrow>
          if limRecursionLimit (cfLimits cfg) \<le> length (vmStack st)
          then fail cfg EcRecursionLimitExceeded ''recursion limit exceeded'' st
          else vbind (checkArguments cfg l arguments prevalidated)
            (\<lambda>_. runBody cfg n l arguments entry) st)"
  unfolding executeFunction.simps runBody_def [abs_def] by (simp only: )

lemma runBody_keeps:
  fixes st :: "'h Vm"
  assumes R: "runner_ok cfg n" and i: "blockIndex (flFunction l) 0 = Some i"
    and D: "length (vmStack st) < limRecursionLimit (cfLimits cfg)"
  shows "keeps cfg (n + 1) (vmTop st) st (runBody cfg n l arguments i st)"
proof (cases "window_ok (vmTop st) st")
  case False
  then show ?thesis by (simp add: follows_def)
next
  case W: True
  define bs where "bs = functionBlocks cfg l"
  define F where "F = frameOf l (vmTop st) (length arguments)"
  define extent where "extent = fmScratch F + edgeScratchCount bs - vmTop st"
  define st0 where "st0 = enterFunction cfg l st"
  define st1 where "st1 = allocateWindow cfg extent st0"
  define st2 where "st2 = storeArguments (vmTop st) arguments st1"
  obtain r st3 where x: "runBlocks cfg n F (edgeScratchCount bs) bs i st2 = (r, st3)"
    by (cases "runBlocks cfg n F (edgeScratchCount bs) bs i st2")
  define st4 where "st4 = (releaseWindow cfg (vmTop st) extent st3)\<lparr>vmFunctionId := vmFunctionId st\<rparr>"
  have run: "runBody cfg n l arguments i st = (r, st4)"
    using x unfolding runBody_def Let_def F_def bs_def extent_def st0_def st1_def st2_def st4_def by simp
  have e0: "vmTop st0 = vmTop st" "vmValues st0 = vmValues st" by (simp_all add: st0_def enterFunction_effect)
  have len: "vmTop st \<le> length (vmValues st)" using W by (simp add: window_ok_def)
  note A = allocateWindow_values [where st = st0 and n = extent and cfg = cfg, unfolded e0, OF len, folded st1_def]
  have Q: "quiet (vmTop st) st1 st2" by (simp add: st2_def quiet_storeArguments)
  have W2: "window_ok (vmTop st) st2"
    using Q A(1) W by (simp add: window_ok_def quiet_def st1_def window_effect e0 st0_def enterFunction_effect)
  have "frame_above (vmTop st) F" unfolding F_def by (rule frame_above_frameOf) simp
  moreover have "mirrors cfg F bs" by (simp add: mirrors_def bs_def functionBlocks_def F_def frameOf_def Let_def)
  moreover have "i < length bs" using blockIndex_less [OF i] by (simp add: bs_def functionBlocks_def)
  ultimately have K: "follows (\<lambda>_. True) cfg (n + 1) (vmTop st) st2 (r, st3)"
    using R x unfolding runner_ok_def by metis
  have same: "vmExecuted st2 = vmExecuted st" "vmStack st2 = vmStack st @ [flQualifiedName l]"
      "depth_ok cfg st \<Longrightarrow> depth_ok cfg st2" "take (vmTop st) (vmValues st2) = take (vmTop st) (vmValues st)"
      "length (vmValues st) \<le> length (vmValues st2)"
    using Q A enterFunction_effect(6) [OF D, of l]
    by (simp_all add: quiet_def st1_def window_effect st0_def enterFunction_effect depth_ok_def)
  have restored: "goes_on cfg (vmTop st) st st4" if "goes_on cfg (vmTop st) st2 st3"
  proof -
    have "vmTop st \<le> length (vmValues st3)" using that same(5) len by (simp add: goes_on_def)
    note B = releaseWindow_values [OF this, where cfg = cfg and n = extent]
    show ?thesis using that B same by (auto simp: goes_on_def st4_def window_effect depth_ok_def)
  qed
  have st4: "vmStack st4 = vmStack st3" "vmPending st4 = vmPending st3" "vmExecuted st4 = vmExecuted st3"
    by (simp_all add: st4_def window_effect)
  have t: "ticksLeft cfg st2 = ticksLeft cfg st" by (simp add: ticksLeft_def same)
  show ?thesis unfolding run using K W W2 restored same(1,2) st4 t
    by (cases r) (simp_all add: follows_Done follows_Failed follows_OutOfFuel)
qed

lemma executor_step:
  fixes cfg :: "'h VmConfig"
  assumes R: "runner_ok cfg n"
  shows "executor_ok cfg (Suc n) (executeFunction cfg (Suc n))"
  unfolding executor_ok_def
proof (intro allI)
  fix l arguments prevalidated and st :: "'h Vm"
  show "keeps cfg (Suc n) (vmTop st) st (executeFunction cfg (Suc n) l arguments prevalidated st)"
  proof (cases "blockIndex (flFunction l) 0")
    case None
    then show ?thesis unfolding executeFunction_Suc by (simp add: keeps_fail)
  next
    case (Some i)
    have C: "keeps cfg (Suc n) (vmTop st) st (checkArguments cfg l arguments prevalidated st)"
      unfolding checkArguments_def by (intro keeps_rules) simp_all
    have B: "keeps cfg (Suc n) (vmTop st) st (vbind (checkArguments cfg l arguments prevalidated)
        (\<lambda>_. runBody cfg n l arguments i) st)"
      if D: "length (vmStack st) < limRecursionLimit (cfLimits cfg)"
    proof (cases "window_ok (vmTop st) st")
      case True
      show ?thesis
      proof (rule follows_bind, rule C)
        fix a st1
        assume "checkArguments cfg l arguments prevalidated st = (Done a, st1)"
        with C True have "vmStack st1 = vmStack st" "vmTop st1 = vmTop st"
          by (simp_all add: follows_Done goes_on_def)
        with D show "keeps cfg (Suc n) (vmTop st) st1 (runBody cfg n l arguments i st1)"
          using runBody_keeps [OF R Some, of st1 arguments] by simp
      qed simp
    qed (simp add: follows_def)
    show ?thesis unfolding executeFunction_Suc Some using B by (simp add: keeps_fail not_le)
  qed
qed

lemma run_ok:
  fixes cfg :: "'h VmConfig"
  shows "executor_ok cfg n (executeFunction cfg n) \<and> runner_ok cfg n"
proof (induction n)
  case 0
  show ?case by (simp add: executor_ok_def runner_ok_def follows_def)
next
  case (Suc n)
  then show ?case using executor_step runner_step by blast
qed

end
