(* ===== verification/Interpreter_Properties.thy ===== *)
theory Interpreter_Properties
  imports Interpreter_Termination "HOL-Library.Code_Target_Nat"
begin

text \<open>
  The properties of an invocation: it ends within its limits, and a call gives back the frames of its
  callers as they were.
\<close>

section \<open>An example\<close>

text \<open>\<open>int Add(int a, int b) { return a + b; }\<close>\<close>

definition plain :: "Opcode \<Rightarrow> u32 \<Rightarrow> u32 list \<Rightarrow> u32 \<Rightarrow> Instruction" where
  "plain op target operands index =
     \<lparr>inOpcode = op, inResult = target, inOperands = operands, inIndex = index, inTypeIndex = NoSlot,
      inElementType = PtError, inElementTypeId = 0, inInteger = 0, inDouble = 0, inBool = False,
      inChecked = True, inString = []\<rparr>"

definition addFunction :: Function where
  "addFunction =
     \<lparr>fnSymbolId = 11, fnName = ''Add'', fnReturnType = PtInt, fnReturnTypeId = 0,
      fnParameterTypes = [PtInt, PtInt], fnParameterTypeIds = [0, 0], fnLocalTypes = [],
      fnLocalTypeIds = [], fnRegisterTypes = [PtInt, PtInt, PtInt], fnRegisterTypeIds = [],
      fnBlocks =
        [\<lparr>bbId = 0, bbParameters = [],
          bbInstructions =
            [plain OpLoadParameter 0 [] 0, plain OpLoadParameter 1 [] 1, plain OpAddInt 2 [0, 1] 0],
          bbTerminator =
            \<lparr>tmKind = TkReturnValue, tmCondition = 0, tmValue = 2, tmTarget = 0, tmFalseTarget = 0,
             tmArguments = [], tmFalseArguments = []\<rparr>\<rparr>],
      fnHandlers = []\<rparr>"

definition addModule :: Module where
  "addModule = \<lparr>mdlName = ''Sample'', mdlTypes = [], mdlReferences = [], mdlFunctions = [addFunction]\<rparr>"

definition addLocation :: FunctionLocation where
  "addLocation = \<lparr>flModule = addModule, flFunction = addFunction, flQualifiedName = ''Sample::Add''\<rparr>"

definition addInterpreter :: "unit Interpreter" where
  "addInterpreter =
     \<lparr>ipProgram = [addModule], ipResolver = None, ipBindings = None, ipCacheSlot = (\<lambda>_. 0)\<rparr>"

definition addOptions :: ExecutionOptions where
  "addOptions =
     \<lparr>xoLimits = \<lparr>limInstructionBudget = 100, limRecursionLimit = 4, limGcWorkBudget = 0\<rparr>,
      xoDeterminism = \<lparr>doMode = DmOff, doReplayLog = None, doCanonicalize = True\<rparr>\<rparr>"

definition addHeap :: ManagedHeap where
  "addHeap = newHeap \<lparr>initialCollectionThresholdBytes = 64, maximumHeapBytes = 4096,
     sizeofHeapObject = 96, sizeofValue = 48\<rparr> 7"

text \<open>A machine with a frame of one value below, in the function of the symbol 9.\<close>

definition busyVm :: "unit Vm" where
  "busyVm = (startVm addOptions addHeap () 0)
     \<lparr>vmValues := [VInt 42], vmTop := 1, vmFunctionId := 9, vmStack := [''Sample::Main'']\<rparr>"

definition isDone :: "Value \<Rightarrow> Value result \<times> 'h Vm \<Rightarrow> bool" where
  "isDone v p \<longleftrightarrow> (case p of (Done w, st) \<Rightarrow> w = v \<and> vmExecuted st = 4 | _ \<Rightarrow> False)"

lemma add_runs:
  "isDone (VInt 7)
     (executeFunction (vmConfig addInterpreter addOptions) 4 addLocation [VInt 3, VInt 4] False busyVm)"
  by code_simp

lemma addOptions_limits [simp]:
  "limInstructionBudget (xoLimits addOptions) = 100" "limRecursionLimit (xoLimits addOptions) = 4"
  by (simp_all add: addOptions_def)

section \<open>Limits\<close>

text \<open>
  C3: An invocation always returns within its limits: with a fuel of twice the instruction budget plus
  two it never runs out of fuel, whatever the program, its loops, its recursion, its exceptions and the
  host do. It gives a result, after no more instructions than the budget and no deeper nesting than the
  recursion limit, or ends in an operation that C++ leaves undefined (\<open>Crashed\<close>).
\<close>

theorem invoke_within_limits:
  assumes "2 * unat (limInstructionBudget (xoLimits options)) + 2 \<le> fuel"
  shows "case invoke fuel ip symbolId arguments options heap host address of
      (Done x, st) \<Rightarrow>
        xrInstructionsExecuted x \<le> limInstructionBudget (xoLimits options) \<and>
        rsMaximumCallDepth (xrStatistics x) \<le> limRecursionLimit (xoLimits options)
    | (Failed, st) \<Rightarrow> False
    | (Crashed, st) \<Rightarrow> True
    | (OutOfFuel, st) \<Rightarrow> False"
proof (cases "resolveFunction (ipProgram ip) symbolId")
  case None
  then show ?thesis by (simp add: invoke_def noResult_def zeroRuntimeStatistics_def)
next
  case (Some l)
  let ?cfg = "vmConfig ip options" and ?st = "startVm options heap host address"
  obtain r st where x: "executeFunction ?cfg fuel l arguments False ?st = (r, st)"
    by (cases "executeFunction ?cfg fuel l arguments False ?st")
  have "executor_ok ?cfg fuel (executeFunction ?cfg fuel)" using run_ok by blast
  then have K: "keeps ?cfg fuel (vmTop ?st) ?st (r, st)" using x by (metis executor_ok_def)
  have W: "window_ok (vmTop ?st) ?st" by (simp add: window_ok_def startVm_def)
  have fuel: "\<not> fuel < 2 * ticksLeft ?cfg ?st + 2"
    using assms by (simp add: ticksLeft_def vmConfig_def startVm_def)
  have d: "depth_ok ?cfg ?st" by (simp add: depth_ok_def startVm_def zeroRuntimeStatistics_def)
  have bound: "vmExecuted st \<le> limInstructionBudget (xoLimits options) \<and>
      rsMaximumCallDepth (vmStatistics st) \<le> limRecursionLimit (xoLimits options)"
    if "goes_on ?cfg (vmTop ?st) ?st st"
    using that d by (auto simp: goes_on_def depth_ok_def vmConfig_def startVm_def)
  have result: "xrInstructionsExecuted (fst (concludeInvocation ?cfg ok v st)) = vmExecuted st"
      "rsMaximumCallDepth (xrStatistics (fst (concludeInvocation ?cfg ok v st))) =
         rsMaximumCallDepth (vmStatistics st)" for ok v
    by (simp_all add: concludeInvocation_def Let_def mergeEvents_def reportUnhandled_def countExecuted_def
        split: prod.split)
  show ?thesis using K W fuel bound result
    by (cases r) (simp_all add: invoke_def Some x Let_def follows_Done follows_Failed follows_OutOfFuel
        case_prod_beta)
qed

theorem invoke_within_limits_witness:
  "case invoke 202 addInterpreter 11 [VInt 3, VInt 4] addOptions addHeap () 0 of
      (Done x, st) \<Rightarrow> xrInstructionsExecuted x \<le> 100 \<and> rsMaximumCallDepth (xrStatistics x) \<le> 4
    | (Failed, st) \<Rightarrow> False
    | (Crashed, st) \<Rightarrow> True
    | (OutOfFuel, st) \<Rightarrow> False"
  using invoke_within_limits [of addOptions 202 addInterpreter 11 "[VInt 3, VInt 4]" addHeap "()" 0,
      unfolded addOptions_limits]
  by simp

section \<open>Frames\<close>

text \<open>
  C5: A call gives its callers their frames back: when a function returns or fails, the stack of names,
  the current function and the top of the window are what they were, no value below the window has
  changed, and only a failure can leave an exception pending, which has cost at least one instruction.
\<close>

theorem call_restores_frames:
  assumes "executeFunction cfg fuel l arguments prevalidated st = (r, st')"
    and "r \<noteq> Crashed" and "r \<noteq> OutOfFuel"
    and "vmTop st \<le> length (vmValues st)" and "vmPending st = None"
  shows "vmStack st' = vmStack st \<and> vmFunctionId st' = vmFunctionId st \<and> vmTop st' = vmTop st \<and>
    take (vmTop st) (vmValues st') = take (vmTop st) (vmValues st) \<and>
    (vmPending st' \<noteq> None \<longrightarrow> r = Failed \<and> vmExecuted st < vmExecuted st')"
proof -
  have "executor_ok cfg fuel (executeFunction cfg fuel)" using run_ok by blast
  then have K: "keeps cfg fuel (vmTop st) st (r, st')" using assms(1) by (metis executor_ok_def)
  have W: "window_ok (vmTop st) st" using assms(4,5) by (simp add: window_ok_def)
  show ?thesis using K W assms(2,3)
    by (cases r) (auto simp: follows_Done follows_Failed goes_on_def)
qed

theorem call_restores_frames_witness:
  "\<exists>st'. executeFunction (vmConfig addInterpreter addOptions) 4 addLocation [VInt 3, VInt 4] False busyVm =
      (Done (VInt 7), st') \<and>
    vmExecuted st' = 4 \<and> vmStack st' = [''Sample::Main''] \<and> vmFunctionId st' = 9 \<and> vmTop st' = 1 \<and>
    take 1 (vmValues st') = [VInt 42]"
proof -
  let ?p = "executeFunction (vmConfig addInterpreter addOptions) 4 addLocation [VInt 3, VInt 4] False busyVm"
  obtain st' where x: "?p = (Done (VInt 7), st')" and n: "vmExecuted st' = 4"
    using add_runs by (cases ?p) (auto simp: isDone_def split: result.splits)
  have "vmTop busyVm \<le> length (vmValues busyVm)" "vmPending busyVm = None"
    by (simp_all add: busyVm_def startVm_def)
  from call_restores_frames [OF x _ _ this] x n show ?thesis by (simp add: busyVm_def)
qed

end
