(* ===== verification/Spec2Isabelle.thy ===== *)
theory Spec2Isabelle
  imports Gameplay_Runtime Heap_Store Native_Handles Scene_Driver Codec_Properties
    Lexer_Properties Fiber_Properties Replay_Properties Interpreter_Properties
begin

text \<open>
  A verification development for RealScript, a scripting language with a bytecode machine for
  deterministic games. A program passes the lexer (\<open>src/syntax\<close>) and the later stages of the
  compiler and runs on an interpreter, whose objects live in a managed heap (\<open>src/runtime\<close>).
  Scripts see the game through a gameplay core (\<open>src/game\<close>): entities, a fixed-tick clock, a random
  stream, timers and events, with callbacks of scripts on timers, sequences and topics. The core is
  made to be replayed: its state is hashed, saved and restored, and written to files. The theories
  follow these parts from the bottom up.

  Shared vocabulary. \<open>RS_Prelude\<close> has the machine integers as words and the generic lemmas;
  \<open>Ordered_Map\<close> is \<open>std::map\<close> and \<open>std::set\<close> with their laws as the locale \<open>ordered_map\<close>;
  \<open>Snapshotable\<close> is the contract of a component that saves and restores, \<open>Handle_Table\<close> the one
  of a table of generational handles. Each locale is interpreted where a component provides it:
  the clock, the random stream, the registry, the scheduler, the event queue, the runtime and the
  host save and restore; entities and native handles are handle tables.

  Gameplay core (\<open>src/game/GameplayPrimitives.cpp\<close> with its header). \<open>Stable_Hash\<close> is the FNV hash,
  \<open>Binary64\<close> the arithmetic of C++ doubles on bit patterns. Each class has a theory with a record of
  its members and one function per member function: \<open>Entity_Registry\<close>, \<open>Random_Stream\<close> over
  \<open>Pcg32\<close>, \<open>Tick_Scheduler\<close> and \<open>Event_Queue\<close> over \<open>Due_Key\<close>, \<open>Gameplay_Value\<close>, \<open>Fixed_Tick_Clock\<close>;
  \<open>Gameplay_Runtime\<close> composes them. The lemmas give the invariant of each class, that every operation
  keeps it and that \<open>restore\<close> accepts nothing else, exactly what \<open>runDue\<close> and \<open>popDue\<close> deliver, the
  range and fairness of the random draws and the freshness of identifiers.

  Script callbacks (\<open>src/game/GameplayScripting.cpp\<close>). \<open>Gameplay_Host\<close> models \<open>GameplayHost\<close>, whose five
  maps index each other. \<open>Timer_Firing\<close>, \<open>Host_Invariant\<close>, \<open>Host_Operations\<close>, \<open>Host_Restore\<close> and
  \<open>Host_Sequences\<close> build the invariant between the maps and the scheduler; \<open>Host_Properties\<close> has the
  properties. \<open>Scene_Driver\<close> is \<open>SceneGameplayDriver\<close> with the conversions and functions offered to
  scripts; the scene is a parameter, a record of functions over its own state.

  Saved games (\<open>src/game/GameplayStateCodec.cpp\<close>). \<open>State_Codec\<close> has every writer and reader,
  \<open>Codec_Roundtrip\<close> shows that they invert each other and \<open>Codec_Properties\<close> states the properties of
  the container.

  Values and the managed heap (\<open>include/realscript/runtime/Runtime.h\<close>, \<open>src/runtime/ManagedHeap.cpp\<close>).
  \<open>Runtime_Value\<close> has the values with their dynamic types. \<open>Managed_Heap\<close> models the heap with its
  incremental mark-sweep collector. \<open>Heap_Marking\<close> to \<open>Heap_Properties\<close> prove the tri-colour invariant
  and the safety and completeness of collections. \<open>Heap_Snapshot\<close> and \<open>Heap_Restore\<close> are the image of
  the heap and its checked installation, \<open>Heap_Retaining\<close> the search for what keeps an object alive.
  \<open>Heap_Store\<close> is the abstract specification, a store without slots, marks and free list, which the
  heap refines. \<open>Native_Handles\<close> is the registry of host resources in the same file.

  Fibers (\<open>src/runtime/FiberScheduler.cpp\<close>). \<open>Fiber_Scheduler\<close> models the scheduler of lightweight
  programs: instructions, slices, the timing wheel, blackboard events, killing and the snapshot. The
  host callbacks are parameters and do not call back into the scheduler. \<open>Undefined\<close> marks signed overflow,
  which C++ leaves undefined; the drain of the ready queue is a partial function, because programs
  that fork can keep it filled. \<open>Fiber_Invariant\<close>, \<open>Fiber_Ticks\<close> and \<open>Fiber_Kill\<close> prove the filing of
  fibers, the timing wheel (for runs below \<open>2 ^ 31\<close> ticks) and the killing of subtrees;
  \<open>Fiber_Properties\<close> has the properties.

  Record and replay (\<open>src/runtime/ExecutionServices.cpp\<close>, \<open>src/runtime/RuntimeServices.cpp\<close>).
  \<open>Determinism_Session\<close> models \<open>BindingRegistry\<close> and \<open>DeterminismSession\<close> with the hashes of values;
  host functions are parameters over a state of their own. \<open>Replay_Properties\<close> runs a program that
  chooses each call from the outcomes before it, and shows that a replay reproduces a recording and
  that strict runs agree.

  The interpreter (\<open>src/runtime/Interpreter.cpp\<close>, \<open>src/runtime/ExecutionMirror.h\<close>). \<open>Bytecode\<close> is the
  data model of \<open>bytecode/Bytecode.h\<close> and the linked program, \<open>Vm_Arithmetic\<close> the arithmetic of
  the instructions, \<open>Execution_Mirror\<close> the decoding into quick and fused instructions.
  \<open>Interpreter_State\<close> has the state with budgets and failures, \<open>Interpreter_Checks\<close> the type checks,
  \<open>Interpreter_Instructions\<close> and \<open>Interpreter_Operations\<close> the instructions, \<open>Interpreter\<close> calls and
  delegates, \<open>Interpreter_Functions\<close> blocks, exceptions, frames and \<open>invoke\<close>. A step returns
  \<open>Done\<close>, \<open>Failed\<close> (the \<open>false\<close> of the code), \<open>Crashed\<close> (an exception of C++ or undefined behaviour)
  or \<open>OutOfFuel\<close>. \<open>Interpreter_Budgets\<close> and \<open>Interpreter_Termination\<close> show for every step that it
  stays within the budgets and leaves the frames of the callers alone; \<open>Interpreter_Properties\<close>
  states this for calls and for \<open>invoke\<close>.

  Source text and lexer (\<open>src/text\<close>, \<open>src/diagnostics\<close>, \<open>src/syntax/Lexer.cpp\<close>,
  \<open>src/syntax/SyntaxFacts.cpp\<close>). \<open>Source_Text\<close>, \<open>Syntax_Facts\<close> and \<open>Lexer\<close> model them;
  \<open>Lexer_Properties\<close> shows that the tokens tile the text and that lexemes survive printing.
\<close>

text \<open>
  Bounds and termination. Integers have the width of the code, with wrap-around; offsets into texts
  and lengths of containers in memory are natural numbers. Loops of the code are total functions
  with a measure: the pending part of a queue, the text that is left, the unfinished slots of a
  collection. Where a number bounds a loop it is justified by a lemma: the walk along the parents of
  a retaining path takes at most one step per parent, and a full collection is given the work that
  its phases need. The functions of the interpreter call each other with fuel, one unit per call or
  block; every block and every call costs an instruction of the budget, so twice the instructions left
  plus two is always enough. The rejection loop of the random stream has no bound in the code; it is a partial
  function and shown to return, because the generator runs through all its states.

  Behaviour that C++ leaves open is not given a value. The order of the two draws in \<open>nextUInt64\<close> is
  an argument, and an elapsed time too large for the conversion to an integer makes \<open>accumulate\<close>
  \<open>None\<close>. The sizes of structures that the compiler chooses are part of the configuration of the
  heap.

  Not modelled. The parser and the syntax trees, semantic analysis, the intermediate representation,
  the optimizer, the bytecode codec, verifier and lowering, the checks of the linker, the compiler of
  fiber programs, the ahead-of-time backend, debugger, hot reload, tooling and the binding of script
  objects to scenes are not part of the development. The interpreter runs without a debugger, trace
  sink and profile. The registration of the gameplay functions with the script API, file input and
  output around the codec and the printing of values are left out as glue.
\<close>

end
